(* ===== verification/Isr_Prelude.thy ===== *)
theory Isr_Prelude
  imports Main "HOL-Library.Word"
begin

text \<open>
  Shared vocabulary of the development: machine integers and byte buffers, the
  constants of \<^verbatim>\<open>crypto/isrcrypto.h\<close>, the byte-order macros of
  \<^verbatim>\<open>crypto/internal.h\<close>, \<open>memcpy\<close> into a buffer, and the generic list and word
  lemmas the components use.

  Conventions.  A C pointer that the code compares with \<open>NULL\<close> is an option, \<open>None\<close>
  being \<open>NULL\<close>.  An advancing pointer is the remaining suffix of its buffer.  A value of
  type \<^verbatim>\<open>unsigned\<close> is a \<open>nat\<close> below \<open>2 ^ 32\<close>; where the code's arithmetic can wrap, the
  wrap-around is written with \<open>add32\<close> and \<open>sub32\<close>.  C enumeration arguments are integers,
  so that the code's handling of values outside the enumeration is part of the model.
\<close>

unbundle bit_operations_syntax

section \<open>Machine integers and buffers\<close>

type_synonym u8 = "8 word"
type_synonym u16 = "16 word"
type_synonym u32 = "32 word"
type_synonym u64 = "64 word"
type_synonym bytes = "u8 list"
type_synonym c_enum = int

named_theorems buf_simps "rewriting of buffer contents"
named_theorems xor_simps "cancellation of exclusive or"

definition add32 :: "nat \<Rightarrow> nat \<Rightarrow> nat" where
  "add32 a b = (a + b) mod 2 ^ 32"

definition sub32 :: "nat \<Rightarrow> nat \<Rightarrow> nat" where
  "sub32 a b = (a + 2 ^ 32 - b mod 2 ^ 32) mod 2 ^ 32"

lemma add32_small: "a + b < 2 ^ 32 \<Longrightarrow> add32 a b = a + b"
  by (simp add: add32_def)

lemma sub32_small: "b \<le> a \<Longrightarrow> a < 2 ^ 32 \<Longrightarrow> sub32 a b = a - b"
  by (simp add: sub32_def mod_if)

lemma sub32_wraps: "a < b \<Longrightarrow> b < 2 ^ 32 \<Longrightarrow> sub32 a b = 2 ^ 32 + a - b"
  by (simp add: sub32_def)

section \<open>Results and algorithm codes (isrcrypto.h)\<close>

datatype isrcry_result =
    ISRCRY_OK
  | ISRCRY_INVALID_ARGUMENT
  | ISRCRY_BAD_PADDING
  | ISRCRY_BAD_FORMAT
  | ISRCRY_BUFFER_OVERFLOW
  | ISRCRY_NO_STREAMING

abbreviation (input) ISRCRY_DECRYPT :: c_enum where "ISRCRY_DECRYPT \<equiv> 0"
abbreviation (input) ISRCRY_ENCRYPT :: c_enum where "ISRCRY_ENCRYPT \<equiv> 1"
abbreviation (input) ISRCRY_DECODE :: c_enum where "ISRCRY_DECODE \<equiv> 0"
abbreviation (input) ISRCRY_ENCODE :: c_enum where "ISRCRY_ENCODE \<equiv> 1"
abbreviation (input) ISRCRY_CIPHER_AES :: c_enum where "ISRCRY_CIPHER_AES \<equiv> 0"
abbreviation (input) ISRCRY_MODE_ECB :: c_enum where "ISRCRY_MODE_ECB \<equiv> 0"
abbreviation (input) ISRCRY_MODE_CBC :: c_enum where "ISRCRY_MODE_CBC \<equiv> 1"
abbreviation (input) ISRCRY_PADDING_PKCS5 :: c_enum where "ISRCRY_PADDING_PKCS5 \<equiv> 0"
abbreviation (input) ISRCRY_HASH_SHA1 :: c_enum where "ISRCRY_HASH_SHA1 \<equiv> 0"
abbreviation (input) ISRCRY_HASH_MD5 :: c_enum where "ISRCRY_HASH_MD5 \<equiv> 1"
abbreviation (input) ISRCRY_MAC_HMAC_SHA1 :: c_enum where "ISRCRY_MAC_HMAC_SHA1 \<equiv> 0"
abbreviation (input) ISRCRY_COMPRESS_ZLIB :: c_enum where "ISRCRY_COMPRESS_ZLIB \<equiv> 0"
abbreviation (input) ISRCRY_COMPRESS_LZF :: c_enum where "ISRCRY_COMPRESS_LZF \<equiv> 1"
abbreviation (input) ISRCRY_COMPRESS_LZF_STREAM :: c_enum where "ISRCRY_COMPRESS_LZF_STREAM \<equiv> 2"
abbreviation (input) ISRCRY_COMPRESS_LZMA :: c_enum where "ISRCRY_COMPRESS_LZMA \<equiv> 3"

definition isrcry_strerror :: "isrcry_result \<Rightarrow> string" where
  "isrcry_strerror result = (case result of
     ISRCRY_OK \<Rightarrow> ''Success''
   | ISRCRY_INVALID_ARGUMENT \<Rightarrow> ''Invalid argument''
   | ISRCRY_BAD_PADDING \<Rightarrow> ''Bad padding''
   | ISRCRY_BAD_FORMAT \<Rightarrow> ''Invalid data format''
   | ISRCRY_BUFFER_OVERFLOW \<Rightarrow> ''Buffer too short''
   | ISRCRY_NO_STREAMING \<Rightarrow> ''Algorithm does not support streaming'')"

section \<open>Writing into buffers\<close>

text \<open>\<open>blit dst off src\<close> is the buffer after \<^verbatim>\<open>memcpy(dst + off, src, length src)\<close>.\<close>

definition blit :: "'a list \<Rightarrow> nat \<Rightarrow> 'a list \<Rightarrow> 'a list" where
  "blit dst off src = take off dst @ src @ drop (off + length src) dst"

lemma length_blit [simp]:
  "off + length src \<le> length dst \<Longrightarrow> length (blit dst off src) = length dst"
  by (simp add: blit_def)

lemma blit_Nil [buf_simps]: "blit dst off [] = dst"
  by (simp add: blit_def)

lemma take_blit [buf_simps]:
  "off + length src \<le> length dst \<Longrightarrow> take (off + length src) (blit dst off src) = take off dst @ src"
  by (simp add: blit_def)

lemma take_before_blit [buf_simps]:
  "n \<le> off \<Longrightarrow> off \<le> length dst \<Longrightarrow> take n (blit dst off src) = take n dst"
  by (simp add: blit_def min_def)

lemma blit_over [buf_simps]:
  "length src = length dst \<Longrightarrow> blit dst 0 src = src"
  by (simp add: blit_def)

lemma nth_blit:
  assumes "off + length src \<le> length dst" and "i < length dst"
  shows "blit dst off src ! i =
    (if i < off then dst ! i else if i < off + length src then src ! (i - off) else dst ! i)"
  using assms by (auto simp: blit_def nth_append min_def)

section \<open>Byte order\<close>

definition STORE32H :: "u32 \<Rightarrow> bytes" where
  "STORE32H x = [ucast (drop_bit 24 x), ucast (drop_bit 16 x), ucast (drop_bit 8 x), ucast x]"

definition LOAD32H :: "bytes \<Rightarrow> u32" where
  "LOAD32H y = push_bit 24 (ucast (y ! 0)) OR push_bit 16 (ucast (y ! 1))
     OR push_bit 8 (ucast (y ! 2)) OR ucast (y ! 3)"

definition STORE32L :: "u32 \<Rightarrow> bytes" where
  "STORE32L x = [ucast x, ucast (drop_bit 8 x), ucast (drop_bit 16 x), ucast (drop_bit 24 x)]"

definition LOAD32L :: "bytes \<Rightarrow> u32" where
  "LOAD32L y = push_bit 24 (ucast (y ! 3)) OR push_bit 16 (ucast (y ! 2))
     OR push_bit 8 (ucast (y ! 1)) OR ucast (y ! 0)"

definition STORE16H :: "u16 \<Rightarrow> bytes" where
  "STORE16H x = [ucast (drop_bit 8 x), ucast x]"

definition LOAD16H :: "bytes \<Rightarrow> u16" where
  "LOAD16H y = push_bit 8 (ucast (y ! 0)) OR ucast (y ! 1)"

lemma length_STORE [simp]:
  "length (STORE32H x) = 4" "length (STORE32L x) = 4" "length (STORE16H y) = 2"
  by (simp_all add: STORE32H_def STORE32L_def STORE16H_def)

lemma LOAD32H_STORE32H [simp]: "LOAD32H (STORE32H x @ rest) = x"
proof (rule bit_word_eqI)
  fix n
  assume "n < LENGTH(32)"
  then have "n < 32"
    by simp
  then consider "n < 8" | "8 \<le> n" "n < 16" | "16 \<le> n" "n < 24" | "24 \<le> n" "n < 32"
    by linarith
  then show "bit (LOAD32H (STORE32H x @ rest)) n = bit x n"
    by cases (auto simp: LOAD32H_def STORE32H_def bit_simps)
qed

lemma LOAD32L_STORE32L [simp]: "LOAD32L (STORE32L x @ rest) = x"
proof (rule bit_word_eqI)
  fix n
  assume "n < LENGTH(32)"
  then have "n < 32"
    by simp
  then consider "n < 8" | "8 \<le> n" "n < 16" | "16 \<le> n" "n < 24" | "24 \<le> n" "n < 32"
    by linarith
  then show "bit (LOAD32L (STORE32L x @ rest)) n = bit x n"
    by cases (auto simp: LOAD32L_def STORE32L_def bit_simps)
qed

lemma LOAD16H_STORE16H [simp]: "LOAD16H (STORE16H x @ rest) = x"
  by (rule bit_word_eqI) (auto simp: LOAD16H_def STORE16H_def bit_simps)

lemma STORE32H_LOAD32H:
  assumes "4 \<le> length y"
  shows "STORE32H (LOAD32H y) = take 4 y"
proof -
  obtain a b c d r where y: "y = a # b # c # d # r"
    using assms by (auto simp: numeral_eq_Suc Suc_le_length_iff)
  have "ucast (drop_bit 24 (LOAD32H y)) = a" "ucast (drop_bit 16 (LOAD32H y)) = b"
    "ucast (drop_bit 8 (LOAD32H y)) = c" "ucast (LOAD32H y) = d"
    by (rule bit_word_eqI; auto simp: y LOAD32H_def bit_simps dest: bit_imp_le_length)+
  then show ?thesis
    by (simp add: STORE32H_def y)
qed

lemma LOAD32H_take: "4 \<le> n \<Longrightarrow> n \<le> length y \<Longrightarrow> LOAD32H (take n y) = LOAD32H y"
  by (simp add: LOAD32H_def)

end
