(* ===== verification/Isr_Pad.thy ===== *)
theory Isr_Pad
  imports Isr_Prelude
begin

text \<open>
  PKCS#5 padding, \<^verbatim>\<open>crypto/pad.c\<close>.  A buffer holds at least \<open>blocklen\<close> bytes; the padding
  loop writes the bytes from \<open>datalen\<close> to \<open>blocklen\<close> one by one, the check of the padding
  walks back from the last byte of the block.
\<close>

section \<open>The operations\<close>

definition pad_loop :: "u8 \<Rightarrow> bytes \<Rightarrow> nat \<Rightarrow> nat \<Rightarrow> bytes" where
  "pad_loop pad buf datalen blocklen = foldl (\<lambda>b n. b[n := pad]) buf [datalen..<blocklen]"

definition pkcs5_pad :: "bytes option \<Rightarrow> nat \<Rightarrow> nat \<Rightarrow> isrcry_result \<times> bytes option" where
  "pkcs5_pad buf blocklen datalen =
     (case buf of
        None \<Rightarrow> (ISRCRY_INVALID_ARGUMENT, None)
      | Some b \<Rightarrow>
          if datalen \<ge> blocklen \<or> blocklen - datalen > 255 then (ISRCRY_INVALID_ARGUMENT, Some b)
          else (ISRCRY_OK, Some (pad_loop (of_nat (blocklen - datalen)) b datalen blocklen)))"

definition pkcs5_unpad :: "bytes option \<Rightarrow> nat \<Rightarrow> nat option \<Rightarrow> isrcry_result \<times> nat option" where
  "pkcs5_unpad buf blocklen datalen =
     (case (buf, datalen) of
        (Some b, Some d) \<Rightarrow>
          (let pad = b ! (blocklen - 1) in
           if pad = 0 \<or> unat pad > blocklen then (ISRCRY_BAD_PADDING, Some d)
           else if list_ex (\<lambda>n. b ! (blocklen - n - 1) \<noteq> pad) [1..<unat pad]
             then (ISRCRY_BAD_PADDING, Some d)
           else (ISRCRY_OK, Some (blocklen - unat pad)))
      | _ \<Rightarrow> (ISRCRY_INVALID_ARGUMENT, datalen))"

section \<open>What the padding loop writes\<close>

lemma foldl_update_range:
  "m + k \<le> length b \<Longrightarrow>
   foldl (\<lambda>b n. b[n := p]) b [m..<m + k] = blit b m (replicate k p)"
proof (induction k)
  case 0
  then show ?case by (simp add: buf_simps)
next
  case (Suc k)
  then have "foldl (\<lambda>b n. b[n := p]) b [m..<m + Suc k] = (blit b m (replicate k p))[m + k := p]"
    by simp
  also have "\<dots> = blit b m (replicate (Suc k) p)"
    using Suc.prems by (intro nth_equalityI) (auto simp: nth_blit nth_list_update simp del: replicate_Suc)
  finally show ?case .
qed

lemma pad_loop_blit:
  "d \<le> n \<Longrightarrow> n \<le> length b \<Longrightarrow> pad_loop p b d n = blit b d (replicate (n - d) p)"
  using foldl_update_range [of d "n - d" b p] by (simp add: pad_loop_def)

lemma pkcs5_pad_ok:
  assumes "d < n" "n - d \<le> 255" "n \<le> length b"
  shows "pkcs5_pad (Some b) n d = (ISRCRY_OK, Some (blit b d (replicate (n - d) (of_nat (n - d)))))"
  using assms by (simp add: pkcs5_pad_def pad_loop_blit)

lemma unat_of_nat_u8 [simp]: "k \<le> 255 \<Longrightarrow> unat (of_nat k :: u8) = k"
  by (simp add: unat_of_nat)

text \<open>Exactly the blocks that end in \<open>k\<close> bytes of value \<open>k\<close>, \<open>1 \<le> k \<le> blocklen\<close>, are accepted.\<close>

lemma pkcs5_unpad_ok_iff:
  assumes "0 < n" "n \<le> length b"
  shows "pkcs5_unpad (Some b) n (Some d) = (ISRCRY_OK, Some d') \<longleftrightarrow>
    (\<exists>k. 0 < k \<and> k \<le> n \<and> k \<le> 255 \<and> d' = n - k \<and>
         (\<forall>i. n - k \<le> i \<longrightarrow> i < n \<longrightarrow> b ! i = of_nat k))" (is "?L \<longleftrightarrow> ?R")
proof
  let ?p = "b ! (n - 1)"
  assume ?L
  then have "\<not> (?p = 0 \<or> unat ?p > n) \<and> \<not> list_ex (\<lambda>j. b ! (n - j - 1) \<noteq> ?p) [1..<unat ?p]
      \<and> d' = n - unat ?p"
    unfolding pkcs5_unpad_def Let_def by (simp split: if_split_asm)
  then have p: "?p \<noteq> 0" "unat ?p \<le> n" "d' = n - unat ?p"
    and all: "\<forall>j\<in>{1..<unat ?p}. b ! (n - j - 1) = ?p"
    unfolding list_ex_iff set_upt by (blast, linarith, blast, blast)
  define k where "k = unat ?p"
  have "b ! i = of_nat k" if "n - k \<le> i" "i < n" for i
  proof (cases "i = n - 1")
    case True
    then show ?thesis by (simp add: k_def)
  next
    case False
    with that have "n - i - 1 \<in> {1..<k}" "n - (n - i - 1) - 1 = i"
      by (simp_all, linarith)
    with all show ?thesis
      unfolding k_def by (metis of_nat_unat ucast_id)
  qed
  moreover have "0 < k" "k \<le> 255"
    using p(1) unsigned_less [of ?p, where 'a = nat] by (simp_all add: k_def unat_gt_0)
  ultimately show ?R
    using p(2,3) k_def by blast
next
  assume ?R
  then obtain k where k: "0 < k" "k \<le> n" "k \<le> 255" "d' = n - k"
    and all: "\<And>i. n - k \<le> i \<Longrightarrow> i < n \<Longrightarrow> b ! i = of_nat k"
    by blast
  have p: "b ! (n - 1) = of_nat k"
    using all [of "n - 1"] k assms by simp
  have u: "unat (of_nat k :: u8) = k"
    using k(3) by simp
  then have nz: "(of_nat k :: u8) \<noteq> 0"
    using k(1) by (metis less_irrefl unat_0)
  have "b ! (n - j - 1) = of_nat k" if "j \<in> {1..<k}" for j
    using that k assms by (intro all) auto
  then show ?L
    using k p u nz by (auto simp: pkcs5_unpad_def Let_def list_ex_iff)
qed

lemma pkcs5_unpad_blit:
  assumes "d < n" "n - d \<le> 255" "n \<le> length b"
  shows "pkcs5_unpad (Some (blit b d (replicate (n - d) (of_nat (n - d))))) n (Some x) =
    (ISRCRY_OK, Some d)"
proof -
  have "0 < n - d \<and> n - d \<le> n \<and> n - d \<le> 255 \<and> d = n - (n - d) \<and>
      (\<forall>i. n - (n - d) \<le> i \<longrightarrow> i < n \<longrightarrow>
        blit b d (replicate (n - d) (of_nat (n - d))) ! i = of_nat (n - d))"
    using assms by (auto simp: nth_blit)
  then show ?thesis
    using assms by (subst pkcs5_unpad_ok_iff) (auto intro!: exI [of _ "n - d"])
qed

section \<open>Removing the padding of a whole message\<close>

text \<open>The data in front of a valid padding to blocks of \<open>n\<close> bytes; nothing when the padding is not valid.\<close>

definition pkcs5_strip :: "nat \<Rightarrow> bytes \<Rightarrow> bytes option" where
  "pkcs5_strip n xs =
     (let p = unat (last xs) in
      if 0 < p \<and> p \<le> n \<and> drop (length xs - p) xs = replicate p (last xs) then Some (take (length xs - p) xs) else None)"

lemma pkcs5_strip_append:
  assumes "length L = n" "0 < n"
  shows "pkcs5_strip n (A @ L) = map_option ((@) A) (pkcs5_strip n L)"
proof -
  have "L \<noteq> []"
    using assms by auto
  with assms show ?thesis
    by (auto simp: pkcs5_strip_def Let_def)
qed

lemma pkcs5_unpad_strip:
  assumes "length L = n" "0 < n"
  shows "pkcs5_unpad (Some L) n (Some d) =
    (case pkcs5_strip n L of None \<Rightarrow> (ISRCRY_BAD_PADDING, Some d) | Some z \<Rightarrow> (ISRCRY_OK, Some (length z)))"
proof -
  let ?p = "last L"
  have L: "L ! (n - 1) = ?p"
    using assms by (metis last_conv_nth length_greater_0_conv)
  have "list_ex (\<lambda>j. L ! (n - j - 1) \<noteq> ?p) [1..<unat ?p] \<longleftrightarrow> drop (n - unat ?p) L \<noteq> replicate (unat ?p) ?p"
    if "unat ?p \<le> n" "0 < unat ?p"
  proof -
    have "drop (n - unat ?p) L = replicate (unat ?p) ?p \<longleftrightarrow> (\<forall>i<unat ?p. L ! (n - unat ?p + i) = ?p)"
      using that assms by (auto simp: list_eq_iff_nth_eq)
    also have "\<dots> \<longleftrightarrow> (\<forall>j\<in>{1..<unat ?p}. L ! (n - j - 1) = ?p)"
    proof safe
      fix j
      assume *: "\<forall>i<unat ?p. L ! (n - unat ?p + i) = ?p" "j \<in> {1..<unat ?p}"
      then have "n - unat ?p + (unat ?p - j - 1) = n - j - 1" "unat ?p - j - 1 < unat ?p"
        using that by auto
      with * show "L ! (n - j - 1) = ?p"
        by metis
    next
      fix i
      assume *: "\<forall>j\<in>{1..<unat ?p}. L ! (n - j - 1) = ?p" "i < unat ?p"
      show "L ! (n - unat ?p + i) = ?p"
      proof (cases "i = unat ?p - 1")
        case True
        then have "n - unat ?p + i = n - 1"
          using that by simp
        then show ?thesis
          using L by simp
      next
        case False
        then have "unat ?p - i - 1 \<in> {1..<unat ?p}" "n - (unat ?p - i - 1) - 1 = n - unat ?p + i"
          using * that by auto
        with * show ?thesis
          by metis
      qed
    qed
    finally show ?thesis
      by (auto simp: list_ex_iff)
  qed
  then show ?thesis
    using assms L unat_gt_0 [of ?p] by (auto simp: pkcs5_unpad_def pkcs5_strip_def Let_def)
qed

end
