(* ===== verification/Isr_Modes.thy ===== *)
theory Isr_Modes
  imports Isr_Prelude
begin

text \<open>
  The cipher context of \<^verbatim>\<open>crypto/internal.h\<close> and the two chaining modes \<^verbatim>\<open>crypto/ecb.c\<close> and
  \<^verbatim>\<open>crypto/cbc.c\<close>, over any block cipher descriptor.  A routine that writes through an
  output pointer takes the buffer from that pointer on and returns its new contents.  The
  modes are proved against their block-wise definitions inside the locale
  \<open>block_cipher\<close>, the contract a cipher descriptor has to keep.
\<close>

section \<open>Contexts and descriptors\<close>

definition MAX_BLOCK_LEN :: nat where "MAX_BLOCK_LEN = 16"

record 'k isrcry_cipher_desc =
  cd_init :: "'k \<Rightarrow> bytes option \<Rightarrow> int \<Rightarrow> isrcry_result \<times> 'k"
  cd_encrypt :: "'k \<Rightarrow> bytes option \<Rightarrow> bytes option \<Rightarrow> isrcry_result \<times> bytes option"
  cd_decrypt :: "'k \<Rightarrow> bytes option \<Rightarrow> bytes option \<Rightarrow> isrcry_result \<times> bytes option"
  cd_blocklen :: nat
  cd_zero :: 'k \<comment> \<open>the zero-filled key schedule of \<open>ctxlen\<close> bytes\<close>

datatype isrcry_mode_desc = isrcry_ecb_desc | isrcry_cbc_desc

record 'k isrcry_cipher_ctx =
  cc_cipher :: "'k isrcry_cipher_desc"
  cc_mode :: isrcry_mode_desc
  cc_key :: 'k
  cc_iv :: bytes
  cc_direction :: c_enum

section \<open>ECB\<close>

type_synonym block_fun = "bytes option \<Rightarrow> bytes option \<Rightarrow> isrcry_result \<times> bytes option"

function ecb_loop :: "block_fun \<Rightarrow> nat \<Rightarrow> bytes \<Rightarrow> nat \<Rightarrow> bytes \<Rightarrow> isrcry_result \<times> bytes" where
  "ecb_loop f blocklen inp len out =
     (if len = 0 \<or> blocklen = 0 then (ISRCRY_OK, out)
      else case f (Some inp) (Some out) of
        (ISRCRY_OK, Some out1) \<Rightarrow>
          (case ecb_loop f blocklen (drop blocklen inp) (len - blocklen) (drop blocklen out1) of
             (ret, out2) \<Rightarrow> (ret, take blocklen out1 @ out2))
      | (ret, out1) \<Rightarrow> (ret, case out1 of Some b \<Rightarrow> b | None \<Rightarrow> out))"
  by pat_completeness auto
termination
  by (relation "measure (\<lambda>(f, bl, inp, len, out). len)") auto

definition ecb_encrypt :: "'k isrcry_cipher_ctx \<Rightarrow> bytes option \<Rightarrow> nat \<Rightarrow> bytes option
    \<Rightarrow> isrcry_result \<times> 'k isrcry_cipher_ctx \<times> bytes option" where
  "ecb_encrypt cctx inp len out =
     (let blocklen = cd_blocklen (cc_cipher cctx) in
      case (inp, out) of
        (Some i, Some o1) \<Rightarrow>
          if len mod blocklen \<noteq> 0 then (ISRCRY_INVALID_ARGUMENT, cctx, out)
          else (case ecb_loop (cd_encrypt (cc_cipher cctx) (cc_key cctx)) blocklen i len o1 of
                  (ret, o2) \<Rightarrow> (ret, cctx, Some o2))
      | _ \<Rightarrow> (ISRCRY_INVALID_ARGUMENT, cctx, out))"

definition ecb_decrypt :: "'k isrcry_cipher_ctx \<Rightarrow> bytes option \<Rightarrow> nat \<Rightarrow> bytes option
    \<Rightarrow> isrcry_result \<times> 'k isrcry_cipher_ctx \<times> bytes option" where
  "ecb_decrypt cctx inp len out =
     (let blocklen = cd_blocklen (cc_cipher cctx) in
      case (inp, out) of
        (Some i, Some o1) \<Rightarrow>
          if len mod blocklen \<noteq> 0 then (ISRCRY_INVALID_ARGUMENT, cctx, out)
          else (case ecb_loop (cd_decrypt (cc_cipher cctx) (cc_key cctx)) blocklen i len o1 of
                  (ret, o2) \<Rightarrow> (ret, cctx, Some o2))
      | _ \<Rightarrow> (ISRCRY_INVALID_ARGUMENT, cctx, out))"

section \<open>CBC\<close>

definition xor_bytes :: "bytes \<Rightarrow> bytes \<Rightarrow> bytes" where
  "xor_bytes xs ys = map2 (XOR) xs ys"

function cbc_encrypt_loop ::
    "block_fun \<Rightarrow> nat \<Rightarrow> bytes \<Rightarrow> bytes \<Rightarrow> nat \<Rightarrow> bytes \<Rightarrow> isrcry_result \<times> bytes \<times> bytes" where
  "cbc_encrypt_loop f blocklen ivb inp len out =
     (if len = 0 \<or> blocklen = 0 then (ISRCRY_OK, ivb, out)
      else
        let iv1 = blit ivb 0 (xor_bytes (take blocklen ivb) (take blocklen inp)) in
        case f (Some iv1) (Some out) of
          (ISRCRY_OK, Some out1) \<Rightarrow>
            let iv2 = blit iv1 0 (take blocklen out1) in
            (case cbc_encrypt_loop f blocklen iv2 (drop blocklen inp) (len - blocklen)
                    (drop blocklen out1) of
               (ret, iv3, out2) \<Rightarrow> (ret, iv3, take blocklen out1 @ out2))
        | (ret, out1) \<Rightarrow> (ret, iv1, case out1 of Some b \<Rightarrow> b | None \<Rightarrow> out))"
  by pat_completeness auto
termination
  by (relation "measure (\<lambda>(f, bl, ivb, inp, len, out). len)") auto

definition cbc_encrypt :: "'k isrcry_cipher_ctx \<Rightarrow> bytes option \<Rightarrow> nat \<Rightarrow> bytes option
    \<Rightarrow> isrcry_result \<times> 'k isrcry_cipher_ctx \<times> bytes option" where
  "cbc_encrypt cctx inp len out =
     (let blocklen = cd_blocklen (cc_cipher cctx) in
      case (inp, out) of
        (Some i, Some o1) \<Rightarrow>
          if blocklen < 1 \<or> len mod blocklen \<noteq> 0 then (ISRCRY_INVALID_ARGUMENT, cctx, out)
          else (case cbc_encrypt_loop (cd_encrypt (cc_cipher cctx) (cc_key cctx)) blocklen (cc_iv cctx) i len o1 of
                  (ret, iv1, o2) \<Rightarrow> (ret, cctx\<lparr>cc_iv := iv1\<rparr>, Some o2))
      | _ \<Rightarrow> (ISRCRY_INVALID_ARGUMENT, cctx, out))"

text \<open>
  The decryption loop decrypts into the 16-byte temporary \<open>tmp\<close>, whose earlier contents the
  loop below carries from one iteration to the next.
\<close>

function cbc_decrypt_loop ::
    "block_fun \<Rightarrow> nat \<Rightarrow> bytes \<Rightarrow> bytes \<Rightarrow> bytes \<Rightarrow> nat \<Rightarrow> bytes \<Rightarrow> isrcry_result \<times> bytes \<times> bytes" where
  "cbc_decrypt_loop f blocklen tmp ivb inp len out =
     (if len = 0 \<or> blocklen = 0 then (ISRCRY_OK, ivb, out)
      else case f (Some inp) (Some tmp) of
          (ISRCRY_OK, Some tmp1) \<Rightarrow>
            let out1 = blit out 0 (xor_bytes (take blocklen tmp1) (take blocklen ivb));
                iv1 = blit ivb 0 (take blocklen inp) in
            (case cbc_decrypt_loop f blocklen tmp1 iv1 (drop blocklen inp) (len - blocklen)
                    (drop blocklen out1) of
               (ret, iv2, out2) \<Rightarrow> (ret, iv2, take blocklen out1 @ out2))
        | (ret, _) \<Rightarrow> (ret, ivb, out))"
  by pat_completeness auto
termination
  by (relation "measure (\<lambda>(f, bl, tmp, ivb, inp, len, out). len)") auto

definition cbc_decrypt :: "'k isrcry_cipher_ctx \<Rightarrow> bytes option \<Rightarrow> nat \<Rightarrow> bytes option
    \<Rightarrow> isrcry_result \<times> 'k isrcry_cipher_ctx \<times> bytes option" where
  "cbc_decrypt cctx inp len out =
     (let blocklen = cd_blocklen (cc_cipher cctx) in
      case (inp, out) of
        (Some i, Some o1) \<Rightarrow>
          if blocklen < 1 \<or> len mod blocklen \<noteq> 0 then (ISRCRY_INVALID_ARGUMENT, cctx, out)
          else (case cbc_decrypt_loop (cd_decrypt (cc_cipher cctx) (cc_key cctx)) blocklen (replicate 16 0)
                       (cc_iv cctx) i len o1 of
                  (ret, iv1, o2) \<Rightarrow> (ret, cctx\<lparr>cc_iv := iv1\<rparr>, Some o2))
      | _ \<Rightarrow> (ISRCRY_INVALID_ARGUMENT, cctx, out))"

declare ecb_loop.simps [simp del] cbc_encrypt_loop.simps [simp del] cbc_decrypt_loop.simps [simp del]

section \<open>Block-wise specification of the modes\<close>

text \<open>\<open>n\<close> blocks of \<open>bl\<close> bytes; the CBC functions also return the next chaining value.\<close>

primrec ecb_spec :: "(bytes \<Rightarrow> bytes) \<Rightarrow> nat \<Rightarrow> nat \<Rightarrow> bytes \<Rightarrow> bytes" where
  "ecb_spec F bl 0 xs = []"
| "ecb_spec F bl (Suc n) xs = F (take bl xs) @ ecb_spec F bl n (drop bl xs)"

primrec cbc_enc_spec :: "(bytes \<Rightarrow> bytes) \<Rightarrow> nat \<Rightarrow> nat \<Rightarrow> bytes \<Rightarrow> bytes \<Rightarrow> bytes \<times> bytes" where
  "cbc_enc_spec F bl 0 c xs = (c, [])"
| "cbc_enc_spec F bl (Suc n) c xs =
     (let c1 = F (xor_bytes c (take bl xs)) in
      case cbc_enc_spec F bl n c1 (drop bl xs) of (c2, cs) \<Rightarrow> (c2, c1 @ cs))"

primrec cbc_dec_spec :: "(bytes \<Rightarrow> bytes) \<Rightarrow> nat \<Rightarrow> nat \<Rightarrow> bytes \<Rightarrow> bytes \<Rightarrow> bytes \<times> bytes" where
  "cbc_dec_spec G bl 0 c xs = (c, [])"
| "cbc_dec_spec G bl (Suc n) c xs =
     (case cbc_dec_spec G bl n (take bl xs) (drop bl xs) of
        (c2, ps) \<Rightarrow> (c2, xor_bytes (G (take bl xs)) c @ ps))"

lemma length_xor_bytes [simp]: "length (xor_bytes xs ys) = min (length xs) (length ys)"
  by (simp add: xor_bytes_def)

lemma xor_bytes_cancel [xor_simps]:
  "length xs = length ys \<Longrightarrow> xor_bytes (xor_bytes xs ys) xs = ys"
  by (rule nth_equalityI) (simp_all add: xor_bytes_def xor.left_commute [of _ "xs ! _"] xor.commute)

lemma xor_bytes_cancel_right [xor_simps]:
  "length xs = length ys \<Longrightarrow> xor_bytes ys (xor_bytes xs ys) = xs"
  by (rule nth_equalityI) (simp_all add: xor_bytes_def xor.left_commute [of _ "xs ! _"])

lemma cbc_dec_spec_add:
  "cbc_dec_spec G bl (m + n) c xs = (case cbc_dec_spec G bl m c xs of (c1, ps) \<Rightarrow>
     case cbc_dec_spec G bl n c1 (drop (m * bl) xs) of (c2, qs) \<Rightarrow> (c2, ps @ qs))"
  by (induction m arbitrary: c xs) (simp_all add: split_beta add.commute)

section \<open>The contract of a block cipher\<close>

locale block_cipher =
  fixes bl :: nat
    and enc dec :: "'k \<Rightarrow> block_fun"
    and E D :: "'k \<Rightarrow> bytes \<Rightarrow> bytes"
    and wf_key :: "'k \<Rightarrow> bool"
  assumes bl_pos: "0 < bl" and bl_max: "bl \<le> MAX_BLOCK_LEN"
    and enc_eq: "wf_key k \<Longrightarrow> bl \<le> length i \<Longrightarrow> bl \<le> length b \<Longrightarrow>
      enc k (Some i) (Some b) = (ISRCRY_OK, Some (blit b 0 (E k (take bl i))))"
    and dec_eq: "wf_key k \<Longrightarrow> bl \<le> length i \<Longrightarrow> bl \<le> length b \<Longrightarrow>
      dec k (Some i) (Some b) = (ISRCRY_OK, Some (blit b 0 (D k (take bl i))))"
    and E_len: "wf_key k \<Longrightarrow> length x = bl \<Longrightarrow> length (E k x) = bl"
    and D_len: "wf_key k \<Longrightarrow> length x = bl \<Longrightarrow> length (D k x) = bl"
    and D_E: "wf_key k \<Longrightarrow> length x = bl \<Longrightarrow> D k (E k x) = x"
begin

lemma ecb_spec_len:
  assumes "wf_key k" "n * bl \<le> length xs"
  shows "length (ecb_spec (E k) bl n xs) = n * bl"
  using assms by (induction n arbitrary: xs) (auto simp: E_len)

lemma ecb_dec_enc_spec:
  assumes "wf_key k" "n * bl \<le> length xs"
  shows "ecb_spec (D k) bl n (ecb_spec (E k) bl n xs @ rest) = take (n * bl) xs"
  using assms
proof (induction n arbitrary: xs)
  case (Suc n)
  then show ?case
    by (simp add: E_len D_E take_add [symmetric])
qed simp

lemma ecb_enc_loop:
  assumes "wf_key k" "n * bl \<le> length i" "n * bl \<le> length b"
  shows "ecb_loop (enc k) bl i (n * bl) b = (ISRCRY_OK, ecb_spec (E k) bl n i @ drop (n * bl) b)"
  using assms
proof (induction n arbitrary: i b)
  case (Suc n)
  then have l: "length (E k (take bl i)) = bl" "bl \<le> length i" "bl \<le> length b"
    by (auto simp: E_len)
  show ?case
    using Suc l bl_pos by (subst ecb_loop.simps) (simp add: enc_eq blit_def add.commute)
qed (simp add: ecb_loop.simps)

lemma ecb_dec_loop:
  assumes "wf_key k" "n * bl \<le> length i" "n * bl \<le> length b"
  shows "ecb_loop (dec k) bl i (n * bl) b = (ISRCRY_OK, ecb_spec (D k) bl n i @ drop (n * bl) b)"
  using assms
proof (induction n arbitrary: i b)
  case (Suc n)
  then have l: "length (D k (take bl i)) = bl" "bl \<le> length i" "bl \<le> length b"
    by (auto simp: D_len)
  show ?case
    using Suc l bl_pos by (subst ecb_loop.simps) (simp add: dec_eq blit_def add.commute)
qed (simp add: ecb_loop.simps)

lemma cbc_enc_spec_len:
  assumes "wf_key k" "length c = bl" "n * bl \<le> length xs"
  shows "length (snd (cbc_enc_spec (E k) bl n c xs)) = n * bl"
    and "length (fst (cbc_enc_spec (E k) bl n c xs)) = bl"
  using assms
  by (induction n arbitrary: c xs) (simp_all add: E_len Let_def split_beta)

lemma cbc_dec_enc_spec:
  assumes "wf_key k" "length c = bl" "n * bl \<le> length xs"
  shows "cbc_dec_spec (D k) bl n c (snd (cbc_enc_spec (E k) bl n c xs) @ rest) =
    (fst (cbc_enc_spec (E k) bl n c xs), take (n * bl) xs)"
  using assms
proof (induction n arbitrary: c xs)
  case (Suc n)
  define c1 where "c1 = E k (xor_bytes c (take bl xs))"
  have c1: "length c1 = bl"
    using Suc.prems by (simp add: c1_def E_len)
  have IH: "cbc_dec_spec (D k) bl n c1 (snd (cbc_enc_spec (E k) bl n c1 (drop bl xs)) @ rest) =
      (fst (cbc_enc_spec (E k) bl n c1 (drop bl xs)), take (n * bl) (drop bl xs))"
    using Suc.prems c1 by (intro Suc.IH) auto
  have x: "xor_bytes (D k c1) c = take bl xs"
    using Suc.prems by (simp add: c1_def D_E xor_simps)
  show ?case
    using Suc.prems IH c1 x
    by (simp add: Let_def c1_def [symmetric] split_beta take_add)
qed simp

lemma cbc_enc_loop:
  assumes "wf_key k" "n * bl \<le> length i" "n * bl \<le> length b" "bl \<le> length v"
  shows "cbc_encrypt_loop (enc k) bl v i (n * bl) b =
    (ISRCRY_OK, blit v 0 (fst (cbc_enc_spec (E k) bl n (take bl v) i)),
     snd (cbc_enc_spec (E k) bl n (take bl v) i) @ drop (n * bl) b)"
  using assms
proof (induction n arbitrary: i b v)
  case 0
  then show ?case by (simp add: cbc_encrypt_loop.simps blit_def)
next
  case (Suc n)
  define x where "x = xor_bytes (take bl v) (take bl i)"
  define v2 where "v2 = blit (blit v 0 x) 0 (E k x)"
  have x: "length x = bl" "length (E k x) = bl" and l: "bl \<le> length i" "bl \<le> length b"
    using Suc.prems by (auto simp: x_def E_len)
  have v2: "take bl v2 = E k x" "bl \<le> length v2" "blit v2 0 c = blit v 0 c" if "length c = bl" for c
    using Suc.prems x that by (auto simp: v2_def blit_def)
  have len: "length (fst (cbc_enc_spec (E k) bl n (E k x) (drop bl i))) = bl"
    using Suc.prems x by (intro cbc_enc_spec_len) auto
  have IH: "cbc_encrypt_loop (enc k) bl v2 (drop bl i) (n * bl) (drop bl b) =
    (ISRCRY_OK, blit v 0 (fst (cbc_enc_spec (E k) bl n (E k x) (drop bl i))),
     snd (cbc_enc_spec (E k) bl n (E k x) (drop bl i)) @ drop (n * bl) (drop bl b))"
    using Suc.prems v2 [OF len] by (subst Suc.IH) auto
  have e: "enc k (Some (blit v 0 x)) (Some b) = (ISRCRY_OK, Some (E k x @ drop bl b))"
    using Suc.prems x l by (simp add: enc_eq blit_def)
  show ?case
    using Suc.prems bl_pos x e IH
    by (subst cbc_encrypt_loop.simps)
      (simp add: x_def [symmetric] v2_def [symmetric] Let_def add.commute split_beta)
qed

lemma cbc_dec_loop:
  assumes "wf_key k" "n * bl \<le> length i" "n * bl \<le> length b" "bl \<le> length v" "bl \<le> length t"
  shows "cbc_decrypt_loop (dec k) bl t v i (n * bl) b =
    (ISRCRY_OK, blit v 0 (fst (cbc_dec_spec (D k) bl n (take bl v) i)),
     snd (cbc_dec_spec (D k) bl n (take bl v) i) @ drop (n * bl) b)"
  using assms
proof (induction n arbitrary: i b v t)
  case 0
  then show ?case by (simp add: cbc_decrypt_loop.simps blit_def)
next
  case (Suc n)
  define v1 where "v1 = blit v 0 (take bl i)"
  have l: "bl \<le> length i" "bl \<le> length b" and d: "length (D k (take bl i)) = bl"
    using Suc.prems by (auto simp: D_len)
  have v1: "take bl v1 = take bl i" "bl \<le> length v1" "length c = bl \<Longrightarrow> blit v1 0 c = blit v 0 c" for c
    using Suc.prems l by (auto simp: v1_def blit_def)
  have len: "length (fst (cbc_dec_spec (D k) bl m c xs)) = bl"
    if "length c = bl" "m * bl \<le> length xs" for m c xs
    using that by (induction m arbitrary: c xs) (simp_all add: split_beta)
  have IH: "cbc_decrypt_loop (dec k) bl (D k (take bl i) @ drop bl t) v1 (drop bl i) (n * bl) (drop bl b) =
    (ISRCRY_OK, blit v 0 (fst (cbc_dec_spec (D k) bl n (take bl i) (drop bl i))),
     snd (cbc_dec_spec (D k) bl n (take bl i) (drop bl i)) @ drop (n * bl) (drop bl b))"
    using Suc.prems v1 l d len [of "take bl i" n "drop bl i"] by (subst Suc.IH) auto
  have e: "dec k (Some i) (Some t) = (ISRCRY_OK, Some (D k (take bl i) @ drop bl t))"
    using Suc.prems l d by (simp add: dec_eq blit_def)
  show ?case
    using Suc.prems bl_pos l d e IH
    by (subst cbc_decrypt_loop.simps)
      (simp add: v1_def Let_def blit_def add.commute split_beta)
qed

text \<open>A cipher that keeps the contract is a permutation of the blocks, so decryption is also the right inverse.\<close>

lemma E_D:
  assumes "wf_key k" "length x = bl"
  shows "E k (D k x) = x"
proof -
  let ?B = "{x :: bytes. length x = bl}"
  have "finite ?B"
    using finite_lists_length_eq [of "UNIV :: u8 set" bl] by simp
  moreover have "inj_on (E k) ?B"
    using D_E [OF assms(1)] by (intro inj_on_inverseI [where g = "D k"]) simp
  moreover have "E k ` ?B \<subseteq> ?B"
    using E_len [OF assms(1)] by auto
  ultimately have "E k ` ?B = ?B"
    by (metis endo_inj_surj)
  then obtain y where "x = E k y" "length y = bl"
    using assms(2) by blast
  then show ?thesis
    using D_E [OF assms(1)] by simp
qed

lemma cbc_enc_dec_spec:
  assumes "wf_key k" "length c = bl" "n * bl \<le> length xs"
  shows "cbc_enc_spec (E k) bl n c (snd (cbc_dec_spec (D k) bl n c xs)) =
    (fst (cbc_dec_spec (D k) bl n c xs), take (n * bl) xs)"
  using assms
proof (induction n arbitrary: c xs)
  case (Suc n)
  let ?x = "take bl xs"
  have x: "length ?x = bl" "length (D k ?x) = bl"
    using Suc.prems D_len [of k ?x] by simp_all
  have e: "E k (xor_bytes c (xor_bytes (D k ?x) c)) = ?x"
    using Suc.prems x E_D [of k ?x] by (simp add: xor_simps)
  have "cbc_enc_spec (E k) bl n ?x (snd (cbc_dec_spec (D k) bl n ?x (drop bl xs))) =
      (fst (cbc_dec_spec (D k) bl n ?x (drop bl xs)), take (n * bl) (drop bl xs))"
    using Suc.prems x by (intro Suc.IH) auto
  then show ?case
    using Suc.prems x e by (simp add: split_beta Let_def take_add)
qed simp

end

end
