(* ===== verification/Isr_AES.thy ===== *)
theory Isr_AES
  imports Isr_AES_Tab Isr_Modes
begin

text \<open>
  The table-driven AES of \<^verbatim>\<open>crypto/aes.c\<close>: key schedules for 128, 192 and 256-bit keys with
  their inverses, encryption and decryption of one block.  The tables are those of
  \<open>Isr_AES_Tab\<close>.  The main result is that a key schedule made by \<open>aes_init\<close> makes
  \<open>aes_decrypt\<close> the inverse of \<open>aes_encrypt\<close>, so the AES descriptor keeps the contract
  \<open>block_cipher\<close>.
\<close>

section \<open>Key schedule\<close>

record isrcry_aes_key =
  eK :: "u32 list"
  dK :: "u32 list"
  Nr :: nat

definition byte :: "u32 \<Rightarrow> nat \<Rightarrow> nat" where
  "byte x n = unat (drop_bit (8 * n) x AND 255)"

definition RORc :: "u32 \<Rightarrow> nat \<Rightarrow> u32" where
  "RORc x y = drop_bit (y mod 32) x OR push_bit (32 - y mod 32) x"

definition setup_mix :: "u32 \<Rightarrow> u32" where
  "setup_mix temp = Te4_3 ! byte temp 2 XOR Te4_2 ! byte temp 1 XOR Te4_1 ! byte temp 0
     XOR Te4_0 ! byte temp 3"

definition aes_expand_16 :: "u32 list \<Rightarrow> nat \<Rightarrow> u32 list" where
  "aes_expand_16 ek i =
     (let p = 4 * i;
          ek = ek[p + 4 := ek ! p XOR setup_mix (ek ! (p + 3)) XOR rcon ! i];
          ek = ek[p + 5 := ek ! (p + 1) XOR ek ! (p + 4)];
          ek = ek[p + 6 := ek ! (p + 2) XOR ek ! (p + 5)]
      in ek[p + 7 := ek ! (p + 3) XOR ek ! (p + 6)])"

definition aes_expand_24 :: "u32 list \<Rightarrow> nat \<Rightarrow> u32 list" where
  "aes_expand_24 ek i =
     (let p = 6 * i;
          ek = ek[p + 6 := ek ! p XOR setup_mix (ek ! (p + 5)) XOR rcon ! i];
          ek = ek[p + 7 := ek ! (p + 1) XOR ek ! (p + 6)];
          ek = ek[p + 8 := ek ! (p + 2) XOR ek ! (p + 7)];
          ek = ek[p + 9 := ek ! (p + 3) XOR ek ! (p + 8)]
      in if i + 1 = 8 then ek
         else let ek = ek[p + 10 := ek ! (p + 4) XOR ek ! (p + 9)]
              in ek[p + 11 := ek ! (p + 5) XOR ek ! (p + 10)])"

definition aes_expand_32 :: "u32 list \<Rightarrow> nat \<Rightarrow> u32 list" where
  "aes_expand_32 ek i =
     (let p = 8 * i;
          ek = ek[p + 8 := ek ! p XOR setup_mix (ek ! (p + 7)) XOR rcon ! i];
          ek = ek[p + 9 := ek ! (p + 1) XOR ek ! (p + 8)];
          ek = ek[p + 10 := ek ! (p + 2) XOR ek ! (p + 9)];
          ek = ek[p + 11 := ek ! (p + 3) XOR ek ! (p + 10)]
      in if i + 1 = 7 then ek
         else let ek = ek[p + 12 := ek ! (p + 4) XOR setup_mix (RORc (ek ! (p + 11)) 8)];
                  ek = ek[p + 13 := ek ! (p + 5) XOR ek ! (p + 12)];
                  ek = ek[p + 14 := ek ! (p + 6) XOR ek ! (p + 13)]
              in ek[p + 15 := ek ! (p + 7) XOR ek ! (p + 14)])"

text \<open>Words \<open>0\<close> to \<open>n\<close> of the schedule are loaded from the key.\<close>

definition load_key :: "u32 list \<Rightarrow> bytes \<Rightarrow> nat \<Rightarrow> u32 list" where
  "load_key ek key n = foldl (\<lambda>ek i. ek[i := LOAD32H (drop (4 * i) key)]) ek [0..<n]"

definition aes_setup_ek :: "u32 list \<Rightarrow> bytes \<Rightarrow> int \<Rightarrow> u32 list" where
  "aes_setup_ek ek key keylen =
     (if keylen = 16 then foldl aes_expand_16 (load_key ek key 4) [0..<10]
      else if keylen = 24 then foldl aes_expand_24 (load_key ek key 6) [0..<8]
      else foldl aes_expand_32 (load_key ek key 8) [0..<7])"

definition inv_mix :: "u32 \<Rightarrow> u32" where
  "inv_mix temp = Tks0 ! byte temp 3 XOR Tks1 ! byte temp 2 XOR Tks2 ! byte temp 1 XOR Tks3 ! byte temp 0"

definition aes_setup_dk :: "u32 list \<Rightarrow> u32 list \<Rightarrow> nat \<Rightarrow> u32 list" where
  "aes_setup_dk ek dk nr =
     (let rrk = 4 * nr;
          dk = dk[0 := ek ! rrk, 1 := ek ! (rrk + 1), 2 := ek ! (rrk + 2), 3 := ek ! (rrk + 3)];
          dk = foldl (\<lambda>dk i.
                 let rk = 4 * i; rrk = 4 * nr - 4 * i in
                 dk[rk := inv_mix (ek ! rrk), rk + 1 := inv_mix (ek ! (rrk + 1)),
                    rk + 2 := inv_mix (ek ! (rrk + 2)), rk + 3 := inv_mix (ek ! (rrk + 3))])
               dk [1..<nr];
          rk = 4 * nr
      in dk[rk := ek ! 0, rk + 1 := ek ! 1, rk + 2 := ek ! 2, rk + 3 := ek ! 3])"

text \<open>\<open>k\<close> has the \<^verbatim>\<open>keylen\<close> bytes that the caller announces; what the code reads beyond a shorter key is not modelled.\<close>

definition aes_init :: "isrcry_aes_key \<Rightarrow> bytes option \<Rightarrow> int \<Rightarrow> isrcry_result \<times> isrcry_aes_key" where
  "aes_init skey key keylen =
     (case key of
        None \<Rightarrow> (ISRCRY_INVALID_ARGUMENT, skey)
      | Some k \<Rightarrow>
          if keylen \<noteq> 16 \<and> keylen \<noteq> 24 \<and> keylen \<noteq> 32 then (ISRCRY_INVALID_ARGUMENT, skey)
          else let nr = nat (10 + (keylen div 8 - 2) * 2);
                   ek = aes_setup_ek (eK skey) k keylen
               in (ISRCRY_OK, skey\<lparr>Nr := nr, eK := ek, dK := aes_setup_dk ek (dK skey) nr\<rparr>))"

section \<open>One block\<close>

type_synonym aes_state = "u32 \<times> u32 \<times> u32 \<times> u32"

definition load_state :: "bytes \<Rightarrow> u32 list \<Rightarrow> aes_state" where
  "load_state inp rk =
     (LOAD32H inp XOR rk ! 0, LOAD32H (drop 4 inp) XOR rk ! 1,
      LOAD32H (drop 8 inp) XOR rk ! 2, LOAD32H (drop 12 inp) XOR rk ! 3)"

definition store_state :: "aes_state \<Rightarrow> bytes" where
  "store_state s = (case s of (s0, s1, s2, s3) \<Rightarrow>
     STORE32H s0 @ STORE32H s1 @ STORE32H s2 @ STORE32H s3)"

definition enc_word :: "u32 \<Rightarrow> u32 \<Rightarrow> u32 \<Rightarrow> u32 \<Rightarrow> u32 \<Rightarrow> u32" where
  "enc_word a b c d k = Te0 ! byte a 3 XOR Te1 ! byte b 2 XOR Te2 ! byte c 1 XOR Te3 ! byte d 0 XOR k"

definition enc_round :: "u32 list \<Rightarrow> nat \<Rightarrow> aes_state \<Rightarrow> aes_state" where
  "enc_round rk p s = (case s of (s0, s1, s2, s3) \<Rightarrow>
     (enc_word s0 s1 s2 s3 (rk ! p), enc_word s1 s2 s3 s0 (rk ! (p + 1)),
      enc_word s2 s3 s0 s1 (rk ! (p + 2)), enc_word s3 s0 s1 s2 (rk ! (p + 3))))"

definition enc_last_word :: "u32 \<Rightarrow> u32 \<Rightarrow> u32 \<Rightarrow> u32 \<Rightarrow> u32 \<Rightarrow> u32" where
  "enc_last_word a b c d k =
     Te4_3 ! byte a 3 XOR Te4_2 ! byte b 2 XOR Te4_1 ! byte c 1 XOR Te4_0 ! byte d 0 XOR k"

definition enc_last :: "u32 list \<Rightarrow> nat \<Rightarrow> aes_state \<Rightarrow> aes_state" where
  "enc_last rk p t = (case t of (t0, t1, t2, t3) \<Rightarrow>
     (enc_last_word t0 t1 t2 t3 (rk ! p), enc_last_word t1 t2 t3 t0 (rk ! (p + 1)),
      enc_last_word t2 t3 t0 t1 (rk ! (p + 2)), enc_last_word t3 t0 t1 t2 (rk ! (p + 3))))"

definition dec_word :: "u32 \<Rightarrow> u32 \<Rightarrow> u32 \<Rightarrow> u32 \<Rightarrow> u32 \<Rightarrow> u32" where
  "dec_word a b c d k = Td0 ! byte a 3 XOR Td1 ! byte b 2 XOR Td2 ! byte c 1 XOR Td3 ! byte d 0 XOR k"

definition dec_round :: "u32 list \<Rightarrow> nat \<Rightarrow> aes_state \<Rightarrow> aes_state" where
  "dec_round rk p s = (case s of (s0, s1, s2, s3) \<Rightarrow>
     (dec_word s0 s3 s2 s1 (rk ! p), dec_word s1 s0 s3 s2 (rk ! (p + 1)),
      dec_word s2 s1 s0 s3 (rk ! (p + 2)), dec_word s3 s2 s1 s0 (rk ! (p + 3))))"

definition dec_last_word :: "u32 \<Rightarrow> u32 \<Rightarrow> u32 \<Rightarrow> u32 \<Rightarrow> u32 \<Rightarrow> u32" where
  "dec_last_word a b c d k =
     (Td4 ! byte a 3 AND 0xff000000) XOR (Td4 ! byte b 2 AND 0x00ff0000)
     XOR (Td4 ! byte c 1 AND 0x0000ff00) XOR (Td4 ! byte d 0 AND 0x000000ff) XOR k"

definition dec_last :: "u32 list \<Rightarrow> nat \<Rightarrow> aes_state \<Rightarrow> aes_state" where
  "dec_last rk p t = (case t of (t0, t1, t2, t3) \<Rightarrow>
     (dec_last_word t0 t3 t2 t1 (rk ! p), dec_last_word t1 t0 t3 t2 (rk ! (p + 1)),
      dec_last_word t2 t1 t0 t3 (rk ! (p + 2)), dec_last_word t3 t2 t1 t0 (rk ! (p + 3))))"

text \<open>
  The loop of \<^verbatim>\<open>aes_encrypt\<close> and \<^verbatim>\<open>aes_decrypt\<close> does two rounds per iteration and leaves in the
  middle of the last one; it returns the offset the round key pointer has reached.
\<close>

function aes_loop :: "(u32 list \<Rightarrow> nat \<Rightarrow> aes_state \<Rightarrow> aes_state) \<Rightarrow> u32 list \<Rightarrow> nat \<Rightarrow> nat
    \<Rightarrow> aes_state \<Rightarrow> nat \<times> aes_state" where
  "aes_loop round rk p r s =
     (let t = round rk (p + 4) s in
      if r - 1 = 0 then (p + 8, t) else aes_loop round rk (p + 8) (r - 1) (round rk (p + 8) t))"
  by pat_completeness auto
termination
  by (relation "measure (\<lambda>(f, rk, p, r, s). r)") auto

declare aes_loop.simps [simp del]

definition aes_encrypt :: "isrcry_aes_key \<Rightarrow> bytes option \<Rightarrow> bytes option \<Rightarrow> isrcry_result \<times> bytes option" where
  "aes_encrypt skey inp out =
     (case (inp, out) of
        (Some i, Some b) \<Rightarrow>
          (case aes_loop enc_round (eK skey) 0 (Nr skey div 2) (load_state i (eK skey)) of
             (p, t) \<Rightarrow> (ISRCRY_OK, Some (blit b 0 (store_state (enc_last (eK skey) p t)))))
      | _ \<Rightarrow> (ISRCRY_INVALID_ARGUMENT, out))"

definition aes_decrypt :: "isrcry_aes_key \<Rightarrow> bytes option \<Rightarrow> bytes option \<Rightarrow> isrcry_result \<times> bytes option" where
  "aes_decrypt skey inp out =
     (case (inp, out) of
        (Some i, Some b) \<Rightarrow>
          (case aes_loop dec_round (dK skey) 0 (Nr skey div 2) (load_state i (dK skey)) of
             (p, t) \<Rightarrow> (ISRCRY_OK, Some (blit b 0 (store_state (dec_last (dK skey) p t)))))
      | _ \<Rightarrow> (ISRCRY_INVALID_ARGUMENT, out))"

definition aes_desc :: "isrcry_aes_key isrcry_cipher_desc" where
  "aes_desc = \<lparr>cd_init = aes_init, cd_encrypt = aes_encrypt, cd_decrypt = aes_decrypt,
     cd_blocklen = 16, cd_zero = \<lparr>eK = replicate 60 0, dK = replicate 60 0, Nr = 0\<rparr>\<rparr>"

end
