(* ===== verification/Isr_AES_Facts.thy ===== *)
theory Isr_AES_Facts
  imports Isr_AES
begin

text \<open>
  What the tables of \<^verbatim>\<open>crypto/aes_tab.h\<close> are: every table of a family is the one before it
  turned by a byte, the S-box tables are one S-box in four positions, the decryption tables
  compose the inverse S-box with the inverse column mix, and the inverse column mix is linear
  and undoes the column mix contained in the encryption tables.  Each fact is an evaluation of
  the 256 entries by the simplifier.
\<close>

section \<open>Tables as functions of an octet\<close>

definition octet :: "u32 \<Rightarrow> nat \<Rightarrow> u8" where
  "octet w n = ucast (drop_bit (8 * n) w)"

lemma byte_octet: "byte w n = unat (octet w n)"
proof -
  have m: "drop_bit (8 * n) w AND 255 = take_bit 8 (drop_bit (8 * n) w)"
    by (simp add: take_bit_eq_mask mask_eq_exp_minus_1)
  have "octet w n = ucast (take_bit 8 (drop_bit (8 * n) w))"
    unfolding octet_def by (rule bit_word_eqI) (auto simp: bit_simps)
  then show ?thesis
    by (simp add: byte_def m unsigned_ucast_eq unsigned_take_bit_eq)
qed

definition octets256 :: "u8 list" where
  "octets256 = map of_nat [0..<256]"

lemma upt_256 [simp]: "[0..<256] = 0 # 1 # [2..<256]"
  by (simp add: upt_conv_Cons)

lemma unat_u8_less: "unat (x :: u8) < 256"
  using unsigned_less [of x, where 'a = nat] by simp

lemma nth_octets256: "octets256 ! unat x = x"
  using unat_u8_less [of x] by (simp add: octets256_def del: upt_256)

lemma table_nth_map:
  assumes "map f T = map g U" "length T = 256" "length U = 256"
  shows "f (T ! unat x) = g (U ! unat (x :: u8))"
  using assms unat_u8_less [of x] by (metis nth_map)

lemmas table_nth = table_nth_map [where f = "\<lambda>x. x", unfolded map_ident]

lemma length_octets256: "length octets256 = 256"
  by (simp add: octets256_def del: upt_256)

lemma table_len:
  "length Te0 = 256" "length Te1 = 256" "length Te2 = 256" "length Te3 = 256"
  "length Te4_0 = 256" "length Te4_1 = 256" "length Te4_2 = 256" "length Te4_3 = 256"
  "length Td0 = 256" "length Td1 = 256" "length Td2 = 256" "length Td3 = 256" "length Td4 = 256"
  "length Tks0 = 256" "length Tks1 = 256" "length Tks2 = 256" "length Tks3 = 256"
  by (simp_all add: Te0_def Te1_def Te2_def Te3_def Te4_0_def Te4_1_def Te4_2_def Te4_3_def
      Td0_def Td1_def Td2_def Td3_def Td4_def Tks0_def Tks1_def Tks2_def Tks3_def)

section \<open>Evaluations\<close>

lemma Te1_rotated: "Te1 = map (\<lambda>w. drop_bit 8 w OR push_bit 24 w) Te0"
  by (simp add: Te0_def Te1_def)

lemma Te2_rotated: "Te2 = map (\<lambda>w. drop_bit 8 w OR push_bit 24 w) Te1"
  by (simp add: Te1_def Te2_def)

lemma Te3_rotated: "Te3 = map (\<lambda>w. drop_bit 8 w OR push_bit 24 w) Te2"
  by (simp add: Te2_def Te3_def)

lemma Td1_rotated: "Td1 = map (\<lambda>w. drop_bit 8 w OR push_bit 24 w) Td0"
  by (simp add: Td0_def Td1_def)

lemma Td2_rotated: "Td2 = map (\<lambda>w. drop_bit 8 w OR push_bit 24 w) Td1"
  by (simp add: Td1_def Td2_def)

lemma Td3_rotated: "Td3 = map (\<lambda>w. drop_bit 8 w OR push_bit 24 w) Td2"
  by (simp add: Td2_def Td3_def)

lemma Tks1_rotated: "Tks1 = map (\<lambda>w. drop_bit 8 w OR push_bit 24 w) Tks0"
  by (simp add: Tks0_def Tks1_def)

lemma Tks2_rotated: "Tks2 = map (\<lambda>w. drop_bit 8 w OR push_bit 24 w) Tks1"
  by (simp add: Tks1_def Tks2_def)

lemma Tks3_rotated: "Tks3 = map (\<lambda>w. drop_bit 8 w OR push_bit 24 w) Tks2"
  by (simp add: Tks2_def Tks3_def)

lemma Te4_1_shifted: "Te4_1 = map (push_bit 8) Te4_0"
  by (simp add: Te4_0_def Te4_1_def)

lemma Te4_2_shifted: "Te4_2 = map (push_bit 16) Te4_0"
  by (simp add: Te4_0_def Te4_2_def)

lemma Te4_3_shifted: "Te4_3 = map (push_bit 24) Te4_0"
  by (simp add: Te4_0_def Te4_3_def)

lemma Td4_mask_24:
  "map (\<lambda>w. w AND 0xff000000) Td4 = map (\<lambda>w. push_bit 24 (ucast (ucast w :: u8))) Td4"
  by (simp add: Td4_def)

lemma Td4_mask_16:
  "map (\<lambda>w. w AND 0x00ff0000) Td4 = map (\<lambda>w. push_bit 16 (ucast (ucast w :: u8))) Td4"
  by (simp add: Td4_def)

lemma Td4_mask_8:
  "map (\<lambda>w. w AND 0x0000ff00) Td4 = map (\<lambda>w. push_bit 8 (ucast (ucast w :: u8))) Td4"
  by (simp add: Td4_def)

lemma Td4_mask_0: "map (\<lambda>w. w AND 0x000000ff) Td4 = map (\<lambda>w. ucast (ucast w :: u8)) Td4"
  by (simp add: Td4_def)

lemma Te4_0_octet: "Te4_0 = map (\<lambda>w. ucast (ucast w :: u8)) Te4_0"
  by (simp add: Te4_0_def)

text \<open>The equations \<open>T ! i = v\<close> of a table, for its 256 indices.\<close>

lemmas Tks0_nth = trans [OF map_nth [of Tks0, unfolded table_len] Tks0_def, simplified]
lemmas Tks1_nth = trans [OF map_nth [of Tks1, unfolded table_len] Tks1_def, simplified]
lemmas Tks2_nth = trans [OF map_nth [of Tks2, unfolded table_len] Tks2_def, simplified]
lemmas Tks3_nth = trans [OF map_nth [of Tks3, unfolded table_len] Tks3_def, simplified]
lemmas Td4_nth = trans [OF map_nth [of Td4, unfolded table_len] Td4_def, simplified]

lemma Td0_inv_mix: "Td0 = map (\<lambda>w. Tks0 ! unat (ucast w :: u8)) Td4"
  by (simp add: Td0_def Td4_def Tks0_nth)

lemma inv_sbox_sbox: "map (\<lambda>w. ucast (Td4 ! unat (ucast w :: u8)) :: u8) Te4_0 = octets256"
  by (simp add: Te4_0_def Td4_nth octets256_def)

lemma inv_mix_Te0: "map inv_mix Te0 = map (push_bit 24) Te4_0"
  by (simp add: Te0_def Te4_0_def inv_mix_def byte_octet octet_def Tks0_nth Tks1_nth Tks2_nth Tks3_nth)

definition gf_term :: "(nat \<Rightarrow> u32) \<Rightarrow> u8 \<Rightarrow> nat \<Rightarrow> u32" where
  "gf_term b x n = (if bit x n then b n else 0)"

definition gf_linear :: "(nat \<Rightarrow> u32) \<Rightarrow> u8 \<Rightarrow> u32" where
  "gf_linear b x = gf_term b x 0 XOR gf_term b x 1 XOR gf_term b x 2 XOR gf_term b x 3
     XOR gf_term b x 4 XOR gf_term b x 5 XOR gf_term b x 6 XOR gf_term b x 7"

lemma gf_linear_xor: "gf_linear b (x XOR y) = gf_linear b x XOR gf_linear b y"
proof -
  have "gf_term b (x XOR y) n = gf_term b x n XOR gf_term b y n" for n
    by (simp add: gf_term_def bit_xor_iff)
  then show ?thesis
    by (simp add: gf_linear_def ac_simps)
qed

lemma Tks0_linear: "Tks0 = map (gf_linear (\<lambda>n. Tks0 ! (2 ^ n))) octets256"
  by (simp add: octets256_def Tks0_nth gf_linear_def gf_term_def) (simp add: Tks0_def)

end
