(* ===== verification/Isr_AES_Inverse.thy ===== *)
theory Isr_AES_Inverse
  imports Isr_AES_Facts
begin

text \<open>
  Decryption undoes encryption.  From the table facts, a decryption round is the inverse
  \<open>shift and substitute\<close> step followed by the inverse column mix, and the inverse column mix of
  an encryption round leaves the \<open>shift and substitute\<close> step; the decryption key schedule is the
  encryption schedule in reverse with the inverse column mix applied in between.
\<close>

section \<open>Octets of words\<close>

definition ror8 :: "u32 \<Rightarrow> u32" where
  "ror8 w = drop_bit 8 w OR push_bit 24 w"

lemma bit_ror8: "n < 32 \<Longrightarrow> bit (ror8 w) n = bit w ((n + 8) mod 32)"
  by (cases "n < 24") (auto simp: ror8_def bit_simps add.commute mod_if dest: bit_imp_le_length)

lemma ror8_xor: "ror8 (a XOR b) = ror8 a XOR ror8 b"
  by (rule bit_word_eqI) (simp add: bit_ror8 bit_xor_iff)

lemma ror8_four: "ror8 (ror8 (ror8 (ror8 w))) = w"
proof (rule bit_word_eqI)
  fix n
  assume "n < LENGTH(32)"
  then have n: "n < 32" by simp
  have m: "((((n + 8) mod 32 + 8) mod 32 + 8) mod 32 + 8) mod 32 = n"
    using n by (simp add: mod_simps)
  show "bit (ror8 (ror8 (ror8 (ror8 w)))) n = bit w n"
    using n by (simp only: bit_ror8 pos_mod_bound m mod_less_divisor zero_less_numeral)
qed

lemma bit_octet: "bit (octet w n) m \<longleftrightarrow> m < 8 \<and> bit w (8 * n + m)"
  by (auto simp: octet_def bit_simps)

lemma octet_xor: "octet (a XOR b) n = octet a n XOR octet b n"
  by (rule bit_word_eqI) (auto simp: bit_octet bit_xor_iff)

lemma octet_ror8:
  "octet (ror8 w) 0 = octet w 1" "octet (ror8 w) 1 = octet w 2"
  "octet (ror8 w) 2 = octet w 3" "octet (ror8 w) 3 = octet w 0"
  by (rule bit_word_eqI; simp add: bit_octet bit_ror8 ac_simps)+

definition word_of_octets :: "u8 \<Rightarrow> u8 \<Rightarrow> u8 \<Rightarrow> u8 \<Rightarrow> u32" where
  "word_of_octets a b c d = push_bit 24 (ucast a) XOR push_bit 16 (ucast b) XOR push_bit 8 (ucast c) XOR ucast d"

lemma octet_word_of_octets:
  "octet (word_of_octets a b c d) 3 = a" "octet (word_of_octets a b c d) 2 = b"
  "octet (word_of_octets a b c d) 1 = c" "octet (word_of_octets a b c d) 0 = d"
  by (rule bit_word_eqI; auto simp: word_of_octets_def bit_octet bit_xor_iff bit_simps dest: bit_imp_le_length)+

lemma word_of_octets_octet: "word_of_octets (octet w 3) (octet w 2) (octet w 1) (octet w 0) = w"
proof (rule bit_word_eqI)
  fix n
  assume "n < LENGTH(32)"
  then have "n < 32"
    by simp
  then consider "n < 8" | "8 \<le> n" "n < 16" | "16 \<le> n" "n < 24" | "24 \<le> n" "n < 32"
    by linarith
  then show "bit (word_of_octets (octet w 3) (octet w 2) (octet w 1) (octet w 0)) n = bit w n"
    by cases (auto simp: word_of_octets_def bit_octet bit_xor_iff bit_simps)
qed

lemmas octet_simps = octet_ror8 octet_ror8 [unfolded One_nat_def] octet_word_of_octets
  octet_word_of_octets [unfolded One_nat_def] word_of_octets_octet word_of_octets_octet [unfolded One_nat_def]

section \<open>The S-box and the inverse column mix\<close>

definition sbox :: "u8 \<Rightarrow> u8" where "sbox x = ucast (Te4_0 ! unat x)"
definition inv_sbox :: "u8 \<Rightarrow> u8" where "inv_sbox x = ucast (Td4 ! unat x)"

lemma inv_sbox_sbox': "inv_sbox (sbox x) = x"
  using table_nth_map [where T = Te4_0 and U = octets256 and g = "\<lambda>x. x" and x = x, unfolded map_ident,
      OF inv_sbox_sbox]
  by (simp add: table_len length_octets256 nth_octets256 sbox_def inv_sbox_def)

lemma Te4_at:
  "Te4_0 ! unat x = ucast (sbox x)" "Te4_1 ! unat x = push_bit 8 (ucast (sbox x))"
  "Te4_2 ! unat x = push_bit 16 (ucast (sbox x))" "Te4_3 ! unat x = push_bit 24 (ucast (sbox x))"
proof -
  show 0: "Te4_0 ! unat x = ucast (sbox x)"
    using table_nth [OF Te4_0_octet, of x] by (simp add: table_len sbox_def)
  show "Te4_1 ! unat x = push_bit 8 (ucast (sbox x))"
    using table_nth [OF Te4_1_shifted, of x] by (simp add: table_len 0)
  show "Te4_2 ! unat x = push_bit 16 (ucast (sbox x))"
    using table_nth [OF Te4_2_shifted, of x] by (simp add: table_len 0)
  show "Te4_3 ! unat x = push_bit 24 (ucast (sbox x))"
    using table_nth [OF Te4_3_shifted, of x] by (simp add: table_len 0)
qed

lemma Td4_at:
  "Td4 ! unat x AND 0xff000000 = push_bit 24 (ucast (inv_sbox x))"
  "Td4 ! unat x AND 0x00ff0000 = push_bit 16 (ucast (inv_sbox x))"
  "Td4 ! unat x AND 0x0000ff00 = push_bit 8 (ucast (inv_sbox x))"
  "Td4 ! unat x AND 0x000000ff = ucast (inv_sbox x)"
  unfolding inv_sbox_def
  by (rule table_nth_map [OF Td4_mask_24] table_nth_map [OF Td4_mask_16] table_nth_map [OF Td4_mask_8]
      table_nth_map [OF Td4_mask_0]; simp add: table_len)+

lemma rotated_at:
  "Te1 ! unat x = ror8 (Te0 ! unat x)" "Te2 ! unat x = ror8 (Te1 ! unat x)" "Te3 ! unat x = ror8 (Te2 ! unat x)"
  "Td1 ! unat x = ror8 (Td0 ! unat x)" "Td2 ! unat x = ror8 (Td1 ! unat x)" "Td3 ! unat x = ror8 (Td2 ! unat x)"
  "Tks1 ! unat x = ror8 (Tks0 ! unat x)" "Tks2 ! unat x = ror8 (Tks1 ! unat x)" "Tks3 ! unat x = ror8 (Tks2 ! unat x)"
  for x :: u8
  unfolding ror8_def
  by (rule table_nth [OF Te1_rotated] table_nth [OF Te2_rotated] table_nth [OF Te3_rotated]
      table_nth [OF Td1_rotated] table_nth [OF Td2_rotated] table_nth [OF Td3_rotated]
      table_nth [OF Tks1_rotated] table_nth [OF Tks2_rotated] table_nth [OF Tks3_rotated];
      simp add: table_len)+

lemma Tks0_xor: "Tks0 ! unat (x XOR y) = Tks0 ! unat x XOR Tks0 ! unat y" for x y :: u8
proof -
  have "Tks0 ! unat z = gf_linear (\<lambda>n. Tks0 ! (2 ^ n)) z" for z :: u8
    using table_nth [OF Tks0_linear, of z] by (simp add: table_len length_octets256 nth_octets256)
  then show ?thesis by (simp add: gf_linear_xor)
qed

lemma inv_mix_octets:
  "inv_mix w = Tks0 ! unat (octet w 3) XOR ror8 (Tks0 ! unat (octet w 2))
     XOR ror8 (ror8 (Tks0 ! unat (octet w 1))) XOR ror8 (ror8 (ror8 (Tks0 ! unat (octet w 0))))"
  by (simp add: inv_mix_def byte_octet rotated_at)

lemma inv_mix_xor: "inv_mix (a XOR b) = inv_mix a XOR inv_mix b"
  by (simp add: inv_mix_octets octet_xor Tks0_xor ror8_xor ac_simps)

lemma inv_mix_ror8: "inv_mix (ror8 w) = ror8 (inv_mix w)"
  by (simp add: inv_mix_octets octet_simps ror8_xor ror8_four ac_simps)

lemma inv_mix_Te0_at: "inv_mix (Te0 ! unat x) = push_bit 24 (ucast (sbox x))" for x :: u8
  using table_nth_map [OF inv_mix_Te0, of x] by (simp add: table_len Te4_at)

lemma ror8_push:
  "ror8 (push_bit 24 (ucast x)) = push_bit 16 (ucast x)"
  "ror8 (push_bit 16 (ucast x)) = push_bit 8 (ucast x)"
  "ror8 (push_bit 8 (ucast x)) = ucast x" for x :: u8
  by (rule bit_word_eqI; auto simp: ror8_def bit_simps dest: bit_imp_le_length)+

text \<open>The inverse column mix of the sum of four encryption table entries is a substituted word.\<close>

lemma inv_mix_enc_word:
  "inv_mix (enc_word a b c d k) =
     word_of_octets (sbox (octet a 3)) (sbox (octet b 2)) (sbox (octet c 1)) (sbox (octet d 0)) XOR inv_mix k"
  by (simp add: enc_word_def byte_octet inv_mix_xor rotated_at inv_mix_ror8 inv_mix_Te0_at ror8_push
      word_of_octets_def ac_simps)

lemma enc_last_word_eq:
  "enc_last_word a b c d k =
     word_of_octets (sbox (octet a 3)) (sbox (octet b 2)) (sbox (octet c 1)) (sbox (octet d 0)) XOR k"
  by (simp add: enc_last_word_def byte_octet Te4_at word_of_octets_def ac_simps)

lemma Td0_at: "Td0 ! unat x = Tks0 ! unat (inv_sbox x)" for x :: u8
  using table_nth [OF Td0_inv_mix, of x] by (simp add: table_len inv_sbox_def)

lemma dec_word_eq:
  "dec_word a b c d k =
     inv_mix (word_of_octets (inv_sbox (octet a 3)) (inv_sbox (octet b 2)) (inv_sbox (octet c 1))
       (inv_sbox (octet d 0))) XOR k"
  by (simp add: dec_word_def byte_octet inv_mix_octets rotated_at Td0_at octet_simps ac_simps)

lemma dec_last_word_eq:
  "dec_last_word a b c d k =
     word_of_octets (inv_sbox (octet a 3)) (inv_sbox (octet b 2)) (inv_sbox (octet c 1)) (inv_sbox (octet d 0))
       XOR k"
  by (simp add: dec_last_word_def byte_octet Td4_at word_of_octets_def ac_simps)

section \<open>Rounds\<close>

definition xor_state :: "aes_state \<Rightarrow> aes_state \<Rightarrow> aes_state" where
  "xor_state s k = (case s of (s0, s1, s2, s3) \<Rightarrow> case k of (k0, k1, k2, k3) \<Rightarrow>
     (s0 XOR k0, s1 XOR k1, s2 XOR k2, s3 XOR k3))"

definition round_key :: "u32 list \<Rightarrow> nat \<Rightarrow> aes_state" where
  "round_key rk p = (rk ! p, rk ! (p + 1), rk ! (p + 2), rk ! (p + 3))"

definition map_state :: "(u32 \<Rightarrow> u32) \<Rightarrow> aes_state \<Rightarrow> aes_state" where
  "map_state f s = (case s of (s0, s1, s2, s3) \<Rightarrow> (f s0, f s1, f s2, f s3))"

text \<open>Substitution of the octets followed by the shift of the rows, and the inverse.\<close>

definition sub_shift :: "aes_state \<Rightarrow> aes_state" where
  "sub_shift s = (case s of (s0, s1, s2, s3) \<Rightarrow>
     let w = (\<lambda>a b c d. word_of_octets (sbox (octet a 3)) (sbox (octet b 2)) (sbox (octet c 1)) (sbox (octet d 0)))
     in (w s0 s1 s2 s3, w s1 s2 s3 s0, w s2 s3 s0 s1, w s3 s0 s1 s2))"

definition inv_sub_shift :: "aes_state \<Rightarrow> aes_state" where
  "inv_sub_shift s = (case s of (s0, s1, s2, s3) \<Rightarrow>
     let w = (\<lambda>a b c d. word_of_octets (inv_sbox (octet a 3)) (inv_sbox (octet b 2)) (inv_sbox (octet c 1))
               (inv_sbox (octet d 0)))
     in (w s0 s3 s2 s1, w s1 s0 s3 s2, w s2 s1 s0 s3, w s3 s2 s1 s0))"

lemma inv_sub_shift: "inv_sub_shift (sub_shift s) = s"
  by (simp add: sub_shift_def inv_sub_shift_def octet_simps inv_sbox_sbox'
      split: prod.split)

lemmas state_defs = xor_state_def round_key_def map_state_def sub_shift_def inv_sub_shift_def

lemma inv_mix_enc_round:
  "map_state inv_mix (enc_round rk p s) = xor_state (sub_shift s) (map_state inv_mix (round_key rk p))"
  by (simp add: enc_round_def inv_mix_enc_word state_defs split: prod.split)

lemma dec_round_eq:
  "dec_round rk p s = xor_state (map_state inv_mix (inv_sub_shift s)) (round_key rk p)"
  by (simp add: dec_round_def dec_word_eq state_defs split: prod.split)

lemma enc_last_eq: "enc_last rk p s = xor_state (sub_shift s) (round_key rk p)"
  by (simp add: enc_last_def enc_last_word_eq state_defs split: prod.split)

lemma dec_last_eq: "dec_last rk p s = xor_state (inv_sub_shift s) (round_key rk p)"
  by (simp add: dec_last_def dec_last_word_eq state_defs split: prod.split)

lemma xor_state_cancel [xor_simps]: "xor_state (xor_state s k) k = s"
  by (simp add: xor_state_def xor.assoc split: prod.split)

lemma map_state_inv_mix_xor:
  "map_state inv_mix (xor_state a b) = xor_state (map_state inv_mix a) (map_state inv_mix b)"
  by (simp add: state_defs inv_mix_xor split: prod.split)

text \<open>A decryption round takes the substituted state after round \<open>n + 1\<close> to the one after round \<open>n\<close>.\<close>

lemma dec_round_enc_round:
  assumes "round_key dk q = map_state inv_mix (round_key ek p)"
  shows "dec_round dk q (sub_shift (enc_round ek p s)) = sub_shift s"
proof -
  have "dec_round dk q (sub_shift (enc_round ek p s)) =
      xor_state (map_state inv_mix (enc_round ek p s)) (map_state inv_mix (round_key ek p))"
    by (simp add: dec_round_eq inv_sub_shift assms)
  then show ?thesis
    by (simp add: inv_mix_enc_round xor_simps)
qed

section \<open>The round loop\<close>

primrec rounds :: "(u32 list \<Rightarrow> nat \<Rightarrow> aes_state \<Rightarrow> aes_state) \<Rightarrow> u32 list \<Rightarrow> nat \<Rightarrow> nat \<Rightarrow> aes_state \<Rightarrow> aes_state" where
  "rounds f rk p 0 s = s"
| "rounds f rk p (Suc n) s = rounds f rk (p + 4) n (f rk (p + 4) s)"

lemma rounds_Suc_last: "rounds f rk p (Suc n) s = f rk (p + 4 * Suc n) (rounds f rk p n s)"
proof (induction n arbitrary: p s)
  case (Suc n)
  have "rounds f rk p (Suc (Suc n)) s = rounds f rk (p + 4) (Suc n) (f rk (p + 4) s)"
    by (rule rounds.simps)
  also have "\<dots> = f rk (p + 4 + 4 * Suc n) (rounds f rk (p + 4) n (f rk (p + 4) s))"
    by (rule Suc.IH)
  also have "\<dots> = f rk (p + 4 * Suc (Suc n)) (rounds f rk p (Suc n) s)"
    by (simp add: ac_simps)
  finally show ?case .
qed simp

lemma aes_loop_rounds:
  "aes_loop f rk p (Suc m) s = (p + 8 * Suc m, rounds f rk p (2 * m + 1) s)"
proof (induction m arbitrary: p s)
  case 0
  then show ?case by (simp add: aes_loop.simps)
next
  case (Suc m)
  then show ?case
    by (subst aes_loop.simps) (simp add: Let_def ac_simps)
qed

lemma dec_rounds_enc_rounds:
  assumes "\<And>i. 0 < i \<Longrightarrow> i < N \<Longrightarrow> round_key dk (4 * i) = map_state inv_mix (round_key ek (4 * (N - i)))"
    and "n \<le> N - 1"
  shows "rounds dec_round dk 0 n (sub_shift (rounds enc_round ek 0 (N - 1) s)) =
    sub_shift (rounds enc_round ek 0 (N - 1 - n) s)"
  using assms(2)
proof (induction n)
  case (Suc n)
  then have m: "N - 1 - n = Suc (N - 1 - Suc n)" and k: "Suc (N - 1 - Suc n) = N - Suc n"
    by simp_all
  have "rounds dec_round dk 0 (Suc n) (sub_shift (rounds enc_round ek 0 (N - 1) s)) =
      dec_round dk (4 * Suc n) (sub_shift (rounds enc_round ek 0 (Suc (N - 1 - Suc n)) s))"
    using Suc unfolding rounds_Suc_last m by simp
  also have "rounds enc_round ek 0 (Suc (N - 1 - Suc n)) s =
      enc_round ek (4 * (N - Suc n)) (rounds enc_round ek 0 (N - 1 - Suc n) s)"
    using rounds_Suc_last [of enc_round ek 0 "N - 1 - Suc n" s] by (simp only: k add_0)
  also have "dec_round dk (4 * Suc n) (sub_shift \<dots>) = sub_shift (rounds enc_round ek 0 (N - 1 - Suc n) s)"
    by (rule dec_round_enc_round, rule assms(1)) (use Suc.prems in auto)
  finally show ?case .
qed simp

section \<open>Blocks\<close>

definition block_words :: "bytes \<Rightarrow> aes_state" where
  "block_words x = (LOAD32H x, LOAD32H (drop 4 x), LOAD32H (drop 8 x), LOAD32H (drop 12 x))"

lemma length_store_state [simp]: "length (store_state s) = 16"
  by (simp add: store_state_def split: prod.split)

lemma block_words_store_state: "block_words (store_state s) = s"
  using LOAD32H_STORE32H [where rest = "[]"]
  by (simp add: block_words_def store_state_def split: prod.split)

lemma store_state_block_words: "length x = 16 \<Longrightarrow> store_state (block_words x) = x"
  using take_add [of 4 12 x] take_add [of 4 8 "drop 4 x"] take_add [of 4 4 "drop 8 x"]
  by (simp add: block_words_def store_state_def STORE32H_LOAD32H)

lemma load_state_eq: "load_state x rk = xor_state (block_words x) (round_key rk 0)"
  by (simp add: load_state_def state_defs block_words_def numeral_2_eq_2 numeral_3_eq_3)

definition aes_enc_block :: "isrcry_aes_key \<Rightarrow> bytes \<Rightarrow> bytes" where
  "aes_enc_block k x = (case aes_loop enc_round (eK k) 0 (Nr k div 2) (load_state x (eK k)) of
     (p, t) \<Rightarrow> store_state (enc_last (eK k) p t))"

definition aes_dec_block :: "isrcry_aes_key \<Rightarrow> bytes \<Rightarrow> bytes" where
  "aes_dec_block k x = (case aes_loop dec_round (dK k) 0 (Nr k div 2) (load_state x (dK k)) of
     (p, t) \<Rightarrow> store_state (dec_last (dK k) p t))"

text \<open>What \<open>aes_init\<close> establishes between the two key schedules.\<close>

definition aes_key_ok :: "isrcry_aes_key \<Rightarrow> bool" where
  "aes_key_ok k \<longleftrightarrow> even (Nr k) \<and> 0 < Nr k
     \<and> round_key (dK k) 0 = round_key (eK k) (4 * Nr k)
     \<and> round_key (dK k) (4 * Nr k) = round_key (eK k) 0
     \<and> list_all (\<lambda>i. round_key (dK k) (4 * i) = map_state inv_mix (round_key (eK k) (4 * (Nr k - i)))) [1..<Nr k]"

lemma aes_loop_even:
  assumes "even N" "0 < N"
  shows "aes_loop f rk 0 (N div 2) s = (4 * N, rounds f rk 0 (N - 1) s)"
proof -
  obtain m where "N = 2 * Suc m"
    using assms by (metis evenE gr0_conv_Suc mult_is_0 not_gr0)
  then show ?thesis
    using aes_loop_rounds [of f rk 0 m s] by simp
qed

theorem aes_dec_enc_block:
  assumes "aes_key_ok k" and "length x = 16"
  shows "aes_dec_block k (aes_enc_block k x) = x"
proof -
  let ?N = "Nr k" and ?s = "rounds enc_round (eK k) 0 (Nr k - 1) (load_state x (eK k))"
  note ok = assms(1) [unfolded aes_key_ok_def list_all_iff]
  have e: "aes_enc_block k x = store_state (enc_last (eK k) (4 * ?N) ?s)"
    using ok by (simp add: aes_enc_block_def aes_loop_even)
  have l: "load_state (aes_enc_block k x) (dK k) = sub_shift ?s"
    using ok by (simp add: e load_state_eq block_words_store_state enc_last_eq xor_simps)
  have "rounds dec_round (dK k) 0 (?N - 1) (sub_shift ?s) = sub_shift (load_state x (eK k))"
    using dec_rounds_enc_rounds [of ?N "dK k" "eK k" "?N - 1"] ok by simp
  then have "aes_dec_block k (aes_enc_block k x) =
      store_state (dec_last (dK k) (4 * ?N) (sub_shift (load_state x (eK k))))"
    using ok by (simp add: aes_dec_block_def aes_loop_even l)
  also have "\<dots> = store_state (block_words x)"
    using ok by (simp add: dec_last_eq inv_sub_shift load_state_eq xor_simps)
  finally show ?thesis
    using assms(2) by (simp add: store_state_block_words)
qed

section \<open>What the key schedule establishes\<close>

definition aes_key_shape :: "isrcry_aes_key \<Rightarrow> bool" where
  "aes_key_shape k \<longleftrightarrow> length (eK k) = 60 \<and> length (dK k) = 60"

lemma length_foldl_update:
  assumes "\<And>xs i. length (f xs i) = length xs"
  shows "length (foldl f xs is) = length xs"
  using assms by (induction "is" arbitrary: xs) auto

lemma length_aes_setup_ek: "length (aes_setup_ek ek key keylen) = length ek"
  by (auto simp: aes_setup_ek_def load_key_def aes_expand_16_def aes_expand_24_def aes_expand_32_def Let_def
      intro!: trans [OF length_foldl_update])

definition put_key :: "u32 list \<Rightarrow> nat \<Rightarrow> aes_state \<Rightarrow> u32 list" where
  "put_key rk p s = (case s of (a, b, c, d) \<Rightarrow> rk[p := a, p + 1 := b, p + 2 := c, p + 3 := d])"

lemma length_put_key [simp]: "length (put_key rk p s) = length rk"
  by (simp add: put_key_def split: prod.split)

lemma round_key_put_key:
  assumes "4 * i + 3 < length rk"
  shows "round_key (put_key rk (4 * i) s) (4 * j) = (if i = j then s else round_key rk (4 * j))"
proof (cases "i = j")
  case True
  with assms show ?thesis
    by (auto simp: round_key_def put_key_def nth_list_update split: prod.split)
next
  case False
  then have "4 * i \<noteq> 4 * j + r" "4 * i + 1 \<noteq> 4 * j + r" "4 * i + 2 \<noteq> 4 * j + r" "4 * i + 3 \<noteq> 4 * j + r"
    if "r < 4" for r
    using that by presburger+
  from this [of 0] this [of 1] this [of 2] this [of 3] False show ?thesis
    by (simp add: round_key_def put_key_def nth_list_update split: prod.split)
qed

lemma aes_setup_dk_put_key:
  "aes_setup_dk ek dk nr =
     put_key (foldl (\<lambda>dk i. put_key dk (4 * i) (map_state inv_mix (round_key ek (4 * nr - 4 * i))))
        (put_key dk 0 (round_key ek (4 * nr))) [1..<nr]) (4 * nr) (round_key ek 0)"
  by (simp add: aes_setup_dk_def put_key_def map_state_def round_key_def Let_def numeral_2_eq_2 numeral_3_eq_3)

lemma foldl_put_key:
  assumes "4 * n \<le> length dk" and "1 \<le> n"
  shows "round_key (foldl (\<lambda>dk i. put_key dk (4 * i) (g i)) dk [1..<n]) (4 * j) =
    (if 1 \<le> j \<and> j < n then g j else round_key dk (4 * j))"
  using assms(2,1)
proof (induction n rule: dec_induct)
  case (step n)
  have "length (foldl (\<lambda>dk i. put_key dk (4 * i) (g i)) dk [1..<n]) = length dk"
    by (rule length_foldl_update) simp
  with step show ?case
    by (simp add: round_key_put_key)
qed auto

lemma aes_setup_dk_rounds:
  assumes "4 * nr + 4 \<le> length dk" "1 \<le> nr"
  shows "round_key (aes_setup_dk ek dk nr) 0 = round_key ek (4 * nr)"
    and "round_key (aes_setup_dk ek dk nr) (4 * nr) = round_key ek 0"
    and "0 < i \<Longrightarrow> i < nr \<Longrightarrow>
      round_key (aes_setup_dk ek dk nr) (4 * i) = map_state inv_mix (round_key ek (4 * (nr - i)))"
proof -
  let ?g = "\<lambda>i. map_state inv_mix (round_key ek (4 * nr - 4 * i))"
  let ?d = "foldl (\<lambda>dk i. put_key dk (4 * i) (?g i)) (put_key dk 0 (round_key ek (4 * nr))) [1..<nr]"
  have len: "length ?d = length dk"
    by (rule trans [OF length_foldl_update]) simp_all
  have all: "round_key (aes_setup_dk ek dk nr) (4 * j) =
      (if nr = j then round_key ek 0 else if 1 \<le> j \<and> j < nr then ?g j
       else round_key (put_key dk 0 (round_key ek (4 * nr))) (4 * j))" for j
    using assms len by (simp add: aes_setup_dk_put_key round_key_put_key foldl_put_key [unfolded One_nat_def])
  show "round_key (aes_setup_dk ek dk nr) 0 = round_key ek (4 * nr)"
    using all [of 0] round_key_put_key [of 0 dk _ 0] assms by simp
  show "round_key (aes_setup_dk ek dk nr) (4 * nr) = round_key ek 0"
    using all [of nr] by simp
  show "round_key (aes_setup_dk ek dk nr) (4 * i) = map_state inv_mix (round_key ek (4 * (nr - i)))"
    if "0 < i" "i < nr"
    using all [of i] that by (simp add: diff_mult_distrib2)
qed

lemma length_aes_setup_dk: "length (aes_setup_dk ek dk nr) = length dk"
  by (simp add: aes_setup_dk_put_key length_foldl_update)

lemma aes_init_ok:
  assumes "aes_key_shape s" "keylen = 16 \<or> keylen = 24 \<or> keylen = 32"
  shows "\<exists>k. aes_init s (Some key) keylen = (ISRCRY_OK, k) \<and> aes_key_ok k \<and> aes_key_shape k"
proof -
  let ?nr = "nat (10 + (keylen div 8 - 2) * 2)"
  have nr: "?nr \<in> {10, 12, 14}"
    using assms(2) by auto
  define k where "k = snd (aes_init s (Some key) keylen)"
  have init: "aes_init s (Some key) keylen = (ISRCRY_OK, k)"
    using assms(2) by (auto simp: k_def aes_init_def Let_def)
  have k: "Nr k = ?nr" "eK k = aes_setup_ek (eK s) key keylen" "dK k = aes_setup_dk (eK k) (dK s) ?nr"
    using assms(2) by (auto simp: k_def aes_init_def Let_def)
  have "4 * ?nr + 4 \<le> length (dK s)" "1 \<le> ?nr" "even ?nr"
    using nr assms(1) by (auto simp: aes_key_shape_def)
  then have "aes_key_ok k"
    unfolding aes_key_ok_def list_all_iff k(1,3)
    by (simp add: aes_setup_dk_rounds)
  moreover have "aes_key_shape k"
    using assms(1) by (simp add: aes_key_shape_def k(2,3) length_aes_setup_ek length_aes_setup_dk)
  ultimately show ?thesis
    using init by blast
qed

section \<open>AES keeps the block cipher contract\<close>

lemma aes_block_take:
  "16 \<le> length i \<Longrightarrow> load_state (take 16 i) rk = load_state i rk"
  by (simp add: load_state_def LOAD32H_def)

interpretation aes: block_cipher 16 aes_encrypt aes_decrypt aes_enc_block aes_dec_block aes_key_ok
proof unfold_locales
  show "aes_encrypt k (Some i) (Some b) = (ISRCRY_OK, Some (blit b 0 (aes_enc_block k (take 16 i))))"
    if "16 \<le> length i" for k i b
    using that by (simp add: aes_encrypt_def aes_enc_block_def aes_block_take split_beta)
  show "aes_decrypt k (Some i) (Some b) = (ISRCRY_OK, Some (blit b 0 (aes_dec_block k (take 16 i))))"
    if "16 \<le> length i" for k i b
    using that by (simp add: aes_decrypt_def aes_dec_block_def aes_block_take split_beta)
  show "length (aes_enc_block k x) = 16" "length (aes_dec_block k x) = 16" for k x
    by (simp_all add: aes_enc_block_def aes_dec_block_def split_beta)
  show "aes_dec_block k (aes_enc_block k x) = x" if "aes_key_ok k" "length x = 16" for k x
    using that by (rule aes_dec_enc_block)
qed (simp_all add: MAX_BLOCK_LEN_def)

end
