(* ===== verification/Isr_Cipher.thy ===== *)
theory Isr_Cipher
  imports Isr_Pad Isr_AES_Inverse
begin

text \<open>
  The cipher interface of libisrcrypto, \<^verbatim>\<open>crypto/cipher.c\<close>: allocation of a context, keying,
  processing of whole blocks, and the padded final call.  The stack buffer \<open>lblock\<close> is
  modelled with zero contents; every byte of it that is read has been written before.  Input and
  output buffers do not overlap.
\<close>

section \<open>Descriptors\<close>

record isrcry_pad_desc =
  pd_pad :: "bytes option \<Rightarrow> nat \<Rightarrow> nat \<Rightarrow> isrcry_result \<times> bytes option"
  pd_unpad :: "bytes option \<Rightarrow> nat \<Rightarrow> nat option \<Rightarrow> isrcry_result \<times> nat option"

definition pkcs5_desc :: isrcry_pad_desc where
  "pkcs5_desc = \<lparr>pd_pad = pkcs5_pad, pd_unpad = pkcs5_unpad\<rparr>"

definition cipher_desc :: "c_enum \<Rightarrow> isrcry_aes_key isrcry_cipher_desc option" where
  "cipher_desc type = (if type = ISRCRY_CIPHER_AES then Some aes_desc else None)"

definition mode_desc :: "c_enum \<Rightarrow> isrcry_mode_desc option" where
  "mode_desc type =
     (if type = ISRCRY_MODE_ECB then Some isrcry_ecb_desc
      else if type = ISRCRY_MODE_CBC then Some isrcry_cbc_desc
      else None)"

definition pad_desc :: "c_enum \<Rightarrow> isrcry_pad_desc option" where
  "pad_desc type = (if type = ISRCRY_PADDING_PKCS5 then Some pkcs5_desc else None)"

type_synonym cipher_ctx = "isrcry_aes_key isrcry_cipher_ctx"

definition mode_encrypt :: "cipher_ctx \<Rightarrow> bytes option \<Rightarrow> nat \<Rightarrow> bytes option
    \<Rightarrow> isrcry_result \<times> cipher_ctx \<times> bytes option" where
  "mode_encrypt cctx = (case cc_mode cctx of isrcry_ecb_desc \<Rightarrow> ecb_encrypt cctx | isrcry_cbc_desc \<Rightarrow> cbc_encrypt cctx)"

definition mode_decrypt :: "cipher_ctx \<Rightarrow> bytes option \<Rightarrow> nat \<Rightarrow> bytes option
    \<Rightarrow> isrcry_result \<times> cipher_ctx \<times> bytes option" where
  "mode_decrypt cctx = (case cc_mode cctx of isrcry_ecb_desc \<Rightarrow> ecb_decrypt cctx | isrcry_cbc_desc \<Rightarrow> cbc_decrypt cctx)"

section \<open>Operations\<close>

definition isrcry_cipher_alloc :: "c_enum \<Rightarrow> c_enum \<Rightarrow> cipher_ctx option" where
  "isrcry_cipher_alloc c m =
     (case (cipher_desc c, mode_desc m) of
        (Some cd, Some md) \<Rightarrow>
          Some \<lparr>cc_cipher = cd, cc_mode = md, cc_key = cd_zero cd,
                cc_iv = replicate MAX_BLOCK_LEN 0, cc_direction = 0\<rparr>
      | _ \<Rightarrow> None)"

text \<open>\<open>None\<close> is the abort of \<^verbatim>\<open>g_assert\<close>.\<close>

definition isrcry_cipher_init :: "cipher_ctx \<Rightarrow> c_enum \<Rightarrow> bytes option \<Rightarrow> int \<Rightarrow> bytes option
    \<Rightarrow> (isrcry_result \<times> cipher_ctx) option" where
  "isrcry_cipher_init cctx dir key keylen ivp =
     (let blocklen = cd_blocklen (cc_cipher cctx) in
      if \<not> MAX_BLOCK_LEN \<ge> blocklen then None
      else case cd_init (cc_cipher cctx) (cc_key cctx) key keylen of
        (ret, k) \<Rightarrow>
          (let cctx = cctx\<lparr>cc_key := k\<rparr> in
           if ret \<noteq> ISRCRY_OK then Some (ret, cctx)
           else if dir \<noteq> ISRCRY_ENCRYPT \<and> dir \<noteq> ISRCRY_DECRYPT
             then Some (ISRCRY_INVALID_ARGUMENT, cctx)
           else Some (ISRCRY_OK, cctx\<lparr>cc_direction := dir,
                  cc_iv := blit (cc_iv cctx) 0
                    (case ivp of Some v \<Rightarrow> take blocklen v | None \<Rightarrow> replicate blocklen 0)\<rparr>)))"

definition isrcry_cipher_process :: "cipher_ctx \<Rightarrow> bytes option \<Rightarrow> nat \<Rightarrow> bytes option
    \<Rightarrow> isrcry_result \<times> cipher_ctx \<times> bytes option" where
  "isrcry_cipher_process cctx inp inlen out =
     (if cc_direction cctx = ISRCRY_ENCRYPT then mode_encrypt cctx inp inlen out
      else mode_decrypt cctx inp inlen out)"

definition buf_of :: "bytes \<Rightarrow> bytes option \<Rightarrow> bytes" where
  "buf_of d p = (case p of Some b \<Rightarrow> b | None \<Rightarrow> d)"

definition cipher_final_encrypt :: "cipher_ctx \<Rightarrow> isrcry_pad_desc \<Rightarrow> bytes \<Rightarrow> nat \<Rightarrow> bytes \<Rightarrow> nat
    \<Rightarrow> isrcry_result \<times> cipher_ctx \<times> bytes \<times> nat" where
  "cipher_final_encrypt cctx desc inp inlen out outlen =
     (let blocklen = cd_blocklen (cc_cipher cctx);
          lblock_len = inlen mod blocklen;
          lblock_offset = inlen - lblock_len in
      if outlen < add32 lblock_offset blocklen then (ISRCRY_INVALID_ARGUMENT, cctx, out, outlen)
      else
        let lblock = blit (replicate MAX_BLOCK_LEN 0) 0 (take lblock_len (drop lblock_offset inp)) in
        case pd_pad desc (Some lblock) blocklen lblock_len of (ret, lblock1) \<Rightarrow>
        if ret \<noteq> ISRCRY_OK then (ret, cctx, out, outlen)
        else case mode_encrypt cctx (Some inp) lblock_offset (Some out) of (ret, cctx1, out1) \<Rightarrow>
        let out1 = buf_of out out1 in
        if ret \<noteq> ISRCRY_OK then (ret, cctx1, out1, outlen)
        else case mode_encrypt cctx1 lblock1 blocklen (Some (drop lblock_offset out1)) of (ret, cctx2, out2) \<Rightarrow>
        let out2 = take lblock_offset out1 @ buf_of (drop lblock_offset out1) out2 in
        if ret \<noteq> ISRCRY_OK then (ret, cctx2, out2, outlen)
        else (ISRCRY_OK, cctx2, out2, add32 lblock_offset blocklen))"

definition cipher_final_decrypt :: "cipher_ctx \<Rightarrow> isrcry_pad_desc \<Rightarrow> bytes \<Rightarrow> nat \<Rightarrow> bytes \<Rightarrow> nat
    \<Rightarrow> isrcry_result \<times> cipher_ctx \<times> bytes \<times> nat" where
  "cipher_final_decrypt cctx desc inp inlen out outlen =
     (let blocklen = cd_blocklen (cc_cipher cctx) in
      if inlen = 0 \<or> inlen mod blocklen \<noteq> 0 then (ISRCRY_INVALID_ARGUMENT, cctx, out, outlen)
      else let lblock_offset = inlen - blocklen in
      if outlen < lblock_offset then (ISRCRY_INVALID_ARGUMENT, cctx, out, outlen)
      else case mode_decrypt cctx (Some inp) lblock_offset (Some out) of (ret, cctx1, out1) \<Rightarrow>
        let out1 = buf_of out out1 in
        if ret \<noteq> ISRCRY_OK then (ret, cctx1, out1, outlen)
        else
          let lblock = replicate MAX_BLOCK_LEN 0 in
          case mode_decrypt cctx1 (Some (drop lblock_offset inp)) blocklen (Some lblock) of (ret, cctx2, lblock1) \<Rightarrow>
          if ret \<noteq> ISRCRY_OK then (ret, cctx2, out1, outlen)
          else case pd_unpad desc lblock1 blocklen (Some 0) of (ret, lblock_len) \<Rightarrow>
          if ret \<noteq> ISRCRY_OK then (ret, cctx2, out1, outlen)
          else
            let lblock_len = (case lblock_len of Some n \<Rightarrow> n | None \<Rightarrow> 0) in
            if outlen < add32 lblock_offset lblock_len then (ISRCRY_INVALID_ARGUMENT, cctx2, out1, outlen)
            else (ISRCRY_OK, cctx2, blit out1 lblock_offset (take lblock_len (buf_of lblock lblock1)),
                  add32 lblock_offset lblock_len))"

definition isrcry_cipher_final :: "cipher_ctx option \<Rightarrow> c_enum \<Rightarrow> bytes option \<Rightarrow> nat \<Rightarrow> bytes option \<Rightarrow> nat option
    \<Rightarrow> isrcry_result \<times> cipher_ctx option \<times> bytes option \<times> nat option" where
  "isrcry_cipher_final cctx padding inp inlen out outlen =
     (case (cctx, inp, out, outlen) of
        (Some c, Some i, Some b, Some n) \<Rightarrow>
          (case pad_desc padding of
             None \<Rightarrow> (ISRCRY_INVALID_ARGUMENT, cctx, out, outlen)
           | Some desc \<Rightarrow>
               (case (if cc_direction c = ISRCRY_ENCRYPT then cipher_final_encrypt c desc i inlen b n
                      else cipher_final_decrypt c desc i inlen b n) of
                  (ret, c1, b1, n1) \<Rightarrow> (ret, Some c1, Some b1, Some n1)))
      | _ \<Rightarrow> (ISRCRY_INVALID_ARGUMENT, cctx, out, outlen))"

definition isrcry_cipher_block :: "c_enum \<Rightarrow> nat" where
  "isrcry_cipher_block type = (case cipher_desc type of None \<Rightarrow> 0 | Some desc \<Rightarrow> cd_blocklen desc)"

section \<open>Whole blocks\<close>

text \<open>A keyed context.\<close>

definition ctx_ok :: "cipher_ctx \<Rightarrow> bool" where
  "ctx_ok c \<longleftrightarrow> cc_cipher c = aes_desc \<and> aes_key_ok (cc_key c) \<and> aes_key_shape (cc_key c)
     \<and> length (cc_iv c) = MAX_BLOCK_LEN"

definition mode_enc_spec :: "isrcry_mode_desc \<Rightarrow> (bytes \<Rightarrow> bytes) \<Rightarrow> nat \<Rightarrow> bytes \<Rightarrow> bytes \<Rightarrow> bytes \<times> bytes" where
  "mode_enc_spec m F n v xs = (case m of
     isrcry_ecb_desc \<Rightarrow> (v, ecb_spec F 16 n xs) | isrcry_cbc_desc \<Rightarrow> cbc_enc_spec F 16 n v xs)"

definition mode_dec_spec :: "isrcry_mode_desc \<Rightarrow> (bytes \<Rightarrow> bytes) \<Rightarrow> nat \<Rightarrow> bytes \<Rightarrow> bytes \<Rightarrow> bytes \<times> bytes" where
  "mode_dec_spec m G n v xs = (case m of
     isrcry_ecb_desc \<Rightarrow> (v, ecb_spec G 16 n xs) | isrcry_cbc_desc \<Rightarrow> cbc_dec_spec G 16 n v xs)"

abbreviation ctx_enc :: "cipher_ctx \<Rightarrow> nat \<Rightarrow> bytes \<Rightarrow> bytes \<times> bytes" where
  "ctx_enc c n xs \<equiv> mode_enc_spec (cc_mode c) (aes_enc_block (cc_key c)) n (cc_iv c) xs"

abbreviation ctx_dec :: "cipher_ctx \<Rightarrow> nat \<Rightarrow> bytes \<Rightarrow> bytes \<times> bytes" where
  "ctx_dec c n xs \<equiv> mode_dec_spec (cc_mode c) (aes_dec_block (cc_key c)) n (cc_iv c) xs"

lemma aes_desc_simps [simp]:
  "cd_init aes_desc = aes_init" "cd_encrypt aes_desc = aes_encrypt" "cd_decrypt aes_desc = aes_decrypt"
  "cd_blocklen aes_desc = 16"
  by (simp_all add: aes_desc_def)

lemma ctx_enc_len:
  assumes "ctx_ok c" "n * 16 \<le> length xs"
  shows "length (snd (ctx_enc c n xs)) = n * 16" "length (fst (ctx_enc c n xs)) = 16"
  using assms aes.ecb_spec_len [of "cc_key c" n xs] aes.cbc_enc_spec_len [of "cc_key c" "cc_iv c" n xs]
  by (auto simp: ctx_ok_def mode_enc_spec_def MAX_BLOCK_LEN_def split: isrcry_mode_desc.split)

lemma ctx_dec_enc:
  assumes "ctx_ok c" "n * 16 \<le> length xs"
  shows "ctx_dec c n (snd (ctx_enc c n xs) @ rest) = (fst (ctx_enc c n xs), take (n * 16) xs)"
  using assms aes.ecb_dec_enc_spec [of "cc_key c" n xs rest] aes.cbc_dec_enc_spec [of "cc_key c" "cc_iv c" n xs rest]
  by (auto simp: ctx_ok_def mode_enc_spec_def mode_dec_spec_def MAX_BLOCK_LEN_def split: isrcry_mode_desc.split)

lemma length_ctx_dec_iv:
  assumes "ctx_ok c" "n * 16 \<le> length xs"
  shows "length (fst (ctx_dec c n xs)) = 16"
proof -
  have "length (fst (cbc_dec_spec G 16 n v xs)) = 16" if "length v = 16" for G v
    using assms(2) that by (induction n arbitrary: v xs) (simp_all add: split_beta)
  with assms show ?thesis
    by (auto simp: ctx_ok_def mode_dec_spec_def MAX_BLOCK_LEN_def split: isrcry_mode_desc.split)
qed

lemma mode_encrypt_eq:
  assumes "ctx_ok c" "n * 16 \<le> length i" "n * 16 \<le> length b"
  shows "mode_encrypt c (Some i) (n * 16) (Some b) =
    (ISRCRY_OK, c\<lparr>cc_iv := fst (ctx_enc c n i)\<rparr>, Some (snd (ctx_enc c n i) @ drop (n * 16) b))"
  using assms aes.cbc_enc_spec_len(2) [of "cc_key c" "cc_iv c" n i]
  by (auto simp: mode_encrypt_def mode_enc_spec_def ecb_encrypt_def cbc_encrypt_def ctx_ok_def Let_def
      aes.ecb_enc_loop aes.cbc_enc_loop MAX_BLOCK_LEN_def blit_over split: isrcry_mode_desc.split)

lemma mode_decrypt_eq:
  assumes "ctx_ok c" "n * 16 \<le> length i" "n * 16 \<le> length b"
  shows "mode_decrypt c (Some i) (n * 16) (Some b) =
    (ISRCRY_OK, c\<lparr>cc_iv := fst (ctx_dec c n i)\<rparr>, Some (snd (ctx_dec c n i) @ drop (n * 16) b))"
  using assms length_ctx_dec_iv [OF assms(1,2)]
  by (auto simp: mode_decrypt_def mode_dec_spec_def ecb_decrypt_def cbc_decrypt_def ctx_ok_def Let_def
      aes.ecb_dec_loop aes.cbc_dec_loop MAX_BLOCK_LEN_def blit_over split: isrcry_mode_desc.split)

lemma ctx_ok_iv [simp]: "length v = 16 \<Longrightarrow> ctx_ok c \<Longrightarrow> ctx_ok (c\<lparr>cc_iv := v\<rparr>)"
  by (simp add: ctx_ok_def MAX_BLOCK_LEN_def)

section \<open>Allocation and keying\<close>

lemma aes_zero_shape: "aes_key_shape (cd_zero aes_desc)"
  by (simp add: aes_desc_def aes_key_shape_def)

definition alloc_ok :: "cipher_ctx \<Rightarrow> bool" where
  "alloc_ok c \<longleftrightarrow> cc_cipher c = aes_desc \<and> aes_key_shape (cc_key c) \<and> length (cc_iv c) = MAX_BLOCK_LEN"

lemma isrcry_cipher_alloc_ok:
  "isrcry_cipher_alloc ciph m = Some c \<Longrightarrow> alloc_ok c"
  using aes_zero_shape
  by (auto simp: isrcry_cipher_alloc_def cipher_desc_def mode_desc_def alloc_ok_def split: if_splits)

lemma ctx_ok_alloc_ok: "ctx_ok c \<Longrightarrow> alloc_ok c"
  by (simp add: ctx_ok_def alloc_ok_def)

lemma isrcry_cipher_init_ok:
  assumes "alloc_ok c" "keylen = 16 \<or> keylen = 24 \<or> keylen = 32"
    and "dir = ISRCRY_ENCRYPT \<or> dir = ISRCRY_DECRYPT"
    and "ivp = None \<or> (\<exists>v. ivp = Some v \<and> 16 \<le> length v)"
  shows "\<exists>k. aes_init (cc_key c) (Some key) keylen = (ISRCRY_OK, k) \<and>
    isrcry_cipher_init c dir (Some key) keylen ivp = Some (ISRCRY_OK,
      c\<lparr>cc_key := k, cc_direction := dir,
         cc_iv := (case ivp of None \<Rightarrow> replicate 16 0 | Some v \<Rightarrow> take 16 v)\<rparr>) \<and>
    ctx_ok (c\<lparr>cc_key := k, cc_direction := dir,
         cc_iv := (case ivp of None \<Rightarrow> replicate 16 0 | Some v \<Rightarrow> take 16 v)\<rparr>)"
proof -
  obtain k where k: "aes_init (cc_key c) (Some key) keylen = (ISRCRY_OK, k)" "aes_key_ok k" "aes_key_shape k"
    using aes_init_ok [OF _ assms(2), of "cc_key c" key] assms(1) by (auto simp: alloc_ok_def)
  have "\<exists>v. (case ivp of None \<Rightarrow> replicate 16 0 | Some v \<Rightarrow> take 16 v) = v \<and> length v = 16"
    using assms(4) by (auto split: option.split)
  then show ?thesis
    using assms(1,3,4) k
    by (auto simp: isrcry_cipher_init_def alloc_ok_def ctx_ok_def MAX_BLOCK_LEN_def blit_over Let_def)
qed

section \<open>The padded final call\<close>

lemma cipher_final_encrypt_eq:
  assumes "ctx_ok c" "length i = inlen" "inlen + 16 < 2 ^ 32"
    and cap: "(inlen div 16 + 1) * 16 \<le> length b" "(inlen div 16 + 1) * 16 \<le> outlen"
  defines "n \<equiv> inlen div 16" and "r \<equiv> inlen mod 16"
  defines "lblk \<equiv> drop (n * 16) i @ replicate (16 - r) (of_nat (16 - r))"
  defines "c1 \<equiv> c\<lparr>cc_iv := fst (ctx_enc c n i)\<rparr>"
  shows "cipher_final_encrypt c pkcs5_desc i inlen b outlen =
    (ISRCRY_OK, c1\<lparr>cc_iv := fst (ctx_enc c1 1 lblk)\<rparr>,
     snd (ctx_enc c n i) @ snd (ctx_enc c1 1 lblk) @ drop ((n + 1) * 16) b, (n + 1) * 16)"
proof -
  have off: "inlen - r = n * 16" and r: "r < 16" and ln: "n * 16 \<le> length i"
    using assms(2) by (simp_all add: n_def r_def minus_mod_eq_div_mult)
  have add: "add32 (n * 16) 16 = (n + 1) * 16"
    using assms(3) off by (subst add32_small) (auto simp: n_def)
  have tl: "take r (drop (n * 16) i) = drop (n * 16) i" "length (drop (n * 16) i) = r"
    using assms(2) off r_def by (auto simp: n_def)
  have lb: "blit (blit (replicate 16 0) 0 (drop (n * 16) i)) r (replicate (16 - r) x) =
      drop (n * 16) i @ replicate (16 - r) x" for x
    using r tl(2) by (simp add: blit_def)
  have pad: "pkcs5_pad (Some (blit (replicate 16 0) 0 (drop (n * 16) i))) 16 r = (ISRCRY_OK, Some lblk)"
    using r tl(2) by (subst pkcs5_pad_ok) (auto simp: lb lblk_def)
  have lblk: "length lblk = 16"
    using r tl(2) by (simp add: lblk_def)
  have c1: "ctx_ok c1"
    using assms(1) ctx_enc_len [OF assms(1) ln] by (simp add: c1_def)
  have e1: "mode_encrypt c (Some i) (n * 16) (Some b) =
      (ISRCRY_OK, c1, Some (snd (ctx_enc c n i) @ drop (n * 16) b))"
    unfolding c1_def using assms(1) ln cap(1) by (intro mode_encrypt_eq) (auto simp: n_def)
  have e2: "mode_encrypt c1 (Some lblk) 16 (Some (drop (n * 16) b)) =
      (ISRCRY_OK, c1\<lparr>cc_iv := fst (ctx_enc c1 1 lblk)\<rparr>, Some (snd (ctx_enc c1 1 lblk) @ drop ((n + 1) * 16) b))"
    using mode_encrypt_eq [OF c1, of 1 lblk "drop (n * 16) b"] lblk cap(1) by (simp add: n_def add.commute)
  show ?thesis
    using assms(1) cap(2) e1 e2 pad
    unfolding cipher_final_encrypt_def Let_def n_def [symmetric]
    by (simp add: ctx_ok_def r_def [symmetric] off add tl(1) pkcs5_desc_def MAX_BLOCK_LEN_def
        buf_of_def n_def [symmetric] ctx_enc_len(1) [OF assms(1) ln])
qed

lemma cipher_final_decrypt_eq:
  assumes "ctx_ok d" "length i = inlen" "inlen + 16 < 2 ^ 32"
    and cap: "inlen \<le> length b" "inlen \<le> outlen"
  defines "n \<equiv> inlen div 16" and "r \<equiv> inlen mod 16"
  defines "lblk \<equiv> drop (n * 16) i @ replicate (16 - r) (of_nat (16 - r))"
  defines "d1 \<equiv> d\<lparr>cc_iv := fst (ctx_enc d n i)\<rparr>"
  shows "cipher_final_decrypt d pkcs5_desc (snd (ctx_enc d n i) @ snd (ctx_enc d1 1 lblk)) ((n + 1) * 16) b outlen =
    (ISRCRY_OK, d1\<lparr>cc_iv := fst (ctx_enc d1 1 lblk)\<rparr>, i @ drop inlen b, inlen)"
proof -
  have ln: "n * 16 \<le> length i" and r: "r < 16" and nr: "n * 16 + r = inlen"
    using assms(2) by (simp_all add: n_def r_def)
  have tl: "length (drop (n * 16) i) = r"
    using assms(2) nr by simp
  have lblk: "length lblk = 16"
    using r tl by (simp add: lblk_def)
  have d1: "ctx_ok d1"
    using assms(1) ctx_enc_len [OF assms(1) ln] by (simp add: d1_def)
  have c1len: "length (snd (ctx_enc d n i)) = n * 16" and c2len: "length (snd (ctx_enc d1 1 lblk)) = 16"
    using ctx_enc_len(1) [OF assms(1) ln] ctx_enc_len(1) [OF d1, of 1 lblk] lblk by simp_all
  have e1: "mode_decrypt d (Some (snd (ctx_enc d n i) @ snd (ctx_enc d1 1 lblk))) (n * 16) (Some b) =
      (ISRCRY_OK, d1, Some (take (n * 16) i @ drop (n * 16) b))"
    using mode_decrypt_eq [OF assms(1), of n "snd (ctx_enc d n i) @ snd (ctx_enc d1 1 lblk)" b] c1len cap(1) nr
    by (simp add: ctx_dec_enc [OF assms(1) ln] d1_def)
  have e2: "mode_decrypt d1 (Some (snd (ctx_enc d1 1 lblk))) 16 (Some (replicate 16 0)) =
      (ISRCRY_OK, d1\<lparr>cc_iv := fst (ctx_enc d1 1 lblk)\<rparr>, Some lblk)"
    using mode_decrypt_eq [OF d1, of 1 "snd (ctx_enc d1 1 lblk)" "replicate 16 0"] c2len lblk
      ctx_dec_enc [OF d1, of 1 lblk "[]"] by simp
  have "lblk = blit lblk r (replicate (16 - r) (of_nat (16 - r)))"
    using r tl by (simp add: lblk_def blit_def)
  then have unpad: "pkcs5_unpad (Some lblk) 16 (Some 0) = (ISRCRY_OK, Some r)"
    using pkcs5_unpad_blit [of r 16 lblk 0] r lblk by simp
  have add: "add32 (n * 16) r = inlen"
    using assms(3) nr by (simp add: add32_def)
  have out: "blit (take (n * 16) i @ drop (n * 16) b) (n * 16) (take r lblk) = i @ drop inlen b"
    using ln tl cap(1) nr by (simp add: blit_def lblk_def add.commute)
  show ?thesis
    using assms(1) cap(2) e1 e2 unpad out nr
    unfolding cipher_final_decrypt_def Let_def
    by (simp add: ctx_ok_def pkcs5_desc_def MAX_BLOCK_LEN_def buf_of_def add c1len)
qed

section \<open>Pairs of contexts\<close>

text \<open>
  The contexts that one key and one initialisation vector give for the two directions differ in the direction only.
\<close>

lemma cipher_open:
  assumes "isrcry_cipher_alloc ciph m = Some c0" "keylen = 16 \<or> keylen = 24 \<or> keylen = 32"
    and "ivp = None \<or> (\<exists>v. ivp = Some v \<and> 16 \<le> length v)"
  obtains K where "ctx_ok K"
    "\<And>dir. dir = ISRCRY_ENCRYPT \<or> dir = ISRCRY_DECRYPT \<Longrightarrow>
      isrcry_cipher_init c0 dir (Some key) keylen ivp = Some (ISRCRY_OK, K\<lparr>cc_direction := dir\<rparr>)"
proof -
  note ok = isrcry_cipher_alloc_ok [OF assms(1)]
  obtain k where k: "aes_init (cc_key c0) (Some key) keylen = (ISRCRY_OK, k)"
    using isrcry_cipher_init_ok [OF ok assms(2), of 0 ivp key] assms(3) by auto
  let ?K = "c0\<lparr>cc_key := k, cc_iv := (case ivp of None \<Rightarrow> replicate 16 0 | Some v \<Rightarrow> take 16 v)\<rparr>"
  have i: "isrcry_cipher_init c0 dir (Some key) keylen ivp = Some (ISRCRY_OK, ?K\<lparr>cc_direction := dir\<rparr>)"
    "ctx_ok (?K\<lparr>cc_direction := dir\<rparr>)"
    if "dir = ISRCRY_ENCRYPT \<or> dir = ISRCRY_DECRYPT" for dir
    using isrcry_cipher_init_ok [OF ok assms(2) that assms(3), of key] k by (auto simp: ctx_ok_def)
  have "ctx_ok ?K"
    using i(2) [of 0] by (simp add: ctx_ok_def)
  with that i(1) show thesis
    by blast
qed

lemma ctx_ok_direction [simp]: "ctx_ok (K\<lparr>cc_direction := d\<rparr>) = ctx_ok K"
  by (simp add: ctx_ok_def)

text \<open>Whole blocks and padded data through a pair of contexts that differ in direction only.\<close>

lemma process_round_trip:
  assumes "ctx_ok K" "length i = n * 16" "length i \<le> length b"
  shows "\<exists>c1 e. isrcry_cipher_process (K\<lparr>cc_direction := 1\<rparr>) (Some i) (length i) (Some b) = (ISRCRY_OK, c1, Some (e @ drop (length i) b))
    \<and> length e = length i
    \<and> (\<forall>b'. length b' = length i \<longrightarrow>
        (\<exists>c2. isrcry_cipher_process (K\<lparr>cc_direction := 0\<rparr>) (Some e) (length i) (Some b') = (ISRCRY_OK, c2, Some i)))"
proof -
  let ?e = "snd (ctx_enc K n i)"
  have le: "length ?e = n * 16"
    using ctx_enc_len(1) [OF assms(1), of n i] assms(2) by simp
  have "isrcry_cipher_process (K\<lparr>cc_direction := 1\<rparr>) (Some i) (length i) (Some b) =
      (ISRCRY_OK, K\<lparr>cc_direction := 1, cc_iv := fst (ctx_enc K n i)\<rparr>, Some (?e @ drop (length i) b))"
    using mode_encrypt_eq [of "K\<lparr>cc_direction := 1\<rparr>" n i b] assms by (simp add: isrcry_cipher_process_def)
  moreover have "isrcry_cipher_process (K\<lparr>cc_direction := 0\<rparr>) (Some ?e) (length i) (Some b') =
      (ISRCRY_OK, K\<lparr>cc_direction := 0, cc_iv := fst (ctx_enc K n i)\<rparr>, Some i)" if "length b' = length i" for b'
    using mode_decrypt_eq [of "K\<lparr>cc_direction := 0\<rparr>" n ?e b'] ctx_dec_enc [OF assms(1), of n i "[]"] assms le that
    by (simp add: isrcry_cipher_process_def)
  ultimately show ?thesis
    using le assms(2) by fastforce
qed

lemma final_round_trip:
  assumes "ctx_ok K" "(length i div 16 + 1) * 16 \<le> m" "m \<le> length b" "length i + 16 < 2 ^ 32"
  defines "len \<equiv> (length i div 16 + 1) * 16"
  shows "\<exists>c1 e. isrcry_cipher_final (Some (K\<lparr>cc_direction := 1\<rparr>)) ISRCRY_PADDING_PKCS5 (Some i) (length i) (Some b) (Some m) =
      (ISRCRY_OK, c1, Some (e @ drop len b), Some len) \<and> length e = len
    \<and> (\<forall>b' m'. length i \<le> length b' \<longrightarrow> length i \<le> m' \<longrightarrow>
        (\<exists>c2. isrcry_cipher_final (Some (K\<lparr>cc_direction := 0\<rparr>)) ISRCRY_PADDING_PKCS5 (Some e) len (Some b') (Some m') =
           (ISRCRY_OK, c2, Some (i @ drop (length i) b'), Some (length i))))"
proof -
  let ?n = "length i div 16"
  let ?l = "drop (?n * 16) i @ replicate (16 - length i mod 16) (of_nat (16 - length i mod 16))"
  let ?K = "K\<lparr>cc_iv := fst (ctx_enc K ?n i)\<rparr>"
  let ?e = "snd (ctx_enc K ?n i) @ snd (ctx_enc ?K 1 ?l)"
  have ln: "?n * 16 \<le> length i" and l16: "length ?l = 16"
    by (simp_all add: minus_div_mult_eq_mod)
  have "ctx_ok ?K"
    using ctx_enc_len(2) [OF assms(1) ln] assms(1) by simp
  then have le: "length ?e = len"
    using ctx_enc_len(1) [OF assms(1) ln] ctx_enc_len(1) [of ?K 1 ?l] l16 by (simp add: len_def)
  have pd: "pad_desc ISRCRY_PADDING_PKCS5 = Some pkcs5_desc"
    by (simp add: pad_desc_def)
  have "\<exists>c1. isrcry_cipher_final (Some (K\<lparr>cc_direction := 1\<rparr>)) ISRCRY_PADDING_PKCS5 (Some i) (length i) (Some b) (Some m) =
      (ISRCRY_OK, c1, Some (?e @ drop len b), Some len)"
    using cipher_final_encrypt_eq [of "K\<lparr>cc_direction := 1\<rparr>" i "length i" b m] assms
    by (simp add: isrcry_cipher_final_def pd len_def)
  moreover have "\<exists>c2. isrcry_cipher_final (Some (K\<lparr>cc_direction := 0\<rparr>)) ISRCRY_PADDING_PKCS5 (Some ?e) len (Some b') (Some m') =
      (ISRCRY_OK, c2, Some (i @ drop (length i) b'), Some (length i))" if "length i \<le> length b'" "length i \<le> m'" for b' m'
    using cipher_final_decrypt_eq [of "K\<lparr>cc_direction := 0\<rparr>" i "length i" b' m'] assms that
    by (simp add: isrcry_cipher_final_def pd len_def)
  ultimately show ?thesis
    using le by blast
qed

lemma length_ctx_dec:
  assumes "ctx_ok c" "n * 16 \<le> length xs"
  shows "length (snd (ctx_dec c n xs)) = n * 16"
proof -
  let ?G = "aes_dec_block (cc_key c)"
  have G: "length (?G x) = 16" if "length x = 16" for x
    using aes.D_len assms(1) that by (simp add: ctx_ok_def)
  have "length (ecb_spec ?G 16 n xs) = n * 16"
    using assms(2) by (induction n arbitrary: xs) (simp_all add: G)
  moreover have "length (snd (cbc_dec_spec ?G 16 n v xs)) = n * 16" if "length v = 16" for v
    using assms(2) that by (induction n arbitrary: v xs) (simp_all add: G split_beta)
  ultimately show ?thesis
    using assms(1) by (auto simp: ctx_ok_def MAX_BLOCK_LEN_def mode_dec_spec_def split: isrcry_mode_desc.split)
qed

section \<open>The padded final call on any ciphertext\<close>

lemma ctx_dec_split:
  assumes "ctx_ok c"
  shows "ctx_dec c (m + 1) xs =
    (fst (ctx_dec (c\<lparr>cc_iv := fst (ctx_dec c m xs)\<rparr>) 1 (drop (m * 16) xs)),
     snd (ctx_dec c m xs) @ snd (ctx_dec (c\<lparr>cc_iv := fst (ctx_dec c m xs)\<rparr>) 1 (drop (m * 16) xs)))"
proof -
  have "ecb_spec G bl (m + n) xs = ecb_spec G bl m xs @ ecb_spec G bl n (drop (m * bl) xs)" for G bl n
    by (induction m arbitrary: xs) (simp_all add: add.commute)
  then show ?thesis
    using cbc_dec_spec_add [of _ 16 m 1 "cc_iv c" xs]
    by (simp add: mode_dec_spec_def split_beta split: isrcry_mode_desc.split del: One_nat_def)
qed

lemma cipher_final_decrypt_strip:
  assumes "ctx_ok d" "length i = (m + 1) * 16" "length i \<le> length b" "length i \<le> outlen" "length i < 2 ^ 32"
  shows "\<exists>c b'. cipher_final_decrypt d pkcs5_desc i (length i) b outlen =
    (case pkcs5_strip 16 (snd (ctx_dec d (m + 1) i)) of
       None \<Rightarrow> (ISRCRY_BAD_PADDING, c, b', outlen)
     | Some z \<Rightarrow> (ISRCRY_OK, c, z @ drop (length z) b, length z))"
proof -
  define d1 where "d1 = d\<lparr>cc_iv := fst (ctx_dec d m i)\<rparr>"
  define L where "L = snd (ctx_dec d1 1 (drop (m * 16) i))"
  define A where "A = snd (ctx_dec d m i)"
  have d1: "ctx_ok d1"
    using length_ctx_dec_iv [OF assms(1), of m i] assms(1,2) by (simp add: d1_def)
  have A: "length A = m * 16" and L: "length L = 16"
    using length_ctx_dec [OF assms(1), of m i] length_ctx_dec [OF d1, of 1 "drop (m * 16) i"] assms(2)
    by (simp_all add: A_def L_def)
  have off: "length i - 16 = m * 16" "length i mod 16 = 0" "length i \<noteq> 0"
    using assms(2) by simp_all
  have e1: "mode_decrypt d (Some i) (m * 16) (Some b) = (ISRCRY_OK, d1, Some (A @ drop (m * 16) b))"
    using mode_decrypt_eq [OF assms(1), of m i b] assms(2,3) by (simp add: A_def d1_def)
  obtain d2 where e2: "mode_decrypt d1 (Some (drop (m * 16) i)) 16 (Some (replicate 16 0)) = (ISRCRY_OK, d2, Some L)"
    using mode_decrypt_eq [OF d1, of 1 "drop (m * 16) i" "replicate 16 0"] assms(2) by (simp add: L_def)
  have un: "pkcs5_unpad (Some L) 16 (Some 0) =
      (case pkcs5_strip 16 L of None \<Rightarrow> (ISRCRY_BAD_PADDING, Some 0) | Some z \<Rightarrow> (ISRCRY_OK, Some (length z)))"
    using L by (intro pkcs5_unpad_strip) simp_all
  have s: "pkcs5_strip 16 (snd (ctx_dec d (m + 1) i)) = map_option ((@) A) (pkcs5_strip 16 L)"
    using L pkcs5_strip_append [of L 16 A] by (simp only: ctx_dec_split [OF assms(1)] A_def L_def d1_def) simp
  show ?thesis
  proof (cases "pkcs5_strip 16 L")
    case None
    then have "cipher_final_decrypt d pkcs5_desc i (length i) b outlen = (ISRCRY_BAD_PADDING, d2, A @ drop (m * 16) b, outlen)"
      using assms(1,2,4) e1 e2 un off
      unfolding cipher_final_decrypt_def Let_def by (simp add: ctx_ok_def pkcs5_desc_def MAX_BLOCK_LEN_def buf_of_def)
    with None s show ?thesis
      by auto
  next
    case (Some z)
    then have z: "z = take (length z) L" "length z \<le> 16"
      using L by (auto simp: pkcs5_strip_def Let_def split: if_splits)
    have add: "add32 (m * 16) (length z) = m * 16 + length z"
      using z(2) assms(2,5) by (intro add32_small) simp
    have out: "blit (A @ drop (m * 16) b) (m * 16) (take (length z) L) = (A @ z) @ drop (length (A @ z)) b"
      using z A by (simp add: blit_def add.commute)
    have "cipher_final_decrypt d pkcs5_desc i (length i) b outlen =
        (ISRCRY_OK, d2, (A @ z) @ drop (length (A @ z)) b, length (A @ z))"
      using assms(1,2,4) e1 e2 un off Some add out z(2) A
      unfolding cipher_final_decrypt_def Let_def by (simp add: ctx_ok_def pkcs5_desc_def MAX_BLOCK_LEN_def buf_of_def)
    with Some s show ?thesis
      by auto
  qed
qed

end
