(* ===== verification/Isr_Block_Hash.thy ===== *)
theory Isr_Block_Hash
  imports Isr_Prelude
begin

text \<open>
  The buffering and padding that \<^verbatim>\<open>crypto/sha1.c\<close> and \<^verbatim>\<open>crypto/md5.c\<close> share (their \<open>update\<close> and
  \<open>final\<close> functions are the same code around different compression functions and byte orders),
  and its correctness against the padded-message definition of an iterated hash.
\<close>

section \<open>The context and its operations\<close>

record isrcry_block_ctx =
  bc_digest :: "u32 list"
  bc_count :: u64
  bc_block :: bytes
  bc_index :: nat

type_synonym compress_fun = "u32 list \<Rightarrow> bytes \<Rightarrow> u32 list"

definition DATA_SIZE :: nat where "DATA_SIZE = 64"

function update_loop :: "compress_fun \<Rightarrow> isrcry_block_ctx \<Rightarrow> bytes \<Rightarrow> isrcry_block_ctx \<times> bytes" where
  "update_loop f ctx buffer =
     (if length buffer \<ge> DATA_SIZE
      then update_loop f (ctx\<lparr>bc_digest := f (bc_digest ctx) (take DATA_SIZE buffer),
                              bc_count := bc_count ctx + 1\<rparr>) (drop DATA_SIZE buffer)
      else (ctx, buffer))"
  by pat_completeness auto
termination
  by (relation "measure (\<lambda>(f, ctx, buffer). length buffer)") (auto simp: DATA_SIZE_def)

declare update_loop.simps [simp del]

definition update_tail :: "compress_fun \<Rightarrow> isrcry_block_ctx \<Rightarrow> bytes \<Rightarrow> isrcry_block_ctx" where
  "update_tail f ctx buffer =
     (case update_loop f ctx buffer of
        (ctx, rest) \<Rightarrow> ctx\<lparr>bc_index := length rest, bc_block := blit (bc_block ctx) 0 rest\<rparr>)"

definition block_update :: "compress_fun \<Rightarrow> isrcry_block_ctx \<Rightarrow> bytes \<Rightarrow> isrcry_block_ctx" where
  "block_update f ctx buffer =
     (if bc_index ctx \<noteq> 0 then
        let left = DATA_SIZE - bc_index ctx in
        if length buffer < left
        then ctx\<lparr>bc_block := blit (bc_block ctx) (bc_index ctx) buffer,
                 bc_index := bc_index ctx + length buffer\<rparr>
        else
          let block = blit (bc_block ctx) (bc_index ctx) (take left buffer) in
          update_tail f (ctx\<lparr>bc_block := block, bc_digest := f (bc_digest ctx) block,
                             bc_count := bc_count ctx + 1\<rparr>) (drop left buffer)
      else update_tail f ctx buffer)"

definition bitcount :: "isrcry_block_ctx \<Rightarrow> u64" where
  "bitcount ctx = push_bit 9 (bc_count ctx) OR of_nat (8 * bc_index ctx mod 2 ^ 32)"

text \<open>\<open>lenenc\<close> is the byte order of the 64-bit count of bits.\<close>

definition block_final :: "compress_fun \<Rightarrow> (u64 \<Rightarrow> bytes) \<Rightarrow> isrcry_block_ctx \<Rightarrow> isrcry_block_ctx" where
  "block_final f lenenc ctx =
     (let i = bc_index ctx;
          block = (bc_block ctx)[i := 0x80];
          i = i + 1;
          (block, digest, i) =
            (if i > DATA_SIZE - 8
             then let block = blit block i (replicate (DATA_SIZE - i) 0)
                  in (block, f (bc_digest ctx) block, 0)
             else (block, bc_digest ctx, i));
          block = (if i < DATA_SIZE - 8 then blit block i (replicate (DATA_SIZE - 8 - i) 0) else block);
          block = blit block (DATA_SIZE - 8) (lenenc (bitcount ctx))
      in ctx\<lparr>bc_block := block, bc_digest := f digest block\<rparr>)"

section \<open>The iterated hash of a padded message\<close>

primrec md_blocks :: "compress_fun \<Rightarrow> u32 list \<Rightarrow> nat \<Rightarrow> bytes \<Rightarrow> u32 list" where
  "md_blocks f d 0 xs = d"
| "md_blocks f d (Suc n) xs = md_blocks f (f d (take 64 xs)) n (drop 64 xs)"

definition md_pad :: "(u64 \<Rightarrow> bytes) \<Rightarrow> bytes \<Rightarrow> bytes" where
  "md_pad lenenc m =
     m @ [0x80] @ replicate ((119 - length m mod 64) mod 64) 0 @ lenenc (of_nat (8 * length m))"

definition md_hash :: "compress_fun \<Rightarrow> u32 list \<Rightarrow> (u64 \<Rightarrow> bytes) \<Rightarrow> bytes \<Rightarrow> u32 list" where
  "md_hash f d0 lenenc m = md_blocks f d0 (length (md_pad lenenc m) div 64) (md_pad lenenc m)"

lemma md_blocks_append:
  "length xs = 64 * n \<Longrightarrow> md_blocks f d (n + k) (xs @ ys) = md_blocks f (md_blocks f d n xs) k ys"
  by (induction n arbitrary: d xs) auto

lemma md_blocks_snoc:
  assumes "length xs = 64 * n" "length x = 64"
  shows "md_blocks f d (Suc n) (xs @ x) = f (md_blocks f d n xs) x"
  using md_blocks_append [OF assms(1), of f d 1 x] assms(2) by (simp del: md_blocks.simps(2) add: md_blocks.simps(2) [of _ _ 0])

text \<open>The context has absorbed the message \<open>m\<close>: whole blocks in the digest, the rest in the buffer.\<close>

definition absorbed :: "compress_fun \<Rightarrow> u32 list \<Rightarrow> isrcry_block_ctx \<Rightarrow> bytes \<Rightarrow> bool" where
  "absorbed f d0 ctx m \<longleftrightarrow> length (bc_block ctx) = 64
     \<and> bc_index ctx = length m mod 64
     \<and> bc_count ctx = of_nat (length m div 64)
     \<and> bc_digest ctx = md_blocks f d0 (length m div 64) m
     \<and> take (length m mod 64) (bc_block ctx) = drop (length m div 64 * 64) m"

lemma absorbed_split:
  assumes "length m1 = 64 * n" "length m2 < 64"
  shows "absorbed f d0 ctx (m1 @ m2) \<longleftrightarrow> length (bc_block ctx) = 64 \<and> bc_index ctx = length m2
     \<and> bc_count ctx = of_nat n \<and> bc_digest ctx = md_blocks f d0 n m1 \<and> take (length m2) (bc_block ctx) = m2"
proof -
  have "length (m1 @ m2) div 64 = n" "length (m1 @ m2) mod 64 = length m2"
    using assms by simp_all
  moreover have "md_blocks f d0 n (m1 @ m2) = md_blocks f d0 n m1"
    using md_blocks_append [OF assms(1), of f d0 0 m2] by simp
  ultimately show ?thesis
    using assms by (simp add: absorbed_def mult.commute)
qed

lemma split_blocks:
  obtains m1 m2 n where "m = m1 @ m2" "length m1 = 64 * n" "length m2 < 64"
proof
  show "m = take (64 * (length m div 64)) m @ drop (64 * (length m div 64)) m"
    by simp
  show "length (take (64 * (length m div 64)) m) = 64 * (length m div 64)"
    by simp
  show "length (drop (64 * (length m div 64)) m) < 64"
    by (simp add: minus_mult_div_eq_mod)
qed

section \<open>Absorbing\<close>

lemma update_loop_eq:
  assumes "length xs = 64 * n" "length r < 64"
  shows "update_loop f ctx (xs @ r) =
    (ctx\<lparr>bc_digest := md_blocks f (bc_digest ctx) n xs, bc_count := bc_count ctx + of_nat n\<rparr>, r)"
  using assms(1)
proof (induction n arbitrary: ctx xs)
  case 0
  then show ?case
    using assms(2) by (simp add: update_loop.simps DATA_SIZE_def)
next
  case (Suc n)
  show ?case
    using Suc.prems Suc.IH [of "drop 64 xs"]
    by (subst update_loop.simps) (simp add: DATA_SIZE_def add.assoc)
qed

lemma update_tail_absorbed:
  assumes "length (bc_block ctx) = 64" "length m = 64 * n" "bc_count ctx = of_nat n"
    "bc_digest ctx = md_blocks f d0 n m"
  shows "absorbed f d0 (update_tail f ctx b) (m @ b)"
proof -
  obtain b1 b2 k where b: "b = b1 @ b2" "length b1 = 64 * k" "length b2 < 64"
    by (rule split_blocks)
  have "length (m @ b1) = 64 * (n + k)"
    using assms(2) b(2) by simp
  from absorbed_split [OF this b(3)] show ?thesis
    using assms b by (simp add: b(1) update_tail_def update_loop_eq md_blocks_append take_blit [where off = 0, simplified])
qed

lemma block_update_absorbed:
  assumes "absorbed f d0 ctx m"
  shows "absorbed f d0 (block_update f ctx b) (m @ b)"
proof -
  obtain m1 m2 n where m: "m = m1 @ m2" "length m1 = 64 * n" "length m2 < 64"
    by (rule split_blocks)
  note a = assms [unfolded m(1) absorbed_split [OF m(2,3)]]
  have blk: "take (length m2 + length x) (blit (bc_block ctx) (length m2) x) = m2 @ x"
    if "length m2 + length x \<le> 64" for x
    using a that by (simp add: take_blit)
  consider "m2 = []" | "m2 \<noteq> []" "length m2 + length b < 64" | "m2 \<noteq> []" "64 \<le> length m2 + length b"
    by linarith
  then show ?thesis
  proof cases
    case 1
    then show ?thesis
      using a m update_tail_absorbed [of ctx m1 n f d0 b] by (simp add: block_update_def)
  next
    case 2
    then have "length b < 64 - length m2"
      by simp
    with 2 show ?thesis
      using a m absorbed_split [OF m(2), of "m2 @ b"] blk [of b]
      by (simp add: block_update_def Let_def DATA_SIZE_def)
  next
    case 3
    define l where "l = 64 - length m2"
    have l: "length m2 + length (take l b) = 64"
      using 3 m(3) by (simp add: l_def)
    have full: "blit (bc_block ctx) (length m2) (take l b) = m2 @ take l b"
      using blk [of "take l b"] l a by simp
    have d: "md_blocks f d0 (Suc n) (m1 @ m2 @ take l b) = f (bc_digest ctx) (m2 @ take l b)"
      using a l by (subst md_blocks_snoc [OF m(2)]) simp_all
    let ?ctx = "ctx\<lparr>bc_block := m2 @ take l b, bc_digest := f (bc_digest ctx) (m2 @ take l b),
      bc_count := bc_count ctx + 1\<rparr>"
    have t: "absorbed f d0 (update_tail f ?ctx (drop l b)) ((m1 @ m2 @ take l b) @ drop l b)"
      by (rule update_tail_absorbed [where n = "Suc n"]) (use a m(2) l d in simp_all)
    have "\<not> length b < l"
      using 3 by (simp add: l_def)
    then have "block_update f ctx b = update_tail f ?ctx (drop l b)"
      using 3 a full by (simp add: block_update_def Let_def DATA_SIZE_def l_def [symmetric])
    with t show ?thesis
      by (simp add: m(1))
  qed
qed

section \<open>Finishing\<close>

lemma bitcount_eq:
  assumes "bc_count ctx = of_nat n" "bc_index ctx = k" "k < 64"
  shows "bitcount ctx = of_nat (8 * (64 * n + k))"
proof -
  have k: "8 * k mod 2 ^ 32 = 8 * k"
    using assms(3) by simp
  have low: "bit (of_nat (8 * k) :: u64) i \<Longrightarrow> i < 9" for i
  proof -
    assume b: "bit (of_nat (8 * k) :: u64) i"
    have "take_bit 9 (of_nat (8 * k) :: u64) = of_nat (take_bit 9 (8 * k))"
      by (simp only: take_bit_of_nat)
    also have "take_bit 9 (8 * k) = 8 * k"
      using assms(3) by (simp add: take_bit_nat_eq_self_iff)
    finally show "i < 9"
      using b by (metis bit_take_bit_iff)
  qed
  have "bitcount ctx = push_bit 9 (of_nat n) + of_nat (8 * k)"
    unfolding bitcount_def assms(1,2) k
    by (intro disjunctive_add [symmetric]) (metis bit_push_bit_iff leD low)
  then show ?thesis
    by (simp add: push_bit_eq_mult algebra_simps)
qed

lemma pad_zeros:
  "l < 56 \<Longrightarrow> (119 - l) mod 64 = 55 - (l::nat)"
  "56 \<le> l \<Longrightarrow> l < 64 \<Longrightarrow> (119 - l) mod 64 = 119 - (l::nat)"
proof -
  assume "l < 56"
  then have e: "119 - l = 64 + (55 - l)" by arith
  show "(119 - l) mod 64 = 55 - l" unfolding e by simp
next
  assume "56 \<le> l" "l < 64"
  then show "(119 - l) mod 64 = 119 - l" by (intro mod_less) arith
qed

lemma update_snoc: "length xs = n \<Longrightarrow> n < length b \<Longrightarrow> take n b = xs \<Longrightarrow>
    take (Suc n) (b[n := x]) = xs @ [x]"
  by (simp add: take_Suc_conv_app_nth)

lemma blit_tail:
  "take n b = xs \<Longrightarrow> length b = n + length ys \<Longrightarrow> blit b n ys = xs @ ys"
  by (simp add: blit_def)

text \<open>The last block when the length still fits into it, and the last two blocks when it does not.\<close>

lemma final_one_block:
  fixes b m2 L :: bytes
  assumes "length b = 64" "take (length m2) b = m2" "length m2 < 56" "length L = 8"
    and B: "B = b[length m2 := 0x80]"
  shows "blit (if Suc (length m2) < 56 then blit B (Suc (length m2)) (replicate (56 - Suc (length m2)) 0) else B) 56 L =
    m2 @ [0x80] @ replicate (55 - length m2) 0 @ L"
proof -
  have start: "take (Suc (length m2)) B = m2 @ [0x80]"
    unfolding B using assms by (intro update_snoc) simp_all
  show ?thesis
  proof (cases "Suc (length m2) < 56")
    case True
    let ?z = "replicate (55 - length m2) (0::u8)"
    have "Suc (length m2) + length ?z = 56"
      using True by simp
    then have "take 56 (blit B (Suc (length m2)) ?z) = (m2 @ [0x80]) @ ?z"
      using take_blit [of "Suc (length m2)" ?z B] assms start by simp
    from blit_tail [OF this, of L] show ?thesis
      using True assms by simp
  next
    case False
    then have "Suc (length m2) = 56"
      using assms(3) by simp
    with blit_tail [OF start, of L] show ?thesis
      using assms by simp
  qed
qed

lemma final_two_blocks:
  fixes b m2 :: bytes
  assumes "length b = 64" "take (length m2) b = m2" "length m2 < 64"
  shows "blit (b[length m2 := 0x80]) (Suc (length m2)) (replicate (63 - length m2) 0) =
    m2 @ [0x80] @ replicate (63 - length m2) 0"
proof -
  have "take (Suc (length m2)) (b[length m2 := 0x80]) = m2 @ [0x80]"
    using assms by (intro update_snoc) simp_all
  from blit_tail [OF this] show ?thesis
    using assms by simp
qed

lemma md_hash_one_block:
  assumes m: "m = m1 @ m2" "length m1 = 64 * n" "length m2 < 56" and len: "\<And>w. length (lenenc w) = 8"
  shows "md_hash f d0 lenenc m =
    f (md_blocks f d0 n m1) (m2 @ [0x80] @ replicate (55 - length m2) 0 @ lenenc (of_nat (8 * length m)))"
    (is "_ = f _ ?B")
proof -
  have "(119 - length m mod 64) mod 64 = 55 - length m2"
    using m by (simp add: pad_zeros)
  then have pad: "md_pad lenenc m = m1 @ ?B"
    by (simp add: md_pad_def m(1))
  have blk: "length ?B = 64"
    using m(3) len by simp
  show ?thesis
    using md_blocks_snoc [OF m(2) blk] blk m(2) by (simp add: md_hash_def pad del: md_blocks.simps(2))
qed

lemma md_hash_two_blocks:
  assumes m: "m = m1 @ m2" "length m1 = 64 * n" "56 \<le> length m2" "length m2 < 64"
    and len: "\<And>w. length (lenenc w) = 8"
  shows "md_hash f d0 lenenc m =
    f (f (md_blocks f d0 n m1) (m2 @ [0x80] @ replicate (63 - length m2) 0))
      (replicate 56 0 @ lenenc (of_nat (8 * length m)))"
    (is "_ = f (f _ ?A) ?B")
proof -
  have "(119 - length m mod 64) mod 64 = 119 - length m2"
    using m by (simp add: pad_zeros)
  moreover have "replicate (119 - length m2) 0 = replicate (63 - length m2) 0 @ replicate 56 (0::u8)"
    using m by (simp add: replicate_add [symmetric])
  ultimately have pad: "md_pad lenenc m = (m1 @ ?A) @ ?B"
    by (simp add: md_pad_def m(1))
  have blk: "length ?A = 64" "length ?B = 64" "length (m1 @ ?A) = 64 * Suc n"
    using m len by simp_all
  have "length (md_pad lenenc m) div 64 = Suc (Suc n)"
    unfolding pad using blk by (simp add: len)
  then show ?thesis
    unfolding md_hash_def using md_blocks_snoc [OF blk(3,2)] md_blocks_snoc [OF m(2) blk(1)]
    by (simp only: pad)
qed

lemma block_final_digest:
  assumes abs: "absorbed f d0 ctx m" and len: "\<And>w. length (lenenc w) = 8"
  shows "bc_digest (block_final f lenenc ctx) = md_hash f d0 lenenc m"
proof -
  obtain m1 m2 n where m: "m = m1 @ m2" "length m1 = 64 * n" "length m2 < 64"
    by (rule split_blocks)
  note a = abs [unfolded m(1) absorbed_split [OF m(2,3)]]
  let ?L = "lenenc (of_nat (8 * length m))"
  have L: "lenenc (bitcount ctx) = ?L"
    using bitcount_eq [of ctx n "length m2"] a m by simp
  show ?thesis
  proof (cases "length m2 < 56")
    case True
    have "bc_digest (block_final f lenenc ctx) = f (bc_digest ctx)
        (m2 @ [0x80] @ replicate (55 - length m2) 0 @ ?L)"
      using True a L final_one_block [of "bc_block ctx" m2 ?L, OF _ _ True len refl, symmetric]
      by (simp add: block_final_def Let_def DATA_SIZE_def)
    then show ?thesis
      using a by (simp only: md_hash_one_block [OF m(1,2) True, of lenenc, OF len])
  next
    case False
    have two: "blit (blit x 0 (replicate 56 0)) 56 ?L = replicate 56 0 @ ?L" if "length x = 64" for x
      using that len by (simp add: blit_def)
    show ?thesis
      using False a L m(3) final_two_blocks [of "bc_block ctx" m2] two
        md_hash_two_blocks [OF m(1,2) _ m(3) len, of f d0]
      by (simp add: block_final_def Let_def DATA_SIZE_def)
  qed
qed

lemma absorbed_index: "absorbed f d0 ctx m \<Longrightarrow> bc_index ctx < DATA_SIZE"
  by (simp add: absorbed_def DATA_SIZE_def)

lemma block_final_block:
  assumes "absorbed f d0 ctx m" "\<And>w. length (lenenc w) = 8"
  shows "length (bc_block (block_final f lenenc ctx)) = 64"
proof -
  have "bc_index ctx < 64" "length (bc_block ctx) = 64"
    using assms(1) by (simp_all add: absorbed_def)
  then show ?thesis
    using assms(2) by (simp add: block_final_def Let_def DATA_SIZE_def)
qed

end
