(* ===== verification/Isr_SHA1.thy ===== *)
theory Isr_SHA1
  imports Isr_Block_Hash
begin

text \<open>
  SHA-1: the compression function of \<^verbatim>\<open>crypto/sha1-compress.c\<close> with its renamed registers and its
  circular message buffer, proved equal to the textbook compression function with a full
  message schedule, and the hash of \<^verbatim>\<open>crypto/sha1.c\<close>.
\<close>

section \<open>The compression function\<close>

definition ROTL :: "nat \<Rightarrow> u32 \<Rightarrow> u32" where
  "ROTL n x = push_bit n x OR drop_bit (32 - n) x"

definition f1 :: "u32 \<Rightarrow> u32 \<Rightarrow> u32 \<Rightarrow> u32" where "f1 x y z = z XOR (x AND (y XOR z))"
definition f2 :: "u32 \<Rightarrow> u32 \<Rightarrow> u32 \<Rightarrow> u32" where "f2 x y z = x XOR y XOR z"
definition f3 :: "u32 \<Rightarrow> u32 \<Rightarrow> u32 \<Rightarrow> u32" where "f3 x y z = (x AND y) OR (z AND (x OR y))"
definition f4 :: "u32 \<Rightarrow> u32 \<Rightarrow> u32 \<Rightarrow> u32" where "f4 x y z = x XOR y XOR z"

definition K1 :: u32 where "K1 = 0x5A827999"
definition K2 :: u32 where "K2 = 0x6ED9EBA1"
definition K3 :: u32 where "K3 = 0x8F1BBCDC"
definition K4 :: u32 where "K4 = 0xCA62C1D6"

definition expand :: "u32 list \<Rightarrow> nat \<Rightarrow> u32 list" where
  "expand W i = W[i mod 16 := ROTL 1 (W ! (i mod 16) XOR W ! ((i - 14) mod 16)
                                XOR W ! ((i - 8) mod 16) XOR W ! ((i - 3) mod 16))]"

text \<open>
  \<open>subRound\<close> on the registers numbered \<open>a\<close> to \<open>e\<close>.  The unrolled code calls it for
  \<open>i = 0, \<dots>, 79\<close> with the five registers turned by one place each time: argument \<open>j\<close> of call \<open>i\<close> is
  register \<open>(j - i) mod 5\<close>.
\<close>

definition subRound :: "nat \<Rightarrow> nat \<Rightarrow> nat \<Rightarrow> nat \<Rightarrow> nat \<Rightarrow> (u32 \<Rightarrow> u32 \<Rightarrow> u32 \<Rightarrow> u32) \<Rightarrow> u32 \<Rightarrow> u32
    \<Rightarrow> u32 list \<Rightarrow> u32 list" where
  "subRound a b c d e f k data r =
     (let r = r[e := r ! e + (ROTL 5 (r ! a) + f (r ! b) (r ! c) (r ! d) + k + data)]
      in r[b := ROTL 30 (r ! b)])"

definition sha1_reg :: "nat \<Rightarrow> nat \<Rightarrow> nat" where
  "sha1_reg i j = (j + 4 * i) mod 5"

definition sha1_round :: "u32 list \<times> u32 list \<Rightarrow> nat \<Rightarrow> u32 list \<times> u32 list" where
  "sha1_round s i = (case s of (data, r) \<Rightarrow>
     let data = (if i < 16 then data else expand data i);
         (f, k) = (if i < 20 then (f1, K1) else if i < 40 then (f2, K2)
                   else if i < 60 then (f3, K3) else (f4, K4))
     in (data, subRound (sha1_reg i 0) (sha1_reg i 1) (sha1_reg i 2) (sha1_reg i 3) (sha1_reg i 4)
                 f k (data ! (i mod 16)) r))"

definition sha1_compress :: "u32 list \<Rightarrow> bytes \<Rightarrow> u32 list" where
  "sha1_compress state input =
     (let data = map (\<lambda>i. LOAD32H (drop (4 * i) input)) [0..<16]
      in map2 (+) state (snd (foldl sha1_round (data, state) [0..<80])))"

section \<open>The textbook compression function\<close>

fun sha1_W :: "u32 list \<Rightarrow> nat \<Rightarrow> u32" where
  "sha1_W M t = (if t < 16 then M ! t
     else ROTL 1 (sha1_W M (t - 3) XOR sha1_W M (t - 8) XOR sha1_W M (t - 14) XOR sha1_W M (t - 16)))"

declare sha1_W.simps [simp del]

definition sha1_f :: "nat \<Rightarrow> u32 \<Rightarrow> u32 \<Rightarrow> u32 \<Rightarrow> u32" where
  "sha1_f t x y z =
     (if t < 20 then (x AND y) XOR (NOT x AND z)
      else if t < 40 then x XOR y XOR z
      else if t < 60 then (x AND y) XOR (x AND z) XOR (y AND z)
      else x XOR y XOR z)"

definition sha1_K :: "nat \<Rightarrow> u32" where
  "sha1_K t = (if t < 20 then 0x5a827999 else if t < 40 then 0x6ed9eba1
               else if t < 60 then 0x8f1bbcdc else 0xca62c1d6)"

primrec sha1_spec :: "u32 list \<Rightarrow> u32 list \<Rightarrow> nat \<Rightarrow> u32 \<times> u32 \<times> u32 \<times> u32 \<times> u32" where
  "sha1_spec M H 0 = (H ! 0, H ! 1, H ! 2, H ! 3, H ! 4)"
| "sha1_spec M H (Suc t) = (case sha1_spec M H t of (a, b, c, d, e) \<Rightarrow>
     (ROTL 5 a + sha1_f t b c d + e + sha1_K t + sha1_W M t, a, ROTL 30 b, c, d))"

definition sha1_compress_spec :: "u32 list \<Rightarrow> bytes \<Rightarrow> u32 list" where
  "sha1_compress_spec H block =
     (case sha1_spec (map (\<lambda>i. LOAD32H (drop (4 * i) block)) [0..<16]) H 80 of
        (a, b, c, d, e) \<Rightarrow> [H ! 0 + a, H ! 1 + b, H ! 2 + c, H ! 3 + d, H ! 4 + e])"

lemma f_eq:
  "f1 x y z = (x AND y) XOR (NOT x AND z)" "f3 x y z = (x AND y) XOR (x AND z) XOR (y AND z)"
  by (rule bit_word_eqI; auto simp: f1_def f3_def bit_simps)+

lemma sha1_round_fk:
  "(if i < 20 then (f1, K1) else if i < 40 then (f2, K2) else if i < 60 then (f3, K3) else (f4, K4)) =
   (sha1_f i, sha1_K i)"
  by (auto simp: fun_eq_iff sha1_f_def sha1_K_def f_eq f2_def f4_def K1_def K2_def K3_def K4_def)

text \<open>After \<open>i\<close> rounds the circular buffer holds the last sixteen words of the schedule.\<close>

definition window :: "u32 list \<Rightarrow> nat \<Rightarrow> u32 list \<Rightarrow> bool" where
  "window M i W \<longleftrightarrow> length W = 16 \<and> (\<forall>t. t < max 16 i \<longrightarrow> i \<le> t + 16 \<longrightarrow> W ! (t mod 16) = sha1_W M t)"

lemma window_init: "length M = 16 \<Longrightarrow> window M 0 M"
  by (auto simp: window_def sha1_W.simps)

lemma window_step:
  assumes "window M i W"
  shows "window M (Suc i) (if i < 16 then W else expand W i)"
    and "(if i < 16 then W else expand W i) ! (i mod 16) = sha1_W M i"
proof -
  have new: "expand W i ! (i mod 16) = sha1_W M i" if "\<not> i < 16"
  proof -
    have at: "W ! ((i - k) mod 16) = sha1_W M (i - k)" if "0 < k" "k \<le> 16" for k
      using assms that \<open>\<not> i < 16\<close> by (auto simp: window_def)
    have "i mod 16 = (i - 16) mod 16"
      using that by (intro le_mod_geq) simp
    then show ?thesis
      using that at [of 16] at [of 14] at [of 8] at [of 3] assms
      by (simp add: expand_def sha1_W.simps [of M i] window_def ac_simps)
  qed
  then show "(if i < 16 then W else expand W i) ! (i mod 16) = sha1_W M i"
    using assms by (auto simp: window_def)
  show "window M (Suc i) (if i < 16 then W else expand W i)"
  proof (cases "i < 16")
    case True
    with assms show ?thesis by (auto simp: window_def)
  next
    case False
    have "expand W i ! (t mod 16) = sha1_W M t" if "t < Suc i" "Suc i \<le> t + 16" for t
    proof (cases "t = i")
      case True
      with new False show ?thesis by simp
    next
      case False
      then have "t mod 16 \<noteq> i mod 16"
        using that mod_eq_dvd_iff_nat [of t i 16] nat_dvd_not_less [of "i - t" 16] by auto
      then show ?thesis
        using assms that False by (auto simp: expand_def window_def)
    qed
    with False assms show ?thesis
      by (auto simp: window_def expand_def)
  qed
qed

section \<open>Equality with the textbook function\<close>

definition sha1_view :: "nat \<Rightarrow> u32 list \<Rightarrow> u32 \<times> u32 \<times> u32 \<times> u32 \<times> u32" where
  "sha1_view i r = (r ! sha1_reg i 0, r ! sha1_reg i 1, r ! sha1_reg i 2, r ! sha1_reg i 3, r ! sha1_reg i 4)"

lemma sha1_reg_mod: "sha1_reg i j = (j + 4 * (i mod 5)) mod 5"
  unfolding sha1_reg_def by (metis mod_add_right_eq mod_mult_right_eq)

lemma sha1_view_subRound:
  assumes "length r = 5" "sha1_view i r = (a, b, c, d, e)"
  shows "sha1_view (Suc i) (subRound (sha1_reg i 0) (sha1_reg i 1) (sha1_reg i 2) (sha1_reg i 3) (sha1_reg i 4) f k w r) =
    (ROTL 5 a + f b c d + e + k + w, a, ROTL 30 b, c, d)"
proof -
  have "i mod 5 < 5" by simp
  then consider "i mod 5 = 0" | "i mod 5 = 1" | "i mod 5 = 2" | "i mod 5 = 3" | "i mod 5 = 4"
    by linarith
  moreover obtain r0 r1 r2 r3 r4 where "r = [r0, r1, r2, r3, r4]"
    using assms(1) by (auto simp: numeral_eq_Suc length_Suc_conv)
  ultimately show ?thesis
    using assms
    by cases (auto simp: sha1_view_def sha1_reg_mod subRound_def Let_def mod_Suc ac_simps)
qed

lemma length_subRound [simp]: "length (subRound a b c d e f k w r) = length r"
  by (simp add: subRound_def Let_def)

lemma sha1_rounds:
  assumes "length M = 16" "length H = 5" "foldl sha1_round (M, H) [0..<i] = (W, r)"
  shows "window M i W \<and> length r = 5 \<and> sha1_view i r = sha1_spec M H i"
  using assms(3)
proof (induction i arbitrary: W r)
  case 0
  then show ?case
    using assms(1,2) by (simp add: window_init sha1_view_def sha1_reg_def)
next
  case (Suc i)
  obtain W0 r0 where s: "foldl sha1_round (M, H) [0..<i] = (W0, r0)"
    by fastforce
  obtain a b c d e where v: "sha1_spec M H i = (a, b, c, d, e)"
    by (cases "sha1_spec M H i") auto
  from Suc.IH [OF s] v have IH: "window M i W0" "length r0 = 5" "sha1_view i r0 = (a, b, c, d, e)"
    by simp_all
  have eq: "sha1_round (W0, r0) i = (W, r)"
    using Suc.prems s by simp
  have W: "W = (if i < 16 then W0 else expand W0 i)"
    using eq unfolding sha1_round_def Let_def sha1_round_fk by (simp split: if_splits)
  have r: "r = subRound (sha1_reg i 0) (sha1_reg i 1) (sha1_reg i 2) (sha1_reg i 3) (sha1_reg i 4)
      (sha1_f i) (sha1_K i) (W ! (i mod 16)) r0"
    using eq unfolding W sha1_round_def Let_def sha1_round_fk by (simp split: if_splits)
  show ?case
    using window_step [OF IH(1)] sha1_view_subRound [OF IH(2,3)] IH(2) v
    by (simp add: W r)
qed

lemma sha1_compress_eq_spec:
  assumes "length H = 5"
  shows "sha1_compress H block = sha1_compress_spec H block"
proof -
  let ?M = "map (\<lambda>i. LOAD32H (drop (4 * i) block)) [0..<16]"
  obtain W r where fr: "foldl sha1_round (?M, H) [0..<80] = (W, r)"
    by fastforce
  from sha1_rounds [OF _ assms fr] have r: "length r = 5" "sha1_view 80 r = sha1_spec ?M H 80"
    by simp_all
  have five: "xs = [xs ! 0, xs ! 1, xs ! 2, xs ! 3, xs ! 4]" if "length xs = 5" for xs :: "u32 list"
    using that by (auto simp: numeral_eq_Suc length_Suc_conv)
  have v: "sha1_view 80 r = (r ! 0, r ! 1, r ! 2, r ! 3, r ! 4)"
    by (simp add: sha1_view_def sha1_reg_def)
  have "map2 (+) H r = [H ! 0 + r ! 0, H ! 1 + r ! 1, H ! 2 + r ! 2, H ! 3 + r ! 3, H ! 4 + r ! 4]"
    by (subst five [OF assms], subst five [OF r(1)]) simp
  then show ?thesis
    using fr r(2) [symmetric] unfolding sha1_compress_def sha1_compress_spec_def Let_def by (simp add: v)
qed

lemma length_sha1_compress_spec [simp]: "length (sha1_compress_spec H block) = 5"
  by (simp add: sha1_compress_spec_def split: prod.split)

section \<open>The hash\<close>

definition sha1_init :: "isrcry_block_ctx \<Rightarrow> isrcry_block_ctx" where
  "sha1_init ctx = ctx\<lparr>bc_digest := [0x67452301, 0xEFCDAB89, 0x98BADCFE, 0x10325476, 0xC3D2E1F0],
     bc_count := 0, bc_index := 0\<rparr>"

definition sha1_update :: "isrcry_block_ctx \<Rightarrow> bytes \<Rightarrow> isrcry_block_ctx" where
  "sha1_update ctx buffer = block_update sha1_compress ctx buffer"

definition sha1_lenenc :: "u64 \<Rightarrow> bytes" where
  "sha1_lenenc bits = STORE32H (ucast (drop_bit 32 bits)) @ STORE32H (ucast bits)"

text \<open>\<open>None\<close> is the abort of \<^verbatim>\<open>g_assert\<close>.\<close>

definition sha1_final :: "isrcry_block_ctx \<Rightarrow> (isrcry_block_ctx \<times> bytes) option" where
  "sha1_final ctx =
     (if \<not> bc_index ctx < DATA_SIZE then None
      else let ctx = block_final sha1_compress sha1_lenenc ctx
           in Some (ctx, concat (map (\<lambda>i. STORE32H (bc_digest ctx ! i)) [0..<5])))"

definition sha1_iv :: "u32 list" where
  "sha1_iv = [0x67452301, 0xEFCDAB89, 0x98BADCFE, 0x10325476, 0xC3D2E1F0]"

text \<open>The digest of a message, from the textbook compression function.\<close>

definition sha1_spec_hash :: "bytes \<Rightarrow> bytes" where
  "sha1_spec_hash m = concat (map STORE32H (md_hash sha1_compress_spec sha1_iv sha1_lenenc m))"

lemma md_blocks_sha1: "length d = 5 \<Longrightarrow> md_blocks sha1_compress d n xs = md_blocks sha1_compress_spec d n xs"
  by (induction n arbitrary: d xs) (simp_all add: sha1_compress_eq_spec)

lemma md_hash_sha1: "md_hash sha1_compress sha1_iv sha1_lenenc m = md_hash sha1_compress_spec sha1_iv sha1_lenenc m"
  by (simp add: md_hash_def md_blocks_sha1 sha1_iv_def)

lemma length_md_blocks_sha1: "length d = 5 \<Longrightarrow> length (md_blocks sha1_compress_spec d n xs) = 5"
  by (induction n arbitrary: d xs) simp_all

lemma length_sha1_hash_words: "length (md_hash sha1_compress_spec sha1_iv sha1_lenenc m) = 5"
  by (simp add: md_hash_def length_md_blocks_sha1 sha1_iv_def)

lemma length_sha1_spec_hash [simp]: "length (sha1_spec_hash m) = 20"
proof -
  have "length (concat (map STORE32H ws)) = 4 * length ws" for ws
    by (induction ws) simp_all
  then show ?thesis
    by (simp add: sha1_spec_hash_def length_sha1_hash_words)
qed

abbreviation sha1_absorbed :: "isrcry_block_ctx \<Rightarrow> bytes \<Rightarrow> bool" where
  "sha1_absorbed \<equiv> absorbed sha1_compress sha1_iv"

lemma sha1_init_absorbed: "length (bc_block ctx) = 64 \<Longrightarrow> sha1_absorbed (sha1_init ctx) []"
  by (simp add: sha1_init_def absorbed_def sha1_iv_def)

lemma sha1_update_absorbed: "sha1_absorbed ctx m \<Longrightarrow> sha1_absorbed (sha1_update ctx b) (m @ b)"
  by (simp add: sha1_update_def block_update_absorbed)

lemma sha1_final_digest:
  assumes "sha1_absorbed ctx m"
  shows "\<exists>ctx'. sha1_final ctx = Some (ctx', sha1_spec_hash m) \<and> length (bc_block ctx') = 64"
proof -
  have d: "bc_digest (block_final sha1_compress sha1_lenenc ctx) = md_hash sha1_compress_spec sha1_iv sha1_lenenc m"
    using block_final_digest [OF assms, of sha1_lenenc] by (simp add: sha1_lenenc_def md_hash_sha1)
  have "map (\<lambda>i. STORE32H (ws ! i)) [0..<5] = map STORE32H ws" if "length ws = 5" for ws
    using that by (intro nth_equalityI) simp_all
  from this [OF length_sha1_hash_words] show ?thesis
    using absorbed_index [OF assms] block_final_block [OF assms, of sha1_lenenc]
    by (simp add: sha1_final_def sha1_spec_hash_def sha1_lenenc_def Let_def d)
qed

end
