(* ===== verification/Isr_Sine.thy ===== *)
theory Isr_Sine
  imports Complex_Main
begin

text \<open>
  The sines of the first natural numbers, to 32 binary places: the additive constants of MD5 are defined by them.
  Powers of \<open>cis 1\<close> are computed on pairs of integers, with a bound on the error.
\<close>

section \<open>Sine and cosine of 1\<close>

definition sine_one :: int where "sine_one = 15522399902203605025"
definition cosine_one :: int where "cosine_one = 9966818358784711826"

lemma sin_1_sum: "\<bar>sin (1 :: real) - (\<Sum>m<24. sin_coeff m)\<bar> \<le> 1 / fact 24"
  using Maclaurin_sin_bound [of 1 24] by (simp add: inverse_eq_divide)

lemma cos_1_sum: "\<bar>cos (1 :: real) - (\<Sum>m<24. cos_coeff m)\<bar> \<le> 1 / fact 24"
proof -
  obtain t where "cos (1 :: real) = (\<Sum>m<24. cos_coeff m * 1 ^ m) + cos (t + 1 / 2 * real 24 * pi) / fact 24 * 1 ^ 24"
    using Maclaurin_cos_expansion [of 1 24] by blast
  then have "\<bar>cos (1 :: real) - (\<Sum>m<24. cos_coeff m)\<bar> = \<bar>cos (t + 1 / 2 * real 24 * pi)\<bar> / fact 24"
    by (simp add: abs_divide)
  also have "\<dots> \<le> 1 / fact 24"
    by (intro divide_right_mono abs_cos_le_one) simp
  finally show ?thesis .
qed

lemma sum_24: "(\<Sum>m<24. f m) = (\<Sum>m\<leftarrow>[0..<24]. f m)" for f :: "nat \<Rightarrow> real"
  by (simp add: interv_sum_list_conv_sum_set_nat lessThan_atLeast0)

lemma scaled:
  assumes "\<bar>x - y\<bar> \<le> 1 / fact 24" "\<bar>2 ^ 64 * y - a\<bar> \<le> 1 / 2"
  shows "\<bar>2 ^ 64 * x - a\<bar> \<le> (1 :: real)"
proof -
  have "1 / fact 24 \<le> (1 / 2 ^ 65 :: real)"
    by (simp add: fact_numeral)
  with assms(1) have "\<bar>x - y\<bar> \<le> 1 / 2 ^ 65"
    by linarith
  then have "x - y \<le> 1 / 2 ^ 65" "y - x \<le> 1 / 2 ^ 65"
    by linarith+
  moreover have "2 ^ 64 * y - a \<le> 1 / 2" "a - 2 ^ 64 * y \<le> 1 / 2"
    using assms(2) by linarith+
  ultimately have "2 ^ 64 * x - a \<le> 1" "a - 2 ^ 64 * x \<le> 1"
    by simp_all
  then show ?thesis
    by (simp add: abs_le_iff)
qed

lemma sin_1: "\<bar>2 ^ 64 * sin 1 - real_of_int sine_one\<bar> \<le> 1"
proof (rule scaled [OF sin_1_sum])
  show "\<bar>2 ^ 64 * (\<Sum>m<24. sin_coeff m) - real_of_int sine_one\<bar> \<le> 1 / 2"
    unfolding sum_24 by (simp add: sin_coeff_def upt_rec fact_numeral sine_one_def)
qed

lemma cos_1: "\<bar>2 ^ 64 * cos 1 - real_of_int cosine_one\<bar> \<le> 1"
proof (rule scaled [OF cos_1_sum])
  show "\<bar>2 ^ 64 * (\<Sum>m<24. cos_coeff m) - real_of_int cosine_one\<bar> \<le> 1 / 2"
    unfolding sum_24 by (simp add: cos_coeff_def upt_rec fact_numeral cosine_one_def)
qed

section \<open>The other sines\<close>

text \<open>\<open>turn k\<close> holds cosine and sine of \<open>k\<close> in units of \<open>2 ^ - 64\<close>.\<close>

definition turn_one :: "int \<Rightarrow> int \<Rightarrow> int \<times> int" where
  "turn_one c s = ((c * cosine_one - s * sine_one) div 2 ^ 64, (c * sine_one + s * cosine_one) div 2 ^ 64)"

primrec turn :: "nat \<Rightarrow> int \<times> int" where
  "turn 0 = (2 ^ 64, 0)"
| "turn (Suc k) = (case turn k of (c, s) \<Rightarrow> turn_one c s)"

abbreviation pt :: "int \<times> int \<Rightarrow> complex" where
  "pt z \<equiv> Complex (of_int (fst z)) (of_int (snd z))"

lemma cis_1: "cmod (2 ^ 64 * cis 1 - pt (cosine_one, sine_one)) \<le> 2"
proof -
  have "cmod (2 ^ 64 * cis 1 - pt (cosine_one, sine_one)) \<le>
      \<bar>2 ^ 64 * cos 1 - real_of_int cosine_one\<bar> + \<bar>2 ^ 64 * sin 1 - real_of_int sine_one\<bar>"
    using cmod_le [of "2 ^ 64 * cis 1 - pt (cosine_one, sine_one)"] by simp
  then show ?thesis
    using sin_1 cos_1 by linarith
qed

lemma div_error: "\<bar>real_of_int (a div 2 ^ 64) - real_of_int a / 2 ^ 64\<bar> \<le> 1"
proof -
  have "real_of_int (a div 2 ^ 64) = real_of_int \<lfloor>real_of_int a / 2 ^ 64\<rfloor>"
    using floor_divide_of_int_eq [of a "2 ^ 64", where ?'a = real] by simp
  then show ?thesis
    by linarith
qed

lemma turn_step: "cmod (pt (turn (Suc k)) - pt (turn k) * pt (cosine_one, sine_one) / 2 ^ 64) \<le> 2"
proof -
  obtain c s where t: "turn k = (c, s)"
    by (cases "turn k")
  let ?d = "pt (turn (Suc k)) - pt (turn k) * pt (cosine_one, sine_one) / 2 ^ 64"
  have "\<bar>Re ?d\<bar> \<le> 1" "\<bar>Im ?d\<bar> \<le> 1"
    using div_error [of "c * cosine_one - s * sine_one"] div_error [of "c * sine_one + s * cosine_one"]
    by (simp_all add: t turn_one_def Re_divide_numeral Im_divide_numeral)
  then show ?thesis
    using cmod_le [of ?d] by linarith
qed

lemma turn_close: "k \<le> 64 \<Longrightarrow> cmod (2 ^ 64 * cis (real k) - pt (turn k)) \<le> 8 * real k"
proof (induction k)
  case 0
  have "2 ^ 64 * cis 0 = pt (turn 0)"
    by (simp add: complex_eq_iff)
  then show ?case
    by simp
next
  case (Suc k)
  let ?w = "pt (cosine_one, sine_one)" and ?e = "2 ^ 64 * cis (real k) - pt (turn k)"
  have e: "cmod ?e \<le> 8 * real k"
    using Suc by simp
  have "cmod (pt (turn k)) = cmod (2 ^ 64 * cis (real k) - ?e)"
    by simp
  also have "\<dots> \<le> 2 ^ 64 + 8 * real k"
    using norm_triangle_ineq4 [of "2 ^ 64 * cis (real k)" ?e] e by (simp add: norm_mult norm_power)
  finally have z: "cmod (pt (turn k)) \<le> 2 ^ 65"
    using Suc.prems by simp
  have "2 ^ 64 * cis (real (Suc k)) - pt (turn (Suc k)) =
      ?e * cis 1 + pt (turn k) * (2 ^ 64 * cis 1 - ?w) / 2 ^ 64 - (pt (turn (Suc k)) - pt (turn k) * ?w / 2 ^ 64)"
    using cis_mult [of "real k" 1] by (simp add: field_simps)
  then have "cmod (2 ^ 64 * cis (real (Suc k)) - pt (turn (Suc k))) \<le>
      cmod (?e * cis 1) + cmod (pt (turn k) * (2 ^ 64 * cis 1 - ?w) / 2 ^ 64)
      + cmod (pt (turn (Suc k)) - pt (turn k) * ?w / 2 ^ 64)"
    by (metis norm_triangle_le_diff norm_triangle_ineq add_mono order.refl)
  moreover have "cmod (pt (turn k) * (2 ^ 64 * cis 1 - ?w) / 2 ^ 64) \<le> 4"
  proof -
    have "cmod (pt (turn k)) * cmod (2 ^ 64 * cis 1 - ?w) \<le> 2 ^ 65 * 2"
      by (intro mult_mono z cis_1) simp_all
    then show ?thesis
      by (simp add: norm_divide norm_mult norm_power)
  qed
  ultimately show ?case
    using turn_step [of k] e by (simp add: norm_mult)
qed

lemma sin_close:
  assumes "k \<le> 64"
  shows "\<bar>2 ^ 64 * \<bar>sin (real k)\<bar> - of_int \<bar>snd (turn k)\<bar>\<bar> \<le> 512"
proof -
  have "\<bar>2 ^ 64 * sin (real k) - of_int (snd (turn k))\<bar> \<le> cmod (2 ^ 64 * cis (real k) - pt (turn k))"
    using abs_Im_le_cmod [of "2 ^ 64 * cis (real k) - pt (turn k)"] by simp
  then show ?thesis
    using turn_close [OF assms] assms by (simp add: abs_mult)
qed

lemma floor_sin:
  assumes "k \<le> 64" "512 \<le> \<bar>snd (turn k)\<bar> mod 2 ^ 32" "\<bar>snd (turn k)\<bar> mod 2 ^ 32 < 2 ^ 32 - 512"
  shows "\<lfloor>2 ^ 32 * \<bar>sin (real k)\<bar>\<rfloor> = \<bar>snd (turn k)\<bar> div 2 ^ 32"
proof -
  define a q where "a = \<bar>snd (turn k)\<bar>" and "q = a div 2 ^ 32"
  have "a = 2 ^ 32 * q + a mod 2 ^ 32"
    by (simp add: q_def)
  with assms(2,3) have "2 ^ 32 * q + 512 \<le> a" "a < 2 ^ 32 * (q + 1) - 512"
    unfolding a_def [symmetric] distrib_left mult_1_right by linarith+
  then have "real_of_int (2 ^ 32 * q + 512) \<le> real_of_int a" "real_of_int a < real_of_int (2 ^ 32 * (q + 1) - 512)"
    by (simp_all only: of_int_le_iff of_int_less_iff)
  then have "2 ^ 32 * real_of_int q + 512 \<le> real_of_int a" "real_of_int a < 2 ^ 32 * (real_of_int q + 1) - 512"
    by simp_all
  with sin_close [OF assms(1)] show ?thesis
    unfolding a_def [symmetric] q_def [symmetric] by (intro floor_unique) (simp_all add: abs_le_iff)
qed

text \<open>The list starts with the integer parts of \<open>2 ^ 32\<close> times the sines of the numbers after the one that the pair belongs to.\<close>

fun sines_from :: "int \<times> int \<Rightarrow> int list \<Rightarrow> bool" where
  "sines_from z [] = True"
| "sines_from (c, s) (t # ts) = (512 \<le> \<bar>s\<bar> mod 2 ^ 32 \<and> \<bar>s\<bar> mod 2 ^ 32 < 2 ^ 32 - 512 \<and> \<bar>s\<bar> div 2 ^ 32 = t
     \<and> sines_from (turn_one c s) ts)"

lemma sines_from_nth:
  assumes "sines_from (turn k) ts" "i < length ts" "k + i \<le> 64"
  shows "ts ! i = \<lfloor>2 ^ 32 * \<bar>sin (real (k + i))\<bar>\<rfloor>"
  using assms
proof (induction ts arbitrary: k i)
  case Nil
  then show ?case by simp
next
  case (Cons t ts)
  obtain c s where z: "turn k = (c, s)"
    by (cases "turn k")
  show ?case
  proof (cases i)
    case 0
    then show ?thesis
      using Cons.prems floor_sin [of k] z by simp
  next
    case (Suc j)
    have "sines_from (turn (Suc k)) ts"
      using Cons.prems(1) z by simp
    from Cons.IH [OF this, of j] show ?thesis
      using Cons.prems(2,3) Suc by simp
  qed
qed

end
