(* ===== verification/Isr_MD5.thy ===== *)
theory Isr_MD5
  imports Isr_Block_Hash Isr_Sine
begin

text \<open>
  MD5: the compression function of \<^verbatim>\<open>crypto/md5-compress.c\<close> with its renamed registers, proved equal to
  the form given in RFC 1321, and the hash of \<^verbatim>\<open>crypto/md5.c\<close>.
\<close>

section \<open>The compression function\<close>

definition F1 :: "u32 \<Rightarrow> u32 \<Rightarrow> u32 \<Rightarrow> u32" where "F1 x y z = z XOR (x AND (y XOR z))"
definition F2 :: "u32 \<Rightarrow> u32 \<Rightarrow> u32 \<Rightarrow> u32" where "F2 x y z = F1 z x y"
definition F3 :: "u32 \<Rightarrow> u32 \<Rightarrow> u32 \<Rightarrow> u32" where "F3 x y z = x XOR y XOR z"
definition F4 :: "u32 \<Rightarrow> u32 \<Rightarrow> u32 \<Rightarrow> u32" where "F4 x y z = y XOR (x OR NOT z)"

text \<open>\<open>ROUND\<close> on the registers numbered \<open>w\<close>, \<open>x\<close>, \<open>y\<close>, \<open>z\<close>.\<close>

definition ROUND :: "(u32 \<Rightarrow> u32 \<Rightarrow> u32 \<Rightarrow> u32) \<Rightarrow> nat \<Rightarrow> nat \<Rightarrow> nat \<Rightarrow> nat \<Rightarrow> u32 \<Rightarrow> nat \<Rightarrow> u32 list \<Rightarrow> u32 list" where
  "ROUND f w x y z data s r =
     (let v = r ! w + (f (r ! x) (r ! y) (r ! z) + data);
          v = push_bit s v OR drop_bit (32 - s) v
      in r[w := v + r ! x])"

text \<open>The 64 unrolled calls: message word, additive constant and rotation of each.\<close>

definition md5_table :: "(nat \<times> u32 \<times> nat) list" where
  "md5_table =
    [(0, 0xd76aa478, 7), (1, 0xe8c7b756, 12), (2, 0x242070db, 17), (3, 0xc1bdceee, 22),
     (4, 0xf57c0faf, 7), (5, 0x4787c62a, 12), (6, 0xa8304613, 17), (7, 0xfd469501, 22),
     (8, 0x698098d8, 7), (9, 0x8b44f7af, 12), (10, 0xffff5bb1, 17), (11, 0x895cd7be, 22),
     (12, 0x6b901122, 7), (13, 0xfd987193, 12), (14, 0xa679438e, 17), (15, 0x49b40821, 22),
     (1, 0xf61e2562, 5), (6, 0xc040b340, 9), (11, 0x265e5a51, 14), (0, 0xe9b6c7aa, 20),
     (5, 0xd62f105d, 5), (10, 0x02441453, 9), (15, 0xd8a1e681, 14), (4, 0xe7d3fbc8, 20),
     (9, 0x21e1cde6, 5), (14, 0xc33707d6, 9), (3, 0xf4d50d87, 14), (8, 0x455a14ed, 20),
     (13, 0xa9e3e905, 5), (2, 0xfcefa3f8, 9), (7, 0x676f02d9, 14), (12, 0x8d2a4c8a, 20),
     (5, 0xfffa3942, 4), (8, 0x8771f681, 11), (11, 0x6d9d6122, 16), (14, 0xfde5380c, 23),
     (1, 0xa4beea44, 4), (4, 0x4bdecfa9, 11), (7, 0xf6bb4b60, 16), (10, 0xbebfbc70, 23),
     (13, 0x289b7ec6, 4), (0, 0xeaa127fa, 11), (3, 0xd4ef3085, 16), (6, 0x04881d05, 23),
     (9, 0xd9d4d039, 4), (12, 0xe6db99e5, 11), (15, 0x1fa27cf8, 16), (2, 0xc4ac5665, 23),
     (0, 0xf4292244, 6), (7, 0x432aff97, 10), (14, 0xab9423a7, 15), (5, 0xfc93a039, 21),
     (12, 0x655b59c3, 6), (3, 0x8f0ccc92, 10), (10, 0xffeff47d, 15), (1, 0x85845dd1, 21),
     (8, 0x6fa87e4f, 6), (15, 0xfe2ce6e0, 10), (6, 0xa3014314, 15), (13, 0x4e0811a1, 21),
     (4, 0xf7537e82, 6), (11, 0xbd3af235, 10), (2, 0x2ad7d2bb, 15), (9, 0xeb86d391, 21)]"

text \<open>Argument \<open>j\<close> of call \<open>i\<close> is register \<open>(j - i) mod 4\<close>.\<close>

definition md5_reg :: "nat \<Rightarrow> nat \<Rightarrow> nat" where
  "md5_reg i j = (j + 3 * i) mod 4"

definition md5_round :: "u32 list \<Rightarrow> u32 list \<Rightarrow> nat \<Rightarrow> u32 list" where
  "md5_round data r i = (case md5_table ! i of (k, t, s) \<Rightarrow>
     ROUND (if i < 16 then F1 else if i < 32 then F2 else if i < 48 then F3 else F4)
       (md5_reg i 0) (md5_reg i 1) (md5_reg i 2) (md5_reg i 3) (data ! k + t) s r)"

definition md5_compress :: "u32 list \<Rightarrow> bytes \<Rightarrow> u32 list" where
  "md5_compress state input =
     (let data = map (\<lambda>i. LOAD32L (drop (4 * i) input)) [0..<16]
      in map2 (+) state (foldl (md5_round data) state [0..<64]))"

section \<open>The form of RFC 1321\<close>

definition md5_f :: "nat \<Rightarrow> u32 \<Rightarrow> u32 \<Rightarrow> u32 \<Rightarrow> u32" where
  "md5_f i x y z =
     (if i < 16 then (x AND y) OR (NOT x AND z)
      else if i < 32 then (x AND z) OR (y AND NOT z)
      else if i < 48 then x XOR y XOR z
      else y XOR (x OR NOT z))"

definition md5_k :: "nat \<Rightarrow> nat" where
  "md5_k i = (if i < 16 then i else if i < 32 then (5 * i + 1) mod 16
     else if i < 48 then (3 * i + 5) mod 16 else 7 * i mod 16)"

definition md5_s :: "nat \<Rightarrow> nat" where
  "md5_s i = (if i < 16 then [7, 12, 17, 22] ! (i mod 4) else if i < 32 then [5, 9, 14, 20] ! (i mod 4)
     else if i < 48 then [4, 11, 16, 23] ! (i mod 4) else [6, 10, 15, 21] ! (i mod 4))"

text \<open>The constants of the RFC: the integer part of \<open>2 ^ 32\<close> times the sine of \<open>i + 1\<close> (in radians), without its sign.\<close>

definition md5_t :: "nat \<Rightarrow> u32" where
  "md5_t i = word_of_int \<lfloor>2 ^ 32 * \<bar>sin (real (i + 1))\<bar>\<rfloor>"

primrec md5_spec :: "u32 list \<Rightarrow> u32 list \<Rightarrow> nat \<Rightarrow> u32 \<times> u32 \<times> u32 \<times> u32" where
  "md5_spec X H 0 = (H ! 0, H ! 1, H ! 2, H ! 3)"
| "md5_spec X H (Suc i) = (case md5_spec X H i of (a, b, c, d) \<Rightarrow>
     (d, b + word_rotl (md5_s i) (a + md5_f i b c d + X ! md5_k i + md5_t i), b, c))"

definition md5_compress_spec :: "u32 list \<Rightarrow> bytes \<Rightarrow> u32 list" where
  "md5_compress_spec H block =
     (case md5_spec (map (\<lambda>i. LOAD32L (drop (4 * i) block)) [0..<16]) H 64 of
        (a, b, c, d) \<Rightarrow> [H ! 0 + a, H ! 1 + b, H ! 2 + c, H ! 3 + d])"

lemma F_eq:
  "F1 x y z = (x AND y) OR (NOT x AND z)" "F2 x y z = (x AND z) OR (y AND NOT z)"
  by (rule bit_word_eqI; auto simp: F1_def F2_def bit_simps)+

lemma md5_f_eq: "(if i < 16 then F1 else if i < 32 then F2 else if i < 48 then F3 else F4) = md5_f i"
  by (auto simp: fun_eq_iff md5_f_def F_eq F3_def F4_def)

text \<open>The table follows the index and rotation rules of the RFC, and its constants are the sines.\<close>

lemma md5_table_sines: "sines_from (turn 1) (map (\<lambda>(k, t, s). uint t) md5_table)"
  by code_simp

lemma md5_table_constants:
  assumes "i < 64"
  shows "fst (snd (md5_table ! i)) = md5_t i"
proof -
  have "length md5_table = 64"
    by (simp add: md5_table_def)
  with sines_from_nth [OF md5_table_sines, of i] assms
  have "uint (fst (snd (md5_table ! i))) = \<lfloor>2 ^ 32 * \<bar>sin (real (i + 1))\<bar>\<rfloor>"
    by (simp add: case_prod_unfold add.commute)
  then have "word_of_int (uint (fst (snd (md5_table ! i)))) = md5_t i"
    by (simp only: md5_t_def)
  then show ?thesis
    by simp
qed

lemma md5_table_rule:
  assumes "i < 64"
  shows "md5_table ! i = (md5_k i, md5_t i, md5_s i)"
proof -
  have "map (\<lambda>i. (fst (md5_table ! i), snd (snd (md5_table ! i)))) [0..<64] = map (\<lambda>i. (md5_k i, md5_s i)) [0..<64]"
    by code_simp
  then have "(fst (md5_table ! i), snd (snd (md5_table ! i))) = (md5_k i, md5_s i)"
    using assms by (metis (no_types, lifting) add_0 diff_zero length_upt nth_map nth_upt)
  then show ?thesis
    using md5_table_constants [OF assms] by (simp add: prod_eq_iff)
qed

section \<open>Equality with the form of the RFC\<close>

definition md5_view :: "nat \<Rightarrow> u32 list \<Rightarrow> u32 \<times> u32 \<times> u32 \<times> u32" where
  "md5_view i r = (r ! md5_reg i 0, r ! md5_reg i 1, r ! md5_reg i 2, r ! md5_reg i 3)"

lemma md5_reg_mod: "md5_reg i j = (j + 3 * (i mod 4)) mod 4"
  unfolding md5_reg_def by (metis mod_add_right_eq mod_mult_right_eq)

lemma shift_pair_rotl:
  assumes "0 < s" "s < 32"
  shows "push_bit s v OR drop_bit (32 - s) v = word_rotl s (v :: u32)"
proof (rule bit_word_eqI)
  fix n
  assume n: "n < LENGTH(32)"
  show "bit (push_bit s v OR drop_bit (32 - s) v) n = bit (word_rotl s v) n"
  proof (cases "s \<le> n")
    case True
    then have "(n + (32 - s)) mod 32 = n - s"
      using n assms by (simp add: mod_if)
    with True n assms show ?thesis
      by (auto simp: bit_word_rotl_iff bit_simps dest: bit_imp_le_length)
  next
    case False
    then have "(n + (32 - s)) mod 32 = n + (32 - s)"
      using n assms by (intro mod_less) simp
    then have "bit (word_rotl s v) n = bit v (n + (32 - s))"
      using n assms by (simp only: bit_word_rotl_iff) simp
    with False n assms show ?thesis
      by (simp add: bit_simps add.commute)
  qed
qed

lemma md5_s_range: "0 < md5_s i" "md5_s i < 32"
proof -
  have "i mod 4 < 4" by simp
  then consider "i mod 4 = 0" | "i mod 4 = 1" | "i mod 4 = 2" | "i mod 4 = 3"
    by linarith
  then show "0 < md5_s i" "md5_s i < 32"
    by (cases; auto simp: md5_s_def)+
qed

lemma md5_view_ROUND:
  assumes "length r = 4" "md5_view i r = (a, b, c, d)" "0 < s" "s < 32"
  shows "md5_view (Suc i) (ROUND f (md5_reg i 0) (md5_reg i 1) (md5_reg i 2) (md5_reg i 3) w s r) =
    (d, b + word_rotl s (a + f b c d + w), b, c)"
proof -
  have "i mod 4 < 4" by simp
  then consider "i mod 4 = 0" | "i mod 4 = 1" | "i mod 4 = 2" | "i mod 4 = 3"
    by linarith
  moreover obtain r0 r1 r2 r3 where "r = [r0, r1, r2, r3]"
    using assms(1) by (auto simp: numeral_eq_Suc length_Suc_conv)
  ultimately show ?thesis
    using assms
    by cases (auto simp: md5_view_def md5_reg_mod ROUND_def Let_def shift_pair_rotl mod_Suc ac_simps)
qed

lemma length_ROUND [simp]: "length (ROUND f w x y z data s r) = length r"
  by (simp add: ROUND_def Let_def)

lemma md5_rounds:
  assumes "length H = 4" "i \<le> 64"
  shows "length (foldl (md5_round X) H [0..<i]) = 4 \<and> md5_view i (foldl (md5_round X) H [0..<i]) = md5_spec X H i"
  using assms(2)
proof (induction i)
  case 0
  then show ?case
    using assms(1) by (simp add: md5_view_def md5_reg_def)
next
  case (Suc i)
  define r where "r = foldl (md5_round X) H [0..<i]"
  obtain a b c d where v: "md5_spec X H i = (a, b, c, d)"
    by (cases "md5_spec X H i") auto
  from Suc v have r: "length r = 4" "md5_view i r = (a, b, c, d)"
    by (simp_all add: r_def)
  have "md5_round X r i = ROUND (md5_f i) (md5_reg i 0) (md5_reg i 1) (md5_reg i 2) (md5_reg i 3)
      (X ! md5_k i + md5_t i) (md5_s i) r"
    unfolding md5_round_def md5_f_eq using Suc.prems by (simp add: md5_table_rule)
  then show ?case
    using md5_view_ROUND [OF r md5_s_range] r v by (simp add: r_def [symmetric] ac_simps)
qed

lemma md5_compress_eq_spec:
  assumes "length H = 4"
  shows "md5_compress H block = md5_compress_spec H block"
proof -
  let ?X = "map (\<lambda>i. LOAD32L (drop (4 * i) block)) [0..<16]"
  define r where "r = foldl (md5_round ?X) H [0..<64]"
  from md5_rounds [OF assms, of 64 ?X] have r: "length r = 4" "md5_view 64 r = md5_spec ?X H 64"
    by (simp_all add: r_def)
  have four: "xs = [xs ! 0, xs ! 1, xs ! 2, xs ! 3]" if "length xs = 4" for xs :: "u32 list"
    using that by (auto simp: numeral_eq_Suc length_Suc_conv)
  have v: "md5_view 64 r = (r ! 0, r ! 1, r ! 2, r ! 3)"
    by (simp add: md5_view_def md5_reg_def)
  have "map2 (+) H r = [H ! 0 + r ! 0, H ! 1 + r ! 1, H ! 2 + r ! 2, H ! 3 + r ! 3]"
    by (subst four [OF assms], subst four [OF r(1)]) simp
  then show ?thesis
    using r(2) [symmetric] unfolding md5_compress_def md5_compress_spec_def Let_def r_def [symmetric] by (simp add: v)
qed

lemma length_md5_compress_spec [simp]: "length (md5_compress_spec H block) = 4"
  by (simp add: md5_compress_spec_def split: prod.split)

section \<open>The hash\<close>

definition md5_init :: "isrcry_block_ctx \<Rightarrow> isrcry_block_ctx" where
  "md5_init ctx = ctx\<lparr>bc_digest := [0x67452301, 0xefcdab89, 0x98badcfe, 0x10325476],
     bc_count := 0, bc_index := 0\<rparr>"

definition md5_update :: "isrcry_block_ctx \<Rightarrow> bytes \<Rightarrow> isrcry_block_ctx" where
  "md5_update ctx buffer = block_update md5_compress ctx buffer"

definition md5_lenenc :: "u64 \<Rightarrow> bytes" where
  "md5_lenenc bits = STORE32L (ucast bits) @ STORE32L (ucast (drop_bit 32 bits))"

text \<open>\<open>None\<close> is the abort of \<^verbatim>\<open>g_assert\<close>.\<close>

definition md5_final :: "isrcry_block_ctx \<Rightarrow> (isrcry_block_ctx \<times> bytes) option" where
  "md5_final ctx =
     (if \<not> bc_index ctx < DATA_SIZE then None
      else let ctx = block_final md5_compress md5_lenenc ctx
           in Some (ctx, concat (map (\<lambda>i. STORE32L (bc_digest ctx ! i)) [0..<4])))"

definition md5_iv :: "u32 list" where
  "md5_iv = [0x67452301, 0xefcdab89, 0x98badcfe, 0x10325476]"

text \<open>The digest of a message, from the compression function of the RFC.\<close>

definition md5_spec_hash :: "bytes \<Rightarrow> bytes" where
  "md5_spec_hash m = concat (map STORE32L (md_hash md5_compress_spec md5_iv md5_lenenc m))"

lemma md_blocks_md5: "length d = 4 \<Longrightarrow> md_blocks md5_compress d n xs = md_blocks md5_compress_spec d n xs"
  by (induction n arbitrary: d xs) (simp_all add: md5_compress_eq_spec)

lemma md_hash_md5: "md_hash md5_compress md5_iv md5_lenenc m = md_hash md5_compress_spec md5_iv md5_lenenc m"
  by (simp add: md_hash_def md_blocks_md5 md5_iv_def)

lemma length_md_blocks_md5: "length d = 4 \<Longrightarrow> length (md_blocks md5_compress_spec d n xs) = 4"
  by (induction n arbitrary: d xs) simp_all

lemma length_md5_hash_words: "length (md_hash md5_compress_spec md5_iv md5_lenenc m) = 4"
  by (simp add: md_hash_def length_md_blocks_md5 md5_iv_def)

lemma length_md5_spec_hash [simp]: "length (md5_spec_hash m) = 16"
proof -
  have "length (concat (map STORE32L ws)) = 4 * length ws" for ws
    by (induction ws) simp_all
  then show ?thesis
    by (simp add: md5_spec_hash_def length_md5_hash_words)
qed

abbreviation md5_absorbed :: "isrcry_block_ctx \<Rightarrow> bytes \<Rightarrow> bool" where
  "md5_absorbed \<equiv> absorbed md5_compress md5_iv"

lemma md5_init_absorbed: "length (bc_block ctx) = 64 \<Longrightarrow> md5_absorbed (md5_init ctx) []"
  by (simp add: md5_init_def absorbed_def md5_iv_def)

lemma md5_update_absorbed: "md5_absorbed ctx m \<Longrightarrow> md5_absorbed (md5_update ctx b) (m @ b)"
  by (simp add: md5_update_def block_update_absorbed)

lemma md5_final_digest:
  assumes "md5_absorbed ctx m"
  shows "\<exists>ctx'. md5_final ctx = Some (ctx', md5_spec_hash m) \<and> length (bc_block ctx') = 64"
proof -
  have d: "bc_digest (block_final md5_compress md5_lenenc ctx) = md_hash md5_compress_spec md5_iv md5_lenenc m"
    using block_final_digest [OF assms, of md5_lenenc] by (simp add: md5_lenenc_def md_hash_md5)
  have "map (\<lambda>i. STORE32L (ws ! i)) [0..<4] = map STORE32L ws" if "length ws = 4" for ws
    using that by (intro nth_equalityI) simp_all
  from this [OF length_md5_hash_words] show ?thesis
    using absorbed_index [OF assms] block_final_block [OF assms, of md5_lenenc]
    by (simp add: md5_final_def md5_spec_hash_def md5_lenenc_def Let_def d)
qed

end
