(* ===== verification/Isr_Hash.thy ===== *)
theory Isr_Hash
  imports Isr_SHA1 Isr_MD5 "HOL-Library.Monad_Syntax"
begin

text \<open>
  The hash interface of libisrcrypto, \<^verbatim>\<open>crypto/hash.c\<close>, over the descriptors of SHA-1 and MD5.
  The contract its clients rely on is the locale \<open>streaming_hash\<close>; it is interpreted on the
  operations of \<^verbatim>\<open>hash.c\<close> for both algorithms.
\<close>

section \<open>Descriptors and contexts (internal.h)\<close>

record isrcry_hash_desc =
  hd_init :: "isrcry_block_ctx \<Rightarrow> isrcry_block_ctx"
  hd_update :: "isrcry_block_ctx \<Rightarrow> bytes \<Rightarrow> isrcry_block_ctx"
  hd_final :: "isrcry_block_ctx \<Rightarrow> (isrcry_block_ctx \<times> bytes) option"
  hd_block_size :: nat
  hd_digest_size :: nat

record isrcry_hash_ctx =
  hc_desc :: isrcry_hash_desc
  hc_ctx :: isrcry_block_ctx

definition isrcry_sha1_desc :: isrcry_hash_desc where
  "isrcry_sha1_desc = \<lparr>hd_init = sha1_init, hd_update = sha1_update, hd_final = sha1_final,
     hd_block_size = DATA_SIZE, hd_digest_size = 20\<rparr>"

definition isrcry_md5_desc :: isrcry_hash_desc where
  "isrcry_md5_desc = \<lparr>hd_init = md5_init, hd_update = md5_update, hd_final = md5_final,
     hd_block_size = DATA_SIZE, hd_digest_size = 16\<rparr>"

section \<open>Operations (hash.c)\<close>

definition hash_desc :: "c_enum \<Rightarrow> isrcry_hash_desc option" where
  "hash_desc type =
     (if type = ISRCRY_HASH_SHA1 then Some isrcry_sha1_desc
      else if type = ISRCRY_HASH_MD5 then Some isrcry_md5_desc
      else None)"

text \<open>The zeroed context of \<open>g_slice_alloc0\<close>: digest words, count, one block, index.\<close>

definition zero_block_ctx :: "isrcry_hash_desc \<Rightarrow> isrcry_block_ctx" where
  "zero_block_ctx d = \<lparr>bc_digest = replicate (hd_digest_size d div 4) 0, bc_count = 0,
     bc_block = replicate DATA_SIZE 0, bc_index = 0\<rparr>"

definition isrcry_hash_alloc :: "c_enum \<Rightarrow> isrcry_hash_ctx option" where
  "isrcry_hash_alloc type =
     (case hash_desc type of
        None \<Rightarrow> None
      | Some d \<Rightarrow> Some \<lparr>hc_desc = d, hc_ctx = hd_init d (zero_block_ctx d)\<rparr>)"

definition isrcry_hash_update :: "isrcry_hash_ctx \<Rightarrow> bytes \<Rightarrow> isrcry_hash_ctx" where
  "isrcry_hash_update hctx buffer = hctx\<lparr>hc_ctx := hd_update (hc_desc hctx) (hc_ctx hctx) buffer\<rparr>"

definition isrcry_hash_final :: "isrcry_hash_ctx \<Rightarrow> (isrcry_hash_ctx \<times> bytes) option" where
  "isrcry_hash_final hctx = do {
     (ctx, digest) \<leftarrow> hd_final (hc_desc hctx) (hc_ctx hctx);
     Some (hctx\<lparr>hc_ctx := hd_init (hc_desc hctx) ctx\<rparr>, digest)
   }"

definition isrcry_hash_len :: "c_enum \<Rightarrow> nat" where
  "isrcry_hash_len type = (case hash_desc type of None \<Rightarrow> 0 | Some d \<Rightarrow> hd_digest_size d)"

section \<open>The contract\<close>

text \<open>
  \<open>holds h m\<close>: the context has been fed \<open>m\<close> since it was last reset.  Feeding appends, finishing
  never aborts, delivers the hash of what was fed and resets the context.
\<close>

locale streaming_hash =
  fixes upd :: "'h \<Rightarrow> bytes \<Rightarrow> 'h"
    and fin :: "'h \<Rightarrow> ('h \<times> bytes) option"
    and holds :: "'h \<Rightarrow> bytes \<Rightarrow> bool"
    and H :: "bytes \<Rightarrow> bytes"
    and hlen :: nat
  assumes upd_holds: "holds h m \<Longrightarrow> holds (upd h b) (m @ b)"
    and fin_holds: "holds h m \<Longrightarrow> \<exists>h'. fin h = Some (h', H m) \<and> holds h' []"
    and H_len: "length (H m) = hlen"
begin

lemma fin_obtain:
  assumes "holds h m"
  obtains h' where "fin h = Some (h', H m)" "holds h' []"
  using fin_holds [OF assms] by blast

lemma foldl_holds: "holds h m \<Longrightarrow> holds (foldl upd h bs) (m @ concat bs)"
proof (induction bs arbitrary: h m)
  case (Cons b bs)
  from Cons.IH [OF upd_holds [OF Cons.prems, of b]] show ?case
    by simp
qed simp

text \<open>The digest depends on the concatenation of the pieces only, and the context can be reused.\<close>

lemma fin_pieces:
  assumes "holds h []"
  shows "\<exists>h'. fin (foldl upd h bs) = Some (h', H (concat bs)) \<and> holds h' []"
  using fin_holds [OF foldl_holds [OF assms]] by simp

lemma fin_two:
  assumes "holds h []"
  shows "\<exists>h'. fin (upd (upd h a) b) = Some (h', H (a @ b)) \<and> holds h' []"
  using fin_pieces [OF assms, of "[a, b]"] by simp

end

definition hash_holds :: "isrcry_hash_desc \<Rightarrow> (isrcry_block_ctx \<Rightarrow> bytes \<Rightarrow> bool) \<Rightarrow> isrcry_hash_ctx \<Rightarrow> bytes \<Rightarrow> bool" where
  "hash_holds d ab h m \<longleftrightarrow> hc_desc h = d \<and> ab (hc_ctx h) m"

text \<open>A descriptor whose operations keep an absorption predicate keeps the contract.\<close>

lemma streaming_hash_desc:
  assumes init: "\<And>c. length (bc_block c) = 64 \<Longrightarrow> ab (hd_init d c) []"
    and upd: "\<And>c m b. ab c m \<Longrightarrow> ab (hd_update d c b) (m @ b)"
    and fin: "\<And>c m. ab c m \<Longrightarrow> \<exists>c'. hd_final d c = Some (c', H m) \<and> length (bc_block c') = 64"
    and len: "\<And>m. length (H m) = n"
  shows "streaming_hash isrcry_hash_update isrcry_hash_final (hash_holds d ab) H n"
proof
  fix h m b
  assume "hash_holds d ab h m"
  then show "hash_holds d ab (isrcry_hash_update h b) (m @ b)"
    by (simp add: hash_holds_def isrcry_hash_update_def upd)
next
  fix h m
  assume h: "hash_holds d ab h m"
  then obtain c' where c': "hd_final d (hc_ctx h) = Some (c', H m)" "length (bc_block c') = 64"
    using fin by (auto simp: hash_holds_def)
  then show "\<exists>h'. isrcry_hash_final h = Some (h', H m) \<and> hash_holds d ab h' []"
    using h init by (simp add: hash_holds_def isrcry_hash_final_def)
next
  show "length (H m) = n" for m
    by (rule len)
qed

abbreviation sha1_holds :: "isrcry_hash_ctx \<Rightarrow> bytes \<Rightarrow> bool" where
  "sha1_holds \<equiv> hash_holds isrcry_sha1_desc sha1_absorbed"

abbreviation md5_holds :: "isrcry_hash_ctx \<Rightarrow> bytes \<Rightarrow> bool" where
  "md5_holds \<equiv> hash_holds isrcry_md5_desc md5_absorbed"

interpretation sha1: streaming_hash isrcry_hash_update isrcry_hash_final sha1_holds sha1_spec_hash 20
  by (rule streaming_hash_desc)
    (simp_all add: isrcry_sha1_desc_def sha1_init_absorbed sha1_update_absorbed sha1_final_digest)

interpretation md5: streaming_hash isrcry_hash_update isrcry_hash_final md5_holds md5_spec_hash 16
  by (rule streaming_hash_desc)
    (simp_all add: isrcry_md5_desc_def md5_init_absorbed md5_update_absorbed md5_final_digest)

lemma length_zero_block_ctx: "length (bc_block (zero_block_ctx d)) = 64"
  by (simp add: zero_block_ctx_def DATA_SIZE_def)

lemma isrcry_hash_alloc_sha1:
  "\<exists>h. isrcry_hash_alloc ISRCRY_HASH_SHA1 = Some h \<and> sha1_holds h []"
  by (simp add: isrcry_hash_alloc_def hash_desc_def hash_holds_def isrcry_sha1_desc_def
      sha1_init_absorbed length_zero_block_ctx)

lemma isrcry_hash_alloc_md5:
  "\<exists>h. isrcry_hash_alloc ISRCRY_HASH_MD5 = Some h \<and> md5_holds h []"
  by (simp add: isrcry_hash_alloc_def hash_desc_def hash_holds_def isrcry_md5_desc_def
      md5_init_absorbed length_zero_block_ctx)

lemma isrcry_hash_alloc_None: "isrcry_hash_alloc t = None \<longleftrightarrow> t \<noteq> ISRCRY_HASH_SHA1 \<and> t \<noteq> ISRCRY_HASH_MD5"
  by (simp add: isrcry_hash_alloc_def hash_desc_def)

end
