(* ===== verification/Isr_Mac.thy ===== *)
theory Isr_Mac
  imports Isr_Hash
begin

text \<open>
  HMAC (\<^verbatim>\<open>crypto/hmac.c\<close>) and the MAC interface (\<^verbatim>\<open>crypto/mac.c\<close>), proved against RFC 2104.
  \<open>None\<close> is an abort of \<^verbatim>\<open>g_assert\<close>.  The words of the key are read and written with the byte order of
  a little-endian host; the pads consist of four equal bytes, so the order does not matter.
\<close>

section \<open>HMAC (hmac.c)\<close>

definition IPAD :: u32 where "IPAD = 0x36363636"
definition OPAD :: u32 where "OPAD = 0x5C5C5C5C"

record isrcry_hmac_ctx =
  hm_hctx :: isrcry_hash_ctx
  hm_key :: bytes
  hm_keylen :: nat
  hm_hashlen :: nat

definition hmac_alloc :: "c_enum \<Rightarrow> isrcry_hmac_ctx option" where
  "hmac_alloc hash =
     (case isrcry_hash_alloc hash of
        None \<Rightarrow> None
      | Some h \<Rightarrow> let keylen = hd_block_size (hc_desc h) in
          Some \<lparr>hm_hctx = h, hm_key = replicate keylen 0, hm_keylen = keylen,
                hm_hashlen = isrcry_hash_len hash\<rparr>)"

definition xor_words :: "u32 \<Rightarrow> nat \<Rightarrow> bytes \<Rightarrow> bytes" where
  "xor_words pad keylen key =
     concat (map (\<lambda>n. STORE32L (LOAD32L (drop (4 * n) key) XOR pad)) [0..<keylen div 4])"

definition hmac_init :: "isrcry_hmac_ctx \<Rightarrow> bytes \<Rightarrow> (isrcry_result \<times> isrcry_hmac_ctx) option" where
  "hmac_init ctx key = do {
     (h, hbuf) \<leftarrow> isrcry_hash_final (hm_hctx ctx);
     (h, k) \<leftarrow>
       (if length key > hm_keylen ctx then do {
          (h, d) \<leftarrow> isrcry_hash_final (isrcry_hash_update h key);
          Some (h, blit (hm_key ctx) 0 d)
        } else
          Some (h, blit (blit (hm_key ctx) 0 key) (length key) (replicate (hm_keylen ctx - length key) 0)));
     if hm_keylen ctx mod 4 \<noteq> 0 then None
     else Some (ISRCRY_OK,
       ctx\<lparr>hm_hctx := isrcry_hash_update h (xor_words IPAD (hm_keylen ctx) k), hm_key := k\<rparr>)
   }"

definition hmac_update :: "isrcry_hmac_ctx \<Rightarrow> bytes \<Rightarrow> isrcry_hmac_ctx" where
  "hmac_update ctx buffer = ctx\<lparr>hm_hctx := isrcry_hash_update (hm_hctx ctx) buffer\<rparr>"

definition hmac_final :: "isrcry_hmac_ctx \<Rightarrow> bytes \<Rightarrow> nat \<Rightarrow> (isrcry_result \<times> isrcry_hmac_ctx \<times> bytes) option" where
  "hmac_final ctx out outlen =
     (if outlen > hm_hashlen ctx then Some (ISRCRY_INVALID_ARGUMENT, ctx, out)
      else do {
        (h, hbuf) \<leftarrow> isrcry_hash_final (hm_hctx ctx);
        if hm_keylen ctx mod 4 \<noteq> 0 then None
        else do {
          (h, hbuf) \<leftarrow> isrcry_hash_final
            (isrcry_hash_update (isrcry_hash_update h (xor_words OPAD (hm_keylen ctx) (hm_key ctx))) hbuf);
          Some (ISRCRY_OK, ctx\<lparr>hm_hctx := h\<rparr>, blit out 0 (take outlen hbuf))
        }
      })"

section \<open>The MAC interface (mac.c)\<close>

record isrcry_mac_desc =
  ma_alloc :: "c_enum \<Rightarrow> isrcry_hmac_ctx option"
  ma_init :: "isrcry_hmac_ctx \<Rightarrow> bytes \<Rightarrow> (isrcry_result \<times> isrcry_hmac_ctx) option"
  ma_update :: "isrcry_hmac_ctx \<Rightarrow> bytes \<Rightarrow> isrcry_hmac_ctx"
  ma_final :: "isrcry_hmac_ctx \<Rightarrow> bytes \<Rightarrow> nat \<Rightarrow> (isrcry_result \<times> isrcry_hmac_ctx \<times> bytes) option"
  ma_hash :: c_enum
  ma_mac_size :: nat

definition isrcry_hmac_sha1_desc :: isrcry_mac_desc where
  "isrcry_hmac_sha1_desc = \<lparr>ma_alloc = hmac_alloc, ma_init = hmac_init, ma_update = hmac_update,
     ma_final = hmac_final, ma_hash = ISRCRY_HASH_SHA1, ma_mac_size = 20\<rparr>"

text \<open>A key that was never set is \<open>NULL\<close> with length 0, the empty list.\<close>

record isrcry_mac_ctx =
  mc_desc :: isrcry_mac_desc
  mc_key :: bytes
  mc_inited :: bool
  mc_ctx :: isrcry_hmac_ctx

definition mac_desc :: "c_enum \<Rightarrow> isrcry_mac_desc option" where
  "mac_desc type = (if type = ISRCRY_MAC_HMAC_SHA1 then Some isrcry_hmac_sha1_desc else None)"

definition isrcry_mac_alloc :: "c_enum \<Rightarrow> isrcry_mac_ctx option" where
  "isrcry_mac_alloc type =
     (case mac_desc type of
        None \<Rightarrow> None
      | Some d \<Rightarrow> (case ma_alloc d (ma_hash d) of
            None \<Rightarrow> None
          | Some c \<Rightarrow> Some \<lparr>mc_desc = d, mc_key = [], mc_inited = False, mc_ctx = c\<rparr>))"

definition check_init :: "isrcry_mac_ctx \<Rightarrow> (isrcry_result \<times> isrcry_mac_ctx) option" where
  "check_init mctx =
     (if \<not> mc_inited mctx then do {
        (ret, c) \<leftarrow> ma_init (mc_desc mctx) (mc_ctx mctx) (mc_key mctx);
        if ret \<noteq> ISRCRY_OK then Some (ret, mctx\<lparr>mc_ctx := c\<rparr>)
        else Some (ISRCRY_OK, mctx\<lparr>mc_ctx := c, mc_inited := True\<rparr>)
      } else Some (ISRCRY_OK, mctx))"

definition isrcry_mac_init :: "isrcry_mac_ctx \<Rightarrow> bytes \<Rightarrow> (isrcry_result \<times> isrcry_mac_ctx) option" where
  "isrcry_mac_init mctx key = check_init (mctx\<lparr>mc_key := key, mc_inited := False\<rparr>)"

definition isrcry_mac_update :: "isrcry_mac_ctx \<Rightarrow> bytes \<Rightarrow> (isrcry_result \<times> isrcry_mac_ctx) option" where
  "isrcry_mac_update mctx buffer = do {
     (ret, mctx) \<leftarrow> check_init mctx;
     if ret \<noteq> ISRCRY_OK then Some (ret, mctx)
     else Some (ISRCRY_OK, mctx\<lparr>mc_ctx := ma_update (mc_desc mctx) (mc_ctx mctx) buffer\<rparr>)
   }"

definition isrcry_mac_final :: "isrcry_mac_ctx \<Rightarrow> bytes \<Rightarrow> nat \<Rightarrow> (isrcry_result \<times> isrcry_mac_ctx \<times> bytes) option" where
  "isrcry_mac_final mctx out outlen = do {
     (ret, mctx) \<leftarrow> check_init mctx;
     if ret \<noteq> ISRCRY_OK then Some (ret, mctx, out)
     else do {
       (ret, c, out) \<leftarrow> ma_final (mc_desc mctx) (mc_ctx mctx) out outlen;
       Some (ret, mctx\<lparr>mc_ctx := c, mc_inited := False\<rparr>, out)
     }
   }"

definition isrcry_mac_len :: "c_enum \<Rightarrow> nat" where
  "isrcry_mac_len type = (case mac_desc type of None \<Rightarrow> 0 | Some d \<Rightarrow> ma_mac_size d)"

text \<open>A client that authenticates the pieces \<open>bs\<close> of one message.\<close>

fun mac_updates :: "isrcry_mac_ctx \<Rightarrow> bytes list \<Rightarrow> (isrcry_result \<times> isrcry_mac_ctx) option" where
  "mac_updates mctx [] = Some (ISRCRY_OK, mctx)"
| "mac_updates mctx (b # bs) = do {
     (ret, mctx) \<leftarrow> isrcry_mac_update mctx b;
     if ret \<noteq> ISRCRY_OK then Some (ret, mctx) else mac_updates mctx bs
   }"

definition mac_message :: "isrcry_mac_ctx \<Rightarrow> bytes list \<Rightarrow> bytes \<Rightarrow> nat \<Rightarrow> (isrcry_result \<times> isrcry_mac_ctx \<times> bytes) option" where
  "mac_message mctx bs out outlen = do {
     (ret, mctx) \<leftarrow> mac_updates mctx bs;
     if ret \<noteq> ISRCRY_OK then Some (ret, mctx, out) else isrcry_mac_final mctx out outlen
   }"

section \<open>RFC 2104\<close>

definition hmac_spec_key :: "bytes \<Rightarrow> bytes" where
  "hmac_spec_key key =
     (let k = (if length key > 64 then sha1_spec_hash key else key) in k @ replicate (64 - length k) 0)"

definition hmac_with :: "bytes \<Rightarrow> bytes \<Rightarrow> bytes" where
  "hmac_with k m = sha1_spec_hash (map (\<lambda>b. b XOR 0x5C) k @ sha1_spec_hash (map (\<lambda>b. b XOR 0x36) k @ m))"

definition hmac_spec :: "bytes \<Rightarrow> bytes \<Rightarrow> bytes" where
  "hmac_spec key m = hmac_with (hmac_spec_key key) m"

text \<open>The key block the code keeps, given the previous contents \<open>old\<close> of its buffer.\<close>

definition hmac_kept_key :: "bytes \<Rightarrow> bytes \<Rightarrow> bytes" where
  "hmac_kept_key old key =
     (if length key > 64 then sha1_spec_hash key @ drop 20 old else key @ replicate (64 - length key) 0)"

lemma hmac_kept_key_spec:
  "length key \<le> 64 \<or> drop 20 old = replicate 44 0 \<Longrightarrow> hmac_kept_key old key = hmac_spec_key key"
  by (auto simp: hmac_kept_key_def hmac_spec_key_def)

lemma length_hmac_kept_key [simp]: "length old = 64 \<Longrightarrow> length (hmac_kept_key old key) = 64"
  by (simp add: hmac_kept_key_def)

lemma hmac_kept_key_again [simp]: "hmac_kept_key (hmac_kept_key old key) key = hmac_kept_key old key"
  by (simp add: hmac_kept_key_def)

section \<open>Correctness of HMAC\<close>

lemma xor_word_bytes:
  assumes "4 \<le> length y" and "pad = LOAD32L [p, p, p, p]"
  shows "STORE32L (LOAD32L y XOR pad) = map (\<lambda>b. b XOR p) (take 4 y)"
proof -
  obtain a b c d r where y: "y = a # b # c # d # r"
    using assms(1) by (auto simp: numeral_eq_Suc Suc_le_length_iff)
  let ?x = "LOAD32L y XOR pad"
  have "ucast ?x = a XOR p" "ucast (drop_bit 8 ?x) = b XOR p"
    "ucast (drop_bit 16 ?x) = c XOR p" "ucast (drop_bit 24 ?x) = d XOR p"
    by (rule bit_word_eqI; auto simp: y assms(2) LOAD32L_def bit_simps dest: bit_imp_le_length)+
  then show ?thesis
    by (simp add: STORE32L_def y)
qed

lemma xor_words_bytes:
  assumes "pad = LOAD32L [p, p, p, p]" "4 * n \<le> length key"
  shows "concat (map (\<lambda>n. STORE32L (LOAD32L (drop (4 * n) key) XOR pad)) [0..<n]) = map (\<lambda>b. b XOR p) (take (4 * n) key)"
  using assms(2)
proof (induction n)
  case (Suc n)
  then have "STORE32L (LOAD32L (drop (4 * n) key) XOR pad) = map (\<lambda>b. b XOR p) (take 4 (drop (4 * n) key))"
    by (intro xor_word_bytes assms) simp
  moreover have "take (4 * Suc n) key = take (4 * n) key @ take 4 (drop (4 * n) key)"
    using take_add [of "4 * n" 4 key] by (simp add: add.commute)
  ultimately show ?case
    using Suc by simp
qed simp

lemma pads: "IPAD = LOAD32L [0x36, 0x36, 0x36, 0x36]" "OPAD = LOAD32L [0x5C, 0x5C, 0x5C, 0x5C]"
  unfolding IPAD_def OPAD_def LOAD32L_def by simp_all

lemma xor_words_pad:
  assumes "length key = 64"
  shows "xor_words IPAD 64 key = map (\<lambda>b. b XOR 0x36) key" "xor_words OPAD 64 key = map (\<lambda>b. b XOR 0x5C) key"
  using xor_words_bytes [OF pads(1), of 16 key] xor_words_bytes [OF pads(2), of 16 key] assms
  by (simp_all add: xor_words_def)

text \<open>The state of an HMAC context: its key block is \<open>k\<close>, and its hash has been fed \<open>m\<close>.\<close>

definition hmac_state :: "isrcry_hmac_ctx \<Rightarrow> bytes \<Rightarrow> bytes \<Rightarrow> bool" where
  "hmac_state ctx k m \<longleftrightarrow> hm_keylen ctx = 64 \<and> hm_hashlen ctx = 20 \<and> hm_key ctx = k
     \<and> length k = 64 \<and> sha1_holds (hm_hctx ctx) m"

lemma hmac_alloc_state: "\<exists>ctx. hmac_alloc ISRCRY_HASH_SHA1 = Some ctx \<and> hmac_state ctx (replicate 64 0) []"
  using isrcry_hash_alloc_sha1
  by (auto simp: hmac_alloc_def hmac_state_def isrcry_hash_len_def hash_desc_def hash_holds_def
      isrcry_sha1_desc_def DATA_SIZE_def)

lemma hmac_init_state:
  assumes "hmac_state ctx old m"
  shows "\<exists>ctx'. hmac_init ctx key = Some (ISRCRY_OK, ctx')
     \<and> hmac_state ctx' (hmac_kept_key old key) (map (\<lambda>b. b XOR 0x36) (hmac_kept_key old key))"
proof -
  have c: "hm_keylen ctx = 64" "hm_hashlen ctx = 20" "hm_key ctx = old" "length old = 64" "sha1_holds (hm_hctx ctx) m"
    using assms by (simp_all add: hmac_state_def)
  obtain h1 where h1: "isrcry_hash_final (hm_hctx ctx) = Some (h1, sha1_spec_hash m)" "sha1_holds h1 []"
    using c(5) by (rule sha1.fin_obtain)
  have upd: "sha1_holds (isrcry_hash_update h b) b" if "sha1_holds h []" for h b
    using sha1.upd_holds [OF that] by simp
  obtain h2 where h2: "isrcry_hash_final (isrcry_hash_update h1 key) = Some (h2, sha1_spec_hash key)" "sha1_holds h2 []"
    using upd [OF h1(2)] by (rule sha1.fin_obtain)
  have long: "blit old 0 (sha1_spec_hash key) = hmac_kept_key old key" if "length key > 64"
    using that by (simp add: blit_def hmac_kept_key_def)
  have short: "blit (blit old 0 key) (length key) (replicate (64 - length key) 0) = hmac_kept_key old key"
    if "\<not> length key > 64"
    using that c(4) by (simp add: blit_def hmac_kept_key_def)
  have k: "length (hmac_kept_key old key) = 64"
    using c(4) by simp
  show ?thesis
    using c h1 h2 long short upd [OF h1(2)] upd [OF h2(2)] xor_words_pad [OF k] k
    by (simp add: hmac_init_def hmac_state_def)
qed

lemma hmac_update_state: "hmac_state ctx k m \<Longrightarrow> hmac_state (hmac_update ctx b) k (m @ b)"
  by (simp add: hmac_state_def hmac_update_def sha1.upd_holds)

lemma hmac_final_state:
  assumes "hmac_state ctx k (map (\<lambda>b. b XOR 0x36) k @ m)" "outlen \<le> 20"
  shows "\<exists>ctx'. hmac_final ctx out outlen = Some (ISRCRY_OK, ctx', blit out 0 (take outlen (hmac_with k m)))
    \<and> hmac_state ctx' k []"
proof -
  have c: "hm_keylen ctx = 64" "hm_hashlen ctx = 20" "hm_key ctx = k" "length k = 64"
    "sha1_holds (hm_hctx ctx) (map (\<lambda>b. b XOR 0x36) k @ m)"
    using assms(1) by (simp_all add: hmac_state_def)
  let ?d = "sha1_spec_hash (map (\<lambda>b. b XOR 0x36) k @ m)"
  obtain h1 where h1: "isrcry_hash_final (hm_hctx ctx) = Some (h1, ?d)" "sha1_holds h1 []"
    using c(5) by (rule sha1.fin_obtain)
  obtain h2 where h2: "isrcry_hash_final (isrcry_hash_update (isrcry_hash_update h1 (map (\<lambda>b. b XOR 0x5C) k)) ?d) =
      Some (h2, hmac_with k m)" "sha1_holds h2 []"
    using sha1.fin_two [OF h1(2)] by (auto simp: hmac_with_def)
  show ?thesis
    using assms(2) c h1 h2 xor_words_pad [OF c(4)] by (simp add: hmac_final_def hmac_state_def)
qed

section \<open>Correctness of the interface\<close>

text \<open>
  \<open>mac_ready mctx key k m\<close>: the context is keyed with \<open>key\<close>, will use the key block \<open>k\<close>, and has been
  fed \<open>m\<close> for the current message.
\<close>

definition mac_ready :: "isrcry_mac_ctx \<Rightarrow> bytes \<Rightarrow> bytes \<Rightarrow> bytes \<Rightarrow> bool" where
  "mac_ready mctx key k m \<longleftrightarrow> mc_desc mctx = isrcry_hmac_sha1_desc \<and> mc_key mctx = key
     \<and> (if mc_inited mctx then hmac_state (mc_ctx mctx) k (map (\<lambda>b. b XOR 0x36) k @ m) \<and> hmac_kept_key k key = k
        else m = [] \<and> (\<exists>old x. hmac_state (mc_ctx mctx) old x \<and> hmac_kept_key old key = k))"

text \<open>The key buffer inside a context.\<close>

abbreviation mac_keybuf :: "isrcry_mac_ctx \<Rightarrow> bytes" where
  "mac_keybuf mctx \<equiv> hm_key (mc_ctx mctx)"

lemma check_init_ready:
  assumes "mac_ready mctx key k m"
  shows "\<exists>mctx'. check_init mctx = Some (ISRCRY_OK, mctx') \<and> mac_ready mctx' key k m \<and> mc_inited mctx'"
proof (cases "mc_inited mctx")
  case True
  with assms show ?thesis by (simp add: check_init_def)
next
  case False
  with assms obtain old x where old: "hmac_state (mc_ctx mctx) old x" "hmac_kept_key old key = k" "m = []"
    by (auto simp: mac_ready_def)
  from hmac_init_state [OF old(1), of key] obtain c where
    c: "hmac_init (mc_ctx mctx) key = Some (ISRCRY_OK, c)" "hmac_state c k (map (\<lambda>b. b XOR 0x36) k)"
    by (auto simp: old(2))
  show ?thesis
    using False assms c old by (auto simp: check_init_def mac_ready_def isrcry_hmac_sha1_desc_def)
qed

lemma isrcry_mac_alloc_ready:
  "\<exists>mctx. isrcry_mac_alloc ISRCRY_MAC_HMAC_SHA1 = Some mctx \<and> mac_ready mctx [] (replicate 64 0) []
     \<and> mac_keybuf mctx = replicate 64 0"
proof -
  obtain c where c: "hmac_alloc ISRCRY_HASH_SHA1 = Some c" "hmac_state c (replicate 64 0) []"
    using hmac_alloc_state by blast
  have k: "hmac_kept_key (replicate 64 0) [] = replicate 64 0"
    by (simp add: hmac_kept_key_def)
  have b: "hm_key c = replicate 64 0"
    using c(2) by (simp add: hmac_state_def)
  have "isrcry_mac_alloc ISRCRY_MAC_HMAC_SHA1 =
      Some \<lparr>mc_desc = isrcry_hmac_sha1_desc, mc_key = [], mc_inited = False, mc_ctx = c\<rparr>"
    using c(1) by (simp add: isrcry_mac_alloc_def mac_desc_def isrcry_hmac_sha1_desc_def)
  moreover have "mac_ready \<lparr>mc_desc = isrcry_hmac_sha1_desc, mc_key = [], mc_inited = False, mc_ctx = c\<rparr>
      [] (replicate 64 0) []"
    using c(2) k unfolding mac_ready_def by (simp only: isrcry_mac_ctx.simps) auto
  ultimately show ?thesis
    using b by simp
qed

lemma mac_ready_state:
  assumes "mac_ready mctx key k m"
  shows "\<exists>x. hmac_state (mc_ctx mctx) (mac_keybuf mctx) x"
  using assms by (auto simp: mac_ready_def hmac_state_def split: if_splits)

lemma isrcry_mac_init_ready:
  assumes "mac_ready mctx key0 k0 m0"
  shows "\<exists>mctx'. isrcry_mac_init mctx key = Some (ISRCRY_OK, mctx')
     \<and> mac_ready mctx' key (hmac_kept_key (mac_keybuf mctx) key) [] \<and> mc_inited mctx'"
proof -
  have "mac_ready (mctx\<lparr>mc_key := key, mc_inited := False\<rparr>) key (hmac_kept_key (mac_keybuf mctx) key) []"
    using mac_ready_state [OF assms] assms by (auto simp: mac_ready_def)
  from check_init_ready [OF this] show ?thesis
    by (auto simp: isrcry_mac_init_def)
qed

lemma isrcry_mac_update_ready:
  assumes "mac_ready mctx key k m"
  shows "\<exists>mctx'. isrcry_mac_update mctx b = Some (ISRCRY_OK, mctx') \<and> mac_ready mctx' key k (m @ b)"
proof -
  obtain m1 where m1: "check_init mctx = Some (ISRCRY_OK, m1)" "mac_ready m1 key k m" "mc_inited m1"
    using check_init_ready [OF assms] by blast
  then show ?thesis
    using hmac_update_state [of "mc_ctx m1" k "map (\<lambda>b. b XOR 0x36) k @ m" b]
    by (auto simp: isrcry_mac_update_def mac_ready_def isrcry_hmac_sha1_desc_def)
qed

lemma mac_updates_ready:
  "mac_ready mctx key k m \<Longrightarrow> \<exists>mctx'. mac_updates mctx bs = Some (ISRCRY_OK, mctx') \<and> mac_ready mctx' key k (m @ concat bs)"
proof (induction bs arbitrary: mctx m)
  case (Cons b bs)
  obtain m1 where "isrcry_mac_update mctx b = Some (ISRCRY_OK, m1)" "mac_ready m1 key k (m @ b)"
    using isrcry_mac_update_ready [OF Cons.prems] by blast
  with Cons.IH [of m1 "m @ b"] show ?case
    by auto
qed auto

lemma isrcry_mac_final_ready:
  assumes "mac_ready mctx key k m" "outlen \<le> 20"
  shows "\<exists>mctx'. isrcry_mac_final mctx out outlen = Some (ISRCRY_OK, mctx', blit out 0 (take outlen (hmac_with k m)))
    \<and> mac_ready mctx' key k []"
proof -
  obtain m1 where m1: "check_init mctx = Some (ISRCRY_OK, m1)" "mac_ready m1 key k m" "mc_inited m1"
    using check_init_ready [OF assms(1)] by blast
  then have st: "hmac_state (mc_ctx m1) k (map (\<lambda>b. b XOR 0x36) k @ m)" "hmac_kept_key k key = k"
    by (simp_all add: mac_ready_def)
  obtain c where c: "hmac_final (mc_ctx m1) out outlen = Some (ISRCRY_OK, c, blit out 0 (take outlen (hmac_with k m)))"
    "hmac_state c k []"
    using hmac_final_state [OF st(1) assms(2)] by blast
  show ?thesis
    using m1 st(2) c by (auto simp: isrcry_mac_final_def mac_ready_def isrcry_hmac_sha1_desc_def)
qed

lemma mac_message_ready:
  assumes "mac_ready mctx key k []" "outlen \<le> 20"
  shows "\<exists>mctx'. mac_message mctx bs out outlen =
      Some (ISRCRY_OK, mctx', blit out 0 (take outlen (hmac_with k (concat bs)))) \<and> mac_ready mctx' key k []"
proof -
  obtain m1 where m1: "mac_updates mctx bs = Some (ISRCRY_OK, m1)" "mac_ready m1 key k (concat bs)"
    using mac_updates_ready [OF assms(1), of bs] by auto
  with isrcry_mac_final_ready [OF m1(2) assms(2)] show ?thesis
    by (simp add: mac_message_def)
qed

lemma isrcry_mac_final_too_long:
  assumes "mac_ready mctx key k m" "20 < outlen"
  shows "\<exists>mctx'. isrcry_mac_final mctx out outlen = Some (ISRCRY_INVALID_ARGUMENT, mctx', out) \<and> mac_ready mctx' key k []"
proof -
  obtain m1 where m1: "check_init mctx = Some (ISRCRY_OK, m1)" "mac_ready m1 key k m" "mc_inited m1"
    using check_init_ready [OF assms(1)] by blast
  then have "hm_hashlen (mc_ctx m1) = 20"
    by (simp add: mac_ready_def hmac_state_def)
  with m1 assms(2) show ?thesis
    by (auto simp: isrcry_mac_final_def mac_ready_def isrcry_hmac_sha1_desc_def hmac_final_def)
qed

end
