(* ===== verification/Isr_LZF.thy ===== *)
theory Isr_LZF
  imports Isr_Prelude "HOL-Library.Monad_Syntax"
begin

text \<open>
  The LZF compressor and decompressor of \<^verbatim>\<open>crypto/lzf.c\<close>.  Pointers into the input and the output are
  offsets from their start; the value \<open>None\<close> is an access outside a buffer.  The compiled variant is
  the one the source selects: \<open>HLOG\<close> 13, \<open>ULTRA_FAST\<close>, \<open>INIT_HTAB\<close> and \<open>CHECK_INPUT\<close>.

  An entry of the hash table is \<open>None\<close> for \<open>NULL\<close> and otherwise an address relative to the input.  The
  table is not initialised by its allocation and keeps addresses of earlier inputs, so entries may be
  arbitrary integers.  The \<open>memset\<close> at the start of \<open>lzf_compress\<close> clears \<^verbatim>\<open>sizeof(htab)\<close> bytes of an array
  parameter, that is one pointer: only entry 0.
\<close>

definition HLOG :: nat where "HLOG = 13"
definition HSIZE :: u32 where "HSIZE = push_bit HLOG 1"
definition MAX_LIT :: nat where "MAX_LIT = 2 ^ 5"
definition MAX_OFF :: int where "MAX_OFF = 2 ^ 13"
definition MAX_REF :: nat where "MAX_REF = 2 ^ 8 + 2 ^ 3"

definition rd :: "bytes \<Rightarrow> nat \<Rightarrow> u8 option" where
  "rd xs i = (if i < length xs then Some (xs ! i) else None)"

definition wr :: "bytes \<Rightarrow> nat \<Rightarrow> u8 \<Rightarrow> bytes option" where
  "wr xs i v = (if i < length xs then Some (xs[i := v]) else None)"

definition FRST :: "bytes \<Rightarrow> nat \<Rightarrow> u32 option" where
  "FRST inp p = do { a \<leftarrow> rd inp p; b \<leftarrow> rd inp (p + 1); Some (push_bit 8 (ucast a) OR ucast b) }"

definition NEXT :: "u32 \<Rightarrow> bytes \<Rightarrow> nat \<Rightarrow> u32 option" where
  "NEXT v inp p = do { c \<leftarrow> rd inp (p + 2); Some (push_bit 8 v OR ucast c) }"

definition IDX :: "u32 \<Rightarrow> nat" where
  "IDX h = unat ((drop_bit (3 * 8 - HLOG) h - h) AND (HSIZE - 1))"

type_synonym LZF_STATE = "nat \<Rightarrow> int option"

section \<open>Compression\<close>

record lzf_st =
  z_ip :: nat
  z_op :: nat
  z_lit :: nat
  z_hval :: u32
  z_htab :: LZF_STATE
  z_out :: bytes

text \<open>The condition of the match branch, with its tests in the order of the source.\<close>

definition lzf_is_match :: "bytes \<Rightarrow> nat \<Rightarrow> int option \<Rightarrow> bool option" where
  "lzf_is_match inp ip ref =
     (case ref of
        None \<Rightarrow> Some False
      | Some r \<Rightarrow>
          if r < int ip \<and> int ip - r - 1 < MAX_OFF \<and> ip + 4 < length inp \<and> r > 0
          then do {
            r0 \<leftarrow> rd inp (nat r); r1 \<leftarrow> rd inp (nat r + 1);
            i0 \<leftarrow> rd inp ip; i1 \<leftarrow> rd inp (ip + 1);
            if r0 = i0 \<and> r1 = i1 then do {
              r2 \<leftarrow> rd inp (nat r + 2); i2 \<leftarrow> rd inp (ip + 2);
              Some (r2 = i2)
            } else Some False
          }
          else Some False)"

text \<open>The unrolled comparisons: \<open>(True, len)\<close> when one of them leaves the loop at \<open>len\<close>.\<close>

fun lzf_unrolled :: "bytes \<Rightarrow> nat \<Rightarrow> nat \<Rightarrow> nat \<Rightarrow> nat \<Rightarrow> (bool \<times> nat) option" where
  "lzf_unrolled inp ip ref 0 len = Some (False, len)"
| "lzf_unrolled inp ip ref (Suc k) len =
     (let len = len + 1 in do {
        a \<leftarrow> rd inp (ref + len); b \<leftarrow> rd inp (ip + len);
        if a \<noteq> b then Some (True, len) else lzf_unrolled inp ip ref k len
      })"

function lzf_extend :: "bytes \<Rightarrow> nat \<Rightarrow> nat \<Rightarrow> nat \<Rightarrow> nat \<Rightarrow> nat option" where
  "lzf_extend inp ip ref maxlen len =
     (let len = len + 1 in
      if len < maxlen then do {
        a \<leftarrow> rd inp (ref + len); b \<leftarrow> rd inp (ip + len);
        if a = b then lzf_extend inp ip ref maxlen len else Some len
      } else Some len)"
  by pat_completeness auto
termination
  by (relation "measure (\<lambda>(inp, ip, ref, maxlen, len). maxlen - len)") auto

declare lzf_extend.simps [simp del]

definition lzf_match_len :: "bytes \<Rightarrow> nat \<Rightarrow> nat \<Rightarrow> nat option" where
  "lzf_match_len inp ip ref =
     (let len = 2; maxlen = length inp - ip - len; maxlen = (if maxlen > MAX_REF then MAX_REF else maxlen) in
      if maxlen > 16 then do {
        (brk, len) \<leftarrow> lzf_unrolled inp ip ref 16 len;
        if brk then Some len else lzf_extend inp ip ref maxlen len
      } else lzf_extend inp ip ref maxlen len)"

text \<open>\<open>op[-lit - 1] = lit - 1; op -= !lit\<close>\<close>

definition lzf_end_run :: "nat \<Rightarrow> nat \<Rightarrow> bytes \<Rightarrow> (nat \<times> bytes) option" where
  "lzf_end_run op lit out = do {
     out \<leftarrow> wr out (op - lit - 1) (of_nat lit - 1);
     Some (if lit = 0 then op - 1 else op, out)
   }"

definition lzf_put_ref :: "nat \<Rightarrow> nat \<Rightarrow> nat \<Rightarrow> bytes \<Rightarrow> (nat \<times> bytes) option" where
  "lzf_put_ref off len op out = do {
     (op, out) \<leftarrow>
       (if len < 7 then do { out \<leftarrow> wr out op (of_nat (off div 256 + len * 32)); Some (op + 1, out) }
        else do {
          out \<leftarrow> wr out op (of_nat (off div 256 + 7 * 32));
          out \<leftarrow> wr out (op + 1) (of_nat (len - 7));
          Some (op + 2, out)
        });
     out \<leftarrow> wr out op (of_nat off);
     Some (op + 1, out)
   }"

text \<open>What one pass through the main loop does next.\<close>

datatype lzf_next = Continue lzf_st | Break lzf_st | Return0 lzf_st

definition lzf_match_branch :: "bytes \<Rightarrow> nat \<Rightarrow> lzf_st \<Rightarrow> lzf_next option" where
  "lzf_match_branch inp ref st =
     (let ip = z_ip st; op = z_op st; lit = z_lit st; out = z_out st; off = ip - ref - 1 in
      if op + 3 + 1 \<ge> length out \<and> (if lit = 0 then op - 1 else op) + 3 + 1 \<ge> length out then Some (Return0 st)
      else do {
        (op, out) \<leftarrow> lzf_end_run op lit out;
        len \<leftarrow> lzf_match_len inp ip ref;
        let len = len - 2;
        let ip = ip + 1;
        (op, out) \<leftarrow> lzf_put_ref off len op out;
        let ip = ip + (len + 1);
        let st = st\<lparr>z_ip := ip, z_op := op + 1, z_lit := 0, z_out := out\<rparr>;
        if ip + 2 \<ge> length inp then Some (Break st)
        else do {
          hval \<leftarrow> FRST inp (ip - 1);
          hval \<leftarrow> NEXT hval inp (ip - 1);
          Some (Continue (st\<lparr>z_hval := hval, z_htab := (z_htab st)(IDX hval := Some (int (ip - 1)))\<rparr>))
        }
      })"

text \<open>\<open>lit++; *op++ = *ip++\<close>, and the end of a run of \<open>MAX_LIT\<close> literals.\<close>

definition lzf_put_lit :: "bytes \<Rightarrow> lzf_st \<Rightarrow> lzf_st option" where
  "lzf_put_lit inp st = do {
     b \<leftarrow> rd inp (z_ip st);
     out \<leftarrow> wr (z_out st) (z_op st) b;
     let st = st\<lparr>z_lit := z_lit st + 1, z_ip := z_ip st + 1, z_op := z_op st + 1, z_out := out\<rparr>;
     if z_lit st = MAX_LIT then do {
       out \<leftarrow> wr (z_out st) (z_op st - z_lit st - 1) (of_nat (z_lit st) - 1);
       Some (st\<lparr>z_lit := 0, z_op := z_op st + 1, z_out := out\<rparr>)
     } else Some st
   }"

definition lzf_iter :: "bytes \<Rightarrow> lzf_st \<Rightarrow> lzf_next option" where
  "lzf_iter inp st = do {
     hval \<leftarrow> NEXT (z_hval st) inp (z_ip st);
     let hslot = IDX hval;
     let ref = z_htab st hslot;
     let st = st\<lparr>z_hval := hval, z_htab := (z_htab st)(hslot := Some (int (z_ip st)))\<rparr>;
     m \<leftarrow> lzf_is_match inp (z_ip st) ref;
     if m then lzf_match_branch inp (nat (the ref)) st
     else if z_op st \<ge> length (z_out st) then Some (Return0 st)
     else do { st \<leftarrow> lzf_put_lit inp st; Some (Continue st) }
   }"

lemma lzf_match_branch_ip: "lzf_match_branch inp ref st = Some (Continue st') \<Longrightarrow> z_ip st < z_ip st'"
  by (auto simp: lzf_match_branch_def Let_def bind_eq_Some_conv split: if_splits prod.splits)

lemma lzf_iter_ip: "lzf_iter inp st = Some (Continue st') \<Longrightarrow> z_ip st < z_ip st'"
  by (auto simp: lzf_iter_def lzf_put_lit_def Let_def bind_eq_Some_conv split: if_splits
      dest!: lzf_match_branch_ip)

text \<open>The main loop; the flag is set by an early \<^verbatim>\<open>return 0\<close>.\<close>

function lzf_loop :: "bytes \<Rightarrow> lzf_st \<Rightarrow> (bool \<times> lzf_st) option" where
  "lzf_loop inp st =
     (if z_ip st + 2 < length inp then
        (case lzf_iter inp st of
           None \<Rightarrow> None
         | Some (Continue st') \<Rightarrow> lzf_loop inp st'
         | Some (Break st') \<Rightarrow> Some (False, st')
         | Some (Return0 st') \<Rightarrow> Some (True, st'))
      else Some (False, st))"
  by pat_completeness auto
termination
  by (relation "measure (\<lambda>(inp, st). length inp - z_ip st)") (auto dest: lzf_iter_ip)

declare lzf_loop.simps [simp del]

lemma lzf_put_lit_ip: "lzf_put_lit inp st = Some st' \<Longrightarrow> z_ip st' = Suc (z_ip st)"
  by (auto simp: lzf_put_lit_def Let_def bind_eq_Some_conv split: if_splits)

function lzf_tail :: "bytes \<Rightarrow> lzf_st \<Rightarrow> lzf_st option" where
  "lzf_tail inp st =
     (if z_ip st < length inp then
        (case lzf_put_lit inp st of None \<Rightarrow> None | Some st' \<Rightarrow> lzf_tail inp st')
      else Some st)"
  by pat_completeness auto
termination
  by (relation "measure (\<lambda>(inp, st). length inp - z_ip st)") (auto dest: lzf_put_lit_ip)

declare lzf_tail.simps [simp del]

text \<open>
  The result, the output buffer and the hash table after the call.  The first two bytes are read without a look at the length
  of the input, so the memory that follows the input in the caller's buffer is an argument: \<open>beyond\<close>.  Every other read of
  the input is in a function above, which sees the input only.  \<open>lzf_compress\<close> is the call on a buffer that ends with its input.
\<close>

definition lzf_compress_at :: "bytes \<Rightarrow> bytes \<Rightarrow> bytes \<Rightarrow> LZF_STATE \<Rightarrow> (nat \<times> bytes \<times> LZF_STATE) option" where
  "lzf_compress_at beyond inp out htab =
     (if length inp = 0 \<or> length out = 0 then Some (0, out, htab)
      else do {
        let htab = htab(0 := None);
        hval \<leftarrow> FRST (inp @ beyond) 0;
        (ret, st) \<leftarrow> lzf_loop inp \<lparr>z_ip = 0, z_op = 1, z_lit = 0, z_hval = hval, z_htab = htab, z_out = out\<rparr>;
        if ret \<or> z_op st + 3 > length (z_out st) then Some (0, z_out st, z_htab st)
        else do {
          st \<leftarrow> lzf_tail inp st;
          (op, out) \<leftarrow> lzf_end_run (z_op st) (z_lit st) (z_out st);
          Some (op, out, z_htab st)
        }
      })"

definition lzf_compress :: "bytes \<Rightarrow> bytes \<Rightarrow> LZF_STATE \<Rightarrow> (nat \<times> bytes \<times> LZF_STATE) option" where
  "lzf_compress = lzf_compress_at []"

lemma lzf_compress_at_Nil [simp]: "lzf_compress_at [] = lzf_compress"
  by (simp add: lzf_compress_def)

lemmas lzf_compress_eq = lzf_compress_at_def [of "[]", unfolded lzf_compress_at_Nil append_Nil2]

text \<open>What follows the input matters to an input of one byte only, and there only that it is readable.\<close>

lemma lzf_compress_at_two: "2 \<le> length inp \<Longrightarrow> lzf_compress_at beyond inp = lzf_compress inp"
  by (auto simp: fun_eq_iff lzf_compress_at_def lzf_compress_eq FRST_def rd_def nth_append split: bind_splits)

lemma lzf_compress_at_one:
  assumes "beyond \<noteq> []" "4 \<le> length out"
  shows "lzf_compress_at beyond [x] out htab = Some (2, out[1 := x, 0 := 0], htab(0 := None))"
proof -
  obtain h where h: "FRST ([x] @ beyond) 0 = Some h"
    using assms(1) by (cases beyond) (simp_all add: FRST_def rd_def)
  have "out \<noteq> []"
    using assms(2) by auto
  then show ?thesis
    using assms(2) unfolding lzf_compress_at_def h
    by (simp add: lzf_loop.simps lzf_tail.simps lzf_put_lit_def rd_def wr_def MAX_LIT_def lzf_end_run_def Let_def)
qed

section \<open>Decompression\<close>

definition E2BIG :: int where "E2BIG = 7"
definition EINVAL :: int where "EINVAL = 22"

text \<open>\<open>rep movsb\<close> inside the output buffer: byte after byte, in ascending order.\<close>

fun lzf_movsb :: "bytes \<Rightarrow> nat \<Rightarrow> nat \<Rightarrow> nat \<Rightarrow> bytes option" where
  "lzf_movsb out op ref 0 = Some out"
| "lzf_movsb out op ref (Suc n) = do {
     b \<leftarrow> rd out ref;
     out \<leftarrow> wr out op b;
     lzf_movsb out (op + 1) (ref + 1) n
   }"

text \<open>The copy of a literal run from the input.\<close>

fun lzf_copy_lit :: "bytes \<Rightarrow> nat \<Rightarrow> bytes \<Rightarrow> nat \<Rightarrow> nat \<Rightarrow> bytes option" where
  "lzf_copy_lit inp ip out op 0 = Some out"
| "lzf_copy_lit inp ip out op (Suc n) = do {
     b \<leftarrow> rd inp ip;
     out \<leftarrow> wr out op b;
     lzf_copy_lit inp (ip + 1) out (op + 1) n
   }"

text \<open>One pass: an error code, or the new \<open>ip\<close>, \<open>op\<close> and output buffer.\<close>

definition lzf_dec_iter :: "bytes \<Rightarrow> nat \<Rightarrow> nat \<Rightarrow> bytes \<Rightarrow> (int + nat \<times> nat \<times> bytes) option" where
  "lzf_dec_iter inp ip op out = do {
     c \<leftarrow> rd inp ip;
     let ip = ip + 1;
     let ctrl = unat c;
     if ctrl < 2 ^ 5 then
       (let ctrl = ctrl + 1 in
        if op + ctrl > length out then Some (Inl (- E2BIG))
        else if ip + ctrl > length inp then Some (Inl (- EINVAL))
        else do { out \<leftarrow> lzf_copy_lit inp ip out op ctrl; Some (Inr (ip + ctrl, op + ctrl, out)) })
     else do {
       let len = ctrl div 2 ^ 5;
       let ref = int op - int (ctrl mod 32 * 256) - 1;
       if ip \<ge> length inp then Some (Inl (- EINVAL))
       else do {
         l \<leftarrow> (if len = 7 then do {
                  x \<leftarrow> rd inp ip;
                  Some (if ip + 1 \<ge> length inp then None else Some (len + unat x, ip + 1))
                } else Some (Some (len, ip)));
         (case l of
            None \<Rightarrow> Some (Inl (- EINVAL))
          | Some (len, ip) \<Rightarrow> do {
              x \<leftarrow> rd inp ip;
              let ref = ref - int (unat x);
              let ip = ip + 1;
              if op + len + 2 > length out then Some (Inl (- E2BIG))
              else if ref < 0 then Some (Inl (- EINVAL))
              else do {
                out \<leftarrow> lzf_movsb out op (nat ref) (len + 2);
                Some (Inr (ip, op + (len + 2), out))
              }
            })
       }
     }
   }"

lemma lzf_dec_iter_ip: "lzf_dec_iter inp ip op out = Some (Inr (ip', op', out')) \<Longrightarrow> ip < ip'"
  by (auto simp: lzf_dec_iter_def Let_def bind_eq_Some_conv split: if_splits option.splits prod.splits)

text \<open>The conversion of the pointer difference to \<^verbatim>\<open>int\<close>.\<close>

definition to_int :: "nat \<Rightarrow> int" where
  "to_int n = (let m = n mod 2 ^ 32 in if m < 2 ^ 31 then int m else int m - 2 ^ 32)"

function lzf_dec_loop :: "bytes \<Rightarrow> nat \<Rightarrow> nat \<Rightarrow> bytes \<Rightarrow> (int \<times> bytes) option" where
  "lzf_dec_loop inp ip op out =
     (case lzf_dec_iter inp ip op out of
        None \<Rightarrow> None
      | Some (Inl e) \<Rightarrow> Some (e, out)
      | Some (Inr (ip', op', out')) \<Rightarrow>
          if ip' < length inp then lzf_dec_loop inp ip' op' out' else Some (to_int op', out'))"
  by pat_completeness auto
termination
  by (relation "measure (\<lambda>(inp, ip, op, out). length inp - ip)") (auto dest!: lzf_dec_iter_ip)

declare lzf_dec_loop.simps [simp del]

definition lzf_decompress :: "bytes \<Rightarrow> bytes \<Rightarrow> (int \<times> bytes) option" where
  "lzf_decompress inp out = lzf_dec_loop inp 0 0 out"

end
