(* ===== verification/Isr_LZF_Format.thy ===== *)
theory Isr_LZF_Format
  imports Isr_LZF
begin

text \<open>
  The compressed format as a list of items (the comment "compressed format" of \<^verbatim>\<open>crypto/lzf.c\<close>), what an
  item list decodes to, and the decompressor proved to parse exactly this format.
\<close>

section \<open>Items\<close>

datatype lzf_item = Lit bytes | Ref nat nat

fun item_bytes :: "lzf_item \<Rightarrow> bytes" where
  "item_bytes (Lit xs) = of_nat (length xs - 1) # xs"
| "item_bytes (Ref off len) =
     (if len - 2 < 7 then [of_nat (off div 256 + (len - 2) * 32), of_nat off]
      else [of_nat (off div 256 + 7 * 32), of_nat (len - 2 - 7), of_nat off])"

fun item_len :: "lzf_item \<Rightarrow> nat" where
  "item_len (Lit xs) = length xs"
| "item_len (Ref off len) = len"

text \<open>An item is valid after \<open>n\<close> decoded bytes.\<close>

fun item_ok :: "nat \<Rightarrow> lzf_item \<Rightarrow> bool" where
  "item_ok n (Lit xs) \<longleftrightarrow> 1 \<le> length xs \<and> length xs \<le> 32"
| "item_ok n (Ref off len) \<longleftrightarrow> off < n \<and> off < 8192 \<and> 3 \<le> len \<and> len \<le> 264"

fun lz_copy :: "bytes \<Rightarrow> nat \<Rightarrow> nat \<Rightarrow> bytes" where
  "lz_copy d off 0 = d"
| "lz_copy d off (Suc n) = lz_copy (d @ [d ! (length d - off - 1)]) off n"

fun item_apply :: "bytes \<Rightarrow> lzf_item \<Rightarrow> bytes" where
  "item_apply d (Lit xs) = d @ xs"
| "item_apply d (Ref off len) = lz_copy d off len"

definition items_bytes :: "lzf_item list \<Rightarrow> bytes" where
  "items_bytes is = concat (map item_bytes is)"

definition items_apply :: "bytes \<Rightarrow> lzf_item list \<Rightarrow> bytes" where
  "items_apply d is = foldl item_apply d is"

fun items_ok :: "nat \<Rightarrow> lzf_item list \<Rightarrow> bool" where
  "items_ok n [] \<longleftrightarrow> True"
| "items_ok n (i # is) \<longleftrightarrow> item_ok n i \<and> items_ok (n + item_len i) is"

lemma length_lz_copy [simp]: "length (lz_copy d off n) = length d + n"
  by (induction n arbitrary: d) simp_all

lemma length_item_apply [simp]: "length (item_apply d i) = length d + item_len i"
  by (cases i) simp_all

lemma items_bytes_simps [simp]:
  "items_bytes [] = []" "items_bytes (i # is) = item_bytes i @ items_bytes is"
  "items_bytes (is @ js) = items_bytes is @ items_bytes js"
  by (simp_all add: items_bytes_def)

lemma items_apply_simps [simp]:
  "items_apply d [] = d" "items_apply d (i # is) = items_apply (item_apply d i) is"
  "items_apply d (is @ js) = items_apply (items_apply d is) js"
  by (simp_all add: items_apply_def)

lemma items_ok_append [simp]:
  "items_ok n (is @ js) \<longleftrightarrow> items_ok n is \<and> items_ok (n + sum_list (map item_len is)) js"
  by (induction "is" arbitrary: n) (simp_all add: add.assoc)

lemma length_items_apply: "length (items_apply d is) = length d + sum_list (map item_len is)"
  by (induction "is" arbitrary: d) simp_all

lemma length_items_apply_mono: "length d \<le> length (items_apply d is)"
  by (simp add: length_items_apply)

lemma item_bytes_nonempty [simp]: "item_bytes i \<noteq> []"
  by (cases i) simp_all

section \<open>Copies\<close>

lemma rd_Some [simp]: "i < length xs \<Longrightarrow> rd xs i = Some (xs ! i)"
  by (simp add: rd_def)

lemma rd_None: "\<not> i < length xs \<Longrightarrow> rd xs i = None"
  by (simp add: rd_def)

lemma wr_Some [simp]: "i < length xs \<Longrightarrow> wr xs i v = Some (xs[i := v])"
  by (simp add: wr_def)

lemma take_update_next: "n < length xs \<Longrightarrow> take (Suc n) (xs[n := v]) = take n xs @ [v]"
  by (simp add: take_Suc_conv_app_nth)

lemma blit_step:
  assumes "op < length out"
  shows "blit (out[op := x]) (Suc op) xs = blit out op (x # xs)"
  using take_update_next [OF assms, of x] by (simp add: blit_def)

lemma lzf_copy_lit_eq:
  assumes "ip + n \<le> length inp" "op + n \<le> length out"
  shows "lzf_copy_lit inp ip out op n = Some (blit out op (take n (drop ip inp)))"
  using assms
proof (induction n arbitrary: ip op out)
  case 0
  then show ?case by (simp add: buf_simps)
next
  case (Suc n)
  have "take (Suc n) (drop ip inp) = inp ! ip # take n (drop (Suc ip) inp)"
    using Suc.prems by (simp add: Cons_nth_drop_Suc [symmetric])
  then show ?case
    using Suc by (simp add: blit_step)
qed

lemma lzf_movsb_eq:
  assumes "op + n \<le> length out" "off < op"
  shows "\<exists>out'. lzf_movsb out op (op - off - 1) n = Some out' \<and> length out' = length out
    \<and> take (op + n) out' = lz_copy (take op out) off n \<and> drop (op + n) out' = drop (op + n) out"
  using assms
proof (induction n arbitrary: op out)
  case (Suc n)
  let ?r = "op - off - 1"
  have r: "?r < length out" "op < length out" "Suc op - off - 1 = ?r + 1"
    using Suc.prems by simp_all
  have t: "take (Suc op) (out[op := out ! ?r]) = take op out @ [take op out ! (length (take op out) - off - 1)]"
    using Suc.prems r by (simp add: take_update_next)
  obtain out' where out': "lzf_movsb (out[op := out ! ?r]) (Suc op) (?r + 1) n = Some out'" "length out' = length out"
    "take (Suc op + n) out' = lz_copy (take op out @ [take op out ! (length (take op out) - off - 1)]) off n"
    "drop (Suc op + n) out' = drop (Suc op + n) out"
    using Suc.IH [of "Suc op" "out[op := out ! ?r]"] Suc.prems unfolding r(3) t by auto
  then show ?case
    using r by simp
qed auto

lemma lzf_movsb_blit:
  assumes "op + n \<le> length out" "off < op"
  shows "lzf_movsb out op (op - off - 1) n = Some (blit out 0 (lz_copy (take op out) off n))"
proof -
  obtain out' where out': "lzf_movsb out op (op - off - 1) n = Some out'" "length out' = length out"
    "take (op + n) out' = lz_copy (take op out) off n" "drop (op + n) out' = drop (op + n) out"
    using lzf_movsb_eq [OF assms] by blast
  have "out' = take (op + n) out' @ drop (op + n) out'"
    by simp
  then show ?thesis
    using out' assms(1) by (simp add: blit_def)
qed

section \<open>One pass of the decompressor\<close>

text \<open>Reading the control bytes of an item back.\<close>

lemma unat_of_nat_byte: "n < 256 \<Longrightarrow> unat (of_nat n :: u8) = n"
  by (simp add: unat_of_nat take_bit_eq_mod)

lemma off_parts:
  "off < 8192 \<Longrightarrow> off div 256 < 32 \<and> unat (of_nat off :: u8) = off mod 256 \<and> uint (of_nat off :: u8) = int (off mod 256)"
proof -
  assume "off < 8192"
  moreover have u: "unat (of_nat off :: u8) = off mod 256"
    by (simp add: unat_of_nat take_bit_eq_mod)
  moreover have "uint (of_nat off :: u8) = int (off mod 256)"
    by (metis u of_nat_unat)
  ultimately show ?thesis
    by (simp add: less_mult_imp_div_less)
qed

lemma ctrl_parts:
  assumes "a < 32" "b < (8::nat)" "unat c = a + b * 32"
  shows "unat c mod 32 = a" "unat c div 2 ^ 5 = b"
  using assms by simp_all

lemma blit_prefix: "op + length xs \<le> length out \<Longrightarrow> blit out op xs = blit out 0 (take op out @ xs)"
  by (simp add: blit_def)

lemma blit_blit:
  "length xs \<le> length ys \<Longrightarrow> length ys \<le> length out \<Longrightarrow> blit (blit out 0 xs) 0 ys = blit out 0 ys"
  by (simp add: blit_def)

lemma dec_iter_Lit:
  assumes "item_ok op (Lit xs)" "drop ip inp = item_bytes (Lit xs) @ rest" "op + length xs \<le> length out"
  shows "lzf_dec_iter inp ip op out =
    Some (Inr (ip + length (item_bytes (Lit xs)), op + length xs, blit out 0 (take op out @ xs)))"
proof -
  have l: "length inp = ip + Suc (length xs) + length rest"
    using arg_cong [OF assms(2), of length] assms(1) by (simp split: nat_diff_split)
  have c: "inp ! ip = of_nat (length xs - 1)" "drop (Suc ip) inp = xs @ rest"
    using assms(2) l by (auto simp: Cons_nth_drop_Suc [symmetric])
  have "unat (inp ! ip) = length xs - 1"
    unfolding c(1) using assms(1) by (intro unat_of_nat_byte) auto
  moreover have "lzf_copy_lit inp (Suc ip) out op (length xs) = Some (blit out 0 (take op out @ xs))"
    using lzf_copy_lit_eq [of "Suc ip" "length xs" inp op out] l assms(3)
    by (simp add: c(2) blit_prefix [symmetric])
  moreover obtain n where "length xs = Suc n" "n < 32"
    using assms(1) by (cases "length xs") auto
  ultimately show ?thesis
    using assms(3) l by (simp add: lzf_dec_iter_def Let_def del: lzf_copy_lit.simps)
qed

lemma dec_iter_Ref:
  assumes "item_ok op (Ref off len)" "drop ip inp = item_bytes (Ref off len) @ rest" "op + len \<le> length out"
  shows "lzf_dec_iter inp ip op out =
    Some (Inr (ip + length (item_bytes (Ref off len)), op + len, blit out 0 (lz_copy (take op out) off len)))"
proof -
  have ok: "off < op" "off < 8192" "3 \<le> len" "len \<le> 264"
    using assms(1) by simp_all
  note off = off_parts [OF ok(2)]
  have ref: "nat (int op - int (off div 256 * 256) - 1 - int (off mod 256)) = op - off - 1"
    "\<not> int op - int (off div 256 * 256) - 1 - int (off mod 256) < 0"
    using ok(1) div_mult_mod_eq [of off 256] by linarith+
  have "len - 2 + 2 = len"
    using ok(3) by simp
  with lzf_movsb_blit [OF assms(3) ok(1)]
  have mv: "lzf_movsb out op (op - off - 1) (len - 2 + 2) = Some (blit out 0 (lz_copy (take op out) off len))"
    by (simp only:)
  show ?thesis
  proof (cases "len - 2 < 7")
    case True
    let ?c = "of_nat (off div 256 + (len - 2) * 32) :: u8"
    have l: "length inp = ip + 2 + length rest"
      using arg_cong [OF assms(2), of length] True by (simp split: nat_diff_split)
    have c: "inp ! ip = ?c" "inp ! Suc ip = of_nat off"
      using assms(2) l True by (auto simp: Cons_nth_drop_Suc [symmetric])
    have u: "unat ?c = off div 256 + (len - 2) * 32"
      using off True by (intro unat_of_nat_byte) linarith
    have p: "unat ?c mod 32 = off div 256" "unat ?c div 2 ^ 5 = len - 2" "\<not> unat ?c < 2 ^ 5" "len - 2 \<noteq> 7"
      using ctrl_parts [OF _ _ u] off True ok(3) u by simp_all
    show ?thesis
      using p ref mv assms(3) ok l off True unfolding lzf_dec_iter_def by (simp add: c Let_def del: unsigned_of_nat lzf_movsb.simps add_2_eq_Suc')
  next
    case False
    let ?c = "of_nat (off div 256 + 7 * 32) :: u8" and ?l = "of_nat (len - 2 - 7) :: u8"
    have l: "length inp = ip + 3 + length rest"
      using arg_cong [OF assms(2), of length] False by (simp split: nat_diff_split)
    have c: "inp ! ip = ?c" "inp ! Suc ip = ?l" "inp ! Suc (Suc ip) = of_nat off"
      using assms(2) l False by (auto simp: Cons_nth_drop_Suc [symmetric])
    have u: "unat ?c = off div 256 + 7 * 32" "unat ?l = len - 2 - 7"
      using off ok(4) by (intro unat_of_nat_byte; linarith)+
    have p: "unat ?c mod 32 = off div 256" "unat ?c div 2 ^ 5 = 7" "\<not> unat ?c < 2 ^ 5" "7 + unat ?l = len - 2"
      using ctrl_parts [OF _ _ u(1)] off False u by simp_all
    show ?thesis
      using p ref mv assms(3) ok l off False unfolding lzf_dec_iter_def by (simp add: c Let_def del: unsigned_of_nat lzf_movsb.simps add_2_eq_Suc')
  qed
qed

lemma dec_iter_item:
  assumes "item_ok op i" "drop ip inp = item_bytes i @ rest" "op + item_len i \<le> length out"
  shows "lzf_dec_iter inp ip op out =
    Some (Inr (ip + length (item_bytes i), op + item_len i, blit out 0 (item_apply (take op out) i)))"
proof (cases i)
  case (Lit xs)
  with dec_iter_Lit assms show ?thesis by simp
next
  case (Ref off len)
  with dec_iter_Ref assms show ?thesis by (metis item_apply.simps(2) item_len.simps(2))
qed

section \<open>The decompressor decodes item lists\<close>

lemma lzf_dec_loop_items:
  assumes "is \<noteq> []" "items_ok op is" "drop ip inp = items_bytes is" "ip \<le> length inp"
    and "length (items_apply (take op out) is) \<le> length out" "op \<le> length out"
  shows "lzf_dec_loop inp ip op out =
    Some (to_int (length (items_apply (take op out) is)), blit out 0 (items_apply (take op out) is))"
  using assms
proof (induction "is" arbitrary: ip op out)
  case (Cons i "is")
  let ?d = "item_apply (take op out) i" and ?ip = "ip + length (item_bytes i)"
  have ld: "length ?d = op + item_len i"
    using Cons.prems by simp
  have le: "length ?d \<le> length out"
    using length_items_apply_mono [of ?d "is"] Cons.prems by simp
  have l: "length inp = ?ip + length (items_bytes is)"
    using arg_cong [OF Cons.prems(3), of length] Cons.prems(4) by simp
  have rest: "drop ?ip inp = items_bytes is"
    using Cons.prems(3) by (metis append_eq_conv_conj drop_drop add.commute items_bytes_simps(2))
  have it: "lzf_dec_iter inp ip op out = Some (Inr (?ip, op + item_len i, blit out 0 ?d))"
    using Cons.prems le ld by (intro dec_iter_item [where rest = "items_bytes is"]) simp_all
  have tk: "take (op + item_len i) (blit out 0 ?d) = ?d"
    using ld by (simp add: blit_def)
  show ?case
  proof (cases "is")
    case Nil
    then show ?thesis
      using it l ld by (subst lzf_dec_loop.simps) simp
  next
    case (Cons j js)
    then have "?ip < length inp"
      using l by simp
    moreover have "lzf_dec_loop inp ?ip (op + item_len i) (blit out 0 ?d) =
        Some (to_int (length (items_apply ?d is)), blit (blit out 0 ?d) 0 (items_apply ?d is))"
      using Cons.IH [of "op + item_len i" ?ip "blit out 0 ?d"] Cons.prems rest l le ld tk Cons by simp
    ultimately show ?thesis
      using it le Cons.prems length_items_apply_mono [of ?d "is"]
      by (subst lzf_dec_loop.simps) (simp add: blit_blit)
  qed
qed simp

lemma lzf_decompress_items:
  assumes "is \<noteq> []" "items_ok 0 is" "length (items_apply [] is) \<le> length out" "length out < 2 ^ 31"
  shows "lzf_decompress (items_bytes is) out =
    Some (int (length (items_apply [] is)), blit out 0 (items_apply [] is))"
  using lzf_dec_loop_items [of "is" 0 0 "items_bytes is" out] assms
  by (simp add: lzf_decompress_def to_int_def)

section \<open>Everything the decompressor accepts is an item list\<close>

lemma dec_iter_Lit_conv:
  assumes "ip < length inp" "unat (inp ! ip) < 32" "op + Suc (unat (inp ! ip)) \<le> length out"
    and "Suc ip + Suc (unat (inp ! ip)) \<le> length inp"
  shows "\<exists>i rest. item_ok op i \<and> drop ip inp = item_bytes i @ rest \<and> op + item_len i \<le> length out"
proof (intro exI conjI)
  let ?n = "Suc (unat (inp ! ip))"
  let ?i = "Lit (take ?n (drop (Suc ip) inp))"
  have n: "length (take ?n (drop (Suc ip) inp)) = ?n"
    using assms(4) by simp
  show "item_ok op ?i" "op + item_len ?i \<le> length out"
    using assms(2,3) n by simp_all
  have "item_bytes ?i = inp ! ip # take ?n (drop (Suc ip) inp)"
    using n by (simp only: item_bytes.simps) simp
  then show "drop ip inp = item_bytes ?i @ drop ?n (drop (Suc ip) inp)"
    using assms(1) by (simp only: append_Cons append_take_drop_id Cons_nth_drop_Suc)
qed

lemma ref_off:
  assumes "a < 32" "\<not> int op - int (a * 256) - 1 - int (unat (x::u8)) < 0"
  shows "(a * 256 + unat x) div 256 = a" "of_nat (a * 256 + unat x) = x" "a * 256 + unat x < op" "a * 256 + unat x < 8192"
proof -
  have x: "unat x < 256"
    using unsigned_less [of x, where 'a = nat] by simp
  then show "(a * 256 + unat x) div 256 = a"
    by simp
  have "word_of_nat (a * 256) = (0 :: u8)"
    by (simp only: word_of_nat_eq_0_iff) simp
  then show "of_nat (a * 256 + unat x) = x"
    by simp
  show "a * 256 + unat x < op"
    using assms(2) by linarith
  show "a * 256 + unat x < 8192"
    using assms(1) x by linarith
qed

lemma dec_iter_Ref_short_conv:
  assumes "Suc ip < length inp" "32 \<le> unat (inp ! ip)" "unat (inp ! ip) div 32 \<noteq> 7"
    and "\<not> int op - int (unat (inp ! ip) mod 32 * 256) - 1 - int (unat (inp ! Suc ip)) < 0"
    and "op + (unat (inp ! ip) div 32 + 2) \<le> length out"
  shows "\<exists>i rest. item_ok op i \<and> drop ip inp = item_bytes i @ rest \<and> op + item_len i \<le> length out"
proof (intro exI conjI)
  let ?c = "unat (inp ! ip)"
  let ?off = "?c mod 32 * 256 + unat (inp ! Suc ip)" and ?len = "?c div 32 + 2"
  note off = ref_off [OF _ assms(4), simplified]
  have c: "?c < 256" "0 < ?c div 32"
    using unsigned_less [of "inp ! ip", where 'a = nat] assms(2) by (auto simp: div_greater_zero_iff)
  then have b: "?c div 32 < 7"
    using assms(3) less_mult_imp_div_less [of ?c 8 32] by linarith
  show "item_ok op (Ref ?off ?len)" "op + item_len (Ref ?off ?len) \<le> length out"
    using assms(5) off b c by auto
  have "?off div 256 + (?len - 2) * 32 = ?c"
    using off(1) by simp
  then have "of_nat (?off div 256 + (?len - 2) * 32) = inp ! ip"
    by (simp only:) simp
  then have "item_bytes (Ref ?off ?len) = [inp ! ip, inp ! Suc ip]"
    using b off(2) by (simp only: item_bytes.simps) simp
  then show "drop ip inp = item_bytes (Ref ?off ?len) @ drop (ip + 2) inp"
    using assms(1) by (simp add: Cons_nth_drop_Suc)
qed

lemma dec_iter_Ref_long_conv:
  assumes "Suc (Suc ip) < length inp" "unat (inp ! ip) div 32 = 7"
    and "\<not> int op - int (unat (inp ! ip) mod 32 * 256) - 1 - int (unat (inp ! Suc (Suc ip))) < 0"
    and "op + (7 + unat (inp ! Suc ip) + 2) \<le> length out"
  shows "\<exists>i rest. item_ok op i \<and> drop ip inp = item_bytes i @ rest \<and> op + item_len i \<le> length out"
proof (intro exI conjI)
  let ?c = "unat (inp ! ip)"
  let ?off = "?c mod 32 * 256 + unat (inp ! Suc (Suc ip))" and ?len = "7 + unat (inp ! Suc ip) + 2"
  note off = ref_off [OF _ assms(3), simplified]
  have l: "unat (inp ! Suc ip) < 256"
    using unsigned_less [of "inp ! Suc ip", where 'a = nat] by simp
  show "item_ok op (Ref ?off ?len)" "op + item_len (Ref ?off ?len) \<le> length out"
    using assms(4) off l by auto
  have "?off div 256 + 7 * 32 = ?c"
    using off(1) assms(2) div_mult_mod_eq [of ?c 32] by simp
  then have "of_nat (?off div 256 + 7 * 32) = inp ! ip"
    by (simp only:) simp
  then have "item_bytes (Ref ?off ?len) = [inp ! ip, inp ! Suc ip, inp ! Suc (Suc ip)]"
    using off(2) by (simp only: item_bytes.simps) simp
  then show "drop ip inp = item_bytes (Ref ?off ?len) @ drop (ip + 3) inp"
    using assms(1) by (simp add: Cons_nth_drop_Suc numeral_3_eq_3)
qed

lemma dec_iter_total:
  assumes "ip < length inp" "op \<le> length out"
  shows "lzf_dec_iter inp ip op out \<in> {Some (Inl (- E2BIG)), Some (Inl (- EINVAL))}
    \<or> (\<exists>i rest. item_ok op i \<and> drop ip inp = item_bytes i @ rest \<and> op + item_len i \<le> length out)"
    (is "_ \<or> (\<exists>i rest. ?P i rest)")
proof -
  let ?c = "unat (inp ! ip)"
  consider "?c < 32" | "32 \<le> ?c" "?c div 32 \<noteq> 7" | "32 \<le> ?c" "?c div 32 = 7"
    by linarith
  then show ?thesis
  proof (cases, goal_cases)
    case 1
    then have "op + Suc ?c > length out \<or> Suc ip + Suc ?c > length inp" if "\<nexists>i rest. ?P i rest"
      using dec_iter_Lit_conv [OF assms(1), of op out] that by (meson not_le)
    with 1 assms(1) show ?case
      by (auto simp: lzf_dec_iter_def Let_def)
  next
    case 2
    let ?r = "int op - int (?c mod 32 * 256) - 1 - int (unat (inp ! Suc ip))"
    from 2 have "\<not> Suc ip < length inp \<or> ?r < 0 \<or> op + (?c div 32 + 2) > length out" if "\<nexists>i rest. ?P i rest"
      using dec_iter_Ref_short_conv [of ip inp op out] that by (meson not_le)
    with 2 assms(1) show ?case
      by (auto simp: lzf_dec_iter_def Let_def)
  next
    case 3
    let ?r = "int op - int (?c mod 32 * 256) - 1 - int (unat (inp ! Suc (Suc ip)))"
    from 3 have "\<not> Suc (Suc ip) < length inp \<or> ?r < 0 \<or> op + (7 + unat (inp ! Suc ip) + 2) > length out"
      if "\<nexists>i rest. ?P i rest"
      using dec_iter_Ref_long_conv [of ip inp op out] that by (meson not_le)
    with 3 assms(1) show ?case
      by (cases "Suc ip < length inp") (auto simp: lzf_dec_iter_def Let_def)
  qed
qed

text \<open>The decompressor returns, and either reports an error or has decoded an item list.\<close>

lemma lzf_dec_loop_total:
  assumes "ip < length inp" "op \<le> length out"
  shows "\<exists>r out'. lzf_dec_loop inp ip op out = Some (r, out') \<and> length out' = length out
    \<and> (r \<in> {- E2BIG, - EINVAL} \<or> (\<exists>is. is \<noteq> [] \<and> items_ok op is \<and> drop ip inp = items_bytes is
         \<and> length (items_apply (take op out) is) \<le> length out))"
  using assms
proof (induction inp ip op out rule: lzf_dec_loop.induct)
  case (1 inp ip op out)
  consider "lzf_dec_iter inp ip op out \<in> {Some (Inl (- E2BIG)), Some (Inl (- EINVAL))}"
    | i rest where "item_ok op i" "drop ip inp = item_bytes i @ rest" "op + item_len i \<le> length out"
    using dec_iter_total [OF 1(2,3)] by blast
  then show ?case
  proof cases
    case 1
    then show ?thesis
      by (subst lzf_dec_loop.simps) auto
  next
    case (2 i rest)
    let ?ip = "ip + length (item_bytes i)" and ?op = "op + item_len i"
    let ?d = "item_apply (take op out) i"
    let ?out = "blit out 0 ?d"
    have it: "lzf_dec_iter inp ip op out = Some (Inr (?ip, ?op, ?out))"
      using dec_iter_item [OF 2] .
    have dr: "drop ?ip inp = rest"
      using arg_cong [OF 2(2), of "drop (length (item_bytes i))"] by (simp add: add.commute)
    have ld: "length ?d = ?op"
      using 1(3) by simp
    then have "take ?op ?out = ?d" "length ?out = length out"
      using 2(3) by (simp_all add: blit_def)
    note rest = dr this(1) ld this(2)
    show ?thesis
    proof (cases "?ip < length inp")
      case True
      have "\<exists>r out'. lzf_dec_loop inp ?ip ?op ?out = Some (r, out') \<and> length out' = length out
        \<and> (r \<in> {- E2BIG, - EINVAL} \<or> (\<exists>is. is \<noteq> [] \<and> items_ok ?op is \<and> rest = items_bytes is
             \<and> length (items_apply ?d is) \<le> length out))"
        using 1(1) [OF it refl refl refl True] 2(3) rest True by simp
      moreover have "lzf_dec_loop inp ip op out = lzf_dec_loop inp ?ip ?op ?out"
        using it True by (subst lzf_dec_loop.simps) simp
      moreover have "items_ok op (i # is)" "drop ip inp = items_bytes (i # is)" if "items_ok ?op is" "rest = items_bytes is" for "is"
        using 2 that by simp_all
      moreover have "items_apply (take op out) (i # is) = items_apply ?d is" "i # is \<noteq> []" for "is"
        by simp_all
      ultimately show ?thesis
        by metis
    next
      case False
      then have "lzf_dec_loop inp ip op out = Some (to_int ?op, ?out)"
        using it by (subst lzf_dec_loop.simps) simp
      moreover have "rest = []"
        using rest(1) False by simp
      then have "items_ok op [i]" "drop ip inp = items_bytes [i]" "length (items_apply (take op out) [i]) \<le> length out"
        using 2 rest(3) by simp_all
      ultimately show ?thesis
        using rest(4) by blast
    qed
  qed
qed

lemma lzf_decompress_total:
  assumes "inp \<noteq> []"
  shows "\<exists>r out'. lzf_decompress inp out = Some (r, out') \<and> length out' = length out
    \<and> (r \<in> {- E2BIG, - EINVAL} \<or> (\<exists>is. is \<noteq> [] \<and> items_ok 0 is \<and> inp = items_bytes is
         \<and> length (items_apply [] is) \<le> length out))"
  using lzf_dec_loop_total [of 0 inp 0 out] assms by (simp add: lzf_decompress_def)

end
