(* ===== verification/Isr_LZF_Correct.thy ===== *)
theory Isr_LZF_Correct
  imports Isr_LZF_Format
begin

text \<open>
  The compressor of \<^verbatim>\<open>crypto/lzf.c\<close>: for every input of at least two bytes, every output buffer and
  every initial contents of the hash table it stays inside its buffers, returns, and, unless it gives
  up, has written an item list that decodes to the input.
\<close>

section \<open>Matches\<close>

definition agree :: "bytes \<Rightarrow> nat \<Rightarrow> nat \<Rightarrow> nat \<Rightarrow> bool" where
  "agree inp ip r n \<longleftrightarrow> (\<forall>j < n. inp ! (r + j) = inp ! (ip + j))"

lemma agree_Suc: "agree inp ip r (Suc n) \<longleftrightarrow> agree inp ip r n \<and> inp ! (r + n) = inp ! (ip + n)"
  by (auto simp: agree_def less_Suc_eq)

lemma lzf_is_match_total:
  assumes "ip + 2 < length inp"
  obtains "lzf_is_match inp ip ref = Some False"
  | r where "lzf_is_match inp ip ref = Some True" "ref = Some (int r)" "0 < r" "r < ip" "ip - r - 1 < 8192"
    "ip + 4 < length inp" "agree inp ip r 3"
proof (cases "lzf_is_match inp ip ref = Some False")
  case False
  then obtain x where x: "ref = Some x" "x < int ip" "int ip - x - 1 < MAX_OFF" "ip + 4 < length inp" "x > 0"
    by (auto simp: lzf_is_match_def split: option.splits if_splits)
  define r where "r = nat x"
  have r: "x = int r" "0 < r" "r < ip" "ip - r - 1 < 8192" "nat x = r"
    using x by (simp_all add: r_def MAX_OFF_def)
  have m: "lzf_is_match inp ip ref = Some (inp ! r = inp ! ip \<and> inp ! (r + 1) = inp ! (ip + 1) \<and> inp ! (r + 2) = inp ! (ip + 2))"
    using x r(3,5) by (auto simp: lzf_is_match_def)
  then have "agree inp ip r 3"
    using False by (auto simp: numeral_3_eq_3 agree_def less_Suc_eq)
  then show ?thesis
    using that(2) [of r] False m x r by auto
qed (rule that(1))

lemma lzf_unrolled_total:
  assumes "agree inp ip r (Suc len)" "ip + len + k < length inp" "r < ip"
  shows "\<exists>b l. lzf_unrolled inp ip r k len = Some (b, l) \<and> l \<le> len + k
    \<and> (if b then len < l \<and> agree inp ip r l else l = len + k \<and> agree inp ip r (Suc l))"
  using assms
proof (induction k arbitrary: len)
  case (Suc k)
  show ?case
  proof (cases "inp ! (r + Suc len) = inp ! (ip + Suc len)")
    case True
    then have "agree inp ip r (Suc (Suc len))"
      using Suc.prems by (simp add: agree_Suc)
    with Suc.IH [of "Suc len"] Suc.prems obtain b l where
      "lzf_unrolled inp ip r k (Suc len) = Some (b, l)" "l \<le> Suc len + k"
      "if b then Suc len < l \<and> agree inp ip r l else l = Suc len + k \<and> agree inp ip r (Suc l)"
      by fastforce
    then show ?thesis
      using Suc.prems True by (auto split: if_splits)
  next
    case False
    then have "lzf_unrolled inp ip r (Suc k) len = Some (True, Suc len)"
      using Suc.prems by simp
    then show ?thesis
      using Suc.prems by auto
  qed
qed auto

lemma lzf_extend_total:
  assumes "agree inp ip r (Suc len)" "ip + maxlen \<le> length inp" "r < ip"
  shows "\<exists>l. lzf_extend inp ip r maxlen len = Some l \<and> len < l \<and> l \<le> max maxlen (Suc len) \<and> agree inp ip r l"
  using assms
proof (induction inp ip r maxlen len rule: lzf_extend.induct)
  case (1 inp ip r maxlen len)
  show ?case
  proof (cases "Suc len < maxlen \<and> inp ! (r + Suc len) = inp ! (ip + Suc len)")
    case True
    then have ag: "agree inp ip r (Suc (Suc len))"
      using 1 by (simp add: agree_Suc)
    have step: "lzf_extend inp ip r maxlen len = lzf_extend inp ip r maxlen (Suc len)"
      using True 1 by (subst lzf_extend.simps) simp
    show ?thesis
      unfolding step using 1(1) [OF refl] True 1(2,3,4) ag by fastforce
  next
    case False
    then show ?thesis
      using 1(2,3,4) by (subst lzf_extend.simps) auto
  qed
qed

lemma lzf_match_len_total:
  assumes "agree inp ip r 3" "ip + 4 < length inp" "r < ip"
  shows "\<exists>len. lzf_match_len inp ip r = Some len \<and> 3 \<le> len \<and> len \<le> 264 \<and> ip + len \<le> length inp \<and> agree inp ip r len"
proof -
  define m where "m = min 264 (length inp - ip - 2)"
  have m: "(if length inp - ip - 2 > MAX_REF then MAX_REF else length inp - ip - 2) = m"
    "3 \<le> m" "m \<le> 264" "ip + m + 2 \<le> length inp"
    using assms(2) by (simp_all add: m_def MAX_REF_def)
  have ml: "lzf_match_len inp ip r =
      (if m > 16 then do {
         (brk, len) \<leftarrow> lzf_unrolled inp ip r 16 2;
         if brk then Some len else lzf_extend inp ip r m len
       } else lzf_extend inp ip r m 2)"
    unfolding lzf_match_len_def Let_def m(1) ..
  have a: "agree inp ip r (Suc 2)"
    using assms(1) by simp
  show ?thesis
  proof (cases "m > 16")
    case False
    then show ?thesis
      using lzf_extend_total [OF a _ assms(3), of m] m(2-4) by (auto simp: ml)
  next
    case True
    then obtain b l where u: "lzf_unrolled inp ip r 16 2 = Some (b, l)" "l \<le> 18"
      "if b then 2 < l \<and> agree inp ip r l else l = 18 \<and> agree inp ip r (Suc l)"
      using lzf_unrolled_total [OF a _ assms(3), of 16] m(4) by (auto split: if_splits)
    have e: "lzf_match_len inp ip r = (if b then Some l else lzf_extend inp ip r m l)"
      using True u(1) by (simp add: ml)
    show ?thesis
    proof (cases b)
      case True
      then show ?thesis
        using e u m(2-4) \<open>m > 16\<close> by auto
    next
      case False
      then show ?thesis
        using e u m(2-4) \<open>m > 16\<close> lzf_extend_total [of inp ip r l m, OF _ _ assms(3)]
        by (auto simp: max_def split: if_splits)
    qed
  qed
qed

lemma lz_copy_agree:
  assumes "agree inp ip r n" "r < ip" "ip + n \<le> length inp"
  shows "lz_copy (take ip inp) (ip - r - 1) n = take (ip + n) inp"
  using assms
proof (induction n arbitrary: ip r)
  case (Suc n)
  have "inp ! r = inp ! ip" "agree inp (Suc ip) (Suc r) n"
    using Suc.prems(1) by (auto simp: agree_def)
  then have "lz_copy (take (Suc ip) inp) (Suc ip - Suc r - 1) n = take (Suc ip + n) inp"
    using Suc.IH [of "Suc ip" "Suc r"] Suc.prems by simp
  moreover have "take ip inp @ [take ip inp ! (length (take ip inp) - (ip - r - 1) - 1)] = take (Suc ip) inp"
    using Suc.prems \<open>inp ! r = inp ! ip\<close> by (simp add: take_Suc_conv_app_nth)
  ultimately show ?case
    by simp
qed simp

section \<open>The invariant of the main loop\<close>

text \<open>
  The items \<open>is\<close> are complete in the output, followed by the place of a run header and the pending
  literals \<open>lits\<close>; together they decode to the input consumed so far.  The size of the items exceeds
  what they decode to by at most one byte in 32.
\<close>

definition lzf_run :: "bytes \<Rightarrow> lzf_st \<Rightarrow> lzf_item list \<Rightarrow> bytes \<Rightarrow> bool" where
  "lzf_run inp st is lits \<longleftrightarrow>
     z_lit st = length lits \<and> length lits < 32
   \<and> z_op st = length (items_bytes is) + 1 + length lits
   \<and> (if lits = [] then z_op st \<le> length (z_out st) + 1 else z_op st \<le> length (z_out st))
   \<and> take (length (items_bytes is)) (z_out st) = items_bytes is
   \<and> take (length lits) (drop (length (items_bytes is) + 1) (z_out st)) = lits
   \<and> items_ok 0 is \<and> items_apply [] is @ lits = take (z_ip st) inp \<and> z_ip st \<le> length inp
   \<and> length (items_bytes is) \<le> length (items_apply [] is) + length (items_apply [] is) div 32"

lemma lzf_run_len:
  assumes "lzf_run inp st is lits"
  shows "length (items_apply [] is) + length lits = z_ip st"
proof -
  have "length (items_apply [] is @ lits) = length (take (z_ip st) inp)" "z_ip st \<le> length inp"
    using assms by (simp_all only: lzf_run_def)
  then show ?thesis by simp
qed

lemma lzf_run_cost:
  assumes "lzf_run inp st is lits"
  shows "z_op st \<le> z_ip st + z_ip st div 32 + 1"
proof -
  have "length (items_apply [] is) div 32 \<le> z_ip st div 32"
    using lzf_run_len [OF assms] by (intro div_le_mono) simp
  then show ?thesis
    using assms lzf_run_len [OF assms] unfolding lzf_run_def by linarith
qed

lemma items_ok_snoc: "items_ok 0 is \<Longrightarrow> item_ok (length (items_apply [] is)) i \<Longrightarrow> items_ok 0 (is @ [i])"
  by (simp add: length_items_apply)

text \<open>Writing the header of the pending run completes a literal item.\<close>

lemma take_header:
  assumes "take n out = B" "take (length lits) (drop (n + 1) out) = lits" "n + 1 + length lits \<le> length out"
  shows "take (n + 1 + length lits) (out[n := h]) = B @ h # lits"
proof -
  have "n < length out"
    using assms(3) by simp
  then have "out[n := h] = B @ h # drop (n + 1) out"
    using assms(1) by (simp add: upd_conv_take_nth_drop)
  moreover have "length B = n"
    using assms(1,3) by auto
  ultimately show ?thesis
    using assms(2) by simp
qed

lemma lit_header: "of_nat (length lits) - 1 = (of_nat (length lits - 1) :: u8)" if "lits \<noteq> []" for lits :: bytes
  using that by (cases lits) simp_all

lemma end_run_lits:
  assumes "lzf_run inp st is lits" "lits \<noteq> []"
  shows "lzf_end_run (z_op st) (z_lit st) (z_out st) =
      Some (z_op st, (z_out st)[length (items_bytes is) := of_nat (length lits - 1)])"
    and "take (z_op st) ((z_out st)[length (items_bytes is) := of_nat (length lits - 1)]) = items_bytes (is @ [Lit lits])"
    and "z_op st = length (items_bytes (is @ [Lit lits]))"
    and "items_ok 0 (is @ [Lit lits])" "items_apply [] (is @ [Lit lits]) = take (z_ip st) inp"
proof -
  note r = assms(1) [unfolded lzf_run_def]
  have op: "z_op st - z_lit st - 1 = length (items_bytes is)" "length (items_bytes is) < length (z_out st)" "z_lit st \<noteq> 0"
    using r assms(2) by auto
  show "lzf_end_run (z_op st) (z_lit st) (z_out st) =
      Some (z_op st, (z_out st)[length (items_bytes is) := of_nat (length lits - 1)])"
    unfolding lzf_end_run_def op(1) using r op lit_header [OF assms(2)] by simp
  show "take (z_op st) ((z_out st)[length (items_bytes is) := of_nat (length lits - 1)]) = items_bytes (is @ [Lit lits])"
    using take_header [of "length (items_bytes is)" "z_out st" "items_bytes is" lits] r assms(2) by simp
  show "z_op st = length (items_bytes (is @ [Lit lits]))" "items_apply [] (is @ [Lit lits]) = take (z_ip st) inp"
    using r by simp_all
  show "items_ok 0 (is @ [Lit lits])"
    using r assms(2) by (intro items_ok_snoc) (auto simp: Suc_le_eq)
qed

lemma end_run_total:
  assumes "lzf_run inp st is lits" "z_op st \<le> length (z_out st)"
  shows "\<exists>op out js. lzf_end_run (z_op st) (z_lit st) (z_out st) = Some (op, out) \<and> length out = length (z_out st)
    \<and> op = (if z_lit st = 0 then z_op st - 1 else z_op st) \<and> op = length (items_bytes js)
    \<and> take op out = items_bytes js \<and> items_ok 0 js \<and> items_apply [] js = take (z_ip st) inp
    \<and> length (items_bytes js) \<le> z_ip st + z_ip st div 32 + (if z_lit st = 0 then 0 else 1)"
proof (cases "lits = []")
  case False
  obtain js out where "lzf_end_run (z_op st) (z_lit st) (z_out st) = Some (z_op st, out)"
    "take (z_op st) out = items_bytes js" "z_op st = length (items_bytes js)" "items_ok 0 js"
    "items_apply [] js = take (z_ip st) inp" "length out = length (z_out st)"
    using end_run_lits [OF assms(1) False] by (metis length_list_update)
  moreover have "z_lit st \<noteq> 0"
    using assms(1) False by (simp add: lzf_run_def)
  ultimately show ?thesis
    using lzf_run_cost [OF assms(1)] by auto
next
  case True
  note r = assms(1) [unfolded lzf_run_def]
  have "lzf_end_run (z_op st) (z_lit st) (z_out st) = Some (z_op st - 1, (z_out st)[z_op st - 1 := - 1])"
    using r True assms(2) by (simp add: lzf_end_run_def)
  moreover have "z_op st - 1 = length (items_bytes is)" "z_lit st = 0" "items_apply [] is = take (z_ip st) inp"
    "length (items_apply [] is) = z_ip st"
    using r True by auto
  ultimately show ?thesis
    using r by auto
qed

lemma put_lit_total:
  assumes "lzf_run inp st is lits" "z_ip st < length inp" "z_op st < length (z_out st)"
  shows "\<exists>st' js ms. lzf_put_lit inp st = Some st' \<and> lzf_run inp st' js ms \<and> z_ip st' = Suc (z_ip st)
    \<and> length (z_out st') = length (z_out st) \<and> z_op st' = z_op st + (if z_lit st = 31 then 2 else 1)
    \<and> z_lit st' = (if z_lit st = 31 then 0 else z_lit st + 1)"
proof -
  note r = assms(1) [unfolded lzf_run_def]
  let ?b = "inp ! z_ip st" and ?n = "length (items_bytes is)"
  let ?out = "(z_out st)[z_op st := ?b]" and ?lits = "lits @ [inp ! z_ip st]"
  have op: "z_op st = Suc (?n + length lits)"
    using r by simp
  have pre: "take ?n ?out = items_bytes is" "take (length ?lits) (drop (?n + 1) ?out) = ?lits"
    "items_apply [] is @ ?lits = take (Suc (z_ip st)) inp"
    "length (items_apply [] is) + length lits = z_ip st"
  proof -
    show "take ?n ?out = items_bytes is"
      using r op by simp
    have "drop (?n + 1) ?out = (drop (?n + 1) (z_out st))[length lits := ?b]"
      using op by (simp add: drop_update_swap)
    then show "take (length ?lits) (drop (?n + 1) ?out) = ?lits"
      using take_update_next [of "length lits" "drop (?n + 1) (z_out st)" ?b] r op assms(3) by simp
    show "items_apply [] is @ ?lits = take (Suc (z_ip st)) inp"
      using r assms(2) by (simp add: take_Suc_conv_app_nth)
    show "length (items_apply [] is) + length lits = z_ip st"
      by (rule lzf_run_len [OF assms(1)])
  qed
  let ?st1 = "st\<lparr>z_lit := Suc (z_lit st), z_ip := Suc (z_ip st), z_op := Suc (z_op st), z_out := ?out\<rparr>"
  show ?thesis
  proof (cases "z_lit st = 31")
    case False
    then have "lzf_put_lit inp st = Some ?st1"
      using assms by (simp add: lzf_put_lit_def MAX_LIT_def)
    moreover have "lzf_run inp ?st1 is ?lits"
      using r False pre op assms(2,3) by (simp add: lzf_run_def)
    ultimately show ?thesis
      using False by fastforce
  next
    case True
    let ?st2 = "st\<lparr>z_lit := 0, z_ip := Suc (z_ip st), z_op := Suc (Suc (z_op st)), z_out := ?out[?n := 31]\<rparr>"
    have l: "length ?lits = 32" "length lits = 31"
      using True r by simp_all
    have "lzf_put_lit inp st = Some ?st2"
      using assms True op l by (simp add: lzf_put_lit_def MAX_LIT_def)
    moreover have "item_bytes (Lit ?lits) = 31 # ?lits" "?n + 1 + length ?lits = ?n + 33"
      using l(1) by (simp_all only: item_bytes.simps) simp_all
    then have "take (?n + 33) (?out[?n := 31]) = items_bytes (is @ [Lit ?lits])"
      using take_header [OF pre(1,2), of 31] l(2) op assms(3) by (simp del: item_bytes.simps add: add.commute)
    moreover have "items_ok 0 (is @ [Lit ?lits])"
      using r l by (intro items_ok_snoc) simp_all
    moreover have "32 + ?n \<le> z_ip st + Suc (z_ip st) div 32"
    proof -
      have "Suc (z_ip st) = length (items_apply [] is) + 32"
        using pre(4) l by simp
      then have "Suc (z_ip st) div 32 = length (items_apply [] is) div 32 + 1"
        by simp
      then show ?thesis
        using r pre(4) l by linarith
    qed
    ultimately have "lzf_run inp ?st2 (is @ [Lit ?lits]) []"
      using r l pre op assms(2,3) by (simp add: lzf_run_def)
    with \<open>lzf_put_lit inp st = Some ?st2\<close> True show ?thesis
      by fastforce
  qed
qed

section \<open>The main loop\<close>

lemma put_ref_eq:
  assumes "op + 3 \<le> length out"
  shows "\<exists>out'. lzf_put_ref off (len - 2) op out = Some (op + length (item_bytes (Ref off len)), out')
    \<and> length out' = length out
    \<and> take (op + length (item_bytes (Ref off len))) out' = take op out @ item_bytes (Ref off len)"
proof -
  have two: "take (Suc (Suc op)) (out[op := a, Suc op := b]) = take op out @ [a, b]" for a b
    using assms take_update_next [of "Suc op" "out[op := a]" b] take_update_next [of op out a] by simp
  have three: "take (Suc (Suc (Suc op))) (out[op := a, Suc op := b, Suc (Suc op) := c]) = take op out @ [a, b, c]" for a b c
    using assms take_update_next [of "Suc (Suc op)" "out[op := a, Suc op := b]" c] two [of a b] by simp
  have "Suc op < length out" "Suc (Suc op) < length out"
    using assms by simp_all
  then show ?thesis
    by (cases "len - 2 < 7") (simp_all add: lzf_put_ref_def two three numeral_3_eq_3)
qed

text \<open>A back reference costs less than what it stands for.\<close>

lemma ref_cost: "3 \<le> len \<Longrightarrow> length (item_bytes (Ref off len)) < len"
  by auto

fun next_ok :: "bytes \<Rightarrow> lzf_st \<Rightarrow> lzf_next \<Rightarrow> bool" where
  "next_ok inp st (Continue st') \<longleftrightarrow> length (z_out st') = length (z_out st) \<and> (\<exists>is lits. lzf_run inp st' is lits)"
| "next_ok inp st (Break st') \<longleftrightarrow> length (z_out st') = length (z_out st) \<and> (\<exists>is lits. lzf_run inp st' is lits)
     \<and> length inp \<le> z_ip st' + 2"
| "next_ok inp st (Return0 st') \<longleftrightarrow> length (z_out st') = length (z_out st)
     \<and> length (z_out st) < length inp + length inp div 32 + 4"

lemma run_after_ref:
  assumes js: "op = length (items_bytes js)" "take op out = items_bytes js" "items_ok 0 js" "items_apply [] js = take ip inp"
    and cost: "length (items_bytes js) \<le> ip + ip div 32 + 1"
    and ref: "agree inp ip r len" "r < ip" "ip - r - 1 < 8192" "3 \<le> len" "len \<le> 264" "ip + len \<le> length inp"
    and n: "n = length (item_bytes (Ref (ip - r - 1) len))" "take (op + n) out' = take op out @ item_bytes (Ref (ip - r - 1) len)"
    and st: "z_ip st = ip + len" "z_op st = op + n + 1" "z_lit st = 0" "z_out st = out'" "op + n < length out'"
  shows "lzf_run inp st (js @ [Ref (ip - r - 1) len]) []"
proof -
  let ?i = "Ref (ip - r - 1) len"
  have "length (items_apply [] js) = ip"
    unfolding js(4) using ref(6) by simp
  then have "items_ok 0 (js @ [?i])"
    using ref js(3) by (intro items_ok_snoc) simp_all
  moreover have "items_apply [] (js @ [?i]) = take (ip + len) inp"
    using lz_copy_agree [OF ref(1,2,6)] js(4) by simp
  moreover have "length (items_bytes (js @ [?i])) \<le> (ip + len) + (ip + len) div 32"
    using cost ref_cost [OF ref(4), of "ip - r - 1"] div_le_mono [of ip "ip + len" 32]
    by (simp del: item_bytes.simps)
  ultimately show ?thesis
    unfolding lzf_run_def using js(1,2) n st ref(6) by (simp del: item_bytes.simps)
qed

lemma match_branch_steps:
  assumes "\<not> (z_op st + 3 + 1 \<ge> length (z_out st) \<and> (if z_lit st = 0 then z_op st - 1 else z_op st) + 3 + 1 \<ge> length (z_out st))"
    and "lzf_end_run (z_op st) (z_lit st) (z_out st) = Some (op, out)" "lzf_match_len inp (z_ip st) r = Some len" "2 \<le> len"
    and "lzf_put_ref (z_ip st - r - 1) (len - 2) op out = Some (op', out')" "z_ip st + len = ip"
    and "st' = st\<lparr>z_ip := ip, z_op := op' + 1, z_lit := 0, z_out := out'\<rparr>"
  shows "lzf_match_branch inp r st =
    (if ip + 2 \<ge> length inp then Some (Break st')
     else do {
       hval \<leftarrow> FRST inp (ip - 1);
       hval \<leftarrow> NEXT hval inp (ip - 1);
       Some (Continue (st'\<lparr>z_hval := hval, z_htab := (z_htab st)(IDX hval := Some (int (ip - 1)))\<rparr>))
     })"
proof -
  have "z_ip st + 1 + (len - 2 + 1) = ip"
    using assms(4,6) by simp
  with assms(2,3,5) show ?thesis
    unfolding lzf_match_branch_def Let_def assms(7) if_not_P [OF assms(1)] by simp
qed

lemma match_branch_gives_up:
  assumes "lzf_run inp st is lits" "z_ip st + 4 < length inp"
    and "z_op st + 3 + 1 \<ge> length (z_out st) \<and> (if z_lit st = 0 then z_op st - 1 else z_op st) + 3 + 1 \<ge> length (z_out st)"
  shows "lzf_match_branch inp r st = Some (Return0 st)" "next_ok inp st (Return0 st)"
proof -
  show "lzf_match_branch inp r st = Some (Return0 st)"
    using assms(3) by (simp add: lzf_match_branch_def Let_def)
  have "z_op st + 4 < length inp + length inp div 32 + 4"
    using lzf_run_cost [OF assms(1)] assms(2) div_le_mono [of "z_ip st" "length inp" 32] by linarith
  then show "next_ok inp st (Return0 st)"
    using assms(3) by simp
qed

lemma match_branch_total:
  assumes run: "lzf_run inp st is lits"
    and m: "agree inp (z_ip st) r 3" "r < z_ip st" "z_ip st - r - 1 < 8192" "z_ip st + 4 < length inp"
  shows "\<exists>nx. lzf_match_branch inp r st = Some nx \<and> next_ok inp st nx"
proof (cases "z_op st + 3 + 1 \<ge> length (z_out st) \<and> (if z_lit st = 0 then z_op st - 1 else z_op st) + 3 + 1 \<ge> length (z_out st)")
  case True
  with match_branch_gives_up [OF run m(4) True] show ?thesis by blast
next
  case False
  let ?ip = "z_ip st" and ?op = "if z_lit st = 0 then z_op st - 1 else z_op st"
  from False have room: "z_op st \<le> length (z_out st)" "?op + 4 < length (z_out st)"
    by (auto split: if_splits)
  obtain op out js where run1: "lzf_end_run (z_op st) (z_lit st) (z_out st) = Some (op, out)" "length out = length (z_out st)"
    "op = ?op" "op = length (items_bytes js)" "take op out = items_bytes js" "items_ok 0 js"
    "items_apply [] js = take ?ip inp" "length (items_bytes js) \<le> ?ip + ?ip div 32 + 1"
    using end_run_total [OF run room(1)] by (fastforce split: if_splits)
  obtain len where len: "lzf_match_len inp ?ip r = Some len" "3 \<le> len" "len \<le> 264" "?ip + len \<le> length inp" "agree inp ?ip r len"
    using lzf_match_len_total [OF m(1,4,2)] by blast
  define n where "n = length (item_bytes (Ref (?ip - r - 1) len))"
  obtain out' where ref: "lzf_put_ref (?ip - r - 1) (len - 2) op out = Some (op + n, out')"
    "length out' = length out" "take (op + n) out' = take op out @ item_bytes (Ref (?ip - r - 1) len)"
    using put_ref_eq [of op out "?ip - r - 1" len] room(2) run1(2,3) by (auto simp: n_def)
  have n3: "n \<le> 3"
    by (simp add: n_def)
  define st' where "st' = st\<lparr>z_ip := ?ip + len, z_op := op + n + 1, z_lit := 0, z_out := out'\<rparr>"
  have run2: "lzf_run inp (st'\<lparr>z_hval := h, z_htab := t\<rparr>) (js @ [Ref (?ip - r - 1) len]) []" for h t
    by (rule run_after_ref [OF run1(4-8) len(5) m(2,3) len(2-4) n_def ref(3)])
      (use n3 room(2) run1(2,3) ref(2) in \<open>simp_all add: st'_def\<close>)
  from run2 [where h = "z_hval st" and t = "z_htab st"] have run3: "lzf_run inp st' (js @ [Ref (?ip - r - 1) len]) []"
    by (simp add: st'_def)
  have "2 \<le> len"
    using len(2) by simp
  note mb = match_branch_steps [OF False run1(1) len(1) this ref(1) refl st'_def]
  have f: "\<exists>a b. FRST inp (?ip + len - 1) = Some a \<and> NEXT a inp (?ip + len - 1) = Some b" if "?ip + len + 2 < length inp"
    using that len(2) by (simp add: FRST_def NEXT_def)
  have o: "length (z_out st') = length (z_out st)" "z_ip st' = ?ip + len"
    using ref(2) run1(2) by (simp_all add: st'_def)
  show ?thesis
    using mb f run2 run3 o by (cases "?ip + len + 2 < length inp") fastforce+
qed

lemma iter_total:
  assumes "lzf_run inp st is lits" "z_ip st + 2 < length inp"
  shows "\<exists>nx. lzf_iter inp st = Some nx \<and> next_ok inp st nx"
proof -
  obtain h where h: "NEXT (z_hval st) inp (z_ip st) = Some h"
    using assms(2) by (simp add: NEXT_def)
  let ?ref = "z_htab st (IDX h)"
  let ?st = "st\<lparr>z_hval := h, z_htab := (z_htab st)(IDX h := Some (int (z_ip st)))\<rparr>"
  have run: "lzf_run inp ?st is lits"
    using assms(1) by (auto simp: lzf_run_def split: if_splits)
  have it: "lzf_iter inp st = do {
      m \<leftarrow> lzf_is_match inp (z_ip st) ?ref;
      if m then lzf_match_branch inp (nat (the ?ref)) ?st
      else if z_op st \<ge> length (z_out st) then Some (Return0 ?st)
      else do { st \<leftarrow> lzf_put_lit inp ?st; Some (Continue st) } }"
    using h by (simp add: lzf_iter_def Let_def)
  show ?thesis
  proof (cases rule: lzf_is_match_total [OF assms(2), of ?ref])
    case (2 r)
    then obtain nx where "lzf_match_branch inp r ?st = Some nx" "next_ok inp ?st nx"
      using match_branch_total [OF run, of r] by auto
    then show ?thesis
      using 2 it by (cases nx) auto
  next
    case 1
    show ?thesis
    proof (cases "z_op st \<ge> length (z_out st)")
      case True
      have "z_op st < length inp + length inp div 32 + 4"
        using lzf_run_cost [OF assms(1)] assms(2) div_le_mono [of "z_ip st" "length inp" 32] by linarith
      then show ?thesis
        using 1 it True by auto
    next
      case False
      then show ?thesis
        using put_lit_total [OF run] assms(2) 1 it by fastforce
    qed
  qed
qed

lemma loop_total:
  assumes "lzf_run inp st is lits"
  shows "\<exists>ret st'. lzf_loop inp st = Some (ret, st') \<and> length (z_out st') = length (z_out st)
    \<and> (if ret then length (z_out st) < length inp + length inp div 32 + 4
       else (\<exists>js ms. lzf_run inp st' js ms) \<and> length inp \<le> z_ip st' + 2)"
  using assms
proof (induction inp st arbitrary: "is" lits rule: lzf_loop.induct)
  case (1 inp st)
  show ?case
  proof (cases "z_ip st + 2 < length inp")
    case False
    then show ?thesis
      using 1(2) by (subst lzf_loop.simps) auto
  next
    case True
    obtain nx where nx: "lzf_iter inp st = Some nx" "next_ok inp st nx"
      using iter_total [OF 1(2) True] by blast
    show ?thesis
    proof (cases nx)
      case (Continue st')
      then obtain js ms where r: "lzf_run inp st' js ms" "length (z_out st') = length (z_out st)"
        using nx by auto
      have "lzf_loop inp st = lzf_loop inp st'"
        using True nx Continue by (subst lzf_loop.simps) simp
      then show ?thesis
        using 1(1) [OF True nx(1) Continue r(1)] by (simp only: r(2))
    next
      case (Break st')
      then show ?thesis
        using True nx by (subst lzf_loop.simps) auto
    next
      case (Return0 st')
      then show ?thesis
        using True nx by (subst lzf_loop.simps) auto
    qed
  qed
qed

text \<open>At most two bytes are left, and at most one of them completes a run.\<close>

lemma tail_total:
  assumes "lzf_run inp st is lits" "length inp \<le> z_ip st + 2" "z_op st + 3 \<le> length (z_out st)"
  shows "\<exists>st' js ms. lzf_tail inp st = Some st' \<and> lzf_run inp st' js ms \<and> z_ip st' = length inp
    \<and> z_op st' \<le> length (z_out st') \<and> length (z_out st') = length (z_out st)"
proof -
  have ip: "z_ip st \<le> length inp"
    using assms(1) by (simp add: lzf_run_def)
  have fin: "lzf_tail inp s = Some s" if "z_ip s = length inp" for s
    using that by (subst lzf_tail.simps) simp
  have step: "lzf_tail inp s = lzf_tail inp s'" if "z_ip s < length inp" "lzf_put_lit inp s = Some s'" for s s'
    using that by (subst lzf_tail.simps) simp
  consider "z_ip st = length inp" | "Suc (z_ip st) = length inp" | "Suc (Suc (z_ip st)) = length inp"
    using ip assms(2) by linarith
  then show ?thesis
  proof cases
    case 1
    then show ?thesis
      using fin assms(1,3) by fastforce
  next
    case 2
    obtain s1 js ms where "lzf_put_lit inp st = Some s1" "lzf_run inp s1 js ms" "z_ip s1 = Suc (z_ip st)"
      "length (z_out s1) = length (z_out st)" "z_op s1 = z_op st + (if z_lit st = 31 then 2 else 1)"
      using put_lit_total [OF assms(1)] 2 assms(3) by fastforce
    then show ?thesis
      using 2 step fin [of s1] assms(3) by (auto split: if_splits)
  next
    case 3
    obtain s1 js ms where s1: "lzf_put_lit inp st = Some s1" "lzf_run inp s1 js ms" "z_ip s1 = Suc (z_ip st)"
      "length (z_out s1) = length (z_out st)" "z_op s1 = z_op st + (if z_lit st = 31 then 2 else 1)"
      "z_lit s1 = (if z_lit st = 31 then 0 else z_lit st + 1)"
      using put_lit_total [OF assms(1)] 3 assms(3) by fastforce
    obtain s2 js' ms' where s2: "lzf_put_lit inp s1 = Some s2" "lzf_run inp s2 js' ms'" "z_ip s2 = Suc (z_ip s1)"
      "length (z_out s2) = length (z_out s1)" "z_op s2 = z_op s1 + (if z_lit s1 = 31 then 2 else 1)"
      using put_lit_total [OF s1(2)] 3 s1 assms(3) by (fastforce split: if_splits)
    have "z_op s2 \<le> length (z_out s2)"
      using s1(4-6) s2(4,5) assms(3) by (auto split: if_splits)
    then show ?thesis
      using 3 s1 s2 step [of st s1] step [of s1 s2] fin [of s2] by auto
  qed
qed

section \<open>Correctness of the compressor\<close>

lemma init_run:
  assumes "out \<noteq> []"
  shows "lzf_run inp \<lparr>z_ip = 0, z_op = 1, z_lit = 0, z_hval = h, z_htab = t, z_out = out\<rparr> [] []"
  using assms by (simp add: lzf_run_def)

lemma lzf_compress_total:
  assumes "2 \<le> length inp"
  shows "\<exists>n out' htab'. lzf_compress inp out htab = Some (n, out', htab') \<and> length out' = length out \<and> n \<le> length out
    \<and> (n = 0 \<longrightarrow> length out < length inp + length inp div 32 + 4)
    \<and> (n \<noteq> 0 \<longrightarrow> (\<exists>js. js \<noteq> [] \<and> items_ok 0 js \<and> take n out' = items_bytes js \<and> items_apply [] js = inp))"
proof (cases "out = []")
  case True
  then show ?thesis
    by (simp add: lzf_compress_eq)
next
  case False
  obtain h where h: "FRST inp 0 = Some h"
    using assms by (fastforce simp: FRST_def rd_def)
  let ?st = "\<lparr>z_ip = 0, z_op = 1, z_lit = 0, z_hval = h, z_htab = htab(0 := None), z_out = out\<rparr>"
  obtain ret st1 where l: "lzf_loop inp ?st = Some (ret, st1)" "length (z_out st1) = length out"
    "if ret then length out < length inp + length inp div 32 + 4
     else (\<exists>js ms. lzf_run inp st1 js ms) \<and> length inp \<le> z_ip st1 + 2"
    using loop_total [OF init_run [OF False, of inp h "htab(0 := None)"]] unfolding lzf_st.select_convs by blast
  have c: "lzf_compress inp out htab =
      (if ret \<or> z_op st1 + 3 > length (z_out st1) then Some (0, z_out st1, z_htab st1)
       else do {
         st \<leftarrow> lzf_tail inp st1;
         (op, out) \<leftarrow> lzf_end_run (z_op st) (z_lit st) (z_out st);
         Some (op, out, z_htab st) })"
    using assms False h l(1) unfolding lzf_compress_eq by (cases inp) auto
  show ?thesis
  proof (cases "ret \<or> z_op st1 + 3 > length (z_out st1)")
    case True
    have "length out < length inp + length inp div 32 + 4"
    proof (cases ret)
      case False
      then obtain js ms where r: "lzf_run inp st1 js ms"
        using l(3) by auto
      then have "z_ip st1 \<le> length inp"
        by (simp add: lzf_run_def)
      then show ?thesis
        using lzf_run_cost [OF r] div_le_mono [of "z_ip st1" "length inp" 32] True False l(2) by linarith
    qed (use l(3) in simp)
    then show ?thesis
      using c True l(2) by simp
  next
    case False
    then obtain js ms where r: "lzf_run inp st1 js ms" "length inp \<le> z_ip st1 + 2"
      using l(3) by auto
    obtain st2 js2 ms2 where t: "lzf_tail inp st1 = Some st2" "lzf_run inp st2 js2 ms2" "z_ip st2 = length inp"
      "z_op st2 \<le> length (z_out st2)" "length (z_out st2) = length (z_out st1)"
      using tail_total [OF r] False by auto
    obtain op out' ks where e: "lzf_end_run (z_op st2) (z_lit st2) (z_out st2) = Some (op, out')" "length out' = length (z_out st2)"
      "op \<le> z_op st2" "op = length (items_bytes ks)" "take op out' = items_bytes ks" "items_ok 0 ks" "items_apply [] ks = inp"
      using end_run_total [OF t(2,4)] t(3) by (fastforce split: if_splits)
    have "ks \<noteq> []"
      using e(7) assms by auto
    then have "op \<noteq> 0"
      unfolding e(4) by (cases ks) simp_all
    then show ?thesis
      using c False t(1,4,5) e l(2) \<open>ks \<noteq> []\<close> by auto
  qed
qed

text \<open>Whatever the compressor produced, the decompressor restores the input.\<close>

lemma lzf_decompress_compress:
  assumes "2 \<le> length inp" "lzf_compress inp out htab = Some (n, out', htab')" "n \<noteq> 0"
    and "length inp \<le> length dst" "length dst < 2 ^ 31"
  shows "lzf_decompress (take n out') dst = Some (int (length inp), blit dst 0 inp)"
proof -
  obtain js where "js \<noteq> []" "items_ok 0 js" "take n out' = items_bytes js" "items_apply [] js = inp"
    using lzf_compress_total [OF assms(1), of out htab] assms(2,3) by auto
  then show ?thesis
    using lzf_decompress_items [of js dst] assms(4,5) by simp
qed

end
