(* ===== verification/Isr_Compress.thy ===== *)
theory Isr_Compress
  imports Isr_LZF_Correct
begin

text \<open>
  The compression interface of libisrcrypto, \<^verbatim>\<open>crypto/compress.c\<close>, and the LZF descriptor at the end of
  \<^verbatim>\<open>crypto/lzf.c\<close>.  The \<open>desc\<close> field of a context is passed beside it, and the \<^verbatim>\<open>void *ctx\<close> of the C code is
  a tagged union of the backends' states.  The other backends are parameters here;
  theory \<open>Isr_LZF_Stream\<close> has that of \<^verbatim>\<open>crypto/lzf-stream.c\<close>, and \<open>Isr_Zlib\<close> those of \<^verbatim>\<open>crypto/zlib.c\<close> and \<^verbatim>\<open>crypto/lzma.c\<close>.  \<open>None\<close> is an access outside a buffer or an abort.
\<close>

section \<open>Contexts and descriptors (internal.h)\<close>

record 'c isrcry_compress_ctx =
  zc_direction :: c_enum
  zc_level :: int
  zc_ctx :: "'c option"

text \<open>
  An operation takes the input and the output buffer, whose lengths are \<^verbatim>\<open>*inlen\<close> and \<^verbatim>\<open>*outlen\<close> at the
  call, and gives the result, the context, the new \<^verbatim>\<open>*inlen\<close> and \<^verbatim>\<open>*outlen\<close>, and the output buffer.
\<close>

type_synonym 'c compress_op =
  "'c isrcry_compress_ctx \<Rightarrow> bytes \<Rightarrow> bytes \<Rightarrow> (isrcry_result \<times> 'c isrcry_compress_ctx \<times> nat \<times> nat \<times> bytes) option"

record 'c isrcry_compress_desc =
  zd_can_stream :: bool
  zd_alloc :: "'c isrcry_compress_ctx \<Rightarrow> (isrcry_result \<times> 'c isrcry_compress_ctx) option"
  zd_compress_process :: "'c compress_op option"
  zd_compress_final :: "'c compress_op"
  zd_decompress_process :: "'c compress_op option"
  zd_decompress_final :: "'c compress_op"

section \<open>The LZF descriptor (lzf.c)\<close>

text \<open>\<open>g_slice_new\<close> does not initialise the table: its contents are the parameter \<open>garbage\<close>.\<close>

definition lzf_alloc :: "LZF_STATE \<Rightarrow> LZF_STATE isrcry_compress_ctx \<Rightarrow> (isrcry_result \<times> LZF_STATE isrcry_compress_ctx) option" where
  "lzf_alloc garbage cctx =
     Some (if zc_level cctx \<noteq> 0 then (ISRCRY_INVALID_ARGUMENT, cctx)
       else (ISRCRY_OK, cctx\<lparr>zc_ctx := Some garbage\<rparr>))"

text \<open>\<open>beyond\<close> is the memory that follows the input, see \<open>lzf_compress_at\<close>.\<close>

definition lzf_do_compress :: "bytes \<Rightarrow> LZF_STATE compress_op" where
  "lzf_do_compress beyond cctx inp out = do {
     (ret, cctx, outlen, out) \<leftarrow>
       (if length inp = 0 then Some (ISRCRY_INVALID_ARGUMENT, cctx, length out, out)
        else do {
          htab \<leftarrow> zc_ctx cctx;
          (result, out, htab) \<leftarrow> lzf_compress_at beyond inp out htab;
          let cctx = cctx\<lparr>zc_ctx := Some htab\<rparr>;
          Some (if result \<noteq> 0 then (ISRCRY_OK, cctx, result, out)
                else (ISRCRY_BUFFER_OVERFLOW, cctx, length out, out))
        });
     Some (if ret \<noteq> ISRCRY_OK then (ret, cctx, 0, 0, out) else (ISRCRY_OK, cctx, length inp, outlen, out))
   }"

definition lzf_do_decompress :: "LZF_STATE compress_op" where
  "lzf_do_decompress cctx inp out = do {
     (result, out) \<leftarrow> lzf_decompress inp out;
     if result < 0 then
       (if result = - E2BIG then Some (ISRCRY_BUFFER_OVERFLOW, cctx, 0, 0, out)
        else if result = - EINVAL then Some (ISRCRY_BAD_FORMAT, cctx, 0, 0, out)
        else None)
     else Some (ISRCRY_OK, cctx, length inp, nat result, out)
   }"

definition isrcry_lzf_desc_at :: "bytes \<Rightarrow> LZF_STATE \<Rightarrow> LZF_STATE isrcry_compress_desc" where
  "isrcry_lzf_desc_at beyond garbage = \<lparr>zd_can_stream = False, zd_alloc = lzf_alloc garbage,
     zd_compress_process = None, zd_compress_final = lzf_do_compress beyond,
     zd_decompress_process = None, zd_decompress_final = lzf_do_decompress\<rparr>"

definition isrcry_lzf_desc :: "LZF_STATE \<Rightarrow> LZF_STATE isrcry_compress_desc" where
  "isrcry_lzf_desc = isrcry_lzf_desc_at []"

lemmas lzf_desc_defs = isrcry_lzf_desc_def isrcry_lzf_desc_at_def

section \<open>Operations (compress.c)\<close>

definition isrcry_compress_init :: "'c isrcry_compress_desc \<Rightarrow> 'c isrcry_compress_ctx \<Rightarrow> c_enum \<Rightarrow> int
    \<Rightarrow> (isrcry_result \<times> 'c isrcry_compress_ctx) option" where
  "isrcry_compress_init desc cctx direction level =
     (if direction \<noteq> ISRCRY_ENCODE \<and> direction \<noteq> ISRCRY_DECODE then Some (ISRCRY_INVALID_ARGUMENT, cctx)
      else zd_alloc desc (cctx\<lparr>zc_ctx := None, zc_direction := direction, zc_level := level\<rparr>))"

definition isrcry_compress_process :: "'c isrcry_compress_desc \<Rightarrow> 'c compress_op" where
  "isrcry_compress_process desc cctx inp out =
     (if \<not> zd_can_stream desc then Some (ISRCRY_NO_STREAMING, cctx, 0, 0, out)
      else do {
        f \<leftarrow> (if zc_direction cctx = ISRCRY_ENCODE then zd_compress_process desc else zd_decompress_process desc);
        f cctx inp out
      })"

definition isrcry_compress_final :: "'c isrcry_compress_desc \<Rightarrow> 'c compress_op" where
  "isrcry_compress_final desc cctx inp out =
     (if zc_direction cctx = ISRCRY_ENCODE then zd_compress_final desc cctx inp out
      else zd_decompress_final desc cctx inp out)"

text \<open>The \<^verbatim>\<open>void *ctx\<close> of a context, and a descriptor seen through it.\<close>

datatype ('z, 's, 'm) any_ctx = Any_zlib 'z | Any_lzf LZF_STATE | Any_lzf_stream 's | Any_lzma 'm

definition ctx_in :: "('u \<Rightarrow> 'c option) \<Rightarrow> 'u isrcry_compress_ctx \<Rightarrow> 'c isrcry_compress_ctx" where
  "ctx_in untag cctx = \<lparr>zc_direction = zc_direction cctx, zc_level = zc_level cctx, zc_ctx = Option.bind (zc_ctx cctx) untag\<rparr>"

definition ctx_out :: "('c \<Rightarrow> 'u) \<Rightarrow> 'c isrcry_compress_ctx \<Rightarrow> 'u isrcry_compress_ctx" where
  "ctx_out tag cctx = \<lparr>zc_direction = zc_direction cctx, zc_level = zc_level cctx, zc_ctx = map_option tag (zc_ctx cctx)\<rparr>"

definition any_op :: "('u \<Rightarrow> 'c option) \<Rightarrow> ('c \<Rightarrow> 'u) \<Rightarrow> 'c compress_op \<Rightarrow> 'u compress_op" where
  "any_op untag tag f cctx inp out = do {
     (ret, cctx, il, ol, out) \<leftarrow> f (ctx_in untag cctx) inp out;
     Some (ret, ctx_out tag cctx, il, ol, out)
   }"

definition any_desc :: "('u \<Rightarrow> 'c option) \<Rightarrow> ('c \<Rightarrow> 'u) \<Rightarrow> 'c isrcry_compress_desc \<Rightarrow> 'u isrcry_compress_desc" where
  "any_desc untag tag d = \<lparr>zd_can_stream = zd_can_stream d,
     zd_alloc = (\<lambda>cctx. do { (ret, cctx) \<leftarrow> zd_alloc d (ctx_in untag cctx); Some (ret, ctx_out tag cctx) }),
     zd_compress_process = map_option (any_op untag tag) (zd_compress_process d),
     zd_compress_final = any_op untag tag (zd_compress_final d),
     zd_decompress_process = map_option (any_op untag tag) (zd_decompress_process d),
     zd_decompress_final = any_op untag tag (zd_decompress_final d)\<rparr>"

text \<open>The backends of a build: the descriptors of \<^verbatim>\<open>zlib.c\<close>, \<^verbatim>\<open>lzf-stream.c\<close> and \<^verbatim>\<open>lzma.c\<close>, and the initial contents of an LZF table.\<close>

record ('z, 's, 'm) backends =
  b_zlib :: "'z isrcry_compress_desc"
  b_lzf_garbage :: LZF_STATE
  b_lzf_stream :: "'s isrcry_compress_desc"
  b_lzma :: "'m isrcry_compress_desc"

definition compress_desc :: "('z, 's, 'm) backends \<Rightarrow> c_enum \<Rightarrow> ('z, 's, 'm) any_ctx isrcry_compress_desc option" where
  "compress_desc b type =
     (if type = ISRCRY_COMPRESS_ZLIB then
        Some (any_desc (\<lambda>u. case u of Any_zlib c \<Rightarrow> Some c | _ \<Rightarrow> None) Any_zlib (b_zlib b))
      else if type = ISRCRY_COMPRESS_LZF then
        Some (any_desc (\<lambda>u. case u of Any_lzf c \<Rightarrow> Some c | _ \<Rightarrow> None) Any_lzf (isrcry_lzf_desc (b_lzf_garbage b)))
      else if type = ISRCRY_COMPRESS_LZF_STREAM then
        Some (any_desc (\<lambda>u. case u of Any_lzf_stream c \<Rightarrow> Some c | _ \<Rightarrow> None) Any_lzf_stream (b_lzf_stream b))
      else if type = ISRCRY_COMPRESS_LZMA then
        Some (any_desc (\<lambda>u. case u of Any_lzma c \<Rightarrow> Some c | _ \<Rightarrow> None) Any_lzma (b_lzma b))
      else None)"

text \<open>The new context with its descriptor.\<close>

definition isrcry_compress_alloc :: "('z, 's, 'm) backends \<Rightarrow> c_enum
    \<Rightarrow> (('z, 's, 'm) any_ctx isrcry_compress_desc \<times> ('z, 's, 'm) any_ctx isrcry_compress_ctx) option" where
  "isrcry_compress_alloc b compress =
     (case compress_desc b compress of
        None \<Rightarrow> None
      | Some d \<Rightarrow> Some (d, \<lparr>zc_direction = 0, zc_level = 0, zc_ctx = None\<rparr>))"

definition isrcry_compress_can_stream :: "('z, 's, 'm) backends \<Rightarrow> c_enum \<Rightarrow> bool" where
  "isrcry_compress_can_stream b compress =
     (case compress_desc b compress of None \<Rightarrow> False | Some d \<Rightarrow> zd_can_stream d)"

section \<open>The contract of a one-shot compressor\<close>

text \<open>
  \<open>comp\<close> and \<open>decomp\<close> run a whole buffer through a freshly initialised context.  A compressor that
  reports success has used the whole input, stays inside the output and its output decompresses to the
  input in a buffer of exactly the right size.  The inputs for which this is promised are \<open>lim\<close>; the size of the output
  buffer is an \<^verbatim>\<open>unsigned\<close>.
\<close>

definition one_shot :: "'c isrcry_compress_desc \<Rightarrow> 'c isrcry_compress_ctx \<Rightarrow> c_enum \<Rightarrow> bytes \<Rightarrow> bytes
    \<Rightarrow> (isrcry_result \<times> nat \<times> nat \<times> bytes) option" where
  "one_shot desc cctx direction inp out = do {
     (ret, cctx) \<leftarrow> isrcry_compress_init desc cctx direction 0;
     if ret \<noteq> ISRCRY_OK then Some (ret, 0, 0, out)
     else map_option (\<lambda>(ret, cctx, il, ol, out). (ret, il, ol, out)) (isrcry_compress_final desc cctx inp out)
   }"

locale block_compressor =
  fixes comp decomp :: "bytes \<Rightarrow> bytes \<Rightarrow> (isrcry_result \<times> nat \<times> nat \<times> bytes) option"
    and lim :: "bytes \<Rightarrow> bool"
  assumes comp_total: "lim inp \<Longrightarrow> length out < 2 ^ 32 \<Longrightarrow> \<exists>r il ol out'. comp inp out = Some (r, il, ol, out') \<and> length out' = length out \<and> ol \<le> length out"
    and comp_consumes: "lim inp \<Longrightarrow> length out < 2 ^ 32 \<Longrightarrow> comp inp out = Some (ISRCRY_OK, il, ol, out') \<Longrightarrow> il = length inp"
    and decomp_comp: "lim inp \<Longrightarrow> length out < 2 ^ 32 \<Longrightarrow> comp inp out = Some (ISRCRY_OK, il, ol, out') \<Longrightarrow> length dst = length inp \<Longrightarrow>
      decomp (take ol out') dst = Some (ISRCRY_OK, ol, length inp, inp)"

section \<open>LZF keeps the contract\<close>

lemma ctx_out_in:
  "(\<And>c. untag (tag c) = Some c) \<Longrightarrow> ctx_in untag (ctx_out tag cctx) = cctx"
  by (cases cctx; cases "zc_ctx cctx") (simp_all add: ctx_in_def ctx_out_def)

lemma any_desc_simps [simp]:
  "zd_can_stream (any_desc untag tag d) = zd_can_stream d"
  "zd_compress_final (any_desc untag tag d) = any_op untag tag (zd_compress_final d)"
  "zd_decompress_final (any_desc untag tag d) = any_op untag tag (zd_decompress_final d)"
  by (simp_all add: any_desc_def)

text \<open>Going through the tagged union changes nothing.\<close>

lemma one_shot_any:
  assumes "\<And>c. untag (tag c) = Some c"
  shows "one_shot (any_desc untag tag d) cctx direction inp out = one_shot d (ctx_in untag cctx) direction inp out"
proof (cases "direction \<noteq> ISRCRY_ENCODE \<and> direction \<noteq> ISRCRY_DECODE")
  case True
  then show ?thesis by (simp add: one_shot_def isrcry_compress_init_def)
next
  case False
  let ?c = "\<lparr>zc_direction = direction, zc_level = 0, zc_ctx = None\<rparr>"
  have i: "isrcry_compress_init d (ctx_in untag cctx) direction 0 = zd_alloc d ?c"
    using False by (auto simp: isrcry_compress_init_def ctx_in_def)
  have j: "isrcry_compress_init (any_desc untag tag d) cctx direction 0 = map_option (\<lambda>(ret, c). (ret, ctx_out tag c)) (zd_alloc d ?c)"
    using False by (cases "zd_alloc d ?c") (auto simp: isrcry_compress_init_def ctx_in_def any_desc_def)
  have f: "map_option (\<lambda>(ret, cctx, il, ol, out). (ret, il, ol, out)) (any_op untag tag g (ctx_out tag c1) inp out) =
      map_option (\<lambda>(ret, cctx, il, ol, out). (ret, il, ol, out)) (g c1 inp out)" for g c1
    by (cases "g c1 inp out") (auto simp: any_op_def ctx_out_in [of untag tag, OF assms])
  have "zc_direction (ctx_out tag c1) = zc_direction c1" for c1
    by (simp add: ctx_out_def)
  with f show ?thesis
    by (cases "zd_alloc d ?c") (auto simp: one_shot_def i j isrcry_compress_final_def)
qed

lemma one_shot_lzf_encode:
  "one_shot (isrcry_lzf_desc g) cctx ISRCRY_ENCODE inp out =
   (if inp = [] then Some (ISRCRY_INVALID_ARGUMENT, 0, 0, out)
    else map_option (\<lambda>(n, out', h). if n \<noteq> 0 then (ISRCRY_OK, length inp, n, out') else (ISRCRY_BUFFER_OVERFLOW, 0, 0, out'))
      (lzf_compress inp out g))"
  by (cases "lzf_compress inp out g")
    (auto simp: one_shot_def isrcry_compress_init_def isrcry_compress_final_def lzf_desc_defs lzf_alloc_def
      lzf_do_compress_def Let_def)

lemma one_shot_lzf_decode:
  "one_shot (isrcry_lzf_desc g) cctx ISRCRY_DECODE inp out =
   Option.bind (lzf_decompress inp out) (\<lambda>(r, out').
     if r < 0 then
       (if r = - E2BIG then Some (ISRCRY_BUFFER_OVERFLOW, 0, 0, out')
        else if r = - EINVAL then Some (ISRCRY_BAD_FORMAT, 0, 0, out') else None)
     else Some (ISRCRY_OK, length inp, nat r, out'))"
  by (cases "lzf_decompress inp out")
    (auto simp: one_shot_def isrcry_compress_init_def isrcry_compress_final_def lzf_desc_defs lzf_alloc_def
      lzf_do_decompress_def Let_def)

definition lzf_lim :: "bytes \<Rightarrow> bool" where
  "lzf_lim inp \<longleftrightarrow> 2 \<le> length inp \<and> length inp < 2 ^ 31"

lemma lzf_block_compressor:
  "block_compressor (one_shot (isrcry_lzf_desc g) c ISRCRY_ENCODE) (one_shot (isrcry_lzf_desc g') c' ISRCRY_DECODE) lzf_lim"
proof
  fix inp out
  assume lim: "lzf_lim inp"
  then have inp: "2 \<le> length inp" "inp \<noteq> []"
    by (auto simp: lzf_lim_def)
  obtain n out1 h where cm: "lzf_compress inp out g = Some (n, out1, h)" "length out1 = length out" "n \<le> length out"
    using lzf_compress_total [OF inp(1), of out g] by blast
  then show "\<exists>r il ol out'. one_shot (isrcry_lzf_desc g) c ISRCRY_ENCODE inp out = Some (r, il, ol, out')
      \<and> length out' = length out \<and> ol \<le> length out"
    by (simp add: one_shot_lzf_encode inp(2))
  fix il ol out' and dst :: bytes
  assume ok: "one_shot (isrcry_lzf_desc g) c ISRCRY_ENCODE inp out = Some (ISRCRY_OK, il, ol, out')"
  then show "il = length inp"
    by (simp add: one_shot_lzf_encode inp(2) cm(1) split: if_splits)
  assume dst: "length dst = length inp"
  have eq: "ol = n" "out' = out1" "n \<noteq> 0"
    using ok by (simp_all add: one_shot_lzf_encode inp(2) cm(1) split: if_splits)
  have "lzf_decompress (take n out1) dst = Some (int (length inp), inp)"
    using lzf_decompress_compress [OF inp(1) cm(1) eq(3), of dst] dst lim by (simp add: lzf_lim_def buf_simps)
  then show "one_shot (isrcry_lzf_desc g') c' ISRCRY_DECODE (take ol out') dst = Some (ISRCRY_OK, ol, length inp, inp)"
    using cm(2,3) by (simp add: one_shot_lzf_decode eq)
qed

interpretation lzf: block_compressor
  "one_shot (isrcry_lzf_desc g) c ISRCRY_ENCODE" "one_shot (isrcry_lzf_desc g') c' ISRCRY_DECODE" lzf_lim for g c g' c'
  by (rule lzf_block_compressor)

end
