(* ===== verification/Isr_Chunk.thy ===== *)
theory Isr_Chunk
  imports Isr_Cipher Isr_Hash Isr_Compress
begin

text \<open>
  The chunk codec of libisrutil, \<^verbatim>\<open>libutil/chunk.c\<close>: a chunk is compressed when that saves space, its
  key is the hash of what is encrypted, and its tag the hash of the ciphertext.

  The outcome of a codec call is \<open>None\<close> for an abort or an access outside a buffer, \<open>Some None\<close> for
  \<^verbatim>\<open>FALSE\<close> (the caller does not look at the output parameters then) and \<open>Some (Some x)\<close> for \<^verbatim>\<open>TRUE\<close> with the
  output parameters \<open>x\<close>.  Buffers that \<open>g_malloc\<close> leaves uninitialised are modelled as zeroes; only bytes
  written before are read from them.  Log messages are left out.
\<close>

abbreviation (input) IU_CHUNK_CRY_UNKNOWN :: c_enum where "IU_CHUNK_CRY_UNKNOWN \<equiv> 0"
abbreviation (input) IU_CHUNK_CRY_AES_SHA1 :: c_enum where "IU_CHUNK_CRY_AES_SHA1 \<equiv> 2"
abbreviation (input) IU_CHUNK_COMP_UNKNOWN :: c_enum where "IU_CHUNK_COMP_UNKNOWN \<equiv> 0"
abbreviation (input) IU_CHUNK_COMP_NONE :: c_enum where "IU_CHUNK_COMP_NONE \<equiv> 1"
abbreviation (input) IU_CHUNK_COMP_ZLIB :: c_enum where "IU_CHUNK_COMP_ZLIB \<equiv> 2"
abbreviation (input) IU_CHUNK_COMP_LZF :: c_enum where "IU_CHUNK_COMP_LZF \<equiv> 3"

section \<open>Suites\<close>

definition iu_chunk_crypto_parse :: "string \<Rightarrow> c_enum" where
  "iu_chunk_crypto_parse desc = (if desc = ''aes-sha1'' then IU_CHUNK_CRY_AES_SHA1 else IU_CHUNK_CRY_UNKNOWN)"

text \<open>Cipher, mode, padding, hash and key length of a suite.\<close>

definition crypto_get_algs :: "c_enum \<Rightarrow> (c_enum \<times> c_enum \<times> c_enum \<times> c_enum \<times> nat) option" where
  "crypto_get_algs crypto =
     (if crypto = IU_CHUNK_CRY_AES_SHA1
      then Some (ISRCRY_CIPHER_AES, ISRCRY_MODE_CBC, ISRCRY_PADDING_PKCS5, ISRCRY_HASH_SHA1, 16)
      else None)"

definition iu_chunk_crypto_is_valid :: "c_enum \<Rightarrow> bool" where
  "iu_chunk_crypto_is_valid type = (crypto_get_algs type \<noteq> None)"

definition iu_chunk_crypto_hashlen :: "c_enum \<Rightarrow> nat" where
  "iu_chunk_crypto_hashlen type =
     (case crypto_get_algs type of None \<Rightarrow> 0 | Some (_, _, _, alg, _) \<Rightarrow> isrcry_hash_len alg)"

definition iu_chunk_crypto_digest :: "c_enum \<Rightarrow> bytes \<Rightarrow> bytes option option" where
  "iu_chunk_crypto_digest crypto inp =
     (case crypto_get_algs crypto of
        None \<Rightarrow> Some None
      | Some (_, _, _, alg, _) \<Rightarrow>
          (case isrcry_hash_alloc alg of
             None \<Rightarrow> Some None
           | Some ctx \<Rightarrow> do { (ctx, out) \<leftarrow> isrcry_hash_final (isrcry_hash_update ctx inp); Some (Some out) }))"

definition iu_chunk_compress_parse :: "string \<Rightarrow> c_enum" where
  "iu_chunk_compress_parse desc =
     (if desc = ''none'' then IU_CHUNK_COMP_NONE
      else if desc = ''zlib'' then IU_CHUNK_COMP_ZLIB
      else if desc = ''lzf'' then IU_CHUNK_COMP_LZF
      else IU_CHUNK_COMP_UNKNOWN)"

definition compress_to_isrcry :: "c_enum \<Rightarrow> c_enum option" where
  "compress_to_isrcry c =
     (if c = IU_CHUNK_COMP_ZLIB then Some ISRCRY_COMPRESS_ZLIB
      else if c = IU_CHUNK_COMP_LZF then Some ISRCRY_COMPRESS_LZF
      else None)"

definition iu_chunk_compress_is_enabled :: "u32 \<Rightarrow> c_enum \<Rightarrow> bool" where
  "iu_chunk_compress_is_enabled enabled_map type =
     (if type \<le> IU_CHUNK_COMP_UNKNOWN \<or> type \<ge> 8 * 4 then False
      else enabled_map AND push_bit (nat type) 1 \<noteq> 0)"

section \<open>Encoding\<close>

text \<open>The compression step: the compressed data, if it is to be used, and the new \<^verbatim>\<open>*compress\<close>.\<close>

definition chunk_compress :: "('z, 's, 'm) backends \<Rightarrow> c_enum \<Rightarrow> bytes \<Rightarrow> nat \<Rightarrow> (bytes option \<times> c_enum) option option" where
  "chunk_compress b compress inp cipher_block =
     (if compress \<noteq> IU_CHUNK_COMP_NONE then
        (case compress_to_isrcry compress of
           None \<Rightarrow> Some None
         | Some cry_compress \<Rightarrow>
             (case isrcry_compress_alloc b cry_compress of
                None \<Rightarrow> Some None
              | Some (desc, cctx) \<Rightarrow>
                  do {
                   (rc, cctx) \<leftarrow> isrcry_compress_init desc cctx ISRCRY_ENCODE 0;
                   if rc \<noteq> ISRCRY_OK then Some None
                   else do {
                     (rc, cctx, plainlen, compresslen, compressed) \<leftarrow>
                       isrcry_compress_final desc cctx inp (replicate (length inp) 0);
                     Some (Some (
                       if rc \<noteq> ISRCRY_OK \<or> compresslen \<ge> sub32 (length inp) cipher_block
                       then (None, IU_CHUNK_COMP_NONE)
                       else (Some (take compresslen compressed), compress)))
                   }}))
      else Some (Some (None, compress)))"

text \<open>The result: output buffer, its used length, tag, key, and the compression used.\<close>

definition iu_chunk_encode :: "('z, 's, 'm) backends \<Rightarrow> c_enum \<Rightarrow> bytes \<Rightarrow> bytes \<Rightarrow> c_enum
    \<Rightarrow> (bytes \<times> nat \<times> bytes \<times> bytes \<times> c_enum) option option" where
  "iu_chunk_encode b crypto inp out compress =
     (case crypto_get_algs crypto of
        None \<Rightarrow> Some None
      | Some (cipher, mode, padding, hash, keylen) \<Rightarrow>
     (case chunk_compress b compress inp (isrcry_cipher_block cipher) of
        None \<Rightarrow> None
      | Some None \<Rightarrow> Some None
      | Some (Some (compressed, compress)) \<Rightarrow>
     (case isrcry_hash_alloc hash of
        None \<Rightarrow> Some None
      | Some hctx \<Rightarrow> do {
          (hctx, key) \<leftarrow> isrcry_hash_final
            (isrcry_hash_update hctx (case compressed of Some c \<Rightarrow> c | None \<Rightarrow> inp));
          (case isrcry_cipher_alloc cipher mode of
             None \<Rightarrow> Some None
           | Some cctx \<Rightarrow> do {
               (rc, cctx) \<leftarrow> isrcry_cipher_init cctx ISRCRY_ENCRYPT (Some key) (int keylen) None;
               if rc \<noteq> ISRCRY_OK then Some None
               else
                 let (rc, out, outlen) =
                   (case compressed of
                      Some c \<Rightarrow>
                        (case isrcry_cipher_final (Some cctx) padding (Some c) (length c) (Some out) (Some (length inp)) of
                           (rc, _, out1, n) \<Rightarrow> (rc, buf_of out out1, case n of Some n \<Rightarrow> n | None \<Rightarrow> length inp))
                    | None \<Rightarrow>
                        (case isrcry_cipher_process cctx (Some inp) (length inp) (Some out) of
                           (rc, _, out1) \<Rightarrow> (rc, buf_of out out1, length inp)))
                 in if rc \<noteq> ISRCRY_OK then Some None
                 else do {
                   (hctx, tag) \<leftarrow> isrcry_hash_final (isrcry_hash_update hctx (take outlen out));
                   Some (Some (out, outlen, tag, key, compress))
                 }
             })
        })))"

section \<open>Decoding\<close>

text \<open>The decompression step at the end, into the caller's buffer.\<close>

definition chunk_decompress :: "('z, 's, 'm) backends \<Rightarrow> c_enum \<Rightarrow> bytes \<Rightarrow> bytes \<Rightarrow> bytes option option" where
  "chunk_decompress b cry_compress compressed out =
     (case isrcry_compress_alloc b cry_compress of
        None \<Rightarrow> Some None
      | Some (desc, cctx) \<Rightarrow>
          do {
           (rc, cctx) \<leftarrow> isrcry_compress_init desc cctx ISRCRY_DECODE 0;
           if rc \<noteq> ISRCRY_OK then Some None
           else do {
             (rc, cctx, compresslen, plainlen, out1) \<leftarrow> isrcry_compress_final desc cctx compressed out;
             Some (if rc \<noteq> ISRCRY_OK then None else if plainlen \<noteq> length out then None else Some out1)
           }})"

text \<open>\<^verbatim>\<open>outlen\<close> is the length of the output buffer; the chunk number is used in log messages only.\<close>

definition iu_chunk_decode :: "('z, 's, 'm) backends \<Rightarrow> c_enum \<Rightarrow> c_enum \<Rightarrow> bytes \<Rightarrow> bytes \<Rightarrow> bytes
    \<Rightarrow> bytes option option" where
  "iu_chunk_decode b crypto compress inp key out =
     (let is_compressed = (compress \<noteq> IU_CHUNK_COMP_NONE); inlen = length inp; outlen = length out in
      case crypto_get_algs crypto of
        None \<Rightarrow> Some None
      | Some (cipher, mode, padding, hash, keylen) \<Rightarrow>
     (let hashlen = isrcry_hash_len hash in
      if is_compressed \<and> compress_to_isrcry compress = None then Some None
      else if (\<not> is_compressed \<and> inlen \<noteq> outlen) \<or> inlen = 0 \<or> inlen > outlen then Some None
      else case isrcry_cipher_alloc cipher mode of
        None \<Rightarrow> Some None
      | Some cctx \<Rightarrow> do {
          (rc, cctx) \<leftarrow> isrcry_cipher_init cctx ISRCRY_DECRYPT (Some key) (int keylen) None;
          if rc \<noteq> ISRCRY_OK then Some None
          else
            let (rc, plain, out) =
              (if is_compressed then
                 (case isrcry_cipher_final (Some cctx) padding (Some inp) inlen (Some (replicate outlen 0)) (Some outlen) of
                    (rc, _, out1, n) \<Rightarrow> (rc, take (case n of Some n \<Rightarrow> n | None \<Rightarrow> outlen) (buf_of [] out1), out))
               else
                 (case isrcry_cipher_process cctx (Some inp) inlen (Some out) of
                    (rc, _, out1) \<Rightarrow> (rc, buf_of out out1, buf_of out out1)))
            in if rc \<noteq> ISRCRY_OK then Some None
            else case isrcry_hash_alloc hash of
              None \<Rightarrow> Some None
            | Some hctx \<Rightarrow> do {
                (hctx, calc_hash) \<leftarrow> isrcry_hash_final (isrcry_hash_update hctx plain);
                if take hashlen key \<noteq> calc_hash then Some None
                else if is_compressed then
                  (case compress_to_isrcry compress of
                     None \<Rightarrow> Some None
                   | Some cry_compress \<Rightarrow> chunk_decompress b cry_compress plain out)
                else Some (Some out)
              }
        }))"

section \<open>Keyed contexts\<close>

lemma aes_cbc_open:
  obtains c0 K where "isrcry_cipher_alloc ISRCRY_CIPHER_AES ISRCRY_MODE_CBC = Some c0" "ctx_ok K"
    "\<And>dir. dir = ISRCRY_ENCRYPT \<or> dir = ISRCRY_DECRYPT \<Longrightarrow>
      isrcry_cipher_init c0 dir (Some key) 16 None = Some (ISRCRY_OK, K\<lparr>cc_direction := dir\<rparr>)"
proof -
  obtain c0 where c0: "isrcry_cipher_alloc ISRCRY_CIPHER_AES ISRCRY_MODE_CBC = Some c0"
    by (simp add: isrcry_cipher_alloc_def cipher_desc_def mode_desc_def)
  show thesis
    by (rule cipher_open [OF c0, of 16 None key]) (use that [OF c0] in auto)
qed

section \<open>Round trip\<close>

lemma sha1_open:
  obtains h where "isrcry_hash_alloc ISRCRY_HASH_SHA1 = Some h" "sha1_holds h []"
  using isrcry_hash_alloc_sha1 by blast

lemma sha1_digest_again:
  assumes "sha1_holds h []"
  obtains h' where "isrcry_hash_final (isrcry_hash_update h x) = Some (h', sha1_spec_hash x)" "sha1_holds h' []"
  using sha1.fin_pieces [OF assms, of "[x]"] by auto

lemma aes_sha1_algs:
  "crypto_get_algs IU_CHUNK_CRY_AES_SHA1 = Some (ISRCRY_CIPHER_AES, ISRCRY_MODE_CBC, ISRCRY_PADDING_PKCS5, ISRCRY_HASH_SHA1, 16)"
  "isrcry_cipher_block ISRCRY_CIPHER_AES = 16" "isrcry_hash_len ISRCRY_HASH_SHA1 = 20"
  by (simp_all add: crypto_get_algs_def isrcry_cipher_block_def cipher_desc_def isrcry_hash_len_def hash_desc_def
      isrcry_sha1_desc_def)

lemma chunk_plain_round_trip:
  assumes cc: "chunk_compress b compress inp 16 = Some (Some (None, c'))"
    and len: "length inp = n * 16" "inp \<noteq> []" "length inp \<le> length out"
  shows "\<exists>e. iu_chunk_encode b IU_CHUNK_CRY_AES_SHA1 inp out compress =
      Some (Some (e @ drop (length inp) out, length inp, sha1_spec_hash e, sha1_spec_hash inp, c'))
    \<and> length e = length inp
    \<and> (\<forall>dst. length dst = length inp \<longrightarrow>
        iu_chunk_decode b' IU_CHUNK_CRY_AES_SHA1 IU_CHUNK_COMP_NONE e (sha1_spec_hash inp) dst = Some (Some inp))"
proof -
  obtain h where h: "isrcry_hash_alloc ISRCRY_HASH_SHA1 = Some h" "sha1_holds h []"
    by (rule sha1_open)
  obtain h1 where h1: "isrcry_hash_final (isrcry_hash_update h inp) = Some (h1, sha1_spec_hash inp)" "sha1_holds h1 []"
    using h(2) by (rule sha1_digest_again)
  obtain c0 K where K: "isrcry_cipher_alloc ISRCRY_CIPHER_AES ISRCRY_MODE_CBC = Some c0" "ctx_ok K"
    "\<And>dir. dir = ISRCRY_ENCRYPT \<or> dir = ISRCRY_DECRYPT \<Longrightarrow>
      isrcry_cipher_init c0 dir (Some (sha1_spec_hash inp)) 16 None = Some (ISRCRY_OK, K\<lparr>cc_direction := dir\<rparr>)"
    by (rule aes_cbc_open [of "sha1_spec_hash inp"]) blast
  obtain c1 e where e: "isrcry_cipher_process (K\<lparr>cc_direction := 1\<rparr>) (Some inp) (length inp) (Some out) =
      (ISRCRY_OK, c1, Some (e @ drop (length inp) out))" "length e = length inp"
    and d: "\<forall>b'. length b' = length inp \<longrightarrow>
        (\<exists>c2. isrcry_cipher_process (K\<lparr>cc_direction := 0\<rparr>) (Some e) (length inp) (Some b') = (ISRCRY_OK, c2, Some inp))"
    using process_round_trip [OF K(2) len(1,3)] by blast
  obtain h2 where h2: "isrcry_hash_final (isrcry_hash_update h1 e) = Some (h2, sha1_spec_hash e)"
    using h1(2) by (rule sha1_digest_again)
  have "iu_chunk_encode b IU_CHUNK_CRY_AES_SHA1 inp out compress =
      Some (Some (e @ drop (length inp) out, length inp, sha1_spec_hash e, sha1_spec_hash inp, c'))"
    using e h2 by (simp add: iu_chunk_encode_def aes_sha1_algs cc h h1 K buf_of_def)
  moreover have "iu_chunk_decode b' IU_CHUNK_CRY_AES_SHA1 IU_CHUNK_COMP_NONE e (sha1_spec_hash inp) dst = Some (Some inp)"
    if dst: "length dst = length inp" for dst
  proof -
    obtain c2 where "isrcry_cipher_process (K\<lparr>cc_direction := 0\<rparr>) (Some e) (length inp) (Some dst) = (ISRCRY_OK, c2, Some inp)"
      using d dst by blast
    then show ?thesis
      using dst len(2) e(2) by (simp add: iu_chunk_decode_def aes_sha1_algs h h1 K buf_of_def)
  qed
  ultimately show ?thesis
    using e(2) by blast
qed

lemma chunk_compressed_round_trip:
  assumes cc: "chunk_compress b compress inp 16 = Some (Some (Some z, c'))"
    and c': "compress_to_isrcry c' = Some cr" "c' \<noteq> IU_CHUNK_COMP_NONE"
    and z: "length z + 16 < length inp" "length inp < 2 ^ 32" "length inp \<le> length out"
    and dec: "\<And>dst. length dst = length inp \<Longrightarrow> chunk_decompress b' cr z dst = Some (Some inp)"
  defines "len \<equiv> (length z div 16 + 1) * 16"
  shows "\<exists>e. iu_chunk_encode b IU_CHUNK_CRY_AES_SHA1 inp out compress =
      Some (Some (e @ drop len out, len, sha1_spec_hash e, sha1_spec_hash z, c'))
    \<and> length e = len
    \<and> (\<forall>dst. length dst = length inp \<longrightarrow>
        iu_chunk_decode b' IU_CHUNK_CRY_AES_SHA1 c' e (sha1_spec_hash z) dst = Some (Some inp))"
proof -
  have lz: "len \<le> length inp" "0 < len" "length z \<le> length inp" "length z + 16 < 2 ^ 32"
    using z div_times_less_eq_dividend [of "length z" 16] by (simp_all add: len_def)
  obtain h where h: "isrcry_hash_alloc ISRCRY_HASH_SHA1 = Some h" "sha1_holds h []"
    by (rule sha1_open)
  obtain h1 where h1: "isrcry_hash_final (isrcry_hash_update h z) = Some (h1, sha1_spec_hash z)" "sha1_holds h1 []"
    using h(2) by (rule sha1_digest_again)
  obtain c0 K where K: "isrcry_cipher_alloc ISRCRY_CIPHER_AES ISRCRY_MODE_CBC = Some c0" "ctx_ok K"
    "\<And>dir. dir = ISRCRY_ENCRYPT \<or> dir = ISRCRY_DECRYPT \<Longrightarrow>
      isrcry_cipher_init c0 dir (Some (sha1_spec_hash z)) 16 None = Some (ISRCRY_OK, K\<lparr>cc_direction := dir\<rparr>)"
    by (rule aes_cbc_open [of "sha1_spec_hash z"]) blast
  obtain c1 e where e: "isrcry_cipher_final (Some (K\<lparr>cc_direction := 1\<rparr>)) ISRCRY_PADDING_PKCS5 (Some z) (length z) (Some out)
      (Some (length inp)) = (ISRCRY_OK, c1, Some (e @ drop len out), Some len)" "length e = len"
    and d: "\<forall>b' m'. length z \<le> length b' \<longrightarrow> length z \<le> m' \<longrightarrow>
        (\<exists>c2. isrcry_cipher_final (Some (K\<lparr>cc_direction := 0\<rparr>)) ISRCRY_PADDING_PKCS5 (Some e) len (Some b') (Some m') =
           (ISRCRY_OK, c2, Some (z @ drop (length z) b'), Some (length z)))"
    using final_round_trip [OF K(2), of z "length inp" out] lz z(3) unfolding len_def by blast
  obtain h2 where h2: "isrcry_hash_final (isrcry_hash_update h1 e) = Some (h2, sha1_spec_hash e)"
    using h1(2) by (rule sha1_digest_again)
  have "iu_chunk_encode b IU_CHUNK_CRY_AES_SHA1 inp out compress =
      Some (Some (e @ drop len out, len, sha1_spec_hash e, sha1_spec_hash z, c'))"
    using e h2 by (simp add: iu_chunk_encode_def aes_sha1_algs cc h h1 K buf_of_def)
  moreover have "iu_chunk_decode b' IU_CHUNK_CRY_AES_SHA1 c' e (sha1_spec_hash z) dst = Some (Some inp)"
    if dst: "length dst = length inp" for dst
  proof -
    obtain c2 where "isrcry_cipher_final (Some (K\<lparr>cc_direction := 0\<rparr>)) ISRCRY_PADDING_PKCS5 (Some e) len
        (Some (replicate (length inp) 0)) (Some (length inp)) =
        (ISRCRY_OK, c2, Some (z @ drop (length z) (replicate (length inp) 0)), Some (length z))"
      using d lz(3) by (metis length_replicate)
    then show ?thesis
      using dst lz e(2) c' dec [OF dst] by (simp add: iu_chunk_decode_def aes_sha1_algs h h1 K buf_of_def)
  qed
  ultimately show ?thesis
    using e(2) by blast
qed

section \<open>The compression step\<close>

lemma chunk_compress_one_shot:
  assumes "compress \<noteq> IU_CHUNK_COMP_NONE" "compress_to_isrcry compress = Some cr" "isrcry_compress_alloc b cr = Some (d, c0)"
    and "map_option fst (isrcry_compress_init d c0 ISRCRY_ENCODE 0) = Some ISRCRY_OK"
  shows "chunk_compress b compress inp k = map_option (\<lambda>(rc, il, ol, out).
      Some (if rc \<noteq> ISRCRY_OK \<or> ol \<ge> sub32 (length inp) k then (None, IU_CHUNK_COMP_NONE)
            else (Some (take ol out), compress)))
    (one_shot d c0 ISRCRY_ENCODE inp (replicate (length inp) 0))"
proof -
  obtain c1 where c1: "isrcry_compress_init d c0 ISRCRY_ENCODE 0 = Some (ISRCRY_OK, c1)"
    using assms(4) by (auto simp: map_option_case split: option.splits)
  then show ?thesis
    using assms by (cases "isrcry_compress_final d c1 inp (replicate (length inp) 0)")
      (auto simp: chunk_compress_def one_shot_def)
qed

lemma chunk_decompress_one_shot:
  assumes "isrcry_compress_alloc b cr = Some (d, c0)" "map_option fst (isrcry_compress_init d c0 ISRCRY_DECODE 0) = Some ISRCRY_OK"
  shows "chunk_decompress b cr z dst = map_option (\<lambda>(rc, il, ol, out).
      if rc \<noteq> ISRCRY_OK \<or> ol \<noteq> length dst then None else Some out) (one_shot d c0 ISRCRY_DECODE z dst)"
proof -
  obtain c1 where c1: "isrcry_compress_init d c0 ISRCRY_DECODE 0 = Some (ISRCRY_OK, c1)"
    using assms(2) by (auto simp: map_option_case split: option.splits)
  then show ?thesis
    using assms by (cases "isrcry_compress_final d c1 z dst") (auto simp: chunk_decompress_def one_shot_def)
qed

text \<open>What a caller of the codec relies on, for the result of encoding \<open>inp\<close>.\<close>

definition chunk_sealed :: "('z, 's, 'm) backends \<Rightarrow> bytes \<Rightarrow> bytes \<Rightarrow> bytes \<times> nat \<times> bytes \<times> bytes \<times> c_enum \<Rightarrow> bool" where
  "chunk_sealed b' inp out r \<longleftrightarrow> (case r of (out', n, tag, key, c') \<Rightarrow>
     0 < n \<and> n \<le> length inp \<and> length out' = length out \<and> drop (length inp) out' = drop (length inp) out
     \<and> tag = sha1_spec_hash (take n out') \<and> length key = 20
     \<and> (\<forall>dst. length dst = length inp \<longrightarrow>
          iu_chunk_decode b' IU_CHUNK_CRY_AES_SHA1 c' (take n out') key dst = Some (Some inp)))"

lemma chunk_sealed_plain:
  assumes "chunk_compress b compress inp 16 = Some (Some (None, IU_CHUNK_COMP_NONE))"
    and "16 dvd length inp" "inp \<noteq> []" "length inp \<le> length out"
  shows "\<exists>r. iu_chunk_encode b IU_CHUNK_CRY_AES_SHA1 inp out compress = Some (Some r) \<and> chunk_sealed b' inp out r"
proof -
  obtain n where n: "length inp = n * 16"
    using assms(2) by (metis dvdE mult.commute)
  show ?thesis
    using chunk_plain_round_trip [OF assms(1) n assms(3,4), of b'] assms(3,4) by (auto simp: chunk_sealed_def)
qed

lemma chunk_sealed_compressed:
  assumes "chunk_compress b compress inp 16 = Some (Some (Some z, compress))"
    and "compress_to_isrcry compress = Some cr" "compress \<noteq> IU_CHUNK_COMP_NONE"
    and "length z + 16 < length inp" "length inp < 2 ^ 32" "length inp \<le> length out"
    and "\<And>dst. length dst = length inp \<Longrightarrow> chunk_decompress b' cr z dst = Some (Some inp)"
  shows "\<exists>r. iu_chunk_encode b IU_CHUNK_CRY_AES_SHA1 inp out compress = Some (Some r) \<and> chunk_sealed b' inp out r"
proof -
  let ?len = "(length z div 16 + 1) * 16"
  have len: "?len \<le> length inp" "0 < ?len"
    using assms(4) div_times_less_eq_dividend [of "length z" 16] by simp_all
  obtain e where "iu_chunk_encode b IU_CHUNK_CRY_AES_SHA1 inp out compress =
      Some (Some (e @ drop ?len out, ?len, sha1_spec_hash e, sha1_spec_hash z, compress))" "length e = ?len"
    "\<forall>dst. length dst = length inp \<longrightarrow>
        iu_chunk_decode b' IU_CHUNK_CRY_AES_SHA1 compress e (sha1_spec_hash z) dst = Some (Some inp)"
    using chunk_compressed_round_trip [OF assms(1-7)] by blast
  then show ?thesis
    using len assms(6) by (auto simp: chunk_sealed_def)
qed

text \<open>Round trip of the codec over any compressor that keeps the contract.\<close>

lemma chunk_round_trip:
  assumes "compress \<noteq> IU_CHUNK_COMP_NONE" "compress_to_isrcry compress = Some cr"
    and e: "isrcry_compress_alloc b cr = Some (d, c0)" "map_option fst (isrcry_compress_init d c0 ISRCRY_ENCODE 0) = Some ISRCRY_OK"
    and d: "isrcry_compress_alloc b' cr = Some (d', c0')" "map_option fst (isrcry_compress_init d' c0' ISRCRY_DECODE 0) = Some ISRCRY_OK"
    and "block_compressor (one_shot d c0 ISRCRY_ENCODE) (one_shot d' c0' ISRCRY_DECODE) fits" "fits inp"
    and len: "16 dvd length inp" "inp \<noteq> []" "length inp < 2 ^ 32" "length inp \<le> length out"
  shows "\<exists>r. iu_chunk_encode b IU_CHUNK_CRY_AES_SHA1 inp out compress = Some (Some r) \<and> chunk_sealed b' inp out r"
proof -
  note bc = assms(7)
  obtain rc il ol o1 where o1: "one_shot d c0 ISRCRY_ENCODE inp (replicate (length inp) 0) = Some (rc, il, ol, o1)"
    "length o1 = length inp"
    using block_compressor.comp_total [OF bc assms(8), of "replicate (length inp) 0"] len(3) by auto
  have "16 \<le> length inp"
    using len(1,2) by (simp add: dvd_imp_le)
  then have sub: "sub32 (length inp) 16 = length inp - 16"
    using len(3) by (intro sub32_small) simp_all
  note cc = chunk_compress_one_shot [OF assms(1,2) e, of inp 16, unfolded o1 sub]
  show ?thesis
  proof (cases "rc \<noteq> ISRCRY_OK \<or> ol \<ge> length inp - 16")
    case True
    with cc have "chunk_compress b compress inp 16 = Some (Some (None, IU_CHUNK_COMP_NONE))"
      by simp
    from chunk_sealed_plain [OF this len(1,2,4)] show ?thesis .
  next
    case False
    with cc have c: "chunk_compress b compress inp 16 = Some (Some (Some (take ol o1), compress))"
      by simp
    have l: "length (take ol o1) + 16 < length inp"
      using False o1(2) by auto
    have "chunk_decompress b' cr (take ol o1) dst = Some (Some inp)" if "length dst = length inp" for dst
      using block_compressor.decomp_comp [OF bc assms(8), of "replicate (length inp) 0" il ol o1 dst] False o1(1) that len(3)
      by (simp add: chunk_decompress_one_shot [OF d])
    from chunk_sealed_compressed [OF c assms(2,1) l len(3,4) this] show ?thesis .
  qed
qed

lemma chunk_round_trip_lzf:
  assumes "16 dvd length inp" "inp \<noteq> []" "length inp < 2 ^ 31" "length inp \<le> length out"
  shows "\<exists>r. iu_chunk_encode b IU_CHUNK_CRY_AES_SHA1 inp out IU_CHUNK_COMP_LZF = Some (Some r) \<and> chunk_sealed b' inp out r"
proof -
  let ?u = "\<lambda>u :: ('a, 'b, 'c) any_ctx. case u of Any_lzf c \<Rightarrow> Some c | _ \<Rightarrow> None"
  let ?v = "\<lambda>u :: ('d, 'e, 'f) any_ctx. case u of Any_lzf c \<Rightarrow> Some c | _ \<Rightarrow> None"
  let ?d = "any_desc ?u Any_lzf (isrcry_lzf_desc (b_lzf_garbage b))"
  let ?d' = "any_desc ?v Any_lzf (isrcry_lzf_desc (b_lzf_garbage b'))"
  let ?c = "\<lparr>zc_direction = 0, zc_level = 0, zc_ctx = None\<rparr>"
  have fits: "lzf_lim inp"
    using assms(1-3) dvd_imp_le [of 16 "length inp"] by (simp add: lzf_lim_def)
  have bc: "block_compressor (one_shot ?d ?c ISRCRY_ENCODE) (one_shot ?d' ?c ISRCRY_DECODE) lzf_lim"
  proof -
    have e: "one_shot ?d ?c ISRCRY_ENCODE = one_shot (isrcry_lzf_desc (b_lzf_garbage b)) (ctx_in ?u ?c) ISRCRY_ENCODE"
      by (intro ext one_shot_any) simp
    have d: "one_shot ?d' ?c ISRCRY_DECODE = one_shot (isrcry_lzf_desc (b_lzf_garbage b')) (ctx_in ?v ?c) ISRCRY_DECODE"
      by (intro ext one_shot_any) simp
    show ?thesis
      unfolding e d by (rule lzf_block_compressor)
  qed
  show ?thesis
  proof (rule chunk_round_trip [OF _ _ _ _ _ _ bc fits assms(1,2) _ assms(4)])
    show "compress_to_isrcry IU_CHUNK_COMP_LZF = Some ISRCRY_COMPRESS_LZF"
      by (simp add: compress_to_isrcry_def)
    show "isrcry_compress_alloc b ISRCRY_COMPRESS_LZF = Some (?d, ?c)"
      "isrcry_compress_alloc b' ISRCRY_COMPRESS_LZF = Some (?d', ?c)"
      by (simp_all add: isrcry_compress_alloc_def compress_desc_def)
  qed (use assms(3) in \<open>simp_all add: isrcry_compress_init_def any_desc_def lzf_desc_defs lzf_alloc_def ctx_in_def\<close>)
qed

lemma chunk_round_trip_none:
  assumes "16 dvd length inp" "inp \<noteq> []" "length inp \<le> length out"
  shows "\<exists>r. iu_chunk_encode b IU_CHUNK_CRY_AES_SHA1 inp out IU_CHUNK_COMP_NONE = Some (Some r) \<and> chunk_sealed b' inp out r"
  by (rule chunk_sealed_plain [OF _ assms]) (simp add: chunk_compress_def)

section \<open>Integrity\<close>

text \<open>Whatever is accepted has the key as the hash of its plain form.\<close>

lemma chunk_decode_integrity:
  assumes "iu_chunk_decode b crypto compress inp key out = Some (Some out')"
  shows "crypto = IU_CHUNK_CRY_AES_SHA1 \<and> inp \<noteq> [] \<and> length inp \<le> length out \<and>
    (\<exists>plain. sha1_spec_hash plain = take 20 key \<and>
      (if compress = IU_CHUNK_COMP_NONE then out' = plain \<and> length inp = length out
       else \<exists>cr. compress_to_isrcry compress = Some cr \<and> chunk_decompress b cr plain out = Some (Some out')))"
proof -
  obtain h where h: "isrcry_hash_alloc ISRCRY_HASH_SHA1 = Some h" "sha1_holds h []"
    by (rule sha1_open)
  have hf: "\<exists>h'. isrcry_hash_final (isrcry_hash_update h x) = Some (h', sha1_spec_hash x)" for x
    using h(2) by (rule sha1_digest_again) blast
  have c: "crypto = IU_CHUNK_CRY_AES_SHA1"
    using assms by (simp add: iu_chunk_decode_def crypto_get_algs_def Let_def split: if_splits)
  obtain c0 K where K: "isrcry_cipher_alloc ISRCRY_CIPHER_AES ISRCRY_MODE_CBC = Some c0" "ctx_ok K"
    "\<And>dir. dir = ISRCRY_ENCRYPT \<or> dir = ISRCRY_DECRYPT \<Longrightarrow>
      isrcry_cipher_init c0 dir (Some key) 16 None = Some (ISRCRY_OK, K\<lparr>cc_direction := dir\<rparr>)"
    by (rule aes_cbc_open [of key]) blast
  show ?thesis
  proof (cases "compress = IU_CHUNK_COMP_NONE")
    case True
    obtain rc c1 o1 where p: "isrcry_cipher_process (K\<lparr>cc_direction := 0\<rparr>) (Some inp) (length inp) (Some out) = (rc, c1, o1)"
      by (metis prod_cases3)
    obtain h' where "isrcry_hash_final (isrcry_hash_update h (buf_of out o1)) = Some (h', sha1_spec_hash (buf_of out o1))"
      using hf by blast
    then show ?thesis
      using assms True c p by (simp add: iu_chunk_decode_def Let_def aes_sha1_algs h K split: if_splits)
  next
    case False
    obtain rc c1 o1 n where p: "isrcry_cipher_final (Some (K\<lparr>cc_direction := 0\<rparr>)) ISRCRY_PADDING_PKCS5 (Some inp) (length inp)
        (Some (replicate (length out) 0)) (Some (length out)) = (rc, c1, o1, n)"
      by (metis prod_cases4)
    let ?p = "take (case n of Some n \<Rightarrow> n | None \<Rightarrow> length out) (buf_of [] o1)"
    obtain h' where "isrcry_hash_final (isrcry_hash_update h ?p) = Some (h', sha1_spec_hash ?p)"
      using hf by blast
    then show ?thesis
      using assms False c p by (auto simp: iu_chunk_decode_def Let_def aes_sha1_algs h K split: if_splits)
  qed
qed

section \<open>What is accepted, exactly\<close>

text \<open>
  Decryption of a chunk, block by block: AES with the schedule of the first 16 bytes of the chunk's key, CBC, and an
  initialisation vector of zeroes.
\<close>

definition chunk_aes_key :: "bytes \<Rightarrow> isrcry_aes_key" where
  "chunk_aes_key key = snd (aes_init (cd_zero aes_desc) (Some key) 16)"

definition chunk_plain :: "bytes \<Rightarrow> bytes \<Rightarrow> bytes" where
  "chunk_plain key c = snd (cbc_dec_spec (aes_dec_block (chunk_aes_key key)) 16 (length c div 16) (replicate 16 0) c)"

lemma chunk_aes_key_ok: "aes_init (cd_zero aes_desc) (Some key) 16 = (ISRCRY_OK, chunk_aes_key key)" "aes_key_ok (chunk_aes_key key)"
proof -
  obtain k where "aes_init (cd_zero aes_desc) (Some key) 16 = (ISRCRY_OK, k)" "aes_key_ok k"
    using aes_init_ok [OF aes_zero_shape, of 16 key] by auto
  then show "aes_init (cd_zero aes_desc) (Some key) 16 = (ISRCRY_OK, chunk_aes_key key)" "aes_key_ok (chunk_aes_key key)"
    by (simp_all add: chunk_aes_key_def)
qed

lemma chunk_decrypt_ctx:
  obtains c0 K where "isrcry_cipher_alloc ISRCRY_CIPHER_AES ISRCRY_MODE_CBC = Some c0" "ctx_ok K" "cc_direction K = ISRCRY_DECRYPT"
    "isrcry_cipher_init c0 ISRCRY_DECRYPT (Some key) 16 None = Some (ISRCRY_OK, K)"
    "\<And>c. snd (ctx_dec K (length c div 16) c) = chunk_plain key c"
proof -
  obtain c0 where c0: "isrcry_cipher_alloc ISRCRY_CIPHER_AES ISRCRY_MODE_CBC = Some c0" "cc_key c0 = cd_zero aes_desc"
      "cc_mode c0 = isrcry_cbc_desc"
    by (simp add: isrcry_cipher_alloc_def cipher_desc_def mode_desc_def)
  show thesis
    using isrcry_cipher_init_ok [OF isrcry_cipher_alloc_ok [OF c0(1)], of 16 0 None key] c0 chunk_aes_key_ok(1) [of key]
    by (intro that [OF c0(1)]) (auto simp: mode_dec_spec_def chunk_plain_def)
qed

lemma length_chunk_plain:
  assumes "16 dvd length c"
  shows "length (chunk_plain key c) = length c"
proof -
  obtain c0 K where "ctx_ok K" "\<And>c. snd (ctx_dec K (length c div 16) c) = chunk_plain key c"
    by (rule chunk_decrypt_ctx [of key]) blast
  then show ?thesis
    using length_ctx_dec [of K "length c div 16" c] assms by simp
qed

text \<open>It is the plain form whose encryption the chunk is.\<close>

lemma chunk_plain_encrypts:
  assumes "16 dvd length c"
  shows "snd (cbc_enc_spec (aes_enc_block (chunk_aes_key key)) 16 (length c div 16) (replicate 16 0) (chunk_plain key c)) = c"
  using aes.cbc_enc_dec_spec [OF chunk_aes_key_ok(2), of "replicate 16 0" "length c div 16" c key] assms
  by (simp add: chunk_plain_def)

text \<open>An uncompressed chunk is decided without abort: accepted exactly when the key is the hash of the decryption.\<close>

lemma chunk_decode_plain_total:
  assumes "16 dvd length inp" "inp \<noteq> []" "length out = length inp"
  shows "iu_chunk_decode b IU_CHUNK_CRY_AES_SHA1 IU_CHUNK_COMP_NONE inp key out =
    Some (if take 20 key = sha1_spec_hash (chunk_plain key inp) then Some (chunk_plain key inp) else None)"
proof -
  let ?p = "chunk_plain key inp"
  obtain h where h: "isrcry_hash_alloc ISRCRY_HASH_SHA1 = Some h" "sha1_holds h []"
    by (rule sha1_open)
  obtain c0 K where K: "isrcry_cipher_alloc ISRCRY_CIPHER_AES ISRCRY_MODE_CBC = Some c0" "ctx_ok K"
    "cc_direction K = ISRCRY_DECRYPT" "isrcry_cipher_init c0 ISRCRY_DECRYPT (Some key) 16 None = Some (ISRCRY_OK, K)"
    "\<And>c. snd (ctx_dec K (length c div 16) c) = chunk_plain key c"
    by (rule chunk_decrypt_ctx [of key]) blast
  obtain c1 where p: "isrcry_cipher_process K (Some inp) (length inp) (Some out) = (ISRCRY_OK, c1, Some ?p)"
    using mode_decrypt_eq [OF K(2), of "length inp div 16" inp out] K(3,5) assms(1,3) by (simp add: isrcry_cipher_process_def)
  obtain h1 where h1: "isrcry_hash_final (isrcry_hash_update h ?p) = Some (h1, sha1_spec_hash ?p)"
    using h(2) by (rule sha1_digest_again)
  show ?thesis
    using p h1 assms(2,3) by (simp add: iu_chunk_decode_def Let_def aes_sha1_algs h(1) K(1,4) buf_of_def)
qed

text \<open>A compressed chunk: lengths, padding and hash are checked before the decompressor sees anything.\<close>

lemma chunk_decode_compressed_total:
  assumes "compress \<noteq> IU_CHUNK_COMP_NONE" "compress_to_isrcry compress = Some cr" "length out < 2 ^ 32"
  shows "iu_chunk_decode b IU_CHUNK_CRY_AES_SHA1 compress inp key out =
    (if inp = [] \<or> length out < length inp \<or> \<not> 16 dvd length inp then Some None
     else case pkcs5_strip 16 (chunk_plain key inp) of
       None \<Rightarrow> Some None
     | Some z \<Rightarrow> if take 20 key = sha1_spec_hash z then chunk_decompress b cr z out else Some None)"
proof (cases "inp = [] \<or> length out < length inp")
  case True
  then show ?thesis
    using assms by (auto simp: iu_chunk_decode_def Let_def aes_sha1_algs)
next
  case F: False
  obtain h where h: "isrcry_hash_alloc ISRCRY_HASH_SHA1 = Some h" "sha1_holds h []"
    by (rule sha1_open)
  obtain c0 K where K: "isrcry_cipher_alloc ISRCRY_CIPHER_AES ISRCRY_MODE_CBC = Some c0" "ctx_ok K"
    "cc_direction K = ISRCRY_DECRYPT" "isrcry_cipher_init c0 ISRCRY_DECRYPT (Some key) 16 None = Some (ISRCRY_OK, K)"
    "\<And>c. snd (ctx_dec K (length c div 16) c) = chunk_plain key c"
    by (rule chunk_decrypt_ctx [of key]) blast
  have pd: "pad_desc ISRCRY_PADDING_PKCS5 = Some pkcs5_desc"
    by (simp add: pad_desc_def)
  show ?thesis
  proof (cases "16 dvd length inp")
    case False
    then have "length inp mod 16 \<noteq> 0"
      by (simp add: dvd_eq_mod_eq_0)
    then show ?thesis
      using F assms K False
      by (simp add: iu_chunk_decode_def Let_def aes_sha1_algs isrcry_cipher_final_def cipher_final_decrypt_def pd ctx_ok_def
          aes_desc_def)
  next
    case True
    with F obtain m where m: "length inp = (m + 1) * 16"
      by (metis dvdE mult.commute length_0_conv mult_0 not0_implies_Suc Suc_eq_plus1)
    have sm: "snd (ctx_dec K (m + 1) inp) = chunk_plain key inp"
      using K(5) [of inp] m by simp
    obtain c b' where f: "cipher_final_decrypt K pkcs5_desc inp (length inp) (replicate (length out) 0) (length out) =
        (case pkcs5_strip 16 (chunk_plain key inp) of
           None \<Rightarrow> (ISRCRY_BAD_PADDING, c, b', length out)
         | Some z \<Rightarrow> (ISRCRY_OK, c, z @ drop (length z) (replicate (length out) 0), length z))"
      using cipher_final_decrypt_strip [OF K(2) m, of "replicate (length out) 0" "length out"] F assms(3) unfolding sm by auto
    show ?thesis
    proof (cases "pkcs5_strip 16 (chunk_plain key inp)")
      case None
      then show ?thesis
        using F assms K(1,3,4) True f by (simp add: iu_chunk_decode_def Let_def aes_sha1_algs isrcry_cipher_final_def pd)
    next
      case (Some z)
      obtain h1 where h1: "isrcry_hash_final (isrcry_hash_update h z) = Some (h1, sha1_spec_hash z)"
        using h(2) by (rule sha1_digest_again)
      show ?thesis
        using F assms K(1,3,4) True f Some h1 h(1)
        by (simp add: iu_chunk_decode_def Let_def aes_sha1_algs isrcry_cipher_final_def pd buf_of_def)
    qed
  qed
qed

end
