(* ===== verification/Isr_LZF_Stream.thy ===== *)
theory Isr_LZF_Stream
  imports Isr_Compress
begin

text \<open>
  The LZF stream format, \<^verbatim>\<open>crypto/lzf-stream.c\<close>: the encoder cuts its input into blocks, the decoder is a state machine over
  the bytes of a stream.  Both keep an input and an output buffer, so that a caller may pass pieces of any size.

  The pointers that advance through the caller's buffers are the offsets \<open>ip\<close> and \<open>op\<close>.  A pointer that a helper returns into the
  input is the list of bytes it points to, and one into an output buffer is an \<open>out_place\<close>.  The block compressor is the LZF
  descriptor of \<open>Isr_Compress\<close>.  \<^verbatim>\<open>crc32\<close> of zlib and the contents of fresh memory are fields of \<open>lzf_env\<close>.  \<open>None\<close> is an access
  outside a buffer, a failed assertion, or a loop that does not end.
\<close>

record lzf_env =
  e_crc32 :: "u32 \<Rightarrow> bytes \<Rightarrow> u32"
  e_htab :: LZF_STATE
  e_in :: bytes
  e_out :: bytes

definition MAX_BLOCK :: nat where "MAX_BLOCK = 2 ^ 16 - 1"
definition MAX_HEADER :: nat where "MAX_HEADER = 7"
definition BUFLEN :: nat where "BUFLEN = MAX_BLOCK + MAX_HEADER"

datatype lzf_decode_state = WANT_HEADER_1 | WANT_HEADER_2 | WANT_HEADER_3 | WANT_DATA | AT_EOF | DATA_ERROR

record lzf_stream_ctx =
  ls_block_ctx :: "LZF_STATE isrcry_compress_ctx"
  ls_crc :: u32
  ls_wrote_trailer :: bool
  ls_decode_state :: lzf_decode_state
  ls_block_type :: u8
  ls_output_size :: nat
  ls_in :: bytes
  ls_in_offset :: nat
  ls_in_count :: nat
  ls_out :: bytes
  ls_out_offset :: nat
  ls_out_count :: nat

section \<open>Buffering\<close>

text \<open>The last argument is the variadic one, which the states without it ignore.\<close>

definition set_state :: "lzf_stream_ctx \<Rightarrow> lzf_decode_state \<Rightarrow> nat \<Rightarrow> lzf_stream_ctx" where
  "set_state s state arg = s\<lparr>ls_decode_state := state, ls_in_count := (case state of
     WANT_HEADER_1 \<Rightarrow> 1 | WANT_HEADER_2 \<Rightarrow> 2 | WANT_HEADER_3 \<Rightarrow> arg | WANT_DATA \<Rightarrow> arg | AT_EOF \<Rightarrow> 0 | DATA_ERROR \<Rightarrow> 0)\<rparr>"

definition consume_input :: "lzf_stream_ctx \<Rightarrow> bytes \<Rightarrow> nat \<Rightarrow> (bytes option \<times> lzf_stream_ctx \<times> nat) option" where
  "consume_input s inp ip =
     (let count = length inp - ip in
      if ls_in_offset s = 0 \<and> ls_in_count s \<le> count then
        Some (Some (take (ls_in_count s) (drop ip inp)), s, ip + ls_in_count s)
      else
        let consuming = min count (sub32 (ls_in_count s) (ls_in_offset s)) in
        if length (ls_in s) < ls_in_offset s + consuming then None
        else
          let s = s\<lparr>ls_in := blit (ls_in s) (ls_in_offset s) (take consuming (drop ip inp)),
                    ls_in_offset := ls_in_offset s + consuming\<rparr> in
          if ls_in_offset s = ls_in_count s then
            Some (Some (take (ls_in_count s) (ls_in s)), s\<lparr>ls_in_offset := 0\<rparr>, ip + consuming)
          else Some (None, s, ip + consuming))"

definition input_data_pending :: "lzf_stream_ctx \<Rightarrow> bool" where
  "input_data_pending s = (case ls_decode_state s of
     WANT_HEADER_1 \<Rightarrow> ls_in_offset s \<noteq> 0 | AT_EOF \<Rightarrow> ls_in_offset s \<noteq> 0 | _ \<Rightarrow> True)"

definition output_data_is_buffered :: "lzf_stream_ctx \<Rightarrow> bool" where
  "output_data_is_buffered s \<longleftrightarrow> ls_out_count s \<noteq> 0"

datatype out_place = User nat | Temp

definition get_output_buffer :: "lzf_stream_ctx \<Rightarrow> nat \<Rightarrow> bytes \<Rightarrow> nat \<Rightarrow> (out_place \<times> lzf_stream_ctx \<times> nat) option" where
  "get_output_buffer s len out op =
     (if output_data_is_buffered s then None
      else if len \<le> length out - op then Some (User op, s, op + len)
      else Some (Temp, s\<lparr>ls_out_count := len\<rparr>, op))"

text \<open>The \<open>len\<close> bytes at a place, and writing there.\<close>

definition place_bytes :: "out_place \<Rightarrow> nat \<Rightarrow> lzf_stream_ctx \<Rightarrow> bytes \<Rightarrow> bytes" where
  "place_bytes p len s out = (case p of User i \<Rightarrow> take len (drop i out) | Temp \<Rightarrow> take len (ls_out s))"

definition place_write :: "out_place \<Rightarrow> bytes \<Rightarrow> lzf_stream_ctx \<Rightarrow> bytes \<Rightarrow> (lzf_stream_ctx \<times> bytes) option" where
  "place_write p xs s out = (case p of
     User i \<Rightarrow> if i + length xs \<le> length out then Some (s, blit out i xs) else None
   | Temp \<Rightarrow> if length xs \<le> length (ls_out s) then Some (s\<lparr>ls_out := blit (ls_out s) 0 xs\<rparr>, out) else None)"

definition produce_output :: "lzf_stream_ctx \<Rightarrow> bytes \<Rightarrow> nat \<Rightarrow> (lzf_stream_ctx \<times> bytes \<times> nat) option" where
  "produce_output s out op =
     (let producing = min (length out - op) (sub32 (ls_out_count s) (ls_out_offset s)) in
      if length (ls_out s) < ls_out_offset s + producing then None
      else
        let out = blit out op (take producing (drop (ls_out_offset s) (ls_out s)));
            s = s\<lparr>ls_out_offset := ls_out_offset s + producing\<rparr> in
        Some (if ls_out_offset s = ls_out_count s then s\<lparr>ls_out_offset := 0, ls_out_count := 0\<rparr> else s, out, op + producing))"

definition lzf_stream_alloc :: "lzf_env \<Rightarrow> lzf_stream_ctx isrcry_compress_ctx
    \<Rightarrow> (isrcry_result \<times> lzf_stream_ctx isrcry_compress_ctx) option" where
  "lzf_stream_alloc e cctx = do {
     (ret, block_ctx) \<leftarrow> isrcry_compress_init (isrcry_lzf_desc (e_htab e)) \<lparr>zc_direction = 0, zc_level = 0, zc_ctx = None\<rparr>
         (zc_direction cctx) (zc_level cctx);
     Some (if ret \<noteq> ISRCRY_OK then (ret, cctx)
          else (ISRCRY_OK, cctx\<lparr>zc_ctx := Some (set_state \<lparr>ls_block_ctx = block_ctx, ls_crc = 0, ls_wrote_trailer = False,
            ls_decode_state = WANT_HEADER_1, ls_block_type = 0, ls_output_size = 0, ls_in = e_in e, ls_in_offset = 0,
            ls_in_count = 0, ls_out = e_out e, ls_out_offset = 0, ls_out_count = 0\<rparr> WANT_HEADER_1 0)\<rparr>))
   }"

section \<open>Encoding\<close>

text \<open>The direction and the level of the outer context come with the block to be encoded.\<close>

definition block_reinit :: "lzf_env \<Rightarrow> c_enum \<Rightarrow> int \<Rightarrow> LZF_STATE isrcry_compress_ctx \<Rightarrow> LZF_STATE isrcry_compress_ctx option" where
  "block_reinit e dir level c = map_option snd (isrcry_compress_init (isrcry_lzf_desc (e_htab e)) c dir level)"

text \<open>
  \<^verbatim>\<open>in\<close> points to \<open>inp\<close> in a buffer that goes on with \<open>beyond\<close>.
\<close>

definition data_encode :: "lzf_env \<Rightarrow> c_enum \<Rightarrow> int \<Rightarrow> lzf_stream_ctx \<Rightarrow> bytes \<Rightarrow> bytes \<Rightarrow> bytes \<Rightarrow> nat
    \<Rightarrow> (lzf_stream_ctx \<times> bytes \<times> nat) option" where
  "data_encode e dir level s inp beyond out op = do {
     let s = s\<lparr>ls_crc := e_crc32 e (ls_crc s) inp\<rparr>;
     (ret, c, in_count, out_count, z) \<leftarrow>
       isrcry_compress_final (isrcry_lzf_desc_at beyond (e_htab e)) (ls_block_ctx s) inp (take MAX_BLOCK (drop 7 (ls_out s)));
     c \<leftarrow> block_reinit e dir level c;
     let s = s\<lparr>ls_out := blit (ls_out s) 7 z, ls_block_ctx := c\<rparr>;
     if ret \<noteq> ISRCRY_OK then do {
       (p, s, op) \<leftarrow> get_output_buffer s (length inp + 5) out op;
       (s, out) \<leftarrow> place_write p ([0x5A, 0x56, 0] @ STORE16H (of_nat (length inp)) @ inp) s out;
       Some (s, out, op)
     } else
       produce_output (s\<lparr>ls_out := blit (ls_out s) 0 ([0x5A, 0x56, 1] @ STORE16H (of_nat out_count) @ STORE16H (of_nat in_count)),
         ls_out_count := out_count + 7\<rparr>) out op
   }"

text \<open>A block of \<open>MAX_BLOCK\<close> bytes; what follows it is not looked at.\<close>

definition compress_step :: "lzf_env \<Rightarrow> c_enum \<Rightarrow> int \<Rightarrow> bytes \<Rightarrow> lzf_stream_ctx \<Rightarrow> nat \<Rightarrow> bytes \<Rightarrow> nat
    \<Rightarrow> (bool \<times> lzf_stream_ctx \<times> nat \<times> bytes \<times> nat) option" where
  "compress_step e dir level inp s ip out op =
     (if output_data_is_buffered s then Some (False, s, ip, out, op)
      else do {
        (inbuf, s, ip) \<leftarrow> consume_input (s\<lparr>ls_in_count := MAX_BLOCK\<rparr>) inp ip;
        case inbuf of
          None \<Rightarrow> Some (False, s, ip, out, op)
        | Some blk \<Rightarrow> do {
            (s, out, op) \<leftarrow> data_encode e dir level s blk [] out op;
            Some (True, s, ip, out, op)
          }
      })"

partial_function (option) compress_loop :: "lzf_env \<Rightarrow> c_enum \<Rightarrow> int \<Rightarrow> bytes \<Rightarrow> lzf_stream_ctx \<Rightarrow> nat \<Rightarrow> bytes \<Rightarrow> nat
    \<Rightarrow> (lzf_stream_ctx \<times> nat \<times> bytes \<times> nat) option" where
  "compress_loop e dir level inp s ip out op = do {
     (again, s, ip, out, op) \<leftarrow> compress_step e dir level inp s ip out op;
     if again then compress_loop e dir level inp s ip out op else Some (s, ip, out, op)
   }"

definition lzf_stream_compress_process :: "lzf_env \<Rightarrow> lzf_stream_ctx compress_op" where
  "lzf_stream_compress_process e cctx inp out = do {
     s \<leftarrow> zc_ctx cctx;
     (s, out, op) \<leftarrow> produce_output s out 0;
     (s, ip, out, op) \<leftarrow> compress_loop e (zc_direction cctx) (zc_level cctx) inp s 0 out op;
     Some (ISRCRY_OK, cctx\<lparr>zc_ctx := Some s\<rparr>, ip, op, out)
   }"

text \<open>The last block, from the input buffer; then the trailer.\<close>

definition compress_tail :: "lzf_env \<Rightarrow> c_enum \<Rightarrow> int \<Rightarrow> lzf_stream_ctx \<Rightarrow> bytes \<Rightarrow> nat \<Rightarrow> (lzf_stream_ctx \<times> bytes \<times> nat) option" where
  "compress_tail e dir level s out op =
     (if input_data_pending s then do {
        (s, out, op) \<leftarrow> data_encode e dir level s (take (ls_in_offset s) (ls_in s)) (drop (ls_in_offset s) (ls_in s)) out op;
        Some (s\<lparr>ls_in_offset := 0\<rparr>, out, op)
      } else Some (s, out, op))"

definition compress_trailer :: "lzf_stream_ctx \<Rightarrow> bytes \<Rightarrow> nat \<Rightarrow> (lzf_stream_ctx \<times> bytes \<times> nat) option" where
  "compress_trailer s out op =
     (if ls_wrote_trailer s then Some (s, out, op)
      else do {
        (p, s, op) \<leftarrow> get_output_buffer s 7 out op;
        (s, out) \<leftarrow> place_write p ([0x5A, 0x56, 0x30] @ STORE32H (ls_crc s)) s out;
        Some (s\<lparr>ls_wrote_trailer := True\<rparr>, out, op)
      })"

definition lzf_stream_compress_final :: "lzf_env \<Rightarrow> lzf_stream_ctx compress_op" where
  "lzf_stream_compress_final e cctx inp out = do {
     (ret, cctx, ip, op, out) \<leftarrow> lzf_stream_compress_process e cctx inp out;
     if ret \<noteq> ISRCRY_OK then Some (ret, cctx, ip, op, out)
     else do {
       s \<leftarrow> zc_ctx cctx;
       if output_data_is_buffered s then Some (ISRCRY_BUFFER_OVERFLOW, cctx, ip, op, out)
       else do {
         (s, out, op) \<leftarrow> compress_tail e (zc_direction cctx) (zc_level cctx) s out op;
         if output_data_is_buffered s then Some (ISRCRY_BUFFER_OVERFLOW, cctx\<lparr>zc_ctx := Some s\<rparr>, ip, op, out)
         else do {
           (s, out, op) \<leftarrow> compress_trailer s out op;
           Some (if output_data_is_buffered s then ISRCRY_BUFFER_OVERFLOW else ISRCRY_OK, cctx\<lparr>zc_ctx := Some s\<rparr>, ip, op, out)
         }
       }
     }
   }"

section \<open>Decoding\<close>

definition header_decode_1 :: "lzf_stream_ctx \<Rightarrow> bytes \<Rightarrow> lzf_stream_ctx" where
  "header_decode_1 s buf =
     (if buf ! 0 = 0 then set_state s AT_EOF 0
      else if buf ! 0 = 0x5A then set_state s WANT_HEADER_2 0
      else set_state s DATA_ERROR 0)"

definition header_decode_2 :: "lzf_stream_ctx \<Rightarrow> bytes \<Rightarrow> lzf_stream_ctx" where
  "header_decode_2 s buf =
     (if buf ! 0 \<noteq> 0x56 then set_state s DATA_ERROR 0
      else
        let s = s\<lparr>ls_block_type := buf ! 1\<rparr> in
        if ls_block_type s = 0 then set_state s WANT_HEADER_3 2
        else if ls_block_type s = 1 then set_state s WANT_HEADER_3 4
        else if ls_block_type s = 0x30 then set_state s WANT_HEADER_3 4
        else set_state s DATA_ERROR 0)"

definition header_decode_3 :: "lzf_stream_ctx \<Rightarrow> bytes \<Rightarrow> lzf_stream_ctx option" where
  "header_decode_3 s buf =
     (if ls_block_type s = 0 then
        let usize = unat (LOAD16H buf) in
        Some ((set_state s WANT_DATA usize)\<lparr>ls_output_size := usize\<rparr>)
      else if ls_block_type s = 1 then
        let csize = unat (LOAD16H buf); usize = unat (LOAD16H (drop 2 buf)) in
        Some ((set_state s WANT_DATA csize)\<lparr>ls_output_size := usize\<rparr>)
      else if ls_block_type s = 0x30 then
        Some (if ls_crc s \<noteq> LOAD32H buf then set_state s DATA_ERROR 0 else set_state s WANT_HEADER_1 0)
      else None)"

definition data_decode :: "lzf_env \<Rightarrow> c_enum \<Rightarrow> int \<Rightarrow> lzf_stream_ctx \<Rightarrow> bytes \<Rightarrow> out_place \<Rightarrow> bytes
    \<Rightarrow> (lzf_stream_ctx \<times> bytes) option" where
  "data_decode e dir level s inp p out =
     (let accept = (\<lambda>data s out. (set_state (s\<lparr>ls_crc := e_crc32 e (ls_crc s) data\<rparr>) WANT_HEADER_1 0, out)) in
      if ls_block_type s = 0 then
        (if ls_in_count s \<noteq> ls_output_size s then None
         else do { (s, out) \<leftarrow> place_write p inp s out; Some (accept inp s out) })
      else if ls_block_type s = 1 then do {
        (ret, c, inlen, outlen, z) \<leftarrow>
          isrcry_compress_final (isrcry_lzf_desc (e_htab e)) (ls_block_ctx s) inp (place_bytes p (ls_output_size s) s out);
        c \<leftarrow> block_reinit e dir level c;
        let s = s\<lparr>ls_block_ctx := c\<rparr>;
        (s, out) \<leftarrow> place_write p z s out;
        Some (if ret \<noteq> ISRCRY_OK \<or> inlen \<noteq> ls_in_count s \<or> outlen \<noteq> ls_output_size s then (set_state s DATA_ERROR 0, out)
              else accept (take outlen z) s out)
      }
      else None)"

text \<open>One round of the loop: whether it goes on, the result so far, and the new state.\<close>

definition decompress_step :: "lzf_env \<Rightarrow> c_enum \<Rightarrow> int \<Rightarrow> bytes \<Rightarrow> lzf_stream_ctx \<Rightarrow> nat \<Rightarrow> bytes \<Rightarrow> nat
    \<Rightarrow> (bool \<times> isrcry_result \<times> lzf_stream_ctx \<times> nat \<times> bytes \<times> nat) option" where
  "decompress_step e dir level inp s ip out op =
     (if ls_decode_state s = WANT_DATA \<and> output_data_is_buffered s then Some (False, ISRCRY_OK, s, ip, out, op)
      else do {
        (inbuf, s, ip) \<leftarrow> consume_input s inp ip;
        case inbuf of
          None \<Rightarrow> Some (False, ISRCRY_OK, s, ip, out, op)
        | Some buf \<Rightarrow>
            (case ls_decode_state s of
               WANT_HEADER_1 \<Rightarrow> Some (True, ISRCRY_OK, header_decode_1 s buf, ip, out, op)
             | WANT_HEADER_2 \<Rightarrow> Some (True, ISRCRY_OK, header_decode_2 s buf, ip, out, op)
             | WANT_HEADER_3 \<Rightarrow> do { s \<leftarrow> header_decode_3 s buf; Some (True, ISRCRY_OK, s, ip, out, op) }
             | WANT_DATA \<Rightarrow> do {
                 (p, s, op) \<leftarrow> get_output_buffer s (ls_output_size s) out op;
                 (s, out) \<leftarrow> data_decode e dir level s buf p out;
                 Some (True, ISRCRY_OK, s, ip, out, op)
               }
             | AT_EOF \<Rightarrow> Some (False, if ip < length inp then ISRCRY_BAD_FORMAT else ISRCRY_OK, s, ip, out, op)
             | DATA_ERROR \<Rightarrow> Some (False, ISRCRY_BAD_FORMAT, s, ip, out, op))
      })"

partial_function (option) decompress_loop :: "lzf_env \<Rightarrow> c_enum \<Rightarrow> int \<Rightarrow> bytes \<Rightarrow> lzf_stream_ctx \<Rightarrow> nat \<Rightarrow> bytes \<Rightarrow> nat
    \<Rightarrow> (isrcry_result \<times> lzf_stream_ctx \<times> nat \<times> bytes \<times> nat) option" where
  "decompress_loop e dir level inp s ip out op = do {
     (again, ret, s, ip, out, op) \<leftarrow> decompress_step e dir level inp s ip out op;
     if again then decompress_loop e dir level inp s ip out op else Some (ret, s, ip, out, op)
   }"

definition lzf_stream_decompress_process :: "lzf_env \<Rightarrow> lzf_stream_ctx compress_op" where
  "lzf_stream_decompress_process e cctx inp out = do {
     s \<leftarrow> zc_ctx cctx;
     (s, out, op) \<leftarrow> produce_output s out 0;
     (ret, s, ip, out, op) \<leftarrow> decompress_loop e (zc_direction cctx) (zc_level cctx) inp s 0 out op;
     Some (ret, cctx\<lparr>zc_ctx := Some s\<rparr>, ip, op, out)
   }"

definition lzf_stream_decompress_final :: "lzf_env \<Rightarrow> lzf_stream_ctx compress_op" where
  "lzf_stream_decompress_final e cctx inp out = do {
     (ret, cctx, ip, op, out) \<leftarrow> lzf_stream_decompress_process e cctx inp out;
     s \<leftarrow> zc_ctx cctx;
     Some (if ret \<noteq> ISRCRY_OK then ret
           else if ip = length inp \<and> input_data_pending s then ISRCRY_BAD_FORMAT
           else if output_data_is_buffered s then ISRCRY_BUFFER_OVERFLOW
           else ISRCRY_OK, cctx, ip, op, out)
   }"

definition isrcry_lzf_stream_desc :: "lzf_env \<Rightarrow> lzf_stream_ctx isrcry_compress_desc" where
  "isrcry_lzf_stream_desc e = \<lparr>zd_can_stream = True, zd_alloc = lzf_stream_alloc e,
     zd_compress_process = Some (lzf_stream_compress_process e), zd_compress_final = lzf_stream_compress_final e,
     zd_decompress_process = Some (lzf_stream_decompress_process e), zd_decompress_final = lzf_stream_decompress_final e\<rparr>"

end
