(* ===== verification/Isr_LZF_Stream_Correct.thy ===== *)
theory Isr_LZF_Stream_Correct
  imports Isr_LZF_Stream
begin

text \<open>
  The stream format as a list of blocks, and what the encoder and the decoder of \<^verbatim>\<open>crypto/lzf-stream.c\<close> have to do with it:
  whatever the sizes of the pieces, the encoder writes a stream whose blocks carry its input, and the decoder recovers the
  data of every stream of the format.
\<close>

section \<open>The format\<close>

datatype zv = ZV_stored bytes | ZV_packed bytes bytes | ZV_crc u32

fun zv_type :: "zv \<Rightarrow> u8" where
  "zv_type (ZV_stored _) = 0"
| "zv_type (ZV_packed _ _) = 1"
| "zv_type (ZV_crc _) = 0x30"

fun zv_sizes :: "zv \<Rightarrow> bytes" where
  "zv_sizes (ZV_stored d) = STORE16H (of_nat (length d))"
| "zv_sizes (ZV_packed z d) = STORE16H (of_nat (length z)) @ STORE16H (of_nat (length d))"
| "zv_sizes (ZV_crc c) = STORE32H c"

fun zv_body :: "zv \<Rightarrow> bytes" where
  "zv_body (ZV_stored d) = d"
| "zv_body (ZV_packed z d) = z"
| "zv_body (ZV_crc c) = []"

fun zv_data :: "zv \<Rightarrow> bytes" where
  "zv_data (ZV_stored d) = d"
| "zv_data (ZV_packed z d) = d"
| "zv_data (ZV_crc c) = []"

definition zv_bytes :: "zv \<Rightarrow> bytes" where
  "zv_bytes b = [0x5A, 0x56, zv_type b] @ zv_sizes b @ zv_body b"

text \<open>The checksum after a block, and the blocks that may follow the checksum \<open>c\<close>.\<close>

fun zv_next :: "lzf_env \<Rightarrow> u32 \<Rightarrow> zv \<Rightarrow> u32" where
  "zv_next e c (ZV_crc _) = c"
| "zv_next e c b = e_crc32 e c (zv_data b)"

fun zv_ok :: "u32 \<Rightarrow> zv \<Rightarrow> bool" where
  "zv_ok c (ZV_stored d) \<longleftrightarrow> length d \<le> MAX_BLOCK"
| "zv_ok c (ZV_packed z d) \<longleftrightarrow> length z \<le> MAX_BLOCK \<and> length d \<le> MAX_BLOCK
     \<and> (\<forall>dst. length dst = length d \<longrightarrow> lzf_decompress z dst = Some (int (length d), d))"
| "zv_ok c (ZV_crc k) \<longleftrightarrow> k = c"

abbreviation zvs_bytes :: "zv list \<Rightarrow> bytes" where "zvs_bytes bs \<equiv> concat (map zv_bytes bs)"
abbreviation zvs_data :: "zv list \<Rightarrow> bytes" where "zvs_data bs \<equiv> concat (map zv_data bs)"
abbreviation zvs_next :: "lzf_env \<Rightarrow> u32 \<Rightarrow> zv list \<Rightarrow> u32" where "zvs_next e \<equiv> foldl (zv_next e)"

fun zvs_ok :: "lzf_env \<Rightarrow> u32 \<Rightarrow> zv list \<Rightarrow> bool" where
  "zvs_ok e c [] \<longleftrightarrow> True"
| "zvs_ok e c (b # bs) \<longleftrightarrow> zv_ok c b \<and> zvs_ok e (zv_next e c b) bs"

lemma zvs_ok_append: "zvs_ok e c (as @ bs) \<longleftrightarrow> zvs_ok e c as \<and> zvs_ok e (zvs_next e c as) bs"
  by (induction as arbitrary: c) auto

lemma zv_sizes_bound: "zv_ok c b \<Longrightarrow> length (zv_bytes b) \<le> BUFLEN"
  by (cases b) (auto simp: zv_bytes_def BUFLEN_def MAX_HEADER_def)

section \<open>The buffers\<close>

definition held :: "lzf_stream_ctx \<Rightarrow> bytes" where
  "held s = take (ls_in_offset s) (ls_in s)"

definition pending :: "lzf_stream_ctx \<Rightarrow> bytes" where
  "pending s = take (ls_out_count s - ls_out_offset s) (drop (ls_out_offset s) (ls_out s))"

definition bufs_wf :: "lzf_stream_ctx \<Rightarrow> bool" where
  "bufs_wf s \<longleftrightarrow> length (ls_in s) = BUFLEN \<and> length (ls_out s) = BUFLEN \<and> ls_out_count s \<le> BUFLEN
     \<and> (if ls_out_count s = 0 then ls_out_offset s = 0 else ls_out_offset s < ls_out_count s)"

definition block_ready :: "lzf_env \<Rightarrow> c_enum \<Rightarrow> lzf_stream_ctx \<Rightarrow> bool" where
  "block_ready e dir s \<longleftrightarrow> ls_block_ctx s = \<lparr>zc_direction = dir, zc_level = 0, zc_ctx = Some (e_htab e)\<rparr>"

lemma BUFLEN_small: "BUFLEN < 2 ^ 32"
  by (simp add: BUFLEN_def MAX_BLOCK_def MAX_HEADER_def)

lemma pending_empty: "bufs_wf s \<Longrightarrow> pending s = [] \<longleftrightarrow> \<not> output_data_is_buffered s"
  by (auto simp: bufs_wf_def pending_def output_data_is_buffered_def split: if_splits)

lemma length_pending: "bufs_wf s \<Longrightarrow> length (pending s) \<le> BUFLEN"
  by (auto simp: bufs_wf_def pending_def split: if_splits)

lemma produce_output_ok:
  assumes "bufs_wf s" "op \<le> length out"
  shows "\<exists>n x y out'. produce_output s out op = Some (s\<lparr>ls_out_offset := x, ls_out_count := y\<rparr>, out', op + n)
    \<and> bufs_wf (s\<lparr>ls_out_offset := x, ls_out_count := y\<rparr>) \<and> length out' = length out \<and> op + n \<le> length out
    \<and> take (op + n) out' @ pending (s\<lparr>ls_out_offset := x, ls_out_count := y\<rparr>) = take op out @ pending s
    \<and> (length (pending s) \<le> length out - op \<longrightarrow> y = 0)"
proof -
  define n where "n = min (length out - op) (ls_out_count s - ls_out_offset s)"
  have le: "ls_out_offset s \<le> ls_out_count s" "ls_out_count s \<le> BUFLEN" "length (ls_out s) = BUFLEN"
    using assms(1) by (auto simp: bufs_wf_def split: if_splits)
  then have sub: "sub32 (ls_out_count s) (ls_out_offset s) = ls_out_count s - ls_out_offset s"
    using BUFLEN_small by (simp add: sub32_small)
  have n: "n \<le> length out - op" "ls_out_offset s + n \<le> ls_out_count s"
    using le by (auto simp: n_def)
  have lp: "length (pending s) = ls_out_count s - ls_out_offset s"
    using le by (simp add: pending_def)
  let ?w = "take n (drop (ls_out_offset s) (ls_out s))"
  have lw: "length ?w = n"
    using n(2) le by simp
  have split: "pending s = ?w @ take (ls_out_count s - (ls_out_offset s + n)) (drop (ls_out_offset s + n) (ls_out s))"
    using n(2) le by (simp add: pending_def take_add [symmetric] add.commute flip: drop_drop)
  have out': "length (blit out op ?w) = length out" "take (op + n) (blit out op ?w) = take op out @ ?w"
    using n(1) assms(2) lw take_blit [of op ?w out] by simp_all
  show ?thesis
  proof (cases "ls_out_offset s + n = ls_out_count s")
    case True
    have "produce_output s out op = Some (s\<lparr>ls_out_offset := 0, ls_out_count := 0\<rparr>, blit out op ?w, op + n)"
      using n le True by (simp add: produce_output_def sub n_def [symmetric] Let_def)
    moreover have "pending s = ?w"
      using split True by simp
    ultimately show ?thesis
      using out' n(1) assms by - (rule exI [of _ n], rule exI [of _ 0], rule exI [of _ 0], auto simp: bufs_wf_def pending_def)
  next
    case False
    have "produce_output s out op = Some (s\<lparr>ls_out_offset := ls_out_offset s + n, ls_out_count := ls_out_count s\<rparr>, blit out op ?w, op + n)"
      using n le False by (simp add: produce_output_def sub n_def [symmetric] Let_def)
    moreover have "\<not> length (pending s) \<le> length out - op"
      using False n(2) lp le(1) by (simp add: n_def)
    moreover have "take (op + n) (blit out op ?w) @ pending (s\<lparr>ls_out_offset := ls_out_offset s + n, ls_out_count := ls_out_count s\<rparr>) =
        take op out @ pending s"
      unfolding split out'(2) by (simp add: pending_def)
    moreover have "bufs_wf (s\<lparr>ls_out_offset := ls_out_offset s + n, ls_out_count := ls_out_count s\<rparr>)"
      using assms(1) n(2) False by (auto simp: bufs_wf_def split: if_splits)
    ultimately show ?thesis
      using out'(1) n(1) assms(2)
      by (intro exI conjI) (assumption | linarith)+
  qed
qed

lemma consume_input_cases:
  assumes "ls_in_offset s < ls_in_count s \<or> ls_in_offset s = 0" "ls_in_count s \<le> BUFLEN" "length (ls_in s) = BUFLEN" "ip \<le> length inp"
  obtains
    (block) buf ip' i where "consume_input s inp ip = Some (Some buf, s\<lparr>ls_in := i, ls_in_offset := 0\<rparr>, ip')"
      "length i = BUFLEN" "length buf = ls_in_count s" "buf @ drop ip' inp = held s @ drop ip inp"
      "ip \<le> ip'" "ip' \<le> length inp" "0 < ls_in_count s \<longrightarrow> ip < ip'" "ip' + ls_in_offset s = ip + ls_in_count s"
  | (more) i k where "consume_input s inp ip = Some (None, s\<lparr>ls_in := i, ls_in_offset := k\<rparr>, length inp)"
      "length i = BUFLEN" "k < ls_in_count s" "take k i = held s @ drop ip inp" "k = ls_in_offset s + (length inp - ip)"
proof (cases "ls_in_offset s = 0 \<and> ls_in_count s \<le> length inp - ip")
  case True
  show ?thesis
  proof (rule block [of "take (ls_in_count s) (drop ip inp)" "ls_in s" "ip + ls_in_count s"])
    show "consume_input s inp ip =
        Some (Some (take (ls_in_count s) (drop ip inp)), s\<lparr>ls_in := ls_in s, ls_in_offset := 0\<rparr>, ip + ls_in_count s)"
      using True by (simp add: consume_input_def)
    show "take (ls_in_count s) (drop ip inp) @ drop (ip + ls_in_count s) inp = held s @ drop ip inp"
      using True append_take_drop_id [of "ls_in_count s" "drop ip inp"] by (simp add: held_def add.commute)
  qed (use True assms in auto)
next
  case False
  define k where "k = min (length inp - ip) (ls_in_count s - ls_in_offset s)"
  have lt: "ls_in_offset s < ls_in_count s"
    using False assms(1) by auto
  then have sub: "sub32 (ls_in_count s) (ls_in_offset s) = ls_in_count s - ls_in_offset s"
    using BUFLEN_small assms(2) by (simp add: sub32_small)
  define i where "i = blit (ls_in s) (ls_in_offset s) (take k (drop ip inp))"
  have lk: "length (take k (drop ip inp)) = k" "ls_in_offset s + k \<le> ls_in_count s"
    using lt by (auto simp: k_def)
  have i: "length i = BUFLEN" "take (ls_in_offset s + k) i = held s @ take k (drop ip inp)"
    using lk assms(2,3) take_blit [of "ls_in_offset s" "take k (drop ip inp)" "ls_in s"] by (simp_all add: i_def held_def)
  show ?thesis
  proof (cases "ls_in_offset s + k = ls_in_count s")
    case True
    show ?thesis
    proof (rule block [of "take (ls_in_count s) i" i "ip + k"])
      show "consume_input s inp ip = Some (Some (take (ls_in_count s) i), s\<lparr>ls_in := i, ls_in_offset := 0\<rparr>, ip + k)"
        unfolding consume_input_def Let_def if_not_P [OF False] sub k_def [symmetric] using True assms(2,3) by (simp add: i_def)
      show "take (ls_in_count s) i @ drop (ip + k) inp = held s @ drop ip inp"
        using i(2) True append_take_drop_id [of k "drop ip inp"] by (simp add: add.commute)
    qed (use True i(1) lt assms(2,4) in \<open>auto simp: k_def\<close>)
  next
    case more': False
    then have k: "k = length inp - ip"
      using lk(2) by (auto simp: k_def min_def split: if_splits)
    show ?thesis
    proof (rule more [where i = i and k = "ls_in_offset s + k"])
      show "consume_input s inp ip = Some (None, s\<lparr>ls_in := i, ls_in_offset := ls_in_offset s + k\<rparr>, length inp)"
        unfolding consume_input_def Let_def if_not_P [OF False] sub k_def [symmetric]
        using more' assms(2-4) lk(2) k by (simp add: i_def)
    qed (use i more' lk k in auto)
  qed
qed

lemma place_write_ok:
  assumes "bufs_wf s" "\<not> output_data_is_buffered s" "op \<le> length out" "length xs = len" "len \<le> BUFLEN"
  shows "\<exists>p c op' o' out'. get_output_buffer s len out op = Some (p, s\<lparr>ls_out_count := c\<rparr>, op')
    \<and> length (place_bytes p len (s\<lparr>ls_out_count := c\<rparr>) out) = len
    \<and> place_write p xs (s\<lparr>ls_out_count := c\<rparr>) out = Some (s\<lparr>ls_out_count := c, ls_out := o'\<rparr>, out')
    \<and> bufs_wf (s\<lparr>ls_out_count := c, ls_out := o'\<rparr>) \<and> length out' = length out \<and> op \<le> op' \<and> op' \<le> length out
    \<and> take op' out' @ pending (s\<lparr>ls_out_count := c, ls_out := o'\<rparr>) = take op out @ xs
    \<and> (len \<le> length out - op \<longrightarrow> c = 0)"
proof -
  have s: "ls_out_count s = 0" "ls_out_offset s = 0" "length (ls_out s) = BUFLEN" "length (ls_in s) = BUFLEN"
    using assms(1,2) by (auto simp: bufs_wf_def output_data_is_buffered_def)
  show ?thesis
  proof (cases "len \<le> length out - op")
    case True
    then show ?thesis
      using assms s take_blit [of op xs out]
      by - (rule exI [of _ "User op"], rule exI [of _ 0], rule exI [of _ "op + len"], rule exI [of _ "ls_out s"], rule exI [of _ "blit out op xs"],
        auto simp: get_output_buffer_def place_bytes_def place_write_def bufs_wf_def pending_def)
  next
    case False
    then show ?thesis
      using assms s take_blit [of 0 xs "ls_out s"]
      by - (rule exI [of _ "Temp"], rule exI [of _ len], rule exI [of _ op], rule exI [of _ "blit (ls_out s) 0 xs"], rule exI [of _ out],
        auto simp: get_output_buffer_def place_bytes_def place_write_def bufs_wf_def pending_def)
  qed
qed

section \<open>The decoder\<close>

text \<open>
  \<open>awaits s rest bs\<close>: the bytes \<open>rest\<close> that are still to be consumed complete what the decoder has seen so far to the blocks \<open>bs\<close>.
\<close>

definition awaits :: "lzf_stream_ctx \<Rightarrow> bytes \<Rightarrow> zv list \<Rightarrow> bool" where
  "awaits s rest bs \<longleftrightarrow> (case ls_decode_state s of
     WANT_HEADER_1 \<Rightarrow> ls_in_count s = 1 \<and> ls_in_offset s = 0 \<and> rest = zvs_bytes bs
   | WANT_HEADER_2 \<Rightarrow> ls_in_count s = 2 \<and> ls_in_offset s < 2
       \<and> (\<exists>b bs'. bs = b # bs' \<and> held s @ rest = [0x56, zv_type b] @ zv_sizes b @ zv_body b @ zvs_bytes bs')
   | WANT_HEADER_3 \<Rightarrow> ls_in_offset s < ls_in_count s
       \<and> (\<exists>b bs'. bs = b # bs' \<and> ls_block_type s = zv_type b \<and> ls_in_count s = length (zv_sizes b)
            \<and> held s @ rest = zv_sizes b @ zv_body b @ zvs_bytes bs')
   | WANT_DATA \<Rightarrow> (ls_in_offset s < ls_in_count s \<or> ls_in_offset s = 0)
       \<and> (\<exists>b bs'. bs = b # bs' \<and> ls_block_type s = zv_type b \<and> zv_type b \<noteq> 0x30 \<and> ls_in_count s = length (zv_body b)
            \<and> ls_output_size s = length (zv_data b) \<and> held s @ rest = zv_body b @ zvs_bytes bs')
   | _ \<Rightarrow> False)"

definition decoding :: "lzf_env \<Rightarrow> lzf_stream_ctx \<Rightarrow> bytes \<Rightarrow> zv list \<Rightarrow> bool" where
  "decoding e s rest bs \<longleftrightarrow> bufs_wf s \<and> block_ready e ISRCRY_DECODE s \<and> zvs_ok e (ls_crc s) bs \<and> awaits s rest bs"

lemma awaits_input:
  assumes "decoding e s rest bs"
  shows "ls_in_offset s < ls_in_count s \<or> ls_in_offset s = 0" "ls_in_count s \<le> BUFLEN" "length (ls_in s) = BUFLEN"
proof -
  have "zv_ok (ls_crc s) b \<Longrightarrow> length (zv_sizes b) \<le> BUFLEN \<and> length (zv_body b) \<le> BUFLEN" for b
    by (cases b) (auto simp: BUFLEN_def MAX_HEADER_def)
  then show "ls_in_count s \<le> BUFLEN"
    using assms by (auto simp: decoding_def awaits_def BUFLEN_def MAX_HEADER_def split: lzf_decode_state.splits)
  show "ls_in_offset s < ls_in_count s \<or> ls_in_offset s = 0" "length (ls_in s) = BUFLEN"
    using assms by (auto simp: decoding_def awaits_def bufs_wf_def split: lzf_decode_state.splits)
qed

lemma decoding_more:
  assumes "decoding e s (drop ip inp @ later) bs" "length i = BUFLEN" "k < ls_in_count s" "take k i = held s @ drop ip inp"
    "k = ls_in_offset s + (length inp - ip)"
  shows "decoding e (s\<lparr>ls_in := i, ls_in_offset := k\<rparr>) later bs"
  using assms
  by (auto simp: decoding_def awaits_def held_def bufs_wf_def block_ready_def split: lzf_decode_state.splits)

text \<open>The states that read a header leave the output alone.\<close>

lemma zv_type_distinct:
  "zv_type b = 0 \<longleftrightarrow> (\<exists>d. b = ZV_stored d)" "zv_type b = 1 \<longleftrightarrow> (\<exists>z d. b = ZV_packed z d)" "zv_type b = 0x30 \<longleftrightarrow> (\<exists>c. b = ZV_crc c)"
  by (cases b; simp)+

lemma unat_size: "n \<le> MAX_BLOCK \<Longrightarrow> unat (of_nat n :: u16) = n"
  by (simp add: unat_of_nat MAX_BLOCK_def)

lemma LOAD16H_STORE [simp]: "LOAD16H (STORE16H x) = x" "LOAD32H (STORE32H y) = y"
  using LOAD16H_STORE16H [of x "[]"] LOAD32H_STORE32H [of y "[]"] by simp_all

lemma header_1_ok:
  assumes "decoding e s (drop ip inp @ later) bs" "ls_decode_state s = WANT_HEADER_1"
    "buf @ drop ip' inp = held s @ drop ip inp" "length buf = ls_in_count s" "length i = BUFLEN"
  shows "decoding e (header_decode_1 (s\<lparr>ls_in := i, ls_in_offset := 0\<rparr>) buf) (drop ip' inp @ later) bs"
proof -
  have s: "ls_in_count s = 1" "ls_in_offset s = 0" "drop ip inp @ later = zvs_bytes bs"
    using assms(1,2) by (auto simp: decoding_def awaits_def)
  obtain x where x: "buf = [x]"
    using assms(4) s(1) by (auto simp: length_Suc_conv)
  have "[x] @ drop ip' inp @ later = zvs_bytes bs"
    using s(2,3) arg_cong [OF assms(3), of "\<lambda>xs. xs @ later"] x by (simp add: held_def)
  then obtain b bs' where "bs = b # bs'" "x = 0x5A" "drop ip' inp @ later = [0x56, zv_type b] @ zv_sizes b @ zv_body b @ zvs_bytes bs'"
    by (cases bs) (auto simp: zv_bytes_def)
  with assms(1,5) x show ?thesis
    by (simp add: header_decode_1_def set_state_def decoding_def awaits_def held_def bufs_wf_def block_ready_def)
qed

lemma header_2_ok:
  assumes "decoding e s (drop ip inp @ later) bs" "ls_decode_state s = WANT_HEADER_2"
    "buf @ drop ip' inp = held s @ drop ip inp" "length buf = ls_in_count s" "length i = BUFLEN"
  shows "decoding e (header_decode_2 (s\<lparr>ls_in := i, ls_in_offset := 0\<rparr>) buf) (drop ip' inp @ later) bs"
proof -
  obtain b bs' where bs: "bs = b # bs'" "ls_in_count s = 2"
      "held s @ drop ip inp @ later = [0x56, zv_type b] @ zv_sizes b @ zv_body b @ zvs_bytes bs'"
    using assms(1,2) by (auto simp: decoding_def awaits_def)
  have "buf @ drop ip' inp @ later = [0x56, zv_type b] @ zv_sizes b @ zv_body b @ zvs_bytes bs'"
    using bs(3) assms(3) by (metis append.assoc)
  then have "buf = [0x56, zv_type b]" "drop ip' inp @ later = zv_sizes b @ zv_body b @ zvs_bytes bs'"
    using assms(4) bs(2) by (auto simp: length_Suc_conv numeral_2_eq_2)
  with assms(1,5) bs(1) show ?thesis
    by (cases b) (simp_all add: header_decode_2_def set_state_def decoding_def awaits_def held_def bufs_wf_def block_ready_def)
qed

lemma header_3_ok:
  assumes "decoding e s (drop ip inp @ later) bs" "ls_decode_state s = WANT_HEADER_3"
    "buf @ drop ip' inp = held s @ drop ip inp" "length buf = ls_in_count s" "length i = BUFLEN"
  shows "\<exists>s' bs'. header_decode_3 (s\<lparr>ls_in := i, ls_in_offset := 0\<rparr>) buf = Some s' \<and> decoding e s' (drop ip' inp @ later) bs'
    \<and> zvs_data bs' = zvs_data bs \<and> pending s' = pending s"
proof -
  obtain b bs' where bs: "bs = b # bs'" "ls_block_type s = zv_type b" "ls_in_count s = length (zv_sizes b)"
      "held s @ drop ip inp @ later = zv_sizes b @ zv_body b @ zvs_bytes bs'"
    using assms(1,2) by (auto simp: decoding_def awaits_def)
  have "buf @ drop ip' inp @ later = zv_sizes b @ zv_body b @ zvs_bytes bs'"
    using bs(4) assms(3) by (metis append.assoc)
  then have buf: "buf = zv_sizes b" "drop ip' inp @ later = zv_body b @ zvs_bytes bs'"
    using assms(4) bs(3) by (auto simp: append_eq_append_conv)
  have ok: "zv_ok (ls_crc s) b" "zvs_ok e (zv_next e (ls_crc s) b) bs'"
    using assms(1) bs(1) by (simp_all add: decoding_def)
  let ?s = "s\<lparr>ls_in := i, ls_in_offset := 0\<rparr>"
  note defs = header_decode_3_def set_state_def decoding_def awaits_def held_def bufs_wf_def block_ready_def pending_def Let_def
  show ?thesis
  proof (cases b)
    case (ZV_stored d)
    then show ?thesis
      using assms(1,5) bs(1,2) buf ok
      by - (rule exI [of _ "(set_state ?s WANT_DATA (length d))\<lparr>ls_output_size := length d\<rparr>"], rule exI [of _ bs], simp add: defs unat_size)
  next
    case (ZV_packed z d)
    then show ?thesis
      using assms(1,5) bs(1,2) buf ok
      by - (rule exI [of _ "(set_state ?s WANT_DATA (length z))\<lparr>ls_output_size := length d\<rparr>"], rule exI [of _ bs], simp add: defs unat_size)
  next
    case (ZV_crc c)
    then show ?thesis
      using assms(1,5) bs(1,2) buf ok by - (rule exI [of _ "set_state ?s WANT_HEADER_1 0"], rule exI [of _ bs'], simp add: defs)
  qed
qed

lemma block_reinit_ready: "block_ready e dir s \<Longrightarrow> dir \<in> {ISRCRY_ENCODE, ISRCRY_DECODE} \<Longrightarrow> block_reinit e dir 0 c = Some (ls_block_ctx s)"
  by (auto simp: block_reinit_def isrcry_compress_init_def lzf_desc_defs lzf_alloc_def block_ready_def)

lemma block_decode:
  assumes "block_ready e ISRCRY_DECODE s" "zv_ok c (ZV_packed z d)" "length dst = length d"
  shows "isrcry_compress_final (isrcry_lzf_desc (e_htab e)) (ls_block_ctx s) z dst = Some (ISRCRY_OK, ls_block_ctx s, length z, length d, d)"
  using assms by (simp add: block_ready_def isrcry_compress_final_def lzf_desc_defs lzf_do_decompress_def)

text \<open>The state \<open>t\<close> after a block whose data is at a place, with the next checksum.\<close>

lemma data_decode_ok:
  assumes "zv_ok c b" "zv_type b \<noteq> 0x30" "ls_block_type s = zv_type b" "ls_in_count s = length (zv_body b)"
    "ls_output_size s = length (zv_data b)" "block_ready e ISRCRY_DECODE s" "length (place_bytes p (length (zv_data b)) s out) = length (zv_data b)"
    "place_write p (zv_data b) s out = Some (t, out')" "block_ready e ISRCRY_DECODE t"
  shows "data_decode e ISRCRY_DECODE 0 s (zv_body b) p out = Some (set_state (t\<lparr>ls_crc := zv_next e (ls_crc t) b\<rparr>) WANT_HEADER_1 0, out')"
proof (cases b)
  case (ZV_packed z d)
  have "s\<lparr>ls_block_ctx := ls_block_ctx s\<rparr> = s"
    by simp
  with ZV_packed assms show ?thesis
    using place_write_def [of p d s out]
    by (simp add: data_decode_def block_decode [OF assms(6), of c] block_reinit_ready Let_def
        split: out_place.splits if_splits)
      (auto simp: assms)
next
  case (ZV_stored d)
  with assms show ?thesis
    by (simp add: data_decode_def Let_def)
next
  case (ZV_crc k)
  with assms(2) show ?thesis by simp
qed

lemma data_ok:
  assumes "decoding e s (drop ip inp @ later) bs" "ls_decode_state s = WANT_DATA" "\<not> output_data_is_buffered s" "op \<le> length out"
    "buf @ drop ip' inp = held s @ drop ip inp" "length buf = ls_in_count s" "length i = BUFLEN"
  shows "\<exists>p s1 op' s' out' bs'. get_output_buffer (s\<lparr>ls_in := i, ls_in_offset := 0\<rparr>) (ls_output_size s) out op = Some (p, s1, op')
    \<and> data_decode e ISRCRY_DECODE 0 s1 buf p out = Some (s', out') \<and> decoding e s' (drop ip' inp @ later) bs'
    \<and> ls_decode_state s' = WANT_HEADER_1 \<and> length out' = length out \<and> op \<le> op' \<and> op' \<le> length out
    \<and> take op' out' @ pending s' @ zvs_data bs' = take op out @ zvs_data bs
    \<and> (length (zvs_data bs) \<le> length out - op \<longrightarrow> pending s' = [])"
proof -
  let ?s = "s\<lparr>ls_in := i, ls_in_offset := 0\<rparr>"
  obtain b bs' where bs: "bs = b # bs'" "ls_block_type s = zv_type b" "zv_type b \<noteq> 0x30" "ls_in_count s = length (zv_body b)"
      "ls_output_size s = length (zv_data b)" "held s @ drop ip inp @ later = zv_body b @ zvs_bytes bs'"
    using assms(1,2) by (auto simp: decoding_def awaits_def)
  have "buf @ drop ip' inp @ later = zv_body b @ zvs_bytes bs'"
    using bs(6) assms(5) by (metis append.assoc)
  then have buf: "buf = zv_body b" "drop ip' inp @ later = zvs_bytes bs'"
    using assms(6) bs(4) by (auto simp: append_eq_append_conv)
  have ok: "zv_ok (ls_crc s) b" "zvs_ok e (zv_next e (ls_crc s) b) bs'" "block_ready e ISRCRY_DECODE s" "bufs_wf s"
    using assms(1) bs(1) by (simp_all add: decoding_def)
  have small: "length (zv_data b) \<le> BUFLEN"
    using ok(1) by (cases b) (auto simp: BUFLEN_def)
  have wf: "bufs_wf ?s" "\<not> output_data_is_buffered ?s"
    using ok(4) assms(3,7) by (auto simp: bufs_wf_def output_data_is_buffered_def)
  obtain p c op' o' out' where g: "get_output_buffer ?s (length (zv_data b)) out op = Some (p, ?s\<lparr>ls_out_count := c\<rparr>, op')"
      "length (place_bytes p (length (zv_data b)) (?s\<lparr>ls_out_count := c\<rparr>) out) = length (zv_data b)"
      "place_write p (zv_data b) (?s\<lparr>ls_out_count := c\<rparr>) out = Some (?s\<lparr>ls_out_count := c, ls_out := o'\<rparr>, out')"
      "bufs_wf (?s\<lparr>ls_out_count := c, ls_out := o'\<rparr>)" "length out' = length out" "op \<le> op'" "op' \<le> length out"
      "take op' out' @ pending (?s\<lparr>ls_out_count := c, ls_out := o'\<rparr>) = take op out @ zv_data b"
      "length (zv_data b) \<le> length out - op \<longrightarrow> c = 0"
    using place_write_ok [OF wf assms(4) refl small] by blast
  define t where "t = ?s\<lparr>ls_out_count := c, ls_out := o'\<rparr>"
  let ?t = "set_state (t\<lparr>ls_crc := zv_next e (ls_crc t) b\<rparr>) WANT_HEADER_1 0"
  have "data_decode e ISRCRY_DECODE 0 (?s\<lparr>ls_out_count := c\<rparr>) buf p out = Some (?t, out')"
    using ok(3) bs g(2,3) unfolding buf(1) t_def [symmetric]
    by (intro data_decode_ok [OF ok(1)]) (auto simp: block_ready_def t_def)
  moreover have "decoding e ?t (drop ip' inp @ later) bs'"
    using g(4) ok(2,3) buf(2) by (auto simp: decoding_def awaits_def bufs_wf_def block_ready_def set_state_def t_def split: if_splits)
  moreover have pt: "pending ?t = pending t"
    by (simp add: pending_def set_state_def)
  moreover have "take op' out' @ pending t @ zvs_data bs' = take op out @ zvs_data bs"
    using arg_cong [OF g(8), of "\<lambda>xs. xs @ zvs_data bs'"] bs(1) by (simp add: t_def)
  moreover have "length (zvs_data bs) \<le> length out - op \<longrightarrow> pending t = []"
    using g(9) bs(1) by (auto simp: pending_def t_def)
  moreover have "ls_decode_state ?t = WANT_HEADER_1"
    by (simp add: set_state_def)
  ultimately show ?thesis
    using g(1,5-7) bs(5) by (intro exI [of _ p] exI) auto
qed

definition stopped :: "bytes \<Rightarrow> lzf_stream_ctx \<Rightarrow> nat \<Rightarrow> bool" where
  "stopped inp s ip \<longleftrightarrow> ip = length inp \<and> ls_in_offset s < ls_in_count s \<or> pending s \<noteq> []"

definition dec_progress :: "bytes \<Rightarrow> lzf_stream_ctx \<Rightarrow> nat \<Rightarrow> lzf_stream_ctx \<Rightarrow> nat \<Rightarrow> bool" where
  "dec_progress inp s ip s' ip' \<longleftrightarrow> ip < ip' \<or> ip = ip' \<and> ls_decode_state s = WANT_DATA \<and> ls_decode_state s' = WANT_HEADER_1"

text \<open>The states between two rounds: \<open>took\<close> says what a number of rounds have done.\<close>

definition took :: "lzf_env \<Rightarrow> bytes \<Rightarrow> bytes \<Rightarrow> lzf_stream_ctx \<Rightarrow> nat \<Rightarrow> bytes \<Rightarrow> nat \<Rightarrow> zv list
    \<Rightarrow> lzf_stream_ctx \<Rightarrow> nat \<Rightarrow> bytes \<Rightarrow> nat \<Rightarrow> zv list \<Rightarrow> bool" where
  "took e inp later s ip out op bs s' ip' out' op' bs' \<longleftrightarrow>
     decoding e s' (drop ip' inp @ later) bs' \<and> ip \<le> ip' \<and> ip' \<le> length inp \<and> op \<le> op' \<and> op' \<le> length out' \<and> length out' = length out
     \<and> take op' out' @ pending s' @ zvs_data bs' = take op out @ pending s @ zvs_data bs
     \<and> (pending s = [] \<and> length (zvs_data bs) \<le> length out - op \<longrightarrow> pending s' = [])"

lemma took_trans:
  assumes "took e inp later s ip out op bs s1 ip1 out1 op1 bs1" "took e inp later s1 ip1 out1 op1 bs1 s' ip' out' op' bs'"
  shows "took e inp later s ip out op bs s' ip' out' op' bs'"
proof -
  have eq: "take op1 out1 @ pending s1 @ zvs_data bs1 = take op out @ pending s @ zvs_data bs" "op \<le> op1" "op1 \<le> length out1"
      "length out1 = length out"
    using assms(1) by (auto simp: took_def)
  have "pending s = [] \<and> length (zvs_data bs) \<le> length out - op \<longrightarrow> length (zvs_data bs1) \<le> length out1 - op1"
    using arg_cong [OF eq(1), of length] eq(2-4) by auto
  with assms show ?thesis
    by (auto simp: took_def)
qed

lemma decompress_step_ok:
  assumes "decoding e s (drop ip inp @ later) bs" "ip \<le> length inp" "op \<le> length out"
  shows "\<exists>again s' ip' out' op' bs'. decompress_step e ISRCRY_DECODE 0 inp s ip out op = Some (again, ISRCRY_OK, s', ip', out', op')
    \<and> took e inp later s ip out op bs s' ip' out' op' bs'
    \<and> (if again then dec_progress inp s ip s' ip' else stopped inp s' ip')"
proof (cases "ls_decode_state s = WANT_DATA \<and> output_data_is_buffered s")
  case True
  then have "pending s \<noteq> []"
    using assms(1) pending_empty [of s] by (simp add: decoding_def)
  with True assms show ?thesis
    by - (rule exI [of _ False], rule exI [of _ s], rule exI [of _ ip], rule exI [of _ out], rule exI [of _ op], rule exI [of _ bs],
      simp add: decompress_step_def took_def stopped_def)
next
  case False
  have p: "pending (s\<lparr>ls_in := i, ls_in_offset := k\<rparr>) = pending s" for i k
    by (simp add: pending_def)
  show ?thesis
  proof (rule consume_input_cases [OF awaits_input [OF assms(1)] assms(2)], goal_cases)
    case block: (1 buf ip' i)
    let ?s = "s\<lparr>ls_in := i, ls_in_offset := 0\<rparr>"
    note step = decompress_step_def if_not_P [OF False] block(1)
    note pieces = block(4,3,2)
    consider (h1) "ls_decode_state s = WANT_HEADER_1" | (h2) "ls_decode_state s = WANT_HEADER_2" | (h3) "ls_decode_state s = WANT_HEADER_3"
      | (data) "ls_decode_state s = WANT_DATA"
      using assms(1) by (cases "ls_decode_state s") (auto simp: decoding_def awaits_def)
    then show ?thesis
    proof cases
      case h1
      have "pending (header_decode_1 ?s buf) = pending s"
        by (simp add: header_decode_1_def set_state_def pending_def)
      moreover have "ip < ip'"
        using h1 assms(1) block(7) by (simp add: decoding_def awaits_def)
      ultimately show ?thesis
        using header_1_ok [OF assms(1) h1 pieces] h1 assms(3) block(5,6)
        by - (rule exI [of _ True], rule exI [of _ "header_decode_1 ?s buf"], rule exI [of _ ip'], rule exI [of _ out], rule exI [of _ op], rule exI [of _ bs],
          simp add: step took_def dec_progress_def)
    next
      case h2
      have "pending (header_decode_2 ?s buf) = pending s"
        by (simp add: header_decode_2_def set_state_def pending_def Let_def)
      moreover have "ip < ip'"
        using h2 assms(1) block(7) by (simp add: decoding_def awaits_def)
      ultimately show ?thesis
        using header_2_ok [OF assms(1) h2 pieces] h2 assms(3) block(5,6)
        by - (rule exI [of _ True], rule exI [of _ "header_decode_2 ?s buf"], rule exI [of _ ip'], rule exI [of _ out], rule exI [of _ op], rule exI [of _ bs],
          simp add: step took_def dec_progress_def)
    next
      case h3
      obtain s' bs' where s': "header_decode_3 ?s buf = Some s'" "decoding e s' (drop ip' inp @ later) bs'"
          "zvs_data bs' = zvs_data bs" "pending s' = pending s"
        using header_3_ok [OF assms(1) h3 pieces] by blast
      have "ip < ip'"
        using h3 assms(1) block(7) by (auto simp: decoding_def awaits_def)
      with s' show ?thesis
        using h3 assms(3) block(5,6)
        by - (rule exI [of _ True], rule exI [of _ s'], rule exI [of _ ip'], rule exI [of _ out], rule exI [of _ op], rule exI [of _ bs'],
          simp add: step took_def dec_progress_def)
    next
      case data
      then have nb: "\<not> output_data_is_buffered s"
        using False by simp
      then have ps: "pending s = []"
        using assms(1) pending_empty [of s] by (simp add: decoding_def)
      obtain p s1 op' s' out' bs' where d: "get_output_buffer ?s (ls_output_size s) out op = Some (p, s1, op')"
          "data_decode e ISRCRY_DECODE 0 s1 buf p out = Some (s', out')" "decoding e s' (drop ip' inp @ later) bs'"
          "ls_decode_state s' = WANT_HEADER_1" "length out' = length out" "op \<le> op'" "op' \<le> length out"
          "take op' out' @ pending s' @ zvs_data bs' = take op out @ zvs_data bs"
          "length (zvs_data bs) \<le> length out - op \<longrightarrow> pending s' = []"
        using data_ok [OF assms(1) data nb assms(3) pieces] by blast
      then show ?thesis
        using data ps nb block(5,6)
        by - (rule exI [of _ True], rule exI [of _ s'], rule exI [of _ ip'], rule exI [of _ out'], rule exI [of _ op'], rule exI [of _ bs'],
          auto simp add: step took_def dec_progress_def)
    qed
  next
    case more: (2 i k)
    have "decoding e (s\<lparr>ls_in := i, ls_in_offset := k\<rparr>) later bs"
      by (rule decoding_more [OF assms(1) more(2-5)])
    with more(1,3) assms(2,3) show ?thesis
      by - (rule exI [of _ False], rule exI [of _ "s\<lparr>ls_in := i, ls_in_offset := k\<rparr>"], rule exI [of _ "length inp"], rule exI [of _ out], rule exI [of _ op], rule exI [of _ bs],
        simp add: decompress_step_def if_not_P [OF False] took_def p stopped_def)
  qed
qed

lemma decompress_loop_ok:
  assumes "decoding e s (drop ip inp @ later) bs" "ip \<le> length inp" "op \<le> length out"
  shows "\<exists>s' ip' out' op' bs'. decompress_loop e ISRCRY_DECODE 0 inp s ip out op = Some (ISRCRY_OK, s', ip', out', op')
    \<and> took e inp later s ip out op bs s' ip' out' op' bs' \<and> stopped inp s' ip'"
  using assms
proof (induction "2 * (length inp - ip) + (if ls_decode_state s = WANT_DATA then 1 else 0)" arbitrary: s ip out op bs rule: less_induct)
  case less
  obtain again s1 ip1 out1 op1 bs1 where st: "decompress_step e ISRCRY_DECODE 0 inp s ip out op = Some (again, ISRCRY_OK, s1, ip1, out1, op1)"
      "took e inp later s ip out op bs s1 ip1 out1 op1 bs1"
      "if again then dec_progress inp s ip s1 ip1 else stopped inp s1 ip1"
    using decompress_step_ok [OF less.prems] by blast
  show ?case
  proof (cases again)
    case False
    with st show ?thesis
      by (subst decompress_loop.simps) auto
  next
    case True
    have inv: "decoding e s1 (drop ip1 inp @ later) bs1" "ip1 \<le> length inp" "op1 \<le> length out1"
      using st(2) by (simp_all add: took_def)
    have "2 * (length inp - ip1) + (if ls_decode_state s1 = WANT_DATA then 1 else 0)
        < 2 * (length inp - ip) + (if ls_decode_state s = WANT_DATA then 1 else (0::nat))"
      using st(3) True inv(2) by (auto simp: dec_progress_def)
    from less.hyps [OF this inv] obtain s' ip' out' op' bs' where l:
        "decompress_loop e ISRCRY_DECODE 0 inp s1 ip1 out1 op1 = Some (ISRCRY_OK, s', ip', out', op')"
        "took e inp later s1 ip1 out1 op1 bs1 s' ip' out' op' bs'" "stopped inp s' ip'"
      by blast
    have "decompress_loop e ISRCRY_DECODE 0 inp s ip out op = Some (ISRCRY_OK, s', ip', out', op')"
      by (subst decompress_loop.simps) (simp add: st(1) True l(1))
    with took_trans [OF st(2) l(2)] l(3) show ?thesis
      by blast
  qed
qed

definition dec_ctx :: "lzf_env \<Rightarrow> lzf_stream_ctx isrcry_compress_ctx \<Rightarrow> lzf_stream_ctx \<Rightarrow> bool" where
  "dec_ctx e c s \<longleftrightarrow> c = \<lparr>zc_direction = ISRCRY_DECODE, zc_level = 0, zc_ctx = Some s\<rparr>"

lemma decompress_process_ok:
  assumes "dec_ctx e c s" "decoding e s (inp @ later) bs"
  obtains c' s' il ol out' bs' where "lzf_stream_decompress_process e c inp out = Some (ISRCRY_OK, c', il, ol, out')" "dec_ctx e c' s'"
    "decoding e s' (drop il inp @ later) bs'" "il \<le> length inp" "ol \<le> length out" "length out' = length out"
    "take ol out' @ pending s' @ zvs_data bs' = pending s @ zvs_data bs" "stopped inp s' il"
    "length (pending s @ zvs_data bs) \<le> length out \<longrightarrow> pending s' = []"
proof -
  have wf: "bufs_wf s"
    using assms(2) by (simp add: decoding_def)
  obtain n x y out1 where p: "produce_output s out 0 = Some (s\<lparr>ls_out_offset := x, ls_out_count := y\<rparr>, out1, n)"
      "bufs_wf (s\<lparr>ls_out_offset := x, ls_out_count := y\<rparr>)" "length out1 = length out" "n \<le> length out"
      "take n out1 @ pending (s\<lparr>ls_out_offset := x, ls_out_count := y\<rparr>) = pending s"
      "length (pending s) \<le> length out \<longrightarrow> y = 0"
    using produce_output_ok [OF wf, of 0 out] by auto
  define t where "t = s\<lparr>ls_out_offset := x, ls_out_count := y\<rparr>"
  have "awaits t rest bs \<longleftrightarrow> awaits s rest bs" for rest
    by (simp add: t_def awaits_def held_def split: lzf_decode_state.split)
  then have t: "decoding e t (drop 0 inp @ later) bs"
    using assms(2) p(2) by (simp add: decoding_def t_def block_ready_def)
  obtain s' ip' out' op' bs' where l: "decompress_loop e ISRCRY_DECODE 0 inp t 0 out1 n = Some (ISRCRY_OK, s', ip', out', op')"
      "took e inp later t 0 out1 n bs s' ip' out' op' bs'" "stopped inp s' ip'"
    using decompress_loop_ok [OF t, of n out1] p(3,4) by auto
  have all: "take n out1 @ pending t = pending s"
    using p(5) by (simp add: t_def)
  show ?thesis
  proof
    show "lzf_stream_decompress_process e c inp out = Some (ISRCRY_OK, c\<lparr>zc_ctx := Some s'\<rparr>, ip', op', out')"
      using assms(1) p(1) l(1) by (simp add: lzf_stream_decompress_process_def dec_ctx_def t_def)
    show "dec_ctx e (c\<lparr>zc_ctx := Some s'\<rparr>) s'"
      using assms(1) by (simp add: dec_ctx_def)
    show "take op' out' @ pending s' @ zvs_data bs' = pending s @ zvs_data bs"
      using l(2) unfolding all [symmetric] by (simp add: took_def)
    have "length (pending s) = n + length (pending t)"
      using arg_cong [OF all, of length] p(3,4) by simp
    moreover have "length (pending s) \<le> length out \<longrightarrow> pending t = []"
      using p(6) by (simp add: pending_def t_def)
    ultimately show "length (pending s @ zvs_data bs) \<le> length out \<longrightarrow> pending s' = []"
      using l(2) p(3) by (auto simp: took_def)
  qed (use l p(3) in \<open>auto simp: took_def\<close>)
qed

text \<open>With room for everything, the last call succeeds and delivers the rest.\<close>

lemma decompress_final_ok:
  assumes "dec_ctx e c s" "decoding e s inp bs" "length (pending s @ zvs_data bs) \<le> length out"
  shows "\<exists>c' ol out'. lzf_stream_decompress_final e c inp out = Some (ISRCRY_OK, c', length inp, ol, out')
    \<and> take ol out' = pending s @ zvs_data bs"
proof (rule decompress_process_ok [OF assms(1), of inp "[]" bs out], goal_cases)
  case 1
  show ?case using assms(2) by simp
next
  case p: (2 c' s' il ol out' bs')
  have e: "pending s' = []" "il = length inp" "ls_in_offset s' < ls_in_count s'" "awaits s' [] bs'" "bufs_wf s'"
    using p(3,8,9) assms(3) by (auto simp: stopped_def decoding_def)
  then have "bs' = []" "\<not> input_data_pending s'"
    by (auto simp: awaits_def held_def bufs_wf_def zv_bytes_def input_data_pending_def
        dest: arg_cong [where f = length] split: lzf_decode_state.splits)
  with e p(1,2,7) pending_empty [OF e(5)] show ?case
    by (auto simp: lzf_stream_decompress_final_def dec_ctx_def)
qed

lemma dec_ops:
  assumes "dec_ctx e c s"
  shows "isrcry_compress_process (isrcry_lzf_stream_desc e) c = lzf_stream_decompress_process e c"
    "isrcry_compress_final (isrcry_lzf_stream_desc e) c = lzf_stream_decompress_final e c"
  using assms by (intro ext; simp add: dec_ctx_def isrcry_compress_process_def isrcry_compress_final_def isrcry_lzf_stream_desc_def)+

text \<open>A caller that passes pieces of its data, of the sizes and into the buffers of \<open>calls\<close>, and keeps what was not consumed.\<close>

fun feed :: "'c compress_op \<Rightarrow> (nat \<times> bytes) list \<Rightarrow> 'c isrcry_compress_ctx \<Rightarrow> bytes \<Rightarrow> ('c isrcry_compress_ctx \<times> bytes \<times> bytes) option" where
  "feed f [] c d = Some (c, d, [])"
| "feed f ((k, out) # calls) c d = do {
     (ret, c, il, ol, out) \<leftarrow> f c (take k d) out;
     if ret \<noteq> ISRCRY_OK then None
     else do { (c, d, xs) \<leftarrow> feed f calls c (drop il d); Some (c, d, take ol out @ xs) }
   }"

lemma drop_piece: "il \<le> length (take k d) \<Longrightarrow> drop il (take k d) @ drop k d = drop il d"
  by (metis append_take_drop_id drop_append diff_is_0_eq drop0)

lemma decompress_feed_ok:
  assumes "dec_ctx e c s" "decoding e s d bs"
  shows "\<exists>c' s' d' xs bs'. feed (isrcry_compress_process (isrcry_lzf_stream_desc e)) calls c d = Some (c', d', xs) \<and> dec_ctx e c' s'
    \<and> decoding e s' d' bs' \<and> xs @ pending s' @ zvs_data bs' = pending s @ zvs_data bs"
  using assms
proof (induction calls arbitrary: c s d bs)
  case Nil
  then show ?case by auto
next
  case (Cons call calls)
  obtain k out where call: "call = (k, out)"
    by fastforce
  have d: "decoding e s (take k d @ drop k d) bs"
    using Cons.prems(2) by simp
  obtain c1 s1 il ol out1 bs1 where p: "lzf_stream_decompress_process e c (take k d) out = Some (ISRCRY_OK, c1, il, ol, out1)"
      "dec_ctx e c1 s1" "decoding e s1 (drop il (take k d) @ drop k d) bs1" "il \<le> length (take k d)"
      "take ol out1 @ pending s1 @ zvs_data bs1 = pending s @ zvs_data bs"
    by (rule decompress_process_ok [OF Cons.prems(1) d, of out]) blast
  obtain c' s' d' xs bs' where "feed (isrcry_compress_process (isrcry_lzf_stream_desc e)) calls c1 (drop il d) = Some (c', d', xs)" "dec_ctx e c' s'"
      "decoding e s' d' bs'" "xs @ pending s' @ zvs_data bs' = pending s1 @ zvs_data bs1"
    using Cons.IH [OF p(2), of "drop il d" bs1] p(3) drop_piece [OF p(4)] by auto
  with p(1,5) show ?case
    by (intro exI [of _ c'] exI [of _ s'] exI [of _ d'] exI [of _ "take ol out1 @ xs"] exI [of _ bs'])
      (simp add: call dec_ops [OF Cons.prems(1)])
qed

section \<open>The encoder\<close>

definition same_input :: "lzf_stream_ctx \<Rightarrow> lzf_stream_ctx \<Rightarrow> bool" where
  "same_input s t \<longleftrightarrow> ls_in t = ls_in s \<and> ls_in_offset t = ls_in_offset s \<and> ls_in_count t = ls_in_count s
     \<and> ls_decode_state t = ls_decode_state s \<and> ls_wrote_trailer t = ls_wrote_trailer s"

lemma block_compress:
  assumes "blk \<noteq> []" "2 \<le> length (blk @ beyond)" "length blk \<le> MAX_BLOCK" "length dst = MAX_BLOCK"
  obtains n z h where "lzf_compress_at beyond blk dst htab = Some (n, z, h)" "length z = length dst" "n \<le> length dst"
    "\<And>d. n \<noteq> 0 \<Longrightarrow> length d = length blk \<Longrightarrow> lzf_decompress (take n z) d = Some (int (length blk), blk)"
proof (cases "2 \<le> length blk")
  case True
  obtain n z h where z: "lzf_compress blk dst htab = Some (n, z, h)" "length z = length dst" "n \<le> length dst"
    using lzf_compress_total [OF True, of dst htab] by blast
  moreover have "lzf_decompress (take n z) d = Some (int (length blk), blk)" if "n \<noteq> 0" "length d = length blk" for d
    using lzf_decompress_compress [OF True z(1) that(1), of d] that(2) assms(3) by (simp add: MAX_BLOCK_def buf_simps)
  ultimately show thesis
    by (intro that [of n z h]) (simp_all add: lzf_compress_at_two [OF True])
next
  case False
  then obtain x where x: "blk = [x]" "beyond \<noteq> []"
    using assms(1,2) by (cases blk; cases "tl blk"; cases beyond) auto
  let ?z = "dst[1 := x, 0 := 0]"
  have d: "4 \<le> length dst"
    using assms(4) by (simp add: MAX_BLOCK_def)
  have z: "take 2 ?z = [0, x]"
    using d by (cases dst; cases "tl dst") auto
  have "lzf_decompress (take 2 ?z) e = Some (1, [x])" if "length e = 1" for e
    using lzf_decompress_items [of "[Lit [x]]" e] that unfolding z by (simp add: items_bytes_def items_apply_def buf_simps)
  with d x show thesis
    by (intro that [of 2 ?z "htab(0 := None)"]) (simp_all add: lzf_compress_at_one [OF x(2) d])
qed

lemma block_encode:
  assumes "block_ready e ISRCRY_ENCODE s" "blk \<noteq> []" "2 \<le> length (blk @ beyond)" "length blk \<le> MAX_BLOCK" "length dst = MAX_BLOCK"
  obtains (packed) n z c where "isrcry_compress_final (isrcry_lzf_desc_at beyond (e_htab e)) (ls_block_ctx s) blk dst =
        Some (ISRCRY_OK, c, length blk, n, z)" "length z = MAX_BLOCK" "n \<le> MAX_BLOCK" "\<And>k. zv_ok k (ZV_packed (take n z) blk)"
  | (stored) z c where "isrcry_compress_final (isrcry_lzf_desc_at beyond (e_htab e)) (ls_block_ctx s) blk dst =
        Some (ISRCRY_BUFFER_OVERFLOW, c, 0, 0, z)" "length z = MAX_BLOCK"
proof -
  obtain n z h where z: "lzf_compress_at beyond blk dst (e_htab e) = Some (n, z, h)" "length z = length dst" "n \<le> length dst"
    and dec: "n \<noteq> 0 \<Longrightarrow> length d = length blk \<Longrightarrow> lzf_decompress (take n z) d = Some (int (length blk), blk)" for d
    by (rule block_compress [OF assms(2-5)]) blast
  have f: "isrcry_compress_final (isrcry_lzf_desc_at beyond (e_htab e)) (ls_block_ctx s) blk dst =
      Some (if n \<noteq> 0 then (ISRCRY_OK, (ls_block_ctx s)\<lparr>zc_ctx := Some h\<rparr>, length blk, n, z)
            else (ISRCRY_BUFFER_OVERFLOW, (ls_block_ctx s)\<lparr>zc_ctx := Some h\<rparr>, 0, 0, z))"
    using assms(1,2) z(1)
    by (auto simp: block_ready_def isrcry_compress_final_def isrcry_lzf_desc_at_def lzf_do_compress_def Let_def)
  show ?thesis
  proof (cases "n = 0")
    case True
    with f z(2) assms(5) show ?thesis by (intro stored) simp_all
  next
    case False
    have "zv_ok k (ZV_packed (take n z) blk)" for k
      using z(2,3) assms(4,5) dec [OF False] by simp
    with f False z(2,3) assms(5) show ?thesis by (intro packed [of "(ls_block_ctx s)\<lparr>zc_ctx := Some h\<rparr>" n z]) auto
  qed
qed

lemma data_encode_ok:
  assumes "bufs_wf s" "\<not> output_data_is_buffered s" "block_ready e ISRCRY_ENCODE s" "blk \<noteq> []" "2 \<le> length (blk @ beyond)"
    "length blk \<le> MAX_BLOCK" "op \<le> length out"
  shows "\<exists>z t out' op'. data_encode e ISRCRY_ENCODE 0 s blk beyond out op = Some (t, out', op') \<and> zv_ok (ls_crc s) z \<and> zv_type z \<noteq> 0x30
    \<and> zv_data z = blk \<and> bufs_wf t \<and> block_ready e ISRCRY_ENCODE t \<and> ls_crc t = e_crc32 e (ls_crc s) blk \<and> same_input s t
    \<and> length out' = length out \<and> op \<le> op' \<and> op' \<le> length out \<and> take op' out' @ pending t = take op out @ zv_bytes z
    \<and> (BUFLEN \<le> length out - op \<longrightarrow> pending t = [])"
proof -
  have s: "ls_out_count s = 0" "ls_out_offset s = 0" "length (ls_out s) = BUFLEN" "length (ls_in s) = BUFLEN"
    using assms(1,2) by (auto simp: bufs_wf_def output_data_is_buffered_def)
  define dst where "dst = take MAX_BLOCK (drop 7 (ls_out s))"
  have dst: "length dst = MAX_BLOCK"
    using s(3) by (simp add: dst_def BUFLEN_def MAX_HEADER_def)
  let ?s = "s\<lparr>ls_crc := e_crc32 e (ls_crc s) blk\<rparr>"
  have ready: "block_ready e ISRCRY_ENCODE ?s"
    using assms(3) by (simp add: block_ready_def)
  note re = block_reinit_ready [OF assms(3), simplified]
  from ready assms(4-6) dst show ?thesis
  proof (cases rule: block_encode)
    case (packed n z c)
    define o1 where "o1 = blit (ls_out s) 7 z"
    define hd where "hd = [0x5A, 0x56, 1] @ STORE16H (of_nat n) @ STORE16H (of_nat (length blk))"
    define t where "t = ?s\<lparr>ls_out := blit o1 0 hd, ls_out_count := n + 7\<rparr>"
    have o1: "length o1 = BUFLEN"
      using packed(2) s(3) by (simp add: o1_def BUFLEN_def MAX_HEADER_def)
    have hd: "length hd = 7"
      by (simp add: hd_def)
    have wf: "bufs_wf t"
      using s o1 hd packed(3) by (auto simp: t_def bufs_wf_def BUFLEN_def MAX_HEADER_def)
    have "take (n + 7) (blit o1 0 hd) = hd @ take n (drop 7 o1)"
      using hd by (simp add: blit_def)
    also have "take n (drop 7 o1) = take n z"
      using packed(2,3) s(3) by (simp add: o1_def blit_def BUFLEN_def MAX_HEADER_def)
    finally have pt: "pending t = zv_bytes (ZV_packed (take n z) blk)"
      using s(2) packed(2,3) by (simp add: pending_def t_def hd_def zv_bytes_def)
    obtain k x y out' where p: "produce_output t out op = Some (t\<lparr>ls_out_offset := x, ls_out_count := y\<rparr>, out', op + k)"
        "bufs_wf (t\<lparr>ls_out_offset := x, ls_out_count := y\<rparr>)" "length out' = length out" "op + k \<le> length out"
        "take (op + k) out' @ pending (t\<lparr>ls_out_offset := x, ls_out_count := y\<rparr>) = take op out @ pending t"
        "length (pending t) \<le> length out - op \<longrightarrow> y = 0"
      using produce_output_ok [OF wf assms(7)] by blast
    have "data_encode e ISRCRY_ENCODE 0 s blk beyond out op = produce_output t out op"
      using packed(1) re by (simp add: data_encode_def dst_def [symmetric] Let_def o1_def t_def hd_def)
    moreover have "block_ready e ISRCRY_ENCODE (t\<lparr>ls_out_offset := x, ls_out_count := y\<rparr>)"
        "same_input s (t\<lparr>ls_out_offset := x, ls_out_count := y\<rparr>)"
      using ready by (simp_all add: block_ready_def same_input_def t_def)
    moreover have "BUFLEN \<le> length out - op \<longrightarrow> pending (t\<lparr>ls_out_offset := x, ls_out_count := y\<rparr>) = []"
      using p(6) length_pending [OF wf] by (auto simp: pending_def)
    ultimately show ?thesis
      using p packed(4) pt
      by - (rule exI [of _ "ZV_packed (take n z) blk"], rule exI [of _ "t\<lparr>ls_out_offset := x, ls_out_count := y\<rparr>"],
        rule exI [of _ out'], rule exI [of _ "op + k"], auto simp: t_def)
  next
    case (stored z c)
    define t where "t = ?s\<lparr>ls_out := blit (ls_out s) 7 z\<rparr>"
    let ?b = "[0x5A, 0x56, 0] @ STORE16H (of_nat (length blk)) @ blk"
    have wf: "bufs_wf t" "\<not> output_data_is_buffered t"
      using s stored(2) by (auto simp: t_def bufs_wf_def output_data_is_buffered_def BUFLEN_def MAX_HEADER_def)
    have len: "length ?b = length blk + 5" "length blk + 5 \<le> BUFLEN"
      using assms(6) by (simp_all add: BUFLEN_def MAX_HEADER_def)
    obtain p k op' o' out' where p: "get_output_buffer t (length blk + 5) out op = Some (p, t\<lparr>ls_out_count := k\<rparr>, op')"
        "place_write p ?b (t\<lparr>ls_out_count := k\<rparr>) out = Some (t\<lparr>ls_out_count := k, ls_out := o'\<rparr>, out')"
        "bufs_wf (t\<lparr>ls_out_count := k, ls_out := o'\<rparr>)" "length out' = length out" "op \<le> op'" "op' \<le> length out"
        "take op' out' @ pending (t\<lparr>ls_out_count := k, ls_out := o'\<rparr>) = take op out @ ?b"
        "length blk + 5 \<le> length out - op \<longrightarrow> k = 0"
      using place_write_ok [OF wf assms(7) len] by blast
    have "data_encode e ISRCRY_ENCODE 0 s blk beyond out op = Some (t\<lparr>ls_out_count := k, ls_out := o'\<rparr>, out', op')"
      using stored(1) re p(1,2) by (simp add: data_encode_def dst_def [symmetric] Let_def t_def)
    moreover have "block_ready e ISRCRY_ENCODE (t\<lparr>ls_out_count := k, ls_out := o'\<rparr>)" "same_input s (t\<lparr>ls_out_count := k, ls_out := o'\<rparr>)"
      using ready by (simp_all add: block_ready_def same_input_def t_def)
    moreover have "BUFLEN \<le> length out - op \<longrightarrow> pending (t\<lparr>ls_out_count := k, ls_out := o'\<rparr>) = []"
      using p(8) len(2) by (auto simp: pending_def)
    ultimately show ?thesis
      using p(3-7) assms(6)
      by - (rule exI [of _ "ZV_stored blk"], rule exI [of _ "t\<lparr>ls_out_count := k, ls_out := o'\<rparr>"],
        rule exI [of _ out'], rule exI [of _ op'], auto simp: t_def zv_bytes_def)
  qed
qed

text \<open>\<open>encoding e s fed em\<close>: after the input \<open>fed\<close> and the output \<open>em\<close>, full blocks are encoded and the rest is in the input buffer.\<close>

definition encoding :: "lzf_env \<Rightarrow> lzf_stream_ctx \<Rightarrow> bytes \<Rightarrow> bytes \<Rightarrow> bool" where
  "encoding e s fed em \<longleftrightarrow> bufs_wf s \<and> block_ready e ISRCRY_ENCODE s \<and> ls_decode_state s = WANT_HEADER_1 \<and> \<not> ls_wrote_trailer s
     \<and> ls_in_offset s < MAX_BLOCK
     \<and> (\<exists>bs. zvs_ok e 0 bs \<and> ls_crc s = zvs_next e 0 bs \<and> em @ pending s = zvs_bytes bs \<and> fed = zvs_data bs @ held s
          \<and> MAX_BLOCK dvd length (zvs_data bs))"

text \<open>There is room for all full blocks and \<open>w\<close> bytes more.\<close>

definition roomy :: "nat \<Rightarrow> bytes \<Rightarrow> lzf_stream_ctx \<Rightarrow> nat \<Rightarrow> bytes \<Rightarrow> nat \<Rightarrow> bool" where
  "roomy w inp s ip out op \<longleftrightarrow> pending s = [] \<and> op + BUFLEN * ((ls_in_offset s + (length inp - ip)) div MAX_BLOCK) + w \<le> length out"

lemma zv_next_data: "zv_type z \<noteq> 0x30 \<Longrightarrow> zv_next e c z = e_crc32 e c (zv_data z)"
  by (cases z) simp_all

lemma encoding_block:
  assumes "encoding e s fed em" "pending s = []" "zv_ok (ls_crc s) z" "zv_type z \<noteq> 0x30" "zv_data z = blk" "bufs_wf t"
    "block_ready e ISRCRY_ENCODE t" "ls_crc t = e_crc32 e (ls_crc s) blk" "ls_decode_state t = WANT_HEADER_1" "\<not> ls_wrote_trailer t"
    "ls_in_offset t = 0" "em' @ pending t = em @ zv_bytes z" "length blk = MAX_BLOCK" "fed' = fed @ new" "held s @ new = blk"
  shows "encoding e t fed' em'"
proof -
  obtain bs where bs: "zvs_ok e 0 bs" "ls_crc s = zvs_next e 0 bs" "em = zvs_bytes bs" "fed = zvs_data bs @ held s"
      "MAX_BLOCK dvd length (zvs_data bs)"
    using assms(1,2) by (auto simp: encoding_def)
  have "zvs_ok e 0 (bs @ [z])" "ls_crc t = zvs_next e 0 (bs @ [z])" "em' @ pending t = zvs_bytes (bs @ [z])"
      "fed' = zvs_data (bs @ [z]) @ held t" "MAX_BLOCK dvd length (zvs_data (bs @ [z]))"
    using bs assms by (simp_all add: zvs_ok_append zv_next_data held_def)
  with assms(6-11) show ?thesis
    unfolding encoding_def by (intro conjI exI [of _ "bs @ [z]"]) (auto simp: MAX_BLOCK_def)
qed

lemma compress_step_ok:
  assumes "encoding e s (fed @ take ip inp) (em @ take op out)" "ip \<le> length inp" "op \<le> length out"
  shows "\<exists>again s' ip' out' op'. compress_step e ISRCRY_ENCODE 0 inp s ip out op = Some (again, s', ip', out', op')
    \<and> encoding e s' (fed @ take ip' inp) (em @ take op' out') \<and> ip' \<le> length inp \<and> op' \<le> length out' \<and> length out' = length out
    \<and> (if again then ip < ip' else ip' = length inp \<or> pending s' \<noteq> []) \<and> (roomy w inp s ip out op \<longrightarrow> roomy w inp s' ip' out' op')"
proof (cases "output_data_is_buffered s")
  case True
  then have "pending s \<noteq> []"
    using assms(1) pending_empty [of s] by (simp add: encoding_def)
  with True assms show ?thesis
    by - (rule exI [of _ False], rule exI [of _ s], rule exI [of _ ip], rule exI [of _ out], rule exI [of _ op], simp add: compress_step_def)
next
  case False
  let ?s = "s\<lparr>ls_in_count := MAX_BLOCK\<rparr>"
  have wf: "bufs_wf s" "block_ready e ISRCRY_ENCODE s" "ls_in_offset s < MAX_BLOCK"
    using assms(1) by (simp_all add: encoding_def)
  have ps: "pending s = []"
    using wf(1) False pending_empty [of s] by simp
  have in_wf: "ls_in_offset ?s < ls_in_count ?s \<or> ls_in_offset ?s = 0" "ls_in_count ?s \<le> BUFLEN" "length (ls_in ?s) = BUFLEN"
    using wf by (auto simp: bufs_wf_def BUFLEN_def)
  have h: "held ?s = held s"
    by (simp add: held_def)
  show ?thesis
  proof (rule consume_input_cases [OF in_wf assms(2)], goal_cases)
    case block: (1 blk ip' i)
    let ?t = "?s\<lparr>ls_in := i, ls_in_offset := 0\<rparr>"
    have t: "bufs_wf ?t" "\<not> output_data_is_buffered ?t" "block_ready e ISRCRY_ENCODE ?t" "blk \<noteq> []" "2 \<le> length (blk @ [])"
        "length blk \<le> MAX_BLOCK"
      using wf False block(2,3) by (auto simp: bufs_wf_def output_data_is_buffered_def block_ready_def MAX_BLOCK_def)
    obtain z t' out' op' where d: "data_encode e ISRCRY_ENCODE 0 ?t blk [] out op = Some (t', out', op')" "zv_ok (ls_crc ?t) z" "zv_type z \<noteq> 0x30"
        "zv_data z = blk" "bufs_wf t'" "block_ready e ISRCRY_ENCODE t'" "ls_crc t' = e_crc32 e (ls_crc ?t) blk" "same_input ?t t'"
        "length out' = length out" "op' \<le> length out" "take op' out' @ pending t' = take op out @ zv_bytes z"
        "BUFLEN \<le> length out - op \<longrightarrow> pending t' = []"
      using data_encode_ok [OF t assms(3)] by blast
    have ip: "ip < ip'" "ip' \<le> length inp" "ip' + ls_in_offset s = ip + MAX_BLOCK" "length blk = MAX_BLOCK"
      using block(3,6-8) by (simp_all add: MAX_BLOCK_def)
    have "blk @ drop ip' inp = (held s @ take (ip' - ip) (drop ip inp)) @ drop ip' inp"
      using block(4) ip(1) append_take_drop_id [of "ip' - ip" "drop ip inp"] by (simp add: h)
    then have blk: "held s @ take (ip' - ip) (drop ip inp) = blk"
      by simp
    have "encoding e t' (fed @ take ip' inp) (em @ take op' out')"
      using d ip(1,4) assms(1) take_add [of ip "ip' - ip" inp] blk
      by (intro encoding_block [OF assms(1) ps, of z blk]) (auto simp: same_input_def encoding_def)
    moreover have "roomy w inp s ip out op \<longrightarrow> roomy w inp t' ip' out' op'"
    proof
      assume r: "roomy w inp s ip out op"
      have off: "ls_in_offset t' = 0" "ls_in_offset s + (length inp - ip) = (length inp - ip') + MAX_BLOCK"
        using d(8) ip by (simp_all add: same_input_def)
      have "(length inp - ip' + MAX_BLOCK) div MAX_BLOCK = (length inp - ip') div MAX_BLOCK + 1"
        by (rule div_add_self2) (simp add: MAX_BLOCK_def)
      then have room: "op + BUFLEN * ((length inp - ip') div MAX_BLOCK) + BUFLEN + w \<le> length out"
        using r unfolding roomy_def off(2) by (simp add: distrib_left)
      then have "pending t' = []"
        using d(12) by linarith
      moreover have "op' + length (pending t') = op + length (zv_bytes z)"
        using arg_cong [OF d(11), of length] d(9,10) assms(3) by simp
      moreover have "length (zv_bytes z) \<le> BUFLEN"
        using zv_sizes_bound d(2) by blast
      ultimately show "roomy w inp t' ip' out' op'"
        using room off(1) d(9) by (simp add: roomy_def)
    qed
    ultimately show ?case
      using block(1) d(1,9,10) ip(1,2) False
      by - (rule exI [of _ True], rule exI [of _ t'], rule exI [of _ ip'], rule exI [of _ out'], rule exI [of _ op'],
        simp add: compress_step_def)
  next
    case more: (2 i k)
    let ?t = "?s\<lparr>ls_in := i, ls_in_offset := k\<rparr>"
    have pt: "pending ?t = pending s"
      by (simp add: pending_def)
    have "encoding e ?t (fed @ take (length inp) inp) (em @ take op out)"
    proof -
      obtain bs where "zvs_ok e 0 bs" "ls_crc s = zvs_next e 0 bs" "(em @ take op out) @ pending s = zvs_bytes bs"
          "fed @ take ip inp = zvs_data bs @ held s" "MAX_BLOCK dvd length (zvs_data bs)"
        using assms(1) by (auto simp: encoding_def)
      moreover have "fed @ inp = (fed @ take ip inp) @ drop ip inp"
        by simp
      ultimately show ?thesis
        using assms(1) more(2-4) unfolding encoding_def pt
        by (intro conjI exI [of _ bs]) (auto simp: bufs_wf_def block_ready_def held_def)
    qed
    moreover have "roomy w inp s ip out op \<longrightarrow> roomy w inp ?t (length inp) out op"
      using more(5) by (simp add: roomy_def pending_def)
    ultimately show ?case
      using more(1) assms(3) False
      by - (rule exI [of _ False], rule exI [of _ ?t], rule exI [of _ "length inp"], rule exI [of _ out], rule exI [of _ op],
        simp add: compress_step_def)
  qed
qed

lemma compress_loop_ok:
  assumes "encoding e s (fed @ take ip inp) (em @ take op out)" "ip \<le> length inp" "op \<le> length out"
  shows "\<exists>s' ip' out' op'. compress_loop e ISRCRY_ENCODE 0 inp s ip out op = Some (s', ip', out', op')
    \<and> encoding e s' (fed @ take ip' inp) (em @ take op' out') \<and> ip' \<le> length inp \<and> op' \<le> length out' \<and> length out' = length out
    \<and> (ip' = length inp \<or> pending s' \<noteq> []) \<and> (roomy w inp s ip out op \<longrightarrow> roomy w inp s' ip' out' op')"
  using assms
proof (induction "length inp - ip" arbitrary: s ip out op rule: less_induct)
  case less
  obtain again s1 ip1 out1 op1 where st: "compress_step e ISRCRY_ENCODE 0 inp s ip out op = Some (again, s1, ip1, out1, op1)"
      "encoding e s1 (fed @ take ip1 inp) (em @ take op1 out1)" "ip1 \<le> length inp" "op1 \<le> length out1" "length out1 = length out"
      "if again then ip < ip1 else ip1 = length inp \<or> pending s1 \<noteq> []" "roomy w inp s ip out op \<longrightarrow> roomy w inp s1 ip1 out1 op1"
    using compress_step_ok [OF less.prems, of w] by blast
  show ?case
  proof (cases again)
    case False
    have "compress_loop e ISRCRY_ENCODE 0 inp s ip out op = Some (s1, ip1, out1, op1)"
      by (subst compress_loop.simps) (simp add: st(1) False)
    with False st(2-7) show ?thesis
      by auto
  next
    case True
    have "length inp - ip1 < length inp - ip"
      using st(3,6) True by simp
    from less.hyps [OF this st(2-4)] obtain s' ip' out' op' where
        l: "compress_loop e ISRCRY_ENCODE 0 inp s1 ip1 out1 op1 = Some (s', ip', out', op')"
          "encoding e s' (fed @ take ip' inp) (em @ take op' out')" "ip' \<le> length inp" "op' \<le> length out'" "length out' = length out1"
          "ip' = length inp \<or> pending s' \<noteq> []" "roomy w inp s1 ip1 out1 op1 \<longrightarrow> roomy w inp s' ip' out' op'"
      by blast
    have "compress_loop e ISRCRY_ENCODE 0 inp s ip out op = Some (s', ip', out', op')"
      by (subst compress_loop.simps) (simp add: st(1) True l(1))
    with l st(5,7) show ?thesis
      by (intro exI [of _ s'] exI [of _ ip'] exI [of _ out'] exI) auto
  qed
qed

definition enc_ctx :: "lzf_env \<Rightarrow> lzf_stream_ctx isrcry_compress_ctx \<Rightarrow> lzf_stream_ctx \<Rightarrow> bool" where
  "enc_ctx e c s \<longleftrightarrow> c = \<lparr>zc_direction = ISRCRY_ENCODE, zc_level = 0, zc_ctx = Some s\<rparr>"

lemma enc_ops:
  assumes "enc_ctx e c s"
  shows "isrcry_compress_process (isrcry_lzf_stream_desc e) c = lzf_stream_compress_process e c"
    "isrcry_compress_final (isrcry_lzf_stream_desc e) c = lzf_stream_compress_final e c"
  using assms by (intro ext; simp add: enc_ctx_def isrcry_compress_process_def isrcry_compress_final_def isrcry_lzf_stream_desc_def)+

lemma compress_process_ok:
  assumes "enc_ctx e c s" "encoding e s fed em"
  shows "\<exists>c' s' il ol out'. lzf_stream_compress_process e c inp out = Some (ISRCRY_OK, c', il, ol, out') \<and> enc_ctx e c' s'
    \<and> encoding e s' (fed @ take il inp) (em @ take ol out') \<and> il \<le> length inp \<and> ol \<le> length out \<and> length out' = length out
    \<and> (length (pending s) + BUFLEN * ((ls_in_offset s + length inp) div MAX_BLOCK) + w \<le> length out \<longrightarrow>
        pending s' = [] \<and> il = length inp \<and> ol + w \<le> length out)"
proof -
  have wf: "bufs_wf s"
    using assms(2) by (simp add: encoding_def)
  obtain n x y out1 where p: "produce_output s out 0 = Some (s\<lparr>ls_out_offset := x, ls_out_count := y\<rparr>, out1, n)"
      "bufs_wf (s\<lparr>ls_out_offset := x, ls_out_count := y\<rparr>)" "length out1 = length out" "n \<le> length out"
      "take n out1 @ pending (s\<lparr>ls_out_offset := x, ls_out_count := y\<rparr>) = pending s"
      "length (pending s) \<le> length out \<longrightarrow> y = 0"
    using produce_output_ok [OF wf, of 0 out] by auto
  define t where "t = s\<lparr>ls_out_offset := x, ls_out_count := y\<rparr>"
  have all: "take n out1 @ pending t = pending s"
    using p(5) by (simp add: t_def)
  have t: "encoding e t (fed @ take 0 inp) (em @ take n out1)"
    using assms(2) p(2) all unfolding encoding_def append.assoc by (simp add: t_def block_ready_def held_def)
  obtain s' ip' out' op' where l: "compress_loop e ISRCRY_ENCODE 0 inp t 0 out1 n = Some (s', ip', out', op')"
      "encoding e s' (fed @ take ip' inp) (em @ take op' out')" "ip' \<le> length inp" "op' \<le> length out'" "length out' = length out1"
      "ip' = length inp \<or> pending s' \<noteq> []" "roomy w inp t 0 out1 n \<longrightarrow> roomy w inp s' ip' out' op'"
    using compress_loop_ok [OF t, of w] p(3,4) by auto
  have "length (pending s) + BUFLEN * ((ls_in_offset s + length inp) div MAX_BLOCK) + w \<le> length out \<longrightarrow>
      pending s' = [] \<and> ip' = length inp \<and> op' + w \<le> length out"
  proof
    assume room: "length (pending s) + BUFLEN * ((ls_in_offset s + length inp) div MAX_BLOCK) + w \<le> length out"
    then have "y = 0"
      using p(6) by linarith
    then have "pending t = []"
      by (simp add: pending_def t_def)
    moreover from this have "length (pending s) = n"
      using arg_cong [OF all, of length] p(3,4) by simp
    ultimately have "roomy w inp t 0 out1 n"
      using room p(3) by (simp add: roomy_def t_def)
    then show "pending s' = [] \<and> ip' = length inp \<and> op' + w \<le> length out"
      using l(5-7) p(3) by (simp add: roomy_def)
  qed
  moreover have "lzf_stream_compress_process e c inp out = Some (ISRCRY_OK, c\<lparr>zc_ctx := Some s'\<rparr>, ip', op', out')"
    using assms(1) p(1) l(1) by (simp add: lzf_stream_compress_process_def enc_ctx_def t_def)
  moreover have "enc_ctx e (c\<lparr>zc_ctx := Some s'\<rparr>) s'"
    using assms(1) by (simp add: enc_ctx_def)
  ultimately show ?thesis
    using l(2-5) p(3)
    by - (rule exI [of _ "c\<lparr>zc_ctx := Some s'\<rparr>"], rule exI [of _ s'], rule exI [of _ ip'], rule exI [of _ op'], rule exI [of _ out'], simp)
qed

lemma compress_feed_ok:
  assumes "enc_ctx e c s" "encoding e s fed em"
  shows "\<exists>c' s' d' xs k. feed (isrcry_compress_process (isrcry_lzf_stream_desc e)) calls c d = Some (c', d', xs) \<and> enc_ctx e c' s' \<and> d' = drop k d
    \<and> encoding e s' (fed @ take k d) (em @ xs)"
  using assms
proof (induction calls arbitrary: c s d fed em)
  case Nil
  then show ?case
    by - (rule exI [of _ c], rule exI [of _ s], rule exI [of _ d], rule exI [of _ "[]"], rule exI [of _ 0], simp)
next
  case (Cons call calls)
  obtain k out where call: "call = (k, out)"
    by fastforce
  obtain c1 s1 il ol out1 where p: "lzf_stream_compress_process e c (take k d) out = Some (ISRCRY_OK, c1, il, ol, out1)" "enc_ctx e c1 s1"
      "encoding e s1 (fed @ take il (take k d)) (em @ take ol out1)" "il \<le> length (take k d)"
    using compress_process_ok [OF Cons.prems, of "take k d" out] by blast
  obtain c' s' d' xs j where r: "feed (isrcry_compress_process (isrcry_lzf_stream_desc e)) calls c1 (drop il d) = Some (c', d', xs)" "enc_ctx e c' s'"
      "d' = drop j (drop il d)" "encoding e s' ((fed @ take il (take k d)) @ take j (drop il d)) ((em @ take ol out1) @ xs)"
    using Cons.IH [OF p(2,3), of "drop il d"] by blast
  have "take il (take k d) @ take j (drop il d) = take (il + j) d"
    using p(4) by (simp add: take_add min_absorb1)
  with r have "encoding e s' (fed @ take (il + j) d) (em @ (take ol out1 @ xs))" "d' = drop (il + j) d"
    by (simp_all add: add.commute)
  with p(1) r(1,2) show ?case
    by - (rule exI [of _ c'], rule exI [of _ s'], rule exI [of _ d'], rule exI [of _ "take ol out1 @ xs"], rule exI [of _ "il + j"],
      simp add: call enc_ops [OF Cons.prems(1)])
qed

lemma compress_tail_ok:
  assumes "encoding e s fed em" "pending s = []" "op \<le> length out" "op + BUFLEN \<le> length out"
    "em = em0 @ take op out"
  shows "\<exists>bs t out' op'. compress_tail e ISRCRY_ENCODE 0 s out op = Some (t, out', op') \<and> bufs_wf t \<and> \<not> output_data_is_buffered t
    \<and> \<not> ls_wrote_trailer t \<and> length out' = length out \<and> op' \<le> op + BUFLEN
    \<and> zvs_ok e 0 bs \<and> ls_crc t = zvs_next e 0 bs \<and> em0 @ take op' out' = zvs_bytes bs \<and> fed = zvs_data bs"
proof -
  obtain bs where bs: "zvs_ok e 0 bs" "ls_crc s = zvs_next e 0 bs" "em = zvs_bytes bs" "fed = zvs_data bs @ held s"
      "MAX_BLOCK dvd length (zvs_data bs)"
    using assms(1,2) by (auto simp: encoding_def)
  have s: "bufs_wf s" "block_ready e ISRCRY_ENCODE s" "ls_decode_state s = WANT_HEADER_1" "\<not> ls_wrote_trailer s" "ls_in_offset s < MAX_BLOCK"
    using assms(1) by (simp_all add: encoding_def)
  have nb: "\<not> output_data_is_buffered s"
    using assms(2) pending_empty [OF s(1)] by simp
  have lh: "length (held s) = ls_in_offset s"
    using s(1,5) by (simp add: held_def bufs_wf_def BUFLEN_def)
  show ?thesis
  proof (cases "ls_in_offset s = 0")
    case True
    with bs s nb assms(5) show ?thesis
      by - (rule exI [of _ bs], rule exI [of _ s], rule exI [of _ out], rule exI [of _ op],
        simp add: compress_tail_def input_data_pending_def held_def)
  next
    case False
    have two: "held s \<noteq> []" "2 \<le> length (held s @ drop (ls_in_offset s) (ls_in s))" "length (held s) \<le> MAX_BLOCK"
      using False lh s(1,5) by (auto simp: held_def bufs_wf_def BUFLEN_def MAX_BLOCK_def MAX_HEADER_def)
    obtain z t out' op' where d: "data_encode e ISRCRY_ENCODE 0 s (held s) (drop (ls_in_offset s) (ls_in s)) out op = Some (t, out', op')" "zv_ok (ls_crc s) z" "zv_type z \<noteq> 0x30"
        "zv_data z = held s" "bufs_wf t" "block_ready e ISRCRY_ENCODE t" "ls_crc t = e_crc32 e (ls_crc s) (held s)" "same_input s t"
        "length out' = length out" "op' \<le> length out" "take op' out' @ pending t = take op out @ zv_bytes z"
        "BUFLEN \<le> length out - op \<longrightarrow> pending t = []"
      using data_encode_ok [OF s(1) nb s(2) two assms(3)] by blast
    have pt: "pending t = []"
      using d(12) assms(4) by linarith
    have "op' = op + length (zv_bytes z)"
      using arg_cong [OF d(11), of length] d(9,10) assms(3) pt by simp
    then have "op' \<le> op + BUFLEN"
      using zv_sizes_bound [OF d(2)] by simp
    moreover have "compress_tail e ISRCRY_ENCODE 0 s out op = Some (t\<lparr>ls_in_offset := 0\<rparr>, out', op')"
      using False s(3) d(1) by (simp add: compress_tail_def input_data_pending_def held_def)
    moreover have "bufs_wf (t\<lparr>ls_in_offset := 0\<rparr>)" "\<not> output_data_is_buffered (t\<lparr>ls_in_offset := 0\<rparr>)" "\<not> ls_wrote_trailer t"
      using d(5,8) pt pending_empty [OF d(5)] s(4) by (simp_all add: bufs_wf_def output_data_is_buffered_def same_input_def)
    moreover have "zvs_ok e 0 (bs @ [z])" "ls_crc t = zvs_next e 0 (bs @ [z])" "fed = zvs_data (bs @ [z])"
      using bs d(2-4,7) by (simp_all add: zvs_ok_append zv_next_data)
    moreover have "em0 @ take op' out' = zvs_bytes (bs @ [z])"
      using d(11) pt bs(3) assms(5) by simp
    ultimately show ?thesis
      using d(9)
      by - (rule exI [of _ "bs @ [z]"], rule exI [of _ "t\<lparr>ls_in_offset := 0\<rparr>"], rule exI [of _ out'], rule exI [of _ op'], simp)
  qed
qed

lemma compress_final_ok:
  assumes "enc_ctx e c s" "encoding e s fed em"
    "length (pending s) + BUFLEN * ((ls_in_offset s + length inp) div MAX_BLOCK) + BUFLEN + 7 \<le> length out"
  shows "\<exists>c' ol out' bs. lzf_stream_compress_final e c inp out = Some (ISRCRY_OK, c', length inp, ol, out') \<and> ol \<le> length out
    \<and> zvs_ok e 0 bs \<and> em @ take ol out' = zvs_bytes bs \<and> zvs_data bs = fed @ inp"
proof -
  obtain c1 s1 il ol1 out1 where p: "lzf_stream_compress_process e c inp out = Some (ISRCRY_OK, c1, il, ol1, out1)" "enc_ctx e c1 s1"
      "encoding e s1 (fed @ take il inp) (em @ take ol1 out1)" "length out1 = length out"
      "length (pending s) + BUFLEN * ((ls_in_offset s + length inp) div MAX_BLOCK) + (BUFLEN + 7) \<le> length out \<longrightarrow>
        pending s1 = [] \<and> il = length inp \<and> ol1 + (BUFLEN + 7) \<le> length out"
    using compress_process_ok [OF assms(1,2), of inp out "BUFLEN + 7"] by blast
  then have q: "pending s1 = []" "il = length inp" "ol1 + BUFLEN + 7 \<le> length out1"
    using assms(3) by auto
  obtain bs t out2 op2 where t: "compress_tail e ISRCRY_ENCODE 0 s1 out1 ol1 = Some (t, out2, op2)" "bufs_wf t" "\<not> output_data_is_buffered t"
      "\<not> ls_wrote_trailer t" "length out2 = length out1" "op2 \<le> ol1 + BUFLEN" "zvs_ok e 0 bs" "ls_crc t = zvs_next e 0 bs"
      "em @ take op2 out2 = zvs_bytes bs" "fed @ take il inp = zvs_data bs"
    using compress_tail_ok [OF p(3) q(1), of ol1 out1 em] q by auto
  let ?b = "[0x5A, 0x56, 0x30] @ STORE32H (ls_crc t)"
  have room: "op2 \<le> length out2" "7 \<le> length out2 - op2" "length ?b = 7" "(7::nat) \<le> BUFLEN"
    using t(5,6) q(3) by (simp_all add: BUFLEN_def MAX_HEADER_def)
  obtain pl k op3 o3 out3 where w: "get_output_buffer t 7 out2 op2 = Some (pl, t\<lparr>ls_out_count := k\<rparr>, op3)"
      "place_write pl ?b (t\<lparr>ls_out_count := k\<rparr>) out2 = Some (t\<lparr>ls_out_count := k, ls_out := o3\<rparr>, out3)"
      "length out3 = length out2" "op3 \<le> length out2" "take op3 out3 @ pending (t\<lparr>ls_out_count := k, ls_out := o3\<rparr>) = take op2 out2 @ ?b" "k = 0"
    using place_write_ok [OF t(2,3) room(1,3,4)] room(2) by blast
  have nb: "\<not> output_data_is_buffered s1"
    using q(1) p(3) pending_empty [of s1] by (simp add: encoding_def)
  have tr: "compress_trailer t out2 op2 = Some (t\<lparr>ls_out_count := 0, ls_out := o3, ls_wrote_trailer := True\<rparr>, out3, op3)"
    using t(4) w(1,2,6) by (simp add: compress_trailer_def)
  have f: "lzf_stream_compress_final e c inp out =
      Some (ISRCRY_OK, c1\<lparr>zc_ctx := Some (t\<lparr>ls_out_count := 0, ls_out := o3, ls_wrote_trailer := True\<rparr>)\<rparr>, length inp, op3, out3)"
    using p(1,2) q(2) nb t(1,3) tr by (simp add: lzf_stream_compress_final_def enc_ctx_def output_data_is_buffered_def)
  have st: "em @ take op3 out3 = zvs_bytes (bs @ [ZV_crc (ls_crc t)])"
    using w(5,6) t(9) by (simp add: pending_def zv_bytes_def)
  have ok: "zvs_ok e 0 (bs @ [ZV_crc (ls_crc t)])" "zvs_data (bs @ [ZV_crc (ls_crc t)]) = fed @ inp"
    using t(7,8,10) q(2) by (simp_all add: zvs_ok_append)
  from f st ok w(3,4) t(5) p(4) show ?thesis
    by - (rule exI, rule exI [of _ op3], rule exI [of _ out3], rule exI [of _ "bs @ [ZV_crc (ls_crc t)]"], auto)
qed

section \<open>Fresh contexts\<close>

definition env_ok :: "lzf_env \<Rightarrow> bool" where
  "env_ok e \<longleftrightarrow> length (e_in e) = BUFLEN \<and> length (e_out e) = BUFLEN"

definition fresh :: "lzf_env \<Rightarrow> c_enum \<Rightarrow> lzf_stream_ctx" where
  "fresh e dir = \<lparr>ls_block_ctx = \<lparr>zc_direction = dir, zc_level = 0, zc_ctx = Some (e_htab e)\<rparr>, ls_crc = 0, ls_wrote_trailer = False,
     ls_decode_state = WANT_HEADER_1, ls_block_type = 0, ls_output_size = 0, ls_in = e_in e, ls_in_offset = 0,
     ls_in_count = 1, ls_out = e_out e, ls_out_offset = 0, ls_out_count = 0\<rparr>"

lemma stream_init:
  assumes "dir \<in> {ISRCRY_ENCODE, ISRCRY_DECODE}"
  shows "isrcry_compress_init (isrcry_lzf_stream_desc e) c dir 0 = Some (ISRCRY_OK, \<lparr>zc_direction = dir, zc_level = 0, zc_ctx = Some (fresh e dir)\<rparr>)"
  using assms
  by (auto simp: isrcry_compress_init_def isrcry_lzf_stream_desc_def lzf_stream_alloc_def lzf_desc_defs lzf_alloc_def fresh_def set_state_def)

lemma fresh_encoding: "env_ok e \<Longrightarrow> encoding e (fresh e ISRCRY_ENCODE) [] []"
  unfolding encoding_def
  by (intro conjI exI [of _ "[]"]) (auto simp: fresh_def env_ok_def bufs_wf_def block_ready_def pending_def held_def MAX_BLOCK_def)

lemma fresh_decoding: "env_ok e \<Longrightarrow> zvs_ok e 0 bs \<Longrightarrow> decoding e (fresh e ISRCRY_DECODE) (zvs_bytes bs) bs"
  by (auto simp: decoding_def awaits_def fresh_def env_ok_def bufs_wf_def block_ready_def)

lemma zvs_ok_crc: "e_crc32 e' = e_crc32 e \<Longrightarrow> zvs_ok e' c bs = zvs_ok e c bs"
proof (induction bs arbitrary: c)
  case (Cons b bs)
  have "zv_next e' c b = zv_next e c b"
    using Cons.prems by (cases b) simp_all
  with Cons show ?case by simp
qed simp

lemma encode_pieces:
  assumes "env_ok e"
  shows "\<exists>c rest xs. feed (isrcry_compress_process (isrcry_lzf_stream_desc e)) calls
      \<lparr>zc_direction = ISRCRY_ENCODE, zc_level = 0, zc_ctx = Some (fresh e ISRCRY_ENCODE)\<rparr> data = Some (c, rest, xs)
    \<and> (\<forall>out. BUFLEN * (length data div MAX_BLOCK + 2) + 7 \<le> length out \<longrightarrow>
        (\<exists>c' n out' bs. isrcry_compress_final (isrcry_lzf_stream_desc e) c rest out = Some (ISRCRY_OK, c', length rest, n, out')
          \<and> zvs_ok e 0 bs \<and> xs @ take n out' = zvs_bytes bs \<and> zvs_data bs = data))"
proof -
  obtain c s rest xs k where f: "feed (isrcry_compress_process (isrcry_lzf_stream_desc e)) calls
      \<lparr>zc_direction = ISRCRY_ENCODE, zc_level = 0, zc_ctx = Some (fresh e ISRCRY_ENCODE)\<rparr> data = Some (c, rest, xs)"
      "enc_ctx e c s" "rest = drop k data" "encoding e s (take k data) xs"
    using compress_feed_ok [OF _ fresh_encoding [OF assms], of "\<lparr>zc_direction = ISRCRY_ENCODE, zc_level = 0, zc_ctx = Some (fresh e ISRCRY_ENCODE)\<rparr>" calls data]
    by (auto simp: enc_ctx_def)
  have off: "ls_in_offset s + length rest \<le> length data" "length (pending s) \<le> BUFLEN"
  proof -
    obtain bs where bs: "take k data = zvs_data bs @ held s" "bufs_wf s" "ls_in_offset s < MAX_BLOCK"
      using f(4) by (auto simp: encoding_def)
    then have "ls_in_offset s \<le> length (take k data)"
      by (simp add: held_def bufs_wf_def BUFLEN_def)
    moreover have "length (take k data) + length rest = length data"
      unfolding f(3) length_append [symmetric] append_take_drop_id ..
    ultimately show "ls_in_offset s + length rest \<le> length data"
      by linarith
    show "length (pending s) \<le> BUFLEN"
      by (rule length_pending [OF bs(2)])
  qed
  have "\<exists>c' n out' bs. isrcry_compress_final (isrcry_lzf_stream_desc e) c rest out = Some (ISRCRY_OK, c', length rest, n, out')
      \<and> zvs_ok e 0 bs \<and> xs @ take n out' = zvs_bytes bs \<and> zvs_data bs = data"
    if "BUFLEN * (length data div MAX_BLOCK + 2) + 7 \<le> length out" for out
  proof -
    have "BUFLEN * ((ls_in_offset s + length rest) div MAX_BLOCK) \<le> BUFLEN * (length data div MAX_BLOCK)"
      by (rule mult_le_mono2) (rule div_le_mono [OF off(1)])
    then have room: "length (pending s) + BUFLEN * ((ls_in_offset s + length rest) div MAX_BLOCK) + BUFLEN + 7 \<le> length out"
      using that off(2) unfolding distrib_left by linarith
    from compress_final_ok [OF f(2,4) room] show ?thesis
      unfolding enc_ops(2) [OF f(2)] f(3) append_take_drop_id by blast
  qed
  with f(1) show ?thesis
    by blast
qed

text \<open>Every way of passing the stream to a new decoder, piece by piece, succeeds, and a last call with room for the rest completes the data.\<close>

definition decodes :: "lzf_env \<Rightarrow> bytes \<Rightarrow> bytes \<Rightarrow> bool" where
  "decodes e stream data \<longleftrightarrow> (\<forall>z calls. \<exists>d0 d rest ys. isrcry_compress_init (isrcry_lzf_stream_desc e) z ISRCRY_DECODE 0 = Some (ISRCRY_OK, d0)
     \<and> feed (isrcry_compress_process (isrcry_lzf_stream_desc e)) calls d0 stream = Some (d, rest, ys)
     \<and> (\<forall>dst. length data \<le> length ys + length dst \<longrightarrow>
         (\<exists>d' n dst'. isrcry_compress_final (isrcry_lzf_stream_desc e) d rest dst = Some (ISRCRY_OK, d', length rest, n, dst')
           \<and> ys @ take n dst' = data)))"

lemma decode_pieces:
  assumes "env_ok e" "zvs_ok e 0 bs"
  shows "decodes e (zvs_bytes bs) (zvs_data bs)"
  unfolding decodes_def
proof (intro allI)
  fix z calls
  let ?c = "\<lparr>zc_direction = ISRCRY_DECODE, zc_level = 0, zc_ctx = Some (fresh e ISRCRY_DECODE)\<rparr>"
  have p0: "pending (fresh e ISRCRY_DECODE) = []"
    by (simp add: pending_def fresh_def)
  obtain d s rest ys bs' where f: "feed (isrcry_compress_process (isrcry_lzf_stream_desc e)) calls ?c (zvs_bytes bs) = Some (d, rest, ys)"
      "dec_ctx e d s" "decoding e s rest bs'" "ys @ pending s @ zvs_data bs' = zvs_data bs"
    using decompress_feed_ok [OF _ fresh_decoding [OF assms], of ?c calls] p0 by (auto simp: dec_ctx_def)
  have "\<exists>d' n dst'. isrcry_compress_final (isrcry_lzf_stream_desc e) d rest dst = Some (ISRCRY_OK, d', length rest, n, dst')
      \<and> ys @ take n dst' = zvs_data bs" if "length (zvs_data bs) \<le> length ys + length dst" for dst
  proof -
    have "length (pending s @ zvs_data bs') \<le> length dst"
      using that arg_cong [OF f(4), of length] by simp
    from decompress_final_ok [OF f(2,3) this] show ?thesis
      unfolding dec_ops(2) [OF f(2)] using f(4) by auto
  qed
  with f(1) show "\<exists>d0 d rest ys. isrcry_compress_init (isrcry_lzf_stream_desc e) z ISRCRY_DECODE 0 = Some (ISRCRY_OK, d0)
     \<and> feed (isrcry_compress_process (isrcry_lzf_stream_desc e)) calls d0 (zvs_bytes bs) = Some (d, rest, ys)
     \<and> (\<forall>dst. length (zvs_data bs) \<le> length ys + length dst \<longrightarrow>
         (\<exists>d' n dst'. isrcry_compress_final (isrcry_lzf_stream_desc e) d rest dst = Some (ISRCRY_OK, d', length rest, n, dst')
           \<and> ys @ take n dst' = zvs_data bs))"
    by - (rule exI [of _ ?c], rule exI [of _ d], rule exI [of _ rest], rule exI [of _ ys], simp add: stream_init)
qed

definition sample_env :: "u8 \<Rightarrow> lzf_env" where
  "sample_env x = \<lparr>e_crc32 = foldl (\<lambda>c b. 31 * c + ucast b), e_htab = (\<lambda>_. None), e_in = replicate BUFLEN x, e_out = replicate BUFLEN x\<rparr>"

section \<open>Properties\<close>

text \<open>
  C37.  Data encoded through the LZF stream interface, in pieces of any sizes and into output buffers of any sizes, and ended with
  one last call whose buffer has room for what may still come (\<open>BUFLEN\<close> for every full block of the data, \<open>BUFLEN\<close> each for the
  output still pending and the last block, and 7 for the trailer), gives a stream that decodes to the data, again in pieces of any
  sizes and with a last call that has room for the data not yet delivered; no call fails.  Encoder and decoder may be different
  processes with other contents of fresh memory and the same checksum function.
\<close>

theorem lzf_stream_round_trip:
  assumes "env_ok e" "env_ok e'" "e_crc32 e' = e_crc32 e"
  shows "\<exists>c0 c rest xs. isrcry_compress_init (isrcry_lzf_stream_desc e) z ISRCRY_ENCODE 0 = Some (ISRCRY_OK, c0)
    \<and> feed (isrcry_compress_process (isrcry_lzf_stream_desc e)) calls c0 data = Some (c, rest, xs)
    \<and> (\<forall>out. BUFLEN * (length data div MAX_BLOCK + 2) + 7 \<le> length out \<longrightarrow>
        (\<exists>c' n out'. isrcry_compress_final (isrcry_lzf_stream_desc e) c rest out = Some (ISRCRY_OK, c', length rest, n, out')
          \<and> decodes e' (xs @ take n out') data))"
proof -
  let ?c = "\<lparr>zc_direction = ISRCRY_ENCODE, zc_level = 0, zc_ctx = Some (fresh e ISRCRY_ENCODE)\<rparr>"
  obtain c rest xs where f: "feed (isrcry_compress_process (isrcry_lzf_stream_desc e)) calls ?c data = Some (c, rest, xs)"
    and fin: "\<And>out. BUFLEN * (length data div MAX_BLOCK + 2) + 7 \<le> length out \<Longrightarrow>
      \<exists>c' n out' bs. isrcry_compress_final (isrcry_lzf_stream_desc e) c rest out = Some (ISRCRY_OK, c', length rest, n, out')
        \<and> zvs_ok e 0 bs \<and> xs @ take n out' = zvs_bytes bs \<and> zvs_data bs = data"
    using encode_pieces [OF assms(1), of calls data] by blast
  have "\<exists>c' n out'. isrcry_compress_final (isrcry_lzf_stream_desc e) c rest out = Some (ISRCRY_OK, c', length rest, n, out')
      \<and> decodes e' (xs @ take n out') data" if "BUFLEN * (length data div MAX_BLOCK + 2) + 7 \<le> length out" for out
    using fin [OF that] decode_pieces [OF assms(2)] zvs_ok_crc [OF assms(3)] by metis
  with f show ?thesis
    by - (rule exI [of _ ?c], rule exI [of _ c], rule exI [of _ rest], rule exI [of _ xs], simp add: stream_init)
qed

theorem lzf_stream_round_trip_witness:
  "\<exists>c0 c rest xs c' n out'.
    isrcry_compress_init (isrcry_lzf_stream_desc (sample_env 0)) \<lparr>zc_direction = 0, zc_level = 0, zc_ctx = None\<rparr> ISRCRY_ENCODE 0 = Some (ISRCRY_OK, c0)
    \<and> feed (isrcry_compress_process (isrcry_lzf_stream_desc (sample_env 0))) [(40, replicate 3 0), (200, replicate 9 0)] c0 [7] =
      Some (c, rest, xs)
    \<and> isrcry_compress_final (isrcry_lzf_stream_desc (sample_env 0)) c rest (replicate (BUFLEN * (0 + 2) + 7) 0) =
        Some (ISRCRY_OK, c', length rest, n, out')
    \<and> decodes (sample_env 5) (xs @ take n out') [7]"
proof -
  have ok: "env_ok (sample_env x)" "e_crc32 (sample_env x) = e_crc32 (sample_env y)" for x y
    by (simp_all add: env_ok_def sample_env_def)
  have len: "length ([7] :: bytes) div MAX_BLOCK = 0"
    by (simp add: MAX_BLOCK_def)
  have out: "BUFLEN * (0 + 2) + 7 \<le> length (replicate (BUFLEN * (0 + 2) + 7) (0::u8))"
    by simp
  show ?thesis
    using lzf_stream_round_trip [OF ok(1) [of 0] ok(1) [of 5] ok(2), where z = "\<lparr>zc_direction = 0, zc_level = 0, zc_ctx = None\<rparr>" and data = "[7]"
        and calls = "[(40, replicate 3 0), (200, replicate 9 0)]"] out
    unfolding len by blast
qed

end
