(* ===== verification/Isr_Zlib.thy ===== *)
theory Isr_Zlib
  imports Isr_Chunk
begin

text \<open>
  The compression backends on external libraries, \<^verbatim>\<open>crypto/zlib.c\<close> and \<^verbatim>\<open>crypto/lzma.c\<close>.  The libraries are parameters: the
  functions the code calls, over a stream whose fields are those the code sets and reads.  What is relied on of them is what their
  manuals say of a call (\<open>stream_step\<close>) and of compressing and decompressing a whole buffer (\<open>stream_whole\<close>).  With it both backends keep
  the contract of a block compressor, and the chunk codec its round trip.
\<close>

section \<open>Streams\<close>

text \<open>The \<^verbatim>\<open>avail_in\<close> bytes at \<^verbatim>\<open>next_in\<close>, what was stored since the last setup, the room left, and the library's own state.\<close>

record 's z_stream =
  z_next_in :: bytes
  z_next_out :: bytes
  z_avail_out :: nat
  z_state :: 's

text \<open>The stream as \<open>g_slice_new0\<close> gives it, with the library's zeroed state.\<close>

definition z_new :: "'s \<Rightarrow> 's z_stream" where
  "z_new zero = \<lparr>z_next_in = [], z_next_out = [], z_avail_out = 0, z_state = zero\<rparr>"

definition stream_setup :: "'s z_stream \<Rightarrow> bytes \<Rightarrow> bytes \<Rightarrow> 's z_stream" where
  "stream_setup strm inp out = strm\<lparr>z_next_in := inp, z_next_out := [], z_avail_out := length out\<rparr>"

text \<open>The new \<^verbatim>\<open>*inlen\<close> and \<^verbatim>\<open>*outlen\<close>.\<close>

definition stream_result :: "'s z_stream \<Rightarrow> nat \<Rightarrow> nat \<Rightarrow> nat \<times> nat" where
  "stream_result strm inlen outlen = (sub32 inlen (length (z_next_in strm)), sub32 outlen (z_avail_out strm))"

text \<open>
  What all operations do: set the stream up, call the library, and read the lengths off the stream.  The code returned, the stream, the
  lengths and the output buffer.
\<close>

definition stream_call :: "('s z_stream \<Rightarrow> int \<times> 's z_stream) \<Rightarrow> 's z_stream isrcry_compress_ctx \<Rightarrow> bytes \<Rightarrow> bytes
    \<Rightarrow> (int \<times> 's z_stream \<times> nat \<times> nat \<times> bytes) option" where
  "stream_call f cctx inp out = do {
     strm \<leftarrow> zc_ctx cctx;
     (case f (stream_setup strm inp out) of (ret, strm) \<Rightarrow>
        if length out < length (z_next_out strm) then None
        else case stream_result strm (length inp) (length out) of (inlen, outlen) \<Rightarrow>
          Some (ret, strm, inlen, outlen, blit out 0 (z_next_out strm)))
   }"

section \<open>zlib.c\<close>

abbreviation (input) Z_OK :: int where "Z_OK \<equiv> 0"
abbreviation (input) Z_STREAM_END :: int where "Z_STREAM_END \<equiv> 1"
abbreviation (input) Z_NEED_DICT :: int where "Z_NEED_DICT \<equiv> 2"
abbreviation (input) Z_ERRNO :: int where "Z_ERRNO \<equiv> -1"
abbreviation (input) Z_STREAM_ERROR :: int where "Z_STREAM_ERROR \<equiv> -2"
abbreviation (input) Z_DATA_ERROR :: int where "Z_DATA_ERROR \<equiv> -3"
abbreviation (input) Z_MEM_ERROR :: int where "Z_MEM_ERROR \<equiv> -4"
abbreviation (input) Z_BUF_ERROR :: int where "Z_BUF_ERROR \<equiv> -5"
abbreviation (input) Z_VERSION_ERROR :: int where "Z_VERSION_ERROR \<equiv> -6"
abbreviation (input) Z_FINISH :: int where "Z_FINISH \<equiv> 4"
abbreviation (input) Z_DEFAULT_COMPRESSION :: int where "Z_DEFAULT_COMPRESSION \<equiv> -1"

text \<open>The library, over its own state \<open>'s\<close>.\<close>

record 's zlib =
  zlib_zero :: 's
  deflateInit :: "int \<Rightarrow> 's z_stream \<Rightarrow> int \<times> 's z_stream"
  inflateInit :: "'s z_stream \<Rightarrow> int \<times> 's z_stream"
  deflate :: "int \<Rightarrow> 's z_stream \<Rightarrow> int \<times> 's z_stream"
  inflate :: "int \<Rightarrow> 's z_stream \<Rightarrow> int \<times> 's z_stream"

definition zlib_error :: "int \<Rightarrow> isrcry_result option" where
  "zlib_error err =
     (if err = Z_STREAM_ERROR then Some ISRCRY_INVALID_ARGUMENT
      else if err = Z_NEED_DICT \<or> err = Z_DATA_ERROR then Some ISRCRY_BAD_FORMAT
      else if err = Z_BUF_ERROR then Some ISRCRY_BUFFER_OVERFLOW
      else if err = Z_ERRNO \<or> err = Z_MEM_ERROR \<or> err = Z_VERSION_ERROR then None
      else Some ISRCRY_OK)"

definition zlib_alloc :: "'s zlib \<Rightarrow> 's z_stream isrcry_compress_ctx \<Rightarrow> (isrcry_result \<times> 's z_stream isrcry_compress_ctx) option" where
  "zlib_alloc lib cctx =
     (let cctx = (if zc_level cctx = 0 then cctx\<lparr>zc_level := Z_DEFAULT_COMPRESSION\<rparr> else cctx);
          strm = z_new (zlib_zero lib) in
      case (if zc_direction cctx = ISRCRY_ENCODE then deflateInit lib (zc_level cctx) strm else inflateInit lib strm) of (ret, strm) \<Rightarrow>
        if ret \<noteq> 0 then map_option (\<lambda>r. (r, cctx)) (zlib_error ret)
        else Some (ISRCRY_OK, cctx\<lparr>zc_ctx := Some strm\<rparr>))"

definition zlib_compress_process :: "'s zlib \<Rightarrow> 's z_stream compress_op" where
  "zlib_compress_process lib cctx inp out = do {
     (ret, strm, inlen, outlen, out) \<leftarrow> stream_call (deflate lib 0) cctx inp out;
     r \<leftarrow> zlib_error ret;
     Some (r, cctx\<lparr>zc_ctx := Some strm\<rparr>, inlen, outlen, out)
   }"

definition zlib_compress_final :: "'s zlib \<Rightarrow> 's z_stream compress_op" where
  "zlib_compress_final lib cctx inp out = do {
     (ret, strm, inlen, outlen, out) \<leftarrow> stream_call (deflate lib Z_FINISH) cctx inp out;
     r \<leftarrow> (if ret = Z_OK then Some ISRCRY_BUFFER_OVERFLOW else zlib_error ret);
     Some (r, cctx\<lparr>zc_ctx := Some strm\<rparr>, inlen, outlen, out)
   }"

definition zlib_decompress_process :: "'s zlib \<Rightarrow> 's z_stream compress_op" where
  "zlib_decompress_process lib cctx inp out = do {
     (ret, strm, inlen, outlen, out) \<leftarrow> stream_call (inflate lib 0) cctx inp out;
     r \<leftarrow> (if 0 < length (z_next_in strm) \<and> ret = Z_STREAM_END then Some ISRCRY_BAD_FORMAT else zlib_error ret);
     Some (r, cctx\<lparr>zc_ctx := Some strm\<rparr>, inlen, outlen, out)
   }"

definition zlib_decompress_final :: "'s zlib \<Rightarrow> 's z_stream compress_op" where
  "zlib_decompress_final lib cctx inp out = do {
     (ret, strm, inlen, outlen, out) \<leftarrow> stream_call (inflate lib Z_FINISH) cctx inp out;
     r \<leftarrow> (if 0 < length (z_next_in strm) \<and> ret = Z_STREAM_END then Some ISRCRY_BAD_FORMAT
           else if ret = Z_OK then Some ISRCRY_BUFFER_OVERFLOW
           else zlib_error ret);
     Some (r, cctx\<lparr>zc_ctx := Some strm\<rparr>, inlen, outlen, out)
   }"

definition isrcry_zlib_desc :: "'s zlib \<Rightarrow> 's z_stream isrcry_compress_desc" where
  "isrcry_zlib_desc lib = \<lparr>zd_can_stream = True, zd_alloc = zlib_alloc lib,
     zd_compress_process = Some (zlib_compress_process lib), zd_compress_final = zlib_compress_final lib,
     zd_decompress_process = Some (zlib_decompress_process lib), zd_decompress_final = zlib_decompress_final lib\<rparr>"

section \<open>lzma.c\<close>

abbreviation (input) LZMA_OK :: int where "LZMA_OK \<equiv> 0"
abbreviation (input) LZMA_STREAM_END :: int where "LZMA_STREAM_END \<equiv> 1"
abbreviation (input) LZMA_UNSUPPORTED_CHECK :: int where "LZMA_UNSUPPORTED_CHECK \<equiv> 3"
abbreviation (input) LZMA_FORMAT_ERROR :: int where "LZMA_FORMAT_ERROR \<equiv> 7"
abbreviation (input) LZMA_OPTIONS_ERROR :: int where "LZMA_OPTIONS_ERROR \<equiv> 8"
abbreviation (input) LZMA_DATA_ERROR :: int where "LZMA_DATA_ERROR \<equiv> 9"
abbreviation (input) LZMA_BUF_ERROR :: int where "LZMA_BUF_ERROR \<equiv> 10"
abbreviation (input) LZMA_PROG_ERROR :: int where "LZMA_PROG_ERROR \<equiv> 11"
abbreviation (input) LZMA_RUN :: int where "LZMA_RUN \<equiv> 0"
abbreviation (input) LZMA_FINISH :: int where "LZMA_FINISH \<equiv> 3"
abbreviation (input) LZMA_CHECK_CRC32 :: int where "LZMA_CHECK_CRC32 \<equiv> 1"

record 's lzma =
  lzma_zero :: 's
  lzma_easy_encoder :: "'s z_stream \<Rightarrow> int \<Rightarrow> int \<Rightarrow> int \<times> 's z_stream"
  lzma_stream_decoder :: "'s z_stream \<Rightarrow> nat \<Rightarrow> nat \<Rightarrow> int \<times> 's z_stream"
  lzma_code :: "'s z_stream \<Rightarrow> int \<Rightarrow> int \<times> 's z_stream"

definition MEMLIMIT_DECODE :: nat where "MEMLIMIT_DECODE = 2 ^ 30"

definition lzma_error :: "int \<Rightarrow> isrcry_result option" where
  "lzma_error err =
     (if err = LZMA_OK \<or> err = LZMA_STREAM_END then Some ISRCRY_OK
      else if err = LZMA_UNSUPPORTED_CHECK \<or> err = LZMA_OPTIONS_ERROR \<or> err = LZMA_PROG_ERROR then Some ISRCRY_INVALID_ARGUMENT
      else if err = LZMA_FORMAT_ERROR \<or> err = LZMA_DATA_ERROR then Some ISRCRY_BAD_FORMAT
      else if err = LZMA_BUF_ERROR then Some ISRCRY_BUFFER_OVERFLOW
      else None)"

definition lzma_alloc :: "'s lzma \<Rightarrow> 's z_stream isrcry_compress_ctx \<Rightarrow> (isrcry_result \<times> 's z_stream isrcry_compress_ctx) option" where
  "lzma_alloc lib cctx =
     (let cctx = (if zc_level cctx = 0 then cctx\<lparr>zc_level := 7\<rparr> else cctx);
          strm = z_new (lzma_zero lib) in
      case (if zc_direction cctx = ISRCRY_ENCODE then lzma_easy_encoder lib strm (zc_level cctx) LZMA_CHECK_CRC32
            else lzma_stream_decoder lib strm MEMLIMIT_DECODE 0) of (ret, strm) \<Rightarrow>
        if ret \<noteq> 0 then map_option (\<lambda>r. (r, cctx)) (lzma_error ret)
        else Some (ISRCRY_OK, cctx\<lparr>zc_ctx := Some strm\<rparr>))"

definition lzma_run :: "'s lzma \<Rightarrow> bool \<Rightarrow> 's z_stream compress_op" where
  "lzma_run lib final cctx inp out = do {
     (ret, strm, inlen, outlen, out) \<leftarrow>
       stream_call (\<lambda>strm. lzma_code lib strm (if final then LZMA_FINISH else LZMA_RUN)) cctx inp out;
     r \<leftarrow> (if final \<and> ret = LZMA_OK then Some ISRCRY_BUFFER_OVERFLOW
           else if zc_direction cctx = ISRCRY_DECODE \<and> 0 < length (z_next_in strm) \<and> ret = LZMA_STREAM_END then Some ISRCRY_BAD_FORMAT
           else lzma_error ret);
     Some (r, cctx\<lparr>zc_ctx := Some strm\<rparr>, inlen, outlen, out)
   }"

definition isrcry_lzma_desc :: "'s lzma \<Rightarrow> 's z_stream isrcry_compress_desc" where
  "isrcry_lzma_desc lib = \<lparr>zd_can_stream = True, zd_alloc = lzma_alloc lib,
     zd_compress_process = Some (lzma_run lib False), zd_compress_final = lzma_run lib True,
     zd_decompress_process = Some (lzma_run lib False), zd_decompress_final = lzma_run lib True\<rparr>"

section \<open>What the libraries promise\<close>

text \<open>
  A call returns one of the documented codes, takes input from the front, and stores no more than there is room for.
\<close>

definition stream_step :: "int set \<Rightarrow> ('s z_stream \<Rightarrow> int \<times> 's z_stream) \<Rightarrow> bool" where
  "stream_step codes f \<longleftrightarrow> (\<forall>strm. case f strm of (ret, strm') \<Rightarrow> ret \<in> codes
     \<and> (\<exists>k. z_next_in strm' = drop k (z_next_in strm))
     \<and> (\<exists>w. z_next_out strm' = z_next_out strm @ w \<and> length w + z_avail_out strm' = z_avail_out strm))"

text \<open>
  A call that is to finish a new compression stream reports the end (code 1 in both libraries) only when all input is taken and the
  output is complete; a call that is to finish a new decompression stream, given this output and room for the data, then
  delivers the data, takes all its input and reports the end.
\<close>

definition stream_whole :: "'s z_stream \<Rightarrow> ('s z_stream \<Rightarrow> int \<times> 's z_stream) \<Rightarrow> 's z_stream \<Rightarrow> ('s z_stream \<Rightarrow> int \<times> 's z_stream) \<Rightarrow> bool" where
  "stream_whole st enc st' dec \<longleftrightarrow> (\<forall>inp out s. enc (stream_setup st inp out) = (1, s) \<longrightarrow> z_next_in s = []
     \<and> (\<forall>dst. length inp \<le> length dst \<longrightarrow>
          (\<exists>s'. dec (stream_setup st' (z_next_out s) dst) = (1, s') \<and> z_next_in s' = [] \<and> z_next_out s' = inp)))"

text \<open>zlib with enough memory and of the version compiled against; \<^verbatim>\<open>Z_MEM_ERROR\<close> and \<^verbatim>\<open>Z_VERSION_ERROR\<close> end the process otherwise.\<close>

definition deflate_new :: "'s zlib \<Rightarrow> 's z_stream" where
  "deflate_new lib = snd (deflateInit lib Z_DEFAULT_COMPRESSION (z_new (zlib_zero lib)))"

definition inflate_new :: "'s zlib \<Rightarrow> 's z_stream" where
  "inflate_new lib = snd (inflateInit lib (z_new (zlib_zero lib)))"

definition zlib_documented :: "'s zlib \<Rightarrow> bool" where
  "zlib_documented lib \<longleftrightarrow>
     fst (deflateInit lib Z_DEFAULT_COMPRESSION (z_new (zlib_zero lib))) = Z_OK \<and> fst (inflateInit lib (z_new (zlib_zero lib))) = Z_OK
     \<and> stream_step {Z_OK, Z_STREAM_END, Z_STREAM_ERROR, Z_BUF_ERROR} (deflate lib Z_FINISH)
     \<and> stream_step {Z_OK, Z_STREAM_END, Z_NEED_DICT, Z_STREAM_ERROR, Z_DATA_ERROR, Z_BUF_ERROR} (inflate lib Z_FINISH)
     \<and> stream_whole (deflate_new lib) (deflate lib Z_FINISH) (inflate_new lib) (inflate lib Z_FINISH)"

text \<open>The same of liblzma.\<close>

definition lzma_enc_new :: "'s lzma \<Rightarrow> 's z_stream" where
  "lzma_enc_new lib = snd (lzma_easy_encoder lib (z_new (lzma_zero lib)) 7 LZMA_CHECK_CRC32)"

definition lzma_dec_new :: "'s lzma \<Rightarrow> 's z_stream" where
  "lzma_dec_new lib = snd (lzma_stream_decoder lib (z_new (lzma_zero lib)) MEMLIMIT_DECODE 0)"

definition lzma_documented :: "'s lzma \<Rightarrow> bool" where
  "lzma_documented lib \<longleftrightarrow>
     fst (lzma_easy_encoder lib (z_new (lzma_zero lib)) 7 LZMA_CHECK_CRC32) = LZMA_OK
     \<and> fst (lzma_stream_decoder lib (z_new (lzma_zero lib)) MEMLIMIT_DECODE 0) = LZMA_OK
     \<and> stream_step {LZMA_OK, LZMA_STREAM_END, LZMA_UNSUPPORTED_CHECK, LZMA_FORMAT_ERROR, LZMA_OPTIONS_ERROR, LZMA_DATA_ERROR,
          LZMA_BUF_ERROR, LZMA_PROG_ERROR} (\<lambda>strm. lzma_code lib strm LZMA_FINISH)
     \<and> stream_whole (lzma_enc_new lib) (\<lambda>strm. lzma_code lib strm LZMA_FINISH) (lzma_dec_new lib) (\<lambda>strm. lzma_code lib strm LZMA_FINISH)"

section \<open>The contract of a block compressor\<close>

text \<open>A call on a stream, with the lengths it reports.\<close>

lemma stream_call_run:
  assumes "stream_step codes f" "zc_ctx cctx = Some strm" "length out < 2 ^ 32"
  obtains ret s where "f (stream_setup strm inp out) = (ret, s)" "ret \<in> codes" "length (z_next_out s) + z_avail_out s = length out"
    "stream_call f cctx inp out = Some (ret, s, sub32 (length inp) (length (z_next_in s)), length (z_next_out s), blit out 0 (z_next_out s))"
proof -
  obtain ret s where f: "f (stream_setup strm inp out) = (ret, s)"
    by fastforce
  have c: "ret \<in> codes" "length (z_next_out s) + z_avail_out s = length out"
    using assms(1) [unfolded stream_step_def, rule_format, of "stream_setup strm inp out"] f by (auto simp: stream_setup_def)
  moreover have "sub32 (length out) (z_avail_out s) = length (z_next_out s)"
    using c(2) assms(3) by (subst sub32_small) linarith+
  ultimately show thesis
    using f assms(2) by - (rule that, simp_all add: stream_call_def stream_result_def)
qed

text \<open>
  Both libraries are used alike: a code is turned into a result, which is success of an encoder only at the end of the stream, and
  success of a decoder at the end of the stream if no input is left.
\<close>

lemma stream_block_compressor:
  fixes comp decomp :: "bytes \<Rightarrow> bytes \<Rightarrow> (isrcry_result \<times> nat \<times> nat \<times> bytes) option"
  assumes enc: "stream_step ecodes enc" "zc_ctx ec = Some st" and dec: "stream_step dcodes dec" "zc_ctx dc = Some st'"
    and whole: "stream_whole st enc st' dec"
    and comp: "\<And>inp out. comp inp out = Option.bind (stream_call enc ec inp out)
      (\<lambda>(ret, s, il, ol, out). map_option (\<lambda>r. (r, il, ol, out)) (eres ret s))"
    and eres: "\<And>ret s. ret \<in> ecodes \<Longrightarrow> eres ret s \<noteq> None" "\<And>ret s. ret \<in> ecodes \<Longrightarrow> eres ret s = Some ISRCRY_OK \<Longrightarrow> ret = 1"
    and decomp: "\<And>inp out. decomp inp out = Option.bind (stream_call dec dc inp out)
      (\<lambda>(ret, s, il, ol, out). map_option (\<lambda>r. (r, il, ol, out)) (dres ret s))"
    and dres: "\<And>s. z_next_in s = [] \<Longrightarrow> dres 1 s = Some ISRCRY_OK"
  shows "block_compressor comp decomp (\<lambda>inp. length inp < 2 ^ 32)"
proof
  fix inp out :: bytes
  assume len: "length inp < 2 ^ 32" "length out < 2 ^ 32"
  obtain ret s where e: "enc (stream_setup st inp out) = (ret, s)" "ret \<in> ecodes" "length (z_next_out s) + z_avail_out s = length out"
      "stream_call enc ec inp out = Some (ret, s, sub32 (length inp) (length (z_next_in s)), length (z_next_out s), blit out 0 (z_next_out s))"
    by (rule stream_call_run [OF enc len(2)])
  obtain r where r: "eres ret s = Some r"
    using eres(1) [OF e(2)] by blast
  have c: "comp inp out = Some (r, sub32 (length inp) (length (z_next_in s)), length (z_next_out s), blit out 0 (z_next_out s))"
    by (simp add: comp e(4) r)
  show "\<exists>r il ol out'. comp inp out = Some (r, il, ol, out') \<and> length out' = length out \<and> ol \<le> length out"
    using c e(3) by simp
  fix il ol out' and dst :: bytes
  assume ok: "comp inp out = Some (ISRCRY_OK, il, ol, out')"
  then have eq: "r = ISRCRY_OK" "il = sub32 (length inp) (length (z_next_in s))" "ol = length (z_next_out s)" "out' = blit out 0 (z_next_out s)"
    using c by simp_all
  have "enc (stream_setup st inp out) = (1, s)"
    using e(1) eres(2) [OF e(2)] r eq(1) by simp
  then have w: "z_next_in s = []" "\<And>dst. length inp \<le> length dst \<Longrightarrow>
      \<exists>s'. dec (stream_setup st' (z_next_out s) dst) = (1, s') \<and> z_next_in s' = [] \<and> z_next_out s' = inp"
    using whole unfolding stream_whole_def by blast+
  show "il = length inp"
    using eq(2) w(1) len(1) by (simp add: sub32_small)
  assume dst: "length dst = length inp"
  have t: "take ol out' = z_next_out s" "length (z_next_out s) < 2 ^ 32"
    using eq(3,4) e(3) len(2) by (simp_all add: blit_def)
  obtain s' where s': "dec (stream_setup st' (z_next_out s) dst) = (1, s')" "z_next_in s' = []" "z_next_out s' = inp"
    using w(2) [of dst] dst by auto
  have dl: "length dst < 2 ^ 32"
    using dst len(1) by simp
  obtain ret2 s2 where "dec (stream_setup st' (z_next_out s) dst) = (ret2, s2)"
      "stream_call dec dc (z_next_out s) dst =
        Some (ret2, s2, sub32 (length (z_next_out s)) (length (z_next_in s2)), length (z_next_out s2), blit dst 0 (z_next_out s2))"
    by (rule stream_call_run [OF dec dl])
  then have "stream_call dec dc (z_next_out s) dst = Some (1, s', length (z_next_out s), length inp, inp)"
    using s' dst t(2) by (simp add: sub32_small blit_over)
  then show "decomp (take ol out') dst = Some (ISRCRY_OK, ol, length inp, inp)"
    unfolding t(1) by (simp add: decomp dres s'(2) eq(3))
qed

lemma bind_Some_map: "Option.bind x (\<lambda>r. Some (f r)) = map_option f x"
  by (cases x) simp_all

text \<open>The contexts after the initialisation.\<close>

definition zlib_ctx :: "c_enum \<Rightarrow> 's z_stream \<Rightarrow> 's z_stream isrcry_compress_ctx" where
  "zlib_ctx dir strm = \<lparr>zc_direction = dir, zc_level = Z_DEFAULT_COMPRESSION, zc_ctx = Some strm\<rparr>"

lemma zlib_init:
  assumes "zlib_documented lib"
  shows "isrcry_compress_init (isrcry_zlib_desc lib) c ISRCRY_ENCODE 0 = Some (ISRCRY_OK, zlib_ctx ISRCRY_ENCODE (deflate_new lib))"
    and "isrcry_compress_init (isrcry_zlib_desc lib) c ISRCRY_DECODE 0 = Some (ISRCRY_OK, zlib_ctx ISRCRY_DECODE (inflate_new lib))"
  using assms by (simp_all add: zlib_documented_def isrcry_compress_init_def isrcry_zlib_desc_def zlib_alloc_def zlib_ctx_def
      deflate_new_def inflate_new_def case_prod_unfold)

text \<open>The result of the calls that finish a stream.\<close>

definition zlib_end_result :: "int \<Rightarrow> 's z_stream \<Rightarrow> isrcry_result option" where
  "zlib_end_result ret s = (if ret = Z_OK then Some ISRCRY_BUFFER_OVERFLOW else zlib_error ret)"

definition zlib_decode_result :: "int \<Rightarrow> 's z_stream \<Rightarrow> isrcry_result option" where
  "zlib_decode_result ret s = (if z_next_in s \<noteq> [] \<and> ret = Z_STREAM_END then Some ISRCRY_BAD_FORMAT else zlib_end_result ret s)"

lemma one_shot_zlib:
  assumes "zlib_documented lib"
  shows "one_shot (isrcry_zlib_desc lib) c ISRCRY_ENCODE inp out =
      Option.bind (stream_call (deflate lib Z_FINISH) (zlib_ctx ISRCRY_ENCODE (deflate_new lib)) inp out)
        (\<lambda>(ret, s, il, ol, out). map_option (\<lambda>r. (r, il, ol, out)) (zlib_end_result ret s))"
    and "one_shot (isrcry_zlib_desc lib) c ISRCRY_DECODE inp out =
      Option.bind (stream_call (inflate lib Z_FINISH) (zlib_ctx ISRCRY_DECODE (inflate_new lib)) inp out)
        (\<lambda>(ret, s, il, ol, out). map_option (\<lambda>r. (r, il, ol, out)) (zlib_decode_result ret s))"
  unfolding one_shot_def zlib_init [OF assms]
  by (auto simp: isrcry_compress_final_def zlib_ctx_def isrcry_zlib_desc_def zlib_compress_final_def zlib_decompress_final_def
      zlib_end_result_def zlib_decode_result_def map_option_bind option.map_comp comp_def bind_Some_map intro!: Option.bind_cong split: option.splits)

lemma zlib_block_compressor:
  assumes "zlib_documented lib"
  shows "block_compressor (one_shot (isrcry_zlib_desc lib) c ISRCRY_ENCODE) (one_shot (isrcry_zlib_desc lib) c' ISRCRY_DECODE)
    (\<lambda>inp. length inp < 2 ^ 32)"
proof (rule stream_block_compressor [where eres = zlib_end_result and dres = zlib_decode_result])
  show "stream_step {Z_OK, Z_STREAM_END, Z_STREAM_ERROR, Z_BUF_ERROR} (deflate lib Z_FINISH)"
    "stream_step {Z_OK, Z_STREAM_END, Z_NEED_DICT, Z_STREAM_ERROR, Z_DATA_ERROR, Z_BUF_ERROR} (inflate lib Z_FINISH)"
    "stream_whole (deflate_new lib) (deflate lib Z_FINISH) (inflate_new lib) (inflate lib Z_FINISH)"
    using assms by (simp_all add: zlib_documented_def)
  show "zc_ctx (zlib_ctx ISRCRY_ENCODE (deflate_new lib)) = Some (deflate_new lib)"
    "zc_ctx (zlib_ctx ISRCRY_DECODE (inflate_new lib)) = Some (inflate_new lib)"
    by (simp_all add: zlib_ctx_def)
qed (auto simp: one_shot_zlib [OF assms] zlib_end_result_def zlib_decode_result_def zlib_error_def)

lemma lzma_init:
  assumes "lzma_documented lib"
  shows "isrcry_compress_init (isrcry_lzma_desc lib) c ISRCRY_ENCODE 0 =
      Some (ISRCRY_OK, \<lparr>zc_direction = ISRCRY_ENCODE, zc_level = 7, zc_ctx = Some (lzma_enc_new lib)\<rparr>)"
    and "isrcry_compress_init (isrcry_lzma_desc lib) c ISRCRY_DECODE 0 =
      Some (ISRCRY_OK, \<lparr>zc_direction = ISRCRY_DECODE, zc_level = 7, zc_ctx = Some (lzma_dec_new lib)\<rparr>)"
  using assms by (simp_all add: lzma_documented_def isrcry_compress_init_def isrcry_lzma_desc_def lzma_alloc_def
      lzma_enc_new_def lzma_dec_new_def case_prod_unfold)

definition lzma_result :: "c_enum \<Rightarrow> int \<Rightarrow> 's z_stream \<Rightarrow> isrcry_result option" where
  "lzma_result dir ret s = (if ret = LZMA_OK then Some ISRCRY_BUFFER_OVERFLOW
     else if dir = ISRCRY_DECODE \<and> z_next_in s \<noteq> [] \<and> ret = LZMA_STREAM_END then Some ISRCRY_BAD_FORMAT else lzma_error ret)"

lemma one_shot_lzma:
  assumes "lzma_documented lib"
  shows "one_shot (isrcry_lzma_desc lib) c ISRCRY_ENCODE inp out =
      Option.bind (stream_call (\<lambda>strm. lzma_code lib strm LZMA_FINISH) \<lparr>zc_direction = ISRCRY_ENCODE, zc_level = 7, zc_ctx = Some (lzma_enc_new lib)\<rparr> inp out)
        (\<lambda>(ret, s, il, ol, out). map_option (\<lambda>r. (r, il, ol, out)) (lzma_result ISRCRY_ENCODE ret s))"
    and "one_shot (isrcry_lzma_desc lib) c ISRCRY_DECODE inp out =
      Option.bind (stream_call (\<lambda>strm. lzma_code lib strm LZMA_FINISH) \<lparr>zc_direction = ISRCRY_DECODE, zc_level = 7, zc_ctx = Some (lzma_dec_new lib)\<rparr> inp out)
        (\<lambda>(ret, s, il, ol, out). map_option (\<lambda>r. (r, il, ol, out)) (lzma_result ISRCRY_DECODE ret s))"
  unfolding one_shot_def lzma_init [OF assms]
  by (auto simp: isrcry_compress_final_def isrcry_lzma_desc_def lzma_run_def lzma_result_def map_option_bind option.map_comp comp_def bind_Some_map
      intro!: Option.bind_cong split: option.splits)

text \<open>
  The chunk codec does not use LZMA; the contract holds of it all the same.  A stream whose decoder needs more than
  \<^verbatim>\<open>MEMLIMIT_DECODE\<close> bytes is not covered: \<^verbatim>\<open>lzma_code\<close> answers it with \<^verbatim>\<open>LZMA_MEMLIMIT_ERROR\<close>, and \<open>lzma_error\<close> ends the process.
\<close>

lemma lzma_block_compressor:
  assumes "lzma_documented lib"
  shows "block_compressor (one_shot (isrcry_lzma_desc lib) c ISRCRY_ENCODE) (one_shot (isrcry_lzma_desc lib) c' ISRCRY_DECODE)
    (\<lambda>inp. length inp < 2 ^ 32)"
proof (rule stream_block_compressor [where eres = "lzma_result ISRCRY_ENCODE" and dres = "lzma_result ISRCRY_DECODE"])
  let ?codes = "{LZMA_OK, LZMA_STREAM_END, LZMA_UNSUPPORTED_CHECK, LZMA_FORMAT_ERROR, LZMA_OPTIONS_ERROR, LZMA_DATA_ERROR,
    LZMA_BUF_ERROR, LZMA_PROG_ERROR}"
  show "stream_step ?codes (\<lambda>strm. lzma_code lib strm LZMA_FINISH)" "stream_step ?codes (\<lambda>strm. lzma_code lib strm LZMA_FINISH)"
    "stream_whole (lzma_enc_new lib) (\<lambda>strm. lzma_code lib strm LZMA_FINISH) (lzma_dec_new lib) (\<lambda>strm. lzma_code lib strm LZMA_FINISH)"
    using assms by (simp_all add: lzma_documented_def)
qed (auto simp: one_shot_lzma [OF assms] lzma_result_def lzma_error_def)

section \<open>The chunk codec on zlib\<close>

lemma zlib_in_backends:
  fixes b :: "('s z_stream, 't, 'm) backends"
  assumes "b_zlib b = isrcry_zlib_desc lib"
  obtains d c0 c where "isrcry_compress_alloc b ISRCRY_COMPRESS_ZLIB = Some (d, c0)"
    "\<And>dir. one_shot d c0 dir = one_shot (isrcry_zlib_desc lib) c dir"
    "\<And>dir. map_option fst (isrcry_compress_init d c0 dir 0) = map_option fst (isrcry_compress_init (isrcry_zlib_desc lib) c dir 0)"
proof -
  let ?u = "\<lambda>u :: ('s z_stream, 't, 'm) any_ctx. case u of Any_zlib c \<Rightarrow> Some c | _ \<Rightarrow> None"
  let ?d = "any_desc ?u Any_zlib (isrcry_zlib_desc lib)" and ?c = "\<lparr>zc_direction = 0, zc_level = 0, zc_ctx = None\<rparr>"
  show thesis
  proof (rule that)
    show "isrcry_compress_alloc b ISRCRY_COMPRESS_ZLIB = Some (?d, ?c)"
      by (simp add: isrcry_compress_alloc_def compress_desc_def assms)
    show "one_shot ?d ?c dir = one_shot (isrcry_zlib_desc lib) (ctx_in ?u ?c) dir" for dir
      by (intro ext one_shot_any) simp
    show "map_option fst (isrcry_compress_init ?d ?c dir 0) = map_option fst (isrcry_compress_init (isrcry_zlib_desc lib) (ctx_in ?u ?c) dir 0)" for dir
      by (auto simp: isrcry_compress_init_def any_desc_def ctx_in_def option.map_comp comp_def case_prod_unfold bind_Some_map)
  qed
qed

lemma chunk_round_trip_zlib:
  assumes "zlib_documented lib" "b_zlib b = isrcry_zlib_desc lib" "b_zlib b' = isrcry_zlib_desc lib"
    and "16 dvd length inp" "inp \<noteq> []" "length inp < 2 ^ 32" "length inp \<le> length out"
  shows "\<exists>r. iu_chunk_encode b IU_CHUNK_CRY_AES_SHA1 inp out IU_CHUNK_COMP_ZLIB = Some (Some r) \<and> chunk_sealed b' inp out r"
proof -
  obtain d c0 c where e: "isrcry_compress_alloc b ISRCRY_COMPRESS_ZLIB = Some (d, c0)"
      "\<And>dir. one_shot d c0 dir = one_shot (isrcry_zlib_desc lib) c dir"
      "\<And>dir. map_option fst (isrcry_compress_init d c0 dir 0) = map_option fst (isrcry_compress_init (isrcry_zlib_desc lib) c dir 0)"
    by (rule zlib_in_backends [OF assms(2)]) blast
  obtain d' c0' c' where f: "isrcry_compress_alloc b' ISRCRY_COMPRESS_ZLIB = Some (d', c0')"
      "\<And>dir. one_shot d' c0' dir = one_shot (isrcry_zlib_desc lib) c' dir"
      "\<And>dir. map_option fst (isrcry_compress_init d' c0' dir 0) = map_option fst (isrcry_compress_init (isrcry_zlib_desc lib) c' dir 0)"
    by (rule zlib_in_backends [OF assms(3)]) blast
  have bc: "block_compressor (one_shot d c0 ISRCRY_ENCODE) (one_shot d' c0' ISRCRY_DECODE) (\<lambda>inp. length inp < 2 ^ 32)"
    unfolding e(2) f(2) by (rule zlib_block_compressor [OF assms(1)])
  have i: "map_option fst (isrcry_compress_init d c0 ISRCRY_ENCODE 0) = Some ISRCRY_OK"
    "map_option fst (isrcry_compress_init d' c0' ISRCRY_DECODE 0) = Some ISRCRY_OK"
    unfolding e(3) f(3) zlib_init [OF assms(1)] by simp_all
  show ?thesis
    by (rule chunk_round_trip [OF _ _ e(1) i(1) f(1) i(2) bc assms(6,4-7)]) (simp_all add: compress_to_isrcry_def)
qed

text \<open>What is decompressed: a complete stream with nothing behind it, whose data has exactly the expected length.\<close>

lemma chunk_decompress_zlib:
  assumes "zlib_documented lib" "b_zlib b = isrcry_zlib_desc lib" "length dst < 2 ^ 32"
  shows "chunk_decompress b ISRCRY_COMPRESS_ZLIB z dst =
    Some (case inflate lib Z_FINISH (stream_setup (inflate_new lib) z dst) of (ret, s) \<Rightarrow>
      if ret = Z_STREAM_END \<and> z_next_in s = [] \<and> z_avail_out s = 0 then Some (z_next_out s) else None)"
proof -
  obtain d c0 c where e: "isrcry_compress_alloc b ISRCRY_COMPRESS_ZLIB = Some (d, c0)"
      "\<And>dir. one_shot d c0 dir = one_shot (isrcry_zlib_desc lib) c dir"
      "\<And>dir. map_option fst (isrcry_compress_init d c0 dir 0) = map_option fst (isrcry_compress_init (isrcry_zlib_desc lib) c dir 0)"
    by (rule zlib_in_backends [OF assms(2)]) blast
  have i: "map_option fst (isrcry_compress_init d c0 ISRCRY_DECODE 0) = Some ISRCRY_OK"
    unfolding e(3) zlib_init [OF assms(1)] by simp
  let ?codes = "{Z_OK, Z_STREAM_END, Z_NEED_DICT, Z_STREAM_ERROR, Z_DATA_ERROR, Z_BUF_ERROR}"
  have st: "stream_step ?codes (inflate lib Z_FINISH)" "zc_ctx (zlib_ctx ISRCRY_DECODE (inflate_new lib)) = Some (inflate_new lib)"
    using assms(1) by (simp_all add: zlib_documented_def zlib_ctx_def)
  obtain ret s where r: "inflate lib Z_FINISH (stream_setup (inflate_new lib) z dst) = (ret, s)" "ret \<in> ?codes"
      "length (z_next_out s) + z_avail_out s = length dst"
      "stream_call (inflate lib Z_FINISH) (zlib_ctx ISRCRY_DECODE (inflate_new lib)) z dst =
        Some (ret, s, sub32 (length z) (length (z_next_in s)), length (z_next_out s), blit dst 0 (z_next_out s))"
    by (rule stream_call_run [OF st assms(3)])
  have "length (z_next_out s) = length dst \<longleftrightarrow> z_avail_out s = 0"
    using r(3) by linarith
  with r(2) show ?thesis
    by (auto simp: chunk_decompress_one_shot [OF e(1) i] e(2) one_shot_zlib(2) [OF assms(1)] r(1,4) zlib_decode_result_def
        zlib_end_result_def zlib_error_def blit_over)
qed

text \<open>
  A library that keeps the promises: it compresses up to 255 equal bytes to their number and the byte, and knows no other data.
\<close>

definition run_deflate :: "int \<Rightarrow> unit z_stream \<Rightarrow> int \<times> unit z_stream" where
  "run_deflate flush s =
     (case z_next_in s of
        [] \<Rightarrow> (Z_BUF_ERROR, s)
      | x # xs \<Rightarrow>
          if flush = Z_FINISH \<and> length xs < 255 \<and> xs = replicate (length xs) x \<and> 2 \<le> z_avail_out s
          then (Z_STREAM_END, s\<lparr>z_next_in := [], z_next_out := z_next_out s @ [of_nat (length (x # xs)), x], z_avail_out := z_avail_out s - 2\<rparr>)
          else (Z_BUF_ERROR, s))"

definition run_inflate :: "int \<Rightarrow> unit z_stream \<Rightarrow> int \<times> unit z_stream" where
  "run_inflate flush s =
     (case z_next_in s of
        n # x # xs \<Rightarrow>
          if unat n \<le> z_avail_out s
          then (Z_STREAM_END, s\<lparr>z_next_in := xs, z_next_out := z_next_out s @ replicate (unat n) x, z_avail_out := z_avail_out s - unat n\<rparr>)
          else (Z_BUF_ERROR, s)
      | _ \<Rightarrow> (Z_BUF_ERROR, s))"

definition run_zlib :: "unit zlib" where
  "run_zlib = \<lparr>zlib_zero = (), deflateInit = (\<lambda>_ s. (Z_OK, s)), inflateInit = (\<lambda>s. (Z_OK, s)), deflate = run_deflate, inflate = run_inflate\<rparr>"

definition run_backends :: "(unit z_stream, LZF_STATE, LZF_STATE) backends" where
  "run_backends = \<lparr>b_zlib = isrcry_zlib_desc run_zlib, b_lzf_garbage = (\<lambda>_. None), b_lzf_stream = isrcry_lzf_desc (\<lambda>_. None),
     b_lzma = isrcry_lzf_desc (\<lambda>_. None)\<rparr>"

lemma keeps_input: "\<exists>k. xs = drop k xs"
  by (rule exI [of _ 0]) simp

lemma run_zlib_steps:
  "stream_step {Z_OK, Z_STREAM_END, Z_STREAM_ERROR, Z_BUF_ERROR} (run_deflate flush)"
  "stream_step {Z_OK, Z_STREAM_END, Z_NEED_DICT, Z_STREAM_ERROR, Z_DATA_ERROR, Z_BUF_ERROR} (run_inflate flush)"
proof -
  have "\<exists>k. [] = drop k (y # ys)" "\<exists>k. ys = drop k (x # y # ys)" for x y :: u8 and ys
    by (rule exI [of _ "length (y # ys)"], simp) (rule exI [of _ 2], simp)
  then show "stream_step {Z_OK, Z_STREAM_END, Z_STREAM_ERROR, Z_BUF_ERROR} (run_deflate flush)"
      "stream_step {Z_OK, Z_STREAM_END, Z_NEED_DICT, Z_STREAM_ERROR, Z_DATA_ERROR, Z_BUF_ERROR} (run_inflate flush)"
    by (auto simp: stream_step_def run_deflate_def run_inflate_def keeps_input split: list.split)
qed

lemma run_zlib_whole: "stream_whole st (run_deflate Z_FINISH) st' (run_inflate Z_FINISH)"
  unfolding stream_whole_def
proof (intro allI impI)
  fix inp out :: bytes and s
  assume d: "run_deflate Z_FINISH (stream_setup st inp out) = (1, s)"
  then obtain x xs where x: "inp = x # xs" "length xs < 255" "xs = replicate (length xs) x"
      "z_next_in s = []" "z_next_out s = [of_nat (length (x # xs)), x]"
    by (auto simp: run_deflate_def stream_setup_def split: list.splits if_splits)
  have n: "unat (of_nat (length (x # xs)) :: u8) = length (x # xs)"
    using x(2) by (simp add: unat_of_nat take_bit_eq_mod del: of_nat_Suc)
  have "inp = replicate (length (x # xs)) x"
    using x(1,3) by simp
  with n x(1,5) have "\<exists>s'. run_inflate Z_FINISH (stream_setup st' (z_next_out s) dst) = (1, s') \<and> z_next_in s' = [] \<and> z_next_out s' = inp"
    if "length inp \<le> length dst" for dst
    using that by (auto simp: run_inflate_def stream_setup_def)
  with x(4) show "z_next_in s = [] \<and> (\<forall>dst. length inp \<le> length dst \<longrightarrow>
      (\<exists>s'. run_inflate Z_FINISH (stream_setup st' (z_next_out s) dst) = (1, s') \<and> z_next_in s' = [] \<and> z_next_out s' = inp))"
    by blast
qed

lemma run_zlib_documented: "zlib_documented run_zlib"
  using run_zlib_steps run_zlib_whole by (simp add: zlib_documented_def run_zlib_def)

end
