(* ===== verification/Isr_SQL.thy ===== *)
theory Isr_SQL
  imports Isr_Prelude "HOL-Library.Monad_Syntax"
begin

text \<open>
  The database layer, \<^verbatim>\<open>sqlite/wrapper.c\<close>: queries with positional parameters, the result state of a
  connection, and transactions.

  SQLite itself is not modelled beyond its documented interface.  A connection holds the tables (of a type
  \<open>'t\<close> that the clients choose), the tables to return to when a transaction is open, and the faults that the
  engine is going to report: every call of the engine consumes one, and an exhausted list means that no
  further call fails.  A statement is the function on the tables that its SQL text denotes; statements that
  change rows return the number of changed rows, since the wrapper sets \<open>PRAGMA count_changes\<close>.

  The mutex of a connection is modelled for one thread.  \<open>None\<close> stands for a call that does not return (it waits
  for a lock that its own thread holds, or retries for ever), and for what the C code leaves undefined (an
  argument that does not fit its format character).  \<^verbatim>\<open>g_critical\<close> messages are counted; other messages, the
  timers, the busy handler and the random delays are left out.
\<close>

section \<open>Values and columns\<close>

datatype sqlval = SQL_null | SQL_int int | SQL_text string | SQL_blob bytes

type_synonym sqlrow = "sqlval list"

definition int32 :: "int \<Rightarrow> int" where
  "int32 i = (i + 2 ^ 31) mod 2 ^ 32 - 2 ^ 31"

definition uint32 :: "int \<Rightarrow> nat" where
  "uint32 i = nat (i mod 2 ^ 32)"

lemma int32_small [simp]: "- (2 ^ 31) \<le> i \<Longrightarrow> i < 2 ^ 31 \<Longrightarrow> int32 i = i"
  by (simp add: int32_def)

lemma uint32_int [simp]: "n < 2 ^ 32 \<Longrightarrow> uint32 (int n) = n"
  by (simp add: uint32_def)

text \<open>
  One column of the current row, fetched with a format character; \<^verbatim>\<open>NULL\<close> reads as \<open>0\<close> or as an empty blob.  The
  engine's conversions between integers, text and blobs and its floating-point columns are left out.
\<close>

definition query_column :: "char \<Rightarrow> sqlval \<Rightarrow> sqlval option" where
  "query_column c v = (case v of
     SQL_int i \<Rightarrow> if c = CHR ''d'' then Some (SQL_int (int32 i)) else if c = CHR ''D'' then Some (SQL_int i) else None
   | SQL_text s \<Rightarrow> if c = CHR ''s'' \<or> c = CHR ''S'' then Some (SQL_text s) else None
   | SQL_blob b \<Rightarrow> if c = CHR ''b'' then Some (SQL_blob b)
       else if c = CHR ''n'' then Some (SQL_int (int32 (int (length b)))) else None
   | SQL_null \<Rightarrow> if c = CHR ''d'' \<or> c = CHR ''D'' \<or> c = CHR ''n'' then Some (SQL_int 0)
       else if c = CHR ''b'' then Some (SQL_blob []) else None)"

fun query_row_v :: "string \<Rightarrow> sqlrow \<Rightarrow> sqlval list option" where
  "query_row_v [] row = Some []"
| "query_row_v (c # cs) [] = None"
| "query_row_v (c # cs) (v # vs) = do { x \<leftarrow> query_column c v; xs \<leftarrow> query_row_v cs vs; Some (x # xs) }"

section \<open>The engine\<close>

datatype sql_result =
    SQLITE_OK | SQLITE_ROW | SQLITE_DONE
  | SQLITE_BUSY | SQLITE_IOERR_BLOCKED | SQLITE_INTERRUPT | SQLITE_CONSTRAINT | SQLITE_MISUSE | SQLITE_ERROR

text \<open>A fault, and whether the engine rolls the transaction back by itself when it occurs.\<close>

datatype fault = No_fault | Fault_busy bool | Fault_blocked bool | Fault_interrupt bool | Fault_error bool

fun fault_result :: "fault \<Rightarrow> sql_result" where
  "fault_result No_fault = SQLITE_OK"
| "fault_result (Fault_busy _) = SQLITE_BUSY"
| "fault_result (Fault_blocked _) = SQLITE_IOERR_BLOCKED"
| "fault_result (Fault_interrupt _) = SQLITE_INTERRUPT"
| "fault_result (Fault_error _) = SQLITE_ERROR"

fun fault_rolls_back :: "fault \<Rightarrow> bool" where
  "fault_rolls_back No_fault = False"
| "fault_rolls_back (Fault_busy r) = r"
| "fault_rolls_back (Fault_blocked r) = r"
| "fault_rolls_back (Fault_interrupt r) = r"
| "fault_rolls_back (Fault_error r) = r"

record 't sqlite3 =
  tabs :: 't
  trans :: "'t option"
  faults :: "fault list"

text \<open>\<open>trans\<close> is \<open>None\<close> in autocommit mode, and otherwise the tables at the start of the transaction.\<close>

definition engine_rollback :: "'t sqlite3 \<Rightarrow> 't sqlite3" where
  "engine_rollback c = (case trans c of None \<Rightarrow> c | Some t \<Rightarrow> c\<lparr>tabs := t, trans := None\<rparr>)"

definition engine_call :: "'t sqlite3 \<Rightarrow> sql_result \<times> 't sqlite3" where
  "engine_call c = (case faults c of
     [] \<Rightarrow> (SQLITE_OK, c)
   | f # fs \<Rightarrow> (fault_result f, (if fault_rolls_back f then engine_rollback c else c)\<lparr>faults := fs\<rparr>))"

datatype stmt_error = Stmt_constraint | Stmt_error

datatype 't sql = SQL_begin | SQL_commit | SQL_rollback
  | SQL_stmt "(nat \<Rightarrow> sqlval) \<Rightarrow> 't \<Rightarrow> stmt_error + ('t \<times> sqlrow list)"

definition engine_exec :: "'t sql \<Rightarrow> (nat \<Rightarrow> sqlval) \<Rightarrow> 't sqlite3 \<Rightarrow> sql_result \<times> 't sqlite3 \<times> sqlrow list" where
  "engine_exec s b c = (case s of
     SQL_begin \<Rightarrow> (if trans c = None then (SQLITE_DONE, c\<lparr>trans := Some (tabs c)\<rparr>, []) else (SQLITE_ERROR, c, []))
   | SQL_commit \<Rightarrow> (if trans c = None then (SQLITE_ERROR, c, []) else (SQLITE_DONE, c\<lparr>trans := None\<rparr>, []))
   | SQL_rollback \<Rightarrow> (if trans c = None then (SQLITE_ERROR, c, []) else (SQLITE_DONE, engine_rollback c, []))
   | SQL_stmt f \<Rightarrow> (case f b (tabs c) of
       Inl Stmt_constraint \<Rightarrow> (SQLITE_CONSTRAINT, c, [])
     | Inl Stmt_error \<Rightarrow> (SQLITE_ERROR, c, [])
     | Inr (t, rows) \<Rightarrow> (if rows = [] then SQLITE_DONE else SQLITE_ROW, c\<lparr>tabs := t\<rparr>, rows)))"

section \<open>Connections and queries\<close>

record 't db =
  db_conn :: "'t sqlite3"
  db_held :: bool
  db_queries :: nat
  db_result :: sql_result
  db_use_transaction :: bool
  db_retries :: nat
  db_criticals :: nat

text \<open>A prepared statement: not stepped yet, or at the first of the remaining rows.\<close>

record 't query =
  q_sql :: "'t sql"
  q_binds :: "nat \<Rightarrow> sqlval"
  q_run :: bool
  q_rows :: "sqlrow list"

definition g_critical :: "'t db \<Rightarrow> 't db" where
  "g_critical db = db\<lparr>db_criticals := db_criticals db + 1\<rparr>"

definition db_get :: "'t db \<Rightarrow> 't db option" where
  "db_get db = (if db_held db then None else Some (db\<lparr>db_held := True\<rparr>))"

definition db_put :: "'t db \<Rightarrow> 't db" where
  "db_put db = (if db_queries db \<noteq> 0 then (g_critical db)\<lparr>db_queries := 0\<rparr> else db)\<lparr>db_held := False\<rparr>"

definition db_in_trans :: "'t db \<Rightarrow> bool" where
  "db_in_trans db = db_held db"

definition alloc_query :: "'t db \<Rightarrow> 't sql \<Rightarrow> 't query option \<times> 't db" where
  "alloc_query db s = (case engine_call (db_conn db) of (ret, c) \<Rightarrow>
     let db = db\<lparr>db_conn := c, db_result := ret\<rparr> in
     if ret \<noteq> SQLITE_OK then (None, db)
     else (Some \<lparr>q_sql = s, q_binds = (\<lambda>_. SQL_null), q_run = False, q_rows = []\<rparr>, db\<lparr>db_queries := db_queries db + 1\<rparr>))"

definition query_free :: "'t query option \<Rightarrow> 't db \<Rightarrow> 't db" where
  "query_free q db = (if q = None then db else db\<lparr>db_queries := db_queries db - 1\<rparr>)"

definition sqlite3_step :: "'t query \<Rightarrow> 't sqlite3 \<Rightarrow> sql_result \<times> 't query \<times> 't sqlite3" where
  "sqlite3_step q c = (case engine_call c of (ret, c) \<Rightarrow>
     if ret \<noteq> SQLITE_OK then (ret, q, c)
     else if \<not> q_run q then
       (case engine_exec (q_sql q) (q_binds q) c of (ret, c, rows) \<Rightarrow> (ret, q\<lparr>q_run := True, q_rows := rows\<rparr>, c))
     else (if tl (q_rows q) = [] then SQLITE_DONE else SQLITE_ROW, q\<lparr>q_rows := tl (q_rows q)\<rparr>, c))"

definition query_next :: "'t query \<Rightarrow> 't db \<Rightarrow> bool \<times> 't query \<times> 't db" where
  "query_next q db = (case sqlite3_step q (db_conn db) of (result, q, c) \<Rightarrow>
     let result = (if result = SQLITE_DONE then SQLITE_OK else result);
         result = (if result = SQLITE_IOERR_BLOCKED then SQLITE_BUSY else result) in
     (result = SQLITE_OK \<or> result = SQLITE_ROW, q, db\<lparr>db_conn := c, db_result := result\<rparr>))"

section \<open>Parameters\<close>

type_synonym query_params = "(nat \<times> sqlval) list"

definition param_put :: "nat \<Rightarrow> sqlval \<Rightarrow> query_params \<Rightarrow> query_params" where
  "param_put i v ps = (if i \<in> fst ` set ps then map (\<lambda>(j, w). if j = i then (j, v) else (j, w)) ps else (i, v) # ps)"

text \<open>The argument as it is stored for a format character, \<open>None\<close> when it has another type.\<close>

definition param_arg :: "char \<Rightarrow> sqlval \<Rightarrow> sqlval option" where
  "param_arg c a = (case a of
     SQL_int i \<Rightarrow> if c = CHR ''d'' then Some (SQL_int (int32 i)) else if c = CHR ''D'' then Some (SQL_int i) else None
   | SQL_text _ \<Rightarrow> if c = CHR ''s'' \<or> c = CHR ''S'' then Some a else None
   | SQL_blob _ \<Rightarrow> if c = CHR ''b'' \<or> c = CHR ''B'' then Some a else None
   | SQL_null \<Rightarrow> None)"

text \<open>Input parameters count from 1.  \<open>Some None\<close> is \<^verbatim>\<open>FALSE\<close>, for an unknown format character.\<close>

fun param_set_group :: "nat \<Rightarrow> string \<Rightarrow> sqlval list \<Rightarrow> query_params \<Rightarrow> query_params option option" where
  "param_set_group i [] args ps = Some (Some ps)"
| "param_set_group i (c # cs) args ps =
     (if c \<notin> set ''dDsSbB'' then Some None
      else case args of
        [] \<Rightarrow> None
      | a # as \<Rightarrow> do { v \<leftarrow> param_arg c a; param_set_group (i + 1) cs as (param_put (i + 1) v ps) })"

fun bind_params :: "query_params \<Rightarrow> 't query \<Rightarrow> 't db \<Rightarrow> 't query \<times> 't db" where
  "bind_params [] q db = (q, db)"
| "bind_params ((i, v) # ps) q db = (case engine_call (db_conn db) of (ret, c) \<Rightarrow>
     let db = db\<lparr>db_conn := c, db_result := ret\<rparr> in
     if ret \<noteq> SQLITE_OK then (q, db) else bind_params ps (q\<lparr>q_binds := (q_binds q)(i := v)\<rparr>) db)"

text \<open>\<open>want\<close> says that the caller passed a place for the query object.\<close>

definition query_v :: "bool \<Rightarrow> 't db \<Rightarrow> 't sql \<Rightarrow> query_params \<Rightarrow> bool \<times> 't query option \<times> 't db" where
  "query_v want db s params =
     (if \<not> db_in_trans db then (False, None, db\<lparr>db_result := SQLITE_MISUSE\<rparr>)
      else case alloc_query db s of
        (None, db) \<Rightarrow> (False, None, db)
      | (Some q, db) \<Rightarrow>
          (case bind_params params q db of (q, db) \<Rightarrow>
           case (if db_result db = SQLITE_OK then snd (query_next q db) else (q, db)) of (q, db) \<Rightarrow>
           let ok = (db_result db = SQLITE_OK \<or> db_result db = SQLITE_ROW) in
           if db_result db \<noteq> SQLITE_ROW \<or> \<not> want then (ok, None, query_free (Some q) db)
           else (ok, Some q, db)))"

definition query :: "bool \<Rightarrow> 't db \<Rightarrow> 't sql \<Rightarrow> string \<Rightarrow> sqlval list \<Rightarrow> (bool \<times> 't query option \<times> 't db) option" where
  "query want db s fmt args = (case param_set_group 0 fmt args [] of
     None \<Rightarrow> None
   | Some None \<Rightarrow> Some (False, None, (g_critical db)\<lparr>db_result := SQLITE_MISUSE\<rparr>)
   | Some (Some params) \<Rightarrow> Some (query_v want db s params))"

text \<open>A query whose rows are not fetched.\<close>

definition query_do :: "'t db \<Rightarrow> 't sql \<Rightarrow> string \<Rightarrow> sqlval list \<Rightarrow> (bool \<times> 't db) option" where
  "query_do db s fmt args = map_option (\<lambda>(ok, q, db). (ok, db)) (query False db s fmt args)"

text \<open>
  The code calls these inside transactions only, where their \<^verbatim>\<open>db_assert_trans\<close> does nothing.
\<close>

definition query_has_row :: "'t db \<Rightarrow> bool" where
  "query_has_row db = (db_result db = SQLITE_ROW)"

definition query_ok :: "'t db \<Rightarrow> bool" where
  "query_ok db = (db_result db = SQLITE_OK)"

definition query_busy :: "'t db \<Rightarrow> bool" where
  "query_busy db = (db_result db = SQLITE_BUSY)"

definition query_constrained :: "'t db \<Rightarrow> bool" where
  "query_constrained db = (db_result db = SQLITE_CONSTRAINT)"

definition query_row :: "'t query option \<Rightarrow> string \<Rightarrow> sqlval list option" where
  "query_row q fmt = (case q of
     None \<Rightarrow> None
   | Some q \<Rightarrow> (case q_rows q of [] \<Rightarrow> None | r # _ \<Rightarrow> query_row_v fmt r))"

definition query_backoff :: "'t db \<Rightarrow> 't db" where
  "query_backoff db = db\<lparr>db_retries := db_retries db + 1\<rparr>"

text \<open>
  The loop \<^verbatim>\<open>for (query(&qry, ...); query_has_row(db); query_next(qry))\<close> after its query; \<open>False\<close> says that the body left it.
\<close>

partial_function (option) for_rows ::
  "('t query \<Rightarrow> 't db \<Rightarrow> (bool \<times> 't db) option) \<Rightarrow> 't query option \<Rightarrow> 't db \<Rightarrow> (bool \<times> 't query option \<times> 't db) option" where
  "for_rows body qry db =
     (if \<not> query_has_row db then Some (True, qry, db)
      else do {
        q \<leftarrow> qry;
        (ok, db) \<leftarrow> body q db;
        if \<not> ok then Some (False, Some q, db)
        else (case query_next q db of (_, q, db) \<Rightarrow> for_rows body (Some q) db)
      })"

section \<open>Transactions\<close>

partial_function (option) begin_retry :: "'t db \<Rightarrow> (bool \<times> 't db) option" where
  "begin_retry db = do {
     (ok, db) \<leftarrow> query_do db SQL_begin [] [];
     if ok then Some (True, db)
     else if query_busy db then begin_retry db
     else Some (False, db_put db)
   }"

text \<open>
  \<^verbatim>\<open>_begin\<close> opens with \<^verbatim>\<open>BEGIN\<close> or, if its third argument says so, with \<^verbatim>\<open>BEGIN IMMEDIATE\<close>; which locks SQLite takes when is part of its failures
  here, so the two are one statement.
\<close>

definition db_begin :: "bool \<Rightarrow> 't db \<Rightarrow> (bool \<times> 't db) option" where
  "db_begin transaction db = do {
     db \<leftarrow> db_get db;
     let db = db\<lparr>db_use_transaction := transaction\<rparr>;
     if \<not> transaction then Some (True, db) else begin_retry db
   }"

partial_function (option) commit :: "'t db \<Rightarrow> (bool \<times> 't db) option" where
  "commit db =
     (if db_use_transaction db then do {
        (ok, db) \<leftarrow> query_do db SQL_commit [] [];
        if \<not> ok then (if query_busy db then commit db else Some (False, db))
        else Some (True, db_put db)
      }
      else Some (True, db_put db))"

partial_function (option) rollback_retry :: "'t db \<Rightarrow> (bool \<times> 't db) option" where
  "rollback_retry db = do {
     (ok, db) \<leftarrow> query_do db SQL_rollback [] [];
     if \<not> ok \<and> trans (db_conn db) \<noteq> None then
       (if query_busy db then rollback_retry db else Some (False, db))
     else Some (True, db_put db)
   }"

definition rollback :: "'t db \<Rightarrow> (bool \<times> 't db) option" where
  "rollback db = (if \<not> db_use_transaction db then Some (False, g_critical db) else rollback_retry db)"

text \<open>
  The shape of a transaction that every client has: the body ends with a commit (\<open>Inr\<close>) or goes to the label
  \<^verbatim>\<open>bad\<close> with an error (\<open>Inl\<close>), where a busy database leads to a new attempt.  \<open>w\<close> is the rest of the client's state,
  which a rollback does not restore.
\<close>

partial_function (option) transact ::
  "'e \<Rightarrow> ('t db \<Rightarrow> 'w \<Rightarrow> (('e + 'a) \<times> 't db \<times> 'w) option) \<Rightarrow> 't db \<Rightarrow> 'w \<Rightarrow> (('e + 'a) \<times> 't db \<times> 'w) option" where
  "transact e0 body db w = do {
     (ok, db) \<leftarrow> db_begin True db;
     if \<not> ok then Some (Inl e0, db, w)
     else do {
       (r, db, w) \<leftarrow> body db w;
       (case r of
          Inr a \<Rightarrow> Some (Inr a, db, w)
        | Inl e \<Rightarrow> do {
            let retry = query_busy db;
            (_, db) \<leftarrow> rollback db;
            if retry then transact e0 body (query_backoff db) w else Some (Inl e, db, w)
          })
     }
   }"

section \<open>Connections\<close>

text \<open>The loop of a statement that is tried again, after a delay, while the database is busy.\<close>

partial_function (option) query_until :: "'t db \<Rightarrow> 't sql \<Rightarrow> string \<Rightarrow> sqlval list \<Rightarrow> (bool \<times> 't db) option" where
  "query_until db s fmt args = do {
     (ok, db) \<leftarrow> query_do db s fmt args;
     if ok then Some (True, db)
     else if query_busy db then query_until (query_backoff db) s fmt args
     else Some (False, db)
   }"

text \<open>\<^verbatim>\<open>PRAGMA count_changes\<close>, \<^verbatim>\<open>PRAGMA synchronous\<close> and \<^verbatim>\<open>VACUUM\<close> do not change the contents of tables.\<close>

definition sql_setting :: "'t sql" where
  "sql_setting = SQL_stmt (\<lambda>_ t. Inr (t, []))"

definition sql_setup_db :: "'t db \<Rightarrow> (bool \<times> 't db) option" where
  "sql_setup_db db = query_until db sql_setting [] []"

text \<open>The argument is what \<^verbatim>\<open>sqlite3_open\<close> gives.\<close>

definition sql_conn_open :: "'t sqlite3 option \<Rightarrow> 't db option option" where
  "sql_conn_open opened = (case opened of
     None \<Rightarrow> Some None
   | Some c \<Rightarrow>
       (case engine_call c of (ret, c) \<Rightarrow>
        if ret \<noteq> SQLITE_OK then Some None
        else case engine_call c of (ret, c) \<Rightarrow>
        if ret \<noteq> SQLITE_OK then Some None
        else do {
          (ok, db) \<leftarrow> query_until \<lparr>db_conn = c, db_held = True, db_queries = 0, db_result = SQLITE_OK,
            db_use_transaction = False, db_retries = 0, db_criticals = 0\<rparr> sql_setting [] [];
          if \<not> ok then Some None
          else do {
            (ok, db) \<leftarrow> sql_setup_db db;
            Some (if ok then Some (db_put db) else None)
          }
        }))"

text \<open>\<open>att\<close> and \<open>det\<close> are the \<^verbatim>\<open>ATTACH\<close> and \<^verbatim>\<open>DETACH\<close> statements for the file and the handle.\<close>

definition attach :: "'t sql \<Rightarrow> 't sql \<Rightarrow> 't db \<Rightarrow> (bool \<times> 't db) option" where
  "attach att det db = do {
     db \<leftarrow> db_get db;
     (ok, db) \<leftarrow> query_until db att [] [];
     if \<not> ok then Some (False, db_put db)
     else do {
       (ok, db) \<leftarrow> sql_setup_db db;
       if ok then Some (True, db_put db)
       else do { (_, db) \<leftarrow> query_until db det [] []; Some (False, db_put db) }
     }
   }"

text \<open>\<open>master\<close> is the dummy query on \<^verbatim>\<open>sqlite_master\<close>.\<close>

definition vacuum :: "'t sql \<Rightarrow> 't db \<Rightarrow> (bool \<times> 't db) option" where
  "vacuum master db = do {
     db \<leftarrow> db_get db;
     (ok, db) \<leftarrow> query_until db sql_setting [] [];
     let db = db_put db;
     if \<not> ok then Some (False, db)
     else do {
       (r, db, _) \<leftarrow> transact () (\<lambda>db w. do {
         (ok, db) \<leftarrow> query_do db master [] [];
         if \<not> ok then Some (Inl (), db, w)
         else do { (ok, db) \<leftarrow> commit db; Some (if ok then Inr () else Inl (), db, w) }
       }) db ();
       Some (r = Inr (), db)
     }
   }"

section \<open>Statements inside a transaction\<close>

abbreviation pending :: "'t db \<Rightarrow> nat" where
  "pending db \<equiv> length (faults (db_conn db))"

text \<open>
  Faults that a new attempt always overcomes.  \<^verbatim>\<open>SQLITE_IOERR_BLOCKED\<close> is not among them, since only \<open>query_next\<close>
  maps it to \<^verbatim>\<open>SQLITE_BUSY\<close>; nor is a busy database that also rolled the transaction back, which a second
  \<^verbatim>\<open>COMMIT\<close> reports as an error.
\<close>

definition contention :: "fault \<Rightarrow> bool" where
  "contention f \<longleftrightarrow> (f = No_fault \<or> f = Fault_busy False)"

abbreviation only_contention :: "'t db \<Rightarrow> bool" where
  "only_contention db \<equiv> (\<forall>f \<in> set (faults (db_conn db)). contention f)"

text \<open>Faults after which \<^verbatim>\<open>ROLLBACK\<close> still gets through.\<close>

definition soft :: "fault \<Rightarrow> bool" where
  "soft f \<longleftrightarrow> f = No_fault \<or> f = Fault_busy False \<or> fault_rolls_back f"

abbreviation only_soft :: "'t db \<Rightarrow> bool" where
  "only_soft db \<equiv> (\<forall>f \<in> set (faults (db_conn db)). soft f)"

text \<open>Idle; inside a transaction that started from the tables \<open>t0\<close>, with \<open>k\<close> live queries; after a failure in it.\<close>

definition idle :: "'t db \<Rightarrow> bool" where
  "idle db \<longleftrightarrow> \<not> db_held db \<and> db_queries db = 0 \<and> trans (db_conn db) = None"

definition txn_open :: "'t \<Rightarrow> nat \<Rightarrow> 't db \<Rightarrow> bool" where
  "txn_open t0 k db \<longleftrightarrow> db_held db \<and> db_use_transaction db \<and> db_queries db = k \<and> trans (db_conn db) = Some t0"

definition txn_failed :: "'t \<Rightarrow> nat \<Rightarrow> 't db \<Rightarrow> bool" where
  "txn_failed t0 k db \<longleftrightarrow> db_held db \<and> db_use_transaction db \<and> db_queries db = k
     \<and> (trans (db_conn db) = Some t0 \<or> trans (db_conn db) = None \<and> tabs (db_conn db) = t0)"

text \<open>What every operation keeps: no new criticals, faults are only consumed.\<close>

definition later :: "'t db \<Rightarrow> 't db \<Rightarrow> bool" where
  "later db db' \<longleftrightarrow> db_criticals db' = db_criticals db \<and> pending db' \<le> pending db
     \<and> set (faults (db_conn db')) \<subseteq> set (faults (db_conn db))"

lemma later_refl [simp]: "later db db"
  by (simp add: later_def)

lemma later_trans [trans]: "later a b \<Longrightarrow> later b c \<Longrightarrow> later a c"
  by (auto simp: later_def)

lemma later_contention: "later a b \<Longrightarrow> only_contention a \<Longrightarrow> only_contention b"
  by (auto simp: later_def)

lemma later_soft: "later a b \<Longrightarrow> only_soft a \<Longrightarrow> only_soft b"
  by (auto simp: later_def)

lemma contention_soft: "contention f \<Longrightarrow> soft f"
  by (auto simp: contention_def soft_def)

named_theorems sql_defs "definitions of the statement level"

lemmas [sql_defs] = engine_call_def engine_exec_def engine_rollback_def sqlite3_step_def query_next_def
  alloc_query_def query_free_def later_def txn_open_def txn_failed_def

lemma engine_call_cases:
  assumes "engine_call c = (r, c')"
  obtains (ok) "r = SQLITE_OK" "tabs c' = tabs c" "trans c' = trans c"
      "length (faults c') \<le> length (faults c)" "set (faults c') \<subseteq> set (faults c)"
  | (fault) f where "f \<in> set (faults c)" "r = fault_result f" "r \<in> {SQLITE_BUSY, SQLITE_IOERR_BLOCKED, SQLITE_INTERRUPT, SQLITE_ERROR}"
      "length (faults c') < length (faults c)" "set (faults c') \<subseteq> set (faults c)"
      "tabs c' = tabs c \<and> trans c' = trans c \<and> (fault_rolls_back f \<longrightarrow> trans c = None)
       \<or> fault_rolls_back f \<and> trans c' = None \<and> trans c = Some (tabs c')"
proof (cases "faults c")
  case Nil
  with assms ok show thesis by (simp add: engine_call_def)
next
  case (Cons f fs)
  show thesis
  proof (cases "f = No_fault")
    case True
    then show thesis using assms Cons by (intro ok) (auto simp: engine_call_def)
  next
    case False
    then show thesis using assms Cons
      by (intro fault [of f]; cases f)
        (auto simp: engine_call_def engine_rollback_def split: if_splits option.splits)
  qed
qed

text \<open>The outcome of a statement \<open>f\<close> with bound parameters \<open>b\<close>, run in a transaction.\<close>

definition stmt_done :: "'t \<Rightarrow> nat \<Rightarrow> stmt_error + ('t \<times> sqlrow list) \<Rightarrow> 't db \<Rightarrow> bool \<Rightarrow> 't db \<Rightarrow> sqlrow list \<Rightarrow> bool" where
  "stmt_done t0 k v db ok db' rows \<longleftrightarrow> later db db' \<and>
     (if ok then (\<exists>t. v = Inr (t, rows) \<and> tabs (db_conn db') = t \<and> txn_open t0 k db'
                   \<and> db_result db' = (if rows = [] then SQLITE_OK else SQLITE_ROW))
      else txn_failed t0 k db' \<and> db_result db' \<noteq> SQLITE_OK \<and> db_result db' \<noteq> SQLITE_ROW
        \<and> (query_busy db' \<longrightarrow> pending db' < pending db)
        \<and> (only_contention db \<longrightarrow> query_busy db' \<or> (\<exists>e. v = Inl e)))"

fun bind_all :: "(nat \<Rightarrow> sqlval) \<Rightarrow> query_params \<Rightarrow> nat \<Rightarrow> sqlval" where
  "bind_all b [] = b"
| "bind_all b ((i, v) # ps) = bind_all (b(i := v)) ps"


text \<open>A failing call of the engine inside a transaction.\<close>

definition call_failed :: "'t \<Rightarrow> nat \<Rightarrow> 't db \<Rightarrow> 't db \<Rightarrow> bool" where
  "call_failed t0 k db db' \<longleftrightarrow> later db db' \<and> txn_failed t0 k db' \<and> pending db' < pending db
     \<and> db_result db' \<in> {SQLITE_BUSY, SQLITE_IOERR_BLOCKED, SQLITE_INTERRUPT, SQLITE_ERROR}
     \<and> (only_contention db \<longrightarrow> db_result db' = SQLITE_BUSY)"

lemma call_failed_trans:
  "later db db1 \<Longrightarrow> call_failed t0 k db1 db' \<Longrightarrow> call_failed t0 k db db'"
  by (auto simp: call_failed_def later_def)

lemma engine_call_txn:
  assumes "txn_open t0 k db" "engine_call (db_conn db) = (r, c)"
  shows "r = SQLITE_OK \<and> later db (db\<lparr>db_conn := c, db_result := x\<rparr>) \<and> txn_open t0 k (db\<lparr>db_conn := c, db_result := x\<rparr>)
      \<and> tabs c = tabs (db_conn db)
    \<or> r \<noteq> SQLITE_OK \<and> call_failed t0 k db (db\<lparr>db_conn := c, db_result := r\<rparr>)"
  using assms(2)
proof (cases rule: engine_call_cases)
  case ok
  then show ?thesis using assms(1) by (auto simp: sql_defs)
next
  case (fault f)
  moreover have "r = SQLITE_BUSY" if "contention f"
    using that fault(2,3) by (auto simp: contention_def)
  ultimately show ?thesis using assms(1) by (auto simp: call_failed_def sql_defs)
qed

lemma bind_params_txn:
  assumes "txn_open t0 k db" "db_result db = SQLITE_OK" "bind_params ps q db = (q', db')"
  shows "db_result db' = SQLITE_OK \<and> later db db' \<and> txn_open t0 k db' \<and> tabs (db_conn db') = tabs (db_conn db)
      \<and> q' = q\<lparr>q_binds := bind_all (q_binds q) ps\<rparr>
    \<or> call_failed t0 k db db'"
  using assms
proof (induction ps q db rule: bind_params.induct)
  case (2 i v ps q db)
  obtain r c where rc: "engine_call (db_conn db) = (r, c)"
    by fastforce
  show ?case
  proof (cases "r = SQLITE_OK")
    case True
    let ?db = "db\<lparr>db_conn := c, db_result := SQLITE_OK\<rparr>"
    have 1: "later db ?db" "txn_open t0 k ?db" "tabs c = tabs (db_conn db)"
      using engine_call_txn [OF 2(2) rc, of SQLITE_OK] True by simp_all
    have b: "bind_params ps (q\<lparr>q_binds := (q_binds q)(i := v)\<rparr>) ?db = (q', db')"
      using 2(4) rc True by (simp add: Let_def)
    have "db_result db' = SQLITE_OK \<and> later ?db db' \<and> txn_open t0 k db' \<and> tabs (db_conn db') = tabs (db_conn ?db)
        \<and> q' = q\<lparr>q_binds := bind_all ((q_binds q)(i := v)) ps\<rparr>
      \<or> call_failed t0 k ?db db'"
      using 2(1) [OF rc [unfolded True, symmetric] refl _ 1(2) _ b] by (simp del: fun_upd_apply)
    with 1 show ?thesis
      by (auto intro: later_trans call_failed_trans)
  next
    case False
    then show ?thesis using engine_call_txn [OF 2(2) rc] 2(4) rc by (simp add: Let_def)
  qed
qed simp

lemma query_next_txn:
  assumes "txn_open t0 k db" "q_sql q = SQL_stmt f" "\<not> q_run q" "query_next q db = (ok, q', db')"
  shows "stmt_done t0 k (f (q_binds q) (tabs (db_conn db))) db ok db' (q_rows q')
    \<and> (ok \<longrightarrow> q_run q')"
proof -
  obtain r c where rc: "engine_call (db_conn db) = (r, c)"
    by fastforce
  show ?thesis
  proof (cases "r = SQLITE_OK")
    case True
    have 1: "later db (db\<lparr>db_conn := c, db_result := x\<rparr>)" "txn_open t0 k (db\<lparr>db_conn := c, db_result := x\<rparr>)"
      "tabs c = tabs (db_conn db)" for x
      using engine_call_txn [OF assms(1) rc, of x] True by simp_all
    show ?thesis
      using 1 rc True assms(2,3,4)
      by (cases "f (q_binds q) (tabs (db_conn db))")
        (auto simp: query_next_def sqlite3_step_def engine_exec_def Let_def stmt_done_def later_def txn_open_def
          txn_failed_def query_busy_def split: stmt_error.splits if_splits prod.splits)
  next
    case False
    have "call_failed t0 k db (db\<lparr>db_conn := c, db_result := r\<rparr>)"
      using engine_call_txn [OF assms(1) rc] False by blast
    with False show ?thesis
      using rc assms(4)
      by (auto simp: query_next_def sqlite3_step_def Let_def stmt_done_def call_failed_def later_def
          txn_failed_def query_busy_def split: if_splits)
  qed
qed

lemma stmt_done_result:
  assumes "stmt_done t0 k v db ok db' rows"
  shows "(db_result db' = SQLITE_ROW) = (ok \<and> rows \<noteq> [])" "(db_result db' = SQLITE_OK) = (ok \<and> rows = [])"
  using assms by (auto simp: stmt_done_def split: if_splits)

lemma stmt_done_free:
  "stmt_done t0 (Suc k) v db ok db' rows \<Longrightarrow> stmt_done t0 k v db ok (query_free (Some q) db') rows"
  by (simp add: stmt_done_def query_free_def later_def txn_open_def txn_failed_def query_busy_def split: if_splits)

text \<open>The two stages of \<open>query_v\<close> after the statement is prepared.\<close>

lemma query_v_step:
  assumes "db_in_trans db" "engine_call (db_conn db) = (SQLITE_OK, c)" "db_queries db = k"
    and "bind_params ps \<lparr>q_sql = s, q_binds = (\<lambda>_. SQL_null), q_run = False, q_rows = []\<rparr>
      (db\<lparr>db_conn := c, db_result := SQLITE_OK, db_queries := Suc k\<rparr>) = (q2, db2)"
    and "db_result db2 \<noteq> SQLITE_ROW" "query_next q2 db2 = (ok3, q3, db3)"
  shows "query_v want db s ps = (if db_result db2 = SQLITE_OK then
        (if db_result db3 \<noteq> SQLITE_ROW \<or> \<not> want
         then (db_result db3 = SQLITE_OK \<or> db_result db3 = SQLITE_ROW, None, query_free (Some q3) db3)
         else (True, Some q3, db3))
      else (False, None, query_free (Some q2) db2))"
  using assms by (auto simp: query_v_def alloc_query_def Let_def)

lemma query_v_prepared:
  assumes "txn_open t0 (Suc k) db1" "db_result db1 = SQLITE_OK" "later db db1" "tabs (db_conn db1) = tabs (db_conn db)"
    and b: "bind_params ps \<lparr>q_sql = SQL_stmt f, q_binds = (\<lambda>_. SQL_null), q_run = False, q_rows = []\<rparr> db1 = (q2, db2)"
    and n: "query_next q2 db2 = (ok3, q3, db3)"
  shows "call_failed t0 (Suc k) db db2
    \<or> db_result db2 = SQLITE_OK \<and> stmt_done t0 (Suc k) (f (bind_all (\<lambda>_. SQL_null) ps) (tabs (db_conn db))) db ok3 db3 (q_rows q3)
      \<and> (ok3 \<longrightarrow> q_run q3)"
  using bind_params_txn [OF assms(1,2) b]
proof (elim disjE)
  assume "call_failed t0 (Suc k) db1 db2"
  then have "call_failed t0 (Suc k) db db2"
    by (rule call_failed_trans [OF assms(3)])
  then show ?thesis ..
next
  let ?v = "f (bind_all (\<lambda>_. SQL_null) ps) (tabs (db_conn db))"
  assume ok2: "db_result db2 = SQLITE_OK \<and> later db1 db2 \<and> txn_open t0 (Suc k) db2
    \<and> tabs (db_conn db2) = tabs (db_conn db1)
    \<and> q2 = \<lparr>q_sql = SQL_stmt f, q_binds = (\<lambda>_. SQL_null), q_run = False, q_rows = []\<rparr>\<lparr>q_binds := bind_all
        (q_binds \<lparr>q_sql = SQL_stmt f, q_binds = (\<lambda>_. SQL_null), q_run = False, q_rows = []\<rparr>) ps\<rparr>"
  then have st: "stmt_done t0 (Suc k) ?v db2 ok3 db3 (q_rows q3)" "ok3 \<longrightarrow> q_run q3"
    using query_next_txn [of t0 "Suc k" db2 q2 f ok3 q3 db3] n assms(4) by auto
  have lt: "later db db2"
    using assms(3) ok2 later_trans by blast
  have "stmt_done t0 (Suc k) ?v db ok3 db3 (q_rows q3)"
    using st(1) later_trans [OF lt] later_contention [OF lt] lt
    by (auto simp: stmt_done_def later_def [of db db2])
  with st ok2 show ?thesis by blast
qed

text \<open>A statement with a well-formed parameter list; its rows are kept if they are wanted.\<close>

lemma query_v_txn:
  assumes open0: "txn_open t0 k db" and q: "query_v want db (SQL_stmt f) ps = (ok, q, db')"
  shows "\<exists>rows. stmt_done t0 (if ok \<and> want \<and> rows \<noteq> [] then Suc k else k)
      (f (bind_all (\<lambda>_. SQL_null) ps) (tabs (db_conn db))) db ok db' rows
    \<and> (if ok \<and> want \<and> rows \<noteq> [] then \<exists>q'. q = Some q' \<and> q_run q' \<and> q_rows q' = rows else q = None)"
proof -
  obtain r c where rc: "engine_call (db_conn db) = (r, c)"
    by fastforce
  have held: "db_in_trans db" "db_queries db = k"
    using open0 by (simp_all add: txn_open_def db_in_trans_def)
  show ?thesis
  proof (cases "r = SQLITE_OK")
    case False
    have "call_failed t0 k db (db\<lparr>db_conn := c, db_result := r\<rparr>)"
      using engine_call_txn [OF open0 rc] False by blast
    moreover have "ok = False" "q = None" "db' = db\<lparr>db_conn := c, db_result := r\<rparr>"
      using q rc False held by (auto simp: query_v_def alloc_query_def Let_def)
    ultimately show ?thesis
      by (auto simp: call_failed_def stmt_done_def query_busy_def)
  next
    case True
    let ?db1 = "db\<lparr>db_conn := c, db_result := SQLITE_OK, db_queries := Suc k\<rparr>"
    have 1: "txn_open t0 (Suc k) ?db1" "db_result ?db1 = SQLITE_OK" "later db ?db1"
      "tabs (db_conn ?db1) = tabs (db_conn db)"
      using engine_call_txn [OF open0 rc, of SQLITE_OK] True by (auto simp: later_def txn_open_def)
    obtain q2 db2 where b: "bind_params ps \<lparr>q_sql = SQL_stmt f, q_binds = (\<lambda>_. SQL_null), q_run = False, q_rows = []\<rparr> ?db1 = (q2, db2)"
      by fastforce
    obtain ok3 q3 db3 where n: "query_next q2 db2 = (ok3, q3, db3)"
      using prod_cases3 by blast
    note c = query_v_prepared [OF 1 b n]
    then have nr: "db_result db2 \<noteq> SQLITE_ROW"
      by (auto simp: call_failed_def)
    note eq = query_v_step [OF held(1) rc [unfolded True] held(2) b nr n, of want, unfolded q]
    from c show ?thesis
    proof (elim disjE conjE)
      assume f: "call_failed t0 (Suc k) db db2"
      then have "db_result db2 \<noteq> SQLITE_OK"
        by (auto simp: call_failed_def)
      with eq have e: "ok = False" "q = None" "db' = query_free (Some q2) db2"
        by simp_all
      have "call_failed t0 k db (query_free (Some q2) db2)"
        using f by (simp add: call_failed_def query_free_def later_def txn_failed_def)
      then show ?thesis
        by (auto simp: e call_failed_def stmt_done_def query_busy_def)
    next
      assume ok2: "db_result db2 = SQLITE_OK" and st: "ok3 \<longrightarrow> q_run q3"
        "stmt_done t0 (Suc k) (f (bind_all (\<lambda>_. SQL_null) ps) (tabs (db_conn db))) db ok3 db3 (q_rows q3)"
      show ?thesis
      proof (cases "ok3 \<and> want \<and> q_rows q3 \<noteq> []")
        case True
        then have "ok = True" "q = Some q3" "db' = db3"
          using eq ok2 stmt_done_result [OF st(2)] by simp_all
        with st True show ?thesis
          by (intro exI [of _ "q_rows q3"]) simp
      next
        case False
        then have e: "ok = ok3" "q = None" "db' = query_free (Some q3) db3"
          using eq ok2 by (auto simp: stmt_done_result [OF st(2)])
        with False stmt_done_free [OF st(2), of q3] show ?thesis
          by (intro exI [of _ "q_rows q3"]) auto
      qed
    qed
  qed
qed

lemma query_do_txn:
  assumes "txn_open t0 0 db" "param_set_group 0 fmt args [] = Some (Some ps)"
  obtains ok db' rows where "query_do db (SQL_stmt f) fmt args = Some (ok, db')"
    "stmt_done t0 0 (f (bind_all (\<lambda>_. SQL_null) ps) (tabs (db_conn db))) db ok db' rows"
proof -
  obtain ok q db' where q: "query_v False db (SQL_stmt f) ps = (ok, q, db')"
    using prod_cases3 by blast
  from query_v_txn [OF assms(1) this] show thesis
    using that assms(2) q by (auto simp: query_do_def query_def)
qed

lemma query_rows_txn:
  assumes "txn_open t0 0 db" "param_set_group 0 fmt args [] = Some (Some ps)"
  obtains ok q db' rows where "query True db (SQL_stmt f) fmt args = Some (ok, q, db')"
    "stmt_done t0 (if ok \<and> rows \<noteq> [] then 1 else 0) (f (bind_all (\<lambda>_. SQL_null) ps) (tabs (db_conn db))) db ok db' rows"
    "if ok \<and> rows \<noteq> [] then \<exists>q'. q = Some q' \<and> q_rows q' = rows else q = None"
proof -
  obtain ok q db' where q: "query_v True db (SQL_stmt f) ps = (ok, q, db')"
    using prod_cases3 by blast
  from query_v_txn [OF assms(1) this] obtain rows where
    "stmt_done t0 (if ok \<and> rows \<noteq> [] then Suc 0 else 0) (f (bind_all (\<lambda>_. SQL_null) ps) (tabs (db_conn db))) db ok db' rows"
    "if ok \<and> rows \<noteq> [] then \<exists>q'. q = Some q' \<and> q_run q' \<and> q_rows q' = rows else q = None"
    by auto
  then show thesis
    using that [of ok q db' rows] assms(2) q by (auto simp: query_def split: if_splits)
qed

text \<open>The two outcomes of a statement as rules.\<close>

lemma stmt_done_ok:
  assumes "stmt_done t0 k v db ok db' rows" "ok"
  obtains t where "v = Inr (t, rows)" "tabs (db_conn db') = t" "txn_open t0 k db'" "later db db'"
    "db_result db' = (if rows = [] then SQLITE_OK else SQLITE_ROW)"
  using assms by (auto simp: stmt_done_def)

lemma stmt_done_fail:
  assumes "stmt_done t0 k v db ok db' rows" "\<not> ok"
  shows "txn_failed t0 k db'" "later db db'" "query_busy db' \<Longrightarrow> pending db' < pending db" "\<not> query_has_row db'" "\<not> query_ok db'"
    "only_contention db \<Longrightarrow> query_busy db' \<or> (\<exists>e. v = Inl e)"
  using assms by (auto simp: stmt_done_def query_has_row_def query_ok_def)

section \<open>Begin, commit, rollback\<close>

text \<open>A call of the engine fails, possibly with an automatic rollback; or the statement is run.\<close>

definition faulted :: "'t db \<Rightarrow> 't db \<Rightarrow> bool" where
  "faulted db db' \<longleftrightarrow> later db db' \<and> pending db' < pending db
     \<and> db_held db' = db_held db \<and> db_queries db' = db_queries db \<and> db_use_transaction db' = db_use_transaction db
     \<and> db_result db' \<in> {SQLITE_BUSY, SQLITE_IOERR_BLOCKED, SQLITE_INTERRUPT, SQLITE_ERROR}
     \<and> (only_contention db \<longrightarrow> db_result db' = SQLITE_BUSY \<and> trans (db_conn db') = trans (db_conn db))
     \<and> (only_soft db \<longrightarrow> db_result db' = SQLITE_BUSY \<or> trans (db_conn db') = None)
     \<and> (tabs (db_conn db') = tabs (db_conn db) \<and> trans (db_conn db') = trans (db_conn db)
       \<or> trans (db_conn db') = None \<and> trans (db_conn db) = Some (tabs (db_conn db')))"

definition executed :: "'t sql \<Rightarrow> 't db \<Rightarrow> bool \<Rightarrow> 't db \<Rightarrow> bool" where
  "executed s db ok db' \<longleftrightarrow> (\<exists>c1 r c rows. later db (db\<lparr>db_conn := c1\<rparr>) \<and> tabs c1 = tabs (db_conn db) \<and> trans c1 = trans (db_conn db)
     \<and> engine_exec s (\<lambda>_. SQL_null) c1 = (r, c, rows)
     \<and> ok = (r = SQLITE_DONE \<or> r = SQLITE_ROW)
     \<and> db' = db\<lparr>db_conn := c, db_result := (if r = SQLITE_DONE then SQLITE_OK else r)\<rparr>)"

lemma engine_call_db:
  assumes "engine_call (db_conn db) = (r, c)"
  shows "r = SQLITE_OK \<and> later db (db\<lparr>db_conn := c\<rparr>) \<and> tabs c = tabs (db_conn db) \<and> trans c = trans (db_conn db)
    \<or> r \<noteq> SQLITE_OK \<and> r \<noteq> SQLITE_ROW \<and> r \<noteq> SQLITE_DONE \<and> faulted db (db\<lparr>db_conn := c, db_result := r\<rparr>)"
  using assms
proof (cases rule: engine_call_cases)
  case ok
  then show ?thesis by (auto simp: later_def)
next
  case (fault f)
  moreover have "r = SQLITE_BUSY \<and> trans c = trans (db_conn db)" if "contention f"
    using that fault(2,3,6) by (auto simp: contention_def)
  moreover have "r = SQLITE_BUSY \<or> trans c = None" if "soft f"
    using that fault(2,3,6) by (auto simp: soft_def)
  ultimately show ?thesis
    by (auto simp: faulted_def later_def)
qed

lemma engine_exec_result:
  "engine_exec s b c = (r, c', rows) \<Longrightarrow> r \<in> {SQLITE_DONE, SQLITE_ROW, SQLITE_ERROR, SQLITE_CONSTRAINT}"
  by (auto simp: engine_exec_def split: sql.splits if_splits sum.splits stmt_error.splits)

lemma engine_exec_faults: "engine_exec s b c = (r, c', rows) \<Longrightarrow> faults c' = faults c"
  by (auto simp: engine_exec_def engine_rollback_def split: sql.splits if_splits sum.splits stmt_error.splits option.splits)

lemma executed_later: "executed s db ok db' \<Longrightarrow> later db db'"
  by (auto simp: executed_def later_def dest!: engine_exec_faults)

lemma faulted_later: "later db (db\<lparr>db_conn := c\<rparr>) \<Longrightarrow> tabs c = tabs (db_conn db) \<Longrightarrow> trans c = trans (db_conn db) \<Longrightarrow>
  faulted (db\<lparr>db_conn := c, db_result := r, db_queries := q\<rparr>) db' \<Longrightarrow> faulted db (db'\<lparr>db_queries := db_queries db\<rparr>)"
  by (simp add: faulted_def later_def) (meson subset_iff)

lemma query_do_cases:
  assumes "db_held db"
  obtains ok db' where "query_do db s [] [] = Some (ok, db')" "\<not> ok \<and> faulted db db' \<or> executed s db ok db'"
proof -
  let ?q = "\<lparr>q_sql = s, q_binds = (\<lambda>_. SQL_null), q_run = False, q_rows = []\<rparr>"
  obtain r c where rc: "engine_call (db_conn db) = (r, c)"
    by fastforce
  obtain r2 c2 where rc2: "engine_call c = (r2, c2)"
    by fastforce
  obtain r3 c3 rows where rc3: "engine_exec s (\<lambda>_. SQL_null) c2 = (r3, c3, rows)"
    using prod_cases3 by blast
  show thesis
  proof (cases "r = SQLITE_OK")
    case False
    then have "faulted db (db\<lparr>db_conn := c, db_result := r\<rparr>)"
      using engine_call_db [OF rc] by blast
    then show thesis
      using that [of False] rc False assms by (simp add: query_do_def query_def query_v_def db_in_trans_def alloc_query_def Let_def)
  next
    case ok: True
    then have 1: "later db (db\<lparr>db_conn := c\<rparr>)" "tabs c = tabs (db_conn db)" "trans c = trans (db_conn db)"
      using engine_call_db [OF rc] by auto
    let ?db1 = "db\<lparr>db_conn := c, db_result := SQLITE_OK, db_queries := Suc (db_queries db)\<rparr>"
    have 2: "r2 = SQLITE_OK \<and> later ?db1 (?db1\<lparr>db_conn := c2\<rparr>) \<and> tabs c2 = tabs c \<and> trans c2 = trans c
      \<or> r2 \<noteq> SQLITE_OK \<and> r2 \<noteq> SQLITE_ROW \<and> r2 \<noteq> SQLITE_DONE \<and> faulted ?db1 (?db1\<lparr>db_conn := c2, db_result := r2\<rparr>)"
      using engine_call_db [of ?db1 r2 c2] rc2 by simp
    show thesis
    proof (cases "r2 = SQLITE_OK")
      case False
      let ?r = "if r2 = SQLITE_IOERR_BLOCKED then SQLITE_BUSY else r2"
      have "faulted ?db1 (?db1\<lparr>db_conn := c2, db_result := ?r\<rparr>)"
        using 2 False by (auto simp: faulted_def later_def)
      then have "faulted db (?db1\<lparr>db_conn := c2, db_result := ?r, db_queries := db_queries db\<rparr>)"
        by (rule faulted_later [OF 1])
      moreover have "query_do db s [] [] = Some (False, ?db1\<lparr>db_conn := c2, db_result := ?r, db_queries := db_queries db\<rparr>)"
        using rc ok rc2 False 2 assms
        by (auto simp: query_do_def query_def query_v_def db_in_trans_def alloc_query_def query_next_def sqlite3_step_def
            query_free_def Let_def)
      ultimately show thesis
        using that by blast
    next
      case True
      have "executed s db (r3 = SQLITE_DONE \<or> r3 = SQLITE_ROW) (db\<lparr>db_conn := c3, db_result := (if r3 = SQLITE_DONE then SQLITE_OK else r3)\<rparr>)"
        unfolding executed_def using 1 2 True rc3
        by (intro exI [of _ c2] exI [of _ r3] exI [of _ c3] exI [of _ rows]) (auto simp: later_def)
      then show thesis
        using that [of "r3 = SQLITE_DONE \<or> r3 = SQLITE_ROW"] rc ok rc2 True rc3 engine_exec_result [OF rc3] assms
        by (auto simp: query_do_def query_def query_v_def db_in_trans_def alloc_query_def query_next_def sqlite3_step_def
            query_free_def Let_def)
    qed
  qed
qed

lemma begin_retry_total:
  assumes "db_held db" "db_use_transaction db" "db_queries db = 0" "trans (db_conn db) = None"
  shows "\<exists>ok db'. begin_retry db = Some (ok, db') \<and> later db db' \<and> tabs (db_conn db') = tabs (db_conn db)
    \<and> (if ok then txn_open (tabs (db_conn db)) 0 db' \<and> db_result db' = SQLITE_OK else idle db') \<and> (only_contention db \<longrightarrow> ok)"
  using assms
proof (induction "pending db" arbitrary: db rule: less_induct)
  case less
  obtain ok db1 where q: "query_do db SQL_begin [] [] = Some (ok, db1)"
    "\<not> ok \<and> faulted db db1 \<or> executed SQL_begin db ok db1"
    using less.prems(1) by (rule query_do_cases)
  from q(2) show ?case
  proof (elim disjE conjE)
    assume f: "\<not> ok" "faulted db db1"
    then have s: "db_held db1" "db_use_transaction db1" "db_queries db1 = 0" "trans (db_conn db1) = None"
      "tabs (db_conn db1) = tabs (db_conn db)" "later db db1" "pending db1 < pending db"
      using less.prems by (auto simp: faulted_def)
    show ?thesis
    proof (cases "query_busy db1")
      case True
      then have eq: "begin_retry db = begin_retry db1"
        using q(1) f(1) by (simp add: begin_retry.simps [of db])
      show ?thesis
        unfolding eq using less.hyps [OF s(7) s(1-4)] s(5,6) later_trans later_contention by metis
    next
      case False
      then have "begin_retry db = Some (False, db_put db1)"
        using q(1) f(1) by (simp add: begin_retry.simps [of db])
      moreover have "idle (db_put db1)" "later db (db_put db1)" "tabs (db_conn (db_put db1)) = tabs (db_conn db)"
        "\<not> only_contention db"
        using False f(2) s by (auto simp: db_put_def idle_def later_def faulted_def query_busy_def)
      ultimately show ?thesis
        by (intro exI [of _ False] exI [of _ "db_put db1"]) simp
    qed
  next
    assume ex: "executed SQL_begin db ok db1"
    then have "ok" "txn_open (tabs (db_conn db)) 0 db1" "tabs (db_conn db1) = tabs (db_conn db)" "db_result db1 = SQLITE_OK"
      using less.prems by (auto simp: executed_def engine_exec_def txn_open_def)
    with executed_later [OF ex] show ?thesis
      using q(1) by (auto simp: begin_retry.simps [of db])
  qed
qed

lemma db_begin_total:
  assumes "idle db"
  obtains ok db' where "db_begin True db = Some (ok, db')" "later db db'" "tabs (db_conn db') = tabs (db_conn db)"
    "if ok then txn_open (tabs (db_conn db)) 0 db' \<and> db_result db' = SQLITE_OK else idle db'" "only_contention db \<Longrightarrow> ok"
proof -
  let ?db = "db\<lparr>db_held := True, db_use_transaction := True\<rparr>"
  have "\<exists>ok db'. begin_retry ?db = Some (ok, db') \<and> later ?db db' \<and> tabs (db_conn db') = tabs (db_conn ?db)
    \<and> (if ok then txn_open (tabs (db_conn ?db)) 0 db' \<and> db_result db' = SQLITE_OK else idle db') \<and> (only_contention ?db \<longrightarrow> ok)"
    using assms by (intro begin_retry_total) (simp_all add: idle_def)
  then obtain ok db' where b: "begin_retry ?db = Some (ok, db')" "later ?db db'" "tabs (db_conn db') = tabs (db_conn ?db)"
    "if ok then txn_open (tabs (db_conn ?db)) 0 db' \<and> db_result db' = SQLITE_OK else idle db'" "only_contention ?db \<longrightarrow> ok"
    by blast
  show thesis
  proof (rule that)
    show "db_begin True db = Some (ok, db')"
      using b(1) assms by (simp add: db_begin_def db_get_def idle_def)
    show "later db db'"
      using b(2) by (simp add: later_def)
  qed (use b(3-5) in \<open>simp_all split: if_splits\<close>)
qed

lemma commit_retry:
  assumes "txn_failed t0 0 db"
  shows "\<exists>ok db'. commit db = Some (ok, db') \<and> later db db'
    \<and> (if ok then trans (db_conn db) \<noteq> None \<and> idle db' \<and> tabs (db_conn db') = tabs (db_conn db)
       else txn_failed t0 0 db' \<and> db_result db' \<notin> {SQLITE_OK, SQLITE_ROW, SQLITE_BUSY})
    \<and> (only_contention db \<and> trans (db_conn db) \<noteq> None \<longrightarrow> ok)"
  using assms
proof (induction "pending db" arbitrary: db rule: less_induct)
  case less
  have held: "db_held db" "db_use_transaction db"
    using less.prems by (simp_all add: txn_failed_def)
  obtain ok db1 where q: "query_do db SQL_commit [] [] = Some (ok, db1)"
    "\<not> ok \<and> faulted db db1 \<or> executed SQL_commit db ok db1"
    using held(1) by (rule query_do_cases)
  from q(2) show ?case
  proof (elim disjE conjE)
    assume f: "\<not> ok" "faulted db db1"
    then have s: "txn_failed t0 0 db1" "later db db1" "pending db1 < pending db"
      using less.prems by (auto simp: faulted_def txn_failed_def)
    show ?thesis
    proof (cases "query_busy db1")
      case True
      then have eq: "commit db = commit db1"
        using q(1) f(1) held(2) by (simp add: commit.simps [of db])
      have t: "only_contention db \<Longrightarrow> trans (db_conn db1) = trans (db_conn db)"
        using f(2) by (simp add: faulted_def)
      have t2: "trans (db_conn db1) \<noteq> None \<Longrightarrow> trans (db_conn db) \<noteq> None \<and> tabs (db_conn db1) = tabs (db_conn db)"
        using f(2) unfolding faulted_def by metis
      obtain ok2 db2 where c: "commit db1 = Some (ok2, db2)" "later db1 db2"
        "if ok2 then trans (db_conn db1) \<noteq> None \<and> idle db2 \<and> tabs (db_conn db2) = tabs (db_conn db1)
         else txn_failed t0 0 db2 \<and> db_result db2 \<notin> {SQLITE_OK, SQLITE_ROW, SQLITE_BUSY}"
        "only_contention db1 \<and> trans (db_conn db1) \<noteq> None \<longrightarrow> ok2"
        using less.hyps [OF s(3,1)] by blast
      show ?thesis
      proof (intro exI conjI)
        show "commit db = Some (ok2, db2)"
          using eq c(1) by simp
        show "later db db2"
          using s(2) c(2) by (rule later_trans)
        show "only_contention db \<and> trans (db_conn db) \<noteq> None \<longrightarrow> ok2"
          using c(4) t later_contention [OF s(2)] by auto
      qed (use c(3) t2 in \<open>simp split: if_splits\<close>)
    next
      case False
      then have "commit db = Some (False, db1)"
        using q(1) f(1) held(2) by (simp add: commit.simps [of db])
      moreover have "\<not> only_contention db" "db_result db1 \<notin> {SQLITE_OK, SQLITE_ROW, SQLITE_BUSY}"
        using False f(2) by (auto simp: faulted_def query_busy_def)
      ultimately show ?thesis
        using s(1,2) by auto
    qed
  next
    assume ex: "executed SQL_commit db ok db1"
    note lt = executed_later [OF ex]
    show ?thesis
    proof (cases ok)
      case True
      then have "trans (db_conn db) \<noteq> None \<and> idle (db_put db1) \<and> tabs (db_conn db1) = tabs (db_conn db)"
        using ex less.prems by (auto simp: executed_def engine_exec_def txn_failed_def db_put_def idle_def)
      moreover have "commit db = Some (True, db_put db1)"
        using q(1) held(2) True by (simp add: commit.simps [of db])
      moreover have "later db (db_put db1)" "tabs (db_conn (db_put db1)) = tabs (db_conn db1)"
        using lt ex less.prems by (auto simp: db_put_def later_def executed_def txn_failed_def)
      ultimately show ?thesis by auto
    next
      case False
      then have "trans (db_conn db) = None" "txn_failed t0 0 db1" "db_result db1 = SQLITE_ERROR"
        using ex less.prems by (auto simp: executed_def engine_exec_def txn_failed_def split: if_splits)
      moreover have "commit db = Some (False, db1)"
        using q(1) held(2) False calculation(3) by (simp add: commit.simps [of db] query_busy_def)
      ultimately show ?thesis
        using lt by auto
    qed
  qed
qed

lemma commit_total:
  assumes "txn_open t0 0 db"
  obtains ok db' where "commit db = Some (ok, db')" "later db db'"
    "if ok then idle db' \<and> tabs (db_conn db') = tabs (db_conn db)
     else txn_failed t0 0 db' \<and> db_result db' \<notin> {SQLITE_OK, SQLITE_ROW, SQLITE_BUSY}"
    "only_contention db \<Longrightarrow> ok"
proof -
  have "txn_failed t0 0 db" "trans (db_conn db) \<noteq> None"
    using assms by (simp_all add: txn_open_def txn_failed_def)
  with commit_retry [of t0 db] obtain ok db' where "commit db = Some (ok, db')" "later db db'"
    "if ok then trans (db_conn db) \<noteq> None \<and> idle db' \<and> tabs (db_conn db') = tabs (db_conn db)
     else txn_failed t0 0 db' \<and> db_result db' \<notin> {SQLITE_OK, SQLITE_ROW, SQLITE_BUSY}" "only_contention db \<longrightarrow> ok"
    by blast
  then show thesis
    using that [of ok db'] by (simp split: if_splits)
qed

text \<open>A rollback restores the tables; it fails, with the lock kept, only after an engine fault.\<close>

lemma rollback_retry_total:
  assumes "txn_failed t0 0 db"
  shows "\<exists>ok db'. rollback_retry db = Some (ok, db') \<and> later db db'
    \<and> (if ok then idle db' \<and> tabs (db_conn db') = t0 else db_held db' \<and> trans (db_conn db') = Some t0)
    \<and> (only_soft db \<longrightarrow> ok)"
  using assms
proof (induction "pending db" arbitrary: db rule: less_induct)
  case less
  have held: "db_held db"
    using less.prems by (simp_all add: txn_failed_def)
  obtain ok db1 where q: "query_do db SQL_rollback [] [] = Some (ok, db1)"
    "\<not> ok \<and> faulted db db1 \<or> executed SQL_rollback db ok db1"
    using held(1) by (rule query_do_cases)
  have fin: "rollback_retry db = Some (True, db_put db1)" if "ok \<or> trans (db_conn db1) = None"
    using q(1) that by (auto simp: rollback_retry.simps [of db])
  from q(2) show ?case
  proof (elim disjE conjE)
    assume f: "\<not> ok" "faulted db db1"
    then have s: "txn_failed t0 0 db1" "later db db1" "pending db1 < pending db"
      using less.prems by (auto simp: faulted_def txn_failed_def)
    consider "trans (db_conn db1) = None" | "trans (db_conn db1) = Some t0" "query_busy db1"
      | "trans (db_conn db1) = Some t0" "\<not> query_busy db1"
      using s(1) by (auto simp: txn_failed_def)
    then show ?thesis
    proof cases
      case 1
      then have "idle (db_put db1)" "tabs (db_conn (db_put db1)) = t0" "later db (db_put db1)"
        using s by (auto simp: txn_failed_def db_put_def idle_def later_def)
      with fin 1 show ?thesis by auto
    next
      case 2
      then have "rollback_retry db = rollback_retry db1"
        using q(1) f(1) by (simp add: rollback_retry.simps [of db])
      with less.hyps [OF s(3,1)] show ?thesis
        using later_trans [OF s(2)] later_soft [OF s(2)] by (elim exE conjE) auto
    next
      case 3
      then have "rollback_retry db = Some (False, db1)"
        using q(1) f(1) by (simp add: rollback_retry.simps [of db])
      moreover have "\<not> only_soft db" "db_held db1"
        using 3 f(2) held by (auto simp: faulted_def query_busy_def)
      ultimately show ?thesis
        using 3 s(2) by auto
    qed
  next
    assume ex: "executed SQL_rollback db ok db1"
    then have "trans (db_conn db1) = None" "tabs (db_conn db1) = t0" "db_queries db1 = 0"
      using less.prems by (auto simp: executed_def engine_exec_def txn_failed_def engine_rollback_def)
    moreover have "later db (db_put db1)"
      using executed_later [OF ex] \<open>db_queries db1 = 0\<close> by (simp add: db_put_def later_def)
    ultimately show ?thesis
      using fin by (auto simp: db_put_def idle_def)
  qed
qed

section \<open>The contract of a transaction\<close>

text \<open>
  The database where a transaction jumps to \<^verbatim>\<open>bad\<close>; \<open>good\<close> says that no statement fails for a reason of its own.
\<close>

definition aborted :: "'t \<Rightarrow> bool \<Rightarrow> 't db \<Rightarrow> 't db \<Rightarrow> bool" where
  "aborted t0 good db db' \<longleftrightarrow> later db db' \<and> txn_failed t0 0 db' \<and> (query_busy db' \<longrightarrow> pending db' < pending db)
     \<and> (good \<and> only_contention db \<longrightarrow> query_busy db')"

lemma aborted_later: "later db db1 \<Longrightarrow> aborted t0 good db1 db2 \<Longrightarrow> aborted t0 good db db2"
  by (auto simp: aborted_def later_def)

lemma aborted_stmt:
  assumes "stmt_done t0 0 v db ok db' rows" "\<not> ok" "good \<Longrightarrow> \<exists>x. v = Inr x"
  shows "aborted t0 good db db'"
  using stmt_done_fail [OF assms(1,2)] assms(3) by (auto simp: aborted_def)

lemma aborted_stay:
  assumes "txn_open t0 0 db" "\<not> query_busy db" "\<not> good"
  shows "aborted t0 good db db"
  using assms by (auto simp: aborted_def txn_open_def txn_failed_def)

lemma commit_txn:
  assumes "txn_open t0 0 db"
  obtains ok db' where "commit db = Some (ok, db')" "later db db'"
    "ok \<Longrightarrow> idle db' \<and> tabs (db_conn db') = tabs (db_conn db)" "\<not> ok \<Longrightarrow> aborted t0 good db db'"
proof -
  obtain ok db' where "commit db = Some (ok, db')" "later db db'"
    "if ok then idle db' \<and> tabs (db_conn db') = tabs (db_conn db)
     else txn_failed t0 0 db' \<and> db_result db' \<notin> {SQLITE_OK, SQLITE_ROW, SQLITE_BUSY}" "only_contention db \<Longrightarrow> ok"
    using commit_total [OF assms] by blast
  then show thesis
    using that [of ok db'] by (auto simp: aborted_def query_busy_def split: if_splits)
qed

text \<open>
  What a client promises of the body of a transaction that starts from the tables \<open>t0\<close>: it returns; it ends committed, with the
  tables and the rest of the state as \<open>post\<close> says; or it stops at the first failing statement.  If it then asks for another
  attempt, the rest of the state has to be as \<open>inv\<close> says, otherwise as \<open>stop\<close> says.  When \<open>good\<close> holds, contention is the
  only reason for a failure.
\<close>

locale txn_attempt =
  fixes body :: "'t db \<Rightarrow> 'w \<Rightarrow> (('e + 'a) \<times> 't db \<times> 'w) option"
    and t0 :: 't and inv :: "'w \<Rightarrow> bool" and stop :: "'e \<Rightarrow> 'w \<Rightarrow> bool" and good :: bool
    and post :: "'a \<Rightarrow> 't \<Rightarrow> 'w \<Rightarrow> bool"
  assumes attempt_run: "txn_open t0 0 db \<Longrightarrow> tabs (db_conn db) = t0 \<Longrightarrow> db_result db = SQLITE_OK \<Longrightarrow> inv w \<Longrightarrow> only_soft db \<Longrightarrow>
    \<exists>r db' w'. body db w = Some (r, db', w') \<and> later db db'
      \<and> (case r of
           Inr a \<Rightarrow> idle db' \<and> post a (tabs (db_conn db')) w'
         | Inl e \<Rightarrow> (query_busy db' \<longrightarrow> inv w') \<and> stop e w' \<and> aborted t0 good db db')"
begin

lemma attempts_end:
  assumes "idle db" "tabs (db_conn db) = t0" "inv w" "only_soft db"
  shows "\<exists>r db' w'. transact e0 body db w = Some (r, db', w') \<and> later db db' \<and> idle db'
    \<and> (case r of Inr a \<Rightarrow> post a (tabs (db_conn db')) w'
        | Inl e \<Rightarrow> (e = e0 \<and> inv w' \<or> stop e w') \<and> tabs (db_conn db') = t0 \<and> \<not> (good \<and> only_contention db))"
  using assms
proof (induction "pending db" arbitrary: db w rule: less_induct)
  case less
  obtain ok db1 where b: "db_begin True db = Some (ok, db1)" "later db db1" "tabs (db_conn db1) = t0"
    "if ok then txn_open t0 0 db1 \<and> db_result db1 = SQLITE_OK else idle db1" "only_contention db \<Longrightarrow> ok"
    using db_begin_total [OF less.prems(1)] less.prems(2) by metis
  show ?case
  proof (cases ok)
    case False
    with b less.prems show ?thesis
      by (intro exI [of _ "Inl e0"] exI [of _ db1] exI [of _ w]) (auto simp: transact.simps [of e0 body db])
  next
    case True
    with b(4) have o: "txn_open t0 0 db1" "db_result db1 = SQLITE_OK" by simp_all
    obtain r db2 w2 where r: "body db1 w = Some (r, db2, w2)" "later db1 db2"
      "case r of Inr a \<Rightarrow> idle db2 \<and> post a (tabs (db_conn db2)) w2
       | Inl e \<Rightarrow> (query_busy db2 \<longrightarrow> inv w2) \<and> stop e w2 \<and> aborted t0 good db1 db2"
      using attempt_run [OF o(1) b(3) o(2) less.prems(3) later_soft [OF b(2) less.prems(4)]] by blast
    note lt = later_trans [OF b(2) r(2)]
    show ?thesis
    proof (cases r)
      case (Inr a)
      with r b(1) True lt show ?thesis
        by (intro exI [of _ r] exI [of _ db2] exI [of _ w2]) (auto simp: transact.simps [of e0 body db])
    next
      case (Inl e)
      with r(3) have f: "query_busy db2 \<longrightarrow> inv w2" "stop e w2" "txn_failed t0 0 db2" "query_busy db2 \<longrightarrow> pending db2 < pending db1"
        "good \<and> only_contention db1 \<longrightarrow> query_busy db2"
        by (simp_all add: aborted_def)
      obtain ok3 db3 where rb: "rollback_retry db2 = Some (ok3, db3)" "later db2 db3" "idle db3" "tabs (db_conn db3) = t0"
        using rollback_retry_total [OF f(3)] later_soft [OF lt less.prems(4)] by (auto split: if_splits)
      have rb': "rollback db2 = Some (ok3, db3)"
        using rb(1) f(3) by (simp add: rollback_def txn_failed_def)
      note lt3 = later_trans [OF lt rb(2)]
      show ?thesis
      proof (cases "query_busy db2")
        case False
        have "transact e0 body db w = Some (Inl e, db3, w2)"
          using b(1) True r(1) Inl rb' False by (simp add: transact.simps [of e0 body db])
        with f False rb lt3 later_contention [OF b(2)] show ?thesis by auto
      next
        case busy: True
        then have iw: "inv w2"
          using f(1) by simp
        let ?db3 = "query_backoff db3"
        have same: "idle ?db3" "tabs (db_conn ?db3) = t0" "later db ?db3" "only_soft ?db3" "pending ?db3 < pending db"
          using rb lt3 later_soft [OF lt3 less.prems(4)] f(4) busy b(2)
          by (auto simp: query_backoff_def idle_def later_def)
        have "transact e0 body db w = transact e0 body ?db3 w2"
          using b(1) True r(1) Inl rb' busy by (simp add: transact.simps [of e0 body db])
        with less.hyps [OF same(5,1,2) iw same(4)] show ?thesis
          using later_trans [OF same(3)] later_contention [OF same(3)] by (elim exE conjE) (auto split: sum.splits)
      qed
    qed
  qed
qed

end

text \<open>The usual case: where the body stops, the rest of the state is as it may be at the start.\<close>

locale txn_body =
  fixes body :: "'t db \<Rightarrow> 'w \<Rightarrow> (('e + 'a) \<times> 't db \<times> 'w) option"
    and t0 :: 't and inv :: "'w \<Rightarrow> bool" and bad :: "'e \<Rightarrow> bool" and good :: bool
    and post :: "'a \<Rightarrow> 't \<Rightarrow> 'w \<Rightarrow> bool"
  assumes body_run: "txn_open t0 0 db \<Longrightarrow> tabs (db_conn db) = t0 \<Longrightarrow> db_result db = SQLITE_OK \<Longrightarrow> inv w \<Longrightarrow>
    \<exists>r db' w'. body db w = Some (r, db', w') \<and> later db db'
      \<and> (case r of
           Inr a \<Rightarrow> idle db' \<and> post a (tabs (db_conn db')) w'
         | Inl e \<Rightarrow> inv w' \<and> bad e \<and> aborted t0 good db db')"

sublocale txn_body \<subseteq> attempt: txn_attempt body t0 inv "\<lambda>e w. inv w \<and> bad e" good post
proof (unfold_locales, goal_cases)
  case (1 db w)
  from body_run [OF 1(1-4)] show ?case
    by (elim exE conjE) (intro exI conjI, assumption, auto split: sum.splits)
qed

context txn_body
begin

lemma transact_total:
  assumes "idle db" "tabs (db_conn db) = t0" "inv w" "only_soft db"
  shows "\<exists>r db' w'. transact e0 body db w = Some (r, db', w') \<and> later db db' \<and> idle db'
    \<and> (case r of Inr a \<Rightarrow> post a (tabs (db_conn db')) w'
        | Inl e \<Rightarrow> inv w' \<and> (e = e0 \<or> bad e) \<and> tabs (db_conn db') = t0 \<and> \<not> (good \<and> only_contention db))"
  using attempt.attempts_end [OF assms, of e0]
  by (elim exE conjE) (intro exI conjI, assumption, auto split: sum.splits)

end

end
