(* ===== verification/Isr_Pk.thy ===== *)
theory Isr_Pk
  imports Isr_Chunk Isr_SQL
begin

text \<open>
  What the parts of parcelkeeper share: the types of \<^verbatim>\<open>parcelkeeper/defs.h\<close>, its statistics, and the files
  it reads and writes by position.

  A file is its contents with the outcomes of the next input and output calls: \<open>None\<close> for a complete transfer and
  \<open>Some n\<close> for one that ends after at most \<open>n\<close> bytes (a short count, or a failure when nothing is transferred); an
  exhausted list means complete transfers.  Log messages are left out.
\<close>

section \<open>Types of defs.h\<close>

datatype pk_err =
    PK_SUCCESS | PK_OVERFLOW | PK_IOERR | PK_NOTFOUND | PK_INVALID | PK_NOMEM | PK_NOKEY | PK_TAGFAIL
  | PK_BADFORMAT | PK_CALLFAIL | PK_PROTOFAIL | PK_NETFAIL | PK_BUSY | PK_SQLERR | PK_INTERRUPT

definition CA_F_DIRTY :: u32 where "CA_F_DIRTY = 0x0001"
definition CA_F_DAMAGED :: u32 where "CA_F_DAMAGED = 0x0002"

definition WANT_LOCK :: u32 where "WANT_LOCK = 0x0001"
definition WANT_CACHE :: u32 where "WANT_CACHE = 0x0002"
definition WANT_PREV :: u32 where "WANT_PREV = 0x0004"
definition WANT_GC :: u32 where "WANT_GC = 0x0400"
definition WANT_SHM :: u32 where "WANT_SHM = 0x0040"

record pk_parcel =
  p_crypto :: c_enum
  p_required_compress :: u32
  p_chunks :: nat
  p_chunksize :: nat
  p_chunks_per_dir :: nat
  p_hashlen :: nat
  p_uuid :: string
  p_server :: string
  p_user :: string
  p_parcel :: string
  p_master :: string

record pk_stats =
  s_bytes_read :: u64
  s_bytes_written :: u64
  s_chunk_reads :: u64
  s_chunk_writes :: u64
  s_chunk_errors :: u64
  s_cache_hits :: u64
  s_cache_misses :: u64
  s_cache_evictions :: u64
  s_cache_evictions_dirty :: u64
  s_data_bytes_written :: u64
  s_whole_chunk_updates :: u64

section \<open>Files\<close>

record pfile =
  f_data :: bytes
  f_faults :: "nat option list"

definition io_limit :: "pfile \<Rightarrow> nat option \<times> pfile" where
  "io_limit f = (case f_faults f of [] \<Rightarrow> (None, f) | l # ls \<Rightarrow> (l, f\<lparr>f_faults := ls\<rparr>))"

definition transfer :: "nat option \<Rightarrow> bytes \<Rightarrow> bytes" where
  "transfer l b = (case l of None \<Rightarrow> b | Some n \<Rightarrow> take n b)"

text \<open>The bytes that \<open>pread\<close> delivers; its result is their number.\<close>

definition pread :: "nat \<Rightarrow> nat \<Rightarrow> pfile \<Rightarrow> bytes \<times> pfile" where
  "pread count off f = (case io_limit f of (l, f) \<Rightarrow> (transfer l (take count (drop off (f_data f))), f))"

text \<open>A write beyond the end leaves a hole, which reads as zeroes.\<close>

definition data_write :: "bytes \<Rightarrow> nat \<Rightarrow> bytes \<Rightarrow> bytes" where
  "data_write d off b = (if b = [] then d else blit (d @ replicate (off + length b - length d) 0) off b)"

definition pwrite :: "bytes \<Rightarrow> nat \<Rightarrow> pfile \<Rightarrow> nat \<times> pfile" where
  "pwrite b off f = (case io_limit f of (l, f) \<Rightarrow>
     let b = transfer l b in (length b, f\<lparr>f_data := data_write (f_data f) off b\<rparr>))"

text \<open>Calls that succeed or fail as a whole.\<close>

definition io_call :: "pfile \<Rightarrow> bool \<times> pfile" where
  "io_call f = (case io_limit f of (l, f) \<Rightarrow> (l = None, f))"

definition ftruncate :: "nat \<Rightarrow> pfile \<Rightarrow> bool \<times> pfile" where
  "ftruncate len f = (case io_call f of (ok, f) \<Rightarrow>
     (ok, if ok then f\<lparr>f_data := take len (f_data f) @ replicate (len - length (f_data f)) 0\<rparr> else f))"

definition fallocate :: "nat \<Rightarrow> pfile \<Rightarrow> bool \<times> pfile" where
  "fallocate len f = (case io_call f of (ok, f) \<Rightarrow>
     (ok, if ok then f\<lparr>f_data := f_data f @ replicate (len - length (f_data f)) 0\<rparr> else f))"

lemma io_limit_data [simp]: "f_data (snd (io_limit f)) = f_data f"
  by (simp add: io_limit_def split: list.splits)

lemma length_transfer: "length (transfer l b) \<le> length b"
  by (simp add: transfer_def split: option.splits)

lemma transfer_full: "length (transfer l b) = length b \<Longrightarrow> transfer l b = b"
  by (auto simp: transfer_def min_def split: option.splits if_splits)

lemma length_data_write: "length (data_write d off b) = (if b = [] then length d else max (length d) (off + length b))"
  by (simp add: data_write_def max_def)

lemma data_write_same: "take (length b) (drop off (data_write d off b)) = b"
  by (cases "b = []") (auto simp: data_write_def blit_def)

lemma data_write_other:
  assumes "off' + n \<le> off \<or> off + length b \<le> off'" "off' + n \<le> length d"
  shows "take n (drop off' (data_write d off b)) = take n (drop off' d)"
proof (cases "b = []")
  case False
  let ?d = "d @ replicate (off + length b - length d) 0"
  have len: "off + length b \<le> length ?d" by simp
  show ?thesis
  proof (rule nth_equalityI)
    fix i
    assume "i < length (take n (drop off' (data_write d off b)))"
    then have "i < n" "off' + i < length ?d"
      using False len by (auto simp: data_write_def simp del: length_append)
    then show "take n (drop off' (data_write d off b)) ! i = take n (drop off' d) ! i"
      using assms len False by (auto simp: data_write_def nth_blit [OF len] nth_append simp del: length_append)
  qed (use assms(2) False in \<open>simp add: data_write_def\<close>)
qed (simp add: data_write_def)

lemma io_limit_simps [simp]:
  "io_limit f = (l, f') \<Longrightarrow> f_data f' = f_data f"
  by (auto simp: io_limit_def split: list.splits)

lemma io_limit_quiet: "f_faults f = [] \<Longrightarrow> io_limit f = (None, f)"
  by (simp add: io_limit_def)

text \<open>A complete transfer reads what is there; a write changes only its range, and all of it when it is complete.\<close>

lemma pread_data:
  assumes "pread count off f = (b, f')"
  shows "f_data f' = f_data f" "length b \<le> count" "length b = count \<Longrightarrow> b = take count (drop off (f_data f))"
proof -
  obtain l where l: "io_limit f = (l, f')" "b = transfer l (take count (drop off (f_data f)))"
    using assms by (auto simp: pread_def split: prod.splits)
  show "f_data f' = f_data f" using l(1) by simp
  show "length b \<le> count"
    using length_transfer [of l "take count (drop off (f_data f))"] l(2) by simp
  show "b = take count (drop off (f_data f))" if "length b = count"
    using that transfer_full [of l "take count (drop off (f_data f))"]
      length_transfer [of l "take count (drop off (f_data f))"] l(2) by simp
qed

lemma pread_quiet: "f_faults f = [] \<Longrightarrow> pread count off f = (take count (drop off (f_data f)), f)"
  by (simp add: pread_def io_limit_quiet transfer_def)

lemma pwrite_quiet:
  "f_faults f = [] \<Longrightarrow> pwrite b off f = (length b, f\<lparr>f_data := data_write (f_data f) off b\<rparr>)"
  by (simp add: pwrite_def io_limit_quiet transfer_def)

lemma pwrite_data:
  assumes "pwrite b off f = (n, f')"
  obtains l where "f_data f' = data_write (f_data f) off (transfer l b)" "n = length (transfer l b)"
  using assms by (auto simp: pwrite_def Let_def split: prod.splits)

end
