(* ===== verification/Isr_Cache.thy ===== *)
theory Isr_Cache
  imports Isr_Pk
begin

text \<open>
  The local cache of parcelkeeper, \<^verbatim>\<open>parcelkeeper/cache.c\<close>: the cache file with its header, the cache index and
  the keyring in the database, the shared-memory chunk map, and the operations \<open>cache_get\<close> and \<open>cache_update\<close> on
  whole chunks.

  \<^verbatim>\<open>state->db\<close> is passed beside the rest of the state.  The outcome \<open>None\<close> is an access outside a buffer or a
  call that does not return.  The buffer of a failed call is left as it was; no caller looks at it.  \<^verbatim>\<open>hoard_get_chunk\<close> and \<^verbatim>\<open>transport_fetch_chunk\<close> are arguments of \<open>cache_get\<close>, with a
  state of their own.
\<close>

section \<open>State\<close>

text \<open>The tables: \<^verbatim>\<open>main.keys\<close> and \<^verbatim>\<open>prev.keys\<close> with chunk, tag, key and compression, \<^verbatim>\<open>cache.chunks\<close> with chunk and
  length, and \<^verbatim>\<open>cache.user_version\<close>.\<close>

type_synonym keys_table = "(int \<times> bytes \<times> bytes \<times> int) list"

record cache_tables =
  t_keys :: keys_table
  t_prev :: "keys_table option"
  t_chunks :: "(int \<times> int) list option"
  t_version :: int

record 'h pk_state =
  conf_flags :: u32
  conf_compress :: c_enum
  parcel :: pk_parcel
  cache_file :: "pfile option"
  cache_index :: "(int \<times> (int \<times> int) list option) option"
  cache_fd :: bool
  cache_offset :: nat
  cache_flags :: u32
  shm_base :: "bytes option"
  stats :: pk_stats
  remote :: 'h

text \<open>
  \<^verbatim>\<open>cache_file\<close> and \<^verbatim>\<open>cache_index\<close> are the files of that name, the latter as user version and table until it is
  attached; \<open>cache_fd\<close> says that the cache file is open.
\<close>

definition upd_file :: "('h pk_state \<Rightarrow> pfile \<Rightarrow> 'r \<times> pfile) \<Rightarrow> 'h pk_state \<Rightarrow> ('r \<times> 'h pk_state) option" where
  "upd_file op st = (case cache_file st of
     None \<Rightarrow> None
   | Some f \<Rightarrow> (case op st f of (r, f) \<Rightarrow> Some (r, st\<lparr>cache_file := Some f\<rparr>)))"

definition cache_chunk_to_offset :: "'h pk_state \<Rightarrow> nat \<Rightarrow> nat" where
  "cache_chunk_to_offset st chunk = p_chunksize (parcel st) * chunk + cache_offset st"

section \<open>The cache file\<close>

definition CA_MAGIC :: u32 where "CA_MAGIC = 0x51528038"
definition CA_VERSION :: u8 where "CA_VERSION = 1"
definition CA_INDEX_VERSION :: int where "CA_INDEX_VERSION = 1"

text \<open>The header as it lies in the file: five big-endian words, the version, three bytes of padding.\<close>

definition ca_header :: "u32 \<Rightarrow> u32 \<Rightarrow> u32 \<Rightarrow> u32 \<Rightarrow> u8 \<Rightarrow> bytes" where
  "ca_header magic entries offset flags version =
     STORE32H magic @ STORE32H entries @ STORE32H offset @ STORE32H flags @ STORE32H 0 @ [version, 0, 0, 0]"

definition set_cache_file_size :: "'h pk_state \<Rightarrow> pfile \<Rightarrow> pk_err \<times> pfile" where
  "set_cache_file_size st f =
     (let len = cache_chunk_to_offset st (p_chunks (parcel st)) in
      case fallocate len f of (ok, f) \<Rightarrow>
      if ok then (PK_SUCCESS, f)
      else case ftruncate len f of (ok, f) \<Rightarrow> (if ok then PK_SUCCESS else PK_IOERR, f))"

text \<open>\<open>newfile\<close> is what \<^verbatim>\<open>open\<close> with \<^verbatim>\<open>O_CREAT|O_EXCL\<close> gives: \<open>None\<close> on failure, and otherwise an empty file.\<close>

definition create_cache_file :: "nat option list option \<Rightarrow> 'h pk_state \<Rightarrow> pk_err \<times> 'h pk_state" where
  "create_cache_file newfile st = (case (cache_file st, newfile) of
     (None, Some outcomes) \<Rightarrow>
       (let st = st\<lparr>cache_offset := 4096, cache_flags := 0\<rparr>;
            hdr = ca_header CA_MAGIC (of_nat (p_chunks (parcel st))) (of_nat (cache_offset st div 2 ^ 9)) (cache_flags st) CA_VERSION in
        case set_cache_file_size st \<lparr>f_data = [], f_faults = outcomes\<rparr> of (ret, f) \<Rightarrow>
        if ret \<noteq> PK_SUCCESS then (PK_IOERR, st\<lparr>cache_file := Some f\<rparr>)
        else case pwrite hdr 0 f of (n, f) \<Rightarrow>
          let st = st\<lparr>cache_file := Some f\<rparr> in
          if n \<noteq> length hdr then (PK_IOERR, st) else (PK_SUCCESS, st\<lparr>cache_fd := True\<rparr>))
   | _ \<Rightarrow> (PK_IOERR, st))"

definition open_cache_file :: "'h pk_state \<Rightarrow> pk_err \<times> 'h pk_state" where
  "open_cache_file st = (case cache_file st of
     None \<Rightarrow> (PK_IOERR, st)
   | Some f \<Rightarrow> (case pread 24 0 f of (hdr, f) \<Rightarrow>
       let st = st\<lparr>cache_file := Some f\<rparr> in
       if length hdr \<noteq> 24 then (PK_IOERR, st)
       else if LOAD32H hdr \<noteq> CA_MAGIC then (PK_BADFORMAT, st)
       else if hdr ! 20 \<noteq> CA_VERSION then (PK_BADFORMAT, st)
       else if unat (LOAD32H (drop 4 hdr)) \<noteq> p_chunks (parcel st) then (PK_BADFORMAT, st)
       else (PK_SUCCESS, st\<lparr>cache_flags := LOAD32H (drop 12 hdr),
         cache_offset := unat (push_bit 9 (LOAD32H (drop 8 hdr))), cache_fd := True\<rparr>)))"

definition cache_set_flags :: "'h pk_state \<Rightarrow> u32 \<Rightarrow> (pk_err \<times> 'h pk_state) option" where
  "cache_set_flags st flags =
     (if conf_flags st AND WANT_LOCK = 0 then Some (PK_BUSY, st)
      else if \<not> cache_fd st then Some (PK_IOERR, st)
      else do {
        (n, st) \<leftarrow> upd_file (\<lambda>_. pwrite (STORE32H flags) 12) st;
        if n \<noteq> 4 then Some (PK_IOERR, st)
        else do {
          (ok, st) \<leftarrow> upd_file (\<lambda>_. io_call) st;
          if \<not> ok then Some (PK_IOERR, st) else Some (PK_SUCCESS, st\<lparr>cache_flags := flags\<rparr>)
        }
      })"

definition cache_set_flag :: "'h pk_state \<Rightarrow> u32 \<Rightarrow> (pk_err \<times> 'h pk_state) option" where
  "cache_set_flag st flag = cache_set_flags st (cache_flags st OR flag)"

definition cache_clear_flag :: "'h pk_state \<Rightarrow> u32 \<Rightarrow> (pk_err \<times> 'h pk_state) option" where
  "cache_clear_flag st flag = cache_set_flags st (cache_flags st AND NOT flag)"

definition cache_test_flag :: "'h pk_state \<Rightarrow> u32 \<Rightarrow> bool" where
  "cache_test_flag st flag = (cache_flags st AND flag = flag)"

section \<open>The chunk map in shared memory\<close>

definition SHM_PRESENT :: u8 where "SHM_PRESENT = 0x01"
definition SHM_DIRTY :: u8 where "SHM_DIRTY = 0x02"
definition SHM_ACCESSED_SESSION :: u8 where "SHM_ACCESSED_SESSION = 0x04"
definition SHM_DIRTY_SESSION :: u8 where "SHM_DIRTY_SESSION = 0x08"
definition SHM_CACHED :: u8 where "SHM_CACHED = 0x10"
definition SHM_CACHE_DIRTY :: u8 where "SHM_CACHE_DIRTY = 0x20"

definition shm_update :: "'h pk_state \<Rightarrow> nat \<Rightarrow> u8 \<Rightarrow> u8 \<Rightarrow> 'h pk_state option" where
  "shm_update st chunk bset bclear = (case shm_base st of
     None \<Rightarrow> Some st
   | Some base \<Rightarrow>
       if chunk > p_chunks (parcel st) then Some st
       else if chunk \<ge> length base then None
       else Some (st\<lparr>shm_base := Some (base[chunk := (base ! chunk OR bset) AND NOT bclear])\<rparr>))"

definition cache_shm_set_dirty :: "'h pk_state \<Rightarrow> nat \<Rightarrow> 'h pk_state option" where
  "cache_shm_set_dirty st chunk =
     shm_update st chunk (SHM_PRESENT OR SHM_ACCESSED_SESSION OR SHM_DIRTY OR SHM_DIRTY_SESSION) 0"

definition cache_shm_set_cached :: "'h pk_state \<Rightarrow> nat \<Rightarrow> bool \<Rightarrow> 'h pk_state option" where
  "cache_shm_set_cached st chunk cached =
     shm_update st chunk (if cached then SHM_CACHED else 0) (if cached then 0 else SHM_CACHED)"

definition cache_shm_set_cache_dirty :: "'h pk_state \<Rightarrow> nat \<Rightarrow> bool \<Rightarrow> 'h pk_state option" where
  "cache_shm_set_cache_dirty st chunk dirty =
     shm_update st chunk (if dirty then SHM_CACHE_DIRTY else 0) (if dirty then 0 else SHM_CACHE_DIRTY)"

section \<open>Statements\<close>

definition on_chunks :: "((int \<times> int) list \<Rightarrow> (int \<times> int) list \<times> sqlrow list) \<Rightarrow> cache_tables \<Rightarrow> stmt_error + (cache_tables \<times> sqlrow list)" where
  "on_chunks f t = (case t_chunks t of
     None \<Rightarrow> Inl Stmt_error
   | Some cs \<Rightarrow> (case f cs of (cs, rows) \<Rightarrow> Inr (t\<lparr>t_chunks := Some cs\<rparr>, rows)))"

text \<open>\<^verbatim>\<open>SELECT tag, key, compression FROM keys WHERE chunk == ?\<close>\<close>

definition sel_key :: "cache_tables sql" where
  "sel_key = SQL_stmt (\<lambda>p t. Inr (t, map (\<lambda>(c, tag, key, z). [SQL_blob tag, SQL_blob key, SQL_int z])
     (filter (\<lambda>(c, _). SQL_int c = p 1) (t_keys t))))"

text \<open>\<^verbatim>\<open>SELECT length FROM cache.chunks WHERE chunk == ?\<close>\<close>

definition sel_length :: "cache_tables sql" where
  "sel_length = SQL_stmt (\<lambda>p. on_chunks (\<lambda>cs. (cs, map (\<lambda>(c, l). [SQL_int l]) (filter (\<lambda>(c, _). SQL_int c = p 1) cs))))"

text \<open>\<^verbatim>\<open>INSERT OR REPLACE INTO cache.chunks (chunk, length) VALUES(?, ?)\<close>\<close>

definition ins_chunk :: "cache_tables sql" where
  "ins_chunk = SQL_stmt (\<lambda>p t. case (p 1, p 2) of
     (SQL_int c, SQL_int l) \<Rightarrow> on_chunks (\<lambda>cs. ((c, l) # filter (\<lambda>(c', _). c' \<noteq> c) cs, [[SQL_int 1]])) t
   | _ \<Rightarrow> Inl Stmt_error)"

text \<open>\<^verbatim>\<open>UPDATE keys SET tag = ?, key = ?, compression = ? WHERE chunk == ?\<close>\<close>

definition upd_key :: "cache_tables sql" where
  "upd_key = SQL_stmt (\<lambda>p t. case (p 1, p 2, p 3, p 4) of
     (SQL_blob tag, SQL_blob key, SQL_int z, SQL_int c) \<Rightarrow>
       Inr (t\<lparr>t_keys := map (\<lambda>(c', r). if c' = c then (c, tag, key, z) else (c', r)) (t_keys t)\<rparr>,
         [[SQL_int (int (length (filter (\<lambda>(c', _). c' = c) (t_keys t))))]])
   | _ \<Rightarrow> Inl Stmt_error)"

text \<open>\<^verbatim>\<open>SELECT chunk FROM cache.chunks\<close> and \<^verbatim>\<open>SELECT count(*) from cache.chunks\<close>\<close>

definition sel_chunks :: "cache_tables sql" where
  "sel_chunks = SQL_stmt (\<lambda>_. on_chunks (\<lambda>cs. (cs, map (\<lambda>(c, _). [SQL_int c]) cs)))"

definition count_chunks :: "cache_tables sql" where
  "count_chunks = SQL_stmt (\<lambda>_. on_chunks (\<lambda>cs. (cs, [[SQL_int (int (length cs))]])))"

text \<open>
  \<^verbatim>\<open>SELECT ... FROM main.keys JOIN prev.keys ON main.keys.chunk == prev.keys.chunk WHERE main.keys.tag != prev.keys.tag\<close>
\<close>

definition modified :: "keys_table \<Rightarrow> keys_table \<Rightarrow> int list" where
  "modified ks ps = concat (map (\<lambda>(c, tag, _). map (\<lambda>_. c) (filter (\<lambda>(c', tag', _). c' = c \<and> tag \<noteq> tag') ps)) ks)"

definition sel_modified :: "cache_tables sql" where
  "sel_modified = SQL_stmt (\<lambda>_ t. case t_prev t of
     None \<Rightarrow> Inl Stmt_error | Some ps \<Rightarrow> Inr (t, map (\<lambda>c. [SQL_int c]) (modified (t_keys t) ps)))"

definition count_modified :: "cache_tables sql" where
  "count_modified = SQL_stmt (\<lambda>_ t. case t_prev t of
     None \<Rightarrow> Inl Stmt_error | Some ps \<Rightarrow> Inr (t, [[SQL_int (int (length (modified (t_keys t) ps)))]]))"

text \<open>\<^verbatim>\<open>CREATE TABLE cache.chunks\<close>, \<^verbatim>\<open>PRAGMA cache.user_version = 1\<close> and \<^verbatim>\<open>PRAGMA cache.user_version\<close>\<close>

definition create_chunks :: "cache_tables sql" where
  "create_chunks = SQL_stmt (\<lambda>_ t. if t_chunks t = None then Inr (t\<lparr>t_chunks := Some []\<rparr>, []) else Inl Stmt_error)"

definition set_version :: "cache_tables sql" where
  "set_version = SQL_stmt (\<lambda>_ t. Inr (t\<lparr>t_version := CA_INDEX_VERSION\<rparr>, []))"

definition get_version :: "cache_tables sql" where
  "get_version = SQL_stmt (\<lambda>_ t. Inr (t, [[SQL_int (t_version t)]]))"

section \<open>The cache index\<close>

type_synonym cdb = "cache_tables db"

definition create_cache_index :: "cdb \<Rightarrow> (pk_err \<times> cdb) option" where
  "create_cache_index db = do {
     (r, db, _) \<leftarrow> transact PK_IOERR (\<lambda>db w. do {
       (ok, db) \<leftarrow> query_do db create_chunks [] [];
       if \<not> ok then Some (Inl PK_IOERR, db, w)
       else do {
         (ok, db) \<leftarrow> query_do db set_version [] [];
         if \<not> ok then Some (Inl PK_IOERR, db, w)
         else do {
           (ok, db) \<leftarrow> commit db;
           Some (if ok then Inr () else Inl PK_IOERR, db, w)
         }
       }
     }) db ();
     Some (case r of Inl e \<Rightarrow> e | Inr _ \<Rightarrow> PK_SUCCESS, db)
   }"

text \<open>The result of the \<^verbatim>\<open>rollback\<close> that ends a reading transaction is ignored, as in the code.\<close>

definition verify_cache_index :: "cdb \<Rightarrow> (pk_err \<times> cdb) option" where
  "verify_cache_index db = do {
     (r, db, _) \<leftarrow> transact PK_IOERR (\<lambda>db w. do {
       (_, qry, db) \<leftarrow> query True db get_version [] [];
       if \<not> query_has_row db then Some (Inl PK_SQLERR, db, w)
       else do {
         v \<leftarrow> query_row qry ''d'';
         (_, db) \<leftarrow> rollback (query_free qry db);
         Some (Inr v, db, w)
       }
     }) db ();
     Some (case r of Inl e \<Rightarrow> e | Inr v \<Rightarrow> if v \<noteq> [SQL_int CA_INDEX_VERSION] then PK_BADFORMAT else PK_SUCCESS, db)
   }"

section \<open>Whole chunks\<close>

text \<open>\<open>buflen\<close> is the size of the caller's buffer.\<close>

definition cache_read_chunk :: "'h pk_state \<Rightarrow> nat \<Rightarrow> nat \<Rightarrow> nat \<Rightarrow> bytes option \<Rightarrow> (pk_err \<times> bytes \<times> 'h pk_state) option" where
  "cache_read_chunk st chunk buflen chunklen tag = do {
     (buf, st) \<leftarrow> upd_file (\<lambda>st. pread chunklen (cache_chunk_to_offset st chunk)) st;
     if length buf > buflen then None
     else if int (length buf) \<noteq> int32 (int chunklen) then Some (PK_IOERR, buf, st)
     else (case tag of
       None \<Rightarrow> Some (PK_SUCCESS, buf, st)
     | Some tag \<Rightarrow> do {
         calctag \<leftarrow> iu_chunk_crypto_digest (p_crypto (parcel st)) buf;
         Some (case calctag of
           None \<Rightarrow> (PK_CALLFAIL, buf, st)
         | Some calctag \<Rightarrow>
             if take (p_hashlen (parcel st)) tag \<noteq> take (p_hashlen (parcel st)) calctag then (PK_TAGFAIL, buf, st)
             else (PK_SUCCESS, buf, st))
       })
   }"

definition cache_write_chunk :: "cdb \<Rightarrow> 'h pk_state \<Rightarrow> nat \<Rightarrow> bytes \<Rightarrow> (pk_err \<times> cdb \<times> 'h pk_state) option" where
  "cache_write_chunk db st chunk buf =
     (let len = length buf; chunksize = p_chunksize (parcel st) in
      if len > chunksize then Some (PK_INVALID, db, st)
      else do {
        (count, st) \<leftarrow> upd_file (\<lambda>st. pwrite (buf @ replicate (chunksize - len) 0) (cache_chunk_to_offset st chunk)) st;
        if int count \<noteq> int32 (int chunksize) then Some (PK_IOERR, db, st)
        else do {
          (ok, db) \<leftarrow> query_do db ins_chunk ''dd'' [SQL_int (int chunk), SQL_int (int len)];
          Some (if ok then PK_SUCCESS else PK_IOERR, db, st)
        }
      })"

text \<open>The sources of chunks that are not in the local cache; \<open>None\<close> is a call that does not return.\<close>

record 'h chunk_source =
  hoard_get_chunk :: "bytes \<Rightarrow> 'h \<Rightarrow> (pk_err \<times> bytes \<times> 'h) option"
  transport_fetch_chunk :: "nat \<Rightarrow> bytes \<Rightarrow> 'h \<Rightarrow> (pk_err \<times> bytes \<times> 'h) option"

text \<open>The part of the transaction of \<open>cache_get\<close> after the row of the keyring has been accepted.\<close>

definition cache_get_len :: "nat \<Rightarrow> bytes \<Rightarrow> bytes \<Rightarrow> int \<Rightarrow> cdb \<Rightarrow> 'h pk_state \<Rightarrow> ((pk_err + bytes \<times> bytes \<times> int \<times> nat) \<times> cdb \<times> 'h pk_state) option" where
  "cache_get_len chunk tag key z db st = do {
     (ok, qry, db) \<leftarrow> query True db sel_length ''d'' [SQL_int (int chunk)];
     if \<not> ok then Some (Inl PK_IOERR, db, st)
     else do {
       (len, db) \<leftarrow> (if query_has_row db then do {
           row \<leftarrow> query_row qry ''d'';
           (case row of [SQL_int l] \<Rightarrow> Some (uint32 l, query_free qry db) | _ \<Rightarrow> None)
         } else Some (0, db));
       (ok, db) \<leftarrow> commit db;
       if \<not> ok then Some (Inl PK_IOERR, db, st) else Some (Inr (tag, key, z, len), db, st)
     }
   }"

text \<open>The transaction of \<open>cache_get\<close>: tag, key, compression, and the length in the cache index or 0.\<close>

definition cache_get_row :: "nat \<Rightarrow> cdb \<Rightarrow> 'h pk_state \<Rightarrow> ((pk_err + bytes \<times> bytes \<times> int \<times> nat) \<times> cdb \<times> 'h pk_state) option" where
  "cache_get_row chunk db st = do {
     (_, qry, db) \<leftarrow> query True db sel_key ''d'' [SQL_int (int chunk)];
     if \<not> query_has_row db then Some (Inl PK_IOERR, db, st)
     else do {
       row \<leftarrow> query_row qry ''bbd'';
       (case row of
          [SQL_blob rowtag, SQL_blob rowkey, SQL_int compress] \<Rightarrow>
            let db = query_free qry db in
            if length rowtag \<noteq> p_hashlen (parcel st) \<or> length rowkey \<noteq> p_hashlen (parcel st) then
              Some (Inl PK_INVALID, db, st)
            else if \<not> iu_chunk_compress_is_enabled (p_required_compress (parcel st)) compress then
              Some (Inl PK_INVALID, db, st)
            else cache_get_len chunk rowtag rowkey compress db st
        | _ \<Rightarrow> None)
     }
   }"

definition cache_get :: "('z, 's, 'm) backends \<Rightarrow> 'h chunk_source \<Rightarrow> cdb \<Rightarrow> 'h pk_state \<Rightarrow> nat \<Rightarrow> bytes
    \<Rightarrow> (pk_err \<times> bytes \<times> cdb \<times> 'h pk_state) option" where
  "cache_get b src db st chunk buf = do {
     (r, db, st) \<leftarrow> transact PK_IOERR (cache_get_row chunk) db st;
     (case r of
        Inl e \<Rightarrow> Some (e, buf, db, st)
      | Inr (tag, key, compress, len) \<Rightarrow> do {
          (ret, encrypted, st) \<leftarrow>
            (if len \<noteq> 0 then cache_read_chunk st chunk (p_chunksize (parcel st)) len None
             else do {
               (ret, encrypted, h) \<leftarrow> hoard_get_chunk src tag (remote st);
               let st = st\<lparr>remote := h\<rparr>;
               if ret \<noteq> PK_SUCCESS then do {
                 (ret, encrypted, h) \<leftarrow> transport_fetch_chunk src chunk tag (remote st);
                 Some (ret, encrypted, st\<lparr>remote := h\<rparr>)
               } else Some (PK_SUCCESS, encrypted, st)
             });
          if ret \<noteq> PK_SUCCESS then Some (ret, buf, db, st)
          else if length encrypted > p_chunksize (parcel st) then Some (PK_INVALID, buf, db, st)
          else do {
            r \<leftarrow> iu_chunk_decode b (p_crypto (parcel st)) compress encrypted key buf;
            (case r of
               None \<Rightarrow> Some (PK_IOERR, buf, db, st)
             | Some buf \<Rightarrow> do {
                 let st = st\<lparr>stats := (stats st)\<lparr>s_chunk_reads := s_chunk_reads (stats st) + 1\<rparr>\<rparr>;
                 st \<leftarrow> shm_update st chunk SHM_ACCESSED_SESSION 0;
                 Some (PK_SUCCESS, buf, db, st)
               })
          }
        })
   }"

text \<open>The transaction of \<open>cache_update\<close>.\<close>

definition cache_update_row :: "nat \<Rightarrow> bytes \<Rightarrow> bytes \<Rightarrow> bytes \<Rightarrow> int \<Rightarrow> cdb \<Rightarrow> 'h pk_state
    \<Rightarrow> ((pk_err + unit) \<times> cdb \<times> 'h pk_state) option" where
  "cache_update_row chunk encrypted tag key compress db st = do {
     (ret, db, st) \<leftarrow> cache_write_chunk db st chunk encrypted;
     if ret \<noteq> PK_SUCCESS then Some (Inl PK_IOERR, db, st)
     else do {
       (ok, db) \<leftarrow> query_do db ins_chunk ''dd'' [SQL_int (int chunk), SQL_int (int (length encrypted))];
       if \<not> ok then Some (Inl PK_IOERR, db, st)
       else do {
         (ok, db) \<leftarrow> query_do db upd_key ''bbdd'' [SQL_blob (take (p_hashlen (parcel st)) tag),
           SQL_blob (take (p_hashlen (parcel st)) key), SQL_int compress, SQL_int (int chunk)];
         if \<not> ok then Some (Inl PK_IOERR, db, st)
         else do {
           (ok, db) \<leftarrow> commit db;
           Some (if ok then Inr () else Inl PK_IOERR, db, st)
         }
       }
     }
   }"

definition cache_update :: "('z, 's, 'm) backends \<Rightarrow> cdb \<Rightarrow> 'h pk_state \<Rightarrow> nat \<Rightarrow> bytes
    \<Rightarrow> (pk_err \<times> cdb \<times> 'h pk_state) option" where
  "cache_update b db st chunk buf = do {
     r \<leftarrow> iu_chunk_encode b (p_crypto (parcel st)) buf (replicate (p_chunksize (parcel st)) 0) (conf_compress st);
     (case r of
        None \<Rightarrow> Some (PK_IOERR, db, st)
      | Some (out, len, tag, key, compress) \<Rightarrow> do {
          (r, db, st) \<leftarrow> transact PK_IOERR (cache_update_row chunk (take len out) tag key compress) db st;
          (case r of
             Inl e \<Rightarrow> Some (e, db, st)
           | Inr _ \<Rightarrow> do {
               let st = st\<lparr>stats := (stats st)\<lparr>s_chunk_writes := s_chunk_writes (stats st) + 1,
                 s_data_bytes_written := s_data_bytes_written (stats st) + of_nat len\<rparr>\<rparr>;
               st \<leftarrow> shm_update st chunk (SHM_PRESENT OR SHM_ACCESSED_SESSION OR SHM_DIRTY OR SHM_DIRTY_SESSION) 0;
               Some (PK_SUCCESS, db, st)
             })
        })
   }"

text \<open>A \<^verbatim>\<open>SELECT count\<close> inside a transaction: \<open>None\<close> in the result is the jump to \<^verbatim>\<open>bad\<close>.\<close>

definition query_count :: "cdb \<Rightarrow> cache_tables sql \<Rightarrow> (int option \<times> cdb) option" where
  "query_count db s = do {
     (_, qry, db) \<leftarrow> query True db s [] [];
     if \<not> query_has_row db then Some (None, db)
     else do {
       row \<leftarrow> query_row qry ''d'';
       (case row of [SQL_int n] \<Rightarrow> Some (Some n, query_free qry db) | _ \<Rightarrow> None)
     }
   }"

text \<open>\<open>valid\<close> and \<open>dirty\<close> say which counts the caller asked for.\<close>

definition cache_count_rows :: "bool \<Rightarrow> bool \<Rightarrow> cdb \<Rightarrow> unit \<Rightarrow> ((pk_err + int \<times> int) \<times> cdb \<times> unit) option" where
  "cache_count_rows valid dirty db w = do {
     (v, db) \<leftarrow> (if valid then query_count db count_chunks else Some (Some 0, db));
     (case v of
        None \<Rightarrow> Some (Inl PK_IOERR, db, w)
      | Some v \<Rightarrow> do {
          (d, db) \<leftarrow> (if dirty then query_count db count_modified else Some (Some 0, db));
          (case d of
             None \<Rightarrow> Some (Inl PK_IOERR, db, w)
           | Some d \<Rightarrow> do { (_, db) \<leftarrow> rollback db; Some (Inr (v, d), db, w) })
        })
   }"

definition cache_count_chunks :: "bool \<Rightarrow> bool \<Rightarrow> cdb \<Rightarrow> (pk_err \<times> (int \<times> int) \<times> cdb) option" where
  "cache_count_chunks valid dirty db = do {
     (r, db, _) \<leftarrow> transact PK_IOERR (cache_count_rows valid dirty) db ();
     Some (case r of Inl e \<Rightarrow> (e, (0, 0), db) | Inr vd \<Rightarrow> (PK_SUCCESS, vd, db))
   }"

section \<open>Starting up\<close>

text \<open>The loop over the rows of a query that marks chunks in the map.  A negative chunk number is a large unsigned one.\<close>

partial_function (option) shm_rows :: "u8 \<Rightarrow> cache_tables query option \<Rightarrow> cdb \<Rightarrow> 'h pk_state
    \<Rightarrow> (cache_tables query option \<times> cdb \<times> 'h pk_state) option" where
  "shm_rows bits qry db st =
     (if \<not> query_has_row db then Some (qry, db, st)
      else case qry of
        None \<Rightarrow> None
      | Some q \<Rightarrow> do {
          row \<leftarrow> query_row (Some q) ''d'';
          (case row of
             [SQL_int c] \<Rightarrow> do {
               st \<leftarrow> shm_update st (uint32 c) bits 0;
               let (_, q, db) = query_next q db;
               shm_rows bits (Some q) db st
             }
           | _ \<Rightarrow> None)
        })"

definition shm_query :: "cache_tables sql \<Rightarrow> u8 \<Rightarrow> cdb \<Rightarrow> 'h pk_state \<Rightarrow> (bool \<times> cdb \<times> 'h pk_state) option" where
  "shm_query s bits db st = do {
     (_, qry, db) \<leftarrow> query True db s [] [];
     (qry, db, st) \<leftarrow> shm_rows bits qry db st;
     let db = query_free qry db;
     Some (query_ok db, db, st)
   }"

text \<open>\<open>segment\<close> says whether the segment could be created and mapped, and with which error otherwise.\<close>

definition shm_init :: "pk_err \<Rightarrow> cdb \<Rightarrow> 'h pk_state \<Rightarrow> (pk_err \<times> cdb \<times> 'h pk_state) option" where
  "shm_init segment db st =
     (if segment \<noteq> PK_SUCCESS then Some (segment, db, st\<lparr>shm_base := None\<rparr>)
      else do {
        let st = st\<lparr>shm_base := Some (replicate (p_chunks (parcel st)) 0)\<rparr>;
        (r, db, st) \<leftarrow> transact PK_IOERR (\<lambda>db st. do {
          (ok, db, st) \<leftarrow> shm_query sel_chunks SHM_PRESENT db st;
          if \<not> ok then Some (Inl PK_SQLERR, db, st)
          else do {
            (ok, db, st) \<leftarrow> shm_query sel_modified SHM_DIRTY db st;
            if \<not> ok then Some (Inl PK_SQLERR, db, st)
            else do { (_, db) \<leftarrow> rollback db; Some (Inr (), db, st) }
          }
        }) db st;
        Some (case r of Inl e \<Rightarrow> (e, db, st\<lparr>shm_base := None\<rparr>) | Inr _ \<Rightarrow> (PK_SUCCESS, db, st))
      })"

text \<open>Attaching the index file, or \<^verbatim>\<open>:memory:\<close>, as \<^verbatim>\<open>cache\<close>.  A file that does not exist is an empty database.\<close>

definition attach_cache :: "(int \<times> (int \<times> int) list option) option \<Rightarrow> cdb \<Rightarrow> (bool \<times> cdb) option" where
  "attach_cache ix = (case (case ix of None \<Rightarrow> (0, None) | Some x \<Rightarrow> x) of (v, cs) \<Rightarrow>
     attach (SQL_stmt (\<lambda>_ t. Inr (t\<lparr>t_version := v, t_chunks := cs\<rparr>, [])))
       (SQL_stmt (\<lambda>_ t. Inr (t\<lparr>t_version := 0, t_chunks := None\<rparr>, []))))"

definition open_cachedir :: "nat option list option \<Rightarrow> cdb \<Rightarrow> 'h pk_state \<Rightarrow> (pk_err \<times> cdb \<times> 'h pk_state) option" where
  "open_cachedir newfile db st =
     (let have_image = (cache_file st \<noteq> None); have_index = (cache_index st \<noteq> None);
          locked = (conf_flags st AND WANT_LOCK \<noteq> 0) in
      if have_image \<and> have_index then do {
        (ok, db) \<leftarrow> attach_cache (cache_index st) db;
        if \<not> ok then Some (PK_IOERR, db, st)
        else case open_cache_file st of (ret, st) \<Rightarrow>
          if ret \<noteq> PK_SUCCESS then Some (ret, db, st)
          else do { (ret, db) \<leftarrow> verify_cache_index db; Some (ret, db, st) }
      }
      else if locked \<and> (have_image \<noteq> have_index) then Some (PK_IOERR, db, st)
      else do {
        (ret, db, st) \<leftarrow>
          (if locked then do {
             (ok, db) \<leftarrow> attach_cache (cache_index st) db;
             if \<not> ok then Some (PK_IOERR, db, st)
             else case create_cache_file newfile st of (ret, st) \<Rightarrow> Some (ret, db, st)
           }
           else do {
             (ok, db) \<leftarrow> attach_cache None db;
             Some (if ok then PK_SUCCESS else PK_IOERR, db, st)
           });
        if ret \<noteq> PK_SUCCESS then Some (ret, db, st)
        else do { (ret, db) \<leftarrow> create_cache_index db; Some (ret, db, st) }
      })"

text \<open>
  \<open>opened\<close> is what \<^verbatim>\<open>sqlite3_open\<close> gives for the keyring, or for \<^verbatim>\<open>:memory:\<close>; \<open>prev\<close> is the previous keyring.
\<close>

definition cache_init :: "cache_tables sqlite3 option \<Rightarrow> keys_table \<Rightarrow> nat option list option \<Rightarrow> pk_err \<Rightarrow> 'h pk_state
    \<Rightarrow> (pk_err \<times> cdb option \<times> 'h pk_state) option" where
  "cache_init opened prev newfile segment st = do {
     conn \<leftarrow> sql_conn_open opened;
     (case conn of
        None \<Rightarrow> Some (PK_IOERR, None, st)
      | Some db \<Rightarrow> do {
          (ret, db, st) \<leftarrow> (if conf_flags st AND WANT_CACHE \<noteq> 0 then open_cachedir newfile db st else Some (PK_SUCCESS, db, st));
          if ret \<noteq> PK_SUCCESS then Some (ret, None, st\<lparr>cache_fd := False\<rparr>)
          else do {
            (ok, db) \<leftarrow> (if conf_flags st AND WANT_PREV \<noteq> 0 then
                attach (SQL_stmt (\<lambda>_ t. Inr (t\<lparr>t_prev := Some prev\<rparr>, []))) (SQL_stmt (\<lambda>_ t. Inr (t\<lparr>t_prev := None\<rparr>, []))) db
              else Some (True, db));
            if \<not> ok then Some (PK_IOERR, None, st\<lparr>cache_fd := False\<rparr>)
            else if conf_flags st AND WANT_SHM \<noteq> 0 then do {
              (_, db, st) \<leftarrow> shm_init segment db st;
              Some (PK_SUCCESS, Some db, st)
            }
            else Some (PK_SUCCESS, Some db, st)
          }
        })
   }"

end
