(* ===== verification/Isr_Cache_Correct.thy ===== *)
theory Isr_Cache_Correct
  imports Isr_Cache
begin

text \<open>
  What the operations of the local cache do: transactions are atomic and release the database, \<open>cache_update\<close> followed by
  \<open>cache_get\<close> gives the chunk back and touches no other chunk, and the header of the cache file keeps its contents.
\<close>

section \<open>Writing into one slot of a file\<close>

definition frame :: "bytes \<Rightarrow> nat \<Rightarrow> nat \<Rightarrow> bytes \<Rightarrow> bool" where
  "frame d off n d' \<longleftrightarrow> length d \<le> length d' \<and> (\<forall>i < length d. i < off \<or> off + n \<le> i \<longrightarrow> d' ! i = d ! i)"

lemma frame_refl [simp]: "frame d off n d"
  by (simp add: frame_def)

lemma frame_trans: "frame d off n d' \<Longrightarrow> frame d' off n d'' \<Longrightarrow> frame d off n d''"
  by (auto simp: frame_def)

lemma frame_data_write:
  assumes "length b \<le> n"
  shows "frame d off n (data_write d off b)"
proof (cases "b = []")
  case False
  have "off + length b \<le> length (d @ replicate (off + length b - length d) 0)"
    by simp
  from nth_blit [OF this] assms False show ?thesis
    by (auto simp: frame_def data_write_def nth_append)
qed (simp add: data_write_def)

lemma frame_slot:
  assumes "frame d off n d'" "off' + m \<le> off \<or> off + n \<le> off'" "off' + m \<le> length d"
  shows "take m (drop off' d') = take m (drop off' d)"
proof (rule nth_equalityI)
  fix i
  assume "i < length (take m (drop off' d'))"
  then have "i < m" by simp
  then show "take m (drop off' d') ! i = take m (drop off' d) ! i"
    using assms by (auto simp: frame_def)
qed (use assms in \<open>auto simp: frame_def\<close>)

section \<open>The transaction of an update\<close>

definition upd_tables :: "cache_tables \<Rightarrow> int \<Rightarrow> int \<Rightarrow> bytes \<Rightarrow> bytes \<Rightarrow> int \<Rightarrow> cache_tables" where
  "upd_tables t c l tag key z = t\<lparr>
     t_chunks := map_option (\<lambda>cs. (c, l) # filter (\<lambda>(c', _). c' \<noteq> c) cs) (t_chunks t),
     t_keys := map (\<lambda>(c', r). if c' = c then (c, tag, key, z) else (c', r)) (t_keys t)\<rparr>"

abbreviation ins_eff :: "int \<Rightarrow> int \<Rightarrow> cache_tables \<Rightarrow> stmt_error + (cache_tables \<times> sqlrow list)" where
  "ins_eff c l \<equiv> on_chunks (\<lambda>cs. ((c, l) # filter (\<lambda>(c', _). c' \<noteq> c) cs, [[SQL_int 1]]))"

text \<open>States that an attempt to write the slot of \<open>chunk\<close> can leave behind.\<close>

definition slot_written :: "'h pk_state \<Rightarrow> nat \<Rightarrow> 'h pk_state \<Rightarrow> bool" where
  "slot_written st0 chunk st \<longleftrightarrow> (\<exists>f0 f. cache_file st0 = Some f0 \<and> st = st0\<lparr>cache_file := Some f\<rparr>
     \<and> frame (f_data f0) (cache_chunk_to_offset st0 chunk) (p_chunksize (parcel st0)) (f_data f)
     \<and> (f_faults f0 = [] \<longrightarrow> f_faults f = []))"

lemma slot_written_refl: "cache_file st = Some f \<Longrightarrow> slot_written st chunk st"
  unfolding slot_written_def by (intro exI [of _ f]) (cases st, simp)

definition slot_holds :: "'h pk_state \<Rightarrow> nat \<Rightarrow> bytes \<Rightarrow> bool" where
  "slot_holds st chunk e \<longleftrightarrow> (\<exists>f. cache_file st = Some f
     \<and> take (length e) (drop (cache_chunk_to_offset st chunk) (f_data f)) = e)"

lemma ins_chunk_txn:
  assumes "txn_open t0 0 db" "c < 2 ^ 31" "l < 2 ^ 31"
  obtains ok db' where "query_do db ins_chunk ''dd'' [SQL_int (int c), SQL_int (int l)] = Some (ok, db')"
    "stmt_done t0 0 (ins_eff (int c) (int l) (tabs (db_conn db))) db ok db' [[SQL_int 1]]"
proof -
  have ps: "param_set_group 0 ''dd'' [SQL_int (int c), SQL_int (int l)] [] = Some (Some [(2, SQL_int (int l)), (1, SQL_int (int c))])"
    using assms by (simp add: param_arg_def param_put_def)
  obtain ok db' rows where q: "query_do db ins_chunk ''dd'' [SQL_int (int c), SQL_int (int l)] = Some (ok, db')"
    "stmt_done t0 0 (ins_eff (int c) (int l) (tabs (db_conn db))) db ok db' rows"
    using query_do_txn [OF assms(1) ps, of "\<lambda>p t. case (p 1, p 2) of
       (SQL_int c, SQL_int l) \<Rightarrow> ins_eff c l t | _ \<Rightarrow> Inl Stmt_error"] by (auto simp: ins_chunk_def)
  moreover have "stmt_done t0 0 (ins_eff (int c) (int l) (tabs (db_conn db))) db ok db' [[SQL_int 1]]"
    using q(2) by (auto simp: stmt_done_def on_chunks_def split: if_splits option.splits)
  ultimately show thesis
    using that by blast
qed

lemma upd_key_txn:
  assumes "txn_open t0 0 db" "c < 2 ^ 31" "- (2 ^ 31) \<le> z" "z < 2 ^ 31"
  obtains ok db' rows where "query_do db upd_key ''bbdd'' [SQL_blob tag, SQL_blob key, SQL_int z, SQL_int (int c)] = Some (ok, db')"
    "stmt_done t0 0 (Inr ((tabs (db_conn db))\<lparr>t_keys := map (\<lambda>(c', r). if c' = int c then (int c, tag, key, z) else (c', r)) (t_keys (tabs (db_conn db)))\<rparr>, rows)) db ok db' rows"
proof -
  have ps: "param_set_group 0 ''bbdd'' [SQL_blob tag, SQL_blob key, SQL_int z, SQL_int (int c)] [] =
      Some (Some [(4, SQL_int (int c)), (3, SQL_int z), (2, SQL_blob key), (1, SQL_blob tag)])"
    using assms by (simp add: param_arg_def param_put_def)
  let ?f = "\<lambda>p t. case (p 1, p 2, p 3, p 4) of
     (SQL_blob tag, SQL_blob key, SQL_int z, SQL_int c) \<Rightarrow>
       Inr (t\<lparr>t_keys := map (\<lambda>(c', r). if c' = c then (c, tag, key, z) else (c', r)) (t_keys t)\<rparr>,
         [[SQL_int (int (length (filter (\<lambda>(c', _). c' = c) (t_keys t))))]])
   | _ \<Rightarrow> Inl Stmt_error"
  let ?n = "[[SQL_int (int (length (filter (\<lambda>(c', _). c' = int c) (t_keys (tabs (db_conn db))))))]]"
  obtain ok db' rows where q: "query_do db (SQL_stmt ?f) ''bbdd'' [SQL_blob tag, SQL_blob key, SQL_int z, SQL_int (int c)] = Some (ok, db')"
    "stmt_done t0 0 (?f (bind_all (\<lambda>_. SQL_null) [(4, SQL_int (int c)), (3, SQL_int z), (2, SQL_blob key), (1, SQL_blob tag)])
      (tabs (db_conn db))) db ok db' rows"
    by (rule query_do_txn [OF assms(1) ps])
  show thesis
  proof (rule that)
    show "query_do db upd_key ''bbdd'' [SQL_blob tag, SQL_blob key, SQL_int z, SQL_int (int c)] = Some (ok, db')"
      using q(1) by (simp add: upd_key_def)
    show "stmt_done t0 0 (Inr ((tabs (db_conn db))\<lparr>t_keys := map (\<lambda>(c', r). if c' = int c then (int c, tag, key, z) else (c', r)) (t_keys (tabs (db_conn db)))\<rparr>, ?n)) db ok db' ?n"
      using q(2) by (auto simp: stmt_done_def)
  qed
qed

lemma upd_file_pwrite:
  assumes "cache_file st = Some f"
  obtains n f' l where "upd_file (\<lambda>st. pwrite b (off st)) st = Some (n, st\<lparr>cache_file := Some f'\<rparr>)"
    "f_data f' = data_write (f_data f) (off st) (transfer l b)" "n = length (transfer l b)"
    "f_faults f = [] \<Longrightarrow> n = length b \<and> f_faults f' = []"
proof -
  obtain n f' where p: "pwrite b (off st) f = (n, f')"
    by fastforce
  obtain l where "f_data f' = data_write (f_data f) (off st) (transfer l b)" "n = length (transfer l b)"
    using p by (rule pwrite_data)
  moreover have "f_faults f = [] \<Longrightarrow> n = length b \<and> f_faults f' = []"
    using p by (auto simp: pwrite_quiet)
  moreover have "upd_file (\<lambda>st. pwrite b (off st)) st = Some (n, st\<lparr>cache_file := Some f'\<rparr>)"
    using assms p by (simp add: upd_file_def)
  ultimately show thesis
    using that by blast
qed

text \<open>A writing transaction has no reason of its own to fail.\<close>

definition writable :: "cache_tables \<Rightarrow> 'h pk_state \<Rightarrow> bool" where
  "writable t st \<longleftrightarrow> t_chunks t \<noteq> None \<and> (\<exists>f. cache_file st = Some f \<and> f_faults f = [])"

lemma cache_write_chunk_txn:
  assumes o: "txn_open t0 0 db" "tabs (db_conn db) = t0" "db_result db = SQLITE_OK" and w: "slot_written st0 chunk st"
    and len: "length e \<le> p_chunksize (parcel st0)" "p_chunksize (parcel st0) < 2 ^ 31" "chunk < 2 ^ 31"
  obtains ret db' st' where "cache_write_chunk db st chunk e = Some (ret, db', st')" "slot_written st0 chunk st'"
    "ret = PK_SUCCESS \<Longrightarrow> later db db' \<and> txn_open t0 0 db' \<and> slot_holds st' chunk e
      \<and> ins_eff (int chunk) (int (length e)) t0 = Inr (tabs (db_conn db'), [[SQL_int 1]])"
    "ret \<noteq> PK_SUCCESS \<Longrightarrow> aborted t0 (writable t0 st0) db db'"
proof -
  let ?n = "p_chunksize (parcel st0)" and ?off = "cache_chunk_to_offset st0 chunk"
  let ?b = "e @ replicate (?n - length e) 0"
  obtain f0 f where f: "cache_file st0 = Some f0" "st = st0\<lparr>cache_file := Some f\<rparr>"
    "frame (f_data f0) ?off ?n (f_data f)" "f_faults f0 = [] \<longrightarrow> f_faults f = []"
    using w by (auto simp: slot_written_def)
  have off: "cache_chunk_to_offset (st0\<lparr>cache_file := x\<rparr>) chunk = ?off" for x
    by (simp add: cache_chunk_to_offset_def)
  have lb: "length ?b = ?n" using len by simp
  obtain n f' l where u: "upd_file (\<lambda>st. pwrite ?b (cache_chunk_to_offset st chunk)) st = Some (n, st\<lparr>cache_file := Some f'\<rparr>)"
    "f_data f' = data_write (f_data f) ?off (transfer l ?b)" "n = length (transfer l ?b)"
    "f_faults f = [] \<Longrightarrow> n = length ?b \<and> f_faults f' = []"
    by (rule upd_file_pwrite [of st f ?b "\<lambda>st. cache_chunk_to_offset st chunk"]) (auto simp: f(2) off)
  let ?st' = "st0\<lparr>cache_file := Some f'\<rparr>"
  have "length (transfer l ?b) \<le> ?n"
    using length_transfer [of l ?b] lb by simp
  then have sw: "slot_written st0 chunk ?st'"
    using f u(2,4) frame_data_write frame_trans by (fastforce simp: slot_written_def)
  show thesis
  proof (cases "n = ?n")
    case False
    have "cache_write_chunk db st chunk e = Some (PK_IOERR, db, ?st')"
      using u(1) len f(2) False by (simp add: cache_write_chunk_def Let_def)
    moreover have "aborted t0 (writable t0 st0) db db"
      using o False f u(4) lb by (intro aborted_stay) (auto simp: query_busy_def writable_def)
    ultimately show thesis
      using that sw by simp
  next
    case True
    then have "transfer l ?b = ?b"
      using transfer_full [of l ?b] u(3) lb by simp
    then have "take ?n (drop ?off (f_data f')) = ?b"
      using data_write_same [of ?b ?off "f_data f"] lb u(2) by simp
    then have "take (length e) (drop ?off (f_data f')) = e"
      using len(1) by (metis append_eq_conv_conj take_take min.absorb1)
    then have sh: "slot_holds ?st' chunk e"
      by (simp add: slot_holds_def off)
    obtain ok db' where q: "query_do db ins_chunk ''dd'' [SQL_int (int chunk), SQL_int (int (length e))] = Some (ok, db')"
      "stmt_done t0 0 (ins_eff (int chunk) (int (length e)) t0) db ok db' [[SQL_int 1]]"
      using ins_chunk_txn [OF o(1) len(3), of "length e"] len o(2) by auto
    have c: "cache_write_chunk db st chunk e = Some (if ok then PK_SUCCESS else PK_IOERR, db', ?st')"
      using u(1) len f(2) True q(1) by (simp add: cache_write_chunk_def Let_def)
    have g: "\<not> ok \<Longrightarrow> aborted t0 (writable t0 st0) db db'"
      using q(2) by (rule aborted_stmt) (auto simp: writable_def on_chunks_def)
    show thesis
      using that [OF c sw] sh g stmt_done_ok [OF q(2)] by (cases ok) auto
  qed
qed

text \<open>Inserting the same row a second time, as \<open>cache_update\<close> does after \<open>_cache_write_chunk\<close>, changes nothing.\<close>

lemma ins_eff_twice:
  "ins_eff c l t = Inr (t', r) \<Longrightarrow> ins_eff c l t' = Inr (t', r)"
  by (auto simp: on_chunks_def split: option.splits)

lemma upd_tables_eq:
  "ins_eff c l t = Inr (t', r) \<Longrightarrow>
   t'\<lparr>t_keys := map (\<lambda>(c', r). if c' = c then (c, tag, key, z) else (c', r)) (t_keys t')\<rparr> = upd_tables t c l tag key z"
  by (auto simp: on_chunks_def upd_tables_def split: option.splits)

definition update_fits :: "'h pk_state \<Rightarrow> nat \<Rightarrow> bytes \<Rightarrow> bytes \<Rightarrow> bytes \<Rightarrow> int \<Rightarrow> bool" where
  "update_fits st chunk e tag key z \<longleftrightarrow> length e \<le> p_chunksize (parcel st) \<and> p_chunksize (parcel st) < 2 ^ 31 \<and> chunk < 2 ^ 31
     \<and> - (2 ^ 31) \<le> z \<and> z < 2 ^ 31 \<and> length tag = p_hashlen (parcel st) \<and> length key = p_hashlen (parcel st)"

lemma cache_update_row_txn:
  assumes o: "txn_open t0 0 db" "tabs (db_conn db) = t0" "db_result db = SQLITE_OK" and w: "slot_written st0 chunk st"
    and fits: "update_fits st0 chunk e tag key z"
  shows "\<exists>r db' st'. cache_update_row chunk e tag key z db st = Some (r, db', st') \<and> later db db'
    \<and> (case r of
         Inr _ \<Rightarrow> idle db' \<and> (slot_written st0 chunk st' \<and> slot_holds st' chunk e
           \<and> t_chunks t0 \<noteq> None \<and> tabs (db_conn db') = upd_tables t0 (int chunk) (int (length e)) tag key z)
       | Inl x \<Rightarrow> slot_written st0 chunk st' \<and> x = PK_IOERR \<and> aborted t0 (writable t0 st0) db db')"
proof -
  have len: "length e \<le> p_chunksize (parcel st0)" "p_chunksize (parcel st0) < 2 ^ 31" "chunk < 2 ^ 31"
    and z: "- (2 ^ 31) \<le> z" "z < 2 ^ 31" and hl: "length tag = p_hashlen (parcel st0)" "length key = p_hashlen (parcel st0)"
    using fits by (simp_all add: update_fits_def)
  have fail: ?thesis if "cache_update_row chunk e tag key z db st = Some (Inl PK_IOERR, db', st')"
    "slot_written st0 chunk st'" "aborted t0 (writable t0 st0) db db'" for db' st'
    using that by (auto simp: aborted_def)
  obtain ret db1 st1 where c: "cache_write_chunk db st chunk e = Some (ret, db1, st1)" "slot_written st0 chunk st1"
    "ret = PK_SUCCESS \<Longrightarrow> later db db1 \<and> txn_open t0 0 db1 \<and> slot_holds st1 chunk e
      \<and> ins_eff (int chunk) (int (length e)) t0 = Inr (tabs (db_conn db1), [[SQL_int 1]])"
    "ret \<noteq> PK_SUCCESS \<Longrightarrow> aborted t0 (writable t0 st0) db db1"
    by (rule cache_write_chunk_txn [OF o w len]) blast
  have hl1: "p_hashlen (parcel st1) = p_hashlen (parcel st0)"
    using c(2) by (auto simp: slot_written_def)
  show ?thesis
  proof (cases "ret = PK_SUCCESS")
    case False
    with c show ?thesis
      by (intro fail) (simp_all add: cache_update_row_def)
  next
    case True
    with c(3) have o1: "later db db1" "txn_open t0 0 db1" "slot_holds st1 chunk e"
      "ins_eff (int chunk) (int (length e)) t0 = Inr (tabs (db_conn db1), [[SQL_int 1]])" by simp_all
    obtain ok2 db2 where q2: "query_do db1 ins_chunk ''dd'' [SQL_int (int chunk), SQL_int (int (length e))] = Some (ok2, db2)"
      "stmt_done t0 0 (Inr (tabs (db_conn db1), [[SQL_int 1]])) db1 ok2 db2 [[SQL_int 1]]"
      using ins_chunk_txn [OF o1(2) len(3), of "length e"] len ins_eff_twice [OF o1(4)] by auto
    show ?thesis
    proof (cases ok2)
      case False
      have "aborted t0 (writable t0 st0) db db2"
        using aborted_later [OF o1(1) aborted_stmt [OF q2(2) False]] by simp
      with c True q2(1) False show ?thesis
        by (intro fail [of db2 st1]) (simp_all add: cache_update_row_def)
    next
      case ok2: True
      have o2: "txn_open t0 0 db2" "tabs (db_conn db2) = tabs (db_conn db1)" "later db db2"
        using q2(2) ok2 later_trans [OF o1(1)] by (auto elim!: stmt_done_ok)
      obtain ok3 db3 rows where q3: "query_do db2 upd_key ''bbdd'' [SQL_blob tag, SQL_blob key, SQL_int z, SQL_int (int chunk)] = Some (ok3, db3)"
        "stmt_done t0 0 (Inr (upd_tables t0 (int chunk) (int (length e)) tag key z, rows)) db2 ok3 db3 rows"
        by (rule upd_key_txn [OF o2(1) len(3) z, of tag key, unfolded o2(2) upd_tables_eq [OF o1(4), of tag key z]])
      show ?thesis
      proof (cases ok3)
        case False
        have "aborted t0 (writable t0 st0) db db3"
          using aborted_later [OF o2(3) aborted_stmt [OF q3(2) False]] by simp
        with c True q2(1) ok2 q3(1) False hl hl1 show ?thesis
          by (intro fail [of db3 st1]) (simp_all add: cache_update_row_def)
      next
        case ok3: True
        have o3: "txn_open t0 0 db3" "tabs (db_conn db3) = upd_tables t0 (int chunk) (int (length e)) tag key z" "later db db3"
          using q3(2) ok3 later_trans [OF o2(3)] by (auto elim!: stmt_done_ok)
        obtain ok4 db4 where q4: "commit db3 = Some (ok4, db4)" "later db3 db4"
          "ok4 \<Longrightarrow> idle db4 \<and> tabs (db_conn db4) = tabs (db_conn db3)" "\<not> ok4 \<Longrightarrow> aborted t0 (writable t0 st0) db3 db4"
          by (rule commit_txn [OF o3(1)]) blast
        have eq: "cache_update_row chunk e tag key z db st = Some (if ok4 then Inr () else Inl PK_IOERR, db4, st1)"
          using c(1) True q2(1) ok2 q3(1) ok3 q4(1) hl hl1 by (simp add: cache_update_row_def)
        show ?thesis
        proof (cases ok4)
          case False
          with eq c(2) q4(4) aborted_later [OF o3(3)] show ?thesis
            by (intro fail [of db4 st1]) simp_all
        next
          case True
          have "t_chunks t0 \<noteq> None"
            using o1(4) by (auto simp: on_chunks_def split: option.splits)
          with True eq c(2) o1(3) o3(2) q4 later_trans [OF o3(3)] show ?thesis
            by (intro exI [of _ "Inr ()"] exI [of _ db4] exI [of _ st1]) simp
        qed
      qed
    qed
  qed
qed

section \<open>Updating a chunk\<close>

interpretation upd: txn_body "cache_update_row chunk e tag key z" t0
  "\<lambda>st. update_fits st0 chunk e tag key z \<and> slot_written st0 chunk st" "\<lambda>x. x = PK_IOERR" "writable t0 st0"
  "\<lambda>_ t st. slot_written st0 chunk st \<and> slot_holds st chunk e \<and> t_chunks t0 \<noteq> None
     \<and> t = upd_tables t0 (int chunk) (int (length e)) tag key z"
  for chunk e tag key z t0 and st0 :: "'h pk_state"
proof
  fix db w
  assume a: "txn_open t0 0 db" "tabs (db_conn db) = t0" "db_result db = SQLITE_OK"
    "update_fits st0 chunk e tag key z \<and> slot_written st0 chunk w"
  then have u: "update_fits st0 chunk e tag key z" and w: "slot_written st0 chunk w"
    by simp_all
  show "\<exists>r db' w'. cache_update_row chunk e tag key z db w = Some (r, db', w') \<and> later db db' \<and>
      (case r of
         Inl x \<Rightarrow> (update_fits st0 chunk e tag key z \<and> slot_written st0 chunk w') \<and> x = PK_IOERR \<and> aborted t0 (writable t0 st0) db db'
       | Inr _ \<Rightarrow> idle db' \<and> slot_written st0 chunk w' \<and> slot_holds w' chunk e \<and> t_chunks t0 \<noteq> None
           \<and> tabs (db_conn db') = upd_tables t0 (int chunk) (int (length e)) tag key z)"
    using cache_update_row_txn [OF a(1-3) w u] by (simp only: u simp_thms)
qed

text \<open>The parcels that the theorems are about: the suite \<^verbatim>\<open>aes-sha1\<close>, chunks of whole cipher blocks.\<close>

definition parcel_ok :: "pk_parcel \<Rightarrow> bool" where
  "parcel_ok p \<longleftrightarrow> p_crypto p = IU_CHUNK_CRY_AES_SHA1 \<and> p_hashlen p = 20 \<and> 0 < p_chunksize p \<and> 16 dvd p_chunksize p
     \<and> p_chunksize p < 2 ^ 31 \<and> p_chunks p < 2 ^ 31 \<and> iu_chunk_compress_is_enabled (p_required_compress p) IU_CHUNK_COMP_NONE"

text \<open>The state of a parcelkeeper whose cache is open.\<close>

definition pk_ok :: "'h pk_state \<Rightarrow> bool" where
  "pk_ok st \<longleftrightarrow> parcel_ok (parcel st) \<and> cache_file st \<noteq> None
     \<and> (conf_compress st = IU_CHUNK_COMP_NONE
        \<or> conf_compress st = IU_CHUNK_COMP_LZF \<and> iu_chunk_compress_is_enabled (p_required_compress (parcel st)) IU_CHUNK_COMP_LZF)
     \<and> (\<forall>base. shm_base st = Some base \<longrightarrow> length base = p_chunks (parcel st))"

lemma shm_update_ok:
  assumes "pk_ok st" "chunk < p_chunks (parcel st)"
  obtains base where "shm_update st chunk x y = Some (st\<lparr>shm_base := base\<rparr>)" "pk_ok (st\<lparr>shm_base := base\<rparr>)"
proof (cases "shm_base st")
  case None
  with assms that [of None] show thesis
    by (simp add: shm_update_def pk_ok_def)
next
  case (Some b)
  with assms that [of "Some (b[chunk := (b ! chunk OR x) AND NOT y])"] show thesis
    by (simp add: shm_update_def pk_ok_def)
qed

lemma chunk_compress_type:
  "chunk_compress b compress inp k = Some (Some (x, c')) \<Longrightarrow> c' = compress \<or> c' = IU_CHUNK_COMP_NONE"
  by (auto simp: chunk_compress_def bind_eq_Some_conv split: if_splits option.splits prod.splits)

lemma iu_chunk_encode_type:
  assumes "iu_chunk_encode b crypto inp out compress = Some (Some (out', n, tag, key, c'))"
  shows "c' = compress \<or> c' = IU_CHUNK_COMP_NONE"
proof -
  obtain cipher mode padding hash keylen where a: "crypto_get_algs crypto = Some (cipher, mode, padding, hash, keylen)"
    using assms by (auto simp: iu_chunk_encode_def split: option.splits)
  obtain x c1 where c: "chunk_compress b compress inp (isrcry_cipher_block cipher) = Some (Some (x, c1))"
    using assms a by (auto simp: iu_chunk_encode_def split: option.splits)
  have "c' = c1"
    using assms by (auto simp: iu_chunk_encode_def a c bind_eq_Some_conv Let_def split_beta split: option.splits if_splits)
  with chunk_compress_type [OF c] show ?thesis by blast
qed

text \<open>
  \<open>chunk\<close> has the contents \<open>buf\<close>: the keyring has its key, and data \<open>e\<close> that decodes to \<open>buf\<close> is in its slot, with its
  length in the index, or, for a chunk that is not in the local cache, is the data \<open>g chunk tag\<close> that the hoard cache and the server
  have under its tag.
\<close>

definition indexed :: "cache_tables \<Rightarrow> nat \<Rightarrow> int option" where
  "indexed t chunk = Option.bind (t_chunks t) (\<lambda>cs. map_of cs (int chunk))"

definition located :: "(nat \<Rightarrow> bytes \<Rightarrow> bytes option) \<Rightarrow> cache_tables \<Rightarrow> 'h pk_state \<Rightarrow> nat \<Rightarrow> bytes \<Rightarrow> bytes \<Rightarrow> bool" where
  "located g t st chunk tag e \<longleftrightarrow> (case indexed t chunk of
     Some l \<Rightarrow> l = int (length e) \<and> slot_holds st chunk e
   | None \<Rightarrow> g chunk tag = Some e)"

definition cached_as :: "('z, 's, 'm) backends \<Rightarrow> (nat \<Rightarrow> bytes \<Rightarrow> bytes option) \<Rightarrow> cache_tables \<Rightarrow> 'h pk_state \<Rightarrow> nat \<Rightarrow> bytes
    \<Rightarrow> bytes \<Rightarrow> bytes \<Rightarrow> int \<Rightarrow> bytes \<Rightarrow> bool" where
  "cached_as b g t st chunk buf tag key z e \<longleftrightarrow>
     map_of (t_keys t) (int chunk) = Some (tag, key, z) \<and> located g t st chunk tag e
     \<and> length tag = p_hashlen (parcel st) \<and> length key = p_hashlen (parcel st)
     \<and> z < 2 ^ 31 \<and> iu_chunk_compress_is_enabled (p_required_compress (parcel st)) z
     \<and> e \<noteq> [] \<and> length e \<le> p_chunksize (parcel st)
     \<and> (\<forall>dst. length dst = p_chunksize (parcel st) \<longrightarrow> iu_chunk_decode b (p_crypto (parcel st)) z e key dst = Some (Some buf))"

definition cached :: "('z, 's, 'm) backends \<Rightarrow> (nat \<Rightarrow> bytes \<Rightarrow> bytes option) \<Rightarrow> cache_tables \<Rightarrow> 'h pk_state \<Rightarrow> nat \<Rightarrow> bytes \<Rightarrow> bool" where
  "cached b g t st chunk buf \<longleftrightarrow> (\<exists>tag key z e. cached_as b g t st chunk buf tag key z e)"

text \<open>
  What the code relies on when it asks the hoard cache and the server: the hoard cache may fail, the server answers, and both
  give the data that belongs to the chunk and the tag.  Theory \<open>Isr_Server\<close> shows it of the code.
\<close>

definition serves :: "'h chunk_source \<Rightarrow> (nat \<Rightarrow> bytes \<Rightarrow> bytes option) \<Rightarrow> ('h \<Rightarrow> bool) \<Rightarrow> bool" where
  "serves src g good \<longleftrightarrow> (\<forall>h tag e chunk. good h \<longrightarrow> g chunk tag = Some e \<longrightarrow>
     (\<exists>ret e' h'. hoard_get_chunk src tag h = Some (ret, e', h') \<and> good h' \<and> (ret = PK_SUCCESS \<longrightarrow> e' = e))
     \<and> (\<exists>h'. transport_fetch_chunk src chunk tag h = Some (PK_SUCCESS, e, h') \<and> good h'))"

lemma map_of_update:
  "map_of (map (\<lambda>(c', r). if c' = c then (c, v) else (c', r)) xs) k =
   (if k = c then (if map_of xs c = None then None else Some v) else map_of xs k)"
  by (induction xs) auto

lemma map_of_replace: "map_of ((c, l) # filter (\<lambda>(c', _). c' \<noteq> c) cs) k = (if k = c then Some l else map_of cs k)"
  by (induction cs) auto

lemma slots_apart:
  assumes "c \<noteq> chunk" "m \<le> p_chunksize (parcel st)"
  shows "cache_chunk_to_offset st c + m \<le> cache_chunk_to_offset st chunk
    \<or> cache_chunk_to_offset st chunk + p_chunksize (parcel st) \<le> cache_chunk_to_offset st c"
proof (cases "c < chunk")
  case True
  have "p_chunksize (parcel st) * c + p_chunksize (parcel st) \<le> p_chunksize (parcel st) * chunk"
    using True by (metis Suc_leI mult_Suc_right add.commute mult_le_mono2)
  with assms(2) show ?thesis by (simp add: cache_chunk_to_offset_def)
next
  case False
  then have "p_chunksize (parcel st) * chunk + p_chunksize (parcel st) \<le> p_chunksize (parcel st) * c"
    using assms(1) by (metis Suc_leI linorder_neqE_nat mult_Suc_right add.commute mult_le_mono2)
  then show ?thesis by (simp add: cache_chunk_to_offset_def)
qed

lemma slot_holds_other:
  assumes "slot_written st0 chunk st" "c \<noteq> chunk" "slot_holds st0 c e" "length e \<le> p_chunksize (parcel st0)"
  shows "slot_holds st c e"
proof -
  obtain f0 f where f: "cache_file st0 = Some f0" "st = st0\<lparr>cache_file := Some f\<rparr>"
    "frame (f_data f0) (cache_chunk_to_offset st0 chunk) (p_chunksize (parcel st0)) (f_data f)"
    using assms(1) by (auto simp: slot_written_def)
  let ?off = "cache_chunk_to_offset st0 c"
  have off: "cache_chunk_to_offset st c = ?off"
    by (simp add: f(2) cache_chunk_to_offset_def)
  show ?thesis
  proof (cases "e = []")
    case False
    have t: "take (length e) (drop ?off (f_data f0)) = e"
      using assms(3) f(1) by (simp add: slot_holds_def)
    then have "length (take (length e) (drop ?off (f_data f0))) = length e"
      by (rule arg_cong)
    with False have "?off + length e \<le> length (f_data f0)"
      by (cases e) auto
    with frame_slot [OF f(3) slots_apart [OF assms(2,4)]] t show ?thesis
      by (simp add: slot_holds_def f(2) off [unfolded f(2)])
  qed (simp add: slot_holds_def f(2))
qed

lemma slot_written_same:
  "slot_written st0 chunk st \<Longrightarrow> parcel st = parcel st0 \<and> conf_compress st = conf_compress st0 \<and> shm_base st = shm_base st0
     \<and> remote st = remote st0 \<and> cache_file st \<noteq> None"
  by (auto simp: slot_written_def)

lemma cached_other_slot:
  assumes "slot_written st0 chunk st" "c \<noteq> chunk" "cached b g t st0 c x"
  shows "cached b g t st c x"
proof -
  obtain tag key z e where e: "cached_as b g t st0 c x tag key z e"
    using assms(3) by (auto simp: cached_def)
  then have "located g t st c tag e"
    using slot_holds_other [OF assms(1,2)] by (auto simp: cached_as_def located_def split: option.splits)
  with e slot_written_same [OF assms(1)] have "cached_as b g t st c x tag key z e"
    by (simp add: cached_as_def)
  then show ?thesis by (auto simp: cached_def)
qed

lemma cached_other_row:
  assumes "c \<noteq> chunk" "cached b g t st c x"
  shows "cached b g (upd_tables t (int chunk) l tag key z) st c x"
proof -
  have "indexed (upd_tables t (int chunk) l tag key z) c = indexed t c"
    using assms(1) by (cases "t_chunks t") (simp_all add: indexed_def upd_tables_def map_of_replace del: map_of.simps)
  moreover have "map_of (t_keys (upd_tables t (int chunk) l tag key z)) (int c) = map_of (t_keys t) (int c)"
    using assms(1) by (simp add: upd_tables_def map_of_update)
  ultimately show ?thesis
    using assms(2) by (simp add: cached_def cached_as_def located_def)
qed

lemma cached_written:
  assumes "slot_holds st chunk e" "e \<noteq> []" "length e \<le> p_chunksize (parcel st)" "t_chunks t \<noteq> None"
    and "map_of (t_keys t) (int chunk) \<noteq> None" "length tag = p_hashlen (parcel st)" "length key = p_hashlen (parcel st)"
    and "iu_chunk_compress_is_enabled (p_required_compress (parcel st)) z" "z < 2 ^ 31"
    and "\<And>dst. length dst = p_chunksize (parcel st) \<Longrightarrow> iu_chunk_decode b (p_crypto (parcel st)) z e key dst = Some (Some buf)"
  shows "cached b g (upd_tables t (int chunk) (int (length e)) tag key z) st chunk buf"
proof -
  have "indexed (upd_tables t (int chunk) (int (length e)) tag key z) chunk = Some (int (length e))"
    using assms(4) by (auto simp: indexed_def upd_tables_def)
  moreover have "map_of (t_keys (upd_tables t (int chunk) (int (length e)) tag key z)) (int chunk) = Some (tag, key, z)"
    using assms(5) by (simp add: upd_tables_def map_of_update)
  ultimately have "cached_as b g (upd_tables t (int chunk) (int (length e)) tag key z) st chunk buf tag key z e"
    using assms by (simp add: cached_as_def located_def)
  then show ?thesis
    unfolding cached_def by blast
qed

text \<open>Fields that do not matter for what is cached.\<close>

lemma cached_cong:
  assumes "parcel st' = parcel st" "cache_file st' = cache_file st" "cache_offset st' = cache_offset st"
  shows "cached b g t st' c v = cached b g t st c v"
proof -
  have "slot_holds st' = slot_holds st"
    using assms by (intro ext) (simp add: slot_holds_def cache_chunk_to_offset_def)
  then have "located g t st' = located g t st"
    by (simp only: located_def fun_eq_iff simp_thms)
  then show ?thesis
    using assms by (simp add: cached_def cached_as_def)
qed

lemma cached_stats_shm: "cached b g t (st\<lparr>stats := x, shm_base := y\<rparr>) c v = cached b g t st c v"
  by (rule cached_cong) simp_all

lemma chunk_encode_ok:
  assumes "pk_ok st" "length buf = p_chunksize (parcel st)"
  obtains out n tag key z where
    "iu_chunk_encode b (p_crypto (parcel st)) buf (replicate (p_chunksize (parcel st)) 0) (conf_compress st) = Some (Some (out, n, tag, key, z))"
    "0 < n" "n \<le> length out" "length out = p_chunksize (parcel st)" "length tag = p_hashlen (parcel st)" "length key = p_hashlen (parcel st)"
    "iu_chunk_compress_is_enabled (p_required_compress (parcel st)) z" "0 < z" "z < 2 ^ 31"
    "\<And>dst. length dst = p_chunksize (parcel st) \<Longrightarrow> iu_chunk_decode b' (p_crypto (parcel st)) z (take n out) key dst = Some (Some buf)"
proof -
  let ?out = "replicate (p_chunksize (parcel st)) 0"
  have p: "p_crypto (parcel st) = IU_CHUNK_CRY_AES_SHA1" "p_hashlen (parcel st) = 20" "16 dvd length buf" "buf \<noteq> []"
    "length buf < 2 ^ 31" "length buf \<le> length ?out" "length ?out = p_chunksize (parcel st)"
    "iu_chunk_compress_is_enabled (p_required_compress (parcel st)) IU_CHUNK_COMP_NONE"
    using assms by (auto simp: pk_ok_def parcel_ok_def)
  obtain r where r: "iu_chunk_encode b IU_CHUNK_CRY_AES_SHA1 buf ?out (conf_compress st) = Some (Some r)" "chunk_sealed b' buf ?out r"
    using chunk_round_trip_none [OF p(3,4,6), of b b'] chunk_round_trip_lzf [OF p(3-6), of b b'] assms(1)
    by (auto simp: pk_ok_def)
  obtain out n tag key z where rr: "r = (out, n, tag, key, z)"
    by (metis prod_cases5)
  have "z = conf_compress st \<or> z = IU_CHUNK_COMP_NONE"
    using iu_chunk_encode_type [of b IU_CHUNK_CRY_AES_SHA1 buf ?out "conf_compress st" out n tag key z] r(1) rr by simp
  then have "iu_chunk_compress_is_enabled (p_required_compress (parcel st)) z" "0 < z" "z < 2 ^ 31"
    using assms(1) p(8) by (auto simp: pk_ok_def)
  then show thesis
    using that [of out n tag key z] r rr p assms(2) by (simp add: chunk_sealed_def)
qed

lemma cache_update_run:
  assumes ok: "pk_ok st" "idle db" "only_soft db" "chunk < p_chunks (parcel st)" "length buf = p_chunksize (parcel st)"
  obtains ret db' st' where "cache_update b db st chunk buf = Some (ret, db', st')" "later db db'" "idle db'" "pk_ok st'"
    "parcel st' = parcel st" "remote st' = remote st"
    "ret = PK_SUCCESS \<Longrightarrow> (\<exists>l tag key z. tabs (db_conn db') = upd_tables (tabs (db_conn db)) (int chunk) l tag key z)"
    "ret = PK_SUCCESS \<Longrightarrow> map_of (t_keys (tabs (db_conn db))) (int chunk) \<noteq> None \<Longrightarrow> cached b' g (tabs (db_conn db')) st' chunk buf"
    "ret \<noteq> PK_SUCCESS \<Longrightarrow> ret = PK_IOERR \<and> tabs (db_conn db') = tabs (db_conn db) \<and> \<not> (writable (tabs (db_conn db)) st \<and> only_contention db)"
    "\<And>c x. c \<noteq> chunk \<Longrightarrow> cached b' g (tabs (db_conn db)) st c x \<Longrightarrow> cached b' g (tabs (db_conn db')) st' c x"
    "writable (tabs (db_conn db)) st \<Longrightarrow> \<exists>f. cache_file st' = Some f \<and> f_faults f = []"
    "ret = PK_SUCCESS \<Longrightarrow> \<exists>out n tag key z.
      iu_chunk_encode b (p_crypto (parcel st)) buf (replicate (p_chunksize (parcel st)) 0) (conf_compress st) = Some (Some (out, n, tag, key, z))
      \<and> tabs (db_conn db') = upd_tables (tabs (db_conn db)) (int chunk) (int n) tag key z \<and> slot_holds st' chunk (take n out)"
proof -
  obtain out n tag key z where e:
    "iu_chunk_encode b (p_crypto (parcel st)) buf (replicate (p_chunksize (parcel st)) 0) (conf_compress st) = Some (Some (out, n, tag, key, z))"
    "0 < n" "n \<le> length out" "length out = p_chunksize (parcel st)" "length tag = p_hashlen (parcel st)" "length key = p_hashlen (parcel st)"
    "iu_chunk_compress_is_enabled (p_required_compress (parcel st)) z" "0 < z" "z < 2 ^ 31"
    "\<And>dst. length dst = p_chunksize (parcel st) \<Longrightarrow> iu_chunk_decode b' (p_crypto (parcel st)) z (take n out) key dst = Some (Some buf)"
    using chunk_encode_ok [OF ok(1,5), of b b'] by blast
  let ?e = "take n out" and ?t0 = "tabs (db_conn db)"
  have le: "length ?e = n" "?e \<noteq> []" "length ?e \<le> p_chunksize (parcel st)"
    using e(2-4) by auto
  have fits: "update_fits st chunk ?e tag key z" "slot_written st chunk st"
    using ok e(3-9) slot_written_refl by (auto simp: update_fits_def pk_ok_def parcel_ok_def)
  obtain r db1 st1 where t: "transact PK_IOERR (cache_update_row chunk ?e tag key z) db st = Some (r, db1, st1)" "later db db1" "idle db1"
    "case r of Inr _ \<Rightarrow> slot_written st chunk st1 \<and> slot_holds st1 chunk ?e \<and> t_chunks ?t0 \<noteq> None
        \<and> tabs (db_conn db1) = upd_tables ?t0 (int chunk) (int (length ?e)) tag key z
      | Inl x \<Rightarrow> (update_fits st chunk ?e tag key z \<and> slot_written st chunk st1) \<and> (x = PK_IOERR \<or> x = PK_IOERR)
        \<and> tabs (db_conn db1) = ?t0 \<and> \<not> (writable ?t0 st \<and> only_contention db)"
    using upd.transact_total [OF ok(2) refl conjI [OF fits] ok(3), of PK_IOERR] by blast
  have sw: "slot_written st chunk st1"
    using t(4) by (auto split: sum.splits)
  note same = slot_written_same [OF sw]
  have ok1: "pk_ok st1"
    using ok(1) same by (simp add: pk_ok_def)
  have q: "\<exists>f. cache_file st1 = Some f \<and> f_faults f = []" if "writable ?t0 st"
    using sw that by (auto simp: slot_written_def writable_def)
  show thesis
  proof (cases r)
    case (Inl x)
    with t(4) have "x = PK_IOERR" "tabs (db_conn db1) = ?t0" "\<not> (writable ?t0 st \<and> only_contention db)"
      by simp_all
    moreover have "cache_update b db st chunk buf = Some (PK_IOERR, db1, st1)"
      using e(1) t(1) Inl calculation(1) by (simp add: cache_update_def)
    moreover have "cached b' g ?t0 st1 c x" if "c \<noteq> chunk" "cached b' g ?t0 st c x" for c x
      using cached_other_slot [OF sw that] .
    ultimately show thesis
      using that [of PK_IOERR db1 st1] t(2,3) ok1 same q by auto
  next
    case (Inr u)
    with t(4) have tb: "tabs (db_conn db1) = upd_tables ?t0 (int chunk) (int (length ?e)) tag key z"
      and h: "slot_holds st1 chunk ?e" "t_chunks ?t0 \<noteq> None"
      by simp_all
    let ?s = "(stats st1)\<lparr>s_chunk_writes := s_chunk_writes (stats st1) + 1,
      s_data_bytes_written := s_data_bytes_written (stats st1) + of_nat n\<rparr>"
    have "pk_ok (st1\<lparr>stats := ?s\<rparr>)" "chunk < p_chunks (parcel (st1\<lparr>stats := ?s\<rparr>))"
      using ok1 same ok(4) by (simp_all add: pk_ok_def)
    then obtain base where sh: "shm_update (st1\<lparr>stats := ?s\<rparr>) chunk
        (SHM_PRESENT OR SHM_ACCESSED_SESSION OR SHM_DIRTY OR SHM_DIRTY_SESSION) 0 = Some (st1\<lparr>stats := ?s, shm_base := base\<rparr>)"
      "pk_ok (st1\<lparr>stats := ?s, shm_base := base\<rparr>)"
      by (rule shm_update_ok)
    have up: "cache_update b db st chunk buf = Some (PK_SUCCESS, db1, st1\<lparr>stats := ?s, shm_base := base\<rparr>)"
      using e(1) t(1) Inr sh(1) by (simp add: cache_update_def)
    have c1: "cached b' g (tabs (db_conn db1)) st1 chunk buf" if "map_of (t_keys ?t0) (int chunk) \<noteq> None"
      unfolding tb using h(1) le(2) _ h(2) that
      by (rule cached_written) (use le(3) e(5-10) same in simp_all)
    have c2: "cached b' g (tabs (db_conn db1)) st1 c x" if "c \<noteq> chunk" "cached b' g ?t0 st c x" for c x
      unfolding tb using cached_other_row [OF that(1) cached_other_slot [OF sw that]] .
    have tb': "\<exists>l tag key z. tabs (db_conn db1) = upd_tables ?t0 (int chunk) l tag key z"
      using tb by blast
    have "slot_holds (st1\<lparr>stats := ?s, shm_base := base\<rparr>) chunk ?e"
      using h(1) by (simp add: slot_holds_def cache_chunk_to_offset_def)
    with e(1) tb le(1) have tb2: "\<exists>out n tag key z.
        iu_chunk_encode b (p_crypto (parcel st)) buf (replicate (p_chunksize (parcel st)) 0) (conf_compress st) = Some (Some (out, n, tag, key, z))
        \<and> tabs (db_conn db1) = upd_tables ?t0 (int chunk) (int n) tag key z
        \<and> slot_holds (st1\<lparr>stats := ?s, shm_base := base\<rparr>) chunk (take n out)"
      by metis
    show thesis
      using that [OF up t(2,3) sh(2)] same c1 c2 q tb' tb2 by (auto simp: cached_stats_shm)
  qed
qed

section \<open>Reading a chunk\<close>

lemma filter_map_of:
  "map_of xs k = Some v \<Longrightarrow> \<exists>ys. filter (\<lambda>(c, _). c = k) xs = (k, v) # ys"
  by (induction xs) (auto split: if_splits)

lemma filter_map_of_None: "map_of xs k = None \<Longrightarrow> filter (\<lambda>(c, _). c = k) xs = []"
  by (induction xs) (auto split: if_splits)

lemma param_d: "c < 2 ^ 31 \<Longrightarrow> param_set_group 0 ''d'' [SQL_int (int c)] [] = Some (Some [(1, SQL_int (int c))])"
  by (simp add: param_arg_def param_put_def)

lemma sel_key_txn:
  assumes "txn_open t0 0 db" "c < 2 ^ 31"
  obtains ok q db' rows where "query True db sel_key ''d'' [SQL_int (int c)] = Some (ok, q, db')"
    "stmt_done t0 (if ok \<and> rows \<noteq> [] then 1 else 0) (Inr (tabs (db_conn db), rows)) db ok db' rows"
    "if ok \<and> rows \<noteq> [] then \<exists>q'. q = Some q' \<and> q_rows q' = rows else q = None"
    "ok \<longrightarrow> rows = map (\<lambda>(c, tag, key, z). [SQL_blob tag, SQL_blob key, SQL_int z]) (filter (\<lambda>(k, _). k = int c) (t_keys (tabs (db_conn db))))"
proof -
  let ?f = "\<lambda>p t. Inr (t, map (\<lambda>(c, tag, key, z). [SQL_blob tag, SQL_blob key, SQL_int z]) (filter (\<lambda>(c, _). SQL_int c = p 1) (t_keys t)))"
  obtain ok q db' rows where q: "query True db (SQL_stmt ?f) ''d'' [SQL_int (int c)] = Some (ok, q, db')"
    "stmt_done t0 (if ok \<and> rows \<noteq> [] then 1 else 0) (?f (bind_all (\<lambda>_. SQL_null) [(1, SQL_int (int c))]) (tabs (db_conn db))) db ok db' rows"
    "if ok \<and> rows \<noteq> [] then \<exists>q'. q = Some q' \<and> q_rows q' = rows else q = None"
    by (rule query_rows_txn [OF assms(1) param_d [OF assms(2)], where f = ?f])
  show thesis
  proof (rule that)
    show "query True db sel_key ''d'' [SQL_int (int c)] = Some (ok, q, db')"
      using q(1) by (simp add: sel_key_def)
    show "stmt_done t0 (if ok \<and> rows \<noteq> [] then 1 else 0) (Inr (tabs (db_conn db), rows)) db ok db' rows"
      using q(2) by (auto simp: stmt_done_def)
    show "ok \<longrightarrow> rows = map (\<lambda>(c, tag, key, z). [SQL_blob tag, SQL_blob key, SQL_int z]) (filter (\<lambda>(k, _). k = int c) (t_keys (tabs (db_conn db))))"
      using q(2) by (auto simp: stmt_done_def)
  qed (use q(3) in blast)
qed

lemma sel_length_txn:
  assumes "txn_open t0 0 db" "c < 2 ^ 31" "t_chunks (tabs (db_conn db)) = Some cs"
  obtains ok q db' rows where "query True db sel_length ''d'' [SQL_int (int c)] = Some (ok, q, db')"
    "stmt_done t0 (if ok \<and> rows \<noteq> [] then 1 else 0) (Inr (tabs (db_conn db), rows)) db ok db' rows"
    "if ok \<and> rows \<noteq> [] then \<exists>q'. q = Some q' \<and> q_rows q' = rows else q = None"
    "ok \<longrightarrow> rows = map (\<lambda>(c, l). [SQL_int l]) (filter (\<lambda>(k, _). k = int c) cs)"
proof -
  let ?f = "\<lambda>p. on_chunks (\<lambda>cs. (cs, map (\<lambda>(c, l). [SQL_int l]) (filter (\<lambda>(c, _). SQL_int c = p 1) cs)))"
  obtain ok q db' rows where q: "query True db (SQL_stmt ?f) ''d'' [SQL_int (int c)] = Some (ok, q, db')"
    "stmt_done t0 (if ok \<and> rows \<noteq> [] then 1 else 0) (?f (bind_all (\<lambda>_. SQL_null) [(1, SQL_int (int c))]) (tabs (db_conn db))) db ok db' rows"
    "if ok \<and> rows \<noteq> [] then \<exists>q'. q = Some q' \<and> q_rows q' = rows else q = None"
    by (rule query_rows_txn [OF assms(1) param_d [OF assms(2)], where f = ?f])
  have t: "(tabs (db_conn db))\<lparr>t_chunks := Some cs\<rparr> = tabs (db_conn db)"
    using assms(3) by (cases "tabs (db_conn db)") simp
  show thesis
  proof (rule that)
    show "query True db sel_length ''d'' [SQL_int (int c)] = Some (ok, q, db')"
      using q(1) by (simp add: sel_length_def)
    show "stmt_done t0 (if ok \<and> rows \<noteq> [] then 1 else 0) (Inr (tabs (db_conn db), rows)) db ok db' rows"
      using q(2) assms(3) t by (auto simp: stmt_done_def on_chunks_def)
    show "ok \<longrightarrow> rows = map (\<lambda>(c, l). [SQL_int l]) (filter (\<lambda>(k, _). k = int c) cs)"
      using q(2) assms(3) by (auto simp: stmt_done_def on_chunks_def)
  qed (use q(3) in blast)
qed

text \<open>What the keyring and the index say of a chunk; \<open>None\<close> if \<open>cache_get\<close> refuses it.\<close>

definition chunk_row :: "pk_parcel \<Rightarrow> cache_tables \<Rightarrow> nat \<Rightarrow> (bytes \<times> bytes \<times> int \<times> nat) option" where
  "chunk_row p t chunk = (case map_of (t_keys t) (int chunk) of
     None \<Rightarrow> None
   | Some (tag, key, z) \<Rightarrow>
       if length tag = p_hashlen p \<and> length key = p_hashlen p \<and> iu_chunk_compress_is_enabled (p_required_compress p) (int32 z)
       then Some (tag, key, int32 z, case indexed t chunk of None \<Rightarrow> 0 | Some l \<Rightarrow> uint32 (int32 l)) else None)"

lemma query_free_txn:
  assumes "stmt_done t0 1 v db ok db' rows" "ok" "q \<noteq> None"
  shows "txn_open t0 0 (query_free q db')" "later db (query_free q db')" "tabs (db_conn (query_free q db')) = tabs (db_conn db')"
    "db_result (query_free q db') = db_result db'"
  using assms by (auto simp: stmt_done_def query_free_def txn_open_def later_def)

lemma cache_get_len_txn:
  assumes o: "txn_open t0 0 db" "tabs (db_conn db) = t0" and t: "t_chunks t0 = Some cs" and c: "chunk < 2 ^ 31"
  shows "\<exists>r db'. cache_get_len chunk tag key z db st = Some (r, db', st) \<and> later db db'
    \<and> (case r of
         Inr x \<Rightarrow> idle db' \<and> x = (tag, key, z, case indexed t0 chunk of None \<Rightarrow> 0 | Some l \<Rightarrow> uint32 (int32 l)) \<and> tabs (db_conn db') = t0
       | Inl e \<Rightarrow> e = PK_IOERR \<and> aborted t0 True db db')"
proof -
  let ?len = "case indexed t0 chunk of None \<Rightarrow> 0 | Some l \<Rightarrow> uint32 (int32 l)"
  obtain ok q db1 rows where k: "query True db sel_length ''d'' [SQL_int (int chunk)] = Some (ok, q, db1)"
    "stmt_done t0 (if ok \<and> rows \<noteq> [] then 1 else 0) (Inr (t0, rows)) db ok db1 rows"
    "if ok \<and> rows \<noteq> [] then \<exists>q'. q = Some q' \<and> q_rows q' = rows else q = None"
    "ok \<longrightarrow> rows = map (\<lambda>(c, l). [SQL_int l]) (filter (\<lambda>(k, _). k = int chunk) cs)"
    by (rule sel_length_txn [OF o(1) c t [folded o(2)], unfolded o(2)])
  show ?thesis
  proof (cases ok)
    case False
    then have "aborted t0 True db db1"
      using k(2) False by (intro aborted_stmt [of t0 "Inr (t0, rows)" db ok db1 rows]) auto
    with k(1) False show ?thesis
      by (intro exI [of _ "Inl PK_IOERR"] exI [of _ db1]) (simp add: cache_get_len_def aborted_def)
  next
    case True
    have "\<exists>db2. (if query_has_row db1 then do {
           row \<leftarrow> query_row q ''d'';
           (case row of [SQL_int l] \<Rightarrow> Some (uint32 l, query_free q db1) | _ \<Rightarrow> None)
         } else Some (0, db1)) = Some (?len, db2) \<and> txn_open t0 0 db2 \<and> later db db2 \<and> tabs (db_conn db2) = t0"
    proof (cases "map_of cs (int chunk)")
      case None
      then have "rows = []"
        using True k(4) filter_map_of_None by fastforce
      with k(2) True None t show ?thesis
        by (auto simp: stmt_done_def query_has_row_def indexed_def)
    next
      case (Some l)
      then obtain ys where ys: "rows = [SQL_int l] # ys"
        using True k(4) filter_map_of [OF Some] by auto
      then obtain q' where q': "q = Some q'" "q_rows q' = [SQL_int l] # ys"
        using k(3) True by auto
      have st: "stmt_done t0 1 (Inr (t0, rows)) db ok db1 rows"
        using k(2) True ys by simp
      have "query_has_row db1" "tabs (db_conn db1) = t0"
        using st True ys by (auto simp: stmt_done_def query_has_row_def)
      moreover have "query_row q ''d'' = Some [SQL_int (int32 l)]"
        using q' by (simp add: query_row_def query_column_def)
      ultimately show ?thesis
        using query_free_txn [OF st True, of q] q'(1) Some t by (simp add: indexed_def)
    qed
    then obtain db2 where d: "(if query_has_row db1 then do {
           row \<leftarrow> query_row q ''d'';
           (case row of [SQL_int l] \<Rightarrow> Some (uint32 l, query_free q db1) | _ \<Rightarrow> None)
         } else Some (0, db1)) = Some (?len, db2)" "txn_open t0 0 db2" "later db db2" "tabs (db_conn db2) = t0"
      by blast
    obtain ok3 db3 where q3: "commit db2 = Some (ok3, db3)" "later db2 db3"
      "ok3 \<Longrightarrow> idle db3 \<and> tabs (db_conn db3) = tabs (db_conn db2)" "\<not> ok3 \<Longrightarrow> aborted t0 True db2 db3"
      by (rule commit_txn [OF d(2)]) blast
    have eq: "cache_get_len chunk tag key z db st = Some (if ok3 then Inr (tag, key, z, ?len) else Inl PK_IOERR, db3, st)"
      unfolding cache_get_len_def k(1) using True d(1) q3(1) by simp
    show ?thesis
      using eq q3 d(3,4) later_trans [OF d(3)] aborted_later [OF d(3)]
      by (cases ok3) auto
  qed
qed

lemma cache_get_row_txn:
  assumes o: "txn_open t0 0 db" "tabs (db_conn db) = t0" and t: "t_chunks t0 = Some cs" and c: "chunk < 2 ^ 31"
  shows "\<exists>r db'. cache_get_row chunk db st = Some (r, db', st) \<and> later db db'
    \<and> (case r of
         Inr x \<Rightarrow> idle db' \<and> chunk_row (parcel st) t0 chunk = Some x \<and> tabs (db_conn db') = t0
       | Inl e \<Rightarrow> (e = PK_IOERR \<or> e = PK_INVALID) \<and> aborted t0 (chunk_row (parcel st) t0 chunk \<noteq> None) db db')"
proof -
  let ?g = "chunk_row (parcel st) t0 chunk \<noteq> None"
  have fail: ?thesis if "cache_get_row chunk db st = Some (Inl e, db', st)" "e = PK_IOERR \<or> e = PK_INVALID" "aborted t0 ?g db db'" for e db'
    using that by (auto simp: aborted_def)
  obtain ok q db1 rows where k: "query True db sel_key ''d'' [SQL_int (int chunk)] = Some (ok, q, db1)"
    "stmt_done t0 (if ok \<and> rows \<noteq> [] then 1 else 0) (Inr (t0, rows)) db ok db1 rows"
    "if ok \<and> rows \<noteq> [] then \<exists>q'. q = Some q' \<and> q_rows q' = rows else q = None"
    "ok \<longrightarrow> rows = map (\<lambda>(c, tag, key, z). [SQL_blob tag, SQL_blob key, SQL_int z]) (filter (\<lambda>(k, _). k = int chunk) (t_keys t0))"
    by (rule sel_key_txn [OF o(1) c, unfolded o(2)])
  show ?thesis
  proof (cases "ok \<and> rows \<noteq> []")
    case False
    have "aborted t0 ?g db db1"
    proof (cases ok)
      case True
      with False k(4) have "map_of (t_keys t0) (int chunk) = None"
        using filter_map_of [of "t_keys t0" "int chunk"] by (cases "map_of (t_keys t0) (int chunk)") auto
      then have n: "\<not> ?g" by (simp add: chunk_row_def)
      have "txn_open t0 0 db1" "\<not> query_busy db1" "later db db1"
        using k(2) True False by (auto simp: stmt_done_def query_busy_def)
      with n show ?thesis
        by (intro aborted_later [OF _ aborted_stay]) simp_all
    next
      case nok: False
      with k(2) show ?thesis
        by (intro aborted_stmt [of t0 "Inr (t0, rows)" db ok db1 rows]) auto
    qed
    moreover have "\<not> query_has_row db1"
      using stmt_done_result(1) [OF k(2)] False by (simp add: query_has_row_def)
    ultimately show ?thesis
      using k(1) by (intro fail [of PK_IOERR db1]) (simp_all add: cache_get_row_def)
  next
    case True
    obtain tag key z ys where m: "map_of (t_keys t0) (int chunk) = Some (tag, key, z)" "rows = [SQL_blob tag, SQL_blob key, SQL_int z] # ys"
    proof (cases "map_of (t_keys t0) (int chunk)")
      case None
      with True k(4) filter_map_of_None [OF None] show thesis by simp
    next
      case (Some v)
      with True k(4) filter_map_of [OF Some] that show thesis by (cases v) auto
    qed
    obtain q' where q': "q = Some q'" "q_rows q' = rows"
      using k(3) True by auto
    have st: "stmt_done t0 1 (Inr (t0, rows)) db ok db1 rows"
      using k(2) True by simp
    let ?db = "query_free q db1"
    have f: "txn_open t0 0 ?db" "later db ?db" "tabs (db_conn ?db) = t0" "db_result ?db = SQLITE_ROW" "query_has_row db1"
      using query_free_txn [OF st, of q] True q'(1) st by (auto simp: stmt_done_def query_has_row_def)
    have row: "query_row q ''bbd'' = Some [SQL_blob tag, SQL_blob key, SQL_int (int32 z)]"
      using q' m(2) by (simp add: query_row_def query_column_def)
    show ?thesis
    proof (cases "chunk_row (parcel st) t0 chunk")
      case None
      with m(1) k(1) row f(5) have "cache_get_row chunk db st = Some (Inl PK_INVALID, ?db, st)"
        by (auto simp: chunk_row_def cache_get_row_def Let_def split: if_splits)
      moreover have "aborted t0 ?g db ?db"
        using f None by (intro aborted_later [OF f(2) aborted_stay]) (simp_all add: query_busy_def)
      ultimately show ?thesis
        by (intro fail [of PK_INVALID ?db]) simp_all
    next
      case (Some x)
      have eq: "cache_get_row chunk db st = cache_get_len chunk tag key (int32 z) ?db st"
        using Some m(1) k(1) row f(5) by (simp add: chunk_row_def cache_get_row_def Let_def split: if_splits)
      have x: "x = (tag, key, int32 z, case indexed t0 chunk of None \<Rightarrow> 0 | Some l \<Rightarrow> uint32 (int32 l))"
        using Some m(1) by (simp add: chunk_row_def split: if_splits)
      from cache_get_len_txn [OF f(1,3) t c, of tag key "int32 z" st] obtain r db2 where
        r: "cache_get_len chunk tag key (int32 z) ?db st = Some (r, db2, st)" "later ?db db2"
        "case r of Inr y \<Rightarrow> idle db2 \<and> y = x \<and> tabs (db_conn db2) = t0 | Inl e \<Rightarrow> e = PK_IOERR \<and> aborted t0 True ?db db2"
        unfolding x by blast
      then show ?thesis
        using eq Some later_trans [OF f(2)] aborted_later [OF f(2)] by (cases r) auto
    qed
  qed
qed

interpretation get: txn_body "cache_get_row chunk" t0
  "\<lambda>st. st = st0 \<and> t_chunks t0 \<noteq> None \<and> chunk < 2 ^ 31" "\<lambda>e. e = PK_IOERR \<or> e = PK_INVALID" "chunk_row (parcel st0) t0 chunk \<noteq> None"
  "\<lambda>x t st. st = st0 \<and> chunk_row (parcel st0) t0 chunk = Some x \<and> t = t0"
  for chunk t0 and st0 :: "'h pk_state"
proof
  fix db w
  assume a: "txn_open t0 0 db" "tabs (db_conn db) = t0" "db_result db = SQLITE_OK" "w = st0 \<and> t_chunks t0 \<noteq> None \<and> chunk < 2 ^ 31"
  then obtain cs where w: "w = st0" "t_chunks t0 = Some cs" "chunk < 2 ^ 31"
    by auto
  show "\<exists>r db' w'. cache_get_row chunk db w = Some (r, db', w') \<and> later db db' \<and>
      (case r of
         Inl e \<Rightarrow> (w' = st0 \<and> t_chunks t0 \<noteq> None \<and> chunk < 2 ^ 31) \<and> (e = PK_IOERR \<or> e = PK_INVALID)
           \<and> aborted t0 (chunk_row (parcel st0) t0 chunk \<noteq> None) db db'
       | Inr x \<Rightarrow> idle db' \<and> w' = st0 \<and> chunk_row (parcel st0) t0 chunk = Some x \<and> tabs (db_conn db') = t0)"
    using cache_get_row_txn [OF a(1,2) w(2,3), of st0] w by (elim exE conjE) (auto split: sum.splits)
qed

lemma cache_get_transaction:
  assumes "idle db" "only_soft db" "t_chunks (tabs (db_conn db)) \<noteq> None" "chunk < 2 ^ 31"
  obtains r db' where "transact PK_IOERR (cache_get_row chunk) db st = Some (r, db', st)" "later db db'" "idle db'"
    "tabs (db_conn db') = tabs (db_conn db)"
    "\<And>x. r = Inr x \<Longrightarrow> chunk_row (parcel st) (tabs (db_conn db)) chunk = Some x"
    "\<And>e. r = Inl e \<Longrightarrow> (e = PK_IOERR \<or> e = PK_INVALID) \<and> \<not> (chunk_row (parcel st) (tabs (db_conn db)) chunk \<noteq> None \<and> only_contention db)"
proof -
  have "st = st \<and> t_chunks (tabs (db_conn db)) \<noteq> None \<and> chunk < 2 ^ 31"
    using assms by simp
  from get.transact_total [OF assms(1) refl this assms(2), of PK_IOERR] show thesis
    using that by (elim exE conjE) (auto split: sum.splits)
qed

text \<open>A chunk that is in the cache is read back, in spite of contention for the database.\<close>

lemma cached_row:
  assumes "cached_as b g t st chunk buf tag key z e" "p_chunksize (parcel st) < 2 ^ 31"
  shows "chunk_row (parcel st) t chunk = Some (tag, key, z, if indexed t chunk = None then 0 else length e)"
proof -
  have "0 < z"
    using assms(1) by (auto simp: cached_as_def iu_chunk_compress_is_enabled_def split: if_splits)
  with assms show ?thesis
    by (auto simp: cached_as_def chunk_row_def located_def split: option.splits)
qed

text \<open>The encrypted chunk, from wherever \<open>cache_get\<close> takes it.\<close>

lemma cache_get_encrypted:
  assumes e: "cached_as b g t st chunk buf tag key z e" and p: "p_chunksize (parcel st) < 2 ^ 31"
    and f: "cache_file st = Some f" "f_faults f = []" and s: "serves src g good" "good (remote st)"
  obtains h where "(if (if indexed t chunk = None then 0 else length e) \<noteq> 0
      then cache_read_chunk st chunk (p_chunksize (parcel st)) (if indexed t chunk = None then 0 else length e) None
      else do {
        (ret, encrypted, h) \<leftarrow> hoard_get_chunk src tag (remote st);
        let st = st\<lparr>remote := h\<rparr>;
        if ret \<noteq> PK_SUCCESS then do {
          (ret, encrypted, h) \<leftarrow> transport_fetch_chunk src chunk tag (remote st);
          Some (ret, encrypted, st\<lparr>remote := h\<rparr>)
        } else Some (PK_SUCCESS, encrypted, st)
      }) = Some (PK_SUCCESS, e, st\<lparr>remote := h\<rparr>)" "good h"
proof (cases "indexed t chunk")
  case None
  with e have g: "g chunk tag = Some e"
    by (simp add: cached_as_def located_def)
  from s g obtain r1 e1 h1 where h1: "hoard_get_chunk src tag (remote st) = Some (r1, e1, h1)" "good h1" "r1 = PK_SUCCESS \<longrightarrow> e1 = e"
    unfolding serves_def by blast
  from s(1) g h1(2) obtain h2 where h2: "transport_fetch_chunk src chunk tag h1 = Some (PK_SUCCESS, e, h2)" "good h2"
    unfolding serves_def by blast
  show thesis
    using that [of "if r1 = PK_SUCCESS then h1 else h2"] None h1 h2 by (auto simp: Let_def)
next
  case (Some l)
  have le: "e \<noteq> []" "length e \<le> p_chunksize (parcel st)" "int32 (int (length e)) = int (length e)"
    using e p by (auto simp: cached_as_def)
  have h: "take (length e) (drop (cache_chunk_to_offset st chunk) (f_data f)) = e"
    using e f(1) Some by (simp add: cached_as_def located_def slot_holds_def)
  have f1: "st\<lparr>cache_file := Some f\<rparr> = st" "st\<lparr>remote := remote st\<rparr> = st"
    using f(1) by simp_all
  have "cache_read_chunk st chunk (p_chunksize (parcel st)) (length e) None = Some (PK_SUCCESS, e, st)"
    using le h f1 by (simp add: cache_read_chunk_def upd_file_def f pread_quiet)
  with le(1) Some s(2) that [of "remote st"] show thesis
    by simp
qed

lemma cache_get_run:
  assumes ok: "pk_ok st" "idle db" "only_contention db" "chunk < p_chunks (parcel st)" "length dst = p_chunksize (parcel st)"
    "t_chunks (tabs (db_conn db)) \<noteq> None"
    and c: "cached b g (tabs (db_conn db)) st chunk buf" and f: "cache_file st = Some f" "f_faults f = []"
    and s: "serves src g good" "good (remote st)"
  obtains db' st' where "cache_get b src db st chunk dst = Some (PK_SUCCESS, buf, db', st')" "later db db'" "idle db'" "pk_ok st'"
    "tabs (db_conn db') = tabs (db_conn db)" "parcel st' = parcel st" "cache_file st' = cache_file st" "good (remote st')"
    "\<And>g' c x. cached b g' (tabs (db_conn db')) st' c x = cached b g' (tabs (db_conn db)) st c x"
proof -
  let ?t = "tabs (db_conn db)"
  obtain tag key z e where e: "cached_as b g ?t st chunk buf tag key z e"
    using c by (auto simp: cached_def)
  have p: "p_chunksize (parcel st) < 2 ^ 31" "chunk < 2 ^ 31"
    using ok(1,4) by (auto simp: pk_ok_def parcel_ok_def)
  have soft: "only_soft db"
    using ok(3) contention_soft by auto
  obtain r db1 where tr: "transact PK_IOERR (cache_get_row chunk) db st = Some (r, db1, st)" "later db db1" "idle db1"
    "tabs (db_conn db1) = ?t"
    "\<And>x. r = Inr x \<Longrightarrow> chunk_row (parcel st) ?t chunk = Some x"
    "\<And>x. r = Inl x \<Longrightarrow> (x = PK_IOERR \<or> x = PK_INVALID) \<and> \<not> (chunk_row (parcel st) ?t chunk \<noteq> None \<and> only_contention db)"
    by (rule cache_get_transaction [OF ok(2) soft ok(6) p(2), of st]) blast
  have r: "r = Inr (tag, key, z, if indexed ?t chunk = None then 0 else length e)"
    using tr(5,6) cached_row [OF e p(1)] ok(3) by (cases r) auto
  obtain h where h: "(if (if indexed ?t chunk = None then 0 else length e) \<noteq> 0
      then cache_read_chunk st chunk (p_chunksize (parcel st)) (if indexed ?t chunk = None then 0 else length e) None
      else do {
        (ret, encrypted, h) \<leftarrow> hoard_get_chunk src tag (remote st);
        let st = st\<lparr>remote := h\<rparr>;
        if ret \<noteq> PK_SUCCESS then do {
          (ret, encrypted, h) \<leftarrow> transport_fetch_chunk src chunk tag (remote st);
          Some (ret, encrypted, st\<lparr>remote := h\<rparr>)
        } else Some (PK_SUCCESS, encrypted, st)
      }) = Some (PK_SUCCESS, e, st\<lparr>remote := h\<rparr>)" "good h"
    by (rule cache_get_encrypted [OF e p(1) f s])
  let ?st = "st\<lparr>remote := h, stats := (stats st)\<lparr>s_chunk_reads := s_chunk_reads (stats st) + 1\<rparr>\<rparr>"
  have "pk_ok ?st" "chunk < p_chunks (parcel ?st)"
    using ok(1,4) by (simp_all add: pk_ok_def)
  then obtain base where sh: "shm_update ?st chunk SHM_ACCESSED_SESSION 0 = Some (?st\<lparr>shm_base := base\<rparr>)" "pk_ok (?st\<lparr>shm_base := base\<rparr>)"
    by (rule shm_update_ok)
  have d: "iu_chunk_decode b (p_crypto (parcel st)) z e key dst = Some (Some buf)" "length e \<le> p_chunksize (parcel st)"
    using e ok(5) by (simp_all add: cached_as_def)
  have "cache_get b src db st chunk dst = Some (PK_SUCCESS, buf, db1, ?st\<lparr>shm_base := base\<rparr>)"
    unfolding cache_get_def tr(1) r bind.bind_lunit sum.case prod.case h(1) using d sh(1) by simp
  moreover have "cached b g' t (?st\<lparr>shm_base := base\<rparr>) c x = cached b g' t st c x" for g' t c x
    by (rule cached_cong) simp_all
  ultimately show thesis
    by (intro that [OF _ tr(2,3) sh(2) tr(4)]) (simp_all add: tr(4) h(2))
qed

end
