(* ===== verification/Isr_Image.thy ===== *)
theory Isr_Image
  imports Isr_Cache_Correct "HOL-Library.AList"
begin

text \<open>
  The virtual disk of parcelkeeper, \<^verbatim>\<open>parcelkeeper/fuse_image.c\<close>: a cache of decrypted chunks in memory, with a queue of
  dirty and a queue of reclaimable entries, and reads and writes at any offset.

  The model is that of one thread that serves requests (\<^verbatim>\<open>WANT_SINGLE_THREAD\<close>) with the cleaner thread running between them; a
  wait for a condition that only this thread could signal is the outcome \<open>None\<close>, as are a failed assertion and an access
  outside a buffer.  The operations of the layer below are fields of \<open>chunk_ops\<close>; \<open>cache_ops\<close> are those of
  \<^verbatim>\<open>cache.c\<close>.
\<close>

section \<open>The layer below\<close>

text \<open>
  \<^verbatim>\<open>cache_get\<close>, \<^verbatim>\<open>cache_update\<close>, the three \<^verbatim>\<open>cache_shm_set\<close> functions, \<^verbatim>\<open>stats_increment\<close> and \<^verbatim>\<open>time\<close> on the
  state \<open>'s\<close>; \<^verbatim>\<open>state->parcel\<close>, which never changes, and the contents of memory fresh from the allocator.
\<close>

record 's chunk_ops =
  op_parcel :: pk_parcel
  op_fresh :: "nat \<Rightarrow> bytes"
  op_get :: "nat \<Rightarrow> bytes \<Rightarrow> 's \<Rightarrow> (pk_err \<times> bytes \<times> 's) option"
  op_update :: "nat \<Rightarrow> bytes \<Rightarrow> 's \<Rightarrow> (pk_err \<times> 's) option"
  op_shm_dirty :: "nat \<Rightarrow> 's \<Rightarrow> 's option"
  op_shm_cached :: "nat \<Rightarrow> bool \<Rightarrow> 's \<Rightarrow> 's option"
  op_shm_cache_dirty :: "nat \<Rightarrow> bool \<Rightarrow> 's \<Rightarrow> 's option"
  op_stats :: "(pk_stats \<Rightarrow> pk_stats) \<Rightarrow> 's \<Rightarrow> 's"
  op_time :: "'s \<Rightarrow> nat \<times> 's"

text \<open>The cache of \<^verbatim>\<open>cache.c\<close>, with the results that successive calls of \<^verbatim>\<open>time\<close> give, less one: the clock is
  past the epoch.\<close>

type_synonym 'h cache_state = "cdb \<times> 'h pk_state \<times> (nat \<Rightarrow> nat)"

definition cache_ops :: "('z, 's, 'm) backends \<Rightarrow> 'h chunk_source \<Rightarrow> pk_parcel \<Rightarrow> (nat \<Rightarrow> bytes) \<Rightarrow> 'h cache_state chunk_ops" where
  "cache_ops b src p fresh = \<lparr>
     op_parcel = p,
     op_fresh = fresh,
     op_get = (\<lambda>c buf (db, st, t). do {
       (ret, buf, db, st) \<leftarrow> cache_get b src db st c buf;
       Some (ret, buf, db, st, t) }),
     op_update = (\<lambda>c buf (db, st, t). do {
       (ret, db, st) \<leftarrow> cache_update b db st c buf;
       Some (ret, db, st, t) }),
     op_shm_dirty = (\<lambda>c (db, st, t). do { st \<leftarrow> cache_shm_set_dirty st c; Some (db, st, t) }),
     op_shm_cached = (\<lambda>c v (db, st, t). do { st \<leftarrow> cache_shm_set_cached st c v; Some (db, st, t) }),
     op_shm_cache_dirty = (\<lambda>c v (db, st, t). do { st \<leftarrow> cache_shm_set_cache_dirty st c v; Some (db, st, t) }),
     op_stats = (\<lambda>f (db, st, t). (db, st\<lparr>stats := f (stats st)\<rparr>, t)),
     op_time = (\<lambda>(db, st, t). (Suc (t 0), db, st, \<lambda>i. t (Suc i)))\<rparr>"

section \<open>State\<close>

definition DIRTY_WRITEBACK_DELAY :: nat where "DIRTY_WRITEBACK_DELAY = 5"

text \<open>
  An entry is found by its chunk number.  Its \<^verbatim>\<open>dirty_link\<close> and \<^verbatim>\<open>reclaimable_link\<close> are non-null when the number is in the
  queue of that name.
\<close>

record cache_entry =
  e_busy :: bool
  e_waiters :: nat
  e_data :: "bytes option"
  e_dirty :: nat
  e_error :: bool

record 's image =
  im_chunks :: "(nat \<times> cache_entry) list"
  im_dirty :: "nat list"
  im_reclaimable :: "nat list"
  im_allocatable :: nat
  im_stopping :: bool
  leave_dirty :: bool
  store :: 's

record io_cursor =
  cur_chunk :: nat
  cur_offset :: nat
  cur_length :: nat
  cur_buf_offset :: nat
  cur_eof :: bool
  cur_start :: nat
  cur_count :: nat

definition upd_entry :: "nat \<Rightarrow> (cache_entry \<Rightarrow> cache_entry) \<Rightarrow> 's image \<Rightarrow> 's image option" where
  "upd_entry c f im = (case map_of (im_chunks im) c of
     None \<Rightarrow> None
   | Some e \<Rightarrow> Some (im\<lparr>im_chunks := AList.update c (f e) (im_chunks im)\<rparr>))"

definition count_stat :: "'s chunk_ops \<Rightarrow> (pk_stats \<Rightarrow> pk_stats) \<Rightarrow> 's image \<Rightarrow> 's image" where
  "count_stat ops f im = im\<lparr>store := op_stats ops f (store im)\<rparr>"

section \<open>Entries\<close>

definition queue_push_tail_with_link :: "nat list \<Rightarrow> nat \<Rightarrow> nat list option" where
  "queue_push_tail_with_link q c = (if c \<in> set q then None else Some (q @ [c]))"

definition queue_delete_with_link :: "nat list \<Rightarrow> nat \<Rightarrow> nat list" where
  "queue_delete_with_link q c = (if c \<in> set q then remove1 c q else q)"

definition entry_set_error :: "'s chunk_ops \<Rightarrow> nat \<Rightarrow> 's image \<Rightarrow> 's image option" where
  "entry_set_error ops c im =
     upd_entry c (\<lambda>e. e\<lparr>e_error := True\<rparr>)
       ((count_stat ops (\<lambda>s. s\<lparr>s_chunk_errors := s_chunk_errors s + 1\<rparr>) im)\<lparr>leave_dirty := True\<rparr>)"

definition entry_clean :: "'s chunk_ops \<Rightarrow> nat \<Rightarrow> 's image \<Rightarrow> 's image option" where
  "entry_clean ops c im = do {
     e \<leftarrow> map_of (im_chunks im) c;
     data \<leftarrow> e_data e;
     if e_dirty e = 0 \<or> c \<notin> set (im_dirty im) then None
     else do {
       let im = im\<lparr>im_dirty := queue_delete_with_link (im_dirty im) c\<rparr>;
       (ret, s) \<leftarrow> op_update ops c data (store im);
       let im = im\<lparr>store := s\<rparr>;
       im \<leftarrow> (if ret \<noteq> PK_SUCCESS then entry_set_error ops c im else Some im);
       im \<leftarrow> upd_entry c (\<lambda>e. e\<lparr>e_dirty := 0\<rparr>) im;
       s \<leftarrow> op_shm_cache_dirty ops c False (store im);
       Some (im\<lparr>store := s\<rparr>)
     }
   }"

text \<open>\<^verbatim>\<open>_entry_acquire\<close> and \<^verbatim>\<open>_entry_release\<close>, with the image lock held.\<close>

definition entry_acquire_locked :: "nat \<Rightarrow> 's image \<Rightarrow> 's image option" where
  "entry_acquire_locked c im = do {
     e \<leftarrow> map_of (im_chunks im) c;
     if e_busy e then None
     else upd_entry c (\<lambda>e. e\<lparr>e_busy := True\<rparr>)
       (im\<lparr>im_reclaimable := queue_delete_with_link (im_reclaimable im) c\<rparr>)
   }"

definition entry_release_locked :: "nat \<Rightarrow> 's image \<Rightarrow> 's image option" where
  "entry_release_locked c im = do {
     im \<leftarrow> upd_entry c (\<lambda>e. e\<lparr>e_busy := False\<rparr>) im;
     e \<leftarrow> map_of (im_chunks im) c;
     if e_waiters e > 0 then Some im
     else if e_data e = None then
       (if c \<in> set (im_reclaimable im) then None else Some (im\<lparr>im_chunks := AList.delete c (im_chunks im)\<rparr>))
     else do {
       q \<leftarrow> queue_push_tail_with_link (im_reclaimable im) c;
       Some (im\<lparr>im_reclaimable := q\<rparr>)
     }
   }"

text \<open>The buffer of an entry without one: a new one while there is an allowance, and otherwise that of the first
  reclaimable entry.\<close>

definition entry_get_buffer :: "'s chunk_ops \<Rightarrow> nat \<Rightarrow> 's image \<Rightarrow> 's image option" where
  "entry_get_buffer ops c im =
     (if im_allocatable im > 0 then
        upd_entry c (\<lambda>e. e\<lparr>e_data := Some (op_fresh ops c)\<rparr>) (im\<lparr>im_allocatable := im_allocatable im - 1\<rparr>)
      else case im_reclaimable im of
        [] \<Rightarrow> None
      | r # _ \<Rightarrow> do {
          let im = count_stat ops (\<lambda>s. s\<lparr>s_cache_evictions := s_cache_evictions s + 1\<rparr>) im;
          im \<leftarrow> entry_acquire_locked r im;
          e \<leftarrow> map_of (im_chunks im) r;
          im \<leftarrow> (if e_dirty e \<noteq> 0 then do {
              im \<leftarrow> entry_clean ops r im;
              Some (count_stat ops (\<lambda>s. s\<lparr>s_cache_evictions_dirty := s_cache_evictions_dirty s + 1\<rparr>) im)
            } else Some im);
          e \<leftarrow> map_of (im_chunks im) r;
          data \<leftarrow> e_data e;
          im \<leftarrow> upd_entry c (\<lambda>e. e\<lparr>e_data := Some data\<rparr>) im;
          im \<leftarrow> upd_entry r (\<lambda>e. e\<lparr>e_data := None\<rparr>) im;
          s \<leftarrow> op_shm_cached ops r False (store im);
          entry_release_locked r (im\<lparr>store := s\<rparr>)
        })"

definition new_entry :: cache_entry where
  "new_entry = \<lparr>e_busy = False, e_waiters = 0, e_data = None, e_dirty = 0, e_error = False\<rparr>"

definition entry_lookup :: "nat \<Rightarrow> 's image \<Rightarrow> 's image" where
  "entry_lookup c im = (case map_of (im_chunks im) c of
     None \<Rightarrow> im\<lparr>im_chunks := AList.update c new_entry (im_chunks im)\<rparr>
   | Some _ \<Rightarrow> im)"

definition entry_populate :: "'s chunk_ops \<Rightarrow> nat \<Rightarrow> 's image \<Rightarrow> 's image option" where
  "entry_populate ops c im = do {
     e \<leftarrow> map_of (im_chunks im) c;
     data \<leftarrow> e_data e;
     (ret, data, s) \<leftarrow> op_get ops c data (store im);
     im \<leftarrow> upd_entry c (\<lambda>e. e\<lparr>e_data := Some data\<rparr>) (im\<lparr>store := s\<rparr>);
     im \<leftarrow> (if ret \<noteq> PK_SUCCESS then entry_set_error ops c im else Some im);
     Some (count_stat ops (\<lambda>s. s\<lparr>s_cache_misses := s_cache_misses s + 1\<rparr>) im)
   }"

definition entry_acquire :: "'s chunk_ops \<Rightarrow> nat \<Rightarrow> bool \<Rightarrow> 's image \<Rightarrow> 's image option" where
  "entry_acquire ops c with_data im = do {
     im \<leftarrow> entry_acquire_locked c (entry_lookup c im);
     e \<leftarrow> map_of (im_chunks im) c;
     (case e_data e of
        None \<Rightarrow> do {
          im \<leftarrow> entry_get_buffer ops c im;
          s \<leftarrow> op_shm_cached ops c True (store im);
          let im = im\<lparr>store := s\<rparr>;
          if with_data then entry_populate ops c im else Some im
        }
      | Some _ \<Rightarrow>
          Some (if with_data then count_stat ops (\<lambda>s. s\<lparr>s_cache_hits := s_cache_hits s + 1\<rparr>) im else im))
   }"

definition entry_release :: "'s chunk_ops \<Rightarrow> nat \<Rightarrow> bool \<Rightarrow> 's image \<Rightarrow> 's image option" where
  "entry_release ops c dirty im = do {
     s \<leftarrow> (if dirty then op_shm_dirty ops c (store im) else Some (store im));
     let im = im\<lparr>store := s\<rparr>;
     e \<leftarrow> map_of (im_chunks im) c;
     im \<leftarrow> (if dirty \<and> e_dirty e = 0 then do {
         let (now, s) = op_time ops (store im);
         im \<leftarrow> upd_entry c (\<lambda>e. e\<lparr>e_dirty := now\<rparr>) (im\<lparr>store := s\<rparr>);
         q \<leftarrow> queue_push_tail_with_link (im_dirty im) c;
         s \<leftarrow> op_shm_cache_dirty ops c True (store im);
         Some (im\<lparr>im_dirty := q, store := s\<rparr>)
       } else Some im);
     entry_release_locked c im
   }"

text \<open>The body of the loop of \<^verbatim>\<open>entry_clean_all\<close> for the head of the queue; it says whether the loop goes on.\<close>

definition entry_clean_head :: "'s chunk_ops \<Rightarrow> bool \<Rightarrow> nat \<Rightarrow> 's image \<Rightarrow> (bool \<times> 's image) option" where
  "entry_clean_head ops force c im = do {
     im \<leftarrow> entry_acquire_locked c im;
     e \<leftarrow> map_of (im_chunks im) c;
     if e_dirty e = 0 then do {
       im \<leftarrow> entry_release_locked c im;
       Some (True, im)
     }
     else do {
       let (now, s) = (if force then (0, store im) else op_time ops (store im));
       let im = im\<lparr>store := s\<rparr>;
       if \<not> force \<and> e_dirty e + DIRTY_WRITEBACK_DELAY > now then do {
         im \<leftarrow> entry_release_locked c im;
         Some (False, im)
       }
       else do {
         im \<leftarrow> entry_clean ops c im;
         im \<leftarrow> entry_release_locked c im;
         Some (True, im)
       }
     }
   }"

partial_function (option) entry_clean_all :: "'s chunk_ops \<Rightarrow> bool \<Rightarrow> 's image \<Rightarrow> 's image option" where
  "entry_clean_all ops force im = (case im_dirty im of
     [] \<Rightarrow> Some im
   | c # _ \<Rightarrow> do {
       (go, im) \<leftarrow> entry_clean_head ops force c im;
       if go then entry_clean_all ops force im else Some im
     })"

section \<open>Reading and writing\<close>

text \<open>The fields \<^verbatim>\<open>chunk\<close>, \<^verbatim>\<open>offset\<close>, \<^verbatim>\<open>length\<close> and \<^verbatim>\<open>buf_offset\<close> are 32 bits wide, \<^verbatim>\<open>start\<close> and \<^verbatim>\<open>count\<close> 64; offsets into
  the disk are not negative.\<close>

definition io_start :: "nat \<Rightarrow> nat \<Rightarrow> io_cursor" where
  "io_start start count = \<lparr>cur_chunk = 0, cur_offset = 0, cur_length = 0, cur_buf_offset = 0, cur_eof = False,
     cur_start = start, cur_count = count\<rparr>"

definition io_chunk :: "pk_parcel \<Rightarrow> io_cursor \<Rightarrow> bool \<times> io_cursor" where
  "io_chunk p cur =
     (let cur = cur\<lparr>cur_buf_offset := (cur_buf_offset cur + cur_length cur) mod 2 ^ 32\<rparr> in
      if cur_buf_offset cur \<ge> cur_count cur then (False, cur)
      else
        let pos = cur_start cur + cur_buf_offset cur;
            cur = cur\<lparr>cur_chunk := (pos div p_chunksize p) mod 2 ^ 32\<rparr> in
        if cur_chunk cur \<ge> p_chunks p then (False, cur\<lparr>cur_eof := True\<rparr>)
        else
          let offset = uint32 (int pos - int (cur_chunk cur * p_chunksize p mod 2 ^ 32));
              len = min (uint32 (int (p_chunksize p) - int offset)) (cur_count cur - cur_buf_offset cur) mod 2 ^ 32
          in (True, cur\<lparr>cur_offset := offset, cur_length := len\<rparr>))"

definition EIO :: int where "EIO = 5"
definition ENOSPC :: int where "ENOSPC = 28"

text \<open>\<^verbatim>\<open>(int) cur.buf_offset ?: -EIO\<close>\<close>

definition io_failed :: "io_cursor \<Rightarrow> int" where
  "io_failed cur = (if cur_buf_offset cur = 0 then - EIO else int32 (int (cur_buf_offset cur)))"

text \<open>The bodies of the loops, with the value they return if they leave the loop, and what the read leaves in the caller's
  buffer.\<close>

definition image_read_chunk :: "'s chunk_ops \<Rightarrow> io_cursor \<Rightarrow> bytes \<Rightarrow> 's image \<Rightarrow> (int option \<times> bytes \<times> 's image) option" where
  "image_read_chunk ops cur buf im = do {
     im \<leftarrow> entry_acquire ops (cur_chunk cur) True im;
     e \<leftarrow> map_of (im_chunks im) (cur_chunk cur);
     if e_error e then do {
       im \<leftarrow> entry_release ops (cur_chunk cur) False im;
       Some (Some (io_failed cur), buf, im)
     }
     else do {
       data \<leftarrow> e_data e;
       if cur_offset cur + cur_length cur > length data \<or> cur_buf_offset cur + cur_length cur > length buf then None
       else do {
         let buf = blit buf (cur_buf_offset cur) (take (cur_length cur) (drop (cur_offset cur) data));
         im \<leftarrow> entry_release ops (cur_chunk cur) False im;
         let im = count_stat ops (\<lambda>s. s\<lparr>s_bytes_read := s_bytes_read s + of_nat (cur_length cur)\<rparr>) im;
         Some (None, buf, im)
       }
     }
   }"

partial_function (option) image_read_loop :: "'s chunk_ops \<Rightarrow> io_cursor \<Rightarrow> bytes \<Rightarrow> 's image \<Rightarrow> (int \<times> bytes \<times> 's image) option" where
  "image_read_loop ops cur buf im = (case io_chunk (op_parcel ops) cur of (go, cur) \<Rightarrow>
     if \<not> go then Some (int32 (int (cur_buf_offset cur)), buf, im)
     else do {
       (r, buf, im) \<leftarrow> image_read_chunk ops cur buf im;
       (case r of Some n \<Rightarrow> Some (n, buf, im) | None \<Rightarrow> image_read_loop ops cur buf im)
     })"

definition image_read :: "'s chunk_ops \<Rightarrow> bytes \<Rightarrow> nat \<Rightarrow> nat \<Rightarrow> 's image \<Rightarrow> (int \<times> bytes \<times> 's image) option" where
  "image_read ops buf start count im = image_read_loop ops (io_start start count) buf im"

definition image_write_chunk :: "'s chunk_ops \<Rightarrow> io_cursor \<Rightarrow> bytes \<Rightarrow> 's image \<Rightarrow> (int option \<times> 's image) option" where
  "image_write_chunk ops cur buf im = do {
     let whole_chunk = (cur_length cur = p_chunksize (op_parcel ops));
     im \<leftarrow> entry_acquire ops (cur_chunk cur) (\<not> whole_chunk) im;
     e \<leftarrow> map_of (im_chunks im) (cur_chunk cur);
     if e_error e then do {
       im \<leftarrow> entry_release ops (cur_chunk cur) False im;
       Some (Some (io_failed cur), im)
     }
     else do {
       data \<leftarrow> e_data e;
       if cur_offset cur + cur_length cur > length data \<or> cur_buf_offset cur + cur_length cur > length buf then None
       else do {
         let data = blit data (cur_offset cur) (take (cur_length cur) (drop (cur_buf_offset cur) buf));
         im \<leftarrow> upd_entry (cur_chunk cur) (\<lambda>e. e\<lparr>e_data := Some data\<rparr>) im;
         im \<leftarrow> entry_release ops (cur_chunk cur) True im;
         let im = count_stat ops (\<lambda>s. s\<lparr>s_bytes_written := s_bytes_written s + of_nat (cur_length cur)\<rparr>) im;
         let im = (if whole_chunk then count_stat ops (\<lambda>s. s\<lparr>s_whole_chunk_updates := s_whole_chunk_updates s + 1\<rparr>) im else im);
         Some (None, im)
       }
     }
   }"

partial_function (option) image_write_loop :: "'s chunk_ops \<Rightarrow> io_cursor \<Rightarrow> bytes \<Rightarrow> 's image \<Rightarrow> (int \<times> 's image) option" where
  "image_write_loop ops cur buf im = (case io_chunk (op_parcel ops) cur of (go, cur) \<Rightarrow>
     if \<not> go then
       Some (if cur_eof cur \<and> cur_buf_offset cur = 0 then - ENOSPC else int32 (int (cur_buf_offset cur)), im)
     else do {
       (r, im) \<leftarrow> image_write_chunk ops cur buf im;
       (case r of Some n \<Rightarrow> Some (n, im) | None \<Rightarrow> image_write_loop ops cur buf im)
     })"

definition image_write :: "'s chunk_ops \<Rightarrow> bytes \<Rightarrow> nat \<Rightarrow> nat \<Rightarrow> 's image \<Rightarrow> (int \<times> 's image) option" where
  "image_write ops buf start count im = image_write_loop ops (io_start start count) buf im"

definition image_sync :: "'s chunk_ops \<Rightarrow> 's image \<Rightarrow> 's image option" where
  "image_sync ops im = entry_clean_all ops True im"

section \<open>Starting and stopping\<close>

text \<open>\<open>phys\<close> is the size of the memory of the machine in bytes, \<open>cleaner\<close> says whether the thread could be created.\<close>

definition image_init :: "'s chunk_ops \<Rightarrow> nat \<Rightarrow> nat \<Rightarrow> bool \<Rightarrow> 's \<Rightarrow> pk_err \<times> 's image option" where
  "image_init ops phys chunk_cache cleaner s =
     (let max_mb = (phys div (10 * 2 ^ 20)) mod 2 ^ 32 in
      if chunk_cache = 0 then (PK_INVALID, None)
      else if chunk_cache > max_mb then (PK_INVALID, None)
      else
        let im = \<lparr>im_chunks = [], im_dirty = [], im_reclaimable = [],
          im_allocatable = (chunk_cache * (2 ^ 20 div p_chunksize (op_parcel ops))) mod 2 ^ 32,
          im_stopping = False, leave_dirty = False, store = s\<rparr> in
        if \<not> cleaner then (PK_CALLFAIL, None) else (PK_SUCCESS, Some im))"

text \<open>One round of the loop of \<^verbatim>\<open>entry_cleaner\<close> up to the point where it sleeps.\<close>

definition entry_cleaner :: "'s chunk_ops \<Rightarrow> 's image \<Rightarrow> 's image option" where
  "entry_cleaner ops im = (if im_stopping im then Some im else entry_clean_all ops False im)"

partial_function (option) image_free_buffers :: "'s chunk_ops \<Rightarrow> 's image \<Rightarrow> 's image option" where
  "image_free_buffers ops im = (case im_reclaimable im of
     [] \<Rightarrow> Some im
   | c # _ \<Rightarrow> do {
       im \<leftarrow> entry_acquire_locked c im;
       e \<leftarrow> map_of (im_chunks im) c;
       if e_dirty e \<noteq> 0 \<or> e_data e = None then None
       else do {
         im \<leftarrow> upd_entry c (\<lambda>e. e\<lparr>e_data := None\<rparr>) im;
         s \<leftarrow> op_shm_cached ops c False (store im);
         im \<leftarrow> entry_release_locked c (im\<lparr>store := s\<rparr>);
         image_free_buffers ops im
       }
     })"

definition image_shutdown :: "'s chunk_ops \<Rightarrow> 's image \<Rightarrow> 's image option" where
  "image_shutdown ops im = do {
     im \<leftarrow> entry_clean_all ops True (im\<lparr>im_stopping := True\<rparr>);
     im \<leftarrow> image_free_buffers ops im;
     if im_chunks im \<noteq> [] then None else Some im
   }"

end
