(* ===== verification/Isr_Image_Correct.thy ===== *)
theory Isr_Image_Correct
  imports Isr_Image
begin

text \<open>
  Invariant of the chunk cache, kept by every operation whatever the layer below does, and refinement: over a layer below that
  keeps chunks, reads and writes are those of one array of bytes.
\<close>

section \<open>Invariant\<close>

abbreviation ent :: "'s image \<Rightarrow> nat \<Rightarrow> cache_entry option" where
  "ent im \<equiv> map_of (im_chunks im)"

definition buf_count :: "cache_entry \<Rightarrow> nat" where
  "buf_count e = (if e_data e = None then 0 else 1)"

definition buffers :: "'s image \<Rightarrow> nat" where
  "buffers im = (\<Sum>(c, e) \<leftarrow> im_chunks im. buf_count e)"

text \<open>
  \<open>H\<close> are the chunks whose entries are held by the operation under way.  The queue of dirty entries holds those that are dirty and
  the reclaimable ones are those not held; an entry that is not held has a buffer; an entry with an error leaves the
  cache marked as dirty; buffers and allowance add up to \<open>A\<close>.
\<close>

definition wf_entry :: "pk_parcel \<Rightarrow> nat set \<Rightarrow> 's image \<Rightarrow> nat \<Rightarrow> cache_entry \<Rightarrow> bool" where
  "wf_entry p H im c e \<longleftrightarrow> c < p_chunks p \<and> e_waiters e = 0 \<and> (e_busy e \<longleftrightarrow> c \<in> H) \<and> (c \<in> set (im_reclaimable im) \<longleftrightarrow> c \<notin> H)
     \<and> (e_dirty e \<noteq> 0 \<longleftrightarrow> c \<in> set (im_dirty im)) \<and> (e_data e = None \<longrightarrow> c \<in> H \<and> e_dirty e = 0) \<and> (e_error e \<longrightarrow> leave_dirty im)"

definition image_wf :: "pk_parcel \<Rightarrow> nat \<Rightarrow> nat set \<Rightarrow> 's image \<Rightarrow> bool" where
  "image_wf p A H im \<longleftrightarrow> distinct (map fst (im_chunks im)) \<and> distinct (im_dirty im) \<and> distinct (im_reclaimable im)
     \<and> set (im_dirty im) \<union> set (im_reclaimable im) \<union> H \<subseteq> dom (ent im)
     \<and> (\<forall>c e. ent im c = Some e \<longrightarrow> wf_entry p H im c e) \<and> im_allocatable im + buffers im = A"

lemma wf_entryD: "image_wf p A H im \<Longrightarrow> ent im c = Some e \<Longrightarrow> wf_entry p H im c e"
  by (simp add: image_wf_def)

lemma wf_queues:
  assumes "image_wf p A H im"
  shows "distinct (im_dirty im)" "distinct (im_reclaimable im)" "set (im_dirty im) \<subseteq> dom (ent im)"
    "set (im_reclaimable im) \<subseteq> dom (ent im)" "H \<subseteq> dom (ent im)"
  using assms by (simp_all add: image_wf_def)

lemma wf_heldD: "image_wf p A H im \<Longrightarrow> c \<in> H \<Longrightarrow> \<exists>e. ent im c = Some e"
  using wf_queues(5) by blast

lemma sum_update:
  assumes "distinct (map fst xs)"
  shows "(\<Sum>(c, e) \<leftarrow> AList.update k v xs. f e) + (case map_of xs k of None \<Rightarrow> 0 | Some e \<Rightarrow> f e) =
    (\<Sum>(c, e) \<leftarrow> xs. f e) + (f v :: nat)"
  using assms by (induction xs) (auto split: option.splits)

lemma sum_delete:
  assumes "distinct (map fst xs)"
  shows "(\<Sum>(c, e) \<leftarrow> AList.delete k xs. f e) + (case map_of xs k of None \<Rightarrow> 0 | Some e \<Rightarrow> f e) = (\<Sum>(c, e) \<leftarrow> xs. f e :: nat)"
  using assms
proof (induction xs)
  case (Cons x xs)
  show ?case
  proof (cases "fst x = k")
    case True
    then have "map_of xs k = None"
      using Cons.prems by (auto simp: map_of_eq_None_iff)
    moreover have "AList.delete k xs = xs"
      using True Cons.prems by (intro AList.delete_id) auto
    ultimately show ?thesis
      using True by (cases x) auto
  qed (use Cons in \<open>auto split: prod.splits\<close>)
qed simp

lemma outside: "X - {c} = Y - {c} \<Longrightarrow> Y \<subseteq> Z \<Longrightarrow> X \<subseteq> insert c Z"
  by blast

text \<open>Replacing the entry of one chunk.\<close>

lemma wf_put:
  assumes w: "image_wf p A H im" and e: "ent im c = e0"
    and im': "im_chunks im' = AList.update c e' (im_chunks im)"
    and q: "distinct (im_dirty im')" "distinct (im_reclaimable im')"
    and other: "set (im_dirty im') - {c} = set (im_dirty im) - {c}" "set (im_reclaimable im') - {c} = set (im_reclaimable im) - {c}"
      "H' - {c} = H - {c}"
    and l: "leave_dirty im \<longrightarrow> leave_dirty im'"
    and we: "wf_entry p H' im' c e'"
    and al: "im_allocatable im' + buf_count e' + A = im_allocatable im + (case e0 of None \<Rightarrow> 0 | Some e \<Rightarrow> buf_count e) + A'"
  shows "image_wf p A' H' im'"
proof -
  have d: "distinct (map fst (im_chunks im))" and A: "im_allocatable im + buffers im = A"
    using w by (simp_all add: image_wf_def)
  have "buffers im' + (case e0 of None \<Rightarrow> 0 | Some e \<Rightarrow> buf_count e) = buffers im + buf_count e'"
    using sum_update [OF d, where k = c and v = e' and f = buf_count] e by (simp add: buffers_def im')
  with A al have A': "im_allocatable im' + buffers im' = A'"
    by linarith
  have "wf_entry p H' im' c' e" if "ent im' c' = Some e" for c' e
  proof (cases "c' = c")
    case True
    with that we im' show ?thesis by (simp add: AList.update_conv')
  next
    case False
    with that im' have "wf_entry p H im c' e"
      by (intro wf_entryD [OF w]) (simp add: AList.update_conv')
    moreover have "c' \<in> set (im_dirty im') \<longleftrightarrow> c' \<in> set (im_dirty im)" "c' \<in> set (im_reclaimable im') \<longleftrightarrow> c' \<in> set (im_reclaimable im)"
      "c' \<in> H' \<longleftrightarrow> c' \<in> H"
      using other False by blast+
    ultimately show ?thesis
      using l by (simp add: wf_entry_def)
  qed
  moreover have "dom (ent im') = insert c (dom (ent im))"
    by (simp add: im' AList.update_conv')
  moreover have "set (im_dirty im') \<subseteq> insert c (dom (ent im))" "set (im_reclaimable im') \<subseteq> insert c (dom (ent im))"
    "H' \<subseteq> insert c (dom (ent im))"
    using outside [OF other(1) wf_queues(3) [OF w]] outside [OF other(2) wf_queues(4) [OF w]]
      outside [OF other(3) wf_queues(5) [OF w]] by simp_all
  ultimately show ?thesis
    using d q A' unfolding image_wf_def by (simp add: im' AList.distinct_update)
qed

text \<open>Removing an entry without a buffer.\<close>

lemma wf_delete:
  assumes w: "image_wf p A H im" and e: "ent im c = Some e" "e_data e = None" "c \<in> H"
  shows "image_wf p A (H - {c}) (im\<lparr>im_chunks := AList.delete c (im_chunks im)\<rparr>)"
proof -
  let ?im = "im\<lparr>im_chunks := AList.delete c (im_chunks im)\<rparr>"
  have we: "wf_entry p H im c e" and d: "distinct (map fst (im_chunks im))"
    using w wf_entryD [OF w e(1)] by (simp_all add: image_wf_def)
  have "buffers ?im = buffers im"
    using sum_delete [OF d, where k = c and f = buf_count] e by (simp add: buffers_def buf_count_def)
  moreover have n: "c \<notin> set (im_dirty im)" "c \<notin> set (im_reclaimable im)"
    using we e by (auto simp: wf_entry_def)
  moreover have "wf_entry p (H - {c}) ?im c' e'" if "ent ?im c' = Some e'" for c' e'
  proof -
    have c': "c' \<noteq> c" "ent im c' = Some e'"
      using that by (simp_all add: AList.delete_conv' split: if_splits)
    then have "wf_entry p H im c' e'"
      by (intro wf_entryD [OF w])
    with c'(1) show ?thesis
      by (simp add: wf_entry_def)
  qed
  moreover have "set (im_dirty im) \<union> set (im_reclaimable im) \<union> (H - {c}) \<subseteq> dom (ent ?im)"
    using wf_queues(3-5) [OF w] n by (auto simp: AList.delete_conv')
  ultimately show ?thesis
    using w by (simp add: image_wf_def AList.distinct_delete)
qed

lemma wf_store: "image_wf p A H (im\<lparr>store := s\<rparr>) = image_wf p A H im"
  by (simp add: image_wf_def wf_entry_def buffers_def)

lemma wf_count_stat [simp]: "image_wf p A H (count_stat ops f im) = image_wf p A H im"
  by (simp add: count_stat_def wf_store)

lemma set_queue_delete: "distinct q \<Longrightarrow> set (queue_delete_with_link q c) = set q - {c} \<and> distinct (queue_delete_with_link q c)"
  by (auto simp: queue_delete_with_link_def)

lemma ent_lookup: "ent (entry_lookup c im) = (ent im)(c \<mapsto> (case ent im c of None \<Rightarrow> new_entry | Some e \<Rightarrow> e))"
  by (auto simp: entry_lookup_def AList.update_conv' fun_eq_iff split: option.splits)

section \<open>Acquiring and releasing\<close>

lemma acquire_locked_eq:
  assumes "image_wf p A H im" "ent im c = Some e" "c \<notin> H"
  shows "entry_acquire_locked c im = Some (im\<lparr>im_chunks := AList.update c (e\<lparr>e_busy := True\<rparr>) (im_chunks im),
    im_reclaimable := queue_delete_with_link (im_reclaimable im) c\<rparr>)"
  using wf_entryD [OF assms(1,2)] assms(2,3) by (simp add: entry_acquire_locked_def upd_entry_def wf_entry_def)

lemma wf_acquire_locked:
  assumes "image_wf p A H im" "ent im c = Some e" "c \<notin> H"
  shows "image_wf p A (insert c H) (im\<lparr>im_chunks := AList.update c (e\<lparr>e_busy := True\<rparr>) (im_chunks im),
    im_reclaimable := queue_delete_with_link (im_reclaimable im) c\<rparr>)"
  by (rule wf_put [OF assms(1,2), where e' = "e\<lparr>e_busy := True\<rparr>"])
    (use wf_entryD [OF assms(1,2)] wf_queues(1,2) [OF assms(1)] set_queue_delete [OF wf_queues(2) [OF assms(1)], of c] in
      \<open>auto simp: wf_entry_def buf_count_def\<close>)

lemma acquire_new_eq:
  assumes "image_wf p A H im" "ent im c = None"
  shows "entry_acquire_locked c (entry_lookup c im) = Some (im\<lparr>im_chunks := AList.update c (new_entry\<lparr>e_busy := True\<rparr>)
    (AList.update c new_entry (im_chunks im))\<rparr>)"
proof -
  have "c \<notin> set (im_reclaimable im)"
    using assms(2) wf_queues(4) [OF assms(1)] by blast
  with assms(2) show ?thesis
    by (simp add: entry_lookup_def entry_acquire_locked_def upd_entry_def AList.update_conv' new_entry_def queue_delete_with_link_def)
qed

lemma wf_acquire_new:
  assumes "image_wf p A H im" "ent im c = None" "c < p_chunks p"
  shows "image_wf p A (insert c H) (im\<lparr>im_chunks := AList.update c (new_entry\<lparr>e_busy := True\<rparr>)
    (AList.update c new_entry (im_chunks im))\<rparr>)"
proof -
  have n: "c \<notin> set (im_reclaimable im)" "c \<notin> set (im_dirty im)" "c \<notin> H"
    using assms(2) wf_queues(3-5) [OF assms(1)] by auto
  have u: "AList.update c (new_entry\<lparr>e_busy := True\<rparr>) (AList.update c new_entry xs) = AList.update c (new_entry\<lparr>e_busy := True\<rparr>) xs" for xs
    by (induction xs) auto
  show ?thesis
    by (rule wf_put [OF assms(1,2), where e' = "new_entry\<lparr>e_busy := True\<rparr>"])
      (use n assms(3) wf_queues(1,2) [OF assms(1)] in \<open>auto simp: wf_entry_def buf_count_def new_entry_def u\<close>)
qed

lemma release_data_eq:
  assumes "image_wf p A H im" "ent im c = Some e" "c \<in> H" "e_data e \<noteq> None"
  shows "entry_release_locked c im = Some (im\<lparr>im_chunks := AList.update c (e\<lparr>e_busy := False\<rparr>) (im_chunks im),
    im_reclaimable := im_reclaimable im @ [c]\<rparr>)"
  using wf_entryD [OF assms(1,2)] assms(2-)
  by (auto simp: entry_release_locked_def upd_entry_def wf_entry_def AList.update_conv' queue_push_tail_with_link_def)

lemma wf_release_data:
  assumes "image_wf p A H im" "ent im c = Some e" "c \<in> H" "e_data e \<noteq> None"
  shows "image_wf p A (H - {c}) (im\<lparr>im_chunks := AList.update c (e\<lparr>e_busy := False\<rparr>) (im_chunks im),
    im_reclaimable := im_reclaimable im @ [c]\<rparr>)"
  by (rule wf_put [OF assms(1,2), where e' = "e\<lparr>e_busy := False\<rparr>"])
    (use wf_entryD [OF assms(1,2)] wf_queues(1,2) [OF assms(1)] assms(3,4) in \<open>auto simp: wf_entry_def buf_count_def\<close>)

lemma release_free_eq:
  assumes "image_wf p A H im" "ent im c = Some e" "c \<in> H" "e_data e = None"
  shows "entry_release_locked c im = Some (im\<lparr>im_chunks := AList.delete c (AList.update c (e\<lparr>e_busy := False\<rparr>) (im_chunks im))\<rparr>)"
  using wf_entryD [OF assms(1,2)] assms(2-)
  by (simp add: entry_release_locked_def upd_entry_def wf_entry_def AList.update_conv')

lemma delete_update: "AList.delete c (AList.update c e xs) = AList.delete c xs"
  by (induction xs) auto

lemma update_twice: "AList.update c e (AList.update c e' xs) = AList.update c e xs"
  by (induction xs) auto

section \<open>Cleaning\<close>

text \<open>What cleaning does to the image, in one step.\<close>

definition cleaned :: "nat \<Rightarrow> cache_entry \<Rightarrow> bool \<Rightarrow> 's image \<Rightarrow> 's image" where
  "cleaned c e ok im = im\<lparr>im_chunks := AList.update c (e\<lparr>e_dirty := 0, e_error := e_error e \<or> \<not> ok\<rparr>) (im_chunks im),
     im_dirty := queue_delete_with_link (im_dirty im) c, leave_dirty := leave_dirty im \<or> \<not> ok\<rparr>"

definition err_stat :: "'s chunk_ops \<Rightarrow> pk_err \<Rightarrow> 's \<Rightarrow> 's" where
  "err_stat ops ret s = (if ret = PK_SUCCESS then s else op_stats ops (\<lambda>s. s\<lparr>s_chunk_errors := s_chunk_errors s + 1\<rparr>) s)"

lemma entry_clean_eq:
  assumes "image_wf p A H im" "ent im c = Some e" "e_dirty e \<noteq> 0" "e_data e = Some d"
  shows "entry_clean ops c im = do {
    (ret, s) \<leftarrow> op_update ops c d (store im);
    s \<leftarrow> op_shm_cache_dirty ops c False (err_stat ops ret s);
    Some ((cleaned c e (ret = PK_SUCCESS) im)\<lparr>store := s\<rparr>)
  }"
  using assms(2-4) wf_entryD [OF assms(1,2)]
  by (cases im, cases e) (auto simp: entry_clean_def wf_entry_def entry_set_error_def upd_entry_def count_stat_def
      AList.update_conv' update_twice cleaned_def err_stat_def split: bind_split)

lemma wf_cleaned:
  assumes "image_wf p A H im" "ent im c = Some e"
  shows "image_wf p A H (cleaned c e ok im)"
  unfolding cleaned_def
  by (rule wf_put [OF assms, where e' = "e\<lparr>e_dirty := 0, e_error := e_error e \<or> \<not> ok\<rparr>"])
    (use wf_entryD [OF assms] wf_queues(1,2) [OF assms(1)] set_queue_delete [OF wf_queues(1) [OF assms(1)], of c] in
      \<open>auto simp: wf_entry_def buf_count_def\<close>)

lemma cleaned_simps [simp]:
  "ent (cleaned c e ok im) = (ent im)(c \<mapsto> e\<lparr>e_dirty := 0, e_error := e_error e \<or> \<not> ok\<rparr>)"
  "store (cleaned c e ok im) = store im" "im_dirty (cleaned c e ok im) = queue_delete_with_link (im_dirty im) c"
  "im_reclaimable (cleaned c e ok im) = im_reclaimable im" "im_allocatable (cleaned c e ok im) = im_allocatable im"
  "leave_dirty (cleaned c e ok im) \<longleftrightarrow> leave_dirty im \<or> \<not> ok" "im_stopping (cleaned c e ok im) = im_stopping im"
  by (simp_all add: cleaned_def AList.update_conv')

section \<open>Buffers\<close>

definition evicted :: "nat \<Rightarrow> nat \<Rightarrow> bytes \<Rightarrow> 's image \<Rightarrow> 's image" where
  "evicted c r d im = im\<lparr>im_chunks := AList.delete r (AList.update c ((the (ent im c))\<lparr>e_data := Some d\<rparr>) (im_chunks im))\<rparr>"

text \<open>Giving the buffer of the held entry \<open>r\<close> to \<open>c\<close> and releasing \<open>r\<close>.\<close>

lemma evict_eq:
  assumes "image_wf p A H im" "ent im c = Some e" "ent im r = Some e'" "c \<noteq> r" "r \<in> H" "e_dirty e' = 0" "e_data e = None" "c \<in> H" "e_data e' = Some d"
  shows "do {
      im \<leftarrow> upd_entry c (\<lambda>e. e\<lparr>e_data := Some d\<rparr>) im;
      im \<leftarrow> upd_entry r (\<lambda>e. e\<lparr>e_data := None\<rparr>) im;
      s \<leftarrow> op_shm_cached ops r False (store im);
      entry_release_locked r (im\<lparr>store := s\<rparr>)
    } = do {
      s \<leftarrow> op_shm_cached ops r False (store im);
      Some ((evicted c r d im)\<lparr>store := s\<rparr>)
    }" (is "?l = ?r") and "image_wf p A (H - {r}) (evicted c r d im)"
proof -
  let ?im = "im\<lparr>im_chunks := AList.update c (e\<lparr>e_data := Some d\<rparr>) (im_chunks im)\<rparr>"
  let ?im2 = "?im\<lparr>im_chunks := AList.update r (e'\<lparr>e_data := None\<rparr>) (im_chunks ?im)\<rparr>"
  have w1: "image_wf p (A + 1) H ?im"
    by (rule wf_put [OF assms(1,2), where e' = "e\<lparr>e_data := Some d\<rparr>"])
      (use wf_entryD [OF assms(1,2)] wf_queues(1,2) [OF assms(1)] assms in \<open>auto simp: wf_entry_def buf_count_def\<close>)
  have e1: "ent ?im r = Some e'"
    using assms(3,4) by (simp add: AList.update_conv')
  have w2: "image_wf p A H ?im2"
    by (rule wf_put [OF w1 e1, where e' = "e'\<lparr>e_data := None\<rparr>"])
      (use wf_entryD [OF w1 e1] wf_queues(1,2) [OF w1] assms in \<open>auto simp: wf_entry_def buf_count_def\<close>)
  have e2: "ent ?im2 r = Some (e'\<lparr>e_data := None\<rparr>)"
    by (simp add: AList.update_conv')
  have rel: "entry_release_locked r (?im2\<lparr>store := s\<rparr>) = Some ((evicted c r d im)\<lparr>store := s\<rparr>)" for s
    using release_free_eq [of p A H "?im2\<lparr>store := s\<rparr>" r "e'\<lparr>e_data := None\<rparr>"] w2 e2 assms(2,5)
    by (simp add: wf_store delete_update evicted_def)
  show "?l = ?r"
    using assms(2) e1 rel by (simp add: upd_entry_def split: bind_split)
  show "image_wf p A (H - {r}) (evicted c r d im)"
    using wf_delete [OF w2 e2] assms(2,5) by (simp add: evicted_def delete_update)
qed

lemma ent_evicted: "ent (evicted c r d im) = (ent im)(c \<mapsto> (the (ent im c))\<lparr>e_data := Some d\<rparr>, r := None)"
  by (simp add: evicted_def AList.delete_conv' AList.update_conv')

lemma delete_updates: "c \<noteq> r \<Longrightarrow> AList.delete r (AList.update c x (AList.update r y xs)) = AList.delete r (AList.update c x xs)"
  by (induction xs) (auto simp: delete_update)

text \<open>The image after the buffer \<open>d\<close> of \<open>r\<close> has gone to \<open>c\<close>.\<close>

definition reclaimed :: "nat \<Rightarrow> nat \<Rightarrow> bytes \<Rightarrow> bool \<Rightarrow> 's image \<Rightarrow> 's image" where
  "reclaimed c r d ok im = im\<lparr>
     im_chunks := AList.delete r (AList.update c ((the (ent im c))\<lparr>e_data := Some d\<rparr>) (im_chunks im)),
     im_reclaimable := queue_delete_with_link (im_reclaimable im) r,
     im_dirty := queue_delete_with_link (im_dirty im) r,
     leave_dirty := leave_dirty im \<or> \<not> ok\<rparr>"

definition reclaim_store :: "'s chunk_ops \<Rightarrow> nat \<Rightarrow> bytes \<Rightarrow> bool \<Rightarrow> 's \<Rightarrow> (bool \<times> 's) option" where
  "reclaim_store ops r d dirty s = do {
     let s = op_stats ops (\<lambda>s. s\<lparr>s_cache_evictions := s_cache_evictions s + 1\<rparr>) s;
     (ok, s) \<leftarrow> (if dirty then do {
         (ret, s) \<leftarrow> op_update ops r d s;
         s \<leftarrow> op_shm_cache_dirty ops r False (err_stat ops ret s);
         Some (ret = PK_SUCCESS, op_stats ops (\<lambda>s. s\<lparr>s_cache_evictions_dirty := s_cache_evictions_dirty s + 1\<rparr>) s)
       } else Some (True, s));
     s \<leftarrow> op_shm_cached ops r False s;
     Some (ok, s)
   }"

lemma get_buffer_reclaim:
  assumes w: "image_wf p A {c} im" and e: "ent im c = Some e" "e_data e = None"
    and r: "im_reclaimable im = r # q" "ent im r = Some er" "e_data er = Some d" and al: "im_allocatable im = 0"
  shows "entry_get_buffer ops c im = do {
      (ok, s) \<leftarrow> reclaim_store ops r d (e_dirty er \<noteq> 0) (store im);
      Some ((reclaimed c r d ok im)\<lparr>store := s\<rparr>)
    }"
    and "image_wf p A {c} (reclaimed c r d ok im)"
proof -
  have cr: "c \<noteq> r"
    using wf_entryD [OF w r(2)] r(1) by (auto simp: wf_entry_def)
  let ?s = "op_stats ops (\<lambda>s. s\<lparr>s_cache_evictions := s_cache_evictions s + 1\<rparr>) (store im)"
  let ?im0 = "im\<lparr>store := ?s\<rparr>" and ?er = "er\<lparr>e_busy := True\<rparr>"
  let ?im1 = "?im0\<lparr>im_chunks := AList.update r ?er (im_chunks im), im_reclaimable := queue_delete_with_link (im_reclaimable im) r\<rparr>"
  have w0: "image_wf p A {c} ?im0" "ent ?im0 r = Some er" "r \<notin> {c}"
    using w r cr by (simp_all add: wf_store)
  have acq: "entry_acquire_locked r ?im0 = Some ?im1"
    using acquire_locked_eq [OF w0] by simp
  have w1: "image_wf p A {c, r} ?im1"
    using wf_acquire_locked [OF w0] by (simp add: insert_commute)
  have e1: "ent ?im1 r = Some ?er" "ent ?im1 c = Some e" "e_data ?er = Some d"
    using e r cr by (simp_all add: AList.update_conv')
  let ?er' = "\<lambda>ok. er\<lparr>e_busy := True, e_dirty := 0, e_error := e_error er \<or> \<not> ok\<rparr>"
  have w2: "image_wf p A {c, r} ((cleaned r ?er ok ?im1)\<lparr>store := s\<rparr>)" for ok s
    using wf_cleaned [OF w1 e1(1)] by (simp add: wf_store)
  have e2: "ent ((cleaned r ?er ok ?im1)\<lparr>store := s\<rparr>) c = Some e" "ent ((cleaned r ?er ok ?im1)\<lparr>store := s\<rparr>) r = Some (?er' ok)" for ok s
    using e1 cr by simp_all
  have ev2: "evicted c r d ((cleaned r ?er ok ?im1)\<lparr>store := s\<rparr>) = (reclaimed c r d ok im)\<lparr>store := s\<rparr>" for ok s
    using cr e(1) by (cases im) (simp add: evicted_def cleaned_def reclaimed_def delete_updates update_twice AList.update_conv')
  have "{c, r} - {r} = {c}"
    using cr by blast
  then show "image_wf p A {c} (reclaimed c r d ok im)"
    using evict_eq(2) [OF w2 [where ok = ok and s = "store im"] e2 [where ok = ok and s = "store im"] cr, where d = d] e r(3) cr ev2 [where ok = ok and s = "store im"] by (simp add: wf_store)
  show "entry_get_buffer ops c im = do {
      (ok, s) \<leftarrow> reclaim_store ops r d (e_dirty er \<noteq> 0) (store im);
      Some ((reclaimed c r d ok im)\<lparr>store := s\<rparr>)
    }"
  proof (cases "e_dirty er = 0")
    case True
    have nd: "r \<notin> set (im_dirty im)"
      using wf_entryD [OF w r(2)] True by (simp add: wf_entry_def)
    have ev1: "evicted c r d ?im1 = (reclaimed c r d True im)\<lparr>store := ?s\<rparr>"
      using cr e(1) nd by (cases im) (simp add: evicted_def reclaimed_def delete_updates AList.update_conv' queue_delete_with_link_def)
    have "entry_get_buffer ops c im = do {
        s \<leftarrow> op_shm_cached ops r False ?s;
        Some ((evicted c r d ?im1)\<lparr>store := s\<rparr>)
      }"
      using evict_eq(1) [OF w1 e1(2,1) cr, of d ops] True al r e1 acq e(2)
      by (simp add: entry_get_buffer_def count_stat_def)
    then show ?thesis
      using True by (simp add: reclaim_store_def ev1 split: bind_split)
  next
    case False
    have cl: "entry_clean ops r ?im1 = do {
        (ret, s) \<leftarrow> op_update ops r d ?s;
        s \<leftarrow> op_shm_cache_dirty ops r False (err_stat ops ret s);
        Some ((cleaned r ?er (ret = PK_SUCCESS) ?im1)\<lparr>store := s\<rparr>)
      }"
      using entry_clean_eq [OF w1 e1(1) _ e1(3), of ops] False by simp
    have gb: "entry_get_buffer ops c im = do {
        im \<leftarrow> entry_clean ops r ?im1;
        let im = im\<lparr>store := op_stats ops (\<lambda>s. s\<lparr>s_cache_evictions_dirty := s_cache_evictions_dirty s + 1\<rparr>) (store im)\<rparr>;
        e \<leftarrow> ent im r;
        data \<leftarrow> e_data e;
        im \<leftarrow> upd_entry c (\<lambda>e. e\<lparr>e_data := Some data\<rparr>) im;
        im \<leftarrow> upd_entry r (\<lambda>e. e\<lparr>e_data := None\<rparr>) im;
        s \<leftarrow> op_shm_cached ops r False (store im);
        entry_release_locked r (im\<lparr>store := s\<rparr>)
      }"
      using False al r e1 acq by (simp add: entry_get_buffer_def count_stat_def)
    show ?thesis
    proof (cases "do {
        (ret, s) \<leftarrow> op_update ops r d ?s;
        s \<leftarrow> op_shm_cache_dirty ops r False (err_stat ops ret s);
        Some (ret, s)
      }")
      case None
      then show ?thesis
        using False unfolding gb cl reclaim_store_def by (auto split: bind_split_asm)
    next
      case (Some x)
      then obtain ret s0 s1 where x: "op_update ops r d ?s = Some (ret, s0)" "op_shm_cache_dirty ops r False (err_stat ops ret s0) = Some s1"
        by (auto split: bind_split_asm)
      have cl1: "entry_clean ops r ?im1 = Some ((cleaned r ?er (ret = PK_SUCCESS) ?im1)\<lparr>store := s1\<rparr>)"
        using cl x by simp
      let ?s2 = "op_stats ops (\<lambda>s. s\<lparr>s_cache_evictions_dirty := s_cache_evictions_dirty s + 1\<rparr>) s1"
      have "entry_get_buffer ops c im = do {
          s \<leftarrow> op_shm_cached ops r False ?s2;
          Some ((reclaimed c r d (ret = PK_SUCCESS) im)\<lparr>store := s\<rparr>)
        }"
        using evict_eq(1) [OF w2 [where ok = "ret = PK_SUCCESS" and s = ?s2] e2 [where ok = "ret = PK_SUCCESS" and s = ?s2] cr, where d = d and ops = ops]
          e(2) r(3) ev2 [where ok = "ret = PK_SUCCESS" and s = ?s2]
        unfolding gb cl1 by simp
      then show ?thesis
        using False x by (simp add: reclaim_store_def split: bind_split)
    qed
  qed
qed

definition filled :: "nat \<Rightarrow> cache_entry \<Rightarrow> bytes \<Rightarrow> bool \<Rightarrow> 's image \<Rightarrow> 's image" where
  "filled c e d ok im = im\<lparr>im_chunks := AList.update c (e\<lparr>e_data := Some d, e_error := e_error e \<or> \<not> ok\<rparr>) (im_chunks im),
     leave_dirty := leave_dirty im \<or> \<not> ok\<rparr>"

lemma filled_simps [simp]:
  "ent (filled c e d ok im) = (ent im)(c \<mapsto> e\<lparr>e_data := Some d, e_error := e_error e \<or> \<not> ok\<rparr>)"
  "store (filled c e d ok im) = store im" "leave_dirty (filled c e d ok im) \<longleftrightarrow> leave_dirty im \<or> \<not> ok"
  "im_dirty (filled c e d ok im) = im_dirty im" "im_stopping (filled c e d ok im) = im_stopping im"
  by (simp_all add: filled_def AList.update_conv')

lemma wf_filled:
  assumes "image_wf p A H im" "ent im c = Some e" "e_data e \<noteq> None"
  shows "image_wf p A H (filled c e d ok im)"
  unfolding filled_def
  by (rule wf_put [OF assms(1,2), where e' = "e\<lparr>e_data := Some d, e_error := e_error e \<or> \<not> ok\<rparr>"])
    (use wf_entryD [OF assms(1,2)] wf_queues(1,2) [OF assms(1)] assms(3) in \<open>auto simp: wf_entry_def buf_count_def\<close>)

lemma get_buffer_alloc:
  assumes w: "image_wf p A {c} im" and e: "ent im c = Some e" "e_data e = None" and al: "0 < im_allocatable im"
  shows "entry_get_buffer ops c im = Some ((filled c e (op_fresh ops c) True im)\<lparr>im_allocatable := im_allocatable im - 1\<rparr>)"
    and "image_wf p A {c} ((filled c e (op_fresh ops c) True im)\<lparr>im_allocatable := im_allocatable im - 1\<rparr>)"
proof -
  show "entry_get_buffer ops c im = Some ((filled c e (op_fresh ops c) True im)\<lparr>im_allocatable := im_allocatable im - 1\<rparr>)"
    using e al by (cases im, cases e) (simp add: entry_get_buffer_def filled_def upd_entry_def)
  show "image_wf p A {c} ((filled c e (op_fresh ops c) True im)\<lparr>im_allocatable := im_allocatable im - 1\<rparr>)"
    unfolding filled_def
    by (rule wf_put [OF w e(1), where e' = "e\<lparr>e_data := Some (op_fresh ops c), e_error := e_error e \<or> \<not> True\<rparr>"])
      (use wf_entryD [OF w e(1)] wf_queues(1,2) [OF w] al e(2) in \<open>auto simp: wf_entry_def buf_count_def\<close>)
qed

text \<open>The head of the queue of reclaimable entries has a buffer.\<close>

lemma reclaimable_head:
  assumes "image_wf p A {c} im" "im_reclaimable im = r # q"
  obtains er d where "ent im r = Some er" "e_data er = Some d" "r \<noteq> c"
proof -
  obtain er where er: "ent im r = Some er"
    using wf_queues(4) [OF assms(1)] assms(2) by auto
  with wf_entryD [OF assms(1) er] assms(2) that show thesis
    by (auto simp: wf_entry_def)
qed

lemma get_buffer_wf:
  assumes w: "image_wf p A {c} im" and e: "ent im c = Some e" "e_data e = None" and g: "entry_get_buffer ops c im = Some im'"
  shows "image_wf p A {c} im' \<and> (\<exists>d. ent im' c = Some (e\<lparr>e_data := Some d\<rparr>)) \<and> (leave_dirty im \<longrightarrow> leave_dirty im')"
proof (cases "0 < im_allocatable im")
  case True
  have "e\<lparr>e_data := d, e_error := e_error e\<rparr> = e\<lparr>e_data := d\<rparr>" for d
    by (cases e) simp
  with get_buffer_alloc [OF w e True, of ops] g show ?thesis
    by auto
next
  case False
  then obtain r q where r: "im_reclaimable im = r # q"
    using g by (cases "im_reclaimable im") (auto simp: entry_get_buffer_def)
  obtain er d where er: "ent im r = Some er" "e_data er = Some d" "r \<noteq> c"
    using w r by (rule reclaimable_head)
  from get_buffer_reclaim(1) [OF w e r er(1,2), where ops = ops] get_buffer_reclaim(2) [OF w e r er(1,2)] False g obtain ok s where
    im': "im' = (reclaimed c r d ok im)\<lparr>store := s\<rparr>" "image_wf p A {c} (reclaimed c r d ok im)"
    by (auto split: bind_split_asm)
  then show ?thesis
    using e er(3) by (simp add: wf_store) (auto simp: reclaimed_def AList.delete_conv' AList.update_conv')
qed

definition miss_stat :: "'s chunk_ops \<Rightarrow> 's \<Rightarrow> 's" where
  "miss_stat ops = op_stats ops (\<lambda>s. s\<lparr>s_cache_misses := s_cache_misses s + 1\<rparr>)"

lemma populate_eq:
  assumes "ent im c = Some e" "e_data e = Some d"
  shows "entry_populate ops c im = do {
      (ret, d, s) \<leftarrow> op_get ops c d (store im);
      Some ((filled c e d (ret = PK_SUCCESS) im)\<lparr>store := miss_stat ops (err_stat ops ret s)\<rparr>)
    }"
  using assms
  by (cases im, cases e) (auto simp: entry_populate_def entry_set_error_def upd_entry_def count_stat_def AList.update_conv'
      update_twice filled_def err_stat_def miss_stat_def split: bind_split)

text \<open>The entry of \<open>c\<close>, held, before it is given a buffer.\<close>

definition held :: "nat \<Rightarrow> 's image \<Rightarrow> 's image" where
  "held c im = im\<lparr>im_chunks := AList.update c ((case ent im c of None \<Rightarrow> new_entry | Some e \<Rightarrow> e)\<lparr>e_busy := True\<rparr>) (im_chunks im),
     im_reclaimable := queue_delete_with_link (im_reclaimable im) c\<rparr>"

lemma held_eq:
  assumes "image_wf p A {} im" "c < p_chunks p"
  shows "entry_acquire_locked c (entry_lookup c im) = Some (held c im)" "image_wf p A {c} (held c im)"
proof -
  have "entry_acquire_locked c (entry_lookup c im) = Some (held c im) \<and> image_wf p A {c} (held c im)"
  proof (cases "ent im c")
    case None
    have "c \<notin> set (im_reclaimable im)"
      using None wf_queues(4) [OF assms(1)] by blast
    with acquire_new_eq [OF assms(1) None] wf_acquire_new [OF assms(1) None assms(2)] None show ?thesis
      by (simp add: held_def update_twice queue_delete_with_link_def)
  next
    case (Some e)
    with acquire_locked_eq [OF assms(1) Some] wf_acquire_locked [OF assms(1) Some] show ?thesis
      by (simp add: held_def entry_lookup_def)
  qed
  then show "entry_acquire_locked c (entry_lookup c im) = Some (held c im)" "image_wf p A {c} (held c im)"
    by simp_all
qed

lemma ent_held [simp]: "ent (held c im) = (ent im)(c \<mapsto> (case ent im c of None \<Rightarrow> new_entry | Some e \<Rightarrow> e)\<lparr>e_busy := True\<rparr>)"
  by (simp add: held_def AList.update_conv')

lemma held_simps [simp]:
  "store (held c im) = store im" "leave_dirty (held c im) = leave_dirty im" "im_dirty (held c im) = im_dirty im"
  "im_stopping (held c im) = im_stopping im"
  by (simp_all add: held_def)

lemma entry_acquire_wf:
  assumes w: "image_wf p A {} im" "c < p_chunks p" and a: "entry_acquire ops c with_data im = Some im'"
  shows "image_wf p A {c} im' \<and> (\<exists>e d. ent im' c = Some e \<and> e_data e = Some d) \<and> (leave_dirty im \<longrightarrow> leave_dirty im')"
proof -
  note h = held_eq [OF w]
  obtain e where e: "ent (held c im) c = Some e"
    by simp
  show ?thesis
  proof (cases "e_data e")
    case (Some d)
    with a h e show ?thesis
      by (auto simp: entry_acquire_def wf_count_stat count_stat_def wf_store)
  next
    case None
    with a h(1) e obtain im1 s where g: "entry_get_buffer ops c (held c im) = Some im1" "op_shm_cached ops c True (store im1) = Some s"
      "im' = im1\<lparr>store := s\<rparr> \<and> \<not> with_data \<or> entry_populate ops c (im1\<lparr>store := s\<rparr>) = Some im'"
      by (auto simp: entry_acquire_def split: bind_split_asm if_splits)
    from get_buffer_wf [OF h(2) e None g(1)] obtain d where
      im1: "image_wf p A {c} (im1\<lparr>store := s\<rparr>)" "ent (im1\<lparr>store := s\<rparr>) c = Some (e\<lparr>e_data := Some d\<rparr>)" "leave_dirty im \<longrightarrow> leave_dirty im1"
      by (auto simp: wf_store)
    from g(3) show ?thesis
    proof
      assume "entry_populate ops c (im1\<lparr>store := s\<rparr>) = Some im'"
      then obtain d' ok s' where "im' = (filled c (e\<lparr>e_data := Some d\<rparr>) d' ok (im1\<lparr>store := s\<rparr>))\<lparr>store := s'\<rparr>"
        using populate_eq [OF im1(2), of d ops] by (auto split: bind_split_asm)
      with wf_filled [OF im1(1,2), of d' ok] im1(3) show ?thesis
        by (simp add: wf_store)
    qed (use im1 in auto)
  qed
qed

section \<open>Releasing\<close>

definition released :: "nat \<Rightarrow> nat \<Rightarrow> 's image \<Rightarrow> 's image" where
  "released c now im = im\<lparr>
     im_chunks := AList.update c ((the (ent im c))\<lparr>e_busy := False, e_dirty := now\<rparr>) (im_chunks im),
     im_dirty := im_dirty im @ (if now \<noteq> e_dirty (the (ent im c)) then [c] else []),
     im_reclaimable := im_reclaimable im @ [c]\<rparr>"

definition release_store :: "'s chunk_ops \<Rightarrow> nat \<Rightarrow> bool \<Rightarrow> nat \<Rightarrow> 's \<Rightarrow> (nat \<times> 's) option" where
  "release_store ops c dirty before s =
     (if \<not> dirty then Some (before, s)
      else do {
        s \<leftarrow> op_shm_dirty ops c s;
        if before \<noteq> 0 then Some (before, s)
        else do {
          let (now, s) = op_time ops s;
          s \<leftarrow> op_shm_cache_dirty ops c True s;
          Some (now, s)
        }
      })"

text \<open>The requests that the image serves, and the cleaner thread between them.\<close>

inductive image_step :: "'s chunk_ops \<Rightarrow> 's image \<Rightarrow> 's image \<Rightarrow> bool" for ops where
  step_read: "image_read ops buf start count im = Some (n, buf', im') \<Longrightarrow> image_step ops im im'"
| step_write: "image_write ops buf start count im = Some (n, im') \<Longrightarrow> image_step ops im im'"
| step_sync: "image_sync ops im = Some im' \<Longrightarrow> image_step ops im im'"
| step_cleaner: "entry_cleaner ops im = Some im' \<Longrightarrow> image_step ops im im'"

text \<open>\<open>A\<close> is the number of buffers that \<open>image_init\<close> allows.\<close>

inductive reachable :: "'s chunk_ops \<Rightarrow> nat \<Rightarrow> 's image \<Rightarrow> bool" for ops where
  reach_init: "image_init ops phys chunk_cache cleaner s = (PK_SUCCESS, Some im) \<Longrightarrow> reachable ops (im_allocatable im) im"
| reach_step: "reachable ops A im \<Longrightarrow> image_step ops im im' \<Longrightarrow> reachable ops A im'"

inductive_cases image_stepE: "image_step ops im im'"

text \<open>The clock of the machine is past the epoch.\<close>

locale past_epoch =
  fixes ops :: "'s chunk_ops"
  assumes time_pos: "op_time ops s = (now, s') \<Longrightarrow> 0 < now"
begin

lemma release_eq:
  assumes w: "image_wf p A {c} im" and e: "ent im c = Some e" "e_data e \<noteq> None"
  shows "entry_release ops c dirty im = do {
      (now, s) \<leftarrow> release_store ops c dirty (e_dirty e) (store im);
      Some ((released c now im)\<lparr>store := s\<rparr>)
    }"
    and "release_store ops c dirty (e_dirty e) (store im) = Some (now, s) \<Longrightarrow> image_wf p A {} (released c now im)"
proof -
  have rd: "im\<lparr>im_chunks := AList.update c (e\<lparr>e_busy := False\<rparr>) (im_chunks im), im_reclaimable := im_reclaimable im @ [c]\<rparr> = released c (e_dirty e) im"
    using e(1) by (cases im, cases e) (simp add: released_def)
  have keep: "entry_release_locked c (im\<lparr>store := s\<rparr>) = Some ((released c (e_dirty e) im)\<lparr>store := s\<rparr>)" for s
  proof -
    have "image_wf p A {c} (im\<lparr>store := s\<rparr>)" "ent (im\<lparr>store := s\<rparr>) c = Some e" "c \<in> {c}"
      using w e by (simp_all add: wf_store)
    from release_data_eq [OF this e(2)] show ?thesis
      using e(1) by (cases im, cases e) (simp add: released_def)
  qed
  let ?im = "\<lambda>now s. im\<lparr>im_chunks := AList.update c (e\<lparr>e_dirty := now\<rparr>) (im_chunks im), im_dirty := im_dirty im @ [c], store := s\<rparr>"
  have w1: "image_wf p A {c} (?im now s)" if "now \<noteq> 0" "e_dirty e = 0" for now s
    by (rule wf_put [OF w e(1), where e' = "e\<lparr>e_dirty := now\<rparr>"])
      (use that wf_entryD [OF w e(1)] wf_queues(1,2) [OF w] e(2) in \<open>auto simp: wf_entry_def buf_count_def\<close>)
  have e1: "ent (?im now s) c = Some (e\<lparr>e_dirty := now\<rparr>)" for now s
    by (simp add: AList.update_conv')
  have mk: "entry_release_locked c (?im now s) = Some ((released c now im)\<lparr>store := s\<rparr>)"
    "image_wf p A {} (released c now im)" if "now \<noteq> 0" "e_dirty e = 0" for now s
  proof -
    have eq: "(?im now s)\<lparr>im_chunks := AList.update c (e\<lparr>e_dirty := now, e_busy := False\<rparr>) (im_chunks (?im now s)),
        im_reclaimable := im_reclaimable (?im now s) @ [c]\<rparr> = (released c now im)\<lparr>store := s\<rparr>" for s
      using that e(1) by (cases im, cases e) (simp add: released_def update_twice)
    show "entry_release_locked c (?im now s) = Some ((released c now im)\<lparr>store := s\<rparr>)"
      using release_data_eq [OF w1 [OF that] e1] e(2) eq by simp
    show "image_wf p A {} (released c now im)"
      using wf_release_data [OF w1 [OF that] e1, of "store im"] e(2) eq [of "store im"] by (simp add: wf_store)
  qed
  have push: "queue_push_tail_with_link (im_dirty im) c = Some (im_dirty im @ [c])" if "e_dirty e = 0"
    using wf_entryD [OF w e(1)] that by (simp add: wf_entry_def queue_push_tail_with_link_def)
  have cm: "im\<lparr>store := s, im_chunks := x, im_dirty := q, store := s'\<rparr> = im\<lparr>im_chunks := x, im_dirty := q, store := s'\<rparr>" for s x q s'
    by (cases im) simp
  show "entry_release ops c dirty im = do {
      (now, s) \<leftarrow> release_store ops c dirty (e_dirty e) (store im);
      Some ((released c now im)\<lparr>store := s\<rparr>)
    }"
  proof (cases "dirty \<and> e_dirty e = 0")
    case False
    then show ?thesis
      using e(1) keep keep [of "store im"] by (auto simp: entry_release_def release_store_def split: bind_split)
  next
    case True
    then show ?thesis
      using e(1) push mk(1) time_pos
      by (auto simp: entry_release_def release_store_def upd_entry_def cm split: bind_split prod.splits)
  qed
  show "image_wf p A {} (released c now im)" if "release_store ops c dirty (e_dirty e) (store im) = Some (now, s)"
  proof (cases "dirty \<and> e_dirty e = 0")
    case False
    then have "now = e_dirty e"
      using that by (auto simp: release_store_def split: bind_split_asm if_splits)
    then show ?thesis
      using wf_release_data [OF w e(1)] e(2) rd by simp
  next
    case True
    then have "now \<noteq> 0"
      using that time_pos by (auto simp: release_store_def split: bind_split_asm prod.splits)
    with True show ?thesis
      by (intro mk(2)) simp_all
  qed
qed

lemma entry_release_wf:
  assumes "image_wf p A {c} im" "ent im c = Some e" "e_data e \<noteq> None" "entry_release ops c dirty im = Some im'"
  shows "image_wf p A {} im' \<and> (leave_dirty im \<longrightarrow> leave_dirty im')"
  using release_eq [OF assms(1-3), of dirty] assms(4)
  by (auto simp: wf_store released_def split: bind_split_asm)

text \<open>One round of the cleaning loop keeps the invariant; when it cleans, the queue of dirty entries becomes shorter.\<close>

lemma clean_head_wf:
  assumes w: "image_wf p A {} im" and q: "im_dirty im = c # q" and h: "entry_clean_head ops force c im = Some (go, im')"
  shows "image_wf p A {} im' \<and> (leave_dirty im \<longrightarrow> leave_dirty im') \<and> im_dirty im' = (if go then q else c # q) \<and> (force \<longrightarrow> go)
    \<and> dom (ent im') = dom (ent im)"
proof -
  obtain e where e: "ent im c = Some e"
    using wf_queues(3) [OF w] q by auto
  then have dirty: "e_dirty e \<noteq> 0" "e_data e \<noteq> None" "c < p_chunks p"
    using wf_entryD [OF w e] q by (auto simp: wf_entry_def)
  then obtain d where d: "e_data e = Some d" by blast
  have hc: "entry_lookup c im = im" "ent (held c im) c = Some (e\<lparr>e_busy := True\<rparr>)"
    using e by (simp_all add: entry_lookup_def)
  note hold = held_eq [OF w dirty(3), unfolded hc(1)]
  let ?e = "e\<lparr>e_busy := True\<rparr>"
  have rel: "\<exists>x. entry_release_locked c im1 = Some x \<and> image_wf p A {} x \<and> leave_dirty x = leave_dirty im1 \<and> im_dirty x = im_dirty im1
      \<and> dom (ent x) = dom (ent im1)" if "image_wf p A {c} im1" "ent im1 c = Some e1" "e_data e1 \<noteq> None" for im1 :: "'s image" and e1
    using release_data_eq [OF that(1,2) _ that(3)] wf_release_data [OF that(1,2) _ that(3)] that(2) by (auto simp: AList.update_conv')
  obtain now s where now: "(if force then (0, store (held c im)) else op_time ops (store (held c im))) = (now, s)"
    by fastforce
  let ?im = "(held c im)\<lparr>store := s\<rparr>"
  have w1: "image_wf p A {c} ?im" "ent ?im c = Some ?e" "e_data ?e = Some d" "im_dirty ?im = c # q"
    using hold hc(2) d q by (simp_all add: wf_store)
  show ?thesis
  proof (cases "\<not> force \<and> e_dirty e + DIRTY_WRITEBACK_DELAY > now")
    case True
    with h hold(1) hc(2) dirty now have "entry_release_locked c ?im \<bind> (\<lambda>im. Some (False, im)) = Some (go, im')"
      by (simp add: entry_clean_head_def del: ent_held)
    with rel [OF w1(1,2)] w1(3,4) True e show ?thesis
      by (auto split: bind_split_asm)
  next
    case False
    with h hold(1) hc(2) dirty now have "entry_clean ops c ?im \<bind> (\<lambda>im. entry_release_locked c im \<bind> (\<lambda>im. Some (True, im))) = Some (go, im')"
      by (auto simp: entry_clean_head_def simp del: ent_held)
    then obtain im1 where im1: "entry_clean ops c ?im = Some im1" "entry_release_locked c im1 = Some im'" "go"
      by (auto split: bind_split_asm)
    obtain ok s1 where c1: "im1 = (cleaned c ?e ok ?im)\<lparr>store := s1\<rparr>"
      using entry_clean_eq [OF w1(1,2) _ w1(3), of ops] dirty(1) im1(1) by (auto split: bind_split_asm)
    have "image_wf p A {c} im1" "ent im1 c = Some (?e\<lparr>e_dirty := 0, e_error := e_error e \<or> \<not> ok\<rparr>)" "im_dirty im1 = q"
      using wf_cleaned [OF w1(1,2), of ok] w1(4) by (simp_all add: c1 wf_store queue_delete_with_link_def)
    with rel [of im1 "?e\<lparr>e_dirty := 0, e_error := e_error e \<or> \<not> ok\<rparr>"] d im1(2,3) c1 e show ?thesis
      by auto
  qed
qed

text \<open>The loop ends as the queue becomes shorter.\<close>

lemma clean_all_wf:
  assumes "image_wf p A {} im" "entry_clean_all ops force im = Some im'"
  shows "image_wf p A {} im' \<and> (leave_dirty im \<longrightarrow> leave_dirty im') \<and> (force \<longrightarrow> im_dirty im' = []) \<and> dom (ent im') = dom (ent im)"
  using assms
proof (induction "length (im_dirty im)" arbitrary: im)
  case 0
  then show ?case
    by (simp add: entry_clean_all.simps [of ops force im])
next
  case (Suc n)
  then obtain c q where q: "im_dirty im = c # q"
    by (cases "im_dirty im") auto
  obtain go im1 where h: "entry_clean_head ops force c im = Some (go, im1)"
    "if go then entry_clean_all ops force im1 = Some im' else im' = im1"
    using Suc.prems(2) q by (auto simp: entry_clean_all.simps [of ops force im] split: bind_split_asm if_splits)
  note w = clean_head_wf [OF Suc.prems(1) q h(1)]
  show ?case
  proof (cases go)
    case True
    with w h(2) q Suc.hyps have "n = length (im_dirty im1)" "image_wf p A {} im1" "entry_clean_all ops force im1 = Some im'"
      by auto
    from Suc.hyps(1) [OF this] w show ?thesis by auto
  qed (use w h(2) in auto)
qed

lemma read_chunk_wf:
  assumes "image_wf p A {} im" "cur_chunk cur < p_chunks p" "image_read_chunk ops cur buf im = Some (r, buf', im')"
  shows "image_wf p A {} im' \<and> (leave_dirty im \<longrightarrow> leave_dirty im')"
proof -
  obtain im1 where a: "entry_acquire ops (cur_chunk cur) True im = Some im1"
    using assms(3) by (auto simp: image_read_chunk_def split: bind_split_asm)
  from entry_acquire_wf [OF assms(1,2) a] obtain e d where w: "image_wf p A {cur_chunk cur} im1" "ent im1 (cur_chunk cur) = Some e"
    "e_data e = Some d" "leave_dirty im \<longrightarrow> leave_dirty im1" by blast
  obtain im2 where im2: "entry_release ops (cur_chunk cur) False im1 = Some im2" "im' = im2 \<or> (\<exists>f. im' = count_stat ops f im2)"
    using assms(3) a w(2,3) by (auto simp: image_read_chunk_def split: bind_split_asm if_splits)
  with entry_release_wf [OF w(1,2) _ im2(1)] w(3,4) show ?thesis
    by (auto simp: wf_count_stat count_stat_def wf_store)
qed

lemma write_chunk_wf:
  assumes "image_wf p A {} im" "cur_chunk cur < p_chunks p" "image_write_chunk ops cur buf im = Some (r, im')"
  shows "image_wf p A {} im' \<and> (leave_dirty im \<longrightarrow> leave_dirty im')"
proof -
  obtain w im1 where a: "entry_acquire ops (cur_chunk cur) w im = Some im1" "w = (cur_length cur \<noteq> p_chunksize (op_parcel ops))"
    using assms(3) by (auto simp: image_write_chunk_def Let_def split: bind_split_asm)
  from entry_acquire_wf [OF assms(1,2) a(1)] obtain e d where w: "image_wf p A {cur_chunk cur} im1" "ent im1 (cur_chunk cur) = Some e"
    "e_data e = Some d" "leave_dirty im \<longrightarrow> leave_dirty im1" by blast
  have fin: ?thesis if "entry_release ops (cur_chunk cur) dirty im2 = Some im3" "image_wf p A {cur_chunk cur} im2"
    "ent im2 (cur_chunk cur) = Some e2" "e_data e2 \<noteq> None" "leave_dirty im1 = leave_dirty im2"
    "im' = im3 \<or> (\<exists>f. im' = count_stat ops f im3) \<or> (\<exists>f g. im' = count_stat ops f (count_stat ops g im3))" for dirty im2 im3 e2
    using entry_release_wf [OF that(2-4,1)] that(5,6) w(4) by (auto simp: wf_count_stat count_stat_def wf_store)
  show ?thesis
  proof (cases "e_error e")
    case True
    with assms(3) a w(2) obtain im3 where "entry_release ops (cur_chunk cur) False im1 = Some im3" "im' = im3"
      by (auto simp: image_write_chunk_def Let_def split: bind_split_asm)
    with w(1-3) show ?thesis
      by (intro fin [of False im1 im3 e]) simp_all
  next
    case False
    let ?d = "blit d (cur_offset cur) (take (cur_length cur) (drop (cur_buf_offset cur) buf))"
    let ?im2 = "im1\<lparr>im_chunks := AList.update (cur_chunk cur) (e\<lparr>e_data := Some ?d\<rparr>) (im_chunks im1)\<rparr>"
    have f: "filled (cur_chunk cur) e ?d True im1 = ?im2"
      by (cases im1, cases e) (simp add: filled_def)
    have "image_wf p A {cur_chunk cur} ?im2"
      using wf_filled [OF w(1,2), of ?d True] w(3) by (simp add: f)
    moreover obtain im3 where "entry_release ops (cur_chunk cur) True ?im2 = Some im3"
      "im' = count_stat ops (\<lambda>s. s\<lparr>s_bytes_written := s_bytes_written s + of_nat (cur_length cur)\<rparr>) im3
       \<or> im' = count_stat ops (\<lambda>s. s\<lparr>s_whole_chunk_updates := s_whole_chunk_updates s + 1\<rparr>)
         (count_stat ops (\<lambda>s. s\<lparr>s_bytes_written := s_bytes_written s + of_nat (cur_length cur)\<rparr>) im3)"
      using assms(3) a w(2,3) False by (auto simp: image_write_chunk_def upd_entry_def Let_def split: bind_split_asm if_splits)
    ultimately show ?thesis
      by (intro fin [of True ?im2 im3 "e\<lparr>e_data := Some ?d\<rparr>"]) (auto simp: AList.update_conv')
  qed
qed

lemma io_chunk_in_range: "io_chunk p cur = (True, cur') \<Longrightarrow> cur_chunk cur' < p_chunks p"
  by (auto simp: io_chunk_def Let_def split: if_splits)

lemma read_loop_wf:
  assumes "image_wf (op_parcel ops) A {} im" "image_read_loop ops cur buf im = Some (n, buf', im')"
  shows "image_wf (op_parcel ops) A {} im' \<and> (leave_dirty im \<longrightarrow> leave_dirty im')"
proof -
  let ?P = "\<lambda>ops' cur buf im r. ops' = ops \<longrightarrow> image_wf (op_parcel ops) A {} im
    \<longrightarrow> (case r of (n, buf', im') \<Rightarrow> image_wf (op_parcel ops) A {} im' \<and> (leave_dirty im \<longrightarrow> leave_dirty im'))"
  have "?P ops cur buf im (n, buf', im')"
  proof (rule image_read_loop.raw_induct [of ?P, OF _ assms(2)], goal_cases)
    case (1 loop ops' cur buf im r)
    obtain go cur' where io: "io_chunk (op_parcel ops') cur = (go, cur')"
      by fastforce
    show ?case
    proof (intro impI)
      assume o: "ops' = ops" and w: "image_wf (op_parcel ops) A {} im"
      show "case r of (n, buf', im') \<Rightarrow> image_wf (op_parcel ops) A {} im' \<and> (leave_dirty im \<longrightarrow> leave_dirty im')"
      proof (cases go)
        case True
        with 1(2) io o obtain r1 buf1 im1 where c: "image_read_chunk ops cur' buf im = Some (r1, buf1, im1)"
          "r1 = None \<and> loop ops cur' buf1 im1 = Some r \<or> (\<exists>n. r = (n, buf1, im1))"
          by (auto split: bind_split_asm option.splits)
        have w1: "image_wf (op_parcel ops) A {} im1 \<and> (leave_dirty im \<longrightarrow> leave_dirty im1)"
          using read_chunk_wf [OF w io_chunk_in_range c(1)] io o True by simp
        with c(2) 1(1) [of ops cur' buf1 im1 r] show ?thesis
          by (auto split: prod.splits)
      qed (use 1(2) io o w in auto)
    qed
  qed
  with assms(1) show ?thesis by simp
qed

lemma write_loop_wf:
  assumes "image_wf (op_parcel ops) A {} im" "image_write_loop ops cur buf im = Some (n, im')"
  shows "image_wf (op_parcel ops) A {} im' \<and> (leave_dirty im \<longrightarrow> leave_dirty im')"
proof -
  let ?P = "\<lambda>ops' cur buf im r. ops' = ops \<longrightarrow> image_wf (op_parcel ops) A {} im
    \<longrightarrow> (case r of (n, im') \<Rightarrow> image_wf (op_parcel ops) A {} im' \<and> (leave_dirty im \<longrightarrow> leave_dirty im'))"
  have "?P ops cur buf im (n, im')"
  proof (rule image_write_loop.raw_induct [of ?P, OF _ assms(2)], goal_cases)
    case (1 loop ops' cur buf im r)
    obtain go cur' where io: "io_chunk (op_parcel ops') cur = (go, cur')"
      by fastforce
    show ?case
    proof (intro impI)
      assume o: "ops' = ops" and w: "image_wf (op_parcel ops) A {} im"
      show "case r of (n, im') \<Rightarrow> image_wf (op_parcel ops) A {} im' \<and> (leave_dirty im \<longrightarrow> leave_dirty im')"
      proof (cases go)
        case True
        with 1(2) io o obtain r1 im1 where c: "image_write_chunk ops cur' buf im = Some (r1, im1)"
          "r1 = None \<and> loop ops cur' buf im1 = Some r \<or> (\<exists>n. r = (n, im1))"
          by (auto split: bind_split_asm option.splits)
        have w1: "image_wf (op_parcel ops) A {} im1 \<and> (leave_dirty im \<longrightarrow> leave_dirty im1)"
          using write_chunk_wf [OF w io_chunk_in_range c(1)] io o True by simp
        with c(2) 1(1) [of ops cur' buf im1 r] show ?thesis
          by (auto split: prod.splits)
      qed (use 1(2) io o w in auto)
    qed
  qed
  with assms(1) show ?thesis by simp
qed

lemma step_wf:
  assumes "image_wf (op_parcel ops) A {} im" "image_step ops im im'"
  shows "image_wf (op_parcel ops) A {} im' \<and> (leave_dirty im \<longrightarrow> leave_dirty im')"
  using assms(2)
proof cases
  case step_read
  with read_loop_wf [OF assms(1)] show ?thesis by (simp add: image_read_def)
next
  case step_write
  with write_loop_wf [OF assms(1)] show ?thesis by (simp add: image_write_def)
next
  case step_sync
  with clean_all_wf [OF assms(1)] show ?thesis by (simp add: image_sync_def)
next
  case step_cleaner
  with clean_all_wf [OF assms(1)] assms(1) show ?thesis by (simp add: entry_cleaner_def split: if_splits)
qed

lemma init_wf:
  "image_init ops phys chunk_cache cleaner s = (PK_SUCCESS, Some im) \<Longrightarrow> image_wf p (im_allocatable im) {} im \<and> \<not> leave_dirty im"
  by (auto simp: image_init_def image_wf_def buffers_def Let_def split: if_splits)

lemma reachable_wf: "reachable ops A im \<Longrightarrow> image_wf (op_parcel ops) A {} im"
  by (induction rule: reachable.induct) (use init_wf step_wf in blast)+

end

interpretation cache_clock: past_epoch "cache_ops b src p fresh"
  for b :: "('z, 's, 'm) backends" and src :: "'h chunk_source" and p fresh
  by unfold_locales (auto simp: cache_ops_def)

end
