(* ===== verification/Isr_Image_Refine.thy ===== *)
theory Isr_Image_Refine
  imports Isr_Image_Correct
begin

text \<open>
  Over a layer below that keeps chunks, the image is one array of bytes: reads deliver the bytes last written and writes change
  only their range, whatever is cached, evicted or written back meanwhile.  The layer below is the locale \<open>chunk_store\<close>, which
  the local cache interprets.
\<close>

section \<open>What the image holds\<close>

text \<open>Chunk \<open>c\<close> of the image is \<open>v c\<close>: in its buffer or, without one, in the layer below; a clean buffer is also in the layer
  below.  \<open>content s c x\<close> says that chunk \<open>c\<close> has the contents \<open>x\<close> there, and \<open>calm s\<close> that nothing in its environment fails for
  good from \<open>s\<close> on.  The chunks in \<open>X\<close> are in the hands of an operation.\<close>

definition chunk_holds :: "('s \<Rightarrow> nat \<Rightarrow> bytes \<Rightarrow> bool) \<Rightarrow> (nat \<Rightarrow> bytes) \<Rightarrow> 's image \<Rightarrow> nat \<Rightarrow> bool" where
  "chunk_holds content v im c \<longleftrightarrow> (case ent im c of
     None \<Rightarrow> content (store im) c (v c)
   | Some e \<Rightarrow> \<not> e_error e \<and> (e_data e = None \<or> e_dirty e = 0 \<longrightarrow> content (store im) c (v c)) \<and> (\<forall>d. e_data e = Some d \<longrightarrow> d = v c))"

definition image_holds :: "pk_parcel \<Rightarrow> ('s \<Rightarrow> bool) \<Rightarrow> ('s \<Rightarrow> nat \<Rightarrow> bytes \<Rightarrow> bool) \<Rightarrow> (nat \<Rightarrow> bytes) \<Rightarrow> nat set \<Rightarrow> 's image \<Rightarrow> bool" where
  "image_holds p calm content v X im \<longleftrightarrow> calm (store im)
     \<and> (\<forall>c < p_chunks p. length (v c) = p_chunksize p \<and> (c \<notin> X \<longrightarrow> chunk_holds content v im c))"

section \<open>The disk as one array\<close>

definition disk :: "pk_parcel \<Rightarrow> (nat \<Rightarrow> bytes) \<Rightarrow> bytes" where
  "disk p v = concat (map v [0..<p_chunks p])"

definition chunks_sized :: "pk_parcel \<Rightarrow> (nat \<Rightarrow> bytes) \<Rightarrow> bool" where
  "chunks_sized p v \<longleftrightarrow> (\<forall>c < p_chunks p. length (v c) = p_chunksize p)"

lemma length_concat_same: "\<forall>c < n. length (v c) = k \<Longrightarrow> length (concat (map v [0..<n])) = n * k"
  by (induction n) auto

lemma length_disk: "chunks_sized p v \<Longrightarrow> length (disk p v) = p_chunks p * p_chunksize p"
  by (simp add: disk_def chunks_sized_def length_concat_same)

text \<open>Chunk \<open>c\<close> lies at \<open>c\<close> times the chunk size.\<close>

lemma disk_split:
  assumes "chunks_sized p v" "c < p_chunks p"
  obtains l r where "length l = c * p_chunksize p"
    "\<And>v'. (\<forall>c' < p_chunks p. c' \<noteq> c \<longrightarrow> v' c' = v c') \<Longrightarrow> disk p v' = l @ v' c @ r"
proof
  let ?l = "concat (map v [0..<c])" and ?r = "concat (map v [Suc c..<p_chunks p])"
  show "length ?l = c * p_chunksize p"
    using assms by (intro length_concat_same) (simp add: chunks_sized_def)
  fix v'
  assume v': "\<forall>c' < p_chunks p. c' \<noteq> c \<longrightarrow> v' c' = v c'"
  have "[0..<p_chunks p] = [0..<c] @ c # [Suc c..<p_chunks p]"
    using assms(2) upt_add_eq_append [of 0 c "p_chunks p - c"] by (simp add: upt_conv_Cons)
  then have "disk p v' = concat (map v' ([0..<c] @ c # [Suc c..<p_chunks p]))"
    by (simp only: disk_def)
  moreover have "map v' [0..<c] = map v [0..<c]" "map v' [Suc c..<p_chunks p] = map v [Suc c..<p_chunks p]"
    using v' assms(2) by auto
  ultimately show "disk p v' = ?l @ v' c @ ?r"
    by simp
qed

lemma disk_read:
  assumes "chunks_sized p v" "c < p_chunks p" "off + len \<le> p_chunksize p"
  shows "take len (drop off (v c)) = take len (drop (c * p_chunksize p + off) (disk p v))"
proof -
  obtain l r where "length l = c * p_chunksize p" "disk p v = l @ v c @ r"
    using disk_split [OF assms(1,2)] by metis
  moreover have "length (v c) = p_chunksize p"
    using assms(1,2) by (simp add: chunks_sized_def)
  ultimately show ?thesis
    using assms(3) by simp
qed

lemma disk_write:
  assumes "chunks_sized p v" "c < p_chunks p" "off + length x \<le> p_chunksize p"
  shows "disk p (v(c := blit (v c) off x)) = blit (disk p v) (c * p_chunksize p + off) x"
proof -
  obtain l r where l: "length l = c * p_chunksize p"
    and d: "\<And>v'. (\<forall>c' < p_chunks p. c' \<noteq> c \<longrightarrow> v' c' = v c') \<Longrightarrow> disk p v' = l @ v' c @ r"
    using disk_split [OF assms(1,2)] by metis
  have "length (v c) = p_chunksize p"
    using assms(1,2) by (simp add: chunks_sized_def)
  then show ?thesis
    using assms(3) l d [of v] d [of "v(c := blit (v c) off x)"] by (simp add: blit_def)
qed

section \<open>The cursor\<close>

text \<open>As long as chunk numbers do not exceed 32 bits, the cursor visits the chunks of the range in order; the products and
  differences of its arithmetic may wrap, and do no harm.\<close>

definition cursor_at :: "pk_parcel \<Rightarrow> nat \<Rightarrow> nat \<Rightarrow> nat \<Rightarrow> io_cursor \<Rightarrow> bool" where
  "cursor_at p start count b cur \<longleftrightarrow> cur_start cur = start \<and> cur_count cur = count \<and> cur_buf_offset cur + cur_length cur = b \<and> \<not> cur_eof cur"

lemma uint32_offset:
  assumes "pos mod k < 2 ^ 32"
  shows "uint32 (int pos - int (pos div k * k mod 2 ^ 32)) = pos mod k"
proof -
  have "int pos = int (pos div k * k) + int (pos mod k)"
    by (metis div_mult_mod_eq of_nat_add)
  then have "(int pos - int (pos div k * k) mod 2 ^ 32) mod 2 ^ 32 = int (pos mod k) mod 2 ^ 32"
    by (metis add_diff_cancel_left' mod_diff_right_eq)
  moreover have "int (pos div k * k mod 2 ^ 32) = int (pos div k * k) mod 2 ^ 32"
    by (simp add: zmod_int)
  ultimately show ?thesis
    using assms by (simp add: uint32_def)
qed

lemma io_chunk_at:
  assumes p: "0 < p_chunksize p" "p_chunksize p < 2 ^ 31" and c: "cursor_at p start count b cur" "b \<le> count"
    and r: "count < 2 ^ 31" "start + count \<le> 2 ^ 32 * p_chunksize p"
  shows "b = count \<Longrightarrow> \<exists>cur'. io_chunk p cur = (False, cur') \<and> cur_buf_offset cur' = b \<and> \<not> cur_eof cur'"
    and "b < count \<Longrightarrow> p_chunks p \<le> (start + b) div p_chunksize p \<Longrightarrow>
      \<exists>cur'. io_chunk p cur = (False, cur') \<and> cur_buf_offset cur' = b \<and> cur_eof cur'"
    and "b < count \<Longrightarrow> (start + b) div p_chunksize p < p_chunks p \<Longrightarrow>
      \<exists>cur'. io_chunk p cur = (True, cur') \<and> cur_buf_offset cur' = b \<and> cur_chunk cur' = (start + b) div p_chunksize p
        \<and> cur_offset cur' = (start + b) mod p_chunksize p
        \<and> cur_length cur' = min (p_chunksize p - (start + b) mod p_chunksize p) (count - b)
        \<and> cursor_at p start count (b + cur_length cur') cur'"
proof -
  have b: "(cur_buf_offset cur + cur_length cur) mod 2 ^ 32 = b" "cur_count cur = count" "cur_start cur = start" "\<not> cur_eof cur"
    using c r(1) by (simp_all add: cursor_at_def)
  show "\<exists>cur'. io_chunk p cur = (False, cur') \<and> cur_buf_offset cur' = b \<and> \<not> cur_eof cur'" if "b = count"
    using b that by (simp add: io_chunk_def Let_def)
  define pos where "pos = start + b"
  have m: "pos mod p_chunksize p < p_chunksize p"
    using p by simp
  have ch: "pos div p_chunksize p mod 2 ^ 32 = pos div p_chunksize p" if "b < count"
    using that r(2) by (intro mod_less) (simp add: less_mult_imp_div_less pos_def)
  have off: "uint32 (int pos - int (pos div p_chunksize p * p_chunksize p mod 2 ^ 32)) = pos mod p_chunksize p"
    using m p(2) by (intro uint32_offset) simp
  have "uint32 (int (p_chunksize p - pos mod p_chunksize p)) = p_chunksize p - pos mod p_chunksize p"
    using p(2) by (intro uint32_int) simp
  then have len: "min (uint32 (int (p_chunksize p) - int (pos mod p_chunksize p))) (count - b) mod 2 ^ 32 =
      min (p_chunksize p - pos mod p_chunksize p) (count - b)"
    using m r(1) by (simp add: of_nat_diff)
  let ?cur = "cur\<lparr>cur_buf_offset := b, cur_chunk := pos div p_chunksize p\<rparr>"
  have io: "io_chunk p cur = (if p_chunks p \<le> pos div p_chunksize p then (False, ?cur\<lparr>cur_eof := True\<rparr>)
      else (True, ?cur\<lparr>cur_offset := pos mod p_chunksize p, cur_length := min (p_chunksize p - pos mod p_chunksize p) (count - b)\<rparr>))"
    if "b < count"
  proof -
    obtain ch0 off0 len0 bo eof where cur: "cur = \<lparr>cur_chunk = ch0, cur_offset = off0, cur_length = len0, cur_buf_offset = bo, cur_eof = eof,
        cur_start = start, cur_count = count\<rparr>" and bo: "(bo + len0) mod 2 ^ 32 = b"
      using b by (cases cur) simp
    have n: "\<not> count \<le> b" using that by simp
    show ?thesis
      unfolding io_chunk_def Let_def cur
      by (simp only: io_cursor.simps bo n pos_def [symmetric] ch [OF that] off len if_False)
  qed
  show "\<exists>cur'. io_chunk p cur = (False, cur') \<and> cur_buf_offset cur' = b \<and> cur_eof cur'"
    if "b < count" "p_chunks p \<le> (start + b) div p_chunksize p"
    using io [OF that(1)] that(2) by (simp add: pos_def)
  show "\<exists>cur'. io_chunk p cur = (True, cur') \<and> cur_buf_offset cur' = b \<and> cur_chunk cur' = (start + b) div p_chunksize p
        \<and> cur_offset cur' = (start + b) mod p_chunksize p
        \<and> cur_length cur' = min (p_chunksize p - (start + b) mod p_chunksize p) (count - b)
        \<and> cursor_at p start count (b + cur_length cur') cur'"
    if "b < count" "(start + b) div p_chunksize p < p_chunks p"
    using io [OF that(1)] that(2) b by (simp add: pos_def cursor_at_def)
qed

section \<open>The interface of the layer below\<close>

locale chunk_store = past_epoch ops for ops :: "'s chunk_ops" +
  fixes calm :: "'s \<Rightarrow> bool" and content :: "'s \<Rightarrow> nat \<Rightarrow> bytes \<Rightarrow> bool"
  assumes size: "calm s \<Longrightarrow> 0 < p_chunksize (op_parcel ops)" "calm s \<Longrightarrow> p_chunksize (op_parcel ops) < 2 ^ 31"
    and fresh: "calm s \<Longrightarrow> length (op_fresh ops c) = p_chunksize (op_parcel ops)"
    and get: "calm s \<Longrightarrow> c < p_chunks (op_parcel ops) \<Longrightarrow> content s c x \<Longrightarrow> length d = p_chunksize (op_parcel ops) \<Longrightarrow>
      \<exists>s'. op_get ops c d s = Some (PK_SUCCESS, x, s') \<and> calm s' \<and> (\<forall>c x. content s c x \<longrightarrow> content s' c x)"
    and update: "calm s \<Longrightarrow> c < p_chunks (op_parcel ops) \<Longrightarrow> length x = p_chunksize (op_parcel ops) \<Longrightarrow>
      \<exists>s'. op_update ops c x s = Some (PK_SUCCESS, s') \<and> calm s' \<and> content s' c x \<and> (\<forall>c' y. c' \<noteq> c \<longrightarrow> content s c' y \<longrightarrow> content s' c' y)"
    and shm: "calm s \<Longrightarrow> c < p_chunks (op_parcel ops) \<Longrightarrow>
      \<exists>s'. op_shm_dirty ops c s = Some s' \<and> calm s' \<and> (\<forall>c x. content s c x \<longrightarrow> content s' c x)"
      "calm s \<Longrightarrow> c < p_chunks (op_parcel ops) \<Longrightarrow>
      \<exists>s'. op_shm_cached ops c v s = Some s' \<and> calm s' \<and> (\<forall>c x. content s c x \<longrightarrow> content s' c x)"
      "calm s \<Longrightarrow> c < p_chunks (op_parcel ops) \<Longrightarrow>
      \<exists>s'. op_shm_cache_dirty ops c v s = Some s' \<and> calm s' \<and> (\<forall>c x. content s c x \<longrightarrow> content s' c x)"
    and stats: "calm s \<Longrightarrow> calm (op_stats ops f s)" "content s c x \<Longrightarrow> content (op_stats ops f s) c x"
    and time: "calm s \<Longrightarrow> op_time ops s = (now, s') \<Longrightarrow> calm s' \<and> (\<forall>c x. content s c x \<longrightarrow> content s' c x)"
begin

definition keeps :: "'s \<Rightarrow> 's \<Rightarrow> bool" where
  "keeps s s' \<longleftrightarrow> calm s' \<and> (\<forall>c x. content s c x \<longrightarrow> content s' c x)"

lemma keeps_refl: "calm s \<Longrightarrow> keeps s s"
  by (simp add: keeps_def)

lemma keeps_trans: "keeps s s' \<Longrightarrow> keeps s' s'' \<Longrightarrow> keeps s s''"
  by (auto simp: keeps_def)

lemma keeps_stats: "calm s \<Longrightarrow> keeps s (op_stats ops f s)"
  using stats by (auto simp: keeps_def)

lemma shm_keeps:
  assumes "calm s" "c < p_chunks (op_parcel ops)"
  shows "\<exists>s'. op_shm_dirty ops c s = Some s' \<and> keeps s s'" "\<exists>s'. op_shm_cached ops c v s = Some s' \<and> keeps s s'"
    "\<exists>s'. op_shm_cache_dirty ops c v s = Some s' \<and> keeps s s'"
  using shm [OF assms] by (simp_all add: keeps_def)

lemma keeps_calm: "keeps s s' \<Longrightarrow> calm s'"
  by (simp add: keeps_def)

abbreviation chunks where "chunks \<equiv> p_chunks (op_parcel ops)"
abbreviation chunksize where "chunksize \<equiv> p_chunksize (op_parcel ops)"

abbreviation holds where "holds \<equiv> image_holds (op_parcel ops) calm content"

section \<open>Caching and eviction\<close>

lemma holdsD:
  assumes "holds v X im"
  shows "calm (store im)" "c < chunks \<Longrightarrow> length (v c) = chunksize" "c < chunks \<Longrightarrow> c \<notin> X \<Longrightarrow> chunk_holds content v im c"
  using assms by (simp_all add: image_holds_def)

lemma holdsI:
  assumes "calm (store im)" "\<And>c. c < chunks \<Longrightarrow> length (v c) = chunksize" "\<And>c. c < chunks \<Longrightarrow> c \<notin> X \<Longrightarrow> chunk_holds content v im c"
  shows "holds v X im"
  using assms by (simp add: image_holds_def)

lemma image_holds_store:
  "holds v X im \<Longrightarrow> keeps (store im) s \<Longrightarrow> holds v X (im\<lparr>store := s\<rparr>)"
  by (auto simp: image_holds_def chunk_holds_def keeps_def split: option.splits)

lemma image_holds_stat: "holds v X im \<Longrightarrow> holds v X (count_stat ops f im)"
  using image_holds_store [of v X im] keeps_stats by (simp add: count_stat_def image_holds_def)

lemma image_holds_held: "holds v {} im \<Longrightarrow> holds v {} (held c im)"
  by (auto simp: image_holds_def chunk_holds_def new_entry_def split: option.splits)

lemma image_holds_weaken: "holds v X im \<Longrightarrow> X \<subseteq> Y \<Longrightarrow> holds v Y im"
  by (auto simp: image_holds_def)

lemma image_holds_put:
  assumes "holds v X im" "ent im' = (ent im)(c := y)" "store im' = store im" "c \<in> X"
  shows "holds v X im'"
proof -
  have "chunk_holds content v im' c' = chunk_holds content v im c'" if "c' \<noteq> c" for c'
    using assms(2,3) that by (auto simp: chunk_holds_def split: option.splits)
  then show ?thesis
    using assms(3,4) holdsD [OF assms(1)] by (intro holdsI) (metis | simp)+
qed

lemma image_holds_view:
  assumes "holds v {c} im" "length y = chunksize"
  shows "holds (v(c := y)) {c} im"
proof -
  have "chunk_holds content (v(c := y)) im c' = chunk_holds content v im c'" if "c' \<noteq> c" for c'
    unfolding chunk_holds_def by (simp only: fun_upd_other [OF that])
  then show ?thesis
    using assms holdsD [OF assms(1)] by (intro holdsI) auto
qed

lemma image_holds_insert: "holds v (insert c X) im \<Longrightarrow> chunk_holds content v im c \<Longrightarrow> holds v X im"
  by (auto simp: image_holds_def)

text \<open>Without allowance some entry can be reclaimed.\<close>

lemma reclaimable_exists:
  assumes w: "image_wf p A {c} im" and e: "ent im c = Some e" "e_data e = None" and A: "0 < A" "im_allocatable im = 0"
  shows "im_reclaimable im \<noteq> []"
proof -
  have "buffers im \<noteq> 0"
    using w A by (simp add: image_wf_def)
  then obtain c' e' where "(c', e') \<in> set (im_chunks im)" "e_data e' \<noteq> None"
    by (auto simp: buffers_def buf_count_def split: if_splits)
  moreover have "distinct (map fst (im_chunks im))"
    using w by (simp add: image_wf_def)
  ultimately have e': "ent im c' = Some e'" "e_data e' \<noteq> None"
    by simp_all
  with e have "c' \<notin> {c}" by auto
  with wf_entryD [OF w e'(1)] have "c' \<in> set (im_reclaimable im)"
    by (simp add: wf_entry_def)
  then show ?thesis by auto
qed

lemma reclaim_store_total:
  assumes s: "calm s" "r < chunks" and d: "length d = chunksize"
  obtains s' where "reclaim_store ops r d dirty s = Some (True, s')" "calm s'" "\<And>c x. c \<noteq> r \<Longrightarrow> content s c x \<Longrightarrow> content s' c x"
    "dirty \<Longrightarrow> content s' r d" "\<not> dirty \<Longrightarrow> keeps s s'"
proof -
  let ?s = "op_stats ops (\<lambda>s. s\<lparr>s_cache_evictions := s_cache_evictions s + 1\<rparr>) s"
  have k: "keeps s ?s" using keeps_stats [OF s(1)] .
  then have c: "calm ?s" by (simp add: keeps_def)
  show thesis
  proof (cases dirty)
    case False
    obtain s' where s': "op_shm_cached ops r False ?s = Some s'" "keeps ?s s'"
      using shm_keeps(2) [OF c s(2)] by blast
    with False keeps_trans [OF k] that [of s'] show thesis
      by (simp add: reclaim_store_def keeps_def)
  next
    case True
    obtain s1 where s1: "op_update ops r d ?s = Some (PK_SUCCESS, s1)" "calm s1" "content s1 r d"
      "\<And>c x. c \<noteq> r \<Longrightarrow> content ?s c x \<Longrightarrow> content s1 c x"
      using update [OF c s(2) d] by blast
    obtain s2 where s2: "op_shm_cache_dirty ops r False s1 = Some s2" "keeps s1 s2"
      using shm_keeps(3) [OF s1(2) s(2)] by blast
    let ?s3 = "op_stats ops (\<lambda>s. s\<lparr>s_cache_evictions_dirty := s_cache_evictions_dirty s + 1\<rparr>) s2"
    have s3: "keeps s2 ?s3"
      using s2(2) by (intro keeps_stats) (simp add: keeps_def)
    obtain s4 where s4: "op_shm_cached ops r False ?s3 = Some s4" "keeps ?s3 s4"
      using shm_keeps(2) [OF keeps_calm [OF s3] s(2)] by blast
    have "keeps s1 s4"
      using keeps_trans [OF keeps_trans [OF s2(2) s3] s4(2)] .
    with True s1 s2(1) s4(1) k that [of s4] show thesis
      by (simp add: reclaim_store_def err_stat_def keeps_def)
  qed
qed

lemma get_buffer_total:
  assumes w: "image_wf (op_parcel ops) A {c} im" and A: "0 < A" and h: "holds v {} im" and c: "c < chunks"
    and e: "ent im c = Some e" "e_data e = None"
  obtains im' d where "entry_get_buffer ops c im = Some im'" "ent im' c = Some (e\<lparr>e_data := Some d\<rparr>)" "length d = chunksize"
    "holds v {c} im'" "content (store im') c (v c)" "leave_dirty im' = leave_dirty im"
proof (cases "0 < im_allocatable im")
  case True
  let ?im = "(filled c e (op_fresh ops c) True im)\<lparr>im_allocatable := im_allocatable im - 1\<rparr>"
  have g: "entry_get_buffer ops c im = Some ?im"
    using get_buffer_alloc(1) [OF w e True] .
  moreover have "ent ?im c = Some (e\<lparr>e_data := Some (op_fresh ops c)\<rparr>)"
    by (cases e) simp
  moreover have "holds v {c} ?im"
    using image_holds_weaken [OF h] by (rule image_holds_put) simp_all
  moreover have "content (store im) c (v c)"
    using holdsD(3) [OF h c] e by (simp add: chunk_holds_def)
  ultimately show thesis
    using that fresh [OF holdsD(1) [OF h]] by simp
next
  case False
  then obtain r q where r: "im_reclaimable im = r # q"
    using reclaimable_exists [OF w e A] by (cases "im_reclaimable im") auto
  obtain er d where er: "ent im r = Some er" "e_data er = Some d" "r \<noteq> c"
    using w r by (rule reclaimable_head)
  have rn: "r < chunks"
    using wf_entryD [OF w er(1)] by (simp add: wf_entry_def)
  have sr: "chunk_holds content v im r" "calm (store im)" "length (v r) = chunksize"
    using h rn by (simp_all add: image_holds_def)
  then have d: "d = v r" "length d = chunksize" and cl: "e_dirty er = 0 \<Longrightarrow> content (store im) r (v r)"
    using er by (auto simp: chunk_holds_def)
  obtain s' where s': "reclaim_store ops r d (e_dirty er \<noteq> 0) (store im) = Some (True, s')" "calm s'"
    "\<And>c x. c \<noteq> r \<Longrightarrow> content (store im) c x \<Longrightarrow> content s' c x" "e_dirty er \<noteq> 0 \<Longrightarrow> content s' r d" "\<not> e_dirty er \<noteq> 0 \<Longrightarrow> keeps (store im) s'"
    using reclaim_store_total [OF sr(2) rn d(2)] by blast
  have cr: "content s' r (v r)"
    using s'(4,5) cl d(1) by (cases "e_dirty er = 0") (auto simp: keeps_def)
  let ?im = "(reclaimed c r d True im)\<lparr>store := s'\<rparr>"
  have g: "entry_get_buffer ops c im = Some ?im"
    using get_buffer_reclaim(1) [OF w e r er(1,2), of ops] False s'(1) by simp
  have ent': "ent ?im = (ent im)(c \<mapsto> e\<lparr>e_data := Some d\<rparr>, r := None)"
    using e(1) by (simp add: reclaimed_def AList.delete_conv' AList.update_conv')
  have st': "store ?im = s'" "leave_dirty ?im = leave_dirty im"
    by (simp_all add: reclaimed_def)
  have "chunk_holds content v ?im c'" if "c' \<noteq> c" "c' < chunks" for c'
  proof (cases "c' = r")
    case True
    then show ?thesis
      unfolding chunk_holds_def ent' st' using cr er(3) by simp
  next
    case False
    have "chunk_holds content v im c'"
      using h that by (simp add: image_holds_def)
    then show ?thesis
      unfolding chunk_holds_def ent' st' using False that s'(3) by (auto split: option.splits)
  qed
  then have "holds v {c} ?im"
    using h s'(2) by (simp add: image_holds_def st' del: image.simps)
  moreover have "content s' c (v c)"
    using holdsD(3) [OF h c] e er(3) s'(3) by (simp add: chunk_holds_def)
  ultimately show thesis
    using that [OF g, of d] ent' er(3) d(2) st' by simp
qed

lemma acquire_total:
  assumes w: "image_wf (op_parcel ops) A {} im" and A: "0 < A" and h: "holds v {} im" and c: "c < chunks"
  obtains im' e d where "entry_acquire ops c with_data im = Some im'" "image_wf (op_parcel ops) A {c} im'"
    "ent im' c = Some e" "e_data e = Some d" "\<not> e_error e" "length d = chunksize"
    "holds v (if with_data then {} else {c}) im'" "leave_dirty im' = leave_dirty im"
proof -
  note hw = held_eq [OF w c] and hh = image_holds_held [OF h, of c]
  obtain e where e: "ent (held c im) c = Some e" by simp
  have ne: "\<not> e_error e"
    using holdsD(3) [OF hh c] e by (auto simp: chunk_holds_def)
  have "\<exists>im'. entry_acquire ops c with_data im = Some im' \<and> (\<exists>e d. ent im' c = Some e \<and> e_data e = Some d \<and> \<not> e_error e \<and> length d = chunksize)
      \<and> holds v (if with_data then {} else {c}) im' \<and> leave_dirty im' = leave_dirty im"
  proof (cases "e_data e")
    case (Some d)
    have "d = v c"
      using holdsD(3) [OF hh c] e Some by (auto simp: chunk_holds_def)
    then have "length d = chunksize"
      using holdsD(2) [OF hh c] by simp
    moreover have "entry_acquire ops c with_data im =
        Some (if with_data then count_stat ops (\<lambda>s. s\<lparr>s_cache_hits := s_cache_hits s + 1\<rparr>) (held c im) else held c im)"
      using hw(1) e Some by (simp add: entry_acquire_def del: ent_held)
    moreover have "ent (count_stat ops f im) = ent im" "leave_dirty (count_stat ops f im) = leave_dirty im" for f im
      by (simp_all add: count_stat_def)
    ultimately show ?thesis
      using e Some ne image_holds_stat [OF hh] image_holds_weaken [OF hh, of "{c}"] by (auto simp del: ent_held)
  next
    case None
    obtain im1 d where g: "entry_get_buffer ops c (held c im) = Some im1" "ent im1 c = Some (e\<lparr>e_data := Some d\<rparr>)" "length d = chunksize"
      "holds v {c} im1" "content (store im1) c (v c)" "leave_dirty im1 = leave_dirty (held c im)"
      by (rule get_buffer_total [OF hw(2) A hh c e None])
    obtain s where s: "op_shm_cached ops c True (store im1) = Some s" "keeps (store im1) s"
      using shm_keeps(2) [OF holdsD(1) [OF g(4)] c] by blast
    let ?im = "im1\<lparr>store := s\<rparr>"
    have im2: "holds v {c} ?im" "content s c (v c)"
      using image_holds_store [OF g(4) s(2)] s(2) g(5) by (simp_all add: keeps_def)
    show ?thesis
    proof (cases with_data)
      case False
      then show ?thesis
        using hw(1) e None g(1-3,6) s(1) im2(1) ne by (simp add: entry_acquire_def del: ent_held)
    next
      case True
      obtain s2 where s2: "op_get ops c d s = Some (PK_SUCCESS, v c, s2)" "keeps s s2"
        using get [OF holdsD(1) [OF im2(1), simplified] c im2(2) g(3)] by (auto simp: keeps_def)
      let ?e = "e\<lparr>e_data := Some d\<rparr>"
      let ?im3 = "(filled c ?e (v c) True ?im)\<lparr>store := miss_stat ops s2\<rparr>"
      have k: "keeps s (miss_stat ops s2)"
        using keeps_trans [OF s2(2) keeps_stats] s2(2) by (simp add: keeps_calm miss_stat_def)
      have p: "entry_populate ops c ?im = Some ?im3"
        using populate_eq [of ?im c ?e d ops] g(2) s2(1) by (simp add: err_stat_def)
      have "holds v {c} (filled c ?e (v c) True ?im)"
        using im2(1) by (rule image_holds_put) simp_all
      then have "holds v {c} ?im3"
        using image_holds_store k by simp
      moreover have "content (miss_stat ops s2) c (v c)"
        using k im2(2) by (simp add: keeps_def)
      then have "chunk_holds content v ?im3 c"
        using ne by (simp add: chunk_holds_def)
      ultimately have "holds v {} ?im3"
        using image_holds_insert by simp
      moreover have "entry_acquire ops c with_data im = Some ?im3"
        using hw(1) e None g(1) s(1) p True by (simp add: entry_acquire_def del: ent_held)
      moreover have "\<exists>e d. ent ?im3 c = Some e \<and> e_data e = Some d \<and> \<not> e_error e \<and> length d = chunksize"
        using ne holdsD(2) [OF h c] by simp
      moreover have "leave_dirty ?im3 = leave_dirty im"
        using g(6) by simp
      ultimately show ?thesis
        using True by auto
    qed
  qed
  with entry_acquire_wf [OF w c] that show thesis
    by blast
qed

lemma release_total:
  assumes w: "image_wf (op_parcel ops) A {c} im" and h: "holds v {c} im" and c: "c < chunks"
    and e: "ent im c = Some e" "e_data e = Some (v c)" "\<not> e_error e" and cl: "\<not> dirty \<longrightarrow> chunk_holds content v im c"
  obtains im' where "entry_release ops c dirty im = Some im'" "image_wf (op_parcel ops) A {} im'" "holds v {} im'" "leave_dirty im' = leave_dirty im"
proof -
  note calm = holdsD(1) [OF h]
  obtain s1 where s1: "op_shm_dirty ops c (store im) = Some s1" "keeps (store im) s1"
    using shm_keeps(1) [OF calm c] by blast
  obtain t s2 where s2: "op_time ops s1 = (t, s2)" by fastforce
  then have k2: "keeps s1 s2"
    using time [OF keeps_calm [OF s1(2)]] by (simp add: keeps_def)
  obtain s3 where s3: "op_shm_cache_dirty ops c True s2 = Some s3" "keeps s2 s3"
    using shm_keeps(3) [OF keeps_calm [OF k2] c] by blast
  have k3: "keeps (store im) s3"
    using keeps_trans [OF keeps_trans [OF s1(2) k2] s3(2)] .
  obtain now s where s: "release_store ops c dirty (e_dirty e) (store im) = Some (now, s)" "keeps (store im) s"
    "(dirty \<longrightarrow> now \<noteq> 0) \<and> (\<not> dirty \<longrightarrow> now = e_dirty e)"
  proof -
    show thesis
    proof (cases dirty)
      case False
      with that [of "e_dirty e" "store im"] calm show thesis
        by (simp add: release_store_def keeps_refl)
    next
      case True
      with that [of "if e_dirty e = 0 then t else e_dirty e" "if e_dirty e = 0 then s3 else s1"] s1 s2 s3 k3 time_pos [OF s2] show thesis
        by (simp add: release_store_def)
    qed
  qed
  let ?im = "(released c now im)\<lparr>store := s\<rparr>"
  have rel: "entry_release ops c dirty im = Some ?im"
    using release_eq(1) [OF w e(1)] e(2) s(1) by simp
  have r: "ent (released c now im) = (ent im)(c \<mapsto> e\<lparr>e_busy := False, e_dirty := now\<rparr>)" "store (released c now im) = store im"
    "leave_dirty (released c now im) = leave_dirty im"
    using e(1) by (simp_all add: released_def AList.update_conv')
  have "holds v {c} (released c now im)"
    using h r(1,2) by (rule image_holds_put) simp
  moreover have "chunk_holds content v (released c now im) c"
    using cl e s(3) unfolding chunk_holds_def r by (cases dirty) auto
  ultimately have "holds v {} ?im"
    using image_holds_insert image_holds_store [OF _ s(2) [folded r(2)]] by blast
  moreover have "image_wf (op_parcel ops) A {} ?im"
    using release_eq(2) [OF w e(1) _ s(1)] e(2) by (simp add: wf_store)
  ultimately show thesis
    using that [OF rel] r(3) by simp
qed

section \<open>Reading\<close>

lemma holds_sized: "holds v X im \<Longrightarrow> chunks_sized (op_parcel ops) v"
  by (simp add: image_holds_def chunks_sized_def)

lemma read_chunk_total:
  assumes w: "image_wf (op_parcel ops) A {} im" and A: "0 < A" and h: "holds v {} im" and c: "cur_chunk cur < chunks"
    and r: "cur_offset cur + cur_length cur \<le> chunksize" "cur_buf_offset cur + cur_length cur \<le> length buf"
  obtains im' where "image_read_chunk ops cur buf im =
      Some (None, blit buf (cur_buf_offset cur) (take (cur_length cur) (drop (cur_offset cur) (v (cur_chunk cur)))), im')"
    "image_wf (op_parcel ops) A {} im'" "holds v {} im'" "leave_dirty im' = leave_dirty im"
proof -
  let ?c = "cur_chunk cur"
  obtain im1 e d where a: "entry_acquire ops ?c True im = Some im1" "image_wf (op_parcel ops) A {?c} im1"
    "ent im1 ?c = Some e" "e_data e = Some d" "\<not> e_error e" "length d = chunksize" "holds v {} im1" "leave_dirty im1 = leave_dirty im"
    using acquire_total [OF w A h c, of True] by auto
  have ch: "chunk_holds content v im1 ?c"
    using holdsD(3) [OF a(7) c] by simp
  then have d: "d = v ?c"
    using a(3,4) by (simp add: chunk_holds_def)
  obtain im2 where im2: "entry_release ops ?c False im1 = Some im2" "image_wf (op_parcel ops) A {} im2" "holds v {} im2"
    "leave_dirty im2 = leave_dirty im1"
    using release_total [OF a(2) image_holds_weaken [OF a(7)] c a(3) _ a(5), of False] a(4) d ch by auto
  let ?im = "count_stat ops (\<lambda>s. s\<lparr>s_bytes_read := s_bytes_read s + of_nat (cur_length cur)\<rparr>) im2"
  have "image_read_chunk ops cur buf im =
      Some (None, blit buf (cur_buf_offset cur) (take (cur_length cur) (drop (cur_offset cur) (v ?c))), ?im)"
    using a(1,3-6) im2(1) d r by (simp add: image_read_chunk_def)
  then show thesis
    using that [of ?im] im2(2-4) a(8) image_holds_stat [OF im2(3)] by (simp add: count_stat_def wf_store)
qed

lemma length_take_le: "length (take n xs) \<le> n"
  by simp

lemma blit_append:
  "off + length x + length y \<le> length buf \<Longrightarrow> blit (blit buf off x) (off + length x) y = blit buf off (x @ y)"
  by (simp add: blit_def add.commute add.left_commute)

lemma range_end:
  fixes pos k n :: nat
  assumes "0 < k" "pos div k < n"
  shows "pos + (k - pos mod k) \<le> n * k"
proof -
  have "pos + (k - pos mod k) = pos div k * k + k"
    using div_mult_mod_eq [of pos k] mod_less_divisor [OF assms(1), of pos] by linarith
  also have "\<dots> = (pos div k + 1) * k" by simp
  also have "\<dots> \<le> n * k"
    using assms(2) by (intro mult_le_mono1) simp
  finally show ?thesis .
qed

lemma read_loop_total:
  assumes "image_wf (op_parcel ops) A {} im" "0 < A" "holds v {} im" "cursor_at (op_parcel ops) start count b cur"
    and "count < 2 ^ 31" "start + count \<le> 2 ^ 32 * chunksize" "count \<le> length buf"
    and "tot = min count (chunks * chunksize - start)" "b \<le> tot"
  shows "\<exists>im'. image_read_loop ops cur buf im = Some (int tot, blit buf b (take (tot - b) (drop (start + b) (disk (op_parcel ops) v))), im')
    \<and> image_wf (op_parcel ops) A {} im' \<and> holds v {} im' \<and> leave_dirty im' = leave_dirty im"
  using assms
proof (induction "tot - b" arbitrary: b cur buf im rule: less_induct)
  case less
  let ?p = "op_parcel ops"
  note prems = less.prems
  note sz = size [OF holdsD(1) [OF less.prems(3)]]
  have b: "b \<le> count" "tot < 2 ^ 31"
    using prems by auto
  note io = io_chunk_at [OF sz prems(4) b(1) prems(5,6)]
  have fin: ?case if "io_chunk ?p cur = (False, cur')" "cur_buf_offset cur' = b" "b = tot" for cur'
    using that prems(1,3) b(2) by (simp add: image_read_loop.simps [of ops cur] blit_Nil)
  show ?case
  proof (cases "b = count")
    case True
    with io(1) prems(8,9) fin show ?thesis by auto
  next
    case False
    with b have lt: "b < count" by simp
    show ?thesis
    proof (cases "chunks \<le> (start + b) div chunksize")
      case True
      then have "chunks * chunksize \<le> start + b"
        using sz(1) by (metis div_le_mono le_trans mult.commute mult_le_mono1 div_times_less_eq_dividend)
      then have "chunks * chunksize - start \<le> b" by linarith
      with prems(8,9) have "b = tot"
        by (intro antisym) simp_all
      with io(2) [OF lt True] fin show ?thesis by auto
    next
      case False
      then obtain cur' where c': "io_chunk ?p cur = (True, cur')" "cur_buf_offset cur' = b" "cur_chunk cur' = (start + b) div chunksize"
        "cur_offset cur' = (start + b) mod chunksize" "cur_length cur' = min (chunksize - (start + b) mod chunksize) (count - b)"
        "cursor_at ?p start count (b + cur_length cur') cur'"
        using io(3) [OF lt] by auto
      let ?l = "cur_length cur'" and ?d = "disk ?p v"
      have m: "(start + b) mod chunksize < chunksize"
        using sz(1) by simp
      have l: "0 < ?l" "b + ?l \<le> count" "cur_offset cur' + ?l \<le> chunksize" "start + b + ?l \<le> chunks * chunksize"
        using c'(4,5) m lt range_end [OF sz(1), of "start + b" chunks] False by auto
      then have bt: "b + ?l \<le> tot"
        using prems(8) by simp
      have "tot \<le> chunks * chunksize - start" "tot \<le> count"
        using prems(8) by simp_all
      with l(4) have tt: "start + tot \<le> chunks * chunksize" "tot \<le> length buf"
        using prems(7) by linarith+
      have cc: "cur_chunk cur' < chunks" using c'(3) False by simp
      obtain im1 where im1: "image_read_chunk ops cur' buf im =
          Some (None, blit buf b (take ?l (drop (cur_offset cur') (v (cur_chunk cur')))), im1)"
        "image_wf ?p A {} im1" "holds v {} im1" "leave_dirty im1 = leave_dirty im"
        using read_chunk_total [OF prems(1-3) cc l(3), of buf] c'(2) l(2) prems(7) by auto
      let ?x = "take ?l (drop (start + b) ?d)"
      have x: "take ?l (drop (cur_offset cur') (v (cur_chunk cur'))) = ?x"
        using disk_read [OF holds_sized [OF prems(3)] cc l(3)] c'(3,4) by simp
      have lx: "length ?x = ?l"
        using l(4) length_disk [OF holds_sized [OF prems(3)]] by simp
      have lb: "length (blit buf b ?x) = length buf"
        using lx l(2) prems(7) by simp
      have dec: "tot - (b + ?l) < tot - b"
        using bt l(1) by linarith
      have "\<exists>im'. image_read_loop ops cur' (blit buf b ?x) im1 =
            Some (int tot, blit (blit buf b ?x) (b + ?l) (take (tot - (b + ?l)) (drop (start + (b + ?l)) ?d)), im')
          \<and> image_wf ?p A {} im' \<and> holds v {} im' \<and> leave_dirty im' = leave_dirty im1"
        by (rule less.hyps [OF dec]) (use bt im1(2,3) prems(2,5-8) c'(6) lb in simp_all)
      then obtain im' where
        im': "image_read_loop ops cur' (blit buf b ?x) im1 =
            Some (int tot, blit (blit buf b ?x) (b + ?l) (take (tot - (b + ?l)) (drop (start + (b + ?l)) ?d)), im')"
          "image_wf ?p A {} im'" "holds v {} im'" "leave_dirty im' = leave_dirty im1"
        by blast
      have "tot - b = ?l + (tot - (b + ?l))" using bt by simp
      then have "take (tot - b) (drop (start + b) ?d) = ?x @ take (tot - (b + ?l)) (drop (start + (b + ?l)) ?d)"
        by (simp add: take_add add.assoc add.commute add.left_commute)
      moreover have bb: "blit (blit buf b ?x) (b + length ?x) (take (tot - (b + ?l)) (drop (start + (b + ?l)) ?d)) =
          blit buf b (?x @ take (tot - (b + ?l)) (drop (start + (b + ?l)) ?d))"
        by (rule blit_append) (use lx bt tt length_take_le [of "tot - (b + ?l)" "drop (start + (b + ?l)) ?d"] in linarith)
      ultimately have "image_read_loop ops cur buf im = Some (int tot, blit buf b (take (tot - b) (drop (start + b) ?d)), im')"
        using c'(1) im1(1) im'(1) bb [unfolded lx] by (simp add: image_read_loop.simps [of ops cur buf] x)
      with im'(2-4) im1(4) show ?thesis by auto
    qed
  qed
qed

section \<open>Writing\<close>

lemma write_chunk_total:
  assumes w: "image_wf (op_parcel ops) A {} im" and A: "0 < A" and h: "holds v {} im" and c: "cur_chunk cur < chunks"
    and r: "cur_offset cur + cur_length cur \<le> chunksize" "cur_buf_offset cur + cur_length cur \<le> length buf"
  obtains im' where "image_write_chunk ops cur buf im = Some (None, im')" "image_wf (op_parcel ops) A {} im'"
    "holds (v(cur_chunk cur := blit (v (cur_chunk cur)) (cur_offset cur) (take (cur_length cur) (drop (cur_buf_offset cur) buf)))) {} im'"
    "leave_dirty im' = leave_dirty im"
proof -
  let ?c = "cur_chunk cur" and ?x = "take (cur_length cur) (drop (cur_buf_offset cur) buf)"
  let ?y = "blit (v ?c) (cur_offset cur) ?x"
  have lv: "length (v ?c) = chunksize"
    using holdsD(2) [OF h c] .
  obtain im1 e d where a: "entry_acquire ops ?c (cur_length cur \<noteq> chunksize) im = Some im1" "image_wf (op_parcel ops) A {?c} im1"
    "ent im1 ?c = Some e" "e_data e = Some d" "\<not> e_error e" "length d = chunksize"
    "holds v (if cur_length cur \<noteq> chunksize then {} else {?c}) im1" "leave_dirty im1 = leave_dirty im"
    by (rule acquire_total [OF w A h c])
  have y: "blit d (cur_offset cur) ?x = ?y"
  proof (cases "cur_length cur = chunksize")
    case True
    then show ?thesis
      using r lv a(6) by (simp add: blit_def)
  next
    case False
    then have "chunk_holds content v im1 ?c"
      using holdsD(3) [OF a(7) c] by simp
    then show ?thesis
      using a(3,4) by (simp add: chunk_holds_def)
  qed
  let ?im1 = "filled ?c e ?y True im1" and ?v = "v(?c := ?y)"
  have w1: "image_wf (op_parcel ops) A {?c} ?im1"
    using wf_filled [OF a(2,3)] a(4) by simp
  have "holds v {?c} im1"
    using image_holds_weaken [OF a(7)] by simp
  then have "holds v {?c} ?im1"
    by (rule image_holds_put) simp_all
  moreover have "length ?y = chunksize"
    using r lv by simp
  ultimately have h1: "holds ?v {?c} ?im1"
    by (rule image_holds_view)
  obtain im2 where im2: "entry_release ops ?c True ?im1 = Some im2" "image_wf (op_parcel ops) A {} im2" "holds ?v {} im2"
    "leave_dirty im2 = leave_dirty ?im1"
  proof -
    have "ent ?im1 ?c = Some (e\<lparr>e_data := Some ?y\<rparr>)" "e_data (e\<lparr>e_data := Some ?y\<rparr>) = Some (?v ?c)" "\<not> e_error (e\<lparr>e_data := Some ?y\<rparr>)"
      using a(5) by (cases e; simp)+
    from release_total [OF w1 h1 c this] that show thesis by blast
  qed
  have f: "upd_entry ?c (\<lambda>e. e\<lparr>e_data := Some ?y\<rparr>) im1 = Some ?im1"
    using a(3) by (cases im1, cases e) (simp add: upd_entry_def filled_def)
  let ?s1 = "count_stat ops (\<lambda>s. s\<lparr>s_bytes_written := s_bytes_written s + of_nat (cur_length cur)\<rparr>) im2"
  let ?im = "if cur_length cur = chunksize then count_stat ops (\<lambda>s. s\<lparr>s_whole_chunk_updates := s_whole_chunk_updates s + 1\<rparr>) ?s1 else ?s1"
  have "image_write_chunk ops cur buf im = Some (None, ?im)"
    using a(1,3-6) im2(1) f r y by (simp add: image_write_chunk_def Let_def)
  moreover have "holds ?v {} ?im"
    by (simp only: image_holds_stat [OF im2(3)] image_holds_stat [OF image_holds_stat [OF im2(3)]] split: if_split) simp
  moreover have "image_wf (op_parcel ops) A {} ?im" "leave_dirty ?im = leave_dirty im"
    using im2(2,4) a(8) by (simp_all add: count_stat_def wf_store)
  ultimately show thesis
    using that by blast
qed

lemma write_loop_total:
  assumes "image_wf (op_parcel ops) A {} im" "0 < A" "holds v {} im" "cursor_at (op_parcel ops) start count b cur"
    and "count < 2 ^ 31" "start + count \<le> 2 ^ 32 * chunksize" "count \<le> length buf"
    and "tot = min count (chunks * chunksize - start)" "b \<le> tot"
  shows "\<exists>im' v'. image_write_loop ops cur buf im = Some (if tot = 0 \<and> 0 < count then - ENOSPC else int tot, im')
    \<and> image_wf (op_parcel ops) A {} im' \<and> holds v' {} im' \<and> leave_dirty im' = leave_dirty im
    \<and> disk (op_parcel ops) v' = blit (disk (op_parcel ops) v) (start + b) (take (tot - b) (drop b buf))"
  using assms
proof (induction "tot - b" arbitrary: b cur im v rule: less_induct)
  case less
  let ?p = "op_parcel ops"
  note prems = less.prems
  note sz = size [OF holdsD(1) [OF less.prems(3)]]
  have b: "b \<le> count" "tot < 2 ^ 31"
    using prems by auto
  note io = io_chunk_at [OF sz prems(4) b(1) prems(5,6)]
  have fin: ?case if "io_chunk ?p cur = (False, cur')" "cur_buf_offset cur' = b" "b = tot" "b = 0 \<longrightarrow> (cur_eof cur' \<longleftrightarrow> 0 < count)" for cur'
    using that prems(1,3) b(2)
    by (intro exI [of _ im] exI [of _ v]) (auto simp: image_write_loop.simps [of ops cur] blit_Nil)
  show ?case
  proof (cases "b = count")
    case True
    with io(1) prems(8,9) fin show ?thesis by auto
  next
    case False
    with b have lt: "b < count" by simp
    show ?thesis
    proof (cases "chunks \<le> (start + b) div chunksize")
      case True
      then have "chunks * chunksize \<le> start + b"
        using sz(1) by (metis div_le_mono le_trans mult.commute mult_le_mono1 div_times_less_eq_dividend)
      then have "chunks * chunksize - start \<le> b" by linarith
      with prems(8,9) have "b = tot"
        by (intro antisym) simp_all
      with io(2) [OF lt True] fin lt show ?thesis by auto
    next
      case False
      then obtain cur' where c': "io_chunk ?p cur = (True, cur')" "cur_buf_offset cur' = b" "cur_chunk cur' = (start + b) div chunksize"
        "cur_offset cur' = (start + b) mod chunksize" "cur_length cur' = min (chunksize - (start + b) mod chunksize) (count - b)"
        "cursor_at ?p start count (b + cur_length cur') cur'"
        using io(3) [OF lt] by auto
      let ?l = "cur_length cur'" and ?d = "disk ?p v"
      have m: "(start + b) mod chunksize < chunksize"
        using sz(1) by simp
      have l: "0 < ?l" "b + ?l \<le> count" "cur_offset cur' + ?l \<le> chunksize" "start + b + ?l \<le> chunks * chunksize"
        using c'(4,5) m lt range_end [OF sz(1), of "start + b" chunks] False by auto
      then have bt: "b + ?l \<le> tot"
        using prems(8) by simp
      have "tot \<le> chunks * chunksize - start" "tot \<le> count"
        using prems(8) by simp_all
      with l(4) have tt: "start + tot \<le> chunks * chunksize" "tot \<le> length buf"
        using prems(7) by linarith+
      have cc: "cur_chunk cur' < chunks" using c'(3) False by simp
      let ?x = "take ?l (drop b buf)"
      let ?v = "v(cur_chunk cur' := blit (v (cur_chunk cur')) (cur_offset cur') ?x)"
      obtain im1 where im1: "image_write_chunk ops cur' buf im = Some (None, im1)"
        "image_wf ?p A {} im1" "holds ?v {} im1" "leave_dirty im1 = leave_dirty im"
        using write_chunk_total [OF prems(1-3) cc l(3), of buf] c'(2) l(2) prems(7) by auto
      have lx: "length ?x = ?l"
        using l(2) prems(7) by simp
      have dv: "disk ?p ?v = blit ?d (start + b) ?x"
        using disk_write [OF holds_sized [OF prems(3)] cc, of "cur_offset cur'" ?x] l(3) lx c'(3,4) by simp
      have dec: "tot - (b + ?l) < tot - b"
        using bt l(1) by linarith
      have "\<exists>im' v'. image_write_loop ops cur' buf im1 = Some (if tot = 0 \<and> 0 < count then - ENOSPC else int tot, im')
          \<and> image_wf ?p A {} im' \<and> holds v' {} im' \<and> leave_dirty im' = leave_dirty im1
          \<and> disk ?p v' = blit (disk ?p ?v) (start + (b + ?l)) (take (tot - (b + ?l)) (drop (b + ?l) buf))"
        by (rule less.hyps [OF dec im1(2) prems(2) im1(3)]) (use bt prems(5-8) c'(6) in simp_all)
      then obtain im' v' where
        im': "image_write_loop ops cur' buf im1 = Some (if tot = 0 \<and> 0 < count then - ENOSPC else int tot, im')"
          "image_wf ?p A {} im'" "holds v' {} im'" "leave_dirty im' = leave_dirty im1"
          "disk ?p v' = blit (disk ?p ?v) (start + (b + ?l)) (take (tot - (b + ?l)) (drop (b + ?l) buf))"
        by blast
      have "tot - b = ?l + (tot - (b + ?l))" using bt by simp
      then have "take (tot - b) (drop b buf) = ?x @ take (tot - (b + ?l)) (drop (b + ?l) buf)"
        by (simp add: take_add add.commute)
      moreover have bb: "blit (blit ?d (start + b) ?x) (start + b + length ?x) (take (tot - (b + ?l)) (drop (b + ?l) buf)) =
          blit ?d (start + b) (?x @ take (tot - (b + ?l)) (drop (b + ?l) buf))"
        by (rule blit_append) (use lx bt tt length_disk [OF holds_sized [OF prems(3)]]
          length_take_le [of "tot - (b + ?l)" "drop (b + ?l) buf"] in linarith)
      ultimately have "disk ?p v' = blit ?d (start + b) (take (tot - b) (drop b buf))"
        using im'(5) dv bb [unfolded lx] by (simp add: add.assoc)
      moreover have "image_write_loop ops cur buf im = Some (if tot = 0 \<and> 0 < count then - ENOSPC else int tot, im')"
        using c'(1) im1(1) im'(1) by (simp add: image_write_loop.simps [of ops cur buf])
      ultimately show ?thesis
        using im'(2-4) im1(4) by auto
    qed
  qed
qed

section \<open>Writing back\<close>

lemma holds_cleaned:
  assumes h: "holds v {} im" and e: "ent im c = Some e" and s: "calm s" "content s c (v c)"
    and k: "\<And>c' x. c' \<noteq> c \<Longrightarrow> content (store im) c' x \<Longrightarrow> content s c' x"
  shows "holds v {} ((cleaned c e True im)\<lparr>store := s\<rparr>)"
proof (rule holdsI)
  fix c'
  assume c': "c' < chunks"
  then have "chunk_holds content v im c'"
    using holdsD(3) [OF h] by simp
  then show "chunk_holds content v ((cleaned c e True im)\<lparr>store := s\<rparr>) c'"
    using e s(2) k by (cases "c' = c") (auto simp: chunk_holds_def split: option.splits)
qed (use s(1) holdsD(2) [OF h] in simp_all)

lemma holds_released: "holds v {} im \<Longrightarrow> ent im c = Some e \<Longrightarrow>
    holds v {} (im\<lparr>im_chunks := AList.update c (e\<lparr>e_busy := b\<rparr>) (im_chunks im), im_reclaimable := q\<rparr>)"
  by (auto simp: image_holds_def chunk_holds_def AList.update_conv' split: option.splits)

lemma clean_head_total:
  assumes w: "image_wf (op_parcel ops) A {} im" and q: "im_dirty im = c # q" and h: "holds v {} im"
  obtains go im' where "entry_clean_head ops force c im = Some (go, im')" "holds v {} im'" "leave_dirty im' = leave_dirty im"
proof -
  obtain e where e: "ent im c = Some e"
    using wf_queues(3) [OF w] q by auto
  then have dirty: "e_dirty e \<noteq> 0" "e_data e \<noteq> None" "c < chunks"
    using wf_entryD [OF w e] q by (auto simp: wf_entry_def)
  then have d: "e_data e = Some (v c)"
    using holdsD(3) [OF h dirty(3)] e by (auto simp: chunk_holds_def)
  have hc: "entry_lookup c im = im" "ent (held c im) c = Some (e\<lparr>e_busy := True\<rparr>)"
    using e by (simp_all add: entry_lookup_def)
  note hold = held_eq [OF w dirty(3), unfolded hc(1)]
  let ?e = "e\<lparr>e_busy := True\<rparr>"
  obtain now s where now: "(if force then (0, store (held c im)) else op_time ops (store (held c im))) = (now, s)"
    by fastforce
  have ks: "keeps (store (held c im)) s"
    using now time [OF holdsD(1) [OF h]] keeps_refl [OF holdsD(1) [OF h]] by (auto simp: keeps_def split: if_splits)
  let ?im = "(held c im)\<lparr>store := s\<rparr>"
  have w1: "image_wf (op_parcel ops) A {c} ?im" "ent ?im c = Some ?e" "e_data ?e = Some (v c)" "holds v {} ?im"
    using hold hc(2) d image_holds_store [OF image_holds_held [OF h] ks] by (simp_all add: wf_store)
  have rel: "\<exists>x. entry_release_locked c im1 = Some x \<and> holds v {} x \<and> leave_dirty x = leave_dirty im1"
    if "image_wf (op_parcel ops) A {c} im1" "ent im1 c = Some e1" "e_data e1 \<noteq> None" "holds v {} im1" for im1 e1
    using release_data_eq [OF that(1,2) _ that(3)] holds_released [OF that(4,2)] by auto
  show thesis
  proof (cases "\<not> force \<and> e_dirty e + DIRTY_WRITEBACK_DELAY > now")
    case True
    obtain x where x: "entry_release_locked c ?im = Some x" "holds v {} x" "leave_dirty x = leave_dirty ?im"
      using rel [OF w1(1,2) _ w1(4)] w1(3) by blast
    have "entry_clean_head ops force c im = Some (False, x)"
      using hold(1) hc(2) dirty now True x(1) by (simp add: entry_clean_head_def del: ent_held)
    then show thesis
      using that [of False x] x by simp
  next
    case False
    obtain s1 where s1: "op_update ops c (v c) s = Some (PK_SUCCESS, s1)" "calm s1" "content s1 c (v c)"
      "\<And>c' y. c' \<noteq> c \<Longrightarrow> content s c' y \<Longrightarrow> content s1 c' y"
      using update [OF keeps_calm [OF ks] dirty(3) holdsD(2) [OF h dirty(3)]] by blast
    obtain s2 where s2: "op_shm_cache_dirty ops c False s1 = Some s2" "keeps s1 s2"
      using shm_keeps(3) [OF s1(2) dirty(3)] by blast
    let ?im1 = "(cleaned c ?e True ?im)\<lparr>store := s2\<rparr>"
    have cl: "entry_clean ops c ?im = Some ?im1"
      using entry_clean_eq [OF w1(1,2) _ w1(3), of ops] dirty(1) s1(1) s2(1) by (simp add: err_stat_def)
    have "holds v {} ?im1"
      by (rule holds_cleaned [OF w1(4,2)]) (use s1 s2 in \<open>auto simp: keeps_def\<close>)
    moreover have "image_wf (op_parcel ops) A {c} ?im1"
      using wf_cleaned [OF w1(1,2)] by (simp add: wf_store)
    ultimately obtain x where x: "entry_release_locked c ?im1 = Some x" "holds v {} x" "leave_dirty x = leave_dirty ?im1"
      using rel [of ?im1 "?e\<lparr>e_dirty := 0, e_error := e_error ?e \<or> \<not> True\<rparr>"] d by (auto simp del: ent_held)
    have "entry_clean_head ops force c im = Some (True, x)"
      using hold(1) hc(2) dirty now False cl x(1) by (auto simp: entry_clean_head_def simp del: ent_held)
    then show thesis
      using that [of True x] x by simp
  qed
qed

lemma clean_all_total:
  assumes "image_wf (op_parcel ops) A {} im" "holds v {} im"
  shows "\<exists>im'. entry_clean_all ops force im = Some im' \<and> holds v {} im' \<and> leave_dirty im' = leave_dirty im"
  using assms
proof (induction "length (im_dirty im)" arbitrary: im)
  case 0
  then show ?case
    by (simp add: entry_clean_all.simps [of ops force im])
next
  case (Suc n)
  then obtain c q where q: "im_dirty im = c # q"
    by (cases "im_dirty im") auto
  obtain go im1 where h: "entry_clean_head ops force c im = Some (go, im1)" "holds v {} im1" "leave_dirty im1 = leave_dirty im"
    by (rule clean_head_total [OF Suc.prems(1) q Suc.prems(2)])
  note w = clean_head_wf [OF Suc.prems(1) q h(1)]
  show ?case
  proof (cases go)
    case True
    with w q Suc.hyps(2) have "n = length (im_dirty im1)" "image_wf (op_parcel ops) A {} im1"
      by auto
    from Suc.hyps(1) [OF this h(2)] show ?thesis
      using True h q by (auto simp: entry_clean_all.simps [of ops force im])
  qed (use h q in \<open>simp add: entry_clean_all.simps [of ops force im]\<close>)
qed

text \<open>With nothing dirty, every chunk is in the layer below.\<close>

lemma clean_content:
  assumes w: "image_wf (op_parcel ops) A {} im" and h: "holds v {} im" and q: "im_dirty im = []" and c: "c < chunks"
  shows "content (store im) c (v c)"
proof (cases "ent im c")
  case (Some e)
  have "e_dirty e = 0"
    using wf_entryD [OF w Some] q by (simp add: wf_entry_def)
  with Some holdsD(3) [OF h c] show ?thesis by (simp add: chunk_holds_def)
qed (use holdsD(3) [OF h c] in \<open>simp add: chunk_holds_def\<close>)

lemma wf_buffer_pos:
  assumes "image_wf p A H im" "ent im c = Some e" "e_data e \<noteq> None"
  shows "0 < A"
proof -
  have "buf_count e \<le> buffers im"
    unfolding buffers_def using map_of_SomeD [OF assms(2)] by (intro member_le_sum_list) (force, simp)
  then show ?thesis
    using assms(1,3) by (simp add: image_wf_def buf_count_def)
qed

lemma free_buffers_total:
  assumes "image_wf (op_parcel ops) A {} im" "holds v {} im" "im_dirty im = []"
  shows "\<exists>im'. image_free_buffers ops im = Some im' \<and> im_chunks im' = [] \<and> im_dirty im' = [] \<and> leave_dirty im' = leave_dirty im
    \<and> calm (store im') \<and> (\<forall>c < chunks. content (store im') c (v c)) \<and> im_allocatable im' = im_allocatable im"
  using assms
proof (induction "length (im_chunks im)" arbitrary: im A rule: less_induct)
  case less
  note w = less.prems(1) and h = less.prems(2) and q = less.prems(3)
  show ?case
  proof (cases "im_reclaimable im")
    case Nil
    have "ent im c = None" for c
    proof (cases "ent im c")
      case (Some e)
      then show ?thesis
        using wf_entryD [OF w Some] Nil by (simp add: wf_entry_def)
    qed
    then have "im_chunks im = []"
      by (cases "im_chunks im") (auto simp: fun_eq_iff split: if_splits, metis option.distinct(1))
    then show ?thesis
      using Nil q holdsD(1) [OF h] clean_content [OF w h q] by (simp add: image_free_buffers.simps [of ops im])
  next
    case (Cons c qs)
    then obtain e where e: "ent im c = Some e"
      using wf_queues(4) [OF w] by auto
    then have c: "c < chunks" "e_dirty e = 0" "e_data e \<noteq> None"
      using wf_entryD [OF w e] q by (auto simp: wf_entry_def)
    then have d: "e_data e = Some (v c)"
      using holdsD(3) [OF h c(1)] e by (auto simp: chunk_holds_def)
    have hc: "entry_lookup c im = im" "ent (held c im) c = Some (e\<lparr>e_busy := True\<rparr>)"
      using e by (simp_all add: entry_lookup_def)
    note hold = held_eq [OF w c(1), unfolded hc(1)]
    let ?e = "e\<lparr>e_busy := True, e_data := None\<rparr>"
    let ?im = "(held c im)\<lparr>im_chunks := AList.update c ?e (im_chunks (held c im))\<rparr>"
    obtain s where s: "op_shm_cached ops c False (store im) = Some s" "keeps (store im) s"
      using shm_keeps(2) [OF holdsD(1) [OF h] c(1)] by blast
    obtain A' where w1: "image_wf (op_parcel ops) A' {c} ?im"
    proof (rule that)
      show "image_wf (op_parcel ops) (A - 1) {c} ?im"
        by (rule wf_put [OF hold(2) hc(2), where e' = ?e])
          (use wf_entryD [OF hold(2) hc(2)] wf_queues(1,2) [OF hold(2)] c(2) d q wf_buffer_pos [OF w e c(3)] in
            \<open>auto simp: wf_entry_def buf_count_def simp del: ent_held\<close>)
    qed
    let ?im2 = "im\<lparr>im_chunks := AList.delete c (im_chunks im), im_reclaimable := queue_delete_with_link (im_reclaimable im) c, store := s\<rparr>"
    have e1: "ent (?im\<lparr>store := s\<rparr>) c = Some ?e"
      by (simp add: AList.update_conv')
    have im2: "(?im\<lparr>store := s\<rparr>)\<lparr>im_chunks := AList.delete c (im_chunks (?im\<lparr>store := s\<rparr>))\<rparr> = ?im2"
      by (cases im) (simp add: held_def delete_update)
    have w1s: "image_wf (op_parcel ops) A' {c} (?im\<lparr>store := s\<rparr>)"
      using w1 by (simp add: wf_store)
    have rel: "entry_release_locked c (?im\<lparr>store := s\<rparr>) = Some ?im2"
      using release_free_eq [OF w1s e1] im2 by (simp add: delete_update)
    have w2: "image_wf (op_parcel ops) A' {} ?im2"
      using wf_delete [OF w1s e1] im2 by simp
    have h2: "holds v {} ?im2"
    proof (rule holdsI)
      fix c'
      assume "c' < chunks"
      then have "chunk_holds content v im c'"
        using holdsD(3) [OF h] by simp
      then show "chunk_holds content v ?im2 c'"
        using e c(2) s(2) by (cases "c' = c") (auto simp: chunk_holds_def keeps_def AList.delete_conv' split: option.splits)
    qed (use s(2) holdsD(2) [OF h] in \<open>simp_all add: keeps_def\<close>)
    have len: "length (im_chunks ?im2) < length (im_chunks im)"
      using e by (auto simp: AList.delete_eq dest!: map_of_SomeD intro!: length_filter_less)
    have step: "image_free_buffers ops im = image_free_buffers ops ?im2"
      using Cons hold(1) hc(2) c(2) d s(1) rel
      by (simp add: image_free_buffers.simps [of ops im] upd_entry_def del: ent_held)
    from less.hyps [OF len w2 h2] q step show ?thesis by simp
  qed
qed

end

section \<open>The local cache as layer below\<close>

text \<open>
  The environment of the local cache: the parcel is one that the code accepts, an exclusively held database, apart from contention,
  and a cache file without input and output errors, and sources of the chunks that are not in the local cache.
\<close>

definition cache_calm :: "'h chunk_source \<Rightarrow> pk_parcel \<Rightarrow> (nat \<Rightarrow> bytes) \<Rightarrow> (nat \<Rightarrow> bytes \<Rightarrow> bytes option) \<Rightarrow> ('h \<Rightarrow> bool) \<Rightarrow> 'h cache_state \<Rightarrow> bool" where
  "cache_calm src p fresh g good = (\<lambda>(db, st, t).
     serves src g good \<and> good (remote st) \<and> (\<forall>c. length (fresh c) = p_chunksize p) \<and> pk_ok st \<and> parcel st = p
     \<and> idle db \<and> only_contention db \<and> writable (tabs (db_conn db)) st \<and> (\<forall>c < p_chunks p. map_of (t_keys (tabs (db_conn db))) (int c) \<noteq> None))"

definition cache_content :: "('z, 's, 'm) backends \<Rightarrow> (nat \<Rightarrow> bytes \<Rightarrow> bytes option) \<Rightarrow> 'h cache_state \<Rightarrow> nat \<Rightarrow> bytes \<Rightarrow> bool" where
  "cache_content b g = (\<lambda>(db, st, t) c x. cached b g (tabs (db_conn db)) st c x)"

lemma calm_update:
  assumes c: "cache_calm src p fresh g good s" "c < p_chunks p" "length x = p_chunksize p"
  shows "\<exists>s'. op_update (cache_ops b src p fresh) c x s = Some (PK_SUCCESS, s') \<and> cache_calm src p fresh g good s'
    \<and> cache_content b g s' c x \<and> (\<forall>c' y. c' \<noteq> c \<longrightarrow> cache_content b g s c' y \<longrightarrow> cache_content b g s' c' y)"
proof -
  obtain db st t where s: "s = (db, st, t)" by (cases s) auto
  have a: "pk_ok st" "idle db" "only_contention db" "parcel st = p" "writable (tabs (db_conn db)) st" "good (remote st)"
    "\<And>c. c < p_chunks p \<Longrightarrow> map_of (t_keys (tabs (db_conn db))) (int c) \<noteq> None"
    using c(1) by (simp_all add: cache_calm_def s)
  have soft: "only_soft db"
    using a(3) contention_soft by auto
  obtain ret db' st' where u: "cache_update b db st c x = Some (ret, db', st')" "later db db'" "idle db'" "pk_ok st'"
    "parcel st' = parcel st" "remote st' = remote st"
    "ret = PK_SUCCESS \<Longrightarrow> (\<exists>l tag key z. tabs (db_conn db') = upd_tables (tabs (db_conn db)) (int c) l tag key z)"
    "ret = PK_SUCCESS \<Longrightarrow> map_of (t_keys (tabs (db_conn db))) (int c) \<noteq> None \<Longrightarrow> cached b g (tabs (db_conn db')) st' c x"
    "ret \<noteq> PK_SUCCESS \<Longrightarrow> ret = PK_IOERR \<and> tabs (db_conn db') = tabs (db_conn db) \<and> \<not> (writable (tabs (db_conn db)) st \<and> only_contention db)"
    "\<And>c' x. c' \<noteq> c \<Longrightarrow> cached b g (tabs (db_conn db)) st c' x \<Longrightarrow> cached b g (tabs (db_conn db')) st' c' x"
    "writable (tabs (db_conn db)) st \<Longrightarrow> \<exists>f. cache_file st' = Some f \<and> f_faults f = []"
    by (rule cache_update_run [OF a(1,2) soft, of c x b b g]) (use c a(4) in auto)
  have ret: "ret = PK_SUCCESS"
    using u(9) a(3,5) by blast
  then obtain l tag key z where tb: "tabs (db_conn db') = upd_tables (tabs (db_conn db)) (int c) l tag key z"
    using u(7) by blast
  have "cache_calm src p fresh g good (db', st', t)"
    using c(1) u(2-6,11) a tb later_contention [OF u(2)]
    by (auto simp: cache_calm_def s writable_def upd_tables_def map_of_update)
  with u(1,8,10) ret a(7) c(2) show ?thesis
    by (auto simp: s cache_ops_def cache_content_def)
qed

lemma calm_get:
  assumes c: "cache_calm src p fresh g good s" "c < p_chunks p" "cache_content b g s c x" "length d = p_chunksize p"
  shows "\<exists>s'. op_get (cache_ops b src p fresh) c d s = Some (PK_SUCCESS, x, s') \<and> cache_calm src p fresh g good s'
    \<and> (\<forall>c x. cache_content b g s c x \<longrightarrow> cache_content b g s' c x)"
proof -
  obtain db st t where s: "s = (db, st, t)" by (cases s) auto
  obtain f where a: "pk_ok st" "idle db" "only_contention db" "parcel st = p" "t_chunks (tabs (db_conn db)) \<noteq> None"
    "cache_file st = Some f" "f_faults f = []" "serves src g good" "good (remote st)"
    using c(1) by (auto simp: cache_calm_def s writable_def)
  have x: "cached b g (tabs (db_conn db)) st c x" "c < p_chunks (parcel st)" "length d = p_chunksize (parcel st)"
    using c(2-4) a(4) by (simp_all add: cache_content_def s)
  obtain db' st' where r: "cache_get b src db st c d = Some (PK_SUCCESS, x, db', st')" "later db db'" "idle db'" "pk_ok st'"
    "tabs (db_conn db') = tabs (db_conn db)" "parcel st' = parcel st" "cache_file st' = cache_file st" "good (remote st')"
    "\<And>g' c x. cached b g' (tabs (db_conn db')) st' c x = cached b g' (tabs (db_conn db)) st c x"
    by (rule cache_get_run [OF a(1-3) x(2,3) a(5) x(1) a(6-9)]) blast
  have "cache_calm src p fresh g good (db', st', t)"
    using c(1) r(2-8) later_contention [OF r(2)] by (auto simp: cache_calm_def s writable_def)
  with r(1,9) show ?thesis
    by (auto simp: s cache_ops_def cache_content_def)
qed

lemma calm_shm:
  assumes "cache_calm src p fresh g good (db, st, t)" "c < p_chunks p"
  shows "\<exists>s'. do { st \<leftarrow> shm_update st c x y; Some (db, st, t) } = Some s' \<and> cache_calm src p fresh g good s'
    \<and> (\<forall>c x. cache_content b g (db, st, t) c x \<longrightarrow> cache_content b g s' c x)"
proof -
  have "pk_ok st" "c < p_chunks (parcel st)"
    using assms by (auto simp: cache_calm_def)
  then obtain base where sh: "shm_update st c x y = Some (st\<lparr>shm_base := base\<rparr>)" "pk_ok (st\<lparr>shm_base := base\<rparr>)"
    by (rule shm_update_ok)
  have "cached b g (tabs (db_conn db)) (st\<lparr>shm_base := base\<rparr>) c x = cached b g (tabs (db_conn db)) st c x" for c x
    by (rule cached_cong) simp_all
  moreover have "cache_calm src p fresh g good (db, st\<lparr>shm_base := base\<rparr>, t)"
    using assms(1) sh(2) by (simp add: cache_calm_def writable_def)
  ultimately show ?thesis
    using sh(1) by (simp add: cache_content_def)
qed

interpretation disk: chunk_store "cache_ops b src p fresh" "cache_calm src p fresh g good" "cache_content b g"
  for b :: "('z, 's, 'm) backends" and src :: "'h chunk_source" and p fresh g good
proof (unfold_locales, goal_cases)
  case (1 s)
  then show ?case by (auto simp: cache_calm_def cache_ops_def pk_ok_def parcel_ok_def)
next
  case (2 s)
  then show ?case by (auto simp: cache_calm_def cache_ops_def pk_ok_def parcel_ok_def)
next
  case (3 s c)
  then show ?case by (auto simp: cache_calm_def cache_ops_def)
next
  case (4 s c x d)
  then show ?case by (intro calm_get) (simp_all add: cache_ops_def)
next
  case (5 s c x)
  then show ?case by (intro calm_update) (simp_all add: cache_ops_def)
next
  case (6 s c)
  obtain db st t where s: "s = (db, st, t)" by (cases s) auto
  from 6 show ?case
    using calm_shm [of src p fresh g good db st t c "SHM_PRESENT OR SHM_ACCESSED_SESSION OR SHM_DIRTY OR SHM_DIRTY_SESSION" 0 b] by (simp add: s cache_ops_def cache_shm_set_dirty_def)
next
  case (7 s c v)
  obtain db st t where s: "s = (db, st, t)" by (cases s) auto
  from 7 show ?case
    using calm_shm [of src p fresh g good db st t c "if v then SHM_CACHED else 0" "if v then 0 else SHM_CACHED" b] by (simp add: s cache_ops_def cache_shm_set_cached_def)
next
  case (8 s c v)
  obtain db st t where s: "s = (db, st, t)" by (cases s) auto
  from 8 show ?case
    using calm_shm [of src p fresh g good db st t c "if v then SHM_CACHE_DIRTY else 0" "if v then 0 else SHM_CACHE_DIRTY" b] by (simp add: s cache_ops_def cache_shm_set_cache_dirty_def)
next
  case (9 s f)
  then show ?case by (auto simp: cache_calm_def cache_ops_def pk_ok_def writable_def)
next
  case (10 s c x f)
  then show ?case by (auto simp: cache_content_def cache_ops_def split: prod.splits cong: cached_cong)
next
  case (11 s now s')
  then show ?case by (auto simp: cache_calm_def cache_content_def cache_ops_def)
qed

end
