(* ===== verification/Isr_Disk.thy ===== *)
theory Isr_Disk
  imports Isr_Image_Refine
begin

text \<open>
  What parcelkeeper promises of its virtual disk and its local cache: the image served from the local cache is one array of bytes,
  the invariant of the chunk cache, what remains after a shutdown, the round trip of \<open>cache_update\<close> and \<open>cache_get\<close>, and the
  places where the code does not keep its promises.
\<close>

section \<open>Sequences of requests\<close>

text \<open>The requests that reach \<^verbatim>\<open>fuse_image.c\<close>, and rounds of the cleaner thread between them.\<close>

datatype request =
    Req_read bytes nat nat
  | Req_write bytes nat nat
  | Req_sync
  | Req_clean

fun serve_one :: "'s chunk_ops \<Rightarrow> request \<Rightarrow> 's image \<Rightarrow> ((int \<times> bytes) \<times> 's image) option" where
  "serve_one ops (Req_read buf start count) im = do { (n, buf, im) \<leftarrow> image_read ops buf start count im; Some ((n, buf), im) }"
| "serve_one ops (Req_write buf start count) im = do { (n, im) \<leftarrow> image_write ops buf start count im; Some ((n, []), im) }"
| "serve_one ops Req_sync im = do { im \<leftarrow> image_sync ops im; Some ((0, []), im) }"
| "serve_one ops Req_clean im = do { im \<leftarrow> entry_cleaner ops im; Some ((0, []), im) }"

fun serve :: "'s chunk_ops \<Rightarrow> request list \<Rightarrow> 's image \<Rightarrow> ((int \<times> bytes) list \<times> 's image) option" where
  "serve ops [] im = Some ([], im)"
| "serve ops (r # rs) im = do {
     (x, im) \<leftarrow> serve_one ops r im;
     (xs, im) \<leftarrow> serve ops rs im;
     Some (x # xs, im)
   }"

text \<open>The same requests on one array of bytes.\<close>

fun flat_one :: "request \<Rightarrow> bytes \<Rightarrow> (int \<times> bytes) \<times> bytes" where
  "flat_one (Req_read buf start count) d =
     ((int (min count (length d - start)), blit buf 0 (take count (drop start d))), d)"
| "flat_one (Req_write buf start count) d =
     (let n = min count (length d - start) in
      ((if n = 0 \<and> 0 < count then - ENOSPC else int n, []), blit d start (take n buf)))"
| "flat_one Req_sync d = ((0, []), d)"
| "flat_one Req_clean d = ((0, []), d)"

fun flat :: "request list \<Rightarrow> bytes \<Rightarrow> (int \<times> bytes) list \<times> bytes" where
  "flat [] d = ([], d)"
| "flat (r # rs) d = (case flat_one r d of (x, d) \<Rightarrow> case flat rs d of (xs, d) \<Rightarrow> (x # xs, d))"

text \<open>Requests whose buffer has the size they name, below 2 GiB, and whose chunk numbers have at most 32 bits.\<close>

fun request_ok :: "pk_parcel \<Rightarrow> request \<Rightarrow> bool" where
  "request_ok p (Req_read buf start count) \<longleftrightarrow> count \<le> length buf \<and> count < 2 ^ 31 \<and> start + count \<le> 2 ^ 32 * p_chunksize p"
| "request_ok p (Req_write buf start count) \<longleftrightarrow> count \<le> length buf \<and> count < 2 ^ 31 \<and> start + count \<le> 2 ^ 32 * p_chunksize p"
| "request_ok p _ \<longleftrightarrow> True"

text \<open>The image stands for the chunks \<open>v\<close>; \<open>A\<close> buffers are allowed.\<close>

definition disk_state :: "('z, 's, 'm) backends \<Rightarrow> 'h chunk_source \<Rightarrow> pk_parcel \<Rightarrow> (nat \<Rightarrow> bytes) \<Rightarrow> (nat \<Rightarrow> bytes \<Rightarrow> bytes option) \<Rightarrow> ('h \<Rightarrow> bool)
    \<Rightarrow> nat \<Rightarrow> (nat \<Rightarrow> bytes) \<Rightarrow> 'h cache_state image \<Rightarrow> bool" where
  "disk_state b src p fresh g good A v im \<longleftrightarrow>
     image_wf p A {} im \<and> 0 < A \<and> image_holds p (cache_calm src p fresh g good) (cache_content b g) v {} im"

lemma op_parcel_cache [simp]: "op_parcel (cache_ops b src p fresh) = p"
  by (simp add: cache_ops_def)

lemma disk_stateD:
  assumes "disk_state b src p fresh g good A v im"
  shows "image_wf (op_parcel (cache_ops b src p fresh)) A {} im" "0 < A"
    "image_holds (op_parcel (cache_ops b src p fresh)) (cache_calm src p fresh g good) (cache_content b g) v {} im"
  using assms by (simp_all add: disk_state_def)

lemma disk_length:
  assumes "disk_state b src p fresh g good A v im"
  shows "length (disk p v) = p_chunks p * p_chunksize p"
  using disk.holds_sized [OF disk_stateD(3) [OF assms]] by (simp add: length_disk)

lemma cursor_start: "cursor_at p start count 0 (io_start start count)"
  by (simp add: cursor_at_def io_start_def)

lemma serve_one_refines:
  assumes d: "disk_state b src p fresh g good A v im" and r: "request_ok p r"
  shows "\<exists>im' v'. serve_one (cache_ops b src p fresh) r im = Some (fst (flat_one r (disk p v)), im') \<and> disk p v' = snd (flat_one r (disk p v))
    \<and> disk_state b src p fresh g good A v' im' \<and> leave_dirty im' = leave_dirty im"
proof -
  let ?ops = "cache_ops b src p fresh"
  note s = disk_stateD [OF d] and len = disk_length [OF d]
  have clean: "\<exists>im'. entry_clean_all ?ops force im = Some im' \<and> disk_state b src p fresh g good A v im' \<and> leave_dirty im' = leave_dirty im" for force
  proof -
    obtain im' where "entry_clean_all ?ops force im = Some im'" "leave_dirty im' = leave_dirty im"
      "image_holds p (cache_calm src p fresh g good) (cache_content b g) v {} im'"
      using disk.clean_all_total [OF s(1,3), of force] by auto
    with cache_clock.clean_all_wf [OF s(1) this(1)] s(2) show ?thesis
      by (simp add: disk_state_def)
  qed
  show ?thesis
  proof (cases r)
    case (Req_read buf start count)
    with r disk.read_loop_total [OF s cursor_start, of count start buf] len show ?thesis
      by (auto simp: image_read_def disk_state_def s(2) take_all_iff min_def)
  next
    case (Req_write buf start count)
    with r disk.write_loop_total [OF s cursor_start, of count start buf] len show ?thesis
      by (auto simp: image_write_def disk_state_def s(2) Let_def)
  next
    case Req_sync
    with clean [of True] show ?thesis by (auto simp: image_sync_def)
  next
    case Req_clean
    with clean [of False] d show ?thesis by (auto simp: entry_cleaner_def)
  qed
qed

lemma serve_refines:
  assumes "disk_state b src p fresh g good A v im" "\<forall>r \<in> set rs. request_ok p r"
  shows "\<exists>im' v'. serve (cache_ops b src p fresh) rs im = Some (fst (flat rs (disk p v)), im') \<and> disk p v' = snd (flat rs (disk p v))
    \<and> disk_state b src p fresh g good A v' im' \<and> leave_dirty im' = leave_dirty im"
  using assms
proof (induction rs arbitrary: im v)
  case (Cons r rs)
  obtain im1 v1 where o: "serve_one (cache_ops b src p fresh) r im = Some (fst (flat_one r (disk p v)), im1)"
    "disk p v1 = snd (flat_one r (disk p v))" "disk_state b src p fresh g good A v1 im1" "leave_dirty im1 = leave_dirty im"
    using serve_one_refines [OF Cons.prems(1)] Cons.prems(2) by (metis list.set_intros(1))
  from Cons.IH [OF o(3)] Cons.prems(2) obtain im2 v2 where "serve (cache_ops b src p fresh) rs im1 = Some (fst (flat rs (disk p v1)), im2)"
    "disk p v2 = snd (flat rs (disk p v1))" "disk_state b src p fresh g good A v2 im2" "leave_dirty im2 = leave_dirty im1"
    by auto
  then show ?case
    using o by (intro exI [of _ im2] exI [of _ v2]) (auto split: prod.splits)
qed auto

section \<open>A small parcel\<close>

text \<open>Every backend is the LZF one, so that nothing is left open.\<close>

definition lzf_backends :: "(LZF_STATE, LZF_STATE, LZF_STATE) backends" where
  "lzf_backends = \<lparr>b_zlib = isrcry_lzf_desc (\<lambda>_. None), b_lzf_garbage = (\<lambda>_. None),
     b_lzf_stream = isrcry_lzf_desc (\<lambda>_. None), b_lzma = isrcry_lzf_desc (\<lambda>_. None)\<rparr>"

text \<open>Two chunks of 16 bytes, both written and not yet cleaned.\<close>

definition sample_parcel :: pk_parcel where
  "sample_parcel = \<lparr>p_crypto = IU_CHUNK_CRY_AES_SHA1, p_required_compress = 2, p_chunks = 2, p_chunksize = 16, p_chunks_per_dir = 512,
     p_hashlen = 20, p_uuid = ''e0f2'', p_server = ''isr'', p_user = ''ann'',
     p_parcel = ''disk'', p_master = ''/isr/ann/disk/last/hdk''\<rparr>"

definition sample_db :: cdb where
  "sample_db = \<lparr>db_conn = \<lparr>tabs = \<lparr>t_keys = [(0, [], [], 0), (1, [], [], 0)], t_prev = None, t_chunks = Some [], t_version = 1\<rparr>,
       trans = None, faults = [Fault_busy False]\<rparr>,
     db_held = False, db_queries = 0, db_result = SQLITE_OK, db_use_transaction = False, db_retries = 0, db_criticals = 0\<rparr>"

definition sample_stats :: pk_stats where
  "sample_stats = \<lparr>s_bytes_read = 0, s_bytes_written = 0, s_chunk_reads = 0, s_chunk_writes = 0, s_chunk_errors = 0, s_cache_hits = 0,
     s_cache_misses = 0, s_cache_evictions = 0, s_cache_evictions_dirty = 0, s_data_bytes_written = 0, s_whole_chunk_updates = 0\<rparr>"

definition sample_state :: "unit pk_state" where
  "sample_state = \<lparr>conf_flags = WANT_LOCK, conf_compress = IU_CHUNK_COMP_NONE, parcel = sample_parcel,
     cache_file = Some \<lparr>f_data = [], f_faults = []\<rparr>, cache_index = None, cache_fd = True, cache_offset = 4096, cache_flags = 0,
     shm_base = Some [0, 0], stats = sample_stats, remote = ()\<rparr>"

definition sample_source :: "unit chunk_source" where
  "sample_source = \<lparr>hoard_get_chunk = (\<lambda>_ _. Some (PK_NOTFOUND, [], ())), transport_fetch_chunk = (\<lambda>_ _ _. Some (PK_NETFAIL, [], ()))\<rparr>"

abbreviation sample_ops :: "unit cache_state chunk_ops" where
  "sample_ops \<equiv> cache_ops lzf_backends sample_source sample_parcel (\<lambda>_. replicate 16 0)"

definition sample_image :: "unit cache_state image" where
  "sample_image = \<lparr>im_chunks = [(0, \<lparr>e_busy = False, e_waiters = 0, e_data = Some (replicate 16 7), e_dirty = 9, e_error = False\<rparr>),
       (1, \<lparr>e_busy = False, e_waiters = 0, e_data = Some (replicate 16 8), e_dirty = 9, e_error = False\<rparr>)],
     im_dirty = [0, 1], im_reclaimable = [0, 1], im_allocatable = 0, im_stopping = False, leave_dirty = False,
     store = (sample_db, sample_state, \<lambda>_. 100)\<rparr>"

abbreviation sample_disk_state :: "nat \<Rightarrow> (nat \<Rightarrow> bytes) \<Rightarrow> unit cache_state image \<Rightarrow> bool" where
  "sample_disk_state \<equiv> disk_state lzf_backends sample_source sample_parcel (\<lambda>_. replicate 16 0) (\<lambda>_ _. None) (\<lambda>_. True)"

lemma sample_pk_ok: "pk_ok sample_state"
  by (simp add: pk_ok_def parcel_ok_def sample_state_def sample_parcel_def iu_chunk_compress_is_enabled_def)

lemma sample_idle: "idle sample_db" "only_contention sample_db" "only_soft sample_db"
  by (simp_all add: idle_def sample_db_def contention_def soft_def)

lemma sample_writable: "writable (tabs (db_conn sample_db)) sample_state"
  by (simp add: writable_def sample_db_def sample_state_def)

lemma sample_row: "c < 2 \<Longrightarrow> map_of (t_keys (tabs (db_conn sample_db))) (int c) \<noteq> None"
  by (auto simp: sample_db_def less_2_cases_iff)

lemma sample_calm: "cache_calm sample_source sample_parcel (\<lambda>_. replicate 16 0) (\<lambda>_ _. None) (\<lambda>_. True) (sample_db, sample_state, \<lambda>_. 100)"
  using sample_pk_ok sample_idle(1,2) sample_writable sample_row
  by (auto simp: cache_calm_def serves_def sample_parcel_def sample_state_def)

lemma sample_disk: "sample_disk_state 2 (\<lambda>c. if c = 0 then replicate 16 7 else replicate 16 8) sample_image"
proof -
  have "image_wf sample_parcel 2 {} sample_image"
    by (auto simp: image_wf_def wf_entry_def sample_image_def sample_parcel_def buffers_def buf_count_def split: if_splits)
  moreover have "chunk_holds (cache_content lzf_backends (\<lambda>_ _. None)) (\<lambda>c. if c = 0 then replicate 16 7 else replicate 16 8) sample_image c"
    if "c < 2" for c
    using that by (auto simp: chunk_holds_def sample_image_def less_2_cases_iff)
  ultimately show ?thesis
    using sample_calm by (simp add: disk_state_def image_holds_def sample_image_def sample_parcel_def)
qed

lemma sample_bytes: "disk sample_parcel (\<lambda>c. if c = 0 then replicate 16 7 else replicate 16 8) = replicate 16 7 @ replicate 16 8"
  by (simp add: disk_def sample_parcel_def upt_rec)

section \<open>The virtual disk\<close>

text \<open>
  C25.  The virtual disk over the local cache is one array of bytes: for every sequence of reads, writes and flushes, with rounds
  of the cleaner thread between them, every request returns, with the result and the data that the array gives, in spite of
  contention for the database; nothing fails, and the image stands for the array afterwards.  Chunks are fetched, cached, evicted,
  written back, compressed, encrypted and decrypted on the way.
\<close>

theorem disk_is_an_array:
  assumes "disk_state b src p fresh g good A v im" "\<forall>r \<in> set rs. request_ok p r"
  shows "\<exists>im' v'. serve (cache_ops b src p fresh) rs im = Some (fst (flat rs (disk p v)), im') \<and> disk p v' = snd (flat rs (disk p v))
    \<and> disk_state b src p fresh g good A v' im' \<and> leave_dirty im' = leave_dirty im"
  by (rule serve_refines [OF assms])

theorem disk_is_an_array_witness:
  "\<exists>im'. serve sample_ops [Req_write [1, 2, 3] 15 3, Req_sync, Req_clean, Req_read (replicate 5 0) 14 5, Req_write [9] 32 1] sample_image =
    Some ([(3, []), (0, []), (0, []), (5, [7, 1, 2, 3, 8]), (- ENOSPC, [])], im')"
proof -
  let ?rs = "[Req_write [1, 2, 3] 15 3, Req_sync, Req_clean, Req_read (replicate 5 0) 14 5, Req_write [9] 32 1]"
  have "\<forall>r \<in> set ?rs. request_ok sample_parcel r"
    by (simp add: sample_parcel_def)
  moreover have "fst (flat ?rs (replicate 16 7 @ replicate 16 8)) = [(3, []), (0, []), (0, []), (5, [7, 1, 2, 3, 8]), (- ENOSPC, [])]"
    by code_simp
  ultimately show ?thesis
    using disk_is_an_array [OF sample_disk, of ?rs] sample_bytes by auto
qed

lemma stopping_keeps:
  "image_holds p calm content v X (im\<lparr>im_stopping := y\<rparr>) = image_holds p calm content v X im"
  "image_wf p A H (im\<lparr>im_stopping := y\<rparr>) = image_wf p A H im"
proof -
  have "chunk_holds content v (im\<lparr>im_stopping := y\<rparr>) c = chunk_holds content v im c" for c
    by (auto simp: chunk_holds_def split: option.splits)
  then show "image_holds p calm content v X (im\<lparr>im_stopping := y\<rparr>) = image_holds p calm content v X im"
    by (simp add: image_holds_def)
  show "image_wf p A H (im\<lparr>im_stopping := y\<rparr>) = image_wf p A H im"
    by (simp add: image_wf_def wf_entry_def buffers_def)
qed

text \<open>
  C26.  Shutting the image down writes everything back: it returns, the chunk cache is empty, and \<open>cache_get\<close> then delivers each
  chunk of the disk from the local cache.
\<close>

theorem disk_survives_shutdown:
  assumes "disk_state b src p fresh g good A v im"
  shows "\<exists>im' db st t. image_shutdown (cache_ops b src p fresh) im = Some im' \<and> im_chunks im' = [] \<and> leave_dirty im' = leave_dirty im
    \<and> store im' = (db, st, t)
    \<and> (\<forall>c < p_chunks p. \<forall>dst. length dst = p_chunksize p \<longrightarrow> (\<exists>db' st'. cache_get b src db st c dst = Some (PK_SUCCESS, v c, db', st')))"
proof -
  let ?ops = "cache_ops b src p fresh" and ?im = "im\<lparr>im_stopping := True\<rparr>"
  note s = disk_stateD [OF assms]
  have h: "image_holds (op_parcel ?ops) (cache_calm src p fresh g good) (cache_content b g) v {} ?im" "image_wf (op_parcel ?ops) A {} ?im"
    using s(1,3) by (simp_all add: stopping_keeps)
  obtain im1 where im1: "entry_clean_all ?ops True ?im = Some im1" "leave_dirty im1 = leave_dirty im"
    "image_holds (op_parcel ?ops) (cache_calm src p fresh g good) (cache_content b g) v {} im1"
    using disk.clean_all_total [OF h(2,1), of True] by auto
  have w1: "image_wf (op_parcel ?ops) A {} im1" "im_dirty im1 = []"
    using cache_clock.clean_all_wf [OF h(2) im1(1)] by auto
  obtain im2 where im2: "image_free_buffers ?ops im1 = Some im2" "im_chunks im2 = []" "leave_dirty im2 = leave_dirty im1"
    "cache_calm src p fresh g good (store im2)" "\<And>c. c < p_chunks p \<Longrightarrow> cache_content b g (store im2) c (v c)"
    using disk.free_buffers_total [OF w1(1) im1(3) w1(2)] by auto
  obtain db st t where st: "store im2 = (db, st, t)" by (cases "store im2") auto
  have "\<exists>db' st'. cache_get b src db st c dst = Some (PK_SUCCESS, v c, db', st')" if "c < p_chunks p" "length dst = p_chunksize p" for c dst
    using calm_get [OF im2(4) that(1) im2(5) [OF that(1)] that(2)] by (auto simp: st cache_ops_def split: bind_split_asm)
  with im1 im2 st show ?thesis
    by (auto simp: image_shutdown_def)
qed

theorem disk_survives_shutdown_witness:
  "\<exists>im' db st t db' st'. image_shutdown sample_ops sample_image = Some im' \<and> store im' = (db, st, t)
    \<and> cache_get lzf_backends sample_source db st 1 (replicate 16 0) = Some (PK_SUCCESS, replicate 16 8, db', st')"
proof -
  obtain im' db st t where s: "image_shutdown sample_ops sample_image = Some im'" "store im' = (db, st, t)"
    "\<forall>c < p_chunks sample_parcel. \<forall>dst. length dst = p_chunksize sample_parcel \<longrightarrow> (\<exists>db' st'. cache_get lzf_backends sample_source db st c dst =
      Some (PK_SUCCESS, if c = 0 then replicate 16 7 else replicate 16 8, db', st'))"
    using disk_survives_shutdown [OF sample_disk] by blast
  from s(3) [rule_format, of 1 "replicate 16 0"] s(1,2) show ?thesis
    by (auto simp: sample_parcel_def)
qed

text \<open>
  C27.  Whatever the layer below does - failing reads and writes of the cache file, a database that is busy or broken, chunks that
  cannot be fetched or decoded - the chunk cache keeps its invariant: the two queues hold each chunk at most once and exactly the
  dirty and the idle entries, no idle entry is busy or without a buffer, and buffers and allowance add up to the number of
  buffers that \<open>image_init\<close> allows; an error on any entry leaves the cache marked as dirty.
\<close>

theorem chunk_cache_invariant:
  assumes "reachable (cache_ops b src p fresh) A im"
  shows "image_wf p A {} im"
  using cache_clock.reachable_wf [OF assms] by simp

theorem chunk_cache_invariant_witness:
  "\<exists>im. image_init sample_ops (2 ^ 30) 1 True (sample_db, sample_state, \<lambda>_. 0) = (PK_SUCCESS, Some im) \<and> image_wf sample_parcel 65536 {} im"
proof -
  obtain im where im: "image_init sample_ops (2 ^ 30) 1 True (sample_db, sample_state, \<lambda>_. 0) = (PK_SUCCESS, Some im)" "im_allocatable im = 65536"
    by (simp add: image_init_def sample_parcel_def)
  from chunk_cache_invariant [OF reach_init [OF im(1)]] im show ?thesis by auto
qed

end
