(* ===== verification/Isr_Txn.thy ===== *)
theory Isr_Txn
  imports Isr_Pk
begin

text \<open>
  Rules for the bodies of transactions, one per construct of the code that uses \<^verbatim>\<open>sqlite/wrapper.c\<close>: a statement whose failure ends
  the body, a statement whose rows are fetched, the next row, a call of a function that itself consists of statements, and the
  commit at the end.  With them the proof about a body follows its text, and only the effects on the tables remain.
\<close>

section \<open>A connection inside a transaction\<close>

definition inside :: "'t \<Rightarrow> nat \<Rightarrow> 't \<Rightarrow> 't db \<Rightarrow> bool" where
  "inside t0 k t db \<longleftrightarrow> txn_open t0 k db \<and> tabs (db_conn db) = t \<and> \<not> query_busy db"

text \<open>The same after a statement that failed.\<close>

definition failing :: "'t \<Rightarrow> nat \<Rightarrow> bool \<Rightarrow> 't db \<Rightarrow> 't db \<Rightarrow> bool" where
  "failing t0 k good db db' \<longleftrightarrow> later db db' \<and> txn_failed t0 k db' \<and> \<not> query_has_row db' \<and> \<not> query_ok db'
     \<and> (query_busy db' \<longrightarrow> pending db' < pending db) \<and> (good \<and> only_contention db \<longrightarrow> query_busy db')"

lemma failing_aborted: "failing t0 0 good db db' \<Longrightarrow> aborted t0 good db db'"
  by (simp add: failing_def aborted_def)

lemma failing_later: "later db0 db \<Longrightarrow> failing t0 k good db db' \<Longrightarrow> failing t0 k good db0 db'"
  by (auto simp: failing_def later_def)

lemma failing_free: "failing t0 (Suc k) good db db' \<Longrightarrow> failing t0 k good db (query_free (Some q) db')"
  by (auto simp: failing_def query_free_def later_def txn_failed_def query_busy_def query_has_row_def query_ok_def)

lemma inside_free: "inside t0 (Suc k) t db \<Longrightarrow> inside t0 k t (query_free (Some q) db)"
  by (simp add: inside_def query_free_def txn_open_def query_busy_def)

lemma later_free: "later db (query_free q db') \<longleftrightarrow> later db db'"
  by (simp add: later_def query_free_def)

lemma later_freeI: "later db db' \<Longrightarrow> later db (query_free q db')"
  by (simp add: later_free)

lemma result_free [simp]:
  "query_ok (query_free q db) = query_ok db" "query_has_row (query_free q db) = query_has_row db"
  "query_busy (query_free q db) = query_busy db" "query_constrained (query_free q db) = query_constrained db"
  "tabs (db_conn (query_free q db)) = tabs (db_conn db)" "db_result (query_free q db) = db_result db"
  by (simp_all add: query_free_def query_ok_def query_has_row_def query_busy_def query_constrained_def)

section \<open>Statements\<close>

text \<open>The value of a statement with its parameters.\<close>

definition stmt_value :: "'t sql \<Rightarrow> string \<Rightarrow> sqlval list \<Rightarrow> 't \<Rightarrow> (stmt_error + ('t \<times> sqlrow list)) option" where
  "stmt_value s fmt args t = (case (s, param_set_group 0 fmt args []) of
     (SQL_stmt f, Some (Some ps)) \<Rightarrow> Some (f (bind_all (\<lambda>_. SQL_null) ps) t) | _ \<Rightarrow> None)"

lemma stmt_valueD:
  assumes "stmt_value s fmt args t = Some v"
  obtains f ps where "s = SQL_stmt f" "param_set_group 0 fmt args [] = Some (Some ps)" "v = f (bind_all (\<lambda>_. SQL_null) ps) t"
  using assms by (auto simp: stmt_value_def split: sql.splits option.splits)

lemma stmt_failing:
  assumes "stmt_done t0 k v db False db' rows" "good \<Longrightarrow> \<exists>x. v = Inr x"
  shows "failing t0 k good db db'"
  using stmt_done_fail [OF assms(1)] assms(2) by (auto simp: failing_def)

lemma stmt_inside:
  assumes "stmt_done t0 k v db True db' rows"
  obtains t where "v = Inr (t, rows)" "inside t0 k t db'" "later db db'" "db_result db' = (if rows = [] then SQLITE_OK else SQLITE_ROW)"
  using assms by (auto simp: inside_def query_busy_def elim!: stmt_done_ok split: if_splits)

text \<open>A violated constraint leaves the transaction as it was.\<close>

lemma query_v_constrained:
  assumes o: "txn_open t0 k db" and q: "query_v want db (SQL_stmt f) ps = (ok, q, db')" and c: "db_result db' = SQLITE_CONSTRAINT"
  shows "f (bind_all (\<lambda>_. SQL_null) ps) (tabs (db_conn db)) = Inl Stmt_constraint \<and> inside t0 k (tabs (db_conn db)) db' \<and> later db db'"
proof -
  obtain r cn where rc: "engine_call (db_conn db) = (r, cn)"
    by fastforce
  have held: "db_in_trans db" "db_queries db = k"
    using o by (simp_all add: txn_open_def db_in_trans_def)
  have r: "r = SQLITE_OK"
  proof (rule ccontr)
    assume nr: "r \<noteq> SQLITE_OK"
    then have "db' = db\<lparr>db_conn := cn, db_result := r\<rparr>"
      using q rc held by (simp add: query_v_def alloc_query_def Let_def)
    with nr c engine_call_txn [OF o rc] show False
      by (auto simp: call_failed_def)
  qed
  let ?db1 = "db\<lparr>db_conn := cn, db_result := SQLITE_OK, db_queries := Suc k\<rparr>"
  have 1: "txn_open t0 (Suc k) ?db1" "db_result ?db1 = SQLITE_OK" "later db ?db1" "tabs (db_conn ?db1) = tabs (db_conn db)"
    using engine_call_txn [OF o rc, of SQLITE_OK] r by (auto simp: later_def txn_open_def)
  obtain q2 db2 where b: "bind_params ps \<lparr>q_sql = SQL_stmt f, q_binds = (\<lambda>_. SQL_null), q_run = False, q_rows = []\<rparr> ?db1 = (q2, db2)"
    by fastforce
  obtain ok3 q3 db3 where n: "query_next q2 db2 = (ok3, q3, db3)"
    using prod_cases3 by blast
  from query_v_prepared [OF 1 b n] have "db_result db2 \<noteq> SQLITE_ROW"
    by (auto simp: call_failed_def)
  note eq = query_v_step [OF held(1) rc [unfolded r] held(2) b this n, of want, unfolded q]
  have 2: "db_result db2 = SQLITE_OK" "later ?db1 db2" "txn_open t0 (Suc k) db2" "tabs (db_conn db2) = tabs (db_conn ?db1)"
      "q_sql q2 = SQL_stmt f" "\<not> q_run q2" "q_binds q2 = bind_all (\<lambda>_. SQL_null) ps"
    using bind_params_txn [OF 1(1,2) b] eq c by (auto simp: call_failed_def split: if_splits)
  have e: "db' = query_free (Some q3) db3" "db_result db3 = SQLITE_CONSTRAINT"
    using eq c 2(1) by (auto split: if_splits)
  obtain r3 c3 where rc3: "engine_call (db_conn db2) = (r3, c3)"
    by fastforce
  have r3: "r3 = SQLITE_OK"
    using engine_call_txn [OF 2(3) rc3] e(2) n rc3
    by (auto simp: call_failed_def query_next_def sqlite3_step_def Let_def split: if_splits prod.splits)
  have 3: "later db2 (db2\<lparr>db_conn := c3, db_result := x\<rparr>)" "txn_open t0 (Suc k) (db2\<lparr>db_conn := c3, db_result := x\<rparr>)"
      "tabs c3 = tabs (db_conn db2)" for x
    using engine_call_txn [OF 2(3) rc3, of x] r3 by simp_all
  have v: "f (bind_all (\<lambda>_. SQL_null) ps) (tabs (db_conn db)) = Inl Stmt_constraint \<and> db3 = db2\<lparr>db_conn := c3, db_result := SQLITE_CONSTRAINT\<rparr>"
    using n e(2) 2 1(4) 3(3) rc3 r3
    by (auto simp: query_next_def sqlite3_step_def engine_exec_def Let_def split: stmt_error.splits sum.splits if_splits prod.splits)
  have "later db db3"
    using v 3(1) [of SQLITE_CONSTRAINT] later_trans [OF 1(3) later_trans [OF 2(2)]] by blast
  then show ?thesis
    using v e(1) 3(2,3) 1(4) 2(4) by (simp add: later_def inside_def query_busy_def query_free_def txn_open_def)
qed

text \<open>A statement that violates a constraint and fails for another reason has met a fault of the engine.\<close>

lemma query_v_contended:
  assumes o: "txn_open t0 k db" and q: "query_v want db (SQL_stmt f) ps = (ok, q, db')" and oc: "only_contention db"
    and v: "f (bind_all (\<lambda>_. SQL_null) ps) (tabs (db_conn db)) = Inl Stmt_constraint"
  shows "db_result db' = SQLITE_BUSY \<or> db_result db' = SQLITE_CONSTRAINT"
proof -
  obtain r cn where rc: "engine_call (db_conn db) = (r, cn)"
    by fastforce
  have held: "db_in_trans db" "db_queries db = k"
    using o by (simp_all add: txn_open_def db_in_trans_def)
  show ?thesis
  proof (cases "r = SQLITE_OK")
    case False
    then have "db' = db\<lparr>db_conn := cn, db_result := r\<rparr>"
      using q rc held by (simp add: query_v_def alloc_query_def Let_def)
    with False engine_call_txn [OF o rc] oc show ?thesis
      by (auto simp: call_failed_def)
  next
    case r: True
    let ?db1 = "db\<lparr>db_conn := cn, db_result := SQLITE_OK, db_queries := Suc k\<rparr>"
    have 1: "txn_open t0 (Suc k) ?db1" "db_result ?db1 = SQLITE_OK" "later db ?db1" "tabs (db_conn ?db1) = tabs (db_conn db)"
      using engine_call_txn [OF o rc, of SQLITE_OK] r by (auto simp: later_def txn_open_def)
    obtain q2 db2 where b: "bind_params ps \<lparr>q_sql = SQL_stmt f, q_binds = (\<lambda>_. SQL_null), q_run = False, q_rows = []\<rparr> ?db1 = (q2, db2)"
      by fastforce
    obtain ok3 q3 db3 where n: "query_next q2 db2 = (ok3, q3, db3)"
      using prod_cases3 by blast
    from query_v_prepared [OF 1 b n] have "db_result db2 \<noteq> SQLITE_ROW"
      by (auto simp: call_failed_def)
    note eq = query_v_step [OF held(1) rc [unfolded r] held(2) b this n, of want, unfolded q]
    show ?thesis
    proof (cases "db_result db2 = SQLITE_OK")
      case False
      with bind_params_txn [OF 1(1,2) b] have "call_failed t0 (Suc k) ?db1 db2"
        by blast
      with later_contention [OF 1(3) oc] eq False show ?thesis
        by (auto simp: call_failed_def)
    next
      case True
      then have 2: "later ?db1 db2" "txn_open t0 (Suc k) db2" "tabs (db_conn db2) = tabs (db_conn ?db1)"
          "q_sql q2 = SQL_stmt f" "\<not> q_run q2" "q_binds q2 = bind_all (\<lambda>_. SQL_null) ps"
        using bind_params_txn [OF 1(1,2) b] by (auto simp: call_failed_def)
      obtain r3 c3 where rc3: "engine_call (db_conn db2) = (r3, c3)"
        by fastforce
      have oc2: "only_contention db2"
        by (rule later_contention [OF later_trans [OF 1(3) 2(1)] oc])
      consider "r3 = SQLITE_BUSY" | "r3 = SQLITE_OK" "tabs c3 = tabs (db_conn db2)"
        using engine_call_txn [OF 2(2) rc3] oc2 by (auto simp: call_failed_def)
      then have "db_result db3 = SQLITE_BUSY \<or> db_result db3 = SQLITE_CONSTRAINT"
        using n rc3 v 2(3-6) 1(4)
        by cases (auto simp: query_next_def sqlite3_step_def engine_exec_def Let_def)
      with eq True show ?thesis
        by (auto split: if_splits)
    qed
  qed
qed

lemma stmt_do_cases:
  assumes "inside t0 k t db" "stmt_value s fmt args t = Some v"
  obtains (ok) db' t' rows where "query_do db s fmt args = Some (True, db')" "v = Inr (t', rows)" "inside t0 k t' db'" "later db db'"
      "db_result db' = (if rows = [] then SQLITE_OK else SQLITE_ROW)"
  | (constraint) db' where "query_do db s fmt args = Some (False, db')" "v = Inl Stmt_constraint" "inside t0 k t db'" "later db db'"
      "db_result db' = SQLITE_CONSTRAINT"
  | (fail) db' where "query_do db s fmt args = Some (False, db')" "\<not> query_constrained db'"
      "\<And>good. (good \<Longrightarrow> v \<noteq> Inl Stmt_error) \<Longrightarrow> failing t0 k good db db'"
proof -
  obtain f ps where s: "s = SQL_stmt f" "param_set_group 0 fmt args [] = Some (Some ps)" "v = f (bind_all (\<lambda>_. SQL_null) ps) t"
    using assms(2) by (rule stmt_valueD)
  obtain okv q db' where q: "query_v False db s ps = (okv, q, db')"
    using prod_cases3 by blast
  have o: "txn_open t0 k db" "tabs (db_conn db) = t"
    using assms(1) by (simp_all add: inside_def)
  have d: "query_do db s fmt args = Some (okv, db')"
    using q s(2) by (simp add: query_do_def query_def)
  obtain rows where st: "stmt_done t0 k v db okv db' rows"
    using query_v_txn [OF o(1) q [unfolded s(1)]] s(3) o(2) by auto
  show thesis
  proof (cases okv)
    case True
    then have "stmt_done t0 k v db True db' rows"
      using st by simp
    with d True ok show thesis by (auto elim!: stmt_inside)
  next
    case False
    then have st': "stmt_done t0 k v db False db' rows"
      using st by simp
    show thesis
    proof (cases "db_result db' = SQLITE_CONSTRAINT")
      case True
      with query_v_constrained [OF o(1) q [unfolded s(1)] True] constraint [of db'] d False s(3) o(2) show thesis by simp
    next
      case nc: False
      have "failing t0 k good db db'" if g: "good \<Longrightarrow> v \<noteq> Inl Stmt_error" for good
      proof (cases "v = Inl Stmt_constraint")
        case True
        then have "only_contention db \<longrightarrow> query_busy db'"
          using query_v_contended [OF o(1) q [unfolded s(1)]] nc s(3) o(2) by (auto simp: query_busy_def)
        with stmt_failing [OF st', of False] show ?thesis
          by (simp add: failing_def)
      next
        case nv: False
        have "\<exists>x. v = Inr x" if good
        proof (cases v)
          case (Inl e)
          with g that nv show ?thesis by (cases e) auto
        qed simp
        then show ?thesis
          by (rule stmt_failing [OF st'])
      qed
      with d False nc show thesis
        by (intro fail [of db']) (auto simp: query_constrained_def)
    qed
  qed
qed

lemma stmt_rows_cases:
  assumes "inside t0 k t db" "stmt_value s fmt args t = Some v"
  obtains (rows) q db' t' where "query True db s fmt args = Some (True, Some q, db')" "v = Inr (t', q_rows q)" "q_rows q \<noteq> []" "q_run q"
      "inside t0 (Suc k) t' db'" "later db db'" "db_result db' = SQLITE_ROW"
  | (none) db' t' where "query True db s fmt args = Some (True, None, db')" "v = Inr (t', [])" "inside t0 k t' db'" "later db db'"
      "db_result db' = SQLITE_OK"
  | (fail) db' where "query True db s fmt args = Some (False, None, db')"
      "\<And>good. (good \<Longrightarrow> \<exists>x. v = Inr x) \<Longrightarrow> failing t0 k good db db'"
proof -
  obtain f ps where s: "s = SQL_stmt f" "param_set_group 0 fmt args [] = Some (Some ps)" "v = f (bind_all (\<lambda>_. SQL_null) ps) t"
    using assms(2) by (rule stmt_valueD)
  obtain okv q db' where q: "query_v True db s ps = (okv, q, db')"
    using prod_cases3 by blast
  have o: "txn_open t0 k db" "tabs (db_conn db) = t"
    using assms(1) by (simp_all add: inside_def)
  have d: "query True db s fmt args = Some (okv, q, db')"
    using q s(2) by (simp add: query_def)
  obtain rs where st: "stmt_done t0 (if okv \<and> rs \<noteq> [] then Suc k else k) v db okv db' rs"
      "if okv \<and> rs \<noteq> [] then \<exists>q'. q = Some q' \<and> q_run q' \<and> q_rows q' = rs else q = None"
    using query_v_txn [OF o(1) q [unfolded s(1)]] s(3) o(2) by auto
  show thesis
  proof (cases okv)
    case False
    have "stmt_done t0 k v db False db' rs" "q = None"
      using st False by simp_all
    from d False this(2) stmt_failing [OF this(1)] show thesis by (intro fail [of db']) auto
  next
    case True
    show thesis
    proof (cases "rs = []")
      case empty: True
      have "stmt_done t0 k v db True db' []" "q = None"
        using st True empty by simp_all
      then show thesis
        using d True none by (auto elim!: stmt_inside)
    next
      case some: False
      then obtain q' where q': "q = Some q'" "q_run q'" "q_rows q' = rs"
        using st(2) True by auto
      have "stmt_done t0 (Suc k) v db True db' rs"
        using st(1) True some by simp
      then show thesis
        using d True q' some rows by (auto elim!: stmt_inside)
    qed
  qed
qed

text \<open>A statement that has a row to return.\<close>

lemma stmt_row_cases:
  assumes "inside t0 k t db" "stmt_value s fmt args t = Some (Inr (t', row # rows))"
  obtains (row) q db' where "query True db s fmt args = Some (True, Some q, db')" "q_rows q = row # rows" "q_run q"
      "inside t0 (Suc k) t' db'" "later db db'" "query_has_row db'"
  | (fail) db' where "query True db s fmt args = Some (False, None, db')" "failing t0 k good db db'" "\<not> query_has_row db'" "\<not> query_ok db'"
  using assms
proof (cases rule: stmt_rows_cases)
  case (rows q db' t2)
  then show thesis
    by (intro row [of q db']) (auto simp: query_has_row_def)
next
  case (fail db')
  have "failing t0 k good db db'"
    using fail(2) by simp
  with fail(1) show thesis
    by (intro that(2) [of db']) (auto simp: failing_def)
qed simp

text \<open>The next row of a query; what happens to the tables in the meantime does not matter to its rows.\<close>

lemma stmt_next_cases:
  assumes "inside t0 k t db" "q_run q"
  obtains (ok) q' db' where "query_next q db = (True, q', db')" "q_run q'" "q_rows q' = tl (q_rows q)" "inside t0 k t db'" "later db db'"
      "db_result db' = (if tl (q_rows q) = [] then SQLITE_OK else SQLITE_ROW)"
  | (fail) q' db' where "query_next q db = (False, q', db')" "failing t0 k good db db'"
proof -
  have o: "txn_open t0 k db" "tabs (db_conn db) = t"
    using assms(1) by (simp_all add: inside_def)
  obtain r c where rc: "engine_call (db_conn db) = (r, c)"
    by fastforce
  show thesis
  proof (cases "r = SQLITE_OK")
    case True
    have 1: "later db (db\<lparr>db_conn := c, db_result := x\<rparr>)" "txn_open t0 k (db\<lparr>db_conn := c, db_result := x\<rparr>)" "tabs c = tabs (db_conn db)" for x
      using engine_call_txn [OF o(1) rc, of x] True by simp_all
    let ?r = "if tl (q_rows q) = [] then SQLITE_OK else SQLITE_ROW"
    show thesis
    proof (rule ok [of "q\<lparr>q_rows := tl (q_rows q)\<rparr>" "db\<lparr>db_conn := c, db_result := ?r\<rparr>"])
      show "query_next q db = (True, q\<lparr>q_rows := tl (q_rows q)\<rparr>, db\<lparr>db_conn := c, db_result := ?r\<rparr>)"
        using rc True assms(2) by (simp add: query_next_def sqlite3_step_def Let_def)
      show "inside t0 k t (db\<lparr>db_conn := c, db_result := ?r\<rparr>)"
        using 1(2,3) o(2) by (simp add: inside_def query_busy_def)
    qed (use 1 assms(2) in auto)
  next
    case False
    have f: "call_failed t0 k db (db\<lparr>db_conn := c, db_result := r\<rparr>)"
      using engine_call_txn [OF o(1) rc] False by blast
    let ?r = "if r = SQLITE_IOERR_BLOCKED then SQLITE_BUSY else r"
    show thesis
    proof (rule fail [of q "db\<lparr>db_conn := c, db_result := ?r\<rparr>"])
      show "query_next q db = (False, q, db\<lparr>db_conn := c, db_result := ?r\<rparr>)"
        using rc f False by (auto simp: query_next_def sqlite3_step_def Let_def call_failed_def)
      show "failing t0 k good db (db\<lparr>db_conn := c, db_result := ?r\<rparr>)"
        using f by (auto simp: failing_def call_failed_def later_def txn_failed_def query_has_row_def query_ok_def query_busy_def)
    qed
  qed
qed

section \<open>Functions inside a transaction\<close>

text \<open>An error code is never the code of success.\<close>

definition runs :: "'t \<Rightarrow> bool \<Rightarrow> 't db \<Rightarrow> ((pk_err + 'a) \<times> 't db) option \<Rightarrow> ('a \<Rightarrow> 't db \<Rightarrow> bool) \<Rightarrow> bool" where
  "runs t0 good db m Q \<longleftrightarrow> (\<exists>r db'. m = Some (r, db') \<and> later db db' \<and> (case r of Inr a \<Rightarrow> Q a db' | Inl e \<Rightarrow> e \<noteq> PK_SUCCESS \<and> aborted t0 good db db'))"

lemma runs_later: "later db0 db \<Longrightarrow> runs t0 good db m Q \<Longrightarrow> runs t0 good db0 m Q"
  unfolding runs_def by (elim exE conjE, intro exI conjI, assumption) (auto split: sum.splits intro: later_trans aborted_later)

lemma runs_mono: "runs t0 good db m Q \<Longrightarrow> (\<And>a db'. Q a db' \<Longrightarrow> Q' a db') \<Longrightarrow> runs t0 good db m Q'"
  unfolding runs_def by (elim exE conjE, intro exI conjI, assumption) (auto split: sum.splits)

lemma runs_good: "runs t0 True db m Q \<Longrightarrow> runs t0 good db m Q"
  unfolding runs_def aborted_def by (elim exE conjE, intro exI conjI, assumption) (auto split: sum.splits)

lemma runs_return: "Q a db \<Longrightarrow> runs t0 good db (Some (Inr a, db)) Q"
  by (simp add: runs_def)

lemma runs_bind:
  assumes "runs t0 good db m P" "\<And>a db'. P a db' \<Longrightarrow> later db db' \<Longrightarrow> runs t0 good db' (K a db') Q"
  shows "runs t0 good db (do { (r, db) \<leftarrow> m; (case r of Inl e \<Rightarrow> Some (Inl e, db) | Inr a \<Rightarrow> K a db) }) Q"
proof -
  obtain r db' where m: "m = Some (r, db')" "later db db'" "case r of Inr a \<Rightarrow> P a db' | Inl e \<Rightarrow> e \<noteq> PK_SUCCESS \<and> aborted t0 good db db'"
    using assms(1) by (auto simp: runs_def)
  show ?thesis
  proof (cases r)
    case (Inr a)
    then have "runs t0 good db (K a db') Q"
      using m assms(2) by (intro runs_later [OF m(2)]) simp
    with Inr m(1) show ?thesis by simp
  next
    case (Inl e)
    with m show ?thesis by (simp add: runs_def)
  qed
qed

lemma runs_fail: "failing t0 0 good db db' \<Longrightarrow> e \<noteq> PK_SUCCESS \<Longrightarrow> runs t0 good db (Some (Inl e, db')) Q"
  by (frule failing_aborted) (simp add: runs_def failing_def)

lemma runs_do:
  assumes "inside t0 0 t db" "stmt_value s fmt args t = Some v" "good \<Longrightarrow> \<exists>x. v = Inr x"
    and "\<And>t' rows db'. v = Inr (t', rows) \<Longrightarrow> inside t0 0 t' db' \<Longrightarrow> later db db' \<Longrightarrow>
      db_result db' = (if rows = [] then SQLITE_OK else SQLITE_ROW) \<Longrightarrow> runs t0 good db' (K db') Q" and "e \<noteq> PK_SUCCESS"
  shows "runs t0 good db (do { (ok, db) \<leftarrow> query_do db s fmt args; if \<not> ok then Some (Inl e, db) else K db }) Q"
  using assms(1,2)
proof (cases rule: stmt_do_cases)
  case (ok db' t' rows)
  with runs_later [OF ok(4) assms(4) [OF ok(2,3,4,5)]] show ?thesis by simp
next
  case (constraint db')
  have "\<not> good"
    using assms(3) constraint(2) by auto
  moreover have "\<not> query_busy db'"
    using constraint(3) by (simp add: inside_def)
  ultimately have "aborted t0 good db db'"
    using constraint(3,4) by (auto simp: aborted_def inside_def txn_open_def txn_failed_def)
  with constraint assms(5) show ?thesis by (simp add: runs_def)
next
  case (fail db')
  have "failing t0 0 good db db'"
    using fail(3) assms(3) by auto
  from failing_aborted [OF this] fail(1) assms(5) show ?thesis
    by (simp add: runs_def aborted_def)
qed

lemma runs_do_last:
  assumes "inside t0 0 t db" "stmt_value s fmt args t = Some v" "good \<Longrightarrow> \<exists>x. v = Inr x"
    and "\<And>t' rows db'. v = Inr (t', rows) \<Longrightarrow> inside t0 0 t' db' \<Longrightarrow> later db db' \<Longrightarrow> Q a db'" and "e \<noteq> PK_SUCCESS"
  shows "runs t0 good db (do { (ok, db) \<leftarrow> query_do db s fmt args; Some (if ok then Inr a else Inl e, db) }) Q"
proof -
  have "runs t0 good db (do { (ok, db) \<leftarrow> query_do db s fmt args; if \<not> ok then Some (Inl e, db) else Some (Inr a, db) }) Q"
    by (rule runs_do [OF assms(1-3)]) (auto intro: runs_return assms(4) simp: assms(5))
  moreover have "(do { (ok, db) \<leftarrow> query_do db s fmt args; if \<not> ok then Some (Inl e, db) else Some (Inr a, db) }) =
      (do { (ok, db) \<leftarrow> query_do db s fmt args; Some (if ok then Inr a else Inl e, db) })"
    by (cases "query_do db s fmt args") auto
  ultimately show ?thesis by (simp only:)
qed

section \<open>Loops over rows\<close>

text \<open>
  \<open>R\<close> are the values whose rows are still to come and \<open>I\<close> relates them to the tables.  The body may change the tables; the rows of the
  query stay as they were.
\<close>

lemma for_rows_run:
  assumes body: "\<And>x R t q db. I (x # R) t \<Longrightarrow> inside t0 k t db \<Longrightarrow> q_rows q = enc x # map enc R \<Longrightarrow>
      \<exists>ok db'. body q db = Some (ok, db') \<and> (if ok then \<exists>t'. inside t0 k t' db' \<and> later db db' \<and> I R t' else failing t0 k True db db')"
    and "I R t" "inside t0 k t db" "q_run q" "q_rows q = map enc R" "db_result db = (if R = [] then SQLITE_OK else SQLITE_ROW)"
  shows "\<exists>ok q' db'. for_rows body (Some q) db = Some (ok, Some q', db') \<and>
    (failing t0 k True db db' \<or> ok \<and> query_ok db' \<and> (\<exists>t'. inside t0 k t' db' \<and> later db db' \<and> I [] t'))"
  using assms(2-6)
proof (induction R arbitrary: t db q)
  case Nil
  then have "for_rows body (Some q) db = Some (True, Some q, db)" "query_ok db"
    by (simp_all add: for_rows.simps query_has_row_def query_ok_def)
  then show ?case
    using Nil.prems(1,2) later_refl by blast
next
  case (Cons x R)
  have hr: "query_has_row db"
    using Cons.prems(5) by (simp add: query_has_row_def)
  obtain ok db1 where b: "body q db = Some (ok, db1)"
      "if ok then \<exists>t'. inside t0 k t' db1 \<and> later db db1 \<and> I R t' else failing t0 k True db db1"
    using body [OF Cons.prems(1,2), of q] Cons.prems(4) by auto
  show ?case
  proof (cases ok)
    case False
    then have "for_rows body (Some q) db = Some (False, Some q, db1)"
      using hr b(1) by (simp add: for_rows.simps [of body "Some q"])
    moreover have "failing t0 k True db db1"
      using b(2) False by simp
    ultimately show ?thesis by blast
  next
    case True
    then obtain t1 where t1: "inside t0 k t1 db1" "later db db1" "I R t1"
      using b(2) by auto
    from t1(1) Cons.prems(3) show ?thesis
    proof (cases rule: stmt_next_cases [where good = True])
      case (ok q' db2)
      have eq: "for_rows body (Some q) db = for_rows body (Some q') db2"
        using hr b(1) True ok(1) by (simp add: for_rows.simps [of body "Some q"])
      have "\<exists>okv q'' db'. for_rows body (Some q') db2 = Some (okv, Some q'', db') \<and>
          (failing t0 k True db2 db' \<or> okv \<and> query_ok db' \<and> (\<exists>t'. inside t0 k t' db' \<and> later db2 db' \<and> I [] t'))"
        by (rule Cons.IH [OF t1(3) ok(4,2)]) (use ok(3,6) Cons.prems(4) in simp_all)
      then obtain okv q2 db' where r: "for_rows body (Some q) db = Some (okv, Some q2, db')" and
          f: "failing t0 k True db2 db' \<or> okv \<and> query_ok db' \<and> (\<exists>t'. inside t0 k t' db' \<and> later db2 db' \<and> I [] t')"
        unfolding eq by blast
      note lt = later_trans [OF t1(2) ok(5)]
      from f have "failing t0 k True db db' \<or> okv \<and> query_ok db' \<and> (\<exists>t'. inside t0 k t' db' \<and> later db db' \<and> I [] t')"
        by (elim disjE exE conjE) (use failing_later [OF lt] later_trans [OF lt] in blast)+
      with r show ?thesis by - (rule exI, rule exI, rule exI, rule conjI)
    next
      case (fail q' db2)
      then have "\<not> query_has_row db2"
        by (simp add: failing_def)
      then have "for_rows body (Some q) db = Some (True, Some q', db2)"
        using hr b(1) True fail(1) by (simp add: for_rows.simps [of body "Some q"] for_rows.simps [of body "Some q'"])
      with failing_later [OF t1(2) fail(2)] show ?thesis by blast
    qed
  qed
qed

text \<open>The loop with its query, and what the code does after it.\<close>

lemma runs_scan:
  assumes i: "inside t0 0 t db" and v: "stmt_value s [] [] t = Some (Inr (t, map enc R))" and I: "I R t"
    and body: "\<And>x R t q db. I (x # R) t \<Longrightarrow> inside t0 (Suc 0) t db \<Longrightarrow> q_rows q = enc x # map enc R \<Longrightarrow>
      \<exists>ok db'. body q db = Some (ok, db') \<and> (if ok then \<exists>t'. inside t0 (Suc 0) t' db' \<and> later db db' \<and> I R t' else failing t0 (Suc 0) True db db')"
    and k: "\<And>t' db'. inside t0 0 t' db' \<Longrightarrow> later db db' \<Longrightarrow> I [] t' \<Longrightarrow> runs t0 True db' (K db') Q" and e: "e \<noteq> PK_SUCCESS"
  shows "runs t0 True db (do {
      (_, qry, db) \<leftarrow> query True db s [] [];
      (ok, qry, db) \<leftarrow> for_rows body qry db;
      let db = query_free qry db;
      if \<not> ok then Some (Inl e, db) else if \<not> query_ok db then Some (Inl e, db) else K db
    }) Q" (is "runs t0 True db ?prog Q")
  using i v
proof (cases rule: stmt_rows_cases)
  case (rows q db1 t')
  then have t': "t' = t" and r: "q_rows q = map enc R" "R \<noteq> []"
    by auto
  have "\<exists>ok q2 db2. for_rows body (Some q) db1 = Some (ok, Some q2, db2) \<and>
      (failing t0 (Suc 0) True db1 db2 \<or> ok \<and> query_ok db2 \<and> (\<exists>t'. inside t0 (Suc 0) t' db2 \<and> later db1 db2 \<and> I [] t'))"
    by (rule for_rows_run [where I = I and enc = enc, OF _ I rows(5) [unfolded t'] rows(4) r(1)])
      (rule body, assumption+, simp add: rows(7) r(2))
  then obtain ok q2 db2 where f: "for_rows body (Some q) db1 = Some (ok, Some q2, db2)"
      "failing t0 (Suc 0) True db1 db2 \<or> ok \<and> query_ok db2 \<and> (\<exists>t'. inside t0 (Suc 0) t' db2 \<and> later db1 db2 \<and> I [] t')"
    by blast
  let ?db = "query_free (Some q2) db2"
  from f(2) show ?thesis
  proof (elim disjE exE conjE)
    assume "failing t0 (Suc 0) True db1 db2"
    then have fl: "failing t0 0 True db ?db"
      by (rule failing_later [OF rows(6) failing_free])
    then have "\<not> query_ok ?db"
      by (simp add: failing_def)
    then have "?prog = Some (Inl e, ?db)"
      using rows(1) f(1) by (cases ok) simp_all
    with runs_fail [OF fl e] show ?thesis by simp
  next
    fix t2
    assume s: "ok" "query_ok db2" "inside t0 (Suc 0) t2 db2" "later db1 db2" "I [] t2"
    note lt = later_freeI [OF later_trans [OF rows(6) s(4)], of "Some q2"]
    have "?prog = K ?db"
      using rows(1) f(1) s(1,2) by simp
    with runs_later [OF lt k [OF inside_free [OF s(3)] lt s(5)]] show ?thesis by simp
  qed
next
  case (none db1 t')
  then have "for_rows body None db1 = Some (True, None, db1)" "query_ok db1" "R = []" "t' = t"
    by (auto simp: for_rows.simps query_has_row_def query_ok_def)
  with none(1) k [of t db1] none(3,4) I runs_later [OF none(4)] show ?thesis
    by (simp add: query_free_def)
next
  case (fail db1)
  then have fl: "failing t0 0 True db db1"
    by simp
  then have "for_rows body None db1 = Some (True, None, db1)" "\<not> query_ok db1"
    by (simp_all add: for_rows.simps failing_def)
  with fail(1) runs_fail [OF fl e] show ?thesis
    by (simp add: query_free_def)
qed

section \<open>Bodies of transactions\<close>

text \<open>
  The body with the rest \<open>w\<close> of the client's state: it ends committed, or stops, in a state that \<open>stop\<close> allows, and that \<open>keep\<close> allows
  if there is going to be another attempt.
\<close>

definition body_runs :: "'t \<Rightarrow> bool \<Rightarrow> ('w \<Rightarrow> bool) \<Rightarrow> ('w \<Rightarrow> bool) \<Rightarrow> 't db \<Rightarrow> ((pk_err + 'a) \<times> 't db \<times> 'w) option
    \<Rightarrow> ('a \<Rightarrow> 't \<Rightarrow> 'w \<Rightarrow> bool) \<Rightarrow> bool" where
  "body_runs t0 good keep stop db m post \<longleftrightarrow> (\<exists>r db' w'. m = Some (r, db', w') \<and> later db db'
     \<and> (case r of Inr a \<Rightarrow> idle db' \<and> post a (tabs (db_conn db')) w'
         | Inl e \<Rightarrow> (query_busy db' \<longrightarrow> keep w') \<and> e \<noteq> PK_SUCCESS \<and> stop w' \<and> aborted t0 good db db'))"

lemma body_runs_later: "later db0 db \<Longrightarrow> body_runs t0 good keep stop db m post \<Longrightarrow> body_runs t0 good keep stop db0 m post"
  unfolding body_runs_def by (elim exE conjE, intro exI conjI, assumption) (auto split: sum.splits intro: later_trans aborted_later)

lemma body_runs_bind:
  assumes "runs t0 good db m P" "keep w" "stop w" "\<And>a db'. P a db' \<Longrightarrow> later db db' \<Longrightarrow> body_runs t0 good keep stop db' (K a db') post"
  shows "body_runs t0 good keep stop db (do { (r, db) \<leftarrow> m; (case r of Inl e \<Rightarrow> Some (Inl e, db, w) | Inr a \<Rightarrow> K a db) }) post"
proof -
  obtain r db' where m: "m = Some (r, db')" "later db db'" "case r of Inr a \<Rightarrow> P a db' | Inl e \<Rightarrow> e \<noteq> PK_SUCCESS \<and> aborted t0 good db db'"
    using assms(1) by (auto simp: runs_def)
  show ?thesis
  proof (cases r)
    case (Inr a)
    then have "body_runs t0 good keep stop db (K a db') post"
      using m assms(4) by (intro body_runs_later [OF m(2)]) simp
    with Inr m(1) show ?thesis by simp
  next
    case (Inl e)
    with m assms(2,3) show ?thesis by (simp add: body_runs_def)
  qed
qed

lemma body_runs_do:
  assumes "inside t0 0 t db" "stmt_value s fmt args t = Some v" "good \<Longrightarrow> \<exists>x. v = Inr x" "keep w" "stop w"
    and "\<And>t' rows db'. v = Inr (t', rows) \<Longrightarrow> inside t0 0 t' db' \<Longrightarrow> later db db' \<Longrightarrow>
      db_result db' = (if rows = [] then SQLITE_OK else SQLITE_ROW) \<Longrightarrow> body_runs t0 good keep stop db' (K db') post"
    and "e \<noteq> PK_SUCCESS"
  shows "body_runs t0 good keep stop db (do { (ok, db) \<leftarrow> query_do db s fmt args; if \<not> ok then Some (Inl e, db, w) else K db }) post"
proof -
  have "runs t0 good db (do { (ok, db) \<leftarrow> query_do db s fmt args; if \<not> ok then Some (Inl e, db) else Some (Inr (), db) })
      (\<lambda>_ db'. \<exists>t' rows. v = Inr (t', rows) \<and> inside t0 0 t' db' \<and> later db db' \<and> db_result db' = (if rows = [] then SQLITE_OK else SQLITE_ROW))"
    by (rule runs_do [OF assms(1-3)]) (auto intro: runs_return simp: assms(7))
  then have "body_runs t0 good keep stop db (do {
      (r, db) \<leftarrow> (do { (ok, db) \<leftarrow> query_do db s fmt args; if \<not> ok then Some (Inl e, db) else Some (Inr (), db) });
      (case r of Inl e \<Rightarrow> Some (Inl e, db, w) | Inr a \<Rightarrow> K db) }) post"
    by (rule body_runs_bind [where K = "\<lambda>_. K" and keep = keep and stop = stop]) (auto intro: assms(4,5,6))
  moreover have "(do {
      (r, db) \<leftarrow> (do { (ok, db) \<leftarrow> query_do db s fmt args; if \<not> ok then Some (Inl e, db) else Some (Inr (), db) });
      (case r of Inl e \<Rightarrow> Some (Inl e, db, w) | Inr a \<Rightarrow> K db) }) =
    (do { (ok, db) \<leftarrow> query_do db s fmt args; if \<not> ok then Some (Inl e, db, w) else K db })"
    by (cases "query_do db s fmt args") auto
  ultimately show ?thesis by (simp only:)
qed

lemma body_runs_fail:
  assumes "failing t0 0 good db db'" "keep w" "stop w" "e \<noteq> PK_SUCCESS"
  shows "body_runs t0 good keep stop db (Some (Inl e, db', w)) post"
  using failing_aborted [OF assms(1)] assms by (auto simp: body_runs_def failing_def)

lemma body_runs_stop:
  assumes "inside t0 0 t db" "\<not> good" "stop w" "e \<noteq> PK_SUCCESS"
  shows "body_runs t0 good keep stop db (Some (Inl e, db, w)) post"
  using assms aborted_stay [of t0 db good] by (auto simp: body_runs_def inside_def)

lemma body_runs_commit:
  assumes "inside t0 0 t db" "stop w" "post a t w" "e \<noteq> PK_SUCCESS"
  shows "body_runs t0 good keep stop db (do { (ok, db) \<leftarrow> commit db; Some (if ok then Inr a else Inl e, db, w) }) post"
proof -
  have o: "txn_open t0 0 db"
    using assms(1) by (simp add: inside_def)
  from commit_total [OF o] obtain ok db' where "commit db = Some (ok, db')" "later db db'"
      "if ok then idle db' \<and> tabs (db_conn db') = tabs (db_conn db)
       else txn_failed t0 0 db' \<and> db_result db' \<notin> {SQLITE_OK, SQLITE_ROW, SQLITE_BUSY}" "only_contention db \<Longrightarrow> ok"
    by metis
  with assms show ?thesis
    by (cases ok) (auto simp: body_runs_def inside_def aborted_def query_busy_def)
qed

lemma transact_runs:
  assumes "\<And>db w. inside t0 0 t0 db \<Longrightarrow> keep w \<Longrightarrow> body_runs t0 good keep stop db (body db w) post"
    and "idle db" "tabs (db_conn db) = t0" "keep w" "only_soft db" "\<And>w. keep w \<Longrightarrow> stop w" "e0 \<noteq> PK_SUCCESS"
  obtains r db' w' where "transact e0 body db w = Some (r, db', w')" "later db db'" "idle db'"
    "\<And>a. r = Inr a \<Longrightarrow> post a (tabs (db_conn db')) w'"
    "\<And>e. r = Inl e \<Longrightarrow> e \<noteq> PK_SUCCESS \<and> stop w' \<and> tabs (db_conn db') = t0 \<and> \<not> (good \<and> only_contention db)"
proof -
  have "txn_attempt body t0 keep (\<lambda>e w. e \<noteq> PK_SUCCESS \<and> stop w) good post"
  proof
    fix db w
    assume "txn_open t0 0 db" "tabs (db_conn db) = t0" "db_result db = SQLITE_OK" "keep w"
    then show "\<exists>r db' w'. body db w = Some (r, db', w') \<and> later db db'
        \<and> (case r of Inl e \<Rightarrow> (query_busy db' \<longrightarrow> keep w') \<and> (e \<noteq> PK_SUCCESS \<and> stop w') \<and> aborted t0 good db db'
            | Inr a \<Rightarrow> idle db' \<and> post a (tabs (db_conn db')) w')"
      using assms(1) [of db w] unfolding inside_def query_busy_def body_runs_def conj_assoc by simp
  qed
  from txn_attempt.attempts_end [OF this assms(2-5), of e0] show thesis
    using that assms(6,7) by (elim exE conjE) (auto split: sum.splits)
qed

section \<open>Outside transactions\<close>

lemma query_until_setting_run:
  assumes "db_held db" "db_queries db = 0" "trans (db_conn db) = None"
  shows "\<exists>ok db'. query_until db sql_setting [] [] = Some (ok, db') \<and> later db db' \<and> db_held db' \<and> db_queries db' = 0
    \<and> trans (db_conn db') = None \<and> tabs (db_conn db') = tabs (db_conn db)"
  using assms
proof (induction "pending db" arbitrary: db rule: less_induct)
  case less
  obtain ok db1 where q: "query_do db sql_setting [] [] = Some (ok, db1)" "\<not> ok \<and> faulted db db1 \<or> executed sql_setting db ok db1"
    using less.prems(1) by (rule query_do_cases)
  from q(2) show ?case
  proof (elim disjE conjE)
    assume "executed sql_setting db ok db1"
    with executed_later [OF this] less.prems q(1) show ?thesis
      by (auto simp: executed_def engine_exec_def sql_setting_def query_until.simps [of db])
  next
    assume f: "\<not> ok" "faulted db db1"
    then have s: "later db db1" "pending db1 < pending db" "db_held db1" "db_queries db1 = 0" "trans (db_conn db1) = None"
        "tabs (db_conn db1) = tabs (db_conn db)"
      using less.prems by (auto simp: faulted_def)
    show ?thesis
    proof (cases "query_busy db1")
      case False
      then have "query_until db sql_setting [] [] = Some (False, db1)"
        using f(1) q(1) by (simp add: query_until.simps [of db])
      with s show ?thesis by blast
    next
      case True
      let ?db = "query_backoff db1"
      have eq: "query_until db sql_setting [] [] = query_until ?db sql_setting [] []"
        using True f(1) q(1) by (simp add: query_until.simps [of db])
      have b: "later db ?db" "pending ?db < pending db" "db_held ?db" "db_queries ?db = 0" "trans (db_conn ?db) = None"
          "tabs (db_conn ?db) = tabs (db_conn db)"
        using s by (simp_all add: query_backoff_def later_def)
      from less.hyps [OF b(2-5)] show ?thesis
        unfolding eq b(6) using later_trans [OF b(1)] by blast
    qed
  qed
qed

lemma vacuum_run:
  assumes d: "idle db" "only_soft db" "tabs (db_conn db) = t" and v: "stmt_value master [] [] t = Some (Inr (t, rows))"
  obtains ok db' where "vacuum master db = Some (ok, db')" "later db db'" "idle db'" "tabs (db_conn db') = t"
proof -
  let ?db = "db\<lparr>db_held := True\<rparr>"
  from query_until_setting_run [of ?db] obtain ok1 db1 where q: "query_until ?db sql_setting [] [] = Some (ok1, db1)" "later ?db db1"
      "db_held db1" "db_queries db1 = 0" "trans (db_conn db1) = None" "tabs (db_conn db1) = t"
    using d by (auto simp: idle_def)
  let ?db1 = "db_put db1"
  have p: "idle ?db1" "later db ?db1" "tabs (db_conn ?db1) = t"
    using q(2-6) by (auto simp: db_put_def idle_def later_def)
  let ?body = "\<lambda>db w. do {
      (ok, db) \<leftarrow> query_do db master [] [];
      if \<not> ok then Some (Inl (), db, w)
      else do { (ok, db) \<leftarrow> commit db; Some (if ok then Inr () else Inl (), db, w) }
    }"
  have "txn_body ?body t (\<lambda>_ :: unit. True) (\<lambda>_. True) True (\<lambda>_ t' _. t' = t)"
  proof
    fix db and w :: unit
    assume "txn_open t 0 db" "tabs (db_conn db) = t" "db_result db = SQLITE_OK"
    then have i: "inside t 0 t db"
      by (simp add: inside_def query_busy_def)
    from i v show "\<exists>r db' w'. ?body db w = Some (r, db', w') \<and> later db db'
        \<and> (case r of Inl e \<Rightarrow> True \<and> True \<and> aborted t True db db' | Inr a \<Rightarrow> idle db' \<and> tabs (db_conn db') = t)"
    proof (cases rule: stmt_do_cases)
      case (ok db' t' rows')
      then have o: "txn_open t 0 db'" "tabs (db_conn db') = t"
        by (auto simp: inside_def)
      obtain okc db2 where "commit db' = Some (okc, db2)" "later db' db2" "okc \<Longrightarrow> idle db2 \<and> tabs (db_conn db2) = tabs (db_conn db')"
          "\<not> okc \<Longrightarrow> aborted t True db' db2"
        by (rule commit_txn [OF o(1)]) blast
      with ok(1) o(2) later_trans [OF ok(4)] aborted_later [OF ok(4)] show ?thesis
        by (cases okc) auto
    next
      case (fail db')
      have "failing t 0 True db db'"
        using fail(3) [of True] by simp
      with fail(1) failing_aborted [OF this] show ?thesis
        by (auto simp: failing_def)
    qed simp
  qed
  from txn_body.transact_total [OF this p(1,3) TrueI later_soft [OF p(2) d(2)], of "()"] obtain r db' w' where
      r: "transact () ?body ?db1 () = Some (r, db', w')" "later ?db1 db'" "idle db'"
      "case r of Inr a \<Rightarrow> tabs (db_conn db') = t
       | Inl e \<Rightarrow> True \<and> (e = () \<or> True) \<and> tabs (db_conn db') = t \<and> \<not> (True \<and> only_contention ?db1)"
    by blast
  have t: "tabs (db_conn db') = t"
    using r(4) by (simp split: sum.splits)
  have g: "db_get db = Some ?db"
    using d(1) by (simp add: db_get_def idle_def)
  show thesis
  proof (cases ok1)
    case True
    then show thesis
      using that [of "r = Inr ()" db'] g q(1) r t later_trans [OF p(2)] by (simp add: vacuum_def Let_def)
  next
    case False
    then show thesis
      using that [of False ?db1] g q(1) p by (simp add: vacuum_def Let_def)
  qed
qed

end
