(* ===== verification/Isr_Cache_Props.thy ===== *)
theory Isr_Cache_Props
  imports Isr_Disk Isr_Txn
begin

text \<open>
  Properties of the local cache and of the transactions under it: the round trip of a chunk, atomicity, the end of every retry,
  the header of the cache file, and four places where the code does not do what it means to.
\<close>

section \<open>Chunks in the local cache\<close>

text \<open>
  C28.  While the database is at worst busy, \<open>cache_update\<close> of a chunk returns with success, \<open>cache_get\<close> in a later process
  (with other contents of uninitialised memory) returns the chunk, and every other chunk is delivered as before.
\<close>

theorem cache_get_update:
  assumes "cache_calm src p fresh g good (db, st, t)" "chunk < p_chunks p" "length buf = p_chunksize p" "length dst = p_chunksize p"
  shows "\<exists>db' st'. cache_update b db st chunk buf = Some (PK_SUCCESS, db', st')
    \<and> (\<exists>db'' st''. cache_get b src db' st' chunk dst = Some (PK_SUCCESS, buf, db'', st''))
    \<and> (\<forall>c x. c \<noteq> chunk \<longrightarrow> c < p_chunks p \<longrightarrow> cached b g (tabs (db_conn db)) st c x \<longrightarrow>
        (\<exists>db'' st''. cache_get b src db' st' c dst = Some (PK_SUCCESS, x, db'', st'')))"
proof -
  obtain s' where s': "op_update (cache_ops b src p fresh) chunk buf (db, st, t) = Some (PK_SUCCESS, s')"
    "cache_calm src p fresh g good s'" "cache_content b g s' chunk buf"
    "\<forall>c' y. c' \<noteq> chunk \<longrightarrow> cache_content b g (db, st, t) c' y \<longrightarrow> cache_content b g s' c' y"
    using calm_update [OF assms(1-3), of b] by blast
  obtain db' st' where d: "s' = (db', st', t)" "cache_update b db st chunk buf = Some (PK_SUCCESS, db', st')"
    using s'(1) by (auto simp: cache_ops_def split: bind_split_asm)
  have get: "\<exists>db'' st''. cache_get b src db' st' c dst = Some (PK_SUCCESS, x, db'', st'')" if "c < p_chunks p" "cache_content b g s' c x" for c x
    using calm_get [OF s'(2) that assms(4)] by (auto simp: cache_ops_def d(1) split: bind_split_asm)
  show ?thesis
    using d(2) get [OF assms(2) s'(3)] s'(4) get by (auto simp: cache_content_def)
qed

theorem cache_get_update_witness:
  "\<exists>db' st' db'' st''. cache_update lzf_backends sample_db sample_state 1 (replicate 16 5) = Some (PK_SUCCESS, db', st')
    \<and> cache_get lzf_backends sample_source db' st' 1 (replicate 16 0) = Some (PK_SUCCESS, replicate 16 5, db'', st'')"
proof -
  have "1 < p_chunks sample_parcel" "length (replicate 16 (5 :: u8)) = p_chunksize sample_parcel" "length (replicate 16 (0 :: u8)) = p_chunksize sample_parcel"
    by (simp_all add: sample_parcel_def)
  from cache_get_update [OF sample_calm this, of lzf_backends] show ?thesis
    by blast
qed

text \<open>
  C29.  Updates are atomic: whatever happens to the cache file, and for every fault of the database after which a rollback gets
  through, \<open>cache_update\<close> returns, with the database released and outside a transaction.  If it reports success, the encoded
  chunk is in its slot of the cache file, the cache index has its length, and the row of the chunk in the keyring (if there is one) has
  the tag, key and compression of this encoding; nothing else in the tables has changed.  If it reports an error, the tables are
  untouched, and there was a fault other than contention.  No other chunk is affected in either case.
\<close>

theorem cache_update_atomic:
  assumes "pk_ok st" "idle db" "only_soft db" "chunk < p_chunks (parcel st)" "length buf = p_chunksize (parcel st)"
  shows "\<exists>ret db' st'. cache_update b db st chunk buf = Some (ret, db', st') \<and> idle db' \<and> pk_ok st' \<and> (ret = PK_SUCCESS \<or> ret = PK_IOERR)
    \<and> (ret = PK_SUCCESS \<longrightarrow> (\<exists>out n tag key z.
         iu_chunk_encode b (p_crypto (parcel st)) buf (replicate (p_chunksize (parcel st)) 0) (conf_compress st) = Some (Some (out, n, tag, key, z))
         \<and> slot_holds st' chunk (take n out)
         \<and> tabs (db_conn db') = (tabs (db_conn db))\<lparr>
             t_chunks := map_option (\<lambda>cs. (int chunk, int n) # filter (\<lambda>(c, _). c \<noteq> int chunk) cs) (t_chunks (tabs (db_conn db))),
             t_keys := map (\<lambda>(c, r). if c = int chunk then (int chunk, tag, key, z) else (c, r)) (t_keys (tabs (db_conn db)))\<rparr>))
    \<and> (ret \<noteq> PK_SUCCESS \<longrightarrow> tabs (db_conn db') = tabs (db_conn db) \<and> \<not> (writable (tabs (db_conn db)) st \<and> only_contention db))
    \<and> (\<forall>c x. c \<noteq> chunk \<longrightarrow> cached b g (tabs (db_conn db)) st c x \<longrightarrow> cached b g (tabs (db_conn db')) st' c x)"
proof -
  obtain ret db' st' where u: "cache_update b db st chunk buf = Some (ret, db', st')" "idle db'" "pk_ok st'"
    "ret \<noteq> PK_SUCCESS \<longrightarrow> ret = PK_IOERR \<and> tabs (db_conn db') = tabs (db_conn db) \<and> \<not> (writable (tabs (db_conn db)) st \<and> only_contention db)"
    "\<forall>c x. c \<noteq> chunk \<longrightarrow> cached b g (tabs (db_conn db)) st c x \<longrightarrow> cached b g (tabs (db_conn db')) st' c x"
    "ret = PK_SUCCESS \<longrightarrow> (\<exists>out n tag key z.
      iu_chunk_encode b (p_crypto (parcel st)) buf (replicate (p_chunksize (parcel st)) 0) (conf_compress st) = Some (Some (out, n, tag, key, z))
      \<and> tabs (db_conn db') = upd_tables (tabs (db_conn db)) (int chunk) (int n) tag key z \<and> slot_holds st' chunk (take n out))"
    by (rule cache_update_run [OF assms, of b b g]) blast
  then show ?thesis
    unfolding upd_tables_def by (intro exI [of _ ret] exI [of _ db'] exI [of _ st']) blast
qed

theorem cache_update_atomic_witness:
  "\<exists>db' st' out n tag key z. cache_update lzf_backends sample_db sample_state 0 (replicate 16 3) = Some (PK_SUCCESS, db', st')
    \<and> iu_chunk_encode lzf_backends (p_crypto (parcel sample_state)) (replicate 16 3) (replicate 16 0) (conf_compress sample_state) =
        Some (Some (out, n, tag, key, z))
    \<and> map_of (t_keys (tabs (db_conn db'))) 0 = Some (tag, key, z) \<and> t_chunks (tabs (db_conn db')) = Some [(0, int n)]"
proof -
  have l: "0 < p_chunks (parcel sample_state)" "length (replicate 16 (3 :: u8)) = p_chunksize (parcel sample_state)"
    by (simp_all add: sample_state_def sample_parcel_def)
  have t: "p_chunksize (parcel sample_state) = 16"
    by (simp add: sample_state_def sample_parcel_def)
  from cache_update_atomic [where g = "\<lambda>_ _. None" and b = lzf_backends, OF sample_pk_ok sample_idle(1,3) l] show ?thesis
  proof (elim exE conjE, goal_cases)
    case (1 ret db' st')
    have ret: "ret = PK_SUCCESS"
      using 1(6) sample_writable sample_idle(2) by blast
    from 1(5) [rule_format, OF ret] obtain out n tag key z where
        e: "iu_chunk_encode lzf_backends (p_crypto (parcel sample_state)) (replicate 16 3) (replicate 16 0)
          (conf_compress sample_state) = Some (Some (out, n, tag, key, z))"
        "tabs (db_conn db') = (tabs (db_conn sample_db))\<lparr>
             t_chunks := map_option (\<lambda>cs. (int 0, int n) # filter (\<lambda>(c, _). c \<noteq> int 0) cs) (t_chunks (tabs (db_conn sample_db))),
             t_keys := map (\<lambda>(c, r). if c = int 0 then (int 0, tag, key, z) else (c, r)) (t_keys (tabs (db_conn sample_db)))\<rparr>"
      unfolding t by blast
    have "map_of (t_keys (tabs (db_conn db'))) 0 = Some (tag, key, z)" "t_chunks (tabs (db_conn db')) = Some [(0, int n)]"
      by (simp_all add: e(2) sample_db_def)
    with 1(1) ret e(1) show ?thesis
      by - (rule exI [of _ db'], rule exI [of _ st'], rule exI [of _ out], rule exI [of _ n], rule exI [of _ tag], rule exI [of _ key],
        rule exI [of _ z], simp)
  qed
qed

section \<open>Counting the chunks\<close>

lemma query_count_run:
  assumes i: "inside t0 0 t db" and v: "stmt_value s [] [] t = Some v" "v = Inr (t, [[SQL_int n]]) \<or> v = Inl Stmt_error"
  shows "\<exists>r db'. query_count db s = Some (r, db') \<and> later db db'
    \<and> (case r of Some m \<Rightarrow> m = int32 n \<and> v = Inr (t, [[SQL_int n]]) \<and> inside t0 0 t db' | None \<Rightarrow> failing t0 0 (v \<noteq> Inl Stmt_error) db db')"
  using i v(1)
proof (cases rule: stmt_rows_cases)
  case (rows q db' t')
  with v(2) have q: "t' = t" "q_rows q = [[SQL_int n]]" "v = Inr (t, [[SQL_int n]])"
    by auto
  have "query_row (Some q) ''d'' = Some [SQL_int (int32 n)]" "query_has_row db'"
    using q(2) rows(7) by (simp_all add: query_row_def query_column_def query_has_row_def)
  then have "query_count db s = Some (Some (int32 n), query_free (Some q) db')"
    using rows(1) by (simp add: query_count_def)
  with q rows(5,6) inside_free show ?thesis
    by (auto simp: later_free)
next
  case (none db' t')
  with v(2) show ?thesis by auto
next
  case (fail db')
  have f: "failing t0 0 (v \<noteq> Inl Stmt_error) db db'"
    using v(2) by (intro fail(2)) auto
  then have "query_count db s = Some (None, db')"
    using fail(1) by (simp add: query_count_def failing_def)
  with f show ?thesis
    by (auto simp: failing_def)
qed

text \<open>What \<open>cache_count_chunks\<close> is to return, and when its statements have no reason of their own to fail.\<close>

definition chunk_counts :: "bool \<Rightarrow> bool \<Rightarrow> cache_tables \<Rightarrow> int \<times> int" where
  "chunk_counts valid dirty t = (if valid then int32 (int (length (the (t_chunks t)))) else 0,
     if dirty then int32 (int (length (modified (t_keys t) (the (t_prev t))))) else 0)"

definition countable_tables :: "bool \<Rightarrow> bool \<Rightarrow> cache_tables \<Rightarrow> bool" where
  "countable_tables valid dirty t \<longleftrightarrow> (valid \<longrightarrow> t_chunks t \<noteq> None) \<and> (dirty \<longrightarrow> t_prev t \<noteq> None)"

lemma opt_count_run:
  assumes i: "inside t0 0 t db" and v: "stmt_value s [] [] t = Some v" "v = Inr (t, [[SQL_int n]]) \<or> v = Inl Stmt_error"
  shows "\<exists>r db'. (if want then query_count db s else Some (Some 0, db)) = Some (r, db') \<and> later db db'
    \<and> (case r of Some m \<Rightarrow> m = (if want then int32 n else 0) \<and> inside t0 0 t db'
        | None \<Rightarrow> want \<and> failing t0 0 (v \<noteq> Inl Stmt_error) db db')"
proof (cases want)
  case True
  from query_count_run [OF assms] show ?thesis
    using True by (elim exE conjE) (auto split: option.splits)
qed (use i in simp)

lemma count_values:
  "stmt_value count_chunks [] [] t = Some (case t_chunks t of None \<Rightarrow> Inl Stmt_error | Some cs \<Rightarrow> Inr (t, [[SQL_int (int (length cs))]]))"
  "stmt_value count_modified [] [] t = Some (case t_prev t of None \<Rightarrow> Inl Stmt_error
     | Some ps \<Rightarrow> Inr (t, [[SQL_int (int (length (modified (t_keys t) ps)))]]))"
proof -
  have "t\<lparr>t_chunks := Some cs\<rparr> = t" if "t_chunks t = Some cs" for cs
    using that by (cases t) simp
  then show "stmt_value count_chunks [] [] t = Some (case t_chunks t of None \<Rightarrow> Inl Stmt_error | Some cs \<Rightarrow> Inr (t, [[SQL_int (int (length cs))]]))"
    by (auto simp: stmt_value_def count_chunks_def on_chunks_def split: option.split)
qed (simp add: stmt_value_def count_modified_def split: option.split)

lemma count_rows_run:
  assumes i: "inside t0 0 t0 db" and soft: "only_soft db"
  shows "\<exists>r db'. cache_count_rows valid dirty db w = Some (r, db', w) \<and> later db db'
    \<and> (case r of Inr a \<Rightarrow> idle db' \<and> a = chunk_counts valid dirty t0 \<and> tabs (db_conn db') = t0
        | Inl e \<Rightarrow> e = PK_IOERR \<and> aborted t0 (countable_tables valid dirty t0) db db')"
proof -
  let ?g = "countable_tables valid dirty t0"
  have weak: "aborted t0 ?g db0 db1" if "failing t0 0 good db0 db1" "?g \<Longrightarrow> good" for good db0 db1
    using failing_aborted [OF that(1)] that(2) by (auto simp: aborted_def)
  obtain v db1 where v: "(if valid then query_count db count_chunks else Some (Some 0, db)) = Some (v, db1)" "later db db1"
    "case v of Some m \<Rightarrow> m = fst (chunk_counts valid dirty t0) \<and> inside t0 0 t0 db1
      | None \<Rightarrow> valid \<and> failing t0 0 (t_chunks t0 \<noteq> None) db db1"
    using opt_count_run [OF i count_values(1), of "int (length (the (t_chunks t0)))" valid]
    by (cases "t_chunks t0") (auto simp: chunk_counts_def split: option.splits)
  show ?thesis
  proof (cases v)
    case None
    with v(3) weak have "aborted t0 ?g db db1"
      by (auto simp: countable_tables_def)
    with v(1,2) None show ?thesis
      by (auto simp: cache_count_rows_def)
  next
    case (Some m)
    with v(3) have i1: "inside t0 0 t0 db1" "m = fst (chunk_counts valid dirty t0)"
      by simp_all
    obtain d db2 where d: "(if dirty then query_count db1 count_modified else Some (Some 0, db1)) = Some (d, db2)" "later db1 db2"
      "case d of Some m \<Rightarrow> m = snd (chunk_counts valid dirty t0) \<and> inside t0 0 t0 db2
        | None \<Rightarrow> dirty \<and> failing t0 0 (t_prev t0 \<noteq> None) db1 db2"
      using opt_count_run [OF i1(1) count_values(2), of "int (length (modified (t_keys t0) (the (t_prev t0))))" dirty]
      by (cases "t_prev t0") (auto simp: chunk_counts_def split: option.splits)
    note l2 = later_trans [OF v(2) d(2)]
    show ?thesis
    proof (cases d)
      case None
      with d(3) weak [of "t_prev t0 \<noteq> None" db1 db2] have "aborted t0 ?g db db2"
        by (intro aborted_later [OF v(2)]) (auto simp: countable_tables_def)
      with v(1) Some d(1) None l2 show ?thesis
        by (auto simp: cache_count_rows_def)
    next
      case d': (Some k)
      with d(3) have i2: "inside t0 0 t0 db2" "k = snd (chunk_counts valid dirty t0)"
        by simp_all
      have f: "txn_failed t0 0 db2" "db_use_transaction db2"
        using i2(1) by (simp_all add: inside_def txn_open_def txn_failed_def)
      obtain db3 where "rollback db2 = Some (True, db3)" "later db2 db3" "idle db3" "tabs (db_conn db3) = t0"
        using rollback_retry_total [OF f(1)] later_soft [OF l2 soft] f(2) by (auto simp: rollback_def)
      with v(1) Some d(1) d' i1(2) i2(2) later_trans [OF l2] show ?thesis
        by (auto simp: cache_count_rows_def)
    qed
  qed
qed

interpretation cnt: txn_attempt "cache_count_rows valid dirty" t0 "\<lambda>_. True" "\<lambda>e _. e = PK_IOERR" "countable_tables valid dirty t0"
  "\<lambda>a t _. a = chunk_counts valid dirty t0 \<and> t = t0" for valid dirty t0
proof
  fix db w
  assume a: "txn_open t0 0 db" "tabs (db_conn db) = t0" "db_result db = SQLITE_OK" "only_soft db"
  then have "inside t0 0 t0 db"
    by (simp add: inside_def query_busy_def)
  from count_rows_run [OF this a(4), of valid dirty w]
  show "\<exists>r db' w'. cache_count_rows valid dirty db w = Some (r, db', w') \<and> later db db'
      \<and> (case r of Inl e \<Rightarrow> (query_busy db' \<longrightarrow> True) \<and> e = PK_IOERR \<and> aborted t0 (countable_tables valid dirty t0) db db'
          | Inr a \<Rightarrow> idle db' \<and> a = chunk_counts valid dirty t0 \<and> tabs (db_conn db') = t0)"
    by (elim exE conjE) (auto split: sum.splits)
qed

lemma cache_count_chunks_run:
  assumes "idle db" "only_soft db"
  shows "\<exists>ret n db'. cache_count_chunks valid dirty db = Some (ret, n, db') \<and> idle db' \<and> tabs (db_conn db') = tabs (db_conn db)
    \<and> (if ret = PK_SUCCESS then n = chunk_counts valid dirty (tabs (db_conn db))
       else ret = PK_IOERR \<and> \<not> (countable_tables valid dirty (tabs (db_conn db)) \<and> only_contention db))"
proof -
  from cnt.attempts_end [where ?e0.0 = PK_IOERR and w = "()" and valid = valid and dirty = dirty, OF assms(1) refl TrueI assms(2)]
  obtain r db' where t: "transact PK_IOERR (cache_count_rows valid dirty) db () = Some (r, db', ())" "idle db'"
    "case r of Inr a \<Rightarrow> a = chunk_counts valid dirty (tabs (db_conn db)) \<and> tabs (db_conn db') = tabs (db_conn db)
      | Inl e \<Rightarrow> e = PK_IOERR \<and> tabs (db_conn db') = tabs (db_conn db) \<and> \<not> (countable_tables valid dirty (tabs (db_conn db)) \<and> only_contention db)"
    by (elim exE conjE) (auto split: sum.splits)
  then show ?thesis
    by (cases r) (auto simp: cache_count_chunks_def)
qed

text \<open>
  C30.  The retry loops end.  For every finite sequence of faults of the database (contention, and faults after which a rollback gets
  through), the transactions of \<open>cache_get\<close>, \<open>cache_update\<close> and \<open>cache_count_chunks\<close> return from their loops, with the database
  released and outside a transaction.  The readers leave the tables alone and return what they say: the row of the chunk, the two
  counts.  The writer has made its change or none.  An error is reported only for a row that is refused, a table that is
  missing, a failed write to the cache file, or a fault other than contention.
\<close>

theorem transactions_end:
  assumes "idle db" "only_soft db" "t_chunks (tabs (db_conn db)) \<noteq> None" "cache_file st \<noteq> None" "update_fits st chunk e tag key z"
  shows "(\<exists>r db'. transact PK_IOERR (cache_get_row chunk) db st = Some (r, db', st) \<and> idle db' \<and> tabs (db_conn db') = tabs (db_conn db)
      \<and> (case r of Inr x \<Rightarrow> chunk_row (parcel st) (tabs (db_conn db)) chunk = Some x
          | Inl _ \<Rightarrow> chunk_row (parcel st) (tabs (db_conn db)) chunk = None \<or> \<not> only_contention db))
    \<and> (\<exists>r db' st'. transact PK_IOERR (cache_update_row chunk e tag key z) db st = Some (r, db', st') \<and> idle db'
      \<and> (case r of Inr _ \<Rightarrow> tabs (db_conn db') = upd_tables (tabs (db_conn db)) (int chunk) (int (length e)) tag key z \<and> slot_holds st' chunk e
          | Inl _ \<Rightarrow> tabs (db_conn db') = tabs (db_conn db) \<and> \<not> (writable (tabs (db_conn db)) st \<and> only_contention db)))
    \<and> (\<exists>ret n db'. cache_count_chunks valid dirty db = Some (ret, n, db') \<and> idle db' \<and> tabs (db_conn db') = tabs (db_conn db)
      \<and> (if ret = PK_SUCCESS then n = chunk_counts valid dirty (tabs (db_conn db))
         else ret = PK_IOERR \<and> \<not> (countable_tables valid dirty (tabs (db_conn db)) \<and> only_contention db)))"
proof (intro conjI)
  have c: "chunk < 2 ^ 31"
    using assms(5) by (simp add: update_fits_def)
  obtain r db' where r: "transact PK_IOERR (cache_get_row chunk) db st = Some (r, db', st)" "idle db'" "tabs (db_conn db') = tabs (db_conn db)"
    "\<forall>x. r = Inr x \<longrightarrow> chunk_row (parcel st) (tabs (db_conn db)) chunk = Some x"
    "\<forall>x. r = Inl x \<longrightarrow> \<not> (chunk_row (parcel st) (tabs (db_conn db)) chunk \<noteq> None \<and> only_contention db)"
    by (rule cache_get_transaction [OF assms(1-3) c, of st]) blast
  then show "\<exists>r db'. transact PK_IOERR (cache_get_row chunk) db st = Some (r, db', st) \<and> idle db' \<and> tabs (db_conn db') = tabs (db_conn db)
      \<and> (case r of Inr x \<Rightarrow> chunk_row (parcel st) (tabs (db_conn db)) chunk = Some x
          | Inl _ \<Rightarrow> chunk_row (parcel st) (tabs (db_conn db)) chunk = None \<or> \<not> only_contention db)"
    by - (rule exI [of _ r], rule exI [of _ db'], cases r; simp only: sum.case simp_thms; blast)
next
  have "update_fits st chunk e tag key z \<and> slot_written st chunk st"
    using assms(4,5) slot_written_refl by blast
  from upd.transact_total [OF assms(1) refl this assms(2), of PK_IOERR]
  show "\<exists>r db' st'. transact PK_IOERR (cache_update_row chunk e tag key z) db st = Some (r, db', st') \<and> idle db'
      \<and> (case r of Inr _ \<Rightarrow> tabs (db_conn db') = upd_tables (tabs (db_conn db)) (int chunk) (int (length e)) tag key z \<and> slot_holds st' chunk e
          | Inl _ \<Rightarrow> tabs (db_conn db') = tabs (db_conn db) \<and> \<not> (writable (tabs (db_conn db)) st \<and> only_contention db))"
    by (elim exE conjE) (auto split: sum.splits)
qed (rule cache_count_chunks_run [OF assms(1,2)])

theorem transactions_end_witness:
  "\<exists>n db'. cache_count_chunks True False sample_db = Some (PK_SUCCESS, n, db') \<and> n = (0, 0) \<and> idle db'"
proof -
  have "t_chunks (tabs (db_conn sample_db)) \<noteq> None" "cache_file sample_state \<noteq> None"
      "update_fits sample_state 0 [1] (replicate 20 0) (replicate 20 0) 1"
    by (simp_all add: sample_db_def sample_state_def sample_parcel_def update_fits_def)
  from transactions_end [OF sample_idle(1,3) this, of True False] sample_idle(2) show ?thesis
    by (auto simp: countable_tables_def chunk_counts_def sample_db_def split: if_splits)
qed

section \<open>The header of the cache file\<close>

text \<open>
  C31.  A new cache file, after any number of flags has been set in it, is opened by a later process with the parcel of as many chunks: with
  success, the flags that were set, and the offset of the data.
\<close>

theorem cache_file_reopens:
  fixes st :: "'h pk_state"
  assumes "cache_file st = None" "p_chunks (parcel st) < 2 ^ 32" "conf_flags st AND WANT_LOCK \<noteq> 0"
  shows "\<exists>st1 st2. create_cache_file (Some []) st = (PK_SUCCESS, st1) \<and> cache_set_flag st1 flag = Some (PK_SUCCESS, st2)
    \<and> (\<forall>st' :: 'h pk_state. cache_file st' = cache_file st2 \<longrightarrow> p_chunks (parcel st') = p_chunks (parcel st) \<longrightarrow>
        open_cache_file st' = (PK_SUCCESS, st'\<lparr>cache_flags := flag, cache_offset := 4096, cache_fd := True\<rparr>))"
proof -
  let ?p = "parcel st" and ?len = "p_chunksize (parcel st) * p_chunks (parcel st) + 4096"
  let ?hdr = "\<lambda>fl. ca_header CA_MAGIC (of_nat (p_chunks ?p)) 8 fl CA_VERSION"
  let ?d = "\<lambda>fl. ?hdr fl @ replicate (?len - 24) 0"
  let ?st = "\<lambda>fl. st\<lparr>cache_offset := 4096, cache_flags := fl, cache_file := Some \<lparr>f_data = ?d fl, f_faults = []\<rparr>, cache_fd := True\<rparr>"
  have l: "length (?hdr fl) = 24" for fl
    by (simp add: ca_header_def)
  have q: "io_limit \<lparr>f_data = x, f_faults = []\<rparr> = (None, \<lparr>f_data = x, f_faults = []\<rparr>)" for x
    by (simp add: io_limit_def)
  have "set_cache_file_size (st\<lparr>cache_offset := 4096, cache_flags := 0\<rparr>) \<lparr>f_data = [], f_faults = []\<rparr> =
      (PK_SUCCESS, \<lparr>f_data = replicate ?len 0, f_faults = []\<rparr>)"
    by (simp add: set_cache_file_size_def fallocate_def io_call_def q cache_chunk_to_offset_def Let_def)
  moreover have w: "pwrite (?hdr 0) 0 \<lparr>f_data = replicate ?len 0, f_faults = []\<rparr> = (24, \<lparr>f_data = ?d 0, f_faults = []\<rparr>)"
    using l [of 0] by (simp add: pwrite_def q transfer_def Let_def data_write_def blit_def) (auto simp: ca_header_def STORE32H_def)
  ultimately have c: "create_cache_file (Some []) st = (PK_SUCCESS, ?st 0)"
    using assms(1) l [of 0] by (simp add: create_cache_file_def Let_def)
  have f: "pwrite (STORE32H flag) 12 \<lparr>f_data = ?d 0, f_faults = []\<rparr> = (4, \<lparr>f_data = ?d flag, f_faults = []\<rparr>)"
    by (simp add: pwrite_def q transfer_def Let_def data_write_def blit_def ca_header_def) (simp add: STORE32H_def)
  have s: "cache_set_flag (?st 0) flag = Some (PK_SUCCESS, ?st flag)"
    using assms(3) f by (simp add: cache_set_flag_def cache_set_flags_def upd_file_def io_call_def q)
  have o: "open_cache_file st' = (PK_SUCCESS, st'\<lparr>cache_flags := flag, cache_offset := 4096, cache_fd := True\<rparr>)"
    if "cache_file st' = cache_file (?st flag)" "p_chunks (parcel st') = p_chunks ?p" for st' :: "'h pk_state"
  proof -
    have r: "pread 24 0 \<lparr>f_data = ?d flag, f_faults = []\<rparr> = (?hdr flag, \<lparr>f_data = ?d flag, f_faults = []\<rparr>)"
      using l [of flag] by (simp add: pread_def q transfer_def)
    have h: "LOAD32H (?hdr flag) = CA_MAGIC" "?hdr flag ! 20 = CA_VERSION" "LOAD32H (drop 4 (?hdr flag)) = of_nat (p_chunks ?p)"
      "LOAD32H (drop 8 (?hdr flag)) = 8" "LOAD32H (drop 12 (?hdr flag)) = flag"
      by (simp_all add: ca_header_def nth_append)
    have u: "unat (of_nat (p_chunks ?p) :: u32) = p_chunks ?p"
      using assms(2) by (simp add: unsigned_of_nat take_bit_nat_eq_self)
    have x: "st'\<lparr>cache_file := cache_file st'\<rparr> = st'" by simp
    show ?thesis
      using that r h u x l [of flag] by (cases st') (simp add: open_cache_file_def Let_def)
  qed
  show ?thesis
    using c s o by blast
qed

theorem cache_file_reopens_witness:
  "\<exists>st1 st2. create_cache_file (Some []) (sample_state\<lparr>cache_file := None\<rparr>) = (PK_SUCCESS, st1)
    \<and> cache_set_flag st1 CA_F_DIRTY = Some (PK_SUCCESS, st2) \<and> cache_test_flag (snd (open_cache_file (st2\<lparr>cache_flags := 0\<rparr>))) CA_F_DIRTY"
proof -
  let ?st = "sample_state\<lparr>cache_file := None\<rparr>"
  have a: "cache_file ?st = None" "p_chunks (parcel ?st) < 2 ^ 32" "conf_flags ?st AND WANT_LOCK \<noteq> 0"
    by (simp_all add: sample_state_def sample_parcel_def WANT_LOCK_def)
  obtain st1 st2 where s: "create_cache_file (Some []) ?st = (PK_SUCCESS, st1)" "cache_set_flag st1 CA_F_DIRTY = Some (PK_SUCCESS, st2)"
    "\<And>st' :: unit pk_state. cache_file st' = cache_file st2 \<Longrightarrow> p_chunks (parcel st') = p_chunks (parcel ?st) \<Longrightarrow>
      open_cache_file st' = (PK_SUCCESS, st'\<lparr>cache_flags := CA_F_DIRTY, cache_offset := 4096, cache_fd := True\<rparr>)"
    using cache_file_reopens [OF a, of CA_F_DIRTY] by blast
  have "parcel st1 = parcel ?st" "parcel st2 = parcel st1"
    using s(1,2) by (auto simp: create_cache_file_def cache_set_flag_def cache_set_flags_def upd_file_def Let_def
      split: option.splits prod.splits if_splits bind_split_asm)
  with s(1,2) s(3) [of "st2\<lparr>cache_flags := 0\<rparr>"] show ?thesis
    by (simp add: cache_test_flag_def)
qed

section \<open>Where the code falls short\<close>

text \<open>
  C32.  \<open>shm_update\<close> accepts one chunk number too many: of the chunk numbers it does not ignore, all but the number of chunks itself
  lie in the segment, and that one is written past its end.
\<close>

theorem shm_update_one_too_many:
  assumes "pk_ok st" "shm_base st = Some base"
  shows "shm_update st chunk bset bclear = None \<longleftrightarrow> chunk = p_chunks (parcel st)"
  using assms by (auto simp: shm_update_def pk_ok_def)

theorem shm_update_one_too_many_witness: "shm_update sample_state 2 SHM_PRESENT 0 = None \<and> shm_update sample_state 1 SHM_PRESENT 0 \<noteq> None"
  using shm_update_one_too_many [OF sample_pk_ok, of "[0, 0]"] by (simp add: sample_state_def sample_parcel_def)

text \<open>
  C33.  \<open>cache_get\<close> checks the length of an encrypted chunk after it has read it: when the cache index has a larger length than the
  chunk size and the file is long enough, the read overruns the buffer on the stack.
\<close>

theorem cache_get_overruns:
  assumes "idle db" "only_contention db" "t_chunks (tabs (db_conn db)) \<noteq> None" "chunk < 2 ^ 31"
    and "chunk_row (parcel st) (tabs (db_conn db)) chunk = Some (tag, key, z, len)" "p_chunksize (parcel st) < len"
    and "cache_file st = Some f" "f_faults f = []" "cache_chunk_to_offset st chunk + len \<le> length (f_data f)"
  shows "cache_get b src db st chunk buf = None"
proof -
  have soft: "only_soft db"
    using assms(2) contention_soft by auto
  obtain r db1 where tr: "transact PK_IOERR (cache_get_row chunk) db st = Some (r, db1, st)"
    "\<forall>x. r = Inr x \<longrightarrow> chunk_row (parcel st) (tabs (db_conn db)) chunk = Some x"
    "\<forall>x. r = Inl x \<longrightarrow> \<not> (chunk_row (parcel st) (tabs (db_conn db)) chunk \<noteq> None \<and> only_contention db)"
    by (rule cache_get_transaction [OF assms(1) soft assms(3,4), of st]) blast
  have r: "r = Inr (tag, key, z, len)"
    using tr(2,3) assms(2,5) by (cases r) auto
  have "cache_read_chunk st chunk (p_chunksize (parcel st)) len None = None"
    using assms(6-9) by (simp add: cache_read_chunk_def upd_file_def pread_quiet)
  then show ?thesis
    using tr(1) r assms(6) by (simp add: cache_get_def)
qed

theorem cache_get_overruns_witness:
  "cache_get lzf_backends sample_source
     (sample_db\<lparr>db_conn := (db_conn sample_db)\<lparr>tabs := (tabs (db_conn sample_db))\<lparr>t_keys := [(0, replicate 20 1, replicate 20 2, 1)],
       t_chunks := Some [(0, 32)]\<rparr>\<rparr>\<rparr>)
     (sample_state\<lparr>cache_file := Some \<lparr>f_data = replicate 4128 0, f_faults = []\<rparr>\<rparr>) 0 (replicate 16 0) = None"
  by (rule cache_get_overruns [where tag = "replicate 20 1" and key = "replicate 20 2" and z = 1 and len = 32
      and f = "\<lparr>f_data = replicate 4128 0, f_faults = []\<rparr>"])
    (simp_all add: idle_def sample_db_def contention_def chunk_row_def indexed_def sample_state_def sample_parcel_def
      iu_chunk_compress_is_enabled_def cache_chunk_to_offset_def uint32_def)

lemma rollback_failed_held:
  assumes "rollback_retry db = Some (False, db')" "db_held db"
  shows "db_held db'"
proof -
  let ?P = "\<lambda>db r. db_held db \<longrightarrow> \<not> fst r \<longrightarrow> db_held (snd r)"
  have "?P db (False, db')"
  proof (rule rollback_retry.raw_induct [of ?P, OF _ assms(1)], goal_cases)
    case (1 loop db r)
    show ?case
    proof (intro impI)
      assume h: "db_held db" and f: "\<not> fst r"
      obtain ok db1 where q: "query_do db SQL_rollback [] [] = Some (ok, db1)" "\<not> ok \<and> faulted db db1 \<or> executed SQL_rollback db ok db1"
        using h by (rule query_do_cases)
      have "db_held db1"
        using q(2) h by (auto simp: faulted_def executed_def)
      with 1 q(1) f show "db_held (snd r)"
        by (auto split: if_splits)
    qed
  qed
  with assms(2) show ?thesis by simp
qed

text \<open>
  C34.  A rollback that fails keeps the connection: its result is ignored by its callers, and the next operation on the connection
  waits for a lock that the same thread holds.
\<close>

theorem failed_rollback_locks_out:
  assumes "db_held db" "db_use_transaction db" "rollback db = Some (False, db')"
  shows "db_begin transaction db' = None \<and> cache_get b src db' st chunk buf = None"
proof -
  have "db_held db'"
    using assms rollback_failed_held by (auto simp: rollback_def)
  then have "db_begin x db' = None" for x
    by (simp add: db_begin_def db_get_def)
  then show ?thesis
    by (simp add: cache_get_def transact.simps)
qed

theorem failed_rollback_locks_out_witness:
  "\<exists>db'. rollback (sample_db\<lparr>db_held := True, db_use_transaction := True, db_conn := (db_conn sample_db)\<lparr>trans := Some (tabs (db_conn sample_db)),
      faults := [Fault_error False]\<rparr>\<rparr>) = Some (False, db') \<and> db_begin True db' = None"
proof -
  let ?db = "sample_db\<lparr>db_held := True, db_use_transaction := True, db_conn := (db_conn sample_db)\<lparr>trans := Some (tabs (db_conn sample_db)),
      faults := [Fault_error False]\<rparr>\<rparr>"
  obtain db' where r: "rollback ?db = Some (False, db')"
    by (simp add: rollback_def rollback_retry.simps query_do_def query_def query_v_def db_in_trans_def alloc_query_def engine_call_def
        Let_def query_busy_def sample_db_def)
  have "db_begin True db' = None \<and> cache_get lzf_backends sample_source db' sample_state 0 [] = None"
    by (rule failed_rollback_locks_out [OF _ _ r]) simp_all
  with r show ?thesis by blast
qed

lemma io_chunk_wraps:
  assumes "0 < p_chunks p" "0 < count" "count \<le> p_chunksize p" "p_chunksize p < 2 ^ 31"
  obtains cur cur' where "io_chunk p (io_start (2 ^ 32 * p_chunksize p) count) = (True, cur)" "cur_chunk cur = 0" "cur_offset cur = 0"
    "cur_length cur = count" "cur_buf_offset cur = 0" "io_chunk p cur = (False, cur')" "cur_buf_offset cur' = count" "\<not> cur_eof cur'"
proof -
  let ?k = "p_chunksize p"
  let ?cur = "\<lparr>cur_chunk = 0, cur_offset = 0, cur_length = count, cur_buf_offset = 0, cur_eof = False, cur_start = 2 ^ 32 * ?k, cur_count = count\<rparr>"
  have u: "uint32 (int (2 ^ 32 * ?k)) = 0" "uint32 (int ?k) = ?k"
    using assms(4) by (simp_all add: uint32_def)
  have d: "2 ^ 32 * ?k div ?k mod 2 ^ 32 = 0"
    using assms(2,3) by simp
  have m: "min ?k count mod 2 ^ 32 = count"
    using assms(3,4) by simp
  have "io_chunk p (io_start (2 ^ 32 * ?k) count) = (True, ?cur)"
    unfolding io_chunk_def io_start_def Let_def using assms(1,2) u d m by simp
  moreover have "io_chunk p ?cur = (False, ?cur\<lparr>cur_buf_offset := count\<rparr>)"
    unfolding io_chunk_def Let_def using assms(3,4) by simp
  ultimately show thesis
    using that [of ?cur "?cur\<lparr>cur_buf_offset := count\<rparr>"] by simp
qed

text \<open>
  C35.  Chunk numbers are cut to 32 bits before they are compared with the size of the disk: a write far beyond the end of the disk is
  not refused with \<^verbatim>\<open>ENOSPC\<close> but reported as done, and overwrites the start of the disk.
\<close>

theorem write_beyond_end_wraps:
  assumes "disk_state b src p fresh g good A v im" "0 < p_chunks p" "0 < count" "count \<le> p_chunksize p" "count \<le> length buf"
  shows "\<exists>im' v'. image_write (cache_ops b src p fresh) buf (2 ^ 32 * p_chunksize p) count im = Some (int count, im')
    \<and> disk_state b src p fresh g good A v' im' \<and> disk p v' = blit (disk p v) 0 (take count buf)"
proof -
  let ?ops = "cache_ops b src p fresh"
  note s = disk_stateD [OF assms(1)]
  have k: "p_chunksize p < 2 ^ 31"
    using s(3) by (auto simp: image_holds_def cache_calm_def pk_ok_def parcel_ok_def)
  obtain cur cur' where c: "io_chunk p (io_start (2 ^ 32 * p_chunksize p) count) = (True, cur)" "cur_chunk cur = 0" "cur_offset cur = 0"
    "cur_length cur = count" "cur_buf_offset cur = 0" "io_chunk p cur = (False, cur')" "cur_buf_offset cur' = count" "\<not> cur_eof cur'"
    by (rule io_chunk_wraps [OF assms(2-4) k])
  let ?v = "v(0 := blit (v 0) 0 (take count buf))"
  obtain im' where im': "image_write_chunk ?ops cur buf im = Some (None, im')" "image_wf p A {} im'"
    "image_holds p (cache_calm src p fresh g good) (cache_content b g) ?v {} im'"
    using disk.write_chunk_total [OF s, of cur buf] c(2-5) assms(2,4,5) by auto
  have "image_write ?ops buf (2 ^ 32 * p_chunksize p) count im = Some (int count, im')"
  proof -
    have "image_write_loop ?ops c0 buf im = Some (int count, im')" if "io_chunk p c0 = (True, cur)" for c0
      using that c(6-8) im'(1) k assms(4) by (simp add: image_write_loop.simps [of ?ops c0] image_write_loop.simps [of ?ops cur])
    from this [OF c(1)] show ?thesis by (simp add: image_write_def)
  qed
  moreover have "disk p ?v = blit (disk p v) 0 (take count buf)"
    using disk_write [OF disk.holds_sized [OF s(3)], of 0 0 "take count buf"] assms(2,4) by simp
  ultimately show ?thesis
    using im' s(2) by (auto simp: disk_state_def)
qed

theorem write_beyond_end_wraps_witness:
  "\<exists>im'. image_write sample_ops [1, 2] (2 ^ 32 * 16) 2 sample_image = Some (2, im')"
  using write_beyond_end_wraps [OF sample_disk, of 2 "[1, 2]"] by (auto simp: sample_parcel_def)

text \<open>
  C36.  With chunks larger than 1 MiB, which the parcel configuration may ask for, \<open>image_init\<close> reports success with an allowance of no
  buffers at all, and the first access to the disk waits for ever.
\<close>

theorem large_chunks_never_served:
  assumes "image_init ops phys chunk_cache True s = (PK_SUCCESS, Some im)" "2 ^ 20 < p_chunksize (op_parcel ops)"
    and "0 < count" "0 < p_chunks (op_parcel ops)"
  shows "im_allocatable im = 0 \<and> image_read ops buf 0 count im = None \<and> image_write ops buf 0 count im = None"
proof -
  have al: "im_allocatable im = 0"
    using assms(1,2) by (auto simp: image_init_def Let_def split: if_splits)
  have im: "im_chunks im = []" "im_reclaimable im = []"
    using assms(1) by (auto simp: image_init_def Let_def split: if_splits)
  obtain cur where cur: "io_chunk (op_parcel ops) (io_start 0 count) = (True, cur)" "cur_chunk cur = 0"
    using assms(3,4) by (simp add: io_chunk_def io_start_def Let_def)
  have "entry_acquire ops 0 w im = None" for w
    by (simp add: entry_acquire_def entry_lookup_def im entry_acquire_locked_def upd_entry_def new_entry_def queue_delete_with_link_def
        entry_get_buffer_def al)
  then show ?thesis
    using al cur by (simp add: image_read_def image_write_def image_read_loop.simps [of ops "io_start 0 count"]
        image_write_loop.simps [of ops "io_start 0 count"] image_read_chunk_def image_write_chunk_def Let_def)
qed

theorem large_chunks_never_served_witness:
  "\<exists>im. image_init (cache_ops lzf_backends sample_source (sample_parcel\<lparr>p_chunksize := 2 ^ 21\<rparr>) (\<lambda>_. [])) (2 ^ 32) 64 True
      (sample_db, sample_state, \<lambda>_. 0) = (PK_SUCCESS, Some im)
    \<and> image_read (cache_ops lzf_backends sample_source (sample_parcel\<lparr>p_chunksize := 2 ^ 21\<rparr>) (\<lambda>_. [])) [0] 0 1 im = None"
proof -
  let ?ops = "cache_ops lzf_backends sample_source (sample_parcel\<lparr>p_chunksize := 2 ^ 21\<rparr>) (\<lambda>_. [])"
  obtain im where im: "image_init ?ops (2 ^ 32) 64 True (sample_db, sample_state, \<lambda>_. 0) = (PK_SUCCESS, Some im)"
    by (simp add: image_init_def)
  from large_chunks_never_served [OF im, of 1 "[0]"] im show ?thesis
    by (simp add: sample_parcel_def)
qed

end
