(* ===== verification/Isr_Hoard.thy ===== *)
theory Isr_Hoard
  imports Isr_Pk
begin

text \<open>
  The hoard cache, \<^verbatim>\<open>parcelkeeper/hoard.c\<close>: a file of slots that all Parcelkeeper processes of a user share, indexed by a
  database.  A process takes slots from the shared table \<^verbatim>\<open>chunks\<close> into its own temporary table \<^verbatim>\<open>slots\<close>, fills them, and gives them
  back when it needs more or ends.

  The tables of a connection are the shared ones and the temporary ones of its process.  A statement is the function on them
  that its text denotes; a \<^verbatim>\<open>SELECT\<close> without an order gives its rows in the order of the list.  \<open>Isr_Hoard_Open\<close> has the
  rest of the file: the index, garbage collection, start and end.
\<close>

section \<open>Tables\<close>

record hoard_slot =
  sl_tag :: "bytes option"
  sl_offset :: int
  sl_length :: int
  sl_crypto :: int

record hoard_row =
  hc_tag :: "bytes option"
  hc_offset :: int
  hc_length :: int
  hc_crypto :: int
  hc_allocated :: int

text \<open>Indices with the tables they are on.\<close>

record hoard_tables =
  ht_version :: int
  ht_indices :: "(string \<times> string) list"
  ht_parcels :: "(int \<times> string \<times> string \<times> string \<times> string) list option"
  ht_chunks :: "hoard_row list option"
  ht_chunks_old :: "hoard_row list option"
  ht_refs :: "(int \<times> bytes) list option"
  ht_slots :: "hoard_slot list option"

type_synonym hdb = "hoard_tables db"

definition HOARD_INDEX_VERSION :: int where "HOARD_INDEX_VERSION = 9"
definition EXPAND_CHUNKS :: int where "EXPAND_CHUNKS = 256"

definition changes :: "nat \<Rightarrow> sqlrow list" where
  "changes n = [[SQL_int (int n)]]"

definition new_slot :: "int \<Rightarrow> hoard_slot" where
  "new_slot off = \<lparr>sl_tag = None, sl_offset = off, sl_length = 0, sl_crypto = 0\<rparr>"

definition new_row :: "int \<Rightarrow> hoard_row" where
  "new_row off = \<lparr>hc_tag = None, hc_offset = off, hc_length = 0, hc_crypto = 0, hc_allocated = 1\<rparr>"

definition on_rows :: "(hoard_row list \<Rightarrow> stmt_error + (hoard_row list \<times> sqlrow list)) \<Rightarrow> hoard_tables \<Rightarrow> stmt_error + (hoard_tables \<times> sqlrow list)" where
  "on_rows f t = (case ht_chunks t of None \<Rightarrow> Inl Stmt_error
     | Some cs \<Rightarrow> (case f cs of Inl e \<Rightarrow> Inl e | Inr (cs, rows) \<Rightarrow> Inr (t\<lparr>ht_chunks := Some cs\<rparr>, rows)))"

definition on_slots :: "(hoard_slot list \<Rightarrow> stmt_error + (hoard_slot list \<times> sqlrow list)) \<Rightarrow> hoard_tables \<Rightarrow> stmt_error + (hoard_tables \<times> sqlrow list)" where
  "on_slots f t = (case ht_slots t of None \<Rightarrow> Inl Stmt_error
     | Some ss \<Rightarrow> (case f ss of Inl e \<Rightarrow> Inl e | Inr (ss, rows) \<Rightarrow> Inr (t\<lparr>ht_slots := Some ss\<rparr>, rows)))"

text \<open>An update of the rows that satisfy a condition, and its number of changes.\<close>

definition upd_where :: "('r \<Rightarrow> bool) \<Rightarrow> ('r \<Rightarrow> 'r) \<Rightarrow> 'r list \<Rightarrow> stmt_error + ('r list \<times> sqlrow list)" where
  "upd_where c f rs = Inr (map (\<lambda>r. if c r then f r else r) rs, changes (length (filter c rs)))"

definition slot_offsets :: "hoard_slot list \<Rightarrow> int set" where
  "slot_offsets ss = sl_offset ` set ss"

definition row_offsets :: "hoard_row list \<Rightarrow> int set" where
  "row_offsets cs = hc_offset ` set cs"

section \<open>Statements of the slot cache\<close>

definition reclaim_slots :: "hoard_tables sql" where
  "reclaim_slots = SQL_stmt (\<lambda>p t. case (p 1, ht_chunks t) of
     (SQL_int n, Some cs) \<Rightarrow>
       on_slots (\<lambda>ss. let new = filter (\<lambda>off. off \<notin> slot_offsets ss) (take (nat n) (map hc_offset (filter (\<lambda>r. hc_allocated r = 0) cs)))
         in Inr (ss @ map new_slot new, changes (length new))) t
   | _ \<Rightarrow> Inl Stmt_error)"

definition mark_allocated :: "hoard_tables sql" where
  "mark_allocated = SQL_stmt (\<lambda>p t. case ht_slots t of
     Some ss \<Rightarrow> on_rows (upd_where (\<lambda>r. hc_offset r \<in> slot_offsets ss) (\<lambda>r. r\<lparr>hc_allocated := 1\<rparr>)) t
   | None \<Rightarrow> Inl Stmt_error)"

definition sel_max_offset :: "hoard_tables sql" where
  "sel_max_offset = SQL_stmt (\<lambda>p t. case ht_chunks t of
     Some cs \<Rightarrow> Inr (t, [[if cs = [] then SQL_null else SQL_int (Max (row_offsets cs))]])
   | None \<Rightarrow> Inl Stmt_error)"

definition ins_slot :: "hoard_tables sql" where
  "ins_slot = SQL_stmt (\<lambda>p t. case p 1 of
     SQL_int off \<Rightarrow> on_slots (\<lambda>ss. if off \<in> slot_offsets ss then Inl Stmt_constraint else Inr (ss @ [new_slot off], changes 1)) t
   | _ \<Rightarrow> Inl Stmt_error)"

definition expand_chunks :: "hoard_tables sql" where
  "expand_chunks = SQL_stmt (\<lambda>p t. case ht_slots t of
     Some ss \<Rightarrow> on_rows (\<lambda>cs. let new = filter (\<lambda>off. off \<notin> row_offsets cs) (map sl_offset ss)
       in Inr (cs @ map new_row new, changes (length new))) t
   | None \<Rightarrow> Inl Stmt_error)"

definition sel_filled_slots :: "hoard_tables sql" where
  "sel_filled_slots = SQL_stmt (\<lambda>p t. case ht_slots t of
     Some ss \<Rightarrow> Inr (t, concat (map (\<lambda>s. case sl_tag s of None \<Rightarrow> []
       | Some tag \<Rightarrow> [[SQL_blob tag, SQL_int (sl_offset s), SQL_int (sl_length s), SQL_int (sl_crypto s)]]) ss))
   | None \<Rightarrow> Inl Stmt_error)"

definition store_slot :: "hoard_tables sql" where
  "store_slot = SQL_stmt (\<lambda>p t. case (p 1, p 2, p 3, p 4) of
     (SQL_blob tag, SQL_int len, SQL_int cry, SQL_int off) \<Rightarrow>
       on_rows (\<lambda>cs. if off \<in> row_offsets cs \<and> (\<exists>r \<in> set cs. hc_offset r \<noteq> off \<and> hc_tag r = Some tag) then Inl Stmt_constraint
         else upd_where (\<lambda>r. hc_offset r = off) (\<lambda>r. r\<lparr>hc_tag := Some tag, hc_length := len, hc_crypto := cry, hc_allocated := 1\<rparr>) cs) t
   | _ \<Rightarrow> Inl Stmt_error)"

definition release_offset :: "hoard_tables sql" where
  "release_offset = SQL_stmt (\<lambda>p t. case p 1 of
     SQL_int off \<Rightarrow> on_rows (upd_where (\<lambda>r. hc_offset r = off) (\<lambda>r. r\<lparr>hc_allocated := 0\<rparr>)) t
   | _ \<Rightarrow> Inl Stmt_error)"

definition release_empty :: "hoard_tables sql" where
  "release_empty = SQL_stmt (\<lambda>p t. case ht_slots t of
     Some ss \<Rightarrow> on_rows (upd_where (\<lambda>r. hc_offset r \<in> slot_offsets (filter (\<lambda>s. sl_tag s = None) ss)) (\<lambda>r. r\<lparr>hc_allocated := 0\<rparr>)) t
   | None \<Rightarrow> Inl Stmt_error)"

definition clear_slots :: "hoard_tables sql" where
  "clear_slots = SQL_stmt (\<lambda>p t. on_slots (\<lambda>ss. Inr ([], changes (length ss))) t)"

definition sel_empty_slot :: "hoard_tables sql" where
  "sel_empty_slot = SQL_stmt (\<lambda>p t. case ht_slots t of
     Some ss \<Rightarrow> Inr (t, map (\<lambda>s. [SQL_int (sl_offset s)]) (take 1 (filter (\<lambda>s. sl_tag s = None) ss)))
   | None \<Rightarrow> Inl Stmt_error)"

section \<open>The slot cache\<close>

definition query_column_types :: "'t query option \<Rightarrow> string option" where
  "query_column_types q = (case q of
     None \<Rightarrow> None
   | Some q \<Rightarrow> (case q_rows q of [] \<Rightarrow> None
       | r # _ \<Rightarrow> Some (map (\<lambda>v. case v of SQL_int _ \<Rightarrow> CHR ''d'' | SQL_text _ \<Rightarrow> CHR ''s'' | SQL_blob _ \<Rightarrow> CHR ''b'' | SQL_null \<Rightarrow> CHR ''0'') r)))"

text \<open>Functions that run inside a transaction: an error, or a value, and the connection.\<close>

type_synonym 'a hoard_result = "((pk_err + 'a) \<times> hdb) option"

definition create_slot_cache :: "hdb \<Rightarrow> unit hoard_result" where
  "create_slot_cache db = do {
     (ok, db) \<leftarrow> query_do db (SQL_stmt (\<lambda>p t. if ht_slots t = None then Inr (t\<lparr>ht_slots := Some []\<rparr>, []) else Inl Stmt_error)) [] [];
     Some (if ok then Inr () else Inl PK_IOERR, db)
   }"

fun add_slots :: "int list \<Rightarrow> hdb \<Rightarrow> unit hoard_result" where
  "add_slots [] db = Some (Inr (), db)"
| "add_slots (off # offs) db = do {
     (ok, db) \<leftarrow> query_do db ins_slot ''d'' [SQL_int off];
     if \<not> ok then Some (Inl PK_IOERR, db) else add_slots offs db
   }"

definition expand_file :: "int \<Rightarrow> int \<Rightarrow> hdb \<Rightarrow> unit hoard_result" where
  "expand_file step needed db = do {
     (_, qry, db) \<leftarrow> query True db sel_max_offset [] [];
     if \<not> query_has_row db then Some (Inl PK_IOERR, db)
     else do {
       type \<leftarrow> query_column_types qry;
       row \<leftarrow> query_row qry ''d'';
       (case row of
          [SQL_int start] \<Rightarrow> do {
            let start = (if type \<noteq> ''0'' then start + step else start);
            (r, db) \<leftarrow> add_slots (map (\<lambda>i. start + int i * step) [0..<nat needed]) (query_free qry db);
            (case r of
               Inl e \<Rightarrow> Some (Inl e, db)
             | Inr _ \<Rightarrow> do {
                 (ok, db) \<leftarrow> query_do db expand_chunks [] [];
                 Some (if ok then Inr () else Inl PK_IOERR, db)
               })
          }
        | _ \<Rightarrow> None)
     }
   }"

definition expand_slot_cache :: "pk_parcel \<Rightarrow> hdb \<Rightarrow> unit hoard_result" where
  "expand_slot_cache p db = do {
     (ok, qry, db) \<leftarrow> query True db reclaim_slots ''d'' [SQL_int EXPAND_CHUNKS];
     if \<not> ok then Some (Inl PK_IOERR, db)
     else do {
       row \<leftarrow> query_row qry ''d'';
       (case row of
          [SQL_int count] \<Rightarrow> do {
            (ok, db) \<leftarrow> query_do (query_free qry db) mark_allocated [] [];
            if \<not> ok then Some (Inl PK_IOERR, db)
            else if EXPAND_CHUNKS - count = 0 then Some (Inr (), db)
            else expand_file (int (p_chunksize p div 512)) (EXPAND_CHUNKS - count) db
          }
        | _ \<Rightarrow> None)
     }
   }"

text \<open>One row of the slot cache on its way back; \<open>False\<close> is the jump to \<^verbatim>\<open>bad\<close>.\<close>

definition flush_row :: "sqlval list \<Rightarrow> hdb \<Rightarrow> (bool \<times> hdb) option" where
  "flush_row row db = (case row of
     [SQL_blob tag, SQL_int off, SQL_int len, SQL_int cry] \<Rightarrow> do {
       (_, db) \<leftarrow> query_do db store_slot ''bddd'' [SQL_blob tag, SQL_int len, SQL_int cry, SQL_int off];
       if query_constrained db then query_do db release_offset ''d'' [SQL_int off]
       else Some (query_has_row db, db)
     }
   | _ \<Rightarrow> None)"

definition flush_step :: "hoard_tables query \<Rightarrow> hdb \<Rightarrow> (bool \<times> hdb) option" where
  "flush_step q db = do { row \<leftarrow> query_row (Some q) ''bddd''; flush_row row db }"

definition flush_slot_rows :: "hdb \<Rightarrow> unit hoard_result" where
  "flush_slot_rows db = do {
     (_, qry, db) \<leftarrow> query True db sel_filled_slots [] [];
     (ok, qry, db) \<leftarrow> for_rows flush_step qry db;
     let db = query_free qry db;
     if \<not> ok then Some (Inl PK_IOERR, db)
     else if \<not> query_ok db then Some (Inl PK_IOERR, db)
     else do {
       (ok, db) \<leftarrow> query_do db release_empty [] [];
       if \<not> ok then Some (Inl PK_IOERR, db)
       else do {
         (ok, db) \<leftarrow> query_do db clear_slots [] [];
         Some (if ok then Inr () else Inl PK_IOERR, db)
       }
     }
   }"

text \<open>A function inside a transaction of its own.\<close>

definition in_transaction :: "(hdb \<Rightarrow> 'a hoard_result) \<Rightarrow> hdb \<Rightarrow> ((pk_err + 'a) \<times> hdb) option" where
  "in_transaction call db = do {
     (r, db, _) \<leftarrow> transact PK_IOERR (\<lambda>db w. do {
       (r, db) \<leftarrow> call db;
       (case r of
          Inl e \<Rightarrow> Some (Inl e, db, w)
        | Inr a \<Rightarrow> do { (ok, db) \<leftarrow> commit db; Some (if ok then Inr a else Inl PK_IOERR, db, w) })
     }) db ();
     Some (r, db)
   }"

text \<open>
  \<^verbatim>\<open>TRANSACTION_WRAPPER\<close>: errors are discarded.  A commit that fails is not tried again, since \<open>commit\<close> never leaves the result
  \<^verbatim>\<open>SQLITE_BUSY\<close> behind.
\<close>

definition transaction_wrapper :: "(hdb \<Rightarrow> unit hoard_result) \<Rightarrow> hdb \<Rightarrow> hdb option" where
  "transaction_wrapper call db = do { (_, db) \<leftarrow> in_transaction call db; Some db }"

definition flush_slot_cache :: "hdb \<Rightarrow> hdb option" where
  "flush_slot_cache = transaction_wrapper flush_slot_rows"

definition find_slot :: "hdb \<Rightarrow> ((pk_err + int option) \<times> hdb) option" where
  "find_slot db = do {
     (_, qry, db) \<leftarrow> query True db sel_empty_slot [] [];
     if query_has_row db then do {
       row \<leftarrow> query_row qry ''d'';
       (case row of [SQL_int off] \<Rightarrow> Some (Inr (Some off), query_free qry db) | _ \<Rightarrow> None)
     }
     else Some (if query_ok db then Inr None else Inl PK_IOERR, db)
   }"

definition refill_slots :: "pk_parcel \<Rightarrow> hdb \<Rightarrow> unit hoard_result" where
  "refill_slots p db = do {
     (r, db) \<leftarrow> flush_slot_rows db;
     (case r of Inl e \<Rightarrow> Some (Inl e, db) | Inr _ \<Rightarrow> expand_slot_cache p db)
   }"

partial_function (option) allocate_slot :: "pk_parcel \<Rightarrow> hdb \<Rightarrow> int hoard_result" where
  "allocate_slot p db = do {
     (r, db) \<leftarrow> find_slot db;
     (case r of
        Inl e \<Rightarrow> Some (Inl e, db)
      | Inr (Some off) \<Rightarrow> Some (Inr off, db)
      | Inr None \<Rightarrow> do {
          (r, db) \<leftarrow> refill_slots p db;
          (case r of Inl e \<Rightarrow> Some (Inl e, db) | Inr _ \<Rightarrow> allocate_slot p db)
        })
   }"

section \<open>Invalid chunks\<close>

definition sel_at :: "hoard_tables sql" where
  "sel_at = SQL_stmt (\<lambda>p t. case (p 1, p 2, ht_chunks t) of
     (SQL_int off, SQL_blob tag, Some cs) \<Rightarrow>
       Inr (t, map (\<lambda>r. [SQL_int (hc_offset r)]) (filter (\<lambda>r. hc_offset r = off \<and> hc_tag r = Some tag) cs))
   | _ \<Rightarrow> Inl Stmt_error)"

definition erase_row :: "hoard_row \<Rightarrow> hoard_row" where
  "erase_row r = r\<lparr>hc_tag := None, hc_length := 0, hc_crypto := 0, hc_allocated := 0\<rparr>"

definition erase_at :: "hoard_tables sql" where
  "erase_at = SQL_stmt (\<lambda>p t. case p 1 of
     SQL_int off \<Rightarrow> on_rows (upd_where (\<lambda>r. hc_offset r = off) erase_row) t
   | _ \<Rightarrow> Inl Stmt_error)"

definition erase_slot :: "hoard_tables sql" where
  "erase_slot = SQL_stmt (\<lambda>p t. case p 1 of
     SQL_int off \<Rightarrow> on_slots (upd_where (\<lambda>s. sl_offset s = off) (\<lambda>s. s\<lparr>sl_tag := None, sl_length := 0, sl_crypto := 0\<rparr>)) t
   | _ \<Rightarrow> Inl Stmt_error)"

definition invalidate_row :: "int \<Rightarrow> bytes \<Rightarrow> hdb \<Rightarrow> unit hoard_result" where
  "invalidate_row off tag db = do {
     (_, qry, db) \<leftarrow> query True db sel_at ''db'' [SQL_int off, SQL_blob tag];
     if query_ok db then Some (Inr (), db)
     else if \<not> query_has_row db then Some (Inl PK_IOERR, db)
     else do {
       (ok, db) \<leftarrow> query_do (query_free qry db) erase_at ''d'' [SQL_int off];
       Some (if ok then Inr () else Inl PK_IOERR, db)
     }
   }"

definition invalidate_slot :: "int \<Rightarrow> hdb \<Rightarrow> unit hoard_result" where
  "invalidate_slot off db = do {
     (ok, db) \<leftarrow> query_do db erase_slot ''d'' [SQL_int off];
     Some (if ok then Inr () else Inl PK_IOERR, db)
   }"

definition hoard_invalidate_chunk :: "int \<Rightarrow> bytes \<Rightarrow> hdb \<Rightarrow> hdb option" where
  "hoard_invalidate_chunk off tag = transaction_wrapper (invalidate_row off tag)"

definition hoard_invalidate_slot_chunk :: "int \<Rightarrow> hdb \<Rightarrow> hdb option" where
  "hoard_invalidate_slot_chunk off = transaction_wrapper (invalidate_slot off)"

section \<open>Reading\<close>

text \<open>\<open>limit\<close> is the chunk size of the parcel, if there is one.\<close>

definition hoard_read_chunk :: "nat option \<Rightarrow> int \<Rightarrow> int \<Rightarrow> c_enum \<Rightarrow> bytes \<Rightarrow> pfile \<Rightarrow> (pk_err \<times> bytes \<times> pfile) option" where
  "hoard_read_chunk limit off len crypto tag f =
     (if length tag \<noteq> iu_chunk_crypto_hashlen crypto then Some (PK_BADFORMAT, [], f)
      else if off < 0 \<or> len \<le> 0 \<or> (case limit of None \<Rightarrow> False | Some m \<Rightarrow> m < nat len) then Some (PK_BADFORMAT, [], f)
      else case pread (nat len) (nat off * 512) f of (buf, f) \<Rightarrow>
        if length buf \<noteq> nat len then Some (PK_IOERR, [], f)
        else do {
          calctag \<leftarrow> iu_chunk_crypto_digest crypto buf;
          Some (case calctag of
            None \<Rightarrow> (PK_CALLFAIL, [], f)
          | Some calctag \<Rightarrow> if tag \<noteq> calctag then (PK_TAGFAIL, [], f) else (PK_SUCCESS, buf, f))
        })"

definition sel_slot_tag :: "hoard_tables sql" where
  "sel_slot_tag = SQL_stmt (\<lambda>p t. case (p 1, ht_slots t) of
     (SQL_blob tag, Some ss) \<Rightarrow>
       Inr (t, map (\<lambda>s. [SQL_int (sl_offset s), SQL_int (sl_length s)]) (filter (\<lambda>s. sl_tag s = Some tag) ss))
   | _ \<Rightarrow> Inl Stmt_error)"

definition sel_row_tag :: "hoard_tables sql" where
  "sel_row_tag = SQL_stmt (\<lambda>p t. case (p 1, ht_chunks t) of
     (SQL_blob tag, Some cs) \<Rightarrow>
       Inr (t, map (\<lambda>r. [SQL_int (hc_offset r), SQL_int (hc_length r)]) (filter (\<lambda>r. hc_tag r = Some tag) cs))
   | _ \<Rightarrow> Inl Stmt_error)"

text \<open>The lookup: from the slot cache or not, offset and length.\<close>

definition lookup_done :: "(bool \<times> int \<times> int) option \<Rightarrow> hdb \<Rightarrow> pfile \<Rightarrow> ((pk_err + (bool \<times> int \<times> int) option) \<times> hdb \<times> pfile) option" where
  "lookup_done x db f = do { (ok, db) \<leftarrow> commit db; Some (if ok then Inr x else Inl PK_IOERR, db, f) }"

definition hoard_lookup :: "bytes \<Rightarrow> hdb \<Rightarrow> pfile \<Rightarrow> ((pk_err + (bool \<times> int \<times> int) option) \<times> hdb \<times> pfile) option" where
  "hoard_lookup tag db f = do {
     (ok, qry, db) \<leftarrow> query True db sel_slot_tag ''b'' [SQL_blob tag];
     if \<not> ok then Some (Inl PK_IOERR, db, f)
     else if query_has_row db then do {
       row \<leftarrow> query_row qry ''dd'';
       (case row of [SQL_int off, SQL_int len] \<Rightarrow> lookup_done (Some (True, off, len)) (query_free qry db) f | _ \<Rightarrow> None)
     }
     else do {
       (_, qry, db) \<leftarrow> query True db sel_row_tag ''b'' [SQL_blob tag];
       if query_ok db then lookup_done None db f
       else if \<not> query_has_row db then Some (Inl PK_IOERR, db, f)
       else do {
         row \<leftarrow> query_row qry ''dd'';
         (case row of [SQL_int off, SQL_int len] \<Rightarrow> lookup_done (Some (False, off, len)) (query_free qry db) f | _ \<Rightarrow> None)
       }
     }
   }"

text \<open>One attempt: an answer, or the invalid entry is dropped and there is another attempt.\<close>

definition hoard_get_once :: "pk_parcel \<Rightarrow> bytes \<Rightarrow> hdb \<Rightarrow> pfile \<Rightarrow> ((pk_err \<times> bytes) option \<times> hdb \<times> pfile) option" where
  "hoard_get_once p tag db f = do {
     (r, db, f) \<leftarrow> transact PK_IOERR (hoard_lookup (take (p_hashlen p) tag)) db f;
     (case r of
        Inl e \<Rightarrow> Some (Some (e, []), db, f)
      | Inr None \<Rightarrow> Some (Some (PK_NOTFOUND, []), db, f)
      | Inr (Some (slot, off, len)) \<Rightarrow> do {
          (ret, buf, f) \<leftarrow> hoard_read_chunk (Some (p_chunksize p)) off len (p_crypto p) (take (p_hashlen p) tag) f;
          if ret = PK_SUCCESS then Some (Some (PK_SUCCESS, buf), db, f)
          else do {
            db \<leftarrow> (if slot then hoard_invalidate_slot_chunk off db else hoard_invalidate_chunk off (take (p_hashlen p) tag) db);
            Some (None, db, f)
          }
        })
   }"

partial_function (option) hoard_get_loop :: "pk_parcel \<Rightarrow> bytes \<Rightarrow> hdb \<Rightarrow> pfile \<Rightarrow> (pk_err \<times> bytes \<times> hdb \<times> pfile) option" where
  "hoard_get_loop p tag db f = do {
     (r, db, f) \<leftarrow> hoard_get_once p tag db f;
     (case r of Some (ret, buf) \<Rightarrow> Some (ret, buf, db, f) | None \<Rightarrow> hoard_get_loop p tag db f)
   }"

text \<open>\<open>dir\<close> says that a hoard directory is configured.\<close>

definition hoard_get_chunk :: "bool \<Rightarrow> pk_parcel \<Rightarrow> bytes \<Rightarrow> hdb \<Rightarrow> pfile \<Rightarrow> (pk_err \<times> bytes \<times> hdb \<times> pfile) option" where
  "hoard_get_chunk dir p tag db f = (if \<not> dir then Some (PK_NOTFOUND, [], db, f) else hoard_get_loop p tag db f)"

section \<open>Writing\<close>

definition HOARD_CHUNKSIZE :: nat where "HOARD_CHUNKSIZE = 131072"

definition hoard_write_chunk :: "nat \<Rightarrow> bytes \<Rightarrow> pfile \<Rightarrow> pk_err \<times> pfile" where
  "hoard_write_chunk off buf f =
     (if HOARD_CHUNKSIZE < length buf then (PK_INVALID, f)
      else case pwrite (buf @ replicate (HOARD_CHUNKSIZE - length buf) 0) (off * 512) f of
        (n, f) \<Rightarrow> (if n \<noteq> HOARD_CHUNKSIZE then PK_IOERR else PK_SUCCESS, f))"

definition fill_slot :: "hoard_tables sql" where
  "fill_slot = SQL_stmt (\<lambda>p t. case (p 1, p 2, p 3, p 4) of
     (SQL_blob tag, SQL_int len, SQL_int cry, SQL_int off) \<Rightarrow>
       on_slots (\<lambda>ss. if off \<in> slot_offsets ss \<and> (\<exists>s \<in> set ss. sl_offset s \<noteq> off \<and> sl_tag s = Some tag) then Inl Stmt_constraint
         else upd_where (\<lambda>s. sl_offset s = off) (\<lambda>s. s\<lparr>sl_tag := Some tag, sl_length := len, sl_crypto := cry\<rparr>) ss) t
   | _ \<Rightarrow> Inl Stmt_error)"

text \<open>The tests whether the tag is there already: \<open>Some\<close> ends the transaction.\<close>

definition put_done :: "hdb \<Rightarrow> pfile \<Rightarrow> ((pk_err + unit) \<times> hdb \<times> pfile) option" where
  "put_done db f = do { (ok, db) \<leftarrow> commit db; Some (if ok then Inr () else Inl PK_IOERR, db, f) }"

text \<open>The \<^verbatim>\<open>int\<close> offset of the slot becomes the \<^verbatim>\<open>unsigned\<close> one of \<^verbatim>\<open>_hoard_write_chunk\<close>.\<close>

definition put_new :: "pk_parcel \<Rightarrow> bytes \<Rightarrow> bytes \<Rightarrow> hdb \<Rightarrow> pfile \<Rightarrow> ((pk_err + unit) \<times> hdb \<times> pfile) option" where
  "put_new p tag buf db f = do {
     (r, db) \<leftarrow> allocate_slot p db;
     (case r of
        Inl e \<Rightarrow> Some (Inl e, db, f)
      | Inr off \<Rightarrow> do {
          (ok, db) \<leftarrow> query_do db fill_slot ''bddd'' [SQL_blob tag, SQL_int (int (length buf)), SQL_int (p_crypto p), SQL_int off];
          if \<not> ok then Some (Inl PK_IOERR, db, f)
          else case hoard_write_chunk (uint32 off) buf f of (ret, f) \<Rightarrow>
            if ret \<noteq> PK_SUCCESS then Some (Inl PK_IOERR, db, f) else put_done db f
        })
   }"

definition hoard_put_row :: "pk_parcel \<Rightarrow> bytes \<Rightarrow> bytes \<Rightarrow> hdb \<Rightarrow> pfile \<Rightarrow> ((pk_err + unit) \<times> hdb \<times> pfile) option" where
  "hoard_put_row p tag buf db f = do {
     (_, db) \<leftarrow> query_do db sel_slot_tag ''b'' [SQL_blob tag];
     if query_has_row db then put_done db f
     else if \<not> query_ok db then Some (Inl PK_SQLERR, db, f)
     else do {
       (_, db) \<leftarrow> query_do db sel_row_tag ''b'' [SQL_blob tag];
       if query_has_row db then put_done db f
       else if \<not> query_ok db then Some (Inl PK_SQLERR, db, f)
       else put_new p tag buf db f
     }
   }"

definition hoard_put_chunk :: "bool \<Rightarrow> pk_parcel \<Rightarrow> bytes \<Rightarrow> bytes \<Rightarrow> hdb \<Rightarrow> pfile \<Rightarrow> (pk_err \<times> hdb \<times> pfile) option" where
  "hoard_put_chunk dir p tag buf db f =
     (if \<not> dir then Some (PK_SUCCESS, db, f)
      else do {
        (r, db, f) \<leftarrow> transact PK_IOERR (hoard_put_row p (take (p_hashlen p) tag) buf) db f;
        Some (case r of Inl e \<Rightarrow> e | Inr _ \<Rightarrow> PK_SUCCESS, db, f)
      })"

end
