(* ===== verification/Isr_Hoard_Correct.thy ===== *)
theory Isr_Hoard_Correct
  imports Isr_Hoard Isr_Txn
begin

text \<open>
  The invariant of the hoard cache for one process among others, and that every operation keeps it: the slots that a process has
  taken are marked as allocated and belong to nobody else, and every entry with a tag is backed by the file.
\<close>

section \<open>The shared table\<close>

text \<open>\<open>entry_ok\<close> says what a tag, offset, length and suite of an entry have to satisfy; \<open>own\<close> are the offsets that processes have taken.\<close>

type_synonym entry_pred = "bytes \<Rightarrow> int \<Rightarrow> int \<Rightarrow> int \<Rightarrow> bool"

definition offset_ok :: "int \<Rightarrow> bool" where
  "offset_ok off \<longleftrightarrow> 0 \<le> off \<and> 256 dvd off \<and> off < 2 ^ 31"

definition row_ok :: "entry_pred \<Rightarrow> hoard_row \<Rightarrow> bool" where
  "row_ok E r \<longleftrightarrow> offset_ok (hc_offset r) \<and> (hc_allocated r = 0 \<or> hc_allocated r = 1) \<and> (hc_allocated r = 0 \<longrightarrow> hc_tag r = None)
     \<and> (\<forall>tag. hc_tag r = Some tag \<longrightarrow> E tag (hc_offset r) (hc_length r) (hc_crypto r))"

definition taken :: "hoard_row \<Rightarrow> bool" where
  "taken r \<longleftrightarrow> hc_allocated r = 1 \<and> hc_tag r = None"

definition chunks_inv :: "int set \<Rightarrow> entry_pred \<Rightarrow> hoard_row list \<Rightarrow> bool" where
  "chunks_inv own E cs \<longleftrightarrow> distinct (map hc_offset cs) \<and> (\<forall>r \<in> set cs. row_ok E r)
     \<and> (\<forall>r \<in> set cs. \<forall>r' \<in> set cs. hc_tag r = hc_tag r' \<and> hc_tag r \<noteq> None \<longrightarrow> r = r')
     \<and> (\<forall>off \<in> own. \<exists>r \<in> set cs. hc_offset r = off \<and> taken r)"

lemma chunks_inv_own: "chunks_inv own E cs \<Longrightarrow> own' \<subseteq> own \<Longrightarrow> chunks_inv own' E cs"
  by (auto simp: chunks_inv_def)

lemma chunks_inv_taken:
  assumes "chunks_inv own E cs" "r \<in> set cs" "hc_offset r \<in> own"
  shows "taken r"
proof -
  obtain r' where "r' \<in> set cs" "hc_offset r' = hc_offset r" "taken r'"
    using assms by (auto simp: chunks_inv_def)
  moreover have "inj_on hc_offset (set cs)"
    using assms(1) by (simp add: chunks_inv_def distinct_map)
  ultimately show ?thesis
    using assms(2) by (auto dest: inj_onD)
qed

lemma chunks_inv_ownE:
  assumes "chunks_inv own E cs" "off \<in> own"
  obtains r where "r \<in> set cs" "hc_offset r = off" "taken r"
  using assms by (auto simp: chunks_inv_def)

text \<open>Updates of rows that keep their offset.\<close>

lemma chunks_inv_map:
  assumes "chunks_inv own E cs" "\<And>r. hc_offset (f r) = hc_offset r"
    and "\<And>r. r \<in> set cs \<Longrightarrow> c r \<Longrightarrow> row_ok E (f r)"
    and "\<And>r r'. r \<in> set cs \<Longrightarrow> r' \<in> set cs \<Longrightarrow> c r \<Longrightarrow> hc_tag (f r) \<noteq> None \<Longrightarrow> hc_tag (if c r' then f r' else r') = hc_tag (f r) \<Longrightarrow> r = r'"
    and "\<And>off. off \<in> own' \<Longrightarrow> \<exists>r \<in> set cs. hc_offset r = off \<and> taken (if c r then f r else r)"
  shows "chunks_inv own' E (map (\<lambda>r. if c r then f r else r) cs)"
proof -
  define g where "g = (\<lambda>r. if c r then f r else r)"
  have goff: "hc_offset (g r) = hc_offset r" for r
    using assms(2) by (simp add: g_def)
  have eq: "map hc_offset (map g cs) = map hc_offset cs"
    using goff by simp
  have "distinct (map hc_offset (map g cs))"
    unfolding eq using assms(1) by (simp add: chunks_inv_def)
  moreover have "\<forall>r \<in> set (map g cs). row_ok E r"
    using assms(1,3) by (auto simp: chunks_inv_def g_def)
  moreover have same: "r = r'" if rs: "r \<in> set cs" "r' \<in> set cs" "hc_tag (g r) = hc_tag (g r')" "hc_tag (g r) \<noteq> None" for r r'
  proof -
    consider "c r" | "c r'" | "\<not> c r" "\<not> c r'" by blast
    then show "r = r'"
    proof cases
      case 1
      show ?thesis
        by (rule assms(4) [OF rs(1,2) 1]) (use rs(3,4) 1 in \<open>simp_all add: g_def\<close>)
    next
      case 2
      have "r' = r"
        by (rule assms(4) [OF rs(2,1) 2]) (use rs(3,4) 2 in \<open>simp_all add: g_def\<close>)
      then show ?thesis ..
    next
      case 3
      then show ?thesis
        using rs assms(1) by (simp add: chunks_inv_def g_def)
    qed
  qed
  have "\<forall>r \<in> set (map g cs). \<forall>r' \<in> set (map g cs). hc_tag r = hc_tag r' \<and> hc_tag r \<noteq> None \<longrightarrow> r = r'"
    unfolding set_map using same by blast
  moreover have "\<forall>off \<in> own'. \<exists>r \<in> set (map g cs). hc_offset r = off \<and> taken r"
  proof
    fix off
    assume "off \<in> own'"
    from assms(5) [OF this] obtain r where "r \<in> set cs" "hc_offset r = off" "taken (g r)"
      by (auto simp: g_def)
    with goff show "\<exists>r \<in> set (map g cs). hc_offset r = off \<and> taken r"
      by (intro bexI [of _ "g r"]) auto
  qed
  ultimately show ?thesis
    unfolding g_def [symmetric] chunks_inv_def by blast
qed

lemma chunks_inv_off:
  assumes "chunks_inv own E cs" "r \<in> set cs" "r' \<in> set cs" "hc_offset r = hc_offset r'"
  shows "r = r'"
  using assms by (auto simp: chunks_inv_def distinct_map dest: inj_onD)

lemma chunks_inv_rows: "chunks_inv own E cs \<Longrightarrow> r \<in> set cs \<Longrightarrow> row_ok E r"
  by (simp add: chunks_inv_def)

lemma chunks_inv_release:
  assumes "chunks_inv (S \<union> own) E cs" "S \<inter> own = {}"
  shows "chunks_inv own E (map (\<lambda>r. if hc_offset r \<in> S then r\<lparr>hc_allocated := 0\<rparr> else r) cs)"
proof (rule chunks_inv_map [OF assms(1)], goal_cases)
  case (2 r)
  with chunks_inv_taken [OF assms(1), of r] chunks_inv_rows [OF assms(1), of r] show ?case
    by (auto simp: row_ok_def taken_def)
next
  case (3 r r')
  with chunks_inv_taken [OF assms(1), of r] show ?case
    by (auto simp: taken_def)
next
  case (4 off)
  then obtain r where "r \<in> set cs" "hc_offset r = off" "taken r"
    using chunks_inv_ownE [OF assms(1), of off] by blast
  with 4 assms(2) show ?case
    by (intro bexI [of _ r]) auto
qed simp

lemma chunks_inv_store:
  assumes "chunks_inv (insert off own) E cs" "off \<notin> own" "E tag off len cry" "\<forall>r \<in> set cs. hc_offset r \<noteq> off \<longrightarrow> hc_tag r \<noteq> Some tag"
  shows "chunks_inv own E (map (\<lambda>r. if hc_offset r = off
    then r\<lparr>hc_tag := Some tag, hc_length := len, hc_crypto := cry, hc_allocated := 1\<rparr> else r) cs)"
proof (rule chunks_inv_map [OF assms(1)], goal_cases)
  case (2 r)
  with chunks_inv_rows [OF assms(1), of r] assms(3) show ?case
    by (auto simp: row_ok_def)
next
  case (3 r r')
  with chunks_inv_off [OF assms(1)] assms(4) show ?case
    by (auto split: if_splits)
next
  case (4 o')
  then obtain r where "r \<in> set cs" "hc_offset r = o'" "taken r"
    using chunks_inv_ownE [OF assms(1), of o'] by blast
  with 4 assms(2) show ?case
    by (intro bexI [of _ r]) auto
qed simp

lemma chunks_inv_erase:
  assumes "chunks_inv own E cs" "\<And>r. r \<in> set cs \<Longrightarrow> c r \<Longrightarrow> hc_tag r \<noteq> None"
  shows "chunks_inv own E (map (\<lambda>r. if c r then erase_row r else r) cs)"
proof (rule chunks_inv_map [OF assms(1)], goal_cases)
  case (2 r)
  with chunks_inv_rows [OF assms(1), of r] show ?case
    by (auto simp: row_ok_def erase_row_def)
next
  case (4 off)
  then obtain r where "r \<in> set cs" "hc_offset r = off" "taken r"
    using assms(1) by (auto simp: chunks_inv_def)
  with assms(2) [of r] show ?case
    by (auto simp: taken_def)
qed (simp_all add: erase_row_def)

lemma chunks_inv_reclaim:
  assumes "chunks_inv own E cs" "\<And>off. off \<in> S \<Longrightarrow> \<exists>r \<in> set cs. hc_offset r = off \<and> (hc_allocated r = 0 \<or> taken r)"
  shows "chunks_inv (S \<union> own) E (map (\<lambda>r. if hc_offset r \<in> S then r\<lparr>hc_allocated := 1\<rparr> else r) cs)"
proof -
  have free: "hc_tag r = None" if rs: "r \<in> set cs" "hc_offset r \<in> S" for r
  proof -
    obtain r' where "r' \<in> set cs" "hc_offset r' = hc_offset r" "hc_allocated r' = 0 \<or> taken r'"
      using assms(2) [OF rs(2)] by blast
    then have "hc_allocated r = 0 \<or> taken r"
      using chunks_inv_off [OF assms(1) rs(1), of r'] by simp
    then show ?thesis
      using chunks_inv_rows [OF assms(1) rs(1)] by (auto simp: row_ok_def taken_def)
  qed
  show ?thesis
  proof (rule chunks_inv_map [OF assms(1)], goal_cases)
    case (2 r)
    with chunks_inv_rows [OF assms(1), of r] free show ?case
      by (auto simp: row_ok_def)
  next
    case (3 r r')
    with free show ?case by auto
  next
    case (4 off)
    show ?case
    proof (cases "off \<in> S")
      case True
      with assms(2) obtain r where "r \<in> set cs" "hc_offset r = off"
        by blast
      with free [of r] True show ?thesis
        by (intro bexI [of _ r]) (auto simp: taken_def)
    next
      case False
      with 4 obtain r where "r \<in> set cs" "hc_offset r = off" "taken r"
        using chunks_inv_ownE [OF assms(1), of off] by blast
      with False show ?thesis
        by (intro bexI [of _ r]) auto
    qed
  qed simp
qed

lemma chunks_inv_expand:
  assumes "chunks_inv own E cs" "distinct new" "\<And>off. off \<in> set new \<Longrightarrow> offset_ok off \<and> off \<notin> row_offsets cs"
  shows "chunks_inv (set new \<union> own) E (cs @ map new_row new)"
proof -
  have nr: "hc_offset (new_row off) = off" "hc_tag (new_row off) = None" "taken (new_row off)" for off
    by (simp_all add: new_row_def taken_def)
  have "map hc_offset (cs @ map new_row new) = map hc_offset cs @ new"
    by (simp add: nr comp_def)
  then have "distinct (map hc_offset (cs @ map new_row new))"
    using assms by (auto simp: chunks_inv_def row_offsets_def)
  moreover have "row_ok E r" if "r \<in> set (cs @ map new_row new)" for r
    using that assms by (auto simp: chunks_inv_def row_ok_def new_row_def)
  moreover have "r = r'" if "r \<in> set (cs @ map new_row new)" "r' \<in> set (cs @ map new_row new)" "hc_tag r = hc_tag r'" "hc_tag r \<noteq> None" for r r'
    using that assms(1) by (auto simp: chunks_inv_def nr)
  moreover have "\<exists>r \<in> set (cs @ map new_row new). hc_offset r = off \<and> taken r" if "off \<in> set new \<union> own" for off
    using that assms(1) nr by (auto simp: chunks_inv_def intro: bexI [of _ "new_row off"])
  ultimately show ?thesis
    unfolding chunks_inv_def by blast
qed

end
