(* ===== verification/Isr_Hoard_Slots.thy ===== *)
theory Isr_Hoard_Slots
  imports Isr_Hoard_Correct
begin

text \<open>
  The slot cache of one process: giving slots back, taking new ones, and finding an empty one.  Each function is followed through its
  statements, for every schedule of engine failures.
\<close>

section \<open>Values of statements\<close>

named_theorems stmt_eval "values of statements with their parameters"

lemmas [stmt_eval] = stmt_value_def param_arg_def param_put_def on_rows_def on_slots_def upd_where_def changes_def

definition row_tags :: "hoard_row list \<Rightarrow> bytes set" where
  "row_tags cs = {tag. \<exists>r \<in> set cs. hc_tag r = Some tag}"

definition slot_tags :: "hoard_slot list \<Rightarrow> bytes set" where
  "slot_tags ss = {tag. \<exists>s \<in> set ss. sl_tag s = Some tag}"

lemma row_tags_map: "row_tags (map g cs) = {tag. \<exists>r \<in> set cs. hc_tag (g r) = Some tag}"
  by (auto simp: row_tags_def)

lemma row_tags_same: "(\<And>r. r \<in> set cs \<Longrightarrow> hc_tag (g r) = hc_tag r) \<Longrightarrow> row_tags (map g cs) = row_tags cs"
  unfolding row_tags_map by (auto simp: row_tags_def)

lemma row_tags_store:
  assumes "r0 \<in> set cs" "c r0" "\<And>r. hc_tag (f r) = Some tag" "\<And>r. r \<in> set cs \<Longrightarrow> c r \<Longrightarrow> hc_tag r = None"
  shows "row_tags (map (\<lambda>r. if c r then f r else r) cs) = insert tag (row_tags cs)"
proof -
  have "(\<exists>r \<in> set cs. hc_tag (if c r then f r else r) = Some x) \<longleftrightarrow> x = tag \<or> (\<exists>r \<in> set cs. hc_tag r = Some x)" for x
  proof
    assume "x = tag \<or> (\<exists>r \<in> set cs. hc_tag r = Some x)"
    then consider "x = tag" | r where "r \<in> set cs" "hc_tag r = Some x" "\<not> c r"
      using assms(4) by fastforce
    then show "\<exists>r \<in> set cs. hc_tag (if c r then f r else r) = Some x"
      by cases (use assms(1-3) in \<open>auto intro: bexI [of _ r0]\<close>)
  qed (use assms(3) in \<open>auto split: if_splits\<close>)
  then show ?thesis
    unfolding row_tags_map by (auto simp: row_tags_def)
qed

text \<open>More tags, with the entries that were there still in their places.\<close>

definition tagged_rows :: "hoard_row list \<Rightarrow> hoard_row set" where
  "tagged_rows cs = {r \<in> set cs. hc_tag r \<noteq> None}"

definition grown :: "hoard_row list \<Rightarrow> bytes set \<Rightarrow> hoard_row list \<Rightarrow> bool" where
  "grown cs tags cs' \<longleftrightarrow> row_tags cs' = row_tags cs \<union> tags \<and> tagged_rows cs \<subseteq> set cs'"

definition retagged :: "hoard_row list \<Rightarrow> bytes set \<Rightarrow> hoard_row list \<Rightarrow> bool" where
  "retagged cs tags cs' \<longleftrightarrow> row_offsets cs' = row_offsets cs \<and> grown cs tags cs'"

lemma row_offsets_map: "(\<And>r. hc_offset (g r) = hc_offset r) \<Longrightarrow> row_offsets (map g cs) = row_offsets cs"
  by (simp add: row_offsets_def image_image)

lemma tagged_rows_map: "(\<And>r. r \<in> set cs \<Longrightarrow> hc_tag r \<noteq> None \<Longrightarrow> g r = r) \<Longrightarrow> tagged_rows cs \<subseteq> set (map g cs)"
  by (force simp: tagged_rows_def)

lemma retagged_same:
  assumes "\<And>r. hc_offset (g r) = hc_offset r" "\<And>r. r \<in> set cs \<Longrightarrow> hc_tag (g r) = hc_tag r"
    and "\<And>r. r \<in> set cs \<Longrightarrow> hc_tag r \<noteq> None \<Longrightarrow> g r = r"
  shows "retagged cs {} (map g cs)"
  using row_offsets_map [of g cs, OF assms(1)] row_tags_same [of cs g, OF assms(2)] tagged_rows_map [of cs g, OF assms(3)]
  by (simp add: retagged_def grown_def)

lemma grown_refl: "grown a {} a"
  by (auto simp: grown_def tagged_rows_def)

lemma tagged_rows_trans: "tagged_rows a \<subseteq> set b \<Longrightarrow> tagged_rows b \<subseteq> set c \<Longrightarrow> tagged_rows a \<subseteq> set c"
  unfolding tagged_rows_def by blast

lemma grown_trans: "grown a S b \<Longrightarrow> grown b T c \<Longrightarrow> grown a (S \<union> T) c"
  using tagged_rows_trans [of a b c] by (simp add: grown_def Un_assoc)

lemma retagged_trans: "retagged a S b \<Longrightarrow> retagged b T c \<Longrightarrow> retagged a (S \<union> T) c"
  using grown_trans by (auto simp: retagged_def)

definition small :: "int \<Rightarrow> bool" where
  "small i \<longleftrightarrow> 0 \<le> i \<and> i < 2 ^ 31"

lemma small_int32 [simp]: "small i \<Longrightarrow> int32 i = i"
  by (simp add: small_def)

lemma offset_small: "offset_ok off \<Longrightarrow> small off"
  by (simp add: offset_ok_def small_def)

text \<open>What every condition on entries implies: numbers that survive the passage through an \<^verbatim>\<open>int\<close>.\<close>

definition numeric :: "entry_pred \<Rightarrow> bool" where
  "numeric E \<longleftrightarrow> (\<forall>tag off len cry. E tag off len cry \<longrightarrow> small len \<and> small cry)"

lemma chunks_inv_offset: "chunks_inv own E cs \<Longrightarrow> off \<in> own \<Longrightarrow> offset_ok off"
  by (auto simp: chunks_inv_def row_ok_def)

lemma chunks_inv_offsets: "chunks_inv own E cs \<Longrightarrow> own \<subseteq> row_offsets cs"
  by (auto simp: row_offsets_def elim!: chunks_inv_ownE)

section \<open>Giving slots back\<close>

lemma flush_row_run:
  assumes i: "inside t0 k t db" "ht_chunks t = Some cs"
    and inv: "chunks_inv (insert off own) E cs" "off \<notin> own" and e: "E tag off len cry" "numeric E"
  obtains ok db' where "flush_row [SQL_blob tag, SQL_int off, SQL_int len, SQL_int cry] db = Some (ok, db')"
    "\<not> ok \<Longrightarrow> failing t0 k True db db'"
    "ok \<Longrightarrow> \<exists>cs'. inside t0 k (t\<lparr>ht_chunks := Some cs'\<rparr>) db' \<and> later db db' \<and> chunks_inv own E cs' \<and> retagged cs {tag} cs'"
proof -
  have sm: "small off" "small len" "small cry"
    using chunks_inv_offset [OF inv(1)] e by (auto simp: offset_small numeric_def)
  obtain r0 where r0: "r0 \<in> set cs" "hc_offset r0 = off" "taken r0"
    using chunks_inv_ownE [OF inv(1)] by blast
  let ?args = "[SQL_blob tag, SQL_int len, SQL_int cry, SQL_int off]"
  define clash where "clash \<longleftrightarrow> (\<exists>r \<in> set cs. hc_offset r \<noteq> off \<and> hc_tag r = Some tag)"
  let ?cs = "map (\<lambda>r. if hc_offset r = off then r\<lparr>hc_tag := Some tag, hc_length := len, hc_crypto := cry, hc_allocated := 1\<rparr> else r) cs"
  let ?rel = "map (\<lambda>r. if hc_offset r = off then r\<lparr>hc_allocated := 0\<rparr> else r) cs"
  have v: "stmt_value store_slot ''bddd'' ?args t = Some (if clash then Inl Stmt_constraint
      else Inr (t\<lparr>ht_chunks := Some ?cs\<rparr>, changes (length (filter (\<lambda>r. hc_offset r = off) cs))))"
    using i(2) sm r0 by (auto simp: store_slot_def stmt_eval row_offsets_def clash_def)
  from i(1) v show thesis
  proof (cases rule: stmt_do_cases)
    case (ok db' t' rows)
    then have nc: "\<not> clash" and t': "t' = t\<lparr>ht_chunks := Some ?cs\<rparr>" and "rows \<noteq> []"
      by (auto simp: changes_def split: if_splits)
    then have r: "query_has_row db'" "\<not> query_constrained db'"
      using ok(5) by (simp_all add: query_has_row_def query_constrained_def)
    have "row_tags ?cs = insert tag (row_tags cs)"
      by (rule row_tags_store) (use r0 chunks_inv_taken [OF inv(1)] in \<open>auto simp: taken_def\<close>)
    moreover have "row_offsets ?cs = row_offsets cs"
      by (rule row_offsets_map) simp
    moreover have "tagged_rows cs \<subseteq> set ?cs"
      by (rule tagged_rows_map) (use chunks_inv_taken [OF inv(1)] in \<open>auto simp: taken_def\<close>)
    ultimately have "retagged cs {tag} ?cs"
      by (simp add: retagged_def grown_def)
    moreover have "chunks_inv own E ?cs"
      using chunks_inv_store [OF inv(1,2) e(1)] nc by (auto simp: clash_def)
    ultimately show thesis
      using ok r t' by (intro that [of True db']) (auto simp: flush_row_def)
  next
    case (constraint db')
    then have cl: clash and c: "query_constrained db'"
      by (auto simp: query_constrained_def split: if_splits)
    have v2: "stmt_value release_offset ''d'' [SQL_int off] t =
        Some (Inr (t\<lparr>ht_chunks := Some ?rel\<rparr>, changes (length (filter (\<lambda>r. hc_offset r = off) cs))))"
      using i(2) sm by (simp add: release_offset_def stmt_eval)
    have eq: "flush_row [SQL_blob tag, SQL_int off, SQL_int len, SQL_int cry] db = query_do db' release_offset ''d'' [SQL_int off]"
      using constraint(1) c by (simp add: flush_row_def)
    have "tag \<in> row_tags cs"
      using cl by (auto simp: clash_def row_tags_def)
    moreover have "retagged cs {} ?rel"
      by (rule retagged_same) (use chunks_inv_taken [OF inv(1)] in \<open>auto simp: taken_def\<close>)
    ultimately have rel: "chunks_inv own E ?rel" "retagged cs {tag} ?rel"
      using chunks_inv_release [of "{off}" own E cs] inv by (auto simp: retagged_def grown_def)
    from constraint(3) v2 show thesis
    proof (cases rule: stmt_do_cases)
      case (ok db2 t2 rows)
      then show thesis
        using eq rel later_trans [OF constraint(4) ok(4)] by (intro that [of True db2]) auto
    next
      case (fail db2)
      from failing_later [OF constraint(4) fail(3) [of True]] fail(1) eq show thesis
        by (intro that [of False db2]) auto
    qed simp
  next
    case (fail db')
    have "failing t0 k True db db'"
      using fail(3) [of True] by simp
    then show thesis
      using fail by (intro that [of False db']) (auto simp: flush_row_def failing_def)
  qed
qed

text \<open>The rows that the loop goes through.\<close>

definition slot_row :: "hoard_slot \<Rightarrow> sqlrow" where
  "slot_row s = [SQL_blob (the (sl_tag s)), SQL_int (sl_offset s), SQL_int (sl_length s), SQL_int (sl_crypto s)]"

definition filled :: "hoard_slot list \<Rightarrow> hoard_slot list" where
  "filled ss = filter (\<lambda>s. sl_tag s \<noteq> None) ss"

definition empties :: "hoard_slot list \<Rightarrow> hoard_slot list" where
  "empties ss = filter (\<lambda>s. sl_tag s = None) ss"

definition slot_ok :: "entry_pred \<Rightarrow> hoard_slot \<Rightarrow> bool" where
  "slot_ok E s \<longleftrightarrow> (\<forall>tag. sl_tag s = Some tag \<longrightarrow> E tag (sl_offset s) (sl_length s) (sl_crypto s))"

text \<open>The state of the loop: \<open>R\<close> are the slots still to come and \<open>T\<close> the tags already stored.\<close>

definition flushing :: "hoard_tables \<Rightarrow> int set \<Rightarrow> entry_pred \<Rightarrow> hoard_row list \<Rightarrow> bytes set \<Rightarrow> hoard_slot list \<Rightarrow> hoard_tables \<Rightarrow> bool" where
  "flushing t own E cs0 T R t' \<longleftrightarrow> (\<exists>cs tags. t' = t\<lparr>ht_chunks := Some cs\<rparr> \<and> chunks_inv (slot_offsets R \<union> own) E cs \<and> retagged cs0 tags cs
     \<and> tags \<union> slot_tags R = T \<and> distinct (map sl_offset R) \<and> slot_offsets R \<inter> own = {} \<and> (\<forall>s \<in> set R. sl_tag s \<noteq> None \<and> slot_ok E s))"

lemma flush_step_run:
  assumes f: "flushing t own E cs0 T (s # R) t1" and i: "inside t0 k t1 db" and q: "q_rows q = slot_row s # map slot_row R" and n: "numeric E"
  shows "\<exists>ok db'. flush_step q db = Some (ok, db') \<and>
    (if ok then \<exists>t'. inside t0 k t' db' \<and> later db db' \<and> flushing t own E cs0 T R t' else failing t0 k True db db')"
proof -
  obtain cs tags where c: "t1 = t\<lparr>ht_chunks := Some cs\<rparr>" "chunks_inv (slot_offsets (s # R) \<union> own) E cs" "retagged cs0 tags cs"
      "tags \<union> slot_tags (s # R) = T" "distinct (map sl_offset (s # R))" "slot_offsets (s # R) \<inter> own = {}"
      "\<forall>s \<in> set (s # R). sl_tag s \<noteq> None \<and> slot_ok E s"
    using f unfolding flushing_def by blast
  obtain tag where tag: "sl_tag s = Some tag"
    using c(7) by auto
  let ?own = "slot_offsets R \<union> own"
  have e: "E tag (sl_offset s) (sl_length s) (sl_crypto s)"
    using c(7) tag by (simp add: slot_ok_def)
  have sm: "small (sl_offset s)" "small (sl_length s)" "small (sl_crypto s)"
    using chunks_inv_offset [OF c(2), of "sl_offset s"] e n by (auto simp: offset_small slot_offsets_def numeric_def)
  have inv: "chunks_inv (insert (sl_offset s) ?own) E cs" "sl_offset s \<notin> ?own"
    using c(2,5,6) by (auto simp: slot_offsets_def)
  have row: "query_row (Some q) ''bddd'' = Some [SQL_blob tag, SQL_int (sl_offset s), SQL_int (sl_length s), SQL_int (sl_crypto s)]"
    using q tag sm by (simp add: query_row_def slot_row_def query_column_def)
  have tags: "tags \<union> {tag} \<union> slot_tags R = T"
    using tag c(4) by (auto simp: slot_tags_def)
  have "ht_chunks t1 = Some cs"
    using c(1) by simp
  then obtain ok db' where
      o: "flush_row [SQL_blob tag, SQL_int (sl_offset s), SQL_int (sl_length s), SQL_int (sl_crypto s)] db = Some (ok, db')"
      "\<not> ok \<Longrightarrow> failing t0 k True db db'"
      "ok \<Longrightarrow> \<exists>cs'. inside t0 k (t1\<lparr>ht_chunks := Some cs'\<rparr>) db' \<and> later db db' \<and> chunks_inv ?own E cs' \<and> retagged cs {tag} cs'"
    by (rule flush_row_run [OF i _ inv e n]) blast
  have "\<exists>t'. inside t0 k t' db' \<and> later db db' \<and> flushing t own E cs0 T R t'" if okv: ok
  proof -
    obtain cs' where "inside t0 k (t1\<lparr>ht_chunks := Some cs'\<rparr>) db'" "later db db'" "chunks_inv ?own E cs'" "retagged cs {tag} cs'"
      using o(3) [OF okv] by blast
    moreover have "retagged cs0 (tags \<union> {tag}) cs'"
      by (rule retagged_trans [OF c(3) calculation(4)])
    moreover have "flushing t own E cs0 T R (t1\<lparr>ht_chunks := Some cs'\<rparr>)"
      unfolding flushing_def
    proof (rule exI [of _ cs'], rule exI [of _ "tags \<union> {tag}"], intro conjI)
      show "tags \<union> {tag} \<union> slot_tags R = T"
        by (rule tags)
    qed (use c(1,5-7) calculation(3,5) in \<open>simp_all add: slot_offsets_def\<close>)
    ultimately show ?thesis by blast
  qed
  with o(1,2) row show ?thesis
    by (auto simp: flush_step_def)
qed

text \<open>The invariant of the shared table with the slots of one process, where \<open>others\<close> are the slots of the others.\<close>

definition hoard_inv :: "int set \<Rightarrow> entry_pred \<Rightarrow> hoard_row list \<Rightarrow> hoard_slot list \<Rightarrow> bool" where
  "hoard_inv others E cs ss \<longleftrightarrow> chunks_inv (slot_offsets ss \<union> others) E cs \<and> distinct (map sl_offset ss) \<and> slot_offsets ss \<inter> others = {}
     \<and> (\<forall>s \<in> set ss. slot_ok E s)"

abbreviation with_rows :: "hoard_tables \<Rightarrow> hoard_row list \<Rightarrow> hoard_slot list \<Rightarrow> hoard_tables" where
  "with_rows t cs ss \<equiv> t\<lparr>ht_chunks := Some cs, ht_slots := Some ss\<rparr>"

lemma filled_rows:
  "concat (map (\<lambda>s. case sl_tag s of None \<Rightarrow> [] | Some tag \<Rightarrow> [[SQL_blob tag, SQL_int (sl_offset s), SQL_int (sl_length s), SQL_int (sl_crypto s)]]) ss)
    = map slot_row (filled ss)"
  by (induction ss) (auto simp: filled_def slot_row_def split: option.splits)

lemma filled_offsets: "slot_offsets ss = slot_offsets (filled ss) \<union> slot_offsets (empties ss)"
  unfolding slot_offsets_def image_Un [symmetric] filled_def empties_def set_filter by (rule arg_cong [where f = "image sl_offset"]) auto

lemma filled_tags: "slot_tags (filled ss) = slot_tags ss"
  by (auto simp: filled_def slot_tags_def)

lemma filled_distinct:
  assumes "distinct (map sl_offset ss)"
  shows "distinct (map sl_offset (filled ss))" "slot_offsets (filled ss) \<inter> slot_offsets (empties ss) = {}"
proof -
  have "inj_on sl_offset (set ss)"
    using assms by (simp add: distinct_map)
  then have "sl_offset ` set (filled ss) \<inter> sl_offset ` set (empties ss) = sl_offset ` (set (filled ss) \<inter> set (empties ss))"
    by (rule inj_on_image_Int [symmetric]) (auto simp: filled_def empties_def)
  moreover have "set (filled ss) \<inter> set (empties ss) = {}"
    by (auto simp: filled_def empties_def)
  ultimately show "slot_offsets (filled ss) \<inter> slot_offsets (empties ss) = {}"
    by (simp add: slot_offsets_def)
  show "distinct (map sl_offset (filled ss))"
    using assms by (simp add: filled_def distinct_map_filter)
qed

lemma flush_tail_run:
  assumes i: "inside t0 0 t db" "ht_chunks t = Some cs" "ht_slots t = Some ss"
    and inv: "chunks_inv (slot_offsets (empties ss) \<union> others) E cs" "slot_offsets (empties ss) \<inter> others = {}"
  shows "runs t0 True db (do {
      (ok, db) \<leftarrow> query_do db release_empty [] [];
      if \<not> ok then Some (Inl PK_IOERR, db)
      else do {
        (ok, db) \<leftarrow> query_do db clear_slots [] [];
        Some (if ok then Inr () else Inl PK_IOERR, db)
      }
    }) (\<lambda>_ db'. \<exists>cs'. inside t0 0 (with_rows t cs' []) db' \<and> chunks_inv others E cs' \<and> retagged cs {} cs')"
proof (rule runs_do [OF i(1)])
  let ?cs = "map (\<lambda>r. if hc_offset r \<in> slot_offsets (empties ss) then r\<lparr>hc_allocated := 0\<rparr> else r) cs"
  show "stmt_value release_empty [] [] t =
      Some (Inr (t\<lparr>ht_chunks := Some ?cs\<rparr>, changes (length (filter (\<lambda>r. hc_offset r \<in> slot_offsets (empties ss)) cs))))"
    using i by (simp add: release_empty_def stmt_eval empties_def)
  fix t' rows db'
  assume "Inr (t\<lparr>ht_chunks := Some ?cs\<rparr>, changes (length (filter (\<lambda>r. hc_offset r \<in> slot_offsets (empties ss)) cs))) = Inr (t', rows)"
    and i': "inside t0 0 t' db'"
  then have t': "t' = t\<lparr>ht_chunks := Some ?cs\<rparr>"
    by simp
  have "chunks_inv others E ?cs"
    by (rule chunks_inv_release [OF inv])
  moreover have "retagged cs {} ?cs"
    by (rule retagged_same) (use chunks_inv_taken [OF inv(1)] in \<open>auto simp: taken_def\<close>)
  ultimately show "runs t0 True db' (do { (ok, db) \<leftarrow> query_do db' clear_slots [] []; Some (if ok then Inr () else Inl PK_IOERR, db) })
      (\<lambda>_ db'. \<exists>cs'. inside t0 0 (with_rows t cs' []) db' \<and> chunks_inv others E cs' \<and> retagged cs {} cs')"
    by (intro runs_do_last [OF i', where v = "Inr (with_rows t ?cs [], changes (length ss))"])
      (auto simp: t' clear_slots_def stmt_eval i)
qed simp_all

lemma flush_slot_rows_run:
  assumes i: "inside t0 0 t db" "ht_chunks t = Some cs" "ht_slots t = Some ss" and h: "hoard_inv others E cs ss" "numeric E"
  shows "runs t0 True db (flush_slot_rows db) (\<lambda>_ db'. \<exists>cs'. inside t0 0 (with_rows t cs' []) db' \<and> chunks_inv others E cs'
    \<and> retagged cs (slot_tags ss) cs')"
  unfolding flush_slot_rows_def
proof (rule runs_scan [where enc = slot_row and R = "filled ss"
      and I = "flushing t (slot_offsets (empties ss) \<union> others) E cs (slot_tags ss)", OF i(1)])
  have empty: "slot_offsets (empties ss) \<inter> others = {}"
    using h(1) filled_offsets [of ss] by (auto simp: hoard_inv_def)
  show "stmt_value sel_filled_slots [] [] t = Some (Inr (t, map slot_row (filled ss)))"
    using i(3) by (simp add: sel_filled_slots_def stmt_eval filled_rows)
  have "chunks_inv (slot_offsets (filled ss) \<union> (slot_offsets (empties ss) \<union> others)) E cs"
    using h(1) filled_offsets [of ss] by (simp add: hoard_inv_def Un_assoc)
  moreover have "distinct (map sl_offset (filled ss))" "slot_offsets (filled ss) \<inter> (slot_offsets (empties ss) \<union> others) = {}"
      "\<forall>s \<in> set (filled ss). sl_tag s \<noteq> None \<and> slot_ok E s"
    using h(1) filled_offsets [of ss] filled_distinct [of ss] by (auto simp: hoard_inv_def filled_def)
  ultimately show "flushing t (slot_offsets (empties ss) \<union> others) E cs (slot_tags ss) (filled ss) t"
    unfolding flushing_def
    by - (rule exI [of _ cs], rule exI [of _ "{}"], simp add: i(2) filled_tags retagged_def grown_refl)
  show "runs t0 True db' (do {
       (ok, db) \<leftarrow> query_do db' release_empty [] [];
       if \<not> ok then Some (Inl PK_IOERR, db)
       else do {
         (ok, db) \<leftarrow> query_do db clear_slots [] [];
         Some (if ok then Inr () else Inl PK_IOERR, db)
       }
     }) (\<lambda>_ db'. \<exists>cs'. inside t0 0 (with_rows t cs' []) db' \<and> chunks_inv others E cs' \<and> retagged cs (slot_tags ss) cs')"
    if f: "flushing t (slot_offsets (empties ss) \<union> others) E cs (slot_tags ss) [] t'" and i': "inside t0 0 t' db'" for t' db'
  proof -
    obtain cs1 where c: "t' = t\<lparr>ht_chunks := Some cs1\<rparr>" "chunks_inv (slot_offsets (empties ss) \<union> others) E cs1" "retagged cs (slot_tags ss) cs1"
      using f by (auto simp: flushing_def slot_offsets_def slot_tags_def)
    show ?thesis
    proof (rule runs_mono [OF flush_tail_run [OF i' _ _ c(2) empty]])
      show "\<exists>cs'. inside t0 0 (with_rows t cs' []) db2 \<and> chunks_inv others E cs' \<and> retagged cs (slot_tags ss) cs'"
        if "\<exists>cs'. inside t0 0 (with_rows t' cs' []) db2 \<and> chunks_inv others E cs' \<and> retagged cs1 {} cs'" for db2
        using that retagged_trans [OF c(3), of "{}"] by (auto simp: c(1))
    qed (use i c(1) in simp_all)
  qed
qed (use flush_step_run [OF _ _ _ h(2)] in auto)

section \<open>Taking slots\<close>

text \<open>Room for the offsets of one expansion below the limit of an \<^verbatim>\<open>int\<close>.\<close>

definition room :: "hoard_row list \<Rightarrow> bool" where
  "room cs \<longleftrightarrow> (\<forall>off \<in> row_offsets cs. off + 65536 < 2 ^ 31)"

lemma slot_offsets_append [simp]: "slot_offsets (ss @ ss') = slot_offsets ss \<union> slot_offsets ss'"
  by (auto simp: slot_offsets_def)

lemma new_slots [simp]: "distinct (map (sl_offset \<circ> new_slot) offs) = distinct offs" "slot_offsets (map new_slot offs) = set offs" "map sl_offset (map new_slot offs) = offs"
    "slot_ok E (new_slot off)" "sl_tag (new_slot off) = None" "sl_offset (new_slot off) = off"
  by (simp_all add: slot_offsets_def new_slot_def slot_ok_def image_image comp_def)

lemma add_slots_run:
  assumes "inside t0 0 t db" "ht_slots t = Some ss" "distinct offs" "\<forall>off \<in> set offs. small off \<and> off \<notin> slot_offsets ss"
  shows "runs t0 True db (add_slots offs db) (\<lambda>_ db'. inside t0 0 (t\<lparr>ht_slots := Some (ss @ map new_slot offs)\<rparr>) db')"
  using assms
proof (induction offs arbitrary: t db ss)
  case Nil
  have same: "t\<lparr>ht_slots := Some ss\<rparr> = t"
    using Nil.prems(2) by simp
  show ?case
    using Nil.prems(1) by (simp add: runs_return same)
next
  case (Cons off offs)
  let ?t = "t\<lparr>ht_slots := Some (ss @ [new_slot off])\<rparr>"
  show ?case
    unfolding add_slots.simps
  proof (rule runs_do [OF Cons.prems(1)])
    show "stmt_value ins_slot ''d'' [SQL_int off] t = Some (Inr (?t, changes 1))"
      using Cons.prems by (simp add: ins_slot_def stmt_eval)
    fix t' rows db'
    assume "Inr (?t, changes 1) = Inr (t', rows)" "inside t0 0 t' db'"
    then have "runs t0 True db' (add_slots offs db') (\<lambda>_ db'. inside t0 0 (?t\<lparr>ht_slots := Some ((ss @ [new_slot off]) @ map new_slot offs)\<rparr>) db')"
      using Cons.prems(3,4) by (intro Cons.IH) (auto simp: slot_offsets_def)
    then show "runs t0 True db' (add_slots offs db') (\<lambda>_ db'. inside t0 0 (t\<lparr>ht_slots := Some (ss @ map new_slot (off # offs))\<rparr>) db')"
      by simp
  qed simp_all
qed

text \<open>The first offset beyond the table.\<close>

definition next_offset :: "hoard_row list \<Rightarrow> int" where
  "next_offset cs = (if cs = [] then 0 else Max (row_offsets cs) + 256)"

definition new_offsets :: "hoard_row list \<Rightarrow> nat \<Rightarrow> int list" where
  "new_offsets cs n = map (\<lambda>i. next_offset cs + int i * 256) [0..<n]"

lemma new_offsets_ok:
  assumes "chunks_inv own E cs" "room cs" "n \<le> 256"
  shows "distinct (new_offsets cs n)" "off \<in> set (new_offsets cs n) \<Longrightarrow> offset_ok off \<and> off \<notin> row_offsets cs"
proof -
  show "distinct (new_offsets cs n)"
    by (simp add: new_offsets_def distinct_map inj_on_def)
  assume "off \<in> set (new_offsets cs n)"
  then obtain i where i: "i < n" "off = next_offset cs + int i * 256"
    by (auto simp: new_offsets_def)
  show "offset_ok off \<and> off \<notin> row_offsets cs"
  proof (cases "cs = []")
    case True
    with i assms(3) show ?thesis
      by (simp add: next_offset_def offset_ok_def row_offsets_def)
  next
    case False
    have f: "finite (row_offsets cs)" "row_offsets cs \<noteq> {}"
      using False by (auto simp: row_offsets_def)
    then have "Max (row_offsets cs) \<in> row_offsets cs"
      by (rule Max_in)
    then have m: "offset_ok (Max (row_offsets cs))" "Max (row_offsets cs) + 65536 < 2 ^ 31"
      using assms(1,2) by (auto simp: room_def row_offsets_def chunks_inv_def row_ok_def)
    moreover have "off = Max (row_offsets cs) + 256 + int i * 256"
      using False i(2) by (simp add: next_offset_def)
    moreover have "off \<notin> row_offsets cs"
      using Max_ge [OF f(1), of off] calculation(3) by auto
    ultimately show ?thesis
      using i(1) assms(3) by (auto simp: offset_ok_def)
  qed
qed

lemma expand_file_run:
  assumes i: "inside t0 0 t db" "ht_chunks t = Some cs" "ht_slots t = Some (map new_slot old)"
    and h: "hoard_inv others E cs (map new_slot old)" "room cs" and n: "0 < n" "n \<le> 256"
  shows "runs t0 True db (expand_file 256 (int n) db) (\<lambda>_ db'. \<exists>cs' new. inside t0 0 (with_rows t cs' (map new_slot new)) db'
    \<and> hoard_inv others E cs' (map new_slot new) \<and> new \<noteq> [] \<and> grown cs {} cs')"
proof -
  let ?offs = "new_offsets cs n"
  let ?max = "if cs = [] then SQL_null else SQL_int (Max (row_offsets cs))"
  have c: "chunks_inv (set old \<union> others) E cs" "distinct old" "set old \<inter> others = {}"
    using h(1) by (simp_all add: hoard_inv_def)
  note offs = new_offsets_ok [OF c(1) h(2) n(2)]
  have rows: "set old \<subseteq> row_offsets cs" "others \<subseteq> row_offsets cs"
    using chunks_inv_offsets [OF c(1)] by simp_all
  have v: "stmt_value sel_max_offset [] [] t = Some (Inr (t, [[?max]]))"
    using i(2) by (simp add: sel_max_offset_def stmt_eval)
  from i(1) v show ?thesis
  proof (cases rule: stmt_row_cases [where good = True])
    case (row q db1)
    let ?db = "query_free (Some q) db1"
    note in1 = inside_free [OF row(4)] and lt = later_freeI [OF row(5)]
    have start: "query_row (Some q) ''d'' = Some [SQL_int (if cs = [] then 0 else Max (row_offsets cs))]"
    proof -
      have "small (Max (row_offsets cs))" if "cs \<noteq> []"
      proof -
        have "Max (row_offsets cs) \<in> row_offsets cs"
          using that by (intro Max_in) (auto simp: row_offsets_def)
        then show ?thesis
          using c(1) by (auto simp: row_offsets_def chunks_inv_def row_ok_def offset_small)
      qed
      then show ?thesis
        using row(2) by (simp add: query_row_def query_column_def)
    qed
    have type: "query_column_types (Some q) = Some (if cs = [] then ''0'' else ''d'')"
      using row(2) by (simp add: query_column_types_def)
    have eq: "expand_file 256 (int n) db = do {
        (r, db) \<leftarrow> add_slots ?offs ?db;
        (case r of Inl e \<Rightarrow> Some (Inl e, db)
         | Inr _ \<Rightarrow> do { (ok, db) \<leftarrow> query_do db expand_chunks [] []; Some (if ok then Inr () else Inl PK_IOERR, db) })
      }"
      using row(1,6) start type by (simp add: expand_file_def Let_def new_offsets_def next_offset_def)
    let ?new = "old @ ?offs"
    let ?t = "t\<lparr>ht_slots := Some (map new_slot ?new)\<rparr>"
    have "runs t0 True ?db (add_slots ?offs ?db) (\<lambda>_ db'. inside t0 0 (t\<lparr>ht_slots := Some (map new_slot old @ map new_slot ?offs)\<rparr>) db')"
      by (rule add_slots_run [OF in1 i(3) offs(1)]) (use offs(2) offset_small rows in auto)
    then have a: "runs t0 True ?db (add_slots ?offs ?db) (\<lambda>_ db'. inside t0 0 ?t db')"
      by simp
    have flt: "filter (\<lambda>off. off \<notin> row_offsets cs) old = []" "filter (\<lambda>off. off \<notin> row_offsets cs) ?offs = ?offs"
      using rows(1) offs(2) by (auto simp: filter_id_conv filter_empty_conv)
    have hinv: "hoard_inv others E (cs @ map new_row ?offs) (map new_slot ?new)"
      using chunks_inv_expand [OF c(1) offs] c offs rows by (auto simp: hoard_inv_def Un_ac)
    have tags: "grown cs {} (cs @ map new_row ?offs)"
      by (auto simp: grown_def row_tags_def new_row_def tagged_rows_def)
    have "?new \<noteq> []"
      using n(1) by (simp add: new_offsets_def)
    have last: "runs t0 True db' (do { (ok, db) \<leftarrow> query_do db' expand_chunks [] []; Some (if ok then Inr () else Inl PK_IOERR, db) })
        (\<lambda>_ db'. \<exists>cs' new. inside t0 0 (with_rows t cs' (map new_slot new)) db'
          \<and> hoard_inv others E cs' (map new_slot new) \<and> new \<noteq> [] \<and> grown cs {} cs')" if i': "inside t0 0 ?t db'" for db'
    proof (rule runs_do_last [OF i'])
      show "stmt_value expand_chunks [] [] ?t = Some (Inr (with_rows t (cs @ map new_row ?offs) (map new_slot ?new), changes (length ?offs)))"
        using i(2) flt by (simp add: expand_chunks_def stmt_eval comp_def)
    qed (use hinv tags \<open>?new \<noteq> []\<close> in blast)+
    show ?thesis
      unfolding eq by (rule runs_later [OF lt runs_bind [OF a last]])
  next
    case (fail db1)
    then show ?thesis
      by (simp add: expand_file_def runs_fail)
  qed
qed

lemma expand_slot_cache_run:
  assumes i: "inside t0 0 t db" "ht_chunks t = Some cs" "ht_slots t = Some []"
    and h: "chunks_inv others E cs" "room cs" and p: "p_chunksize p = 131072"
  shows "runs t0 True db (expand_slot_cache p db) (\<lambda>_ db'. \<exists>cs' new. inside t0 0 (with_rows t cs' (map new_slot new)) db'
    \<and> hoard_inv others E cs' (map new_slot new) \<and> new \<noteq> [] \<and> grown cs {} cs')"
proof -
  define old where "old = take 256 (map hc_offset (filter (\<lambda>r. hc_allocated r = 0) cs))"
  let ?t1 = "t\<lparr>ht_slots := Some (map new_slot old)\<rparr>"
  have old: "length old \<le> 256" "distinct old" "off \<in> set old \<Longrightarrow> \<exists>r \<in> set cs. hc_offset r = off \<and> hc_allocated r = 0" for off
    using h(1) by (auto simp: old_def chunks_inv_def distinct_map_filter dest!: in_set_takeD)
  have free: "set old \<inter> others = {}"
  proof -
    have "False" if off: "off \<in> set old" "off \<in> others" for off
    proof -
      obtain r where "r \<in> set cs" "hc_offset r = off" "hc_allocated r = 0"
        using old(3) [OF off(1)] by blast
      with chunks_inv_taken [OF h(1), of r] off(2) show False
        by (simp add: taken_def)
    qed
    then show ?thesis by blast
  qed
  have v: "stmt_value reclaim_slots ''d'' [SQL_int EXPAND_CHUNKS] t = Some (Inr (?t1, [[SQL_int (int (length old))]]))"
    using i(2,3) by (simp add: reclaim_slots_def stmt_eval EXPAND_CHUNKS_def old_def slot_offsets_def)
  from i(1) v show ?thesis
  proof (cases rule: stmt_row_cases [where good = True])
    case (row q db1)
    let ?db = "query_free (Some q) db1"
    note in1 = inside_free [OF row(4)] and lt = later_freeI [OF row(5)]
    have "query_row (Some q) ''d'' = Some [SQL_int (int (length old))]"
      using row(2) old(1) by (simp add: query_row_def query_column_def)
    then have eq: "expand_slot_cache p db = do {
        (ok, db) \<leftarrow> query_do ?db mark_allocated [] [];
        if \<not> ok then Some (Inl PK_IOERR, db)
        else if EXPAND_CHUNKS - int (length old) = 0 then Some (Inr (), db)
        else expand_file 256 (EXPAND_CHUNKS - int (length old)) db
      }"
      using row(1) p by (simp add: expand_slot_cache_def cong: if_cong)
    let ?cs = "map (\<lambda>r. if hc_offset r \<in> set old then r\<lparr>hc_allocated := 1\<rparr> else r) cs"
    let ?n = "changes (length (filter (\<lambda>r. hc_offset r \<in> set old) cs))"
    have untagged: "hc_tag r = None" if r: "r \<in> set cs" "hc_offset r \<in> set old" for r
    proof -
      obtain r' where r': "r' \<in> set cs" "hc_offset r' = hc_offset r" "hc_allocated r' = 0"
        using old(3) [OF r(2)] by blast
      have "hc_tag r' = None"
        using chunks_inv_rows [OF h(1) r'(1)] r'(3) by (simp add: row_ok_def)
      then show ?thesis
        using chunks_inv_off [OF h(1) r'(1) r(1) r'(2)] by simp
    qed
    have "retagged cs {} ?cs"
    proof (rule retagged_same, simp, simp)
      fix r
      assume "r \<in> set cs" "hc_tag r \<noteq> None"
      with untagged [of r] show "(if hc_offset r \<in> set old then r\<lparr>hc_allocated := 1\<rparr> else r) = r"
        by auto
    qed
    then have tags: "grown cs {} ?cs"
      by (simp add: retagged_def)
    have offs: "row_offsets ?cs = row_offsets cs"
      by (rule row_offsets_map) simp
    have hinv: "hoard_inv others E ?cs (map new_slot old)"
      using chunks_inv_reclaim [OF h(1), of "set old"] old(2,3) free by (auto simp: hoard_inv_def)
    show ?thesis
      unfolding eq
    proof (rule runs_later [OF lt runs_do [OF in1]])
      show "stmt_value mark_allocated [] [] ?t1 = Some (Inr (with_rows t ?cs (map new_slot old), ?n))"
        using i(2) by (simp add: mark_allocated_def stmt_eval)
      fix t' rows db'
      assume "Inr (with_rows t ?cs (map new_slot old), ?n) = Inr (t', rows)" "inside t0 0 t' db'"
      then have i': "inside t0 0 (with_rows t ?cs (map new_slot old)) db'"
        by auto
      show "runs t0 True db' (if EXPAND_CHUNKS - int (length old) = 0 then Some (Inr (), db')
          else expand_file 256 (EXPAND_CHUNKS - int (length old)) db') (\<lambda>_ db'. \<exists>cs' new. inside t0 0 (with_rows t cs' (map new_slot new)) db'
            \<and> hoard_inv others E cs' (map new_slot new) \<and> new \<noteq> [] \<and> grown cs {} cs')"
      proof (cases "length old = 256")
        case True
        then have "old \<noteq> []" by auto
        with True i' hinv tags show ?thesis
          by (auto simp: EXPAND_CHUNKS_def intro!: runs_return)
      next
        case False
        then have n: "0 < 256 - length old" "EXPAND_CHUNKS - int (length old) = int (256 - length old)"
          using old(1) by (simp_all add: EXPAND_CHUNKS_def of_nat_diff)
        have "runs t0 True db' (expand_file 256 (int (256 - length old)) db')
            (\<lambda>_ db'. \<exists>cs' new. inside t0 0 (with_rows (with_rows t ?cs (map new_slot old)) cs' (map new_slot new)) db'
              \<and> hoard_inv others E cs' (map new_slot new) \<and> new \<noteq> [] \<and> grown ?cs {} cs')"
          by (rule expand_file_run [OF i' _ _ hinv]) (use h(2) offs n in \<open>simp_all add: room_def\<close>)
        then have "runs t0 True db' (expand_file 256 (int (256 - length old)) db')
            (\<lambda>_ db'. \<exists>cs' new. inside t0 0 (with_rows t cs' (map new_slot new)) db'
              \<and> hoard_inv others E cs' (map new_slot new) \<and> new \<noteq> [] \<and> grown cs {} cs')"
          using grown_trans [OF tags, of "{}"] by (elim runs_mono) auto
        then show ?thesis
          using n False by simp
      qed
    qed simp_all
  next
    case (fail db1)
    then show ?thesis
      by (simp add: expand_slot_cache_def runs_fail)
  qed
qed

lemma refill_slots_run:
  assumes i: "inside t0 0 t db" "ht_chunks t = Some cs" "ht_slots t = Some ss"
    and h: "hoard_inv others E cs ss" "numeric E" "room cs" and p: "p_chunksize p = 131072"
  shows "runs t0 True db (refill_slots p db) (\<lambda>_ db'. \<exists>cs' new. inside t0 0 (with_rows t cs' (map new_slot new)) db'
    \<and> hoard_inv others E cs' (map new_slot new) \<and> new \<noteq> [] \<and> grown cs (slot_tags ss) cs')"
  unfolding refill_slots_def
proof (rule runs_bind [OF flush_slot_rows_run [OF i h(1,2)]], elim exE conjE)
  fix db' cs'
  assume c: "inside t0 0 (with_rows t cs' []) db'" "chunks_inv others E cs'" "retagged cs (slot_tags ss) cs'"
  show "runs t0 True db' (expand_slot_cache p db') (\<lambda>_ db'. \<exists>cs' new. inside t0 0 (with_rows t cs' (map new_slot new)) db'
    \<and> hoard_inv others E cs' (map new_slot new) \<and> new \<noteq> [] \<and> grown cs (slot_tags ss) cs')"
  proof (rule runs_mono)
    show "runs t0 True db' (expand_slot_cache p db') (\<lambda>_ db'. \<exists>cs'' new. inside t0 0 (with_rows (with_rows t cs' []) cs'' (map new_slot new)) db'
        \<and> hoard_inv others E cs'' (map new_slot new) \<and> new \<noteq> [] \<and> grown cs' {} cs'')"
      by (rule expand_slot_cache_run [OF c(1) _ _ c(2) _ p]) (use c(3) h(3) in \<open>simp_all add: retagged_def room_def\<close>)
  qed (use c(3) grown_trans [of cs "slot_tags ss" cs' "{}"] in \<open>auto simp: retagged_def\<close>)
qed

section \<open>An empty slot\<close>

lemma find_slot_run:
  assumes i: "inside t0 0 t db" "ht_slots t = Some ss" and sm: "\<forall>s \<in> set ss. small (sl_offset s)"
  shows "runs t0 True db (find_slot db) (\<lambda>r db'. inside t0 0 t db'
    \<and> r = (case empties ss of [] \<Rightarrow> None | s # _ \<Rightarrow> Some (sl_offset s)))"
proof (cases "empties ss")
  case Nil
  have v: "stmt_value sel_empty_slot [] [] t = Some (Inr (t, []))"
    using i(2) Nil by (simp add: sel_empty_slot_def stmt_eval empties_def)
  from i(1) v show ?thesis
  proof (cases rule: stmt_rows_cases)
    case (none db')
    then show ?thesis
      using Nil by (simp add: find_slot_def runs_def query_has_row_def query_ok_def)
  next
    case (fail db')
    have fl: "failing t0 0 True db db'"
      using fail(2) by simp
    then show ?thesis
      using fail(1) runs_fail [OF fl, of PK_IOERR] by (simp add: find_slot_def failing_def)
  qed simp
next
  case (Cons s rest)
  have v: "stmt_value sel_empty_slot [] [] t = Some (Inr (t, [[SQL_int (sl_offset s)]]))"
    using i(2) Cons by (simp add: sel_empty_slot_def stmt_eval empties_def)
  have "s \<in> set (empties ss)"
    using Cons by simp
  then have "small (sl_offset s)"
    using sm by (simp add: empties_def)
  from i(1) v show ?thesis
  proof (cases rule: stmt_row_cases [where good = True])
    case (row q db')
    then have "find_slot db = Some (Inr (Some (sl_offset s)), query_free (Some q) db')"
      using \<open>small (sl_offset s)\<close> by (simp add: find_slot_def query_row_def query_column_def)
    then show ?thesis
      using Cons inside_free [OF row(4)] row(5) by (simp add: runs_def later_free)
  next
    case (fail db')
    then show ?thesis
      by (simp add: find_slot_def runs_fail)
  qed
qed

text \<open>
  After the function the table and the slots are still in order, no tag is lost or added, and the slot that was found is one of the
  process and empty.
\<close>

definition allocated_post ::
    "hoard_tables \<Rightarrow> int set \<Rightarrow> entry_pred \<Rightarrow> hoard_row list \<Rightarrow> hoard_slot list \<Rightarrow> hoard_tables \<Rightarrow> int \<Rightarrow> hoard_tables db \<Rightarrow> bool" where
  "allocated_post t others E cs0 ss0 t0 off db' \<longleftrightarrow> (\<exists>cs ss s. inside t0 0 (with_rows t cs ss) db' \<and> hoard_inv others E cs ss
     \<and> row_tags cs \<union> slot_tags ss = row_tags cs0 \<union> slot_tags ss0 \<and> tagged_rows cs0 \<subseteq> set cs \<and> s \<in> set ss \<and> sl_offset s = off \<and> sl_tag s = None)"

lemma hoard_inv_small: "hoard_inv others E cs ss \<Longrightarrow> s \<in> set ss \<Longrightarrow> small (sl_offset s)"
  using chunks_inv_offset [of "slot_offsets ss \<union> others" E cs "sl_offset s"] by (auto simp: hoard_inv_def slot_offsets_def offset_small)

lemma allocate_slot_found:
  assumes i: "inside t0 0 (with_rows t cs ss) db" and h: "hoard_inv others E cs ss" and e: "empties ss \<noteq> []"
  shows "runs t0 True db (allocate_slot p db) (allocated_post t others E cs ss t0)"
proof -
  obtain s rest where s: "empties ss = s # rest"
    using e by (cases "empties ss") auto
  then have "s \<in> set (empties ss)"
    by simp
  then have m: "s \<in> set ss" "sl_tag s = None"
    by (simp_all add: empties_def)
  show ?thesis
    unfolding allocate_slot.simps [of p db]
  proof (rule runs_bind [OF find_slot_run [OF i]])
    fix r db'
    assume f: "inside t0 0 (with_rows t cs ss) db' \<and> r = (case empties ss of [] \<Rightarrow> None | s # _ \<Rightarrow> Some (sl_offset s))"
    then have "allocated_post t others E cs ss t0 (sl_offset s) db'"
      unfolding allocated_post_def using m h grown_refl [of cs] by (auto simp: grown_def)
    then show "runs t0 True db' (case r of None \<Rightarrow> do { (r, db) \<leftarrow> refill_slots p db'; (case r of Inl e \<Rightarrow> Some (Inl e, db) | Inr _ \<Rightarrow> allocate_slot p db) }
        | Some off \<Rightarrow> Some (Inr off, db')) (allocated_post t others E cs ss t0)"
      using f s by (simp add: runs_return)
  qed (use hoard_inv_small [OF h] in auto)
qed

lemma allocate_slot_run:
  assumes i: "inside t0 0 t db" "ht_chunks t = Some cs" "ht_slots t = Some ss"
    and h: "hoard_inv others E cs ss" "numeric E" "room cs" and p: "p_chunksize p = 131072"
  shows "runs t0 True db (allocate_slot p db) (allocated_post t others E cs ss t0)"
proof (cases "empties ss = []")
  case False
  have same: "with_rows t cs ss = t"
    using i by simp
  show ?thesis
    using allocate_slot_found [OF _ h(1) False, of t0 t] i(1) unfolding same by blast
next
  case True
  show ?thesis
    unfolding allocate_slot.simps [of p db]
  proof (rule runs_bind [OF find_slot_run [OF i(1,3)]])
    fix r db1
    assume "inside t0 0 t db1 \<and> r = (case empties ss of [] \<Rightarrow> None | s # _ \<Rightarrow> Some (sl_offset s))"
    then have i1: "inside t0 0 t db1" and r: "r = None"
      using True by simp_all
    have "runs t0 True db1 (do { (r, db) \<leftarrow> refill_slots p db1; (case r of Inl e \<Rightarrow> Some (Inl e, db) | Inr _ \<Rightarrow> allocate_slot p db) })
        (allocated_post t others E cs ss t0)"
    proof (rule runs_bind [OF refill_slots_run [OF i1 i(2,3) h p]], elim exE conjE)
      fix db2 cs' new
      assume c: "inside t0 0 (with_rows t cs' (map new_slot new)) db2" "hoard_inv others E cs' (map new_slot new)" "new \<noteq> []"
        "grown cs (slot_tags ss) cs'"
      have e: "empties (map new_slot new) \<noteq> []"
        using c(3) by (cases new) (auto simp: empties_def)
      have "allocated_post t others E cs ss t0 off db3" if ap: "allocated_post t others E cs' (map new_slot new) t0 off db3" for off db3
      proof -
        obtain cs2 ss2 s where w: "inside t0 0 (with_rows t cs2 ss2) db3" "hoard_inv others E cs2 ss2"
            "row_tags cs2 \<union> slot_tags ss2 = row_tags cs' \<union> slot_tags (map new_slot new)" "tagged_rows cs' \<subseteq> set cs2"
            "s \<in> set ss2" "sl_offset s = off" "sl_tag s = None"
          using ap unfolding allocated_post_def by (elim exE conjE) blast
        moreover have "row_tags cs2 \<union> slot_tags ss2 = row_tags cs \<union> slot_tags ss" "tagged_rows cs \<subseteq> set cs2"
          using w(3,4) c(4) tagged_rows_trans [of cs cs' cs2] by (auto simp: grown_def slot_tags_def)
        ultimately show ?thesis
          unfolding allocated_post_def by blast
      qed
      then show "runs t0 True db2 (allocate_slot p db2) (allocated_post t others E cs ss t0)"
        by (rule runs_mono [OF allocate_slot_found [OF c(1,2) e]])
    qed
    then show "runs t0 True db1 (case r of None \<Rightarrow> do { (r, db) \<leftarrow> refill_slots p db1; (case r of Inl e \<Rightarrow> Some (Inl e, db) | Inr _ \<Rightarrow> allocate_slot p db) }
        | Some off \<Rightarrow> Some (Inr off, db1)) (allocated_post t others E cs ss t0)"
      using r by simp
  qed (use hoard_inv_small [OF h(1)] in auto)
qed

end
