(* ===== verification/Isr_Hoard_Open.thy ===== *)
theory Isr_Hoard_Open
  imports Isr_Hoard
begin

text \<open>
  The rest of \<^verbatim>\<open>parcelkeeper/hoard.c\<close>: the index of the hoard cache and its upgrade, the records of parcels and references,
  garbage collection, and how a process starts and stops using the hoard.

  Up to version 7 the table \<^verbatim>\<open>chunks\<close> has a column \<^verbatim>\<open>referenced\<close> in the place of \<^verbatim>\<open>allocated\<close>; the rows have the same type here.
\<close>

section \<open>The index\<close>

definition table_exists :: "string \<Rightarrow> hoard_tables \<Rightarrow> bool" where
  "table_exists n t =
     (if n = ''chunks'' then ht_chunks t \<noteq> None
      else if n = ''chunks_old'' then ht_chunks_old t \<noteq> None
      else if n = ''refs'' then ht_refs t \<noteq> None
      else n = ''parcels'' \<and> ht_parcels t \<noteq> None)"

definition create_index :: "string \<Rightarrow> string \<Rightarrow> hoard_tables sql" where
  "create_index n tab = SQL_stmt (\<lambda>p t.
     if table_exists tab t \<and> n \<notin> fst ` set (ht_indices t) then Inr (t\<lparr>ht_indices := (n, tab) # ht_indices t\<rparr>, []) else Inl Stmt_error)"

definition drop_index :: "string \<Rightarrow> hoard_tables sql" where
  "drop_index n = SQL_stmt (\<lambda>p t.
     if n \<in> fst ` set (ht_indices t) then Inr (t\<lparr>ht_indices := filter (\<lambda>(m, _). m \<noteq> n) (ht_indices t)\<rparr>, []) else Inl Stmt_error)"

definition get_user_version :: "hoard_tables sql" where
  "get_user_version = SQL_stmt (\<lambda>p t. Inr (t, [[SQL_int (ht_version t)]]))"

definition set_user_version :: "hoard_tables sql" where
  "set_user_version = SQL_stmt (\<lambda>p t. Inr (t\<lparr>ht_version := HOARD_INDEX_VERSION\<rparr>, []))"

definition create_parcels :: "hoard_tables sql" where
  "create_parcels = SQL_stmt (\<lambda>p t. if ht_parcels t = None then Inr (t\<lparr>ht_parcels := Some []\<rparr>, []) else Inl Stmt_error)"

definition create_chunks_table :: "hoard_tables sql" where
  "create_chunks_table = SQL_stmt (\<lambda>p t. if ht_chunks t = None then Inr (t\<lparr>ht_chunks := Some []\<rparr>, []) else Inl Stmt_error)"

definition create_refs :: "hoard_tables sql" where
  "create_refs = SQL_stmt (\<lambda>p t. if ht_refs t = None then Inr (t\<lparr>ht_refs := Some []\<rparr>, []) else Inl Stmt_error)"

text \<open>Statements one after another, each of which must succeed.\<close>

fun run_all :: "hoard_tables sql list \<Rightarrow> hdb \<Rightarrow> unit hoard_result" where
  "run_all [] db = Some (Inr (), db)"
| "run_all (s # ss) db = do {
     (ok, db) \<leftarrow> query_do db s [] [];
     if \<not> ok then Some (Inl PK_IOERR, db) else run_all ss db
   }"

definition create_hoard_index :: "hdb \<Rightarrow> unit hoard_result" where
  "create_hoard_index = run_all [set_user_version, create_parcels, create_chunks_table, create_index ''chunks_allocated'' ''chunks'',
     create_refs, create_index ''refs_constraint'' ''refs'', create_index ''refs_bytag'' ''refs'']"

definition rename_chunks :: "hoard_tables sql" where
  "rename_chunks = SQL_stmt (\<lambda>p t. if ht_chunks t = None \<or> ht_chunks_old t \<noteq> None then Inl Stmt_error
     else Inr (t\<lparr>ht_chunks_old := ht_chunks t, ht_chunks := None,
       ht_indices := map (\<lambda>(n, tab). (n, if tab = ''chunks'' then ''chunks_old'' else tab)) (ht_indices t)\<rparr>, []))"

text \<open>The new table is empty, so the constraints are those among the old rows.\<close>

definition copy_chunks :: "hoard_tables sql" where
  "copy_chunks = SQL_stmt (\<lambda>p t. case (ht_chunks t, ht_chunks_old t) of
     (Some cs, Some old) \<Rightarrow>
       (if distinct (map hc_offset (cs @ old)) \<and> distinct (filter (\<lambda>x. x \<noteq> None) (map hc_tag (cs @ old)))
        then Inr (t\<lparr>ht_chunks := Some (cs @ old)\<rparr>, changes (length old)) else Inl Stmt_constraint)
   | _ \<Rightarrow> Inl Stmt_error)"

definition drop_chunks_old :: "hoard_tables sql" where
  "drop_chunks_old = SQL_stmt (\<lambda>p t. if ht_chunks_old t = None then Inl Stmt_error
     else Inr (t\<lparr>ht_chunks_old := None, ht_indices := filter (\<lambda>(_, tab). tab \<noteq> ''chunks_old'') (ht_indices t)\<rparr>, []))"

definition clear_unreferenced :: "hoard_tables sql" where
  "clear_unreferenced = SQL_stmt (\<lambda>p. on_rows (upd_where (\<lambda>r. hc_allocated r = 0 \<and> hc_tag r \<noteq> None)
     (\<lambda>r. r\<lparr>hc_tag := None, hc_length := 0, hc_crypto := 0\<rparr>)))"

definition upgrade_hoard_index :: "int \<Rightarrow> hdb \<Rightarrow> unit hoard_result" where
  "upgrade_hoard_index ver db =
     (if ver \<notin> {5, 6, 7, 8} then Some (Inl PK_BADFORMAT, db)
      else run_all ((if ver \<le> 5 then [drop_index ''chunks_lru'', create_index ''chunks_lru'' ''chunks''] else [])
        @ (if ver \<le> 6 then [create_index ''refs_bytag'' ''refs''] else [])
        @ (if ver \<le> 7 then [rename_chunks, create_chunks_table, copy_chunks, create_index ''chunks_allocated'' ''chunks'', drop_chunks_old,
             clear_unreferenced] else [])
        @ [drop_index ''chunks_allocated'', create_index ''chunks_allocated'' ''chunks'', set_user_version]) db)"

section \<open>Parcels and references\<close>

definition ins_parcel :: "hoard_tables sql" where
  "ins_parcel = SQL_stmt (\<lambda>p t. case (p 1, p 2, p 3, p 4, ht_parcels t) of
     (SQL_text uuid, SQL_text server, SQL_text user, SQL_text name, Some ps) \<Rightarrow>
       (if uuid \<in> (\<lambda>(_, u, _). u) ` set ps then Inr (t, changes 0)
        else Inr (t\<lparr>ht_parcels := Some (ps @ [(if ps = [] then 1 else Max (fst ` set ps) + 1, uuid, server, user, name)])\<rparr>, changes 1))
   | _ \<Rightarrow> Inl Stmt_error)"

definition sel_parcel :: "hoard_tables sql" where
  "sel_parcel = SQL_stmt (\<lambda>p t. case (p 1, ht_parcels t) of
     (SQL_text uuid, Some ps) \<Rightarrow> Inr (t, map (\<lambda>(i, _). [SQL_int i]) (filter (\<lambda>(_, u, _). u = uuid) ps))
   | _ \<Rightarrow> Inl Stmt_error)"

definition upd_parcel :: "hoard_tables sql" where
  "upd_parcel = SQL_stmt (\<lambda>p t. case (p 1, p 2, p 3, p 4, ht_parcels t) of
     (SQL_text server, SQL_text user, SQL_text name, SQL_int ident, Some ps) \<Rightarrow>
       (let c = (\<lambda>(i, _, s, u, n). i = ident \<and> (SQL_text s \<noteq> p 5 \<or> SQL_text u \<noteq> p 6 \<or> SQL_text n \<noteq> p 7)) in
        Inr (t\<lparr>ht_parcels := Some (map (\<lambda>r. if c r then (fst r, fst (snd r), server, user, name) else r) ps)\<rparr>, changes (length (filter c ps))))
   | _ \<Rightarrow> Inl Stmt_error)"

definition parcel_ident_row :: "pk_parcel \<Rightarrow> hdb \<Rightarrow> int hoard_result" where
  "parcel_ident_row p db = do {
     (ok, db) \<leftarrow> query_do db ins_parcel ''SSSS'' [SQL_text (p_uuid p), SQL_text (p_server p), SQL_text (p_user p), SQL_text (p_parcel p)];
     if \<not> ok then Some (Inl PK_IOERR, db)
     else do {
       (_, qry, db) \<leftarrow> query True db sel_parcel ''S'' [SQL_text (p_uuid p)];
       if \<not> query_has_row db then Some (Inl PK_IOERR, db)
       else do {
         row \<leftarrow> query_row qry ''d'';
         (case row of
            [SQL_int ident] \<Rightarrow> do {
              (ok, db) \<leftarrow> query_do (query_free qry db) upd_parcel ''SSSdSSS''
                [SQL_text (p_server p), SQL_text (p_user p), SQL_text (p_parcel p), SQL_int ident,
                 SQL_text (p_server p), SQL_text (p_user p), SQL_text (p_parcel p)];
              Some (if ok then Inr ident else Inl PK_IOERR, db)
            }
          | _ \<Rightarrow> None)
       }
     }
   }"

definition get_parcel_ident :: "pk_parcel \<Rightarrow> hdb \<Rightarrow> ((pk_err + int) \<times> hdb) option" where
  "get_parcel_ident p = in_transaction (parcel_ident_row p)"

text \<open>
  \<open>hoard_sync_refs\<close> runs on the connection of the local cache, with the index of the hoard attached: the tags of the current
  and of the previous keyring, a temporary table, and the references.
\<close>

record sync_tables =
  sy_keys :: "bytes list"
  sy_prev :: "bytes list option"
  sy_newrefs :: "bytes list option"
  sy_indexed :: bool
  sy_refs :: "(int \<times> bytes) list option"

definition make_newrefs :: "(sync_tables \<Rightarrow> bytes list option) \<Rightarrow> sync_tables sql" where
  "make_newrefs keys = SQL_stmt (\<lambda>p t. case (sy_newrefs t, keys t) of
     (None, Some tags) \<Rightarrow> Inr (t\<lparr>sy_newrefs := Some (remdups tags)\<rparr>, []) | _ \<Rightarrow> Inl Stmt_error)"

definition index_newrefs :: "sync_tables sql" where
  "index_newrefs = SQL_stmt (\<lambda>p t. if sy_newrefs t = None \<or> sy_indexed t then Inl Stmt_error else Inr (t\<lparr>sy_indexed := True\<rparr>, []))"

definition del_refs :: "sync_tables sql" where
  "del_refs = SQL_stmt (\<lambda>p t. case (p 1, sy_newrefs t, sy_refs t) of
     (SQL_int ident, Some new, Some refs) \<Rightarrow>
       (let c = (\<lambda>(i, tag). i = ident \<and> tag \<notin> set new) in
        Inr (t\<lparr>sy_refs := Some (filter (\<lambda>r. \<not> c r) refs)\<rparr>, changes (length (filter c refs))))
   | _ \<Rightarrow> Inl Stmt_error)"

definition ins_refs :: "sync_tables sql" where
  "ins_refs = SQL_stmt (\<lambda>p t. case (p 1, sy_newrefs t, sy_refs t) of
     (SQL_int ident, Some new, Some refs) \<Rightarrow>
       (let add = filter (\<lambda>r. r \<notin> set refs) (map (\<lambda>tag. (ident, tag)) new) in
        Inr (t\<lparr>sy_refs := Some (refs @ add)\<rparr>, changes (length add)))
   | _ \<Rightarrow> Inl Stmt_error)"

definition drop_newrefs :: "sync_tables sql" where
  "drop_newrefs = SQL_stmt (\<lambda>p t. if sy_newrefs t = None then Inl Stmt_error else Inr (t\<lparr>sy_newrefs := None, sy_indexed := False\<rparr>, []))"

definition sync_refs_rows :: "bool \<Rightarrow> int \<Rightarrow> sync_tables db \<Rightarrow> unit \<Rightarrow> ((pk_err + unit) \<times> sync_tables db \<times> unit) option" where
  "sync_refs_rows new_chunks ident db w = do {
     (_, db) \<leftarrow> query_do db (if new_chunks then make_newrefs (\<lambda>t. Some (sy_keys t)) else make_newrefs sy_prev) [] [];
     if \<not> query_ok db then Some (Inl PK_IOERR, db, w)
     else do {
       (ok, db) \<leftarrow> query_do db index_newrefs [] [];
       if \<not> ok then Some (Inl PK_IOERR, db, w)
       else do {
         (ok, db) \<leftarrow> (if new_chunks then Some (True, db) else query_do db del_refs ''d'' [SQL_int ident]);
         if \<not> ok then Some (Inl PK_IOERR, db, w)
         else do {
           (ok, db) \<leftarrow> query_do db ins_refs ''d'' [SQL_int ident];
           if \<not> ok then Some (Inl PK_IOERR, db, w)
           else do {
             (ok, db) \<leftarrow> query_do db drop_newrefs [] [];
             if \<not> ok then Some (Inl PK_IOERR, db, w)
             else do { (ok, db) \<leftarrow> commit db; Some (if ok then Inr () else Inl PK_IOERR, db, w) }
           }
         }
       }
     }
   }"

definition hoard_sync_refs :: "bool \<Rightarrow> int \<Rightarrow> bool \<Rightarrow> sync_tables db \<Rightarrow> (pk_err \<times> sync_tables db) option" where
  "hoard_sync_refs dir ident new_chunks db =
     (if \<not> dir then Some (PK_SUCCESS, db)
      else do {
        (r, db, _) \<leftarrow> transact PK_IOERR (sync_refs_rows new_chunks ident) db ();
        Some (case r of Inl e \<Rightarrow> e | Inr _ \<Rightarrow> PK_SUCCESS, db)
      })"

section \<open>Opening\<close>

definition check_hoard_index :: "hdb \<Rightarrow> unit hoard_result" where
  "check_hoard_index db = do {
     (_, qry, db) \<leftarrow> query True db get_user_version [] [];
     if \<not> query_has_row db then Some (Inl PK_IOERR, db)
     else do {
       row \<leftarrow> query_row qry ''d'';
       (case row of
          [SQL_int ver] \<Rightarrow> do {
            let db = query_free qry db;
            (r, db) \<leftarrow> (if ver = 0 then create_hoard_index db
                else if ver < HOARD_INDEX_VERSION then upgrade_hoard_index ver db
                else Some (if HOARD_INDEX_VERSION < ver then Inl PK_BADFORMAT else Inr (), db));
            (case r of Inl e \<Rightarrow> Some (Inl e, db) | Inr _ \<Rightarrow> create_slot_cache db)
          }
        | _ \<Rightarrow> None)
     }
   }"

text \<open>\<open>opened\<close> is what \<^verbatim>\<open>sqlite3_open\<close> gives; \<open>att\<close> and \<open>det\<close> attach the index to the connection \<open>main\<close> of the local cache.\<close>

definition open_hoard_index ::
  "hoard_tables sqlite3 option \<Rightarrow> 'm sql \<Rightarrow> 'm sql \<Rightarrow> 'm db \<Rightarrow> ((pk_err + hdb) \<times> 'm db) option" where
  "open_hoard_index opened att det main = do {
     conn \<leftarrow> sql_conn_open opened;
     (case conn of
        None \<Rightarrow> Some (Inl PK_IOERR, main)
      | Some db \<Rightarrow> do {
          (r, db) \<leftarrow> in_transaction check_hoard_index db;
          (case r of
             Inl e \<Rightarrow> Some (Inl e, main)
           | Inr _ \<Rightarrow> do {
               (ok, main) \<leftarrow> attach att det main;
               Some (if ok then Inr db else Inl PK_IOERR, main)
             })
        })
   }"

section \<open>Cleaning\<close>

text \<open>\<^verbatim>\<open>cleanup_action\<close> of \<^verbatim>\<open>parcelkeeper/util.c\<close>.\<close>

definition cleanup_action :: "'t db \<Rightarrow> 't sql \<Rightarrow> ((pk_err + unit) \<times> 't db) option" where
  "cleanup_action db s = do {
     (ok, qry, db) \<leftarrow> query True db s [] [];
     if \<not> ok then Some (Inl PK_IOERR, db)
     else do { _ \<leftarrow> query_row qry ''d''; Some (Inr (), query_free qry db) }
   }"

definition gc_chunks :: "hoard_tables sql" where
  "gc_chunks = SQL_stmt (\<lambda>p t. case ht_refs t of
     Some refs \<Rightarrow> on_rows (upd_where (\<lambda>r. \<exists>tag. hc_tag r = Some tag \<and> tag \<notin> snd ` set refs) erase_row) t
   | None \<Rightarrow> Inl Stmt_error)"

definition hoard_gc_rows :: "hdb \<Rightarrow> unit hoard_result" where
  "hoard_gc_rows db = cleanup_action db gc_chunks"

definition hoard_gc :: "hdb \<Rightarrow> (pk_err \<times> hdb) option" where
  "hoard_gc db = do {
     (r, db) \<leftarrow> in_transaction hoard_gc_rows db;
     Some (case r of Inl _ \<Rightarrow> PK_IOERR | Inr _ \<Rightarrow> PK_SUCCESS, db)
   }"

definition sel_parcels :: "hoard_tables sql" where
  "sel_parcels = SQL_stmt (\<lambda>p t. case ht_parcels t of
     Some ps \<Rightarrow> Inr (t, map (\<lambda>(i, _). [SQL_int i]) ps) | None \<Rightarrow> Inl Stmt_error)"

definition sel_ref :: "hoard_tables sql" where
  "sel_ref = SQL_stmt (\<lambda>p t. case (p 1, ht_refs t) of
     (SQL_int ident, Some refs) \<Rightarrow> Inr (t, map (\<lambda>(i, _). [SQL_int i]) (take 1 (filter (\<lambda>(i, _). i = ident) refs)))
   | _ \<Rightarrow> Inl Stmt_error)"

definition del_parcel :: "hoard_tables sql" where
  "del_parcel = SQL_stmt (\<lambda>p t. case (p 1, ht_parcels t) of
     (SQL_int ident, Some ps) \<Rightarrow>
       Inr (t\<lparr>ht_parcels := Some (filter (\<lambda>(i, _). i \<noteq> ident) ps)\<rparr>, changes (length (filter (\<lambda>(i, _). i = ident) ps)))
   | _ \<Rightarrow> Inl Stmt_error)"

definition release_orphans :: "hoard_tables sql" where
  "release_orphans = SQL_stmt (\<lambda>p. on_rows (upd_where (\<lambda>r. hc_allocated r = 1 \<and> hc_tag r = None) (\<lambda>r. r\<lparr>hc_allocated := 0\<rparr>)))"

definition clean_parcel :: "hoard_tables query \<Rightarrow> hdb \<Rightarrow> (bool \<times> hdb) option" where
  "clean_parcel q db = do {
     row \<leftarrow> query_row (Some q) ''d'';
     (case row of
        [SQL_int ident] \<Rightarrow> do {
          (ok, db) \<leftarrow> query_do db sel_ref ''d'' [SQL_int ident];
          if ok \<and> \<not> query_has_row db then query_do db del_parcel ''d'' [SQL_int ident] else Some (ok, db)
        }
      | _ \<Rightarrow> None)
   }"

text \<open>\<open>gc\<close> says that the unreferenced chunks are to be dropped as well.\<close>

definition cleanup_rows :: "bool \<Rightarrow> hdb \<Rightarrow> unit hoard_result" where
  "cleanup_rows gc db = do {
     (_, qry, db) \<leftarrow> query True db sel_parcels [] [];
     (ok, qry, db) \<leftarrow> for_rows clean_parcel qry db;
     let db = query_free qry db;
     if \<not> ok then Some (Inl PK_SQLERR, db)
     else if \<not> query_ok db then Some (Inl PK_SQLERR, db)
     else do {
       (r, db) \<leftarrow> cleanup_action db release_orphans;
       (case r of Inl e \<Rightarrow> Some (Inl e, db) | Inr _ \<Rightarrow> if gc then hoard_gc_rows db else Some (Inr (), db))
     }
   }"

definition sel_master :: "hoard_tables sql" where
  "sel_master = SQL_stmt (\<lambda>p t. Inr (t, map (\<lambda>n. [SQL_text n]) (take 1 (filter (\<lambda>n. table_exists n t) [''parcels'', ''chunks'', ''refs'']))))"

text \<open>
  \<open>lock\<close> is the result of the attempt to get the write lock, and \<open>dice\<close> are the two random numbers, of which each is the result
  of \<^verbatim>\<open>g_random_int_range (0, 7)\<close>; the first is the same in every attempt of the transaction.
\<close>

definition hoard_try_cleanup :: "pk_err \<Rightarrow> u32 \<Rightarrow> nat \<times> nat \<Rightarrow> hdb \<Rightarrow> (pk_err \<times> hdb) option" where
  "hoard_try_cleanup lock flags dice db =
     (if lock = PK_BUSY then Some (PK_SUCCESS, db)
      else if lock \<noteq> PK_SUCCESS then Some (lock, db)
      else do {
        (r, db) \<leftarrow> in_transaction (cleanup_rows (flags AND WANT_GC \<noteq> 0 \<and> fst dice = 0)) db;
        (case r of
           Inl e \<Rightarrow> Some (e, db)
         | Inr _ \<Rightarrow>
             if flags AND WANT_GC \<noteq> 0 \<and> snd dice = 0 then do { (_, db) \<leftarrow> vacuum sel_master db; Some (PK_SUCCESS, db) }
             else Some (PK_SUCCESS, db))
      })"

section \<open>Start and end\<close>

text \<open>
  The outcomes of the calls: whether the directory is there or can be made, whether the file can be opened, and the result of the
  attempt to get the read lock.  \<open>parcel_dir\<close> says that the process has a parcel directory.
\<close>

definition hoard_init ::
  "bool \<Rightarrow> pk_parcel option \<Rightarrow> bool \<Rightarrow> bool \<Rightarrow> pk_err \<Rightarrow> bool \<Rightarrow> hoard_tables sqlite3 option \<Rightarrow> 'm sql \<Rightarrow> 'm sql \<Rightarrow> 'm db
    \<Rightarrow> ((pk_err + hdb \<times> int option) \<times> 'm db) option" where
  "hoard_init dir par have_dir opens lock parcel_dir opened att det main =
     (if \<not> dir then Some (Inl PK_INVALID, main)
      else if (case par of None \<Rightarrow> False | Some p \<Rightarrow> p_chunksize p \<noteq> 131072) then Some (Inl PK_INVALID, main)
      else if \<not> have_dir then Some (Inl PK_CALLFAIL, main)
      else if \<not> opens then Some (Inl PK_IOERR, main)
      else if lock \<noteq> PK_SUCCESS then Some (Inl lock, main)
      else do {
        (r, main) \<leftarrow> open_hoard_index opened att det main;
        (case r of
           Inl e \<Rightarrow> Some (Inl e, main)
         | Inr db \<Rightarrow>
             if parcel_dir then do {
               p \<leftarrow> par;
               (r, db) \<leftarrow> get_parcel_ident p db;
               Some (case r of Inl e \<Rightarrow> Inl e | Inr ident \<Rightarrow> Inr (db, Some ident), main)
             }
             else Some (Inr (db, None), main))
      })"

text \<open>What is left of the tables when the connection is closed.\<close>

definition close_hoard :: "hdb \<Rightarrow> hoard_tables" where
  "close_hoard db = (tabs (db_conn db))\<lparr>ht_slots := None\<rparr>"

definition hoard_shutdown :: "pk_err \<Rightarrow> u32 \<Rightarrow> nat \<times> nat \<Rightarrow> hdb \<Rightarrow> hoard_tables option" where
  "hoard_shutdown lock flags dice db = do {
     db \<leftarrow> flush_slot_cache db;
     (_, db) \<leftarrow> hoard_try_cleanup lock flags dice db;
     Some (close_hoard db)
   }"

end
