(* ===== verification/Isr_Hoard_Refs.thy ===== *)
theory Isr_Hoard_Refs
  imports Isr_Hoard_Slots Isr_Hoard_Open
begin

text \<open>
  The references of parcels to chunks: \<open>hoard_sync_refs\<close> makes them agree with a keyring, in one transaction on the connection of the
  local cache.
\<close>

definition synced :: "bool \<Rightarrow> int \<Rightarrow> bytes list \<Rightarrow> (int \<times> bytes) list \<Rightarrow> (int \<times> bytes) list" where
  "synced new_chunks ident tags refs =
     (let kept = (if new_chunks then refs else filter (\<lambda>r. \<not> (case r of (i, tag) \<Rightarrow> i = ident \<and> tag \<notin> set (remdups tags))) refs)
      in kept @ filter (\<lambda>r. r \<notin> set kept) (map (\<lambda>tag. (ident, tag)) (remdups tags)))"

lemma set_synced:
  "set (synced new_chunks ident tags refs) =
     (if new_chunks then set refs else {r \<in> set refs. fst r \<noteq> ident}) \<union> {ident} \<times> set tags"
  by (auto simp: synced_def Let_def)

lemma distinct_synced: "distinct refs \<Longrightarrow> distinct (synced new_chunks ident tags refs)"
  by (auto simp: synced_def Let_def distinct_map inj_on_def)

lemma sync_tail_run:
  assumes i: "inside t0 0 t db" and t: "sy_newrefs t = Some new" "sy_refs t = Some refs" and s: "int32 ident = ident"
    and post: "post () (t\<lparr>sy_newrefs := None, sy_indexed := False, sy_refs := Some (refs @ filter (\<lambda>r. r \<notin> set refs) (map (\<lambda>tag. (ident, tag)) new))\<rparr>) w"
    and k: "keep w" "stop w"
  shows "body_runs t0 True keep stop db (do {
     (ok, db) \<leftarrow> query_do db ins_refs ''d'' [SQL_int ident];
     if \<not> ok then Some (Inl PK_IOERR, db, w)
     else do {
       (ok, db) \<leftarrow> query_do db drop_newrefs [] [];
       if \<not> ok then Some (Inl PK_IOERR, db, w)
       else do { (ok, db) \<leftarrow> commit db; Some (if ok then Inr () else Inl PK_IOERR, db, w) }
     }
   }) post"
proof -
  let ?refs = "refs @ filter (\<lambda>r. r \<notin> set refs) (map (\<lambda>tag. (ident, tag)) new)"
  let ?n = "length (filter (\<lambda>r. r \<notin> set refs) (map (\<lambda>tag. (ident, tag)) new))"
  have v1: "stmt_value ins_refs ''d'' [SQL_int ident] t = Some (Inr (t\<lparr>sy_refs := Some ?refs\<rparr>, changes ?n))"
    using t s by (simp add: ins_refs_def stmt_eval Let_def)
  have v2: "stmt_value drop_newrefs [] [] (t\<lparr>sy_refs := Some ?refs\<rparr>)
      = Some (Inr (t\<lparr>sy_newrefs := None, sy_indexed := False, sy_refs := Some ?refs\<rparr>, []))"
    using t by (simp add: drop_newrefs_def stmt_eval)
  show ?thesis
  proof (rule body_runs_do [where keep = keep and stop = stop and w = w, OF i v1 _ k])
    fix t1 rows db1
    assume "Inr (t\<lparr>sy_refs := Some ?refs\<rparr>, changes ?n) = Inr (t1, rows)" "inside t0 0 t1 db1"
    then have "inside t0 0 (t\<lparr>sy_refs := Some ?refs\<rparr>) db1"
      by simp
    then show "body_runs t0 True keep stop db1 (do {
        (ok, db) \<leftarrow> query_do db1 drop_newrefs [] [];
        if \<not> ok then Some (Inl PK_IOERR, db, w)
        else do { (ok, db) \<leftarrow> commit db; Some (if ok then Inr () else Inl PK_IOERR, db, w) }
      }) post"
    proof (rule body_runs_do [where keep = keep and stop = stop and w = w, OF _ v2 _ k])
      fix t2 rows2 db2
      assume "Inr (t\<lparr>sy_newrefs := None, sy_indexed := False, sy_refs := Some ?refs\<rparr>, []) = Inr (t2, rows2)" "inside t0 0 t2 db2"
      then have "inside t0 0 (t\<lparr>sy_newrefs := None, sy_indexed := False, sy_refs := Some ?refs\<rparr>) db2"
        by simp
      then show "body_runs t0 True keep stop db2 (do { (ok, db) \<leftarrow> commit db2; Some (if ok then Inr () else Inl PK_IOERR, db, w) }) post"
        by (rule body_runs_commit [where stop = stop and w = w and post = post, OF _ k(2) post]) simp
    qed simp_all
  qed simp_all
qed

lemma sync_refs_run:
  assumes i: "inside t 0 t db" and t: "sy_newrefs t = None" "\<not> sy_indexed t" "sy_refs t = Some refs" and s: "int32 ident = ident"
    and tags: "(if new_chunks then Some (sy_keys t) else sy_prev t) = Some tags"
  shows "body_runs t True (\<lambda>_. True) (\<lambda>_. True) db (sync_refs_rows new_chunks ident db ())
    (\<lambda>_ t' _. t' = t\<lparr>sy_refs := Some (synced new_chunks ident tags refs)\<rparr>)" (is "body_runs t True ?k ?k db _ ?post")
proof -
  let ?make = "if new_chunks then make_newrefs (\<lambda>t. Some (sy_keys t)) else make_newrefs sy_prev"
  let ?t1 = "t\<lparr>sy_newrefs := Some (remdups tags)\<rparr>" and ?t2 = "t\<lparr>sy_newrefs := Some (remdups tags), sy_indexed := True\<rparr>"
  have v1: "stmt_value ?make [] [] t = Some (Inr (?t1, []))"
    using t tags by (auto simp: make_newrefs_def stmt_eval split: if_splits)
  have v2: "stmt_value index_newrefs [] [] ?t1 = Some (Inr (?t2, []))"
    using t by (simp add: index_newrefs_def stmt_eval)
  have end_eq: "t\<lparr>sy_newrefs := None, sy_indexed := False, sy_refs := Some r\<rparr> = t\<lparr>sy_refs := Some r\<rparr>" for r
    using t(1,2) by (cases t) simp
  let ?c = "\<lambda>r. case r of (i, tag) \<Rightarrow> i = ident \<and> tag \<notin> set (remdups tags)"
  let ?kept = "filter (\<lambda>r. \<not> ?c r) refs"
  have v3: "stmt_value del_refs ''d'' [SQL_int ident] ?t2 = Some (Inr (?t2\<lparr>sy_refs := Some ?kept\<rparr>, changes (length (filter ?c refs))))"
    using t s by (simp add: del_refs_def stmt_eval Let_def)
  let ?tail = "\<lambda>db. do {
     (ok, db) \<leftarrow> query_do db ins_refs ''d'' [SQL_int ident];
     if \<not> ok then Some (Inl PK_IOERR, db, ())
     else do {
       (ok, db) \<leftarrow> query_do db drop_newrefs [] [];
       if \<not> ok then Some (Inl PK_IOERR, db, ())
       else do { (ok, db) \<leftarrow> commit db; Some (if ok then Inr () else Inl PK_IOERR, db, ()) }
     }
   }"
  have tail_new: "body_runs t True ?k ?k db2 (?tail db2) ?post" if "new_chunks" "inside t 0 ?t2 db2" for db2
    by (rule sync_tail_run [OF that(2) _ _ s]) (use t that(1) in \<open>simp_all add: end_eq synced_def Let_def\<close>)
  have tail_old: "body_runs t True ?k ?k db2 (?tail db2) ?post" if "\<not> new_chunks" "inside t 0 (?t2\<lparr>sy_refs := Some ?kept\<rparr>) db2" for db2
    by (rule sync_tail_run [OF that(2) _ _ s, where refs = ?kept and new = "remdups tags"])
      (use that(1) end_eq in \<open>simp_all add: synced_def Let_def del: set_filter set_remdups\<close>)
  have step2: "body_runs t True ?k ?k db1 (do {
       (ok, db) \<leftarrow> query_do db1 index_newrefs [] [];
       if \<not> ok then Some (Inl PK_IOERR, db, ())
       else do {
         (ok, db) \<leftarrow> (if new_chunks then Some (True, db) else query_do db del_refs ''d'' [SQL_int ident]);
         if \<not> ok then Some (Inl PK_IOERR, db, ()) else ?tail db
       }
     }) ?post" if i1: "inside t 0 ?t1 db1" for db1
  proof (rule body_runs_do [OF i1 v2])
    fix t2 rows db2
    assume "Inr (?t2, []) = Inr (t2, rows)" "inside t 0 t2 db2"
    then have i2: "inside t 0 ?t2 db2"
      by simp
    show "body_runs t True ?k ?k db2 (do {
         (ok, db) \<leftarrow> (if new_chunks then Some (True, db2) else query_do db2 del_refs ''d'' [SQL_int ident]);
         if \<not> ok then Some (Inl PK_IOERR, db, ()) else ?tail db
       }) ?post"
    proof (cases new_chunks)
      case True
      with tail_new [OF True i2] show ?thesis by simp
    next
      case False
      have "body_runs t True ?k ?k db2 (do {
          (ok, db) \<leftarrow> query_do db2 del_refs ''d'' [SQL_int ident];
          if \<not> ok then Some (Inl PK_IOERR, db, ()) else ?tail db
        }) ?post"
        by (rule body_runs_do [OF i2 v3]) (use tail_old [OF False] in auto)
      with False show ?thesis by simp
    qed
  qed simp_all
  from i v1 show ?thesis
  proof (cases rule: stmt_do_cases)
    case (ok db1 t1 rows)
    then have i1: "inside t 0 ?t1 db1" and r: "db_result db1 = SQLITE_OK"
      by auto
    from ok(1) r have "sync_refs_rows new_chunks ident db () = (do {
       (ok, db) \<leftarrow> query_do db1 index_newrefs [] [];
       if \<not> ok then Some (Inl PK_IOERR, db, ())
       else do {
         (ok, db) \<leftarrow> (if new_chunks then Some (True, db) else query_do db del_refs ''d'' [SQL_int ident]);
         if \<not> ok then Some (Inl PK_IOERR, db, ()) else ?tail db
       }
     })"
      by (simp add: sync_refs_rows_def query_ok_def)
    with body_runs_later [OF ok(4) step2 [OF i1]] show ?thesis
      by simp
  next
    case (fail db1)
    have fl: "failing t 0 True db db1"
      using fail(3) [of True] by simp
    then have "sync_refs_rows new_chunks ident db () = Some (Inl PK_IOERR, db1, ())"
      using fail(1) by (simp add: sync_refs_rows_def failing_def)
    with fl show ?thesis
      by (simp add: body_runs_fail)
  qed simp
qed

lemma hoard_sync_refs_run:
  assumes d: "idle db" "only_soft db" "tabs (db_conn db) = t" and t: "sy_newrefs t = None" "\<not> sy_indexed t" "sy_refs t = Some refs"
    and s: "int32 ident = ident" and tags: "(if new_chunks then Some (sy_keys t) else sy_prev t) = Some tags"
  shows "\<exists>ret db'. hoard_sync_refs True ident new_chunks db = Some (ret, db') \<and> idle db' \<and>
    (if ret = PK_SUCCESS then tabs (db_conn db') = t\<lparr>sy_refs := Some (synced new_chunks ident tags refs)\<rparr>
     else tabs (db_conn db') = t \<and> \<not> only_contention db)"
proof -
  obtain r db' where r: "transact PK_IOERR (sync_refs_rows new_chunks ident) db () = Some (r, db', ())" "idle db'"
      "case r of Inr _ \<Rightarrow> tabs (db_conn db') = t\<lparr>sy_refs := Some (synced new_chunks ident tags refs)\<rparr>
        | Inl e \<Rightarrow> e \<noteq> PK_SUCCESS \<and> tabs (db_conn db') = t \<and> \<not> only_contention db"
  proof (rule transact_runs [where keep = "\<lambda>_. True" and ?t0.0 = t and good = True and stop = "\<lambda>_. True"
        and post = "\<lambda>_ t' _. t' = t\<lparr>sy_refs := Some (synced new_chunks ident tags refs)\<rparr>" and body = "sync_refs_rows new_chunks ident" and db = db
        and w = "()" and ?e0.0 = PK_IOERR], goal_cases)
    case (1 db1 w)
    show ?case
      by (cases w) (simp add: sync_refs_run [OF 1(2) t(1-3) s tags])
  next
    case (8 r db' w')
    show ?case
      by (rule 8(1) [of r db']) (use 8(2,4,5,6) in \<open>simp_all split: sum.splits\<close>)
  qed (use d in simp_all)
  have "hoard_sync_refs True ident new_chunks db = Some (case r of Inl e \<Rightarrow> e | Inr _ \<Rightarrow> PK_SUCCESS, db')"
    using r(1) by (simp add: hoard_sync_refs_def)
  with r(2,3) show ?thesis
    by (cases r) auto
qed


text \<open>Parcel 1 had the tags 3 and 4, and its previous keyring has 4 twice and 5; the database is busy once.\<close>

definition sample_sync :: "sync_tables db" where
  "sample_sync = \<lparr>db_conn = \<lparr>tabs = \<lparr>sy_keys = [[9]], sy_prev = Some [[4], [5], [4]], sy_newrefs = None, sy_indexed = False,
       sy_refs = Some [(1, [3]), (1, [4]), (2, [3])]\<rparr>, trans = None, faults = [No_fault, Fault_busy False]\<rparr>,
     db_held = False, db_queries = 0, db_result = SQLITE_OK, db_use_transaction = False, db_retries = 0, db_criticals = 0\<rparr>"


end
