(* ===== verification/Isr_Hoard_Ops.thy ===== *)
theory Isr_Hoard_Ops
  imports Isr_Hoard_Slots Isr_Hoard_Open
begin

text \<open>
  The operations of the hoard cache on the tables and on the file: storing a chunk, dropping invalid and unreferenced entries, and
  looking up a tag.
\<close>

section \<open>Entries and the file\<close>

text \<open>
  What holds of an entry: a length that fits a slot and the suite, and, when \<open>c\<close> is true, that the file \<open>d\<close> has at the offset so many
  bytes, with the tag as their SHA-1 digest.
\<close>

definition entry :: "bool \<Rightarrow> bytes \<Rightarrow> entry_pred" where
  "entry c d tag off len cry \<longleftrightarrow> 0 < len \<and> len \<le> 131072 \<and> cry = IU_CHUNK_CRY_AES_SHA1
     \<and> (c \<longrightarrow> nat off * 512 + nat len \<le> length d \<and> sha1_spec_hash (take (nat len) (drop (nat off * 512) d)) = tag)"

lemma entry_numeric: "numeric (entry c d)"
  by (auto simp: numeric_def entry_def small_def)

lemma entry_data_write:
  assumes "entry c d tag off' len cry" "offset_ok off" "offset_ok off'" "off \<noteq> off'" "length b \<le> 131072"
  shows "entry c (data_write d (nat off * 512) b) tag off' len cry"
proof (cases c)
  case True
  have e: "0 < len" "len \<le> 131072" "nat off' * 512 + nat len \<le> length d"
    using assms(1) True by (simp_all add: entry_def)
  obtain i j where ij: "off = 256 * i" "off' = 256 * j" "0 \<le> i" "0 \<le> j" "i \<noteq> j"
    using assms(2-4) by (auto simp: offset_ok_def dvd_def)
  have "nat off' * 512 + nat len \<le> nat off * 512 \<or> nat off * 512 + length b \<le> nat off' * 512"
  proof (cases "i < j")
    case True
    then have "256 * i + 256 \<le> 256 * j" by simp
    with ij assms(5) show ?thesis by linarith
  next
    case False
    with ij(5) have "256 * j + 256 \<le> 256 * i" by simp
    with ij e(1,2) show ?thesis by linarith
  qed
  from data_write_other [OF this e(3)] assms(1) e(3) True show ?thesis
    by (auto simp: entry_def length_data_write)
qed (use assms(1) in \<open>simp add: entry_def\<close>)

lemma hoard_write_chunk_run:
  assumes "length buf \<le> 131072"
  obtains ret f' b where "hoard_write_chunk (nat off) buf f = (ret, f')" "f_data f' = data_write (f_data f) (nat off * 512) b"
    "length b \<le> 131072" "ret = PK_SUCCESS \<Longrightarrow> b = buf @ replicate (131072 - length buf) 0" "f_faults f = [] \<Longrightarrow> ret = PK_SUCCESS"
proof -
  let ?b = "buf @ replicate (131072 - length buf) (0 :: u8)"
  obtain n f' where w: "pwrite ?b (nat off * 512) f = (n, f')"
    by fastforce
  then obtain l where l: "f_data f' = data_write (f_data f) (nat off * 512) (transfer l ?b)" "n = length (transfer l ?b)"
    by (rule pwrite_data)
  show thesis
  proof (rule that)
    show "hoard_write_chunk (nat off) buf f = (if n \<noteq> 131072 then PK_IOERR else PK_SUCCESS, f')"
      using w assms by (simp add: hoard_write_chunk_def HOARD_CHUNKSIZE_def)
    show "length (transfer l ?b) \<le> 131072"
      using length_transfer [of l ?b] assms by simp
    show "transfer l ?b = ?b" if "(if n \<noteq> 131072 then PK_IOERR else PK_SUCCESS) = PK_SUCCESS"
      using that transfer_full [of l ?b] l(2) assms by (simp split: if_splits)
    show "(if n \<noteq> 131072 then PK_IOERR else PK_SUCCESS) = PK_SUCCESS" if "f_faults f = []"
      using that w assms by (simp add: pwrite_quiet)
  qed (rule l(1))
qed

lemma entry_written:
  assumes "0 < length buf" "length buf \<le> 131072" "c \<Longrightarrow> tag = sha1_spec_hash buf"
  shows "entry c (data_write d (nat off * 512) (buf @ replicate (131072 - length buf) 0)) tag off (int (length buf)) IU_CHUNK_CRY_AES_SHA1"
proof -
  let ?b = "buf @ replicate (131072 - length buf) (0 :: u8)"
  have "take (length buf) (drop (nat off * 512) (data_write d (nat off * 512) ?b))
      = take (length buf) (take (length ?b) (drop (nat off * 512) (data_write d (nat off * 512) ?b)))"
    by (simp add: min_def)
  then have "take (length buf) (drop (nat off * 512) (data_write d (nat off * 512) ?b)) = buf"
    unfolding data_write_same by simp
  with assms show ?thesis
    by (auto simp: entry_def length_data_write)
qed

text \<open>A write to a slot that no entry of the shared table and none of the given processes uses.\<close>

definition spare :: "int set \<Rightarrow> hoard_row list \<Rightarrow> bytes \<Rightarrow> bytes \<Rightarrow> bool" where
  "spare own cs d d' \<longleftrightarrow> d' = d \<or> (\<exists>off b. offset_ok off \<and> off \<notin> own \<and> off \<notin> hc_offset ` tagged_rows cs
     \<and> length b \<le> 131072 \<and> d' = data_write d (nat off * 512) b)"

lemma spare_entry:
  assumes "spare own cs d d'" "entry c d tag off len cry" "offset_ok off" "off \<in> own \<or> off \<in> hc_offset ` tagged_rows cs"
  shows "entry c d' tag off len cry"
proof (cases "d' = d")
  case False
  then obtain off' b where "offset_ok off'" "off' \<noteq> off" "length b \<le> 131072" "d' = data_write d (nat off' * 512) b"
    using assms(1,4) by (auto simp: spare_def)
  with entry_data_write [OF assms(2) _ assms(3)] show ?thesis by simp
qed (use assms(2) in simp)

lemma chunks_inv_mono:
  assumes "chunks_inv own E cs" "\<And>r tag. r \<in> set cs \<Longrightarrow> hc_tag r = Some tag \<Longrightarrow> offset_ok (hc_offset r) \<Longrightarrow>
    E tag (hc_offset r) (hc_length r) (hc_crypto r) \<Longrightarrow> E' tag (hc_offset r) (hc_length r) (hc_crypto r)"
  shows "chunks_inv own E' cs"
proof -
  have "row_ok E' r" if "r \<in> set cs" for r
    using chunks_inv_rows [OF assms(1) that] assms(2) [OF that] by (simp add: row_ok_def)
  then show ?thesis
    using assms(1) unfolding chunks_inv_def by blast
qed

section \<open>Storing a chunk\<close>

definition hoard_parcel :: "pk_parcel \<Rightarrow> bool" where
  "hoard_parcel p \<longleftrightarrow> p_chunksize p = 131072 \<and> p_crypto p = IU_CHUNK_CRY_AES_SHA1 \<and> p_hashlen p = 20"

definition put_post :: "hoard_tables \<Rightarrow> int set \<Rightarrow> hoard_row list \<Rightarrow> bool \<Rightarrow> bytes \<Rightarrow> bytes \<Rightarrow> hoard_tables \<Rightarrow> pfile \<Rightarrow> bool" where
  "put_post t others cs0 c d tag t' f' \<longleftrightarrow> (\<exists>cs ss. t' = with_rows t cs ss \<and> hoard_inv others (entry c (f_data f')) cs ss
     \<and> tag \<in> row_tags cs \<union> slot_tags ss \<and> spare others cs0 d (f_data f'))"

lemma filled_slot_inv:
  assumes h: "hoard_inv others (entry c d) cs ss" and s: "s \<in> set ss" "sl_tag s = None" "sl_offset s = off"
    and b: "0 < length buf" "length buf \<le> 131072" "c \<Longrightarrow> tag = sha1_spec_hash buf"
  shows "hoard_inv others (entry c (data_write d (nat off * 512) (buf @ replicate (131072 - length buf) 0))) cs
    (map (\<lambda>s. if sl_offset s = off then s\<lparr>sl_tag := Some tag, sl_length := int (length buf), sl_crypto := IU_CHUNK_CRY_AES_SHA1\<rparr> else s) ss)"
    (is "hoard_inv others (entry c ?d) cs ?ss")
proof -
  have inv: "chunks_inv (slot_offsets ss \<union> others) (entry c d) cs"
    using h by (simp add: hoard_inv_def)
  have off: "off \<in> slot_offsets ss"
    using s by (auto simp: slot_offsets_def)
  note ok = chunks_inv_offset [OF inv]
  have len: "length (buf @ replicate (131072 - length buf) (0 :: u8)) \<le> 131072"
    using b(2) by simp
  have offs: "map sl_offset ?ss = map sl_offset ss"
    by simp
  have "chunks_inv (slot_offsets ss \<union> others) (entry c ?d) cs"
  proof (rule chunks_inv_mono [OF inv])
    fix r tag'
    assume r: "r \<in> set cs" "hc_tag r = Some tag'" "offset_ok (hc_offset r)" "entry c d tag' (hc_offset r) (hc_length r) (hc_crypto r)"
    have "off \<noteq> hc_offset r"
      using chunks_inv_taken [OF inv r(1)] off r(2) by (auto simp: taken_def)
    with entry_data_write [OF r(4) ok [of off] r(3) _ len] off show "entry c ?d tag' (hc_offset r) (hc_length r) (hc_crypto r)"
      by simp
  qed
  moreover have "slot_offsets ?ss = slot_offsets ss"
    unfolding slot_offsets_def set_map [symmetric] offs ..
  moreover have "slot_ok (entry c ?d) s'" if sm: "s' \<in> set ?ss" for s'
  proof -
    obtain s1 where s1: "s1 \<in> set ss"
        "s' = (if sl_offset s1 = off then s1\<lparr>sl_tag := Some tag, sl_length := int (length buf), sl_crypto := IU_CHUNK_CRY_AES_SHA1\<rparr> else s1)"
      using sm by auto
    have "entry c ?d tag' (sl_offset s1) (sl_length s1) (sl_crypto s1)" if t: "sl_offset s1 \<noteq> off" "sl_tag s1 = Some tag'" for tag'
    proof (rule entry_data_write [OF _ ok [of off] ok _ len])
      show "entry c d tag' (sl_offset s1) (sl_length s1) (sl_crypto s1)"
        using h s1(1) t(2) by (auto simp: hoard_inv_def slot_ok_def)
    qed (use t off s1(1) in \<open>auto simp: slot_offsets_def\<close>)
    with s1(2) entry_written [OF b(1,2), where c = c and tag = tag and off = off and d = d] b(3) show ?thesis
      by (auto simp: slot_ok_def)
  qed
  ultimately show ?thesis
    using h by (simp add: hoard_inv_def offs del: map_map)
qed

lemma put_new_run:
  assumes i: "inside t 0 t db" "ht_chunks t = Some cs" "ht_slots t = Some ss"
    and h: "hoard_inv others (entry c (f_data f)) cs ss" "room cs" and p: "hoard_parcel p"
    and b: "0 < length buf" "length buf \<le> 131072" "c \<Longrightarrow> tag = sha1_spec_hash buf" and new: "tag \<notin> row_tags cs \<union> slot_tags ss"
  shows "body_runs t (f_faults f = []) (\<lambda>f'. f' = f) (\<lambda>f'. spare others cs (f_data f) (f_data f')) db (put_new p tag buf db f)
    (\<lambda>_. put_post t others cs c (f_data f) tag)"
  unfolding put_new_def
proof (rule body_runs_bind [OF runs_good [OF allocate_slot_run [OF i h(1) entry_numeric h(2)]]])
  fix off db1
  assume "allocated_post t others (entry c (f_data f)) cs ss t off db1"
  then obtain cs1 ss1 s where a: "inside t 0 (with_rows t cs1 ss1) db1" "hoard_inv others (entry c (f_data f)) cs1 ss1"
      "row_tags cs1 \<union> slot_tags ss1 = row_tags cs \<union> slot_tags ss" "tagged_rows cs \<subseteq> set cs1" "s \<in> set ss1" "sl_offset s = off" "sl_tag s = None"
    unfolding allocated_post_def by (elim exE conjE) blast
  let ?ss = "map (\<lambda>s. if sl_offset s = off then s\<lparr>sl_tag := Some tag, sl_length := int (length buf), sl_crypto := IU_CHUNK_CRY_AES_SHA1\<rparr> else s) ss1"
  have inv: "chunks_inv (slot_offsets ss1 \<union> others) (entry c (f_data f)) cs1" "slot_offsets ss1 \<inter> others = {}"
    using a(2) by (simp_all add: hoard_inv_def)
  have off: "off \<in> slot_offsets ss1"
    using a(5,6) by (auto simp: slot_offsets_def)
  have "off \<notin> hc_offset ` tagged_rows cs"
    using chunks_inv_taken [OF inv(1)] off a(4) by (auto simp: tagged_rows_def taken_def)
  then have sp: "spare others cs (f_data f) (data_write (f_data f) (nat off * 512) x)" if "length x \<le> 131072" for x
    using that off inv(2) chunks_inv_offset [OF inv(1), of off] by (auto simp: spare_def)
  have "\<not> (\<exists>s \<in> set ss1. sl_tag s = Some tag)"
    using new a(3) by (auto simp: slot_tags_def)
  then have v: "stmt_value fill_slot ''bddd'' [SQL_blob tag, SQL_int (int (length buf)), SQL_int (p_crypto p), SQL_int off] (with_rows t cs1 ss1)
      = Some (Inr (with_rows t cs1 ?ss, changes (length (filter (\<lambda>s. sl_offset s = off) ss1))))"
    using b(2) p hoard_inv_small [OF a(2,5)] a(6) by (auto simp: fill_slot_def stmt_eval hoard_parcel_def)
  obtain ret f' x where w: "hoard_write_chunk (nat off) buf f = (ret, f')" "f_data f' = data_write (f_data f) (nat off * 512) x" "length x \<le> 131072"
      "ret = PK_SUCCESS \<Longrightarrow> x = buf @ replicate (131072 - length buf) 0" "f_faults f = [] \<Longrightarrow> ret = PK_SUCCESS"
    by (rule hoard_write_chunk_run [OF b(2)]) blast
  have u: "uint32 off = nat off"
    using chunks_inv_offset [OF inv(1), of off] off by (simp add: uint32_def offset_ok_def)
  show "body_runs t (f_faults f = []) (\<lambda>f'. f' = f) (\<lambda>f'. spare others cs (f_data f) (f_data f')) db1 (do {
      (ok, db) \<leftarrow> query_do db1 fill_slot ''bddd'' [SQL_blob tag, SQL_int (int (length buf)), SQL_int (p_crypto p), SQL_int off];
      if \<not> ok then Some (Inl PK_IOERR, db, f)
      else case hoard_write_chunk (uint32 off) buf f of (ret, f) \<Rightarrow>
        if ret \<noteq> PK_SUCCESS then Some (Inl PK_IOERR, db, f) else put_done db f
    }) (\<lambda>_. put_post t others cs c (f_data f) tag)"
    unfolding u
  proof (rule body_runs_do [OF a(1) v])
    fix t' rows db2
    assume "Inr (with_rows t cs1 ?ss, changes (length (filter (\<lambda>s. sl_offset s = off) ss1))) = Inr (t', rows)" and i2: "inside t 0 t' db2"
    then have t': "t' = with_rows t cs1 ?ss"
      by simp
    show "body_runs t (f_faults f = []) (\<lambda>f'. f' = f) (\<lambda>f'. spare others cs (f_data f) (f_data f')) db2
        (case hoard_write_chunk (nat off) buf f of (ret, f) \<Rightarrow>
          if ret \<noteq> PK_SUCCESS then Some (Inl PK_IOERR, db2, f) else put_done db2 f) (\<lambda>_. put_post t others cs c (f_data f) tag)"
    proof (cases "ret = PK_SUCCESS")
      case False
      with w i2 sp [OF w(3)] show ?thesis
        by (auto intro: body_runs_stop)
    next
      case True
      let ?upd = "\<lambda>s. if sl_offset s = off then s\<lparr>sl_tag := Some tag, sl_length := int (length buf), sl_crypto := IU_CHUNK_CRY_AES_SHA1\<rparr> else s"
      have "?upd s \<in> set ?ss"
        unfolding set_map by (rule imageI [OF a(5)])
      moreover have "sl_tag (?upd s) = Some tag"
        using a(6) by simp
      ultimately have "tag \<in> slot_tags ?ss"
        unfolding slot_tags_def by blast
      moreover have "hoard_inv others (entry c (f_data f')) cs1 ?ss"
        using filled_slot_inv [OF a(2,5,7,6) b] w(2) w(4) [OF True] by simp
      ultimately have "put_post t others cs c (f_data f) tag t' f'"
        using sp [OF w(3)] w(2) unfolding put_post_def t' by auto
      then have "body_runs t (f_faults f = []) (\<lambda>f'. f' = f) (\<lambda>f'. spare others cs (f_data f) (f_data f')) db2 (put_done db2 f')
          (\<lambda>_. put_post t others cs c (f_data f) tag)"
        using sp [OF w(3)] w(2) unfolding put_done_def by (intro body_runs_commit [OF i2]) simp_all
      with True w(1) show ?thesis by simp
    qed
  qed (simp_all add: spare_def)
qed (use p in \<open>simp_all add: spare_def hoard_parcel_def\<close>)

text \<open>The two lookups by tag.\<close>

lemma sel_slot_tag_value:
  assumes "ht_slots t = Some ss"
  shows "stmt_value sel_slot_tag ''b'' [SQL_blob tag] t =
    Some (Inr (t, map (\<lambda>s. [SQL_int (sl_offset s), SQL_int (sl_length s)]) (filter (\<lambda>s. sl_tag s = Some tag) ss)))"
  using assms by (simp add: sel_slot_tag_def stmt_eval)

lemma sel_row_tag_value:
  assumes "ht_chunks t = Some cs"
  shows "stmt_value sel_row_tag ''b'' [SQL_blob tag] t =
    Some (Inr (t, map (\<lambda>r. [SQL_int (hc_offset r), SQL_int (hc_length r)]) (filter (\<lambda>r. hc_tag r = Some tag) cs)))"
  using assms by (simp add: sel_row_tag_def stmt_eval)

lemma put_done_run:
  assumes "inside t 0 t db" "ht_chunks t = Some cs" "ht_slots t = Some ss" "hoard_inv others (entry c (f_data f)) cs ss"
    and "tag \<in> row_tags cs \<union> slot_tags ss"
  shows "body_runs t good keep (\<lambda>f'. spare others cs (f_data f) (f_data f')) db (put_done db f) (\<lambda>_. put_post t others cs c (f_data f) tag)"
  unfolding put_done_def
proof (rule body_runs_commit [OF assms(1)])
  have same: "with_rows t cs ss = t"
    using assms(2,3) by simp
  show "put_post t others cs c (f_data f) tag t f"
    unfolding put_post_def
  proof (rule exI [of _ cs], rule exI [of _ ss], intro conjI)
    show "t = with_rows t cs ss" unfolding same ..
  qed (use assms(4,5) in \<open>simp_all add: spare_def\<close>)
qed (simp_all add: spare_def)

lemma hoard_put_row_run:
  assumes i: "inside t 0 t db" "ht_chunks t = Some cs" "ht_slots t = Some ss"
    and h: "hoard_inv others (entry c (f_data f)) cs ss" "room cs" and p: "hoard_parcel p"
    and b: "0 < length buf" "length buf \<le> 131072" "c \<Longrightarrow> tag = sha1_spec_hash buf"
  shows "body_runs t (f_faults f = []) (\<lambda>f'. f' = f) (\<lambda>f'. spare others cs (f_data f) (f_data f')) db (hoard_put_row p tag buf db f)
    (\<lambda>_. put_post t others cs c (f_data f) tag)" (is "body_runs t ?g ?k ?s db _ ?post")
  using i(1) sel_slot_tag_value [OF i(3), of tag]
proof (cases rule: stmt_do_cases)
  case (ok db1 t1 rows)
  then have t1: "t1 = t" and r1: "rows = [] \<longleftrightarrow> tag \<notin> slot_tags ss"
    by (auto simp: slot_tags_def filter_empty_conv)
  have i1: "inside t 0 t db1"
    using ok(3) t1 by simp
  show ?thesis
  proof (cases "tag \<in> slot_tags ss")
    case True
    have "body_runs t ?g ?k ?s db1 (put_done db1 f) ?post"
      by (rule put_done_run [OF i1 i(2,3) h(1)]) (use True in simp)
    with True ok r1 body_runs_later [OF ok(4)] show ?thesis
      by (simp add: hoard_put_row_def query_has_row_def)
  next
    case new: False
    from i1 sel_row_tag_value [OF i(2), of tag] have "body_runs t ?g ?k ?s db1 (hoard_put_row p tag buf db f) ?post"
    proof (cases rule: stmt_do_cases)
      case ok2: (ok db2 t2 rows2)
      then have t2: "t2 = t" and r2: "rows2 = [] \<longleftrightarrow> tag \<notin> row_tags cs"
        by (auto simp: row_tags_def filter_empty_conv)
      have i2: "inside t 0 t db2"
        using ok2(3) t2 by simp
      have b2: "body_runs t ?g ?k ?s db2 (if tag \<in> row_tags cs then put_done db2 f else put_new p tag buf db2 f) ?post"
        using put_done_run [OF i2 i(2,3) h(1), of tag ?g ?k] put_new_run [OF i2 i(2,3) h p b] new by simp
      have eq: "hoard_put_row p tag buf db f = (if tag \<in> row_tags cs then put_done db2 f else put_new p tag buf db2 f)"
        using new ok(1,5) ok2(1,5) r1 r2 by (simp add: hoard_put_row_def query_has_row_def query_ok_def)
      show ?thesis
        unfolding eq by (rule body_runs_later [OF ok2(4) b2])
    next
      case (fail db2)
      have fl: "failing t 0 ?g db1 db2"
        using fail(3) [of ?g] by simp
      then have "hoard_put_row p tag buf db f = Some (Inl PK_SQLERR, db2, f)"
        using new ok(1,5) r1 fail(1) by (simp add: hoard_put_row_def query_has_row_def [of db1] query_ok_def [of db1] failing_def)
      with fl show ?thesis
        by (simp add: body_runs_fail spare_def)
    qed simp
    then show ?thesis
      by (rule body_runs_later [OF ok(4)])
  qed
next
  case (fail db1)
  have fl: "failing t 0 ?g db db1"
    using fail(3) [of ?g] by simp
  then have "hoard_put_row p tag buf db f = Some (Inl PK_SQLERR, db1, f)"
    using fail(1) by (simp add: hoard_put_row_def failing_def)
  with fl show ?thesis
    by (simp add: body_runs_fail spare_def)
qed simp

lemma hoard_put_chunk_run:
  assumes d: "idle db" "only_soft db" "tabs (db_conn db) = t" "ht_chunks t = Some cs" "ht_slots t = Some ss"
    and h: "hoard_inv others (entry c (f_data f)) cs ss" "room cs" and p: "hoard_parcel p"
    and b: "0 < length buf" "length buf \<le> 131072" "c \<Longrightarrow> take 20 tag = sha1_spec_hash buf"
  obtains ret db' f' where "hoard_put_chunk True p tag buf db f = Some (ret, db', f')" "later db db'" "idle db'"
    "ret = PK_SUCCESS \<Longrightarrow> put_post t others cs c (f_data f) (take 20 tag) (tabs (db_conn db')) f'"
    "ret \<noteq> PK_SUCCESS \<Longrightarrow> tabs (db_conn db') = t \<and> spare others cs (f_data f) (f_data f') \<and> \<not> (f_faults f = [] \<and> only_contention db)"
proof -
  obtain r db' f' where r: "transact PK_IOERR (hoard_put_row p (take 20 tag) buf) db f = Some (r, db', f')" "later db db'" "idle db'"
      "\<And>a. r = Inr a \<Longrightarrow> put_post t others cs c (f_data f) (take 20 tag) (tabs (db_conn db')) f'"
      "\<And>e. r = Inl e \<Longrightarrow> e \<noteq> PK_SUCCESS \<and> spare others cs (f_data f) (f_data f') \<and> tabs (db_conn db') = t \<and> \<not> (f_faults f = [] \<and> only_contention db)"
  proof (rule transact_runs [where keep = "\<lambda>f'. f' = f" and ?t0.0 = t and good = "f_faults f = []"
        and stop = "\<lambda>f'. spare others cs (f_data f) (f_data f')" and post = "\<lambda>_. put_post t others cs c (f_data f) (take 20 tag)"
        and body = "hoard_put_row p (take 20 tag) buf" and db = db and w = f and ?e0.0 = PK_IOERR], goal_cases)
    case (1 db1 w)
    then show ?case
      using hoard_put_row_run [OF 1(2) d(4,5) h p b(1,2), of "take 20 tag"] b(3) by simp
  next
    case (8 r db' w')
    show ?case
      by (rule 8(1) [OF 8(2,3,4,5,6)])
  qed (use d in \<open>simp_all add: spare_def\<close>)
  have "hoard_put_chunk True p tag buf db f = Some (case r of Inl e \<Rightarrow> e | Inr _ \<Rightarrow> PK_SUCCESS, db', f')"
    using r(1) p by (simp add: hoard_put_chunk_def hoard_parcel_def)
  from that [OF this r(2,3)] r(4,5) show thesis
    by (cases r) auto
qed

section \<open>Transactions of their own\<close>

lemma in_transaction_run:
  assumes c: "\<And>db. inside t 0 t db \<Longrightarrow> runs t good db (call db) (\<lambda>a db'. \<exists>t'. inside t 0 t' db' \<and> P a t')"
    and d: "idle db" "only_soft db" "tabs (db_conn db) = t"
  obtains r db' where "in_transaction call db = Some (r, db')" "later db db'" "idle db'"
    "case r of Inr a \<Rightarrow> P a (tabs (db_conn db')) | Inl e \<Rightarrow> e \<noteq> PK_SUCCESS \<and> tabs (db_conn db') = t \<and> \<not> (good \<and> only_contention db)"
proof -
  let ?body = "\<lambda>db w. do {
       (r, db) \<leftarrow> call db;
       (case r of
          Inl e \<Rightarrow> Some (Inl e, db, w)
        | Inr a \<Rightarrow> do { (ok, db) \<leftarrow> commit db; Some (if ok then Inr a else Inl PK_IOERR, db, w) })
     }"
  have b: "body_runs t good (\<lambda>_. True) (\<lambda>_. True) db (?body db w) (\<lambda>a t' _. P a t')" if i: "inside t 0 t db" for db and w :: unit
  proof (rule body_runs_bind [OF c [OF i]], simp, simp, elim exE conjE)
    fix a db' t'
    assume "inside t 0 t' db'" "P a t'"
    then show "body_runs t good (\<lambda>_. True) (\<lambda>_. True) db' (do { (ok, db) \<leftarrow> commit db'; Some (if ok then Inr a else Inl PK_IOERR, db, w) })
        (\<lambda>a t' _. P a t')"
      by (intro body_runs_commit) simp_all
  qed
  from transact_runs [where body = ?body and w = "()" and ?e0.0 = PK_IOERR, OF b d(1,3) TrueI d(2)]
  obtain r db' w' where "transact PK_IOERR ?body db () = Some (r, db', w')" "later db db'" "idle db'"
      "\<forall>a. r = Inr a \<longrightarrow> P a (tabs (db_conn db'))"
      "\<forall>e. r = Inl e \<longrightarrow> e \<noteq> PK_SUCCESS \<and> tabs (db_conn db') = t \<and> \<not> (good \<and> only_contention db)"
    by (metis (lifting) pk_err.distinct(3))
  then show thesis
    by (intro that [of r db']) (auto simp: in_transaction_def split: sum.splits)
qed

lemma transaction_wrapper_run:
  assumes "\<And>db. inside t 0 t db \<Longrightarrow> runs t good db (call db) (\<lambda>a db'. \<exists>t'. inside t 0 t' db' \<and> P a t')"
    and "idle db" "only_soft db" "tabs (db_conn db) = t"
  obtains db' where "transaction_wrapper call db = Some db'" "later db db'" "idle db'"
    "P () (tabs (db_conn db')) \<or> tabs (db_conn db') = t \<and> \<not> (good \<and> only_contention db)"
proof -
  from in_transaction_run [OF assms] obtain r db' where "in_transaction call db = Some (r, db')" "later db db'" "idle db'"
      "case r of Inr a \<Rightarrow> P a (tabs (db_conn db')) | Inl e \<Rightarrow> e \<noteq> PK_SUCCESS \<and> tabs (db_conn db') = t \<and> \<not> (good \<and> only_contention db)"
    by blast
  then show thesis
    by (intro that [of db']) (auto simp: transaction_wrapper_def split: sum.splits)
qed

lemma flush_slot_cache_run:
  assumes d: "idle db" "only_soft db" "tabs (db_conn db) = t" "ht_chunks t = Some cs" "ht_slots t = Some ss"
    and h: "hoard_inv others E cs ss" "numeric E"
  obtains db' where "flush_slot_cache db = Some db'" "later db db'" "idle db'"
    "(\<exists>cs'. tabs (db_conn db') = with_rows t cs' [] \<and> chunks_inv others E cs' \<and> retagged cs (slot_tags ss) cs')
      \<or> tabs (db_conn db') = t \<and> \<not> only_contention db"
proof -
  have "runs t True db1 (flush_slot_rows db1) (\<lambda>_ db'. \<exists>t'. inside t 0 t' db' \<and>
      (\<exists>cs'. t' = with_rows t cs' [] \<and> chunks_inv others E cs' \<and> retagged cs (slot_tags ss) cs'))" if i: "inside t 0 t db1" for db1
    by (rule runs_mono [OF flush_slot_rows_run [OF i d(4,5) h]]) blast
  from transaction_wrapper_run [OF this d(1-3)] show thesis
    using that unfolding flush_slot_cache_def simp_thms by blast
qed

section \<open>Dropping entries\<close>

text \<open>Tables with the same slots, where the rest of the invariant still holds.\<close>

definition rows_kept :: "hoard_tables \<Rightarrow> int set \<Rightarrow> entry_pred \<Rightarrow> hoard_slot list \<Rightarrow> hoard_tables \<Rightarrow> bool" where
  "rows_kept t others E ss t' \<longleftrightarrow> (\<exists>cs'. t' = t\<lparr>ht_chunks := Some cs'\<rparr> \<and> hoard_inv others E cs' ss)"

lemma rows_kept_same: "ht_chunks t = Some cs \<Longrightarrow> hoard_inv others E cs ss \<Longrightarrow> rows_kept t others E ss t"
  by (auto simp: rows_kept_def intro!: exI [of _ cs])

lemma hoard_inv_erase:
  assumes "hoard_inv others E cs ss" "\<And>r. r \<in> set cs \<Longrightarrow> c r \<Longrightarrow> hc_tag r \<noteq> None"
  shows "hoard_inv others E (map (\<lambda>r. if c r then erase_row r else r) cs) ss"
  using assms chunks_inv_erase [of "slot_offsets ss \<union> others" E cs c] by (simp add: hoard_inv_def)

definition erased :: "int \<Rightarrow> bytes \<Rightarrow> hoard_row list \<Rightarrow> hoard_row list" where
  "erased off tag cs = map (\<lambda>r. if hc_offset r = off \<and> hc_tag r = Some tag then erase_row r else r) cs"

lemma erased_none: "filter (\<lambda>r. hc_offset r = off \<and> hc_tag r = Some tag) cs = [] \<Longrightarrow> erased off tag cs = cs"
  unfolding erased_def filter_empty_conv by (rule map_idI) auto

lemma erased_at:
  assumes "chunks_inv own E cs" "r \<in> set cs" "hc_offset r = off" "hc_tag r = Some tag"
  shows "map (\<lambda>r. if hc_offset r = off then erase_row r else r) cs = erased off tag cs"
proof -
  have "hc_tag r' = Some tag" if "r' \<in> set cs" "hc_offset r' = off" for r'
    using chunks_inv_off [OF assms(1) that(1) assms(2)] that(2) assms(3,4) by simp
  then show ?thesis
    by (simp add: erased_def)
qed

lemma invalidate_row_run:
  assumes i: "inside t 0 t db" "ht_chunks t = Some cs" and inv: "chunks_inv own E cs" and sm: "small off"
  shows "runs t True db (invalidate_row off tag db) (\<lambda>_ db'. \<exists>t'. inside t 0 t' db' \<and> t' = t\<lparr>ht_chunks := Some (erased off tag cs)\<rparr>)"
proof -
  let ?rows = "map (\<lambda>r. [SQL_int (hc_offset r)]) (filter (\<lambda>r. hc_offset r = off \<and> hc_tag r = Some tag) cs)"
  let ?Q = "\<lambda>_ db'. \<exists>t'. inside t 0 t' db' \<and> t' = t\<lparr>ht_chunks := Some (erased off tag cs)\<rparr>"
  have v: "stmt_value sel_at ''db'' [SQL_int off, SQL_blob tag] t = Some (Inr (t, ?rows))"
    using i(2) sm by (simp add: sel_at_def stmt_eval)
  from i(1) v show ?thesis
  proof (cases rule: stmt_rows_cases)
    case (none db' t')
    then have "t\<lparr>ht_chunks := Some (erased off tag cs)\<rparr> = t" "t' = t"
      using i(2) by (simp_all add: erased_none)
    with none show ?thesis
      by (simp add: invalidate_row_def query_ok_def runs_def)
  next
    case (rows q db' t')
    let ?db = "query_free (Some q) db'"
    have "?rows \<noteq> []"
      using rows(2,3) by auto
    then obtain r where r: "r \<in> set cs" "hc_offset r = off" "hc_tag r = Some tag"
      by (auto simp: filter_empty_conv)
    have in1: "inside t 0 t ?db"
      using inside_free [OF rows(5)] rows(2) by simp
    have "runs t True ?db (do { (ok, db) \<leftarrow> query_do ?db erase_at ''d'' [SQL_int off]; Some (if ok then Inr () else Inl PK_IOERR, db) }) ?Q"
    proof (rule runs_do_last [OF in1])
      show "stmt_value erase_at ''d'' [SQL_int off] t
          = Some (Inr (t\<lparr>ht_chunks := Some (erased off tag cs)\<rparr>, changes (length (filter (\<lambda>r. hc_offset r = off) cs))))"
        using i(2) sm erased_at [OF inv r] by (simp add: erase_at_def stmt_eval)
    qed auto
    then have "runs t True ?db (invalidate_row off tag db) ?Q"
      using rows(1,7) by (simp add: invalidate_row_def query_ok_def query_has_row_def)
    then show ?thesis
      by (rule runs_later [OF later_freeI [OF rows(6)]])
  next
    case (fail db')
    have fl: "failing t 0 True db db'"
      using fail(2) by simp
    with runs_fail [OF fl, of PK_IOERR] fail(1) show ?thesis
      by (simp add: invalidate_row_def failing_def)
  qed
qed

lemma cleanup_action_run:
  assumes "inside t 0 t0 db" "stmt_value s [] [] t0 = Some (Inr (t', changes n))"
  shows "runs t True db (cleanup_action db s) (\<lambda>_ db'. inside t 0 t' db')"
  using assms(1) assms(2) [unfolded changes_def]
proof (cases rule: stmt_row_cases [where good = True])
  case (row q db')
  then have "cleanup_action db s = Some (Inr (), query_free (Some q) db')"
    by (simp add: cleanup_action_def query_row_def query_column_def)
  with inside_free [OF row(4)] later_freeI [OF row(5)] show ?thesis
    by (simp add: runs_def)
next
  case (fail db')
  then show ?thesis
    by (simp add: cleanup_action_def runs_fail)
qed

lemma hoard_invalidate_chunk_run:
  assumes d: "idle db" "only_soft db" "tabs (db_conn db) = t" "ht_chunks t = Some cs" and h: "hoard_inv others E cs ss" and sm: "small off"
  obtains db' where "hoard_invalidate_chunk off tag db = Some db'" "later db db'" "idle db'" "rows_kept t others E ss (tabs (db_conn db'))"
    "tabs (db_conn db') = t\<lparr>ht_chunks := Some (erased off tag cs)\<rparr> \<or> tabs (db_conn db') = t \<and> \<not> only_contention db"
proof -
  have inv: "chunks_inv (slot_offsets ss \<union> others) E cs"
    using h by (simp add: hoard_inv_def)
  obtain db' where db': "transaction_wrapper (invalidate_row off tag) db = Some db'" "later db db'" "idle db'"
      "tabs (db_conn db') = t\<lparr>ht_chunks := Some (erased off tag cs)\<rparr> \<or> tabs (db_conn db') = t \<and> \<not> (True \<and> only_contention db)"
    by (rule transaction_wrapper_run [OF invalidate_row_run [OF _ d(4) inv sm, where tag = tag] d(1-3)])
  have "hoard_inv others E (erased off tag cs) ss"
    unfolding erased_def by (rule hoard_inv_erase [OF h]) simp
  then have "rows_kept t others E ss (t\<lparr>ht_chunks := Some (erased off tag cs)\<rparr>)"
    by (auto simp: rows_kept_def)
  with db'(4) rows_kept_same [OF d(4) h] have "rows_kept t others E ss (tabs (db_conn db'))"
    by metis
  with db' that show thesis
    by (simp add: hoard_invalidate_chunk_def)
qed

text \<open>An entry of the slot cache that is dropped leaves an empty slot.\<close>

definition clear_slot :: "int \<Rightarrow> hoard_slot list \<Rightarrow> hoard_slot list" where
  "clear_slot off ss = map (\<lambda>s. if sl_offset s = off then s\<lparr>sl_tag := None, sl_length := 0, sl_crypto := 0\<rparr> else s) ss"

lemma clear_slot_offsets: "map sl_offset (clear_slot off ss) = map sl_offset ss" "slot_offsets (clear_slot off ss) = slot_offsets ss"
proof -
  show eq: "map sl_offset (clear_slot off ss) = map sl_offset ss"
    by (simp add: clear_slot_def)
  show "slot_offsets (clear_slot off ss) = slot_offsets ss"
    unfolding slot_offsets_def set_map [symmetric] eq ..
qed

lemma hoard_inv_clear_slot:
  assumes "hoard_inv others E cs ss"
  shows "hoard_inv others E cs (clear_slot off ss)"
proof -
  have "slot_ok E s" if "s \<in> set (clear_slot off ss)" for s
    using that assms by (auto simp: clear_slot_def hoard_inv_def slot_ok_def split: if_splits)
  then show ?thesis
    using assms by (simp add: hoard_inv_def clear_slot_offsets)
qed

lemma hoard_invalidate_slot_chunk_run:
  assumes d: "idle db" "only_soft db" "tabs (db_conn db) = t" "ht_slots t = Some ss" and sm: "small off"
  obtains db' where "hoard_invalidate_slot_chunk off db = Some db'" "later db db'" "idle db'"
    "tabs (db_conn db') = t\<lparr>ht_slots := Some (clear_slot off ss)\<rparr> \<or> tabs (db_conn db') = t \<and> \<not> only_contention db"
proof -
  have v: "stmt_value erase_slot ''d'' [SQL_int off] t =
      Some (Inr (t\<lparr>ht_slots := Some (clear_slot off ss)\<rparr>, changes (length (filter (\<lambda>s. sl_offset s = off) ss))))"
    using d(4) sm by (simp add: erase_slot_def stmt_eval clear_slot_def)
  have "runs t True db (invalidate_slot off db) (\<lambda>_ db'. \<exists>t'. inside t 0 t' db' \<and> t' = t\<lparr>ht_slots := Some (clear_slot off ss)\<rparr>)"
    if "inside t 0 t db" for db
    unfolding invalidate_slot_def by (rule runs_do_last [OF that v]) auto
  from transaction_wrapper_run [OF this d(1-3)] show thesis
    using that unfolding hoard_invalidate_slot_chunk_def simp_thms by blast
qed

lemma gc_rows_run:
  assumes i: "inside t 0 t1 db" "ht_chunks t1 = Some cs" "ht_refs t1 = Some refs" and h: "hoard_inv others E cs ss"
  shows "runs t True db (hoard_gc_rows db) (\<lambda>_ db'. \<exists>t'. inside t 0 t' db' \<and> rows_kept t1 others E ss t')"
proof -
  let ?c = "\<lambda>r. \<exists>tag. hc_tag r = Some tag \<and> tag \<notin> snd ` set refs"
  let ?cs = "map (\<lambda>r. if ?c r then erase_row r else r) cs"
  have "stmt_value gc_chunks [] [] t1 = Some (Inr (t1\<lparr>ht_chunks := Some ?cs\<rparr>, changes (length (filter ?c cs))))"
    using i by (simp add: gc_chunks_def stmt_eval)
  then have "runs t True db (cleanup_action db gc_chunks) (\<lambda>_ db'. inside t 0 (t1\<lparr>ht_chunks := Some ?cs\<rparr>) db')"
    by (rule cleanup_action_run [OF i(1)])
  moreover have "rows_kept t1 others E ss (t1\<lparr>ht_chunks := Some ?cs\<rparr>)"
    using hoard_inv_erase [OF h, of ?c] by (auto simp: rows_kept_def)
  ultimately show ?thesis
    unfolding hoard_gc_rows_def by (elim runs_mono) blast
qed

lemma hoard_gc_run:
  assumes d: "idle db" "only_soft db" "tabs (db_conn db) = t" "ht_chunks t = Some cs" "ht_refs t = Some refs"
    and h: "hoard_inv others E cs ss"
  obtains ret db' where "hoard_gc db = Some (ret, db')" "later db db'" "idle db'" "rows_kept t others E ss (tabs (db_conn db'))"
proof -
  from in_transaction_run [OF gc_rows_run [OF _ d(4,5) h] d(1-3)] obtain r db' where
      r: "in_transaction hoard_gc_rows db = Some (r, db')" "later db db'" "idle db'"
      "case r of Inr a \<Rightarrow> rows_kept t others E ss (tabs (db_conn db')) | Inl e \<Rightarrow> e \<noteq> PK_SUCCESS \<and> tabs (db_conn db') = t \<and> \<not> (True \<and> only_contention db)"
    by blast
  have "rows_kept t others E ss (tabs (db_conn db'))"
    using r(4) rows_kept_same [OF d(4) h] by (auto split: sum.splits)
  with r(1-3) show thesis
    by (intro that [of "case r of Inl _ \<Rightarrow> PK_IOERR | Inr _ \<Rightarrow> PK_SUCCESS" db']) (simp_all add: hoard_gc_def)
qed

section \<open>Leaving\<close>

text \<open>The records of parcels without references are dropped; the chunks stay.\<close>

definition parcels_only :: "hoard_tables \<Rightarrow> hoard_tables \<Rightarrow> bool" where
  "parcels_only t t' \<longleftrightarrow> (\<exists>ps. t' = t\<lparr>ht_parcels := Some ps\<rparr>)"

lemma clean_parcel_run:
  assumes i: "inside t0 k t1 db" and p: "parcels_only t t1" "ht_refs t = Some refs" and q: "q_rows q = [SQL_int j] # rs"
  shows "\<exists>ok db'. clean_parcel q db = Some (ok, db') \<and>
    (if ok then \<exists>t'. inside t0 k t' db' \<and> later db db' \<and> parcels_only t t' else failing t0 k True db db')"
proof -
  obtain ps where t1: "t1 = t\<lparr>ht_parcels := Some ps\<rparr>"
    using p(1) by (auto simp: parcels_only_def)
  let ?j = "int32 j"
  have row: "query_row (Some q) ''d'' = Some [SQL_int ?j]"
    using q by (simp add: query_row_def query_column_def)
  obtain rows where v: "stmt_value sel_ref ''d'' [SQL_int ?j] t1 = Some (Inr (t1, rows))"
    using p(2) by (simp add: sel_ref_def stmt_eval t1)
  obtain ps' n where v2: "stmt_value del_parcel ''d'' [SQL_int ?j] t1 = Some (Inr (t\<lparr>ht_parcels := Some ps'\<rparr>, changes n))"
    by (simp add: del_parcel_def stmt_eval t1)
  from i v show ?thesis
  proof (cases rule: stmt_do_cases)
    case (ok db1 t2 rows2)
    then have i1: "inside t0 k t1 db1"
      by simp
    show ?thesis
    proof (cases "query_has_row db1")
      case True
      then have "clean_parcel q db = Some (True, db1)"
        using row ok(1) by (simp add: clean_parcel_def)
      with i1 ok(4) p(1) show ?thesis by auto
    next
      case False
      then have eq: "clean_parcel q db = query_do db1 del_parcel ''d'' [SQL_int ?j]"
        using row ok(1) by (simp add: clean_parcel_def)
      from i1 v2 show ?thesis
      proof (cases rule: stmt_do_cases)
        case ok2: (ok db2 t3 rows3)
        then have "inside t0 k (t\<lparr>ht_parcels := Some ps'\<rparr>) db2" "parcels_only t (t\<lparr>ht_parcels := Some ps'\<rparr>)"
          by (auto simp: parcels_only_def)
        with eq ok2(1) later_trans [OF ok(4) ok2(4)] show ?thesis by auto
      next
        case (fail db2)
        have "failing t0 k True db1 db2"
          using fail(3) [of True] by simp
        with eq fail(1) failing_later [OF ok(4)] show ?thesis by auto
      qed simp
    qed
  next
    case (fail db1)
    have "failing t0 k True db db1"
      using fail(3) [of True] by simp
    with row fail(1) show ?thesis
      by (auto simp: clean_parcel_def)
  qed simp
qed

text \<open>Nobody else uses the hoard, so the slots that nobody filled are free.\<close>

lemma release_orphans_inv:
  assumes "chunks_inv own E cs"
  shows "chunks_inv {} E (map (\<lambda>r. if hc_allocated r = 1 \<and> hc_tag r = None then r\<lparr>hc_allocated := 0\<rparr> else r) cs)"
  by (rule chunks_inv_map [OF assms]) (use chunks_inv_rows [OF assms] in \<open>auto simp: row_ok_def\<close>)

lemma cleanup_rows_run:
  assumes i: "inside t 0 t db" "ht_chunks t = Some cs" "ht_parcels t = Some ps" "ht_refs t = Some refs" and h: "chunks_inv own E cs"
  shows "runs t True db (cleanup_rows gc db) (\<lambda>_ db'. \<exists>t'. inside t 0 t' db' \<and>
    (\<exists>ps' cs'. t' = t\<lparr>ht_parcels := Some ps', ht_chunks := Some cs'\<rparr> \<and> chunks_inv {} E cs'))"
  unfolding cleanup_rows_def
proof (rule runs_scan [where enc = "\<lambda>j. [SQL_int j]" and R = "map fst ps" and I = "\<lambda>_. parcels_only t", OF i(1)])
  show "stmt_value sel_parcels [] [] t = Some (Inr (t, map (\<lambda>j. [SQL_int j]) (map fst ps)))"
    using i(3) by (simp add: sel_parcels_def stmt_eval split_def)
  have "t = t\<lparr>ht_parcels := Some ps\<rparr>"
    using i(3) by simp
  then show "parcels_only t t"
    unfolding parcels_only_def by blast
  fix t1 db1
  assume i1: "inside t 0 t1 db1" and "parcels_only t t1"
  then obtain ps' where t1: "t1 = t\<lparr>ht_parcels := Some ps'\<rparr>"
    by (auto simp: parcels_only_def)
  let ?c = "\<lambda>r. hc_allocated r = 1 \<and> hc_tag r = None"
  let ?cs = "map (\<lambda>r. if ?c r then r\<lparr>hc_allocated := 0\<rparr> else r) cs"
  let ?t2 = "t\<lparr>ht_parcels := Some ps', ht_chunks := Some ?cs\<rparr>"
  note inv = release_orphans_inv [OF h]
  have "stmt_value release_orphans [] [] t1 = Some (Inr (?t2, changes (length (filter ?c cs))))"
    using i(2) by (simp add: release_orphans_def stmt_eval t1)
  then have rel: "runs t True db1 (cleanup_action db1 release_orphans) (\<lambda>_ db'. inside t 0 ?t2 db')"
    by (rule cleanup_action_run [OF i1])
  show "runs t True db1 (do {
       (r, db) \<leftarrow> cleanup_action db1 release_orphans;
       (case r of Inl e \<Rightarrow> Some (Inl e, db) | Inr _ \<Rightarrow> if gc then hoard_gc_rows db else Some (Inr (), db))
     }) (\<lambda>_ db'. \<exists>t'. inside t 0 t' db' \<and>
       (\<exists>ps' cs'. t' = t\<lparr>ht_parcels := Some ps', ht_chunks := Some cs'\<rparr> \<and> chunks_inv {} E cs'))"
  proof (rule runs_bind [OF rel])
    fix db2
    assume i2: "inside t 0 ?t2 db2"
    have "hoard_inv {} E ?cs []"
      using inv by (simp add: hoard_inv_def slot_offsets_def)
    from gc_rows_run [OF i2 _ _ this] have g: "runs t True db2 (hoard_gc_rows db2) (\<lambda>_ db'. \<exists>t'. inside t 0 t' db' \<and> rows_kept ?t2 {} E [] t')"
      using i(4) by simp
    show "runs t True db2 (if gc then hoard_gc_rows db2 else Some (Inr (), db2)) (\<lambda>_ db'. \<exists>t'. inside t 0 t' db' \<and>
       (\<exists>ps' cs'. t' = t\<lparr>ht_parcels := Some ps', ht_chunks := Some cs'\<rparr> \<and> chunks_inv {} E cs'))"
    proof (cases gc)
      case True
      have "runs t True db2 (hoard_gc_rows db2) (\<lambda>_ db'. \<exists>t'. inside t 0 t' db' \<and>
          (\<exists>ps' cs'. t' = t\<lparr>ht_parcels := Some ps', ht_chunks := Some cs'\<rparr> \<and> chunks_inv {} E cs'))"
        by (rule runs_mono [OF g]) (force simp: rows_kept_def hoard_inv_def slot_offsets_def)
      with True show ?thesis by simp
    next
      case False
      have "runs t True db2 (Some (Inr (), db2)) (\<lambda>_ db'. \<exists>t'. inside t 0 t' db' \<and>
          (\<exists>ps' cs'. t' = t\<lparr>ht_parcels := Some ps', ht_chunks := Some cs'\<rparr> \<and> chunks_inv {} E cs'))"
        by (rule runs_return) (use i2 inv in blast)
      with False show ?thesis by simp
    qed
  qed
qed (use clean_parcel_run i(4) in \<open>auto simp del: if_split\<close>)

text \<open>
  The whole cleanup: without the lock nothing changes; with it, and nobody else there, the table is left without any slot taken.
\<close>

definition cleaned_up :: "hoard_tables \<Rightarrow> entry_pred \<Rightarrow> hoard_tables \<Rightarrow> bool" where
  "cleaned_up t E t' \<longleftrightarrow> t' = t \<or> (\<exists>ps cs. t' = t\<lparr>ht_parcels := Some ps, ht_chunks := Some cs\<rparr> \<and> chunks_inv {} E cs)"

lemma hoard_try_cleanup_run:
  assumes d: "idle db" "only_soft db" "tabs (db_conn db) = t" "ht_chunks t = Some cs" "ht_parcels t = Some ps" "ht_refs t = Some refs"
    and h: "chunks_inv own E cs"
  obtains ret db' where "hoard_try_cleanup lock flags dice db = Some (ret, db')" "later db db'" "idle db'"
    "cleaned_up t E (tabs (db_conn db'))" "lock \<noteq> PK_SUCCESS \<Longrightarrow> tabs (db_conn db') = t"
proof (cases "lock = PK_SUCCESS")
  case False
  then show thesis
    using that [of "if lock = PK_BUSY then PK_SUCCESS else lock" db] d(1,3) by (simp add: hoard_try_cleanup_def cleaned_up_def)
next
  case True
  let ?gc = "flags AND WANT_GC \<noteq> 0 \<and> fst dice = 0"
  from in_transaction_run [OF cleanup_rows_run [OF _ d(4-6) h, where gc = ?gc] d(1-3)] obtain r db1 where
      r: "in_transaction (cleanup_rows ?gc) db = Some (r, db1)" "later db db1" "idle db1"
      "case r of Inr a \<Rightarrow> (\<exists>ps' cs'. tabs (db_conn db1) = t\<lparr>ht_parcels := Some ps', ht_chunks := Some cs'\<rparr> \<and> chunks_inv {} E cs')
       | Inl e \<Rightarrow> e \<noteq> PK_SUCCESS \<and> tabs (db_conn db1) = t \<and> \<not> (True \<and> only_contention db)"
    by blast
  have c: "cleaned_up t E (tabs (db_conn db1))"
    using r(4) by (auto simp: cleaned_up_def split: sum.splits)
  show thesis
  proof (cases "r = Inr () \<and> flags AND WANT_GC \<noteq> 0 \<and> snd dice = 0")
    case vac: True
    obtain rows where "stmt_value sel_master [] [] (tabs (db_conn db1)) = Some (Inr (tabs (db_conn db1), rows))"
      by (simp add: sel_master_def stmt_eval)
    from vacuum_run [OF r(3) later_soft [OF r(2) d(2)] refl this] obtain ok db2 where
        v: "vacuum sel_master db1 = Some (ok, db2)" "later db1 db2" "idle db2" "tabs (db_conn db2) = tabs (db_conn db1)"
      by blast
    have "hoard_try_cleanup lock flags dice db = Some (PK_SUCCESS, db2)"
      using True vac r(1) v(1) by (simp add: hoard_try_cleanup_def)
    with that [of PK_SUCCESS db2] v later_trans [OF r(2)] c True show thesis by simp
  next
    case False
    then have "hoard_try_cleanup lock flags dice db = Some (case r of Inl e \<Rightarrow> e | Inr _ \<Rightarrow> PK_SUCCESS, db1)"
      using True r(1) by (auto simp: hoard_try_cleanup_def split: sum.splits)
    with that r(2,3) c True show thesis by blast
  qed
qed

text \<open>
  A process leaves: its slots go back, or stay behind as taken if the flush failed; they are released when it was the last one.
\<close>

lemma hoard_shutdown_run:
  assumes d: "idle db" "only_soft db" "tabs (db_conn db) = t" "ht_chunks t = Some cs" "ht_slots t = Some ss"
    "ht_parcels t = Some ps" "ht_refs t = Some refs"
    and h: "hoard_inv others E cs ss" "numeric E" and l: "lock = PK_SUCCESS \<Longrightarrow> others = {}"
  obtains cs' ps' where "hoard_shutdown lock flags dice db = Some (t\<lparr>ht_parcels := Some ps', ht_chunks := Some cs', ht_slots := None\<rparr>)"
    "chunks_inv others E cs'"
proof -
  obtain db1 where f: "flush_slot_cache db = Some db1" "later db db1" "idle db1"
      "(\<exists>cs'. tabs (db_conn db1) = with_rows t cs' [] \<and> chunks_inv others E cs' \<and> retagged cs (slot_tags ss) cs')
        \<or> tabs (db_conn db1) = t \<and> \<not> only_contention db"
    by (rule flush_slot_cache_run [OF d(1-5) h])
  have "chunks_inv others E cs"
    using h(1) by (auto simp: hoard_inv_def intro: chunks_inv_own)
  moreover have "t = with_rows t cs ss"
    using d(4,5) by simp
  ultimately obtain cs1 ss1 where t1: "tabs (db_conn db1) = with_rows t cs1 ss1" "chunks_inv others E cs1"
    using f(4) by blast
  have g: "ht_chunks (with_rows t cs1 ss1) = Some cs1" "ht_parcels (with_rows t cs1 ss1) = Some ps" "ht_refs (with_rows t cs1 ss1) = Some refs"
    using d by simp_all
  from hoard_try_cleanup_run [OF f(3) later_soft [OF f(2) d(2)] t1(1) g t1(2), of lock flags dice] obtain ret db2 where
      c: "hoard_try_cleanup lock flags dice db1 = Some (ret, db2)" "cleaned_up (with_rows t cs1 ss1) E (tabs (db_conn db2))"
      "lock \<noteq> PK_SUCCESS \<longrightarrow> tabs (db_conn db2) = with_rows t cs1 ss1"
    by metis
  have s: "hoard_shutdown lock flags dice db = Some (close_hoard db2)"
    using f(1) c(1) by (simp add: hoard_shutdown_def)
  show thesis
  proof (cases "tabs (db_conn db2) = with_rows t cs1 ss1")
    case True
    then show thesis
      using that [of cs1 ps] s t1(2) d(6) by (simp add: close_hoard_def)
  next
    case False
    then obtain ps' cs' where "tabs (db_conn db2) = (with_rows t cs1 ss1)\<lparr>ht_parcels := Some ps', ht_chunks := Some cs'\<rparr>" "chunks_inv {} E cs'" "others = {}"
      using c(2,3) l by (auto simp: cleaned_up_def)
    then show thesis
      using that [of cs' ps'] s by (simp add: close_hoard_def)
  qed
qed

section \<open>Entering\<close>

text \<open>The effect of statements one after another.\<close>

fun apply_all :: "hoard_tables sql list \<Rightarrow> hoard_tables \<Rightarrow> hoard_tables option" where
  "apply_all [] t = Some t"
| "apply_all (s # ss) t = (case stmt_value s [] [] t of Some (Inr (t', _)) \<Rightarrow> apply_all ss t' | _ \<Rightarrow> None)"

lemma run_all_run:
  assumes "inside t0 0 t db" "apply_all ss t = Some t'"
  shows "runs t0 True db (run_all ss db) (\<lambda>_ db'. inside t0 0 t' db')"
  using assms
proof (induction ss arbitrary: t db)
  case Nil
  then show ?case
    by (simp add: runs_return)
next
  case (Cons s ss)
  then obtain t1 rows where v: "stmt_value s [] [] t = Some (Inr (t1, rows))" "apply_all ss t1 = Some t'"
    by (auto split: option.splits sum.splits)
  show ?case
    unfolding run_all.simps
    by (rule runs_do [OF Cons.prems(1) v(1)]) (use v(2) Cons.IH in auto)
qed

definition created :: "hoard_tables \<Rightarrow> hoard_tables" where
  "created t = t\<lparr>ht_version := HOARD_INDEX_VERSION, ht_parcels := Some [], ht_chunks := Some [], ht_refs := Some [],
     ht_indices := [(''refs_bytag'', ''refs''), (''refs_constraint'', ''refs''), (''chunks_allocated'', ''chunks'')]\<rparr>"

definition blank :: "hoard_tables \<Rightarrow> bool" where
  "blank t \<longleftrightarrow> ht_version t = 0 \<and> ht_indices t = [] \<and> ht_parcels t = None \<and> ht_chunks t = None \<and> ht_refs t = None"

lemma create_hoard_index_run:
  assumes "inside t0 0 t db" "blank t"
  shows "runs t0 True db (create_hoard_index db) (\<lambda>_ db'. inside t0 0 (created t) db')"
  unfolding create_hoard_index_def
  by (rule run_all_run [OF assms(1)])
    (use assms(2) in \<open>simp add: blank_def created_def set_user_version_def create_parcels_def create_chunks_table_def create_refs_def
      create_index_def table_exists_def stmt_eval\<close>)

lemma check_hoard_index_run:
  assumes i: "inside t0 0 t db" "ht_slots t = None" and v: "blank t \<or> ht_version t = HOARD_INDEX_VERSION"
  shows "runs t0 True db (check_hoard_index db)
    (\<lambda>_ db'. \<exists>t'. inside t0 0 t' db' \<and> t' = (if blank t then created t else t)\<lparr>ht_slots := Some []\<rparr>)"
proof -
  have "stmt_value get_user_version [] [] t = Some (Inr (t, [[SQL_int (ht_version t)]]))"
    by (simp add: get_user_version_def stmt_eval)
  with i(1) show ?thesis
  proof (cases rule: stmt_row_cases [where good = True])
    case (row q db1)
    let ?db = "query_free (Some q) db1" and ?t = "if blank t then created t else t"
    note in1 = inside_free [OF row(4)] and lt = later_freeI [OF row(5), of "Some q"]
    let ?m = "if ht_version t = 0 then create_hoard_index ?db else if ht_version t < HOARD_INDEX_VERSION then upgrade_hoard_index (ht_version t) ?db
      else Some (if HOARD_INDEX_VERSION < ht_version t then Inl PK_BADFORMAT else Inr (), ?db)"
    have ver: "query_row (Some q) ''d'' = Some [SQL_int (ht_version t)]"
      using row(2) v by (auto simp: query_row_def query_column_def blank_def HOARD_INDEX_VERSION_def)
    have m: "runs t0 True ?db ?m (\<lambda>_ db'. inside t0 0 ?t db')"
    proof (cases "blank t")
      case True
      then show ?thesis
        using create_hoard_index_run [OF in1 True] by (simp add: blank_def)
    next
      case False
      with v show ?thesis
        using in1 by (simp add: HOARD_INDEX_VERSION_def runs_return)
    qed
    have eq: "check_hoard_index db = do { (r, db) \<leftarrow> ?m; (case r of Inl e \<Rightarrow> Some (Inl e, db) | Inr _ \<Rightarrow> create_slot_cache db) }"
      using row(1,6) ver by (simp add: check_hoard_index_def Let_def)
    have sl: "runs t0 True db2 (create_slot_cache db2) (\<lambda>_ db'. \<exists>t'. inside t0 0 t' db' \<and> t' = ?t\<lparr>ht_slots := Some []\<rparr>)"
      if i2: "inside t0 0 ?t db2" for db2
      unfolding create_slot_cache_def
      by (rule runs_do_last [OF i2, where v = "Inr (?t\<lparr>ht_slots := Some []\<rparr>, [])"]) (use i(2) in \<open>auto simp: stmt_eval created_def\<close>)
    show ?thesis
      unfolding eq by (rule runs_later [OF lt runs_bind [OF m sl]])
  next
    case (fail db1)
    then show ?thesis
      by (simp add: check_hoard_index_def runs_fail)
  qed
qed

lemma param_put_new: "i \<notin> fst ` set ps \<Longrightarrow> param_put i v ps = (i, v) # ps"
  by (simp add: param_put_def)

lemma upd_parcel_params:
  "param_set_group 0 ''SSSdSSS'' [SQL_text a, SQL_text b, SQL_text c, SQL_int j, SQL_text d, SQL_text e, SQL_text f] []
    = Some (Some [(7, SQL_text f), (6, SQL_text e), (5, SQL_text d), (4, SQL_int (int32 j)), (3, SQL_text c), (2, SQL_text b), (1, SQL_text a)])"
  by (simp add: param_arg_def param_put_new)

lemma ins_parcel_params:
  "param_set_group 0 ''SSSS'' [SQL_text a, SQL_text b, SQL_text c, SQL_text d] []
    = Some (Some [(4, SQL_text d), (3, SQL_text c), (2, SQL_text b), (1, SQL_text a)])"
  by (simp add: param_arg_def param_put_new)

lemma parcel_ident_row_run:
  assumes i: "inside t0 0 t db" "ht_parcels t = Some ps"
  shows "runs t0 True db (parcel_ident_row p db) (\<lambda>_ db'. \<exists>t'. inside t0 0 t' db' \<and> parcels_only t t')"
proof -
  define ps1 where "ps1 = (if p_uuid p \<in> (\<lambda>(_, u, _). u) ` set ps then ps
    else ps @ [(if ps = [] then 1 else Max (fst ` set ps) + 1, p_uuid p, p_server p, p_user p, p_parcel p)])"
  let ?t1 = "t\<lparr>ht_parcels := Some ps1\<rparr>"
  have v1: "\<exists>n. stmt_value ins_parcel ''SSSS'' [SQL_text (p_uuid p), SQL_text (p_server p), SQL_text (p_user p), SQL_text (p_parcel p)] t
      = Some (Inr (?t1, changes n))"
  proof (cases "p_uuid p \<in> (\<lambda>(_, u, _). u) ` set ps")
    case True
    then have "?t1 = t"
      using i(2) by (simp add: ps1_def)
    with True i(2) show ?thesis
      unfolding stmt_value_def ins_parcel_def ins_parcel_params by (intro exI [of _ 0]) simp
  next
    case False
    with i(2) show ?thesis
      unfolding stmt_value_def ins_parcel_def ins_parcel_params by (intro exI [of _ 1]) (simp add: ps1_def)
  qed
  have "p_uuid p \<in> (\<lambda>(_, u, _). u) ` set ps1"
    by (simp add: ps1_def)
  then have "filter (\<lambda>(_, u, _). u = p_uuid p) ps1 \<noteq> []"
    unfolding filter_empty_conv by fastforce
  then obtain j rest js where f: "filter (\<lambda>(_, u, _). u = p_uuid p) ps1 = (j, rest) # js"
    by (cases "filter (\<lambda>(_, u, _). u = p_uuid p) ps1") auto
  then have v2: "stmt_value sel_parcel ''S'' [SQL_text (p_uuid p)] ?t1 = Some (Inr (?t1, [SQL_int j] # map (\<lambda>(i, _). [SQL_int i]) js))"
    by (simp add: sel_parcel_def stmt_eval)
  let ?args = "[SQL_text (p_server p), SQL_text (p_user p), SQL_text (p_parcel p), SQL_int (int32 j),
    SQL_text (p_server p), SQL_text (p_user p), SQL_text (p_parcel p)]"
  let ?c = "\<lambda>(i, _, s, u, n). i = int32 (int32 j) \<and> (SQL_text s \<noteq> SQL_text (p_server p) \<or> SQL_text u \<noteq> SQL_text (p_user p)
    \<or> SQL_text n \<noteq> SQL_text (p_parcel p))"
  let ?ps2 = "map (\<lambda>r. if ?c r then (fst r, fst (snd r), p_server p, p_user p, p_parcel p) else r) ps1"
  have v3: "stmt_value upd_parcel ''SSSdSSS'' ?args ?t1 = Some (Inr (t\<lparr>ht_parcels := Some ?ps2\<rparr>, changes (length (filter ?c ps1))))"
    unfolding stmt_value_def upd_parcel_def upd_parcel_params by (simp add: Let_def)
  from v1 obtain n where v1: "stmt_value ins_parcel ''SSSS'' [SQL_text (p_uuid p), SQL_text (p_server p), SQL_text (p_user p), SQL_text (p_parcel p)] t
      = Some (Inr (?t1, changes n))" ..
  show ?thesis
    unfolding parcel_ident_row_def
  proof (rule runs_do [OF i(1) v1])
    fix t' rows db1
    assume "Inr (?t1, changes n) = Inr (t', rows)" "inside t0 0 t' db1"
    then have i1: "inside t0 0 ?t1 db1"
      by auto
    let ?rest = "do {
       (_, qry, db) \<leftarrow> query True db1 sel_parcel ''S'' [SQL_text (p_uuid p)];
       if \<not> query_has_row db then Some (Inl PK_IOERR, db)
       else do {
         row \<leftarrow> query_row qry ''d'';
         (case row of
            [SQL_int ident] \<Rightarrow> do {
              (ok, db) \<leftarrow> query_do (query_free qry db) upd_parcel ''SSSdSSS''
                [SQL_text (p_server p), SQL_text (p_user p), SQL_text (p_parcel p), SQL_int ident,
                 SQL_text (p_server p), SQL_text (p_user p), SQL_text (p_parcel p)];
              Some (if ok then Inr ident else Inl PK_IOERR, db)
            }
          | _ \<Rightarrow> None)
       }
     }"
    from i1 v2 show "runs t0 True db1 ?rest (\<lambda>_ db'. \<exists>t'. inside t0 0 t' db' \<and> parcels_only t t')"
    proof (cases rule: stmt_row_cases [where good = True])
      case (row q db2)
      let ?db = "query_free (Some q) db2"
      have eq: "?rest = do { (ok, db) \<leftarrow> query_do ?db upd_parcel ''SSSdSSS'' ?args; Some (if ok then Inr (int32 j) else Inl PK_IOERR, db) }"
        using row(1,2,6) by (simp add: query_row_def query_column_def)
      have "runs t0 True ?db (do { (ok, db) \<leftarrow> query_do ?db upd_parcel ''SSSdSSS'' ?args; Some (if ok then Inr (int32 j) else Inl PK_IOERR, db) })
          (\<lambda>_ db'. \<exists>t'. inside t0 0 t' db' \<and> parcels_only t t')"
        by (rule runs_do_last [OF inside_free [OF row(4)] v3]) (auto simp: parcels_only_def)
      then show ?thesis
        unfolding eq by (rule runs_later [OF later_freeI [OF row(5)]])
    next
      case (fail db2)
      then show ?thesis
        by (simp add: runs_fail)
    qed
  qed simp_all
qed

lemma get_parcel_ident_run:
  assumes d: "idle db" "only_soft db" "tabs (db_conn db) = t" "ht_parcels t = Some ps"
  obtains r db' where "get_parcel_ident p db = Some (r, db')" "later db db'" "idle db'" "parcels_only t (tabs (db_conn db'))"
proof -
  obtain r db' where
      r: "in_transaction (parcel_ident_row p) db = Some (r, db')" "later db db'" "idle db'"
      "case r of Inr a \<Rightarrow> parcels_only t (tabs (db_conn db')) | Inl e \<Rightarrow> e \<noteq> PK_SUCCESS \<and> tabs (db_conn db') = t \<and> \<not> (True \<and> only_contention db)"
    by (rule in_transaction_run [OF parcel_ident_row_run [OF _ d(4), where p = p] d(1-3)])
  have "parcels_only t t"
    using d(4) unfolding parcels_only_def by (intro exI [of _ ps]) simp
  then have "parcels_only t (tabs (db_conn db'))"
    using r(4) by (auto split: sum.splits)
  with r(1-3) that show thesis
    by (simp add: get_parcel_ident_def)
qed

lemma enter_run:
  assumes d: "idle db" "only_soft db" "tabs (db_conn db) = t" "ht_slots t = None" "blank t \<or> ht_version t = HOARD_INDEX_VERSION"
    and r: "in_transaction check_hoard_index db = Some (Inr (), db')"
  shows "tabs (db_conn db') = (if blank t then created t else t)\<lparr>ht_slots := Some []\<rparr>"
proof -
  obtain r' db1 where
      "in_transaction check_hoard_index db = Some (r', db1)"
      "case r' of Inr a \<Rightarrow> tabs (db_conn db1) = (if blank t then created t else t)\<lparr>ht_slots := Some []\<rparr>
        | Inl e \<Rightarrow> e \<noteq> PK_SUCCESS \<and> tabs (db_conn db1) = t \<and> \<not> (True \<and> only_contention db)"
    by (rule in_transaction_run [OF check_hoard_index_run [OF _ d(4,5)] d(1-3)])
  with r show ?thesis by simp
qed

end
