(* ===== verification/Isr_Hoard_Get.thy ===== *)
theory Isr_Hoard_Get
  imports Isr_Hoard_Ops
begin

text \<open>
  Reading a chunk from the hoard cache: \<open>hoard_get_chunk\<close> looks the tag up in the slot cache and in the shared table, reads the bytes,
  compares their digest with the tag, and drops the entry and starts again if anything is wrong.  Under contention alone the loop
  ends, whatever the file holds: every turn drops an entry for the tag.
\<close>

section \<open>The lookup\<close>

definition found :: "hoard_row list \<Rightarrow> hoard_slot list \<Rightarrow> bytes \<Rightarrow> (bool \<times> int \<times> int) option \<Rightarrow> bool" where
  "found cs ss tag x \<longleftrightarrow> (case x of
     None \<Rightarrow> tag \<notin> row_tags cs \<union> slot_tags ss
   | Some (True, off, len) \<Rightarrow> \<exists>s \<in> set ss. sl_tag s = Some tag \<and> sl_offset s = off \<and> sl_length s = len
   | Some (False, off, len) \<Rightarrow> \<exists>r \<in> set cs. hc_tag r = Some tag \<and> hc_offset r = off \<and> hc_length r = len)"

lemma slot_numbers_small:
  assumes "hoard_inv others E cs ss" "numeric E" "s \<in> set ss" "sl_tag s = Some tag"
  shows "small (sl_offset s)" "small (sl_length s)"
proof -
  have "chunks_inv (slot_offsets ss \<union> others) E cs" "slot_ok E s" "sl_offset s \<in> slot_offsets ss \<union> others"
    using assms(1,3) by (auto simp: hoard_inv_def slot_offsets_def)
  then show "small (sl_offset s)" "small (sl_length s)"
    using assms(2,4) offset_small chunks_inv_offset by (auto simp: slot_ok_def numeric_def)
qed

lemma row_numbers_small:
  assumes "hoard_inv others E cs ss" "numeric E" "r \<in> set cs" "hc_tag r = Some tag"
  shows "small (hc_offset r)" "small (hc_length r)"
proof -
  have "row_ok E r"
    using assms(1,3) chunks_inv_rows by (auto simp: hoard_inv_def)
  then show "small (hc_offset r)" "small (hc_length r)"
    using assms(2,4) offset_small by (auto simp: row_ok_def numeric_def)
qed

lemma lookup_done_run:
  assumes "inside t 0 t db" "found cs ss tag x"
  shows "body_runs t True (\<lambda>f'. f' = f) (\<lambda>f'. f' = f) db (lookup_done x db f) (\<lambda>x t' f'. t' = t \<and> f' = f \<and> found cs ss tag x)"
  unfolding lookup_done_def by (rule body_runs_commit [OF assms(1)]) (use assms(2) in simp_all)

lemma hoard_lookup_run:
  assumes i: "inside t 0 t db" "ht_chunks t = Some cs" "ht_slots t = Some ss"
    and h: "hoard_inv others E cs ss" "numeric E"
  shows "body_runs t True (\<lambda>f'. f' = f) (\<lambda>f'. f' = f) db (hoard_lookup tag db f) (\<lambda>x t' f'. t' = t \<and> f' = f \<and> found cs ss tag x)"
    (is "body_runs t True ?k ?k db _ ?post")
  using i(1) sel_slot_tag_value [OF i(3), of tag]
proof (cases rule: stmt_rows_cases)
  case (rows q db1 t1)
  then obtain s ss1 where f: "filter (\<lambda>s. sl_tag s = Some tag) ss = s # ss1"
    by (cases "filter (\<lambda>s. sl_tag s = Some tag) ss") auto
  then have "s \<in> set (filter (\<lambda>s. sl_tag s = Some tag) ss)"
    by simp
  then have s: "s \<in> set ss" "sl_tag s = Some tag"
    by simp_all
  have sm: "small (sl_offset s)" "small (sl_length s)"
    using h s slot_numbers_small by blast+
  have row: "query_row (Some q) ''dd'' = Some [SQL_int (sl_offset s), SQL_int (sl_length s)]"
  proof -
    have "q_rows q = [SQL_int (sl_offset s), SQL_int (sl_length s)] # map (\<lambda>s. [SQL_int (sl_offset s), SQL_int (sl_length s)]) ss1"
      using rows(2) f by simp
    with sm show ?thesis by (simp add: query_row_def query_column_def)
  qed
  let ?x = "Some (True, sl_offset s, sl_length s)" and ?db = "query_free (Some q) db1"
  have eq: "hoard_lookup tag db f = lookup_done ?x ?db f"
    using rows(1,7) row by (simp add: hoard_lookup_def query_has_row_def)
  have "inside t 0 t ?db"
    using inside_free [OF rows(5)] rows(2) by simp
  then have "body_runs t True ?k ?k ?db (lookup_done ?x ?db f) ?post"
    by (rule lookup_done_run) (use s in \<open>auto simp: found_def\<close>)
  then show ?thesis
    unfolding eq by (rule body_runs_later [OF later_freeI [OF rows(6)]])
next
  case (none db1 t1)
  then have i1: "inside t 0 t db1" and n: "tag \<notin> slot_tags ss"
    by (auto simp: slot_tags_def filter_empty_conv)
  from i1 sel_row_tag_value [OF i(2), of tag] have "body_runs t True ?k ?k db1 (hoard_lookup tag db f) ?post"
  proof (cases rule: stmt_rows_cases)
    case (rows q db2 t2)
    then obtain r rs where f: "filter (\<lambda>r. hc_tag r = Some tag) cs = r # rs"
      by (cases "filter (\<lambda>r. hc_tag r = Some tag) cs") auto
    then have "r \<in> set (filter (\<lambda>r. hc_tag r = Some tag) cs)"
      by simp
    then have r: "r \<in> set cs" "hc_tag r = Some tag"
      by simp_all
    have sm: "small (hc_offset r)" "small (hc_length r)"
      using h r row_numbers_small by blast+
    have row: "query_row (Some q) ''dd'' = Some [SQL_int (hc_offset r), SQL_int (hc_length r)]"
    proof -
      have "q_rows q = [SQL_int (hc_offset r), SQL_int (hc_length r)] # map (\<lambda>r. [SQL_int (hc_offset r), SQL_int (hc_length r)]) rs"
        using rows(2) f by simp
      with sm show ?thesis by (simp add: query_row_def query_column_def)
    qed
    let ?x = "Some (False, hc_offset r, hc_length r)" and ?db = "query_free (Some q) db2"
    have eq: "hoard_lookup tag db f = lookup_done ?x ?db f"
      using none(1,5) rows(1,7) row by (simp add: hoard_lookup_def query_has_row_def query_ok_def)
    have "inside t 0 t ?db"
      using inside_free [OF rows(5)] rows(2) by simp
    then have "body_runs t True ?k ?k ?db (lookup_done ?x ?db f) ?post"
      by (rule lookup_done_run) (use r in \<open>auto simp: found_def\<close>)
    then show ?thesis
      unfolding eq by (rule body_runs_later [OF later_freeI [OF rows(6)]])
  next
    case none2: (none db2 t2)
    then have "inside t 0 t db2" and "found cs ss tag None"
      using n by (auto simp: found_def row_tags_def filter_empty_conv)
    then have "body_runs t True ?k ?k db2 (lookup_done None db2 f) ?post"
      by (rule lookup_done_run)
    moreover have "hoard_lookup tag db f = lookup_done None db2 f"
      using none(1,5) none2(1,5) by (simp add: hoard_lookup_def query_has_row_def query_ok_def)
    ultimately show ?thesis
      by (simp add: body_runs_later [OF none2(4)])
  next
    case (fail db2)
    have fl: "failing t 0 True db1 db2"
      using fail(2) by simp
    then have "hoard_lookup tag db f = Some (Inl PK_IOERR, db2, f)"
      using none(1,5) fail(1) by (simp add: hoard_lookup_def query_has_row_def [of db1] failing_def)
    with fl show ?thesis
      by (simp add: body_runs_fail)
  qed
  then show ?thesis
    by (rule body_runs_later [OF none(4)])
next
  case (fail db1)
  then have "hoard_lookup tag db f = Some (Inl PK_IOERR, db1, f)"
    by (simp add: hoard_lookup_def)
  with fail(2) [of True] show ?thesis
    by (simp add: body_runs_fail)
qed

section \<open>Reading\<close>

lemma crypto_digest_sha1: "iu_chunk_crypto_digest IU_CHUNK_CRY_AES_SHA1 buf = Some (Some (sha1_spec_hash buf))"
proof -
  obtain h where h: "isrcry_hash_alloc ISRCRY_HASH_SHA1 = Some h" "sha1_holds h []"
    by (rule sha1_open)
  obtain h' where "isrcry_hash_final (isrcry_hash_update h buf) = Some (h', sha1_spec_hash buf)"
    by (rule sha1_digest_again [OF h(2)])
  with h(1) show ?thesis
    by (simp add: iu_chunk_crypto_digest_def aes_sha1_algs)
qed

lemma hoard_read_chunk_run:
  obtains ret buf f' where "hoard_read_chunk lmt off len IU_CHUNK_CRY_AES_SHA1 tag f = Some (ret, buf, f')" "f_data f' = f_data f"
    "f_faults f = [] \<longrightarrow> f' = f" "ret = PK_SUCCESS \<longrightarrow> sha1_spec_hash buf = tag"
proof -
  obtain b f1 where r: "pread (nat len) (nat off * 512) f = (b, f1)"
    by fastforce
  have q: "f_faults f = [] \<longrightarrow> f1 = f"
    using r by (auto simp: pread_quiet)
  show thesis
    by (rule that [of "fst (the (hoard_read_chunk lmt off len IU_CHUNK_CRY_AES_SHA1 tag f))"
          "fst (snd (the (hoard_read_chunk lmt off len IU_CHUNK_CRY_AES_SHA1 tag f)))"
          "snd (snd (the (hoard_read_chunk lmt off len IU_CHUNK_CRY_AES_SHA1 tag f)))"])
      (use q pread_data(1) [OF r] in \<open>simp_all add: hoard_read_chunk_def r crypto_digest_sha1\<close>)
qed

lemma hoard_read_chunk_good:
  assumes "entry True (f_data f) tag off len cry" "0 \<le> off" "f_faults f = []"
  shows "\<exists>buf. hoard_read_chunk (Some 131072) off len IU_CHUNK_CRY_AES_SHA1 tag f = Some (PK_SUCCESS, buf, f)"
proof -
  let ?b = "take (nat len) (drop (nat off * 512) (f_data f))"
  have e: "0 < len" "len \<le> 131072" "nat off * 512 + nat len \<le> length (f_data f)" "sha1_spec_hash ?b = tag"
    using assms(1) by (simp_all add: entry_def)
  have l: "length ?b = nat len" "length tag = 20" "nat len \<le> 131072"
    using e by (simp_all flip: e(4))
  show ?thesis
    using e l assms(2)
    by (simp add: hoard_read_chunk_def pread_quiet [OF assms(3)] crypto_digest_sha1 iu_chunk_crypto_hashlen_def aes_sha1_algs)
qed

section \<open>One attempt\<close>

definition entries :: "bytes \<Rightarrow> hoard_row list \<Rightarrow> hoard_slot list \<Rightarrow> nat" where
  "entries tag cs ss = length (filter (\<lambda>s. sl_tag s = Some tag) ss) + length (filter (\<lambda>r. hc_tag r = Some tag) cs)"

lemma length_filter_drop:
  assumes "\<And>x. x \<in> set xs \<Longrightarrow> P (g x) \<Longrightarrow> P x" "x \<in> set xs" "P x" "\<not> P (g x)"
  shows "length (filter P (map g xs)) < length (filter P xs)"
proof -
  have "filter (P \<circ> g) xs = filter (P \<circ> g) (filter P xs)"
    using assms(1) by (simp add: filter_filter) (metis (mono_tags, lifting) comp_apply filter_cong)
  moreover have "length (filter (P \<circ> g) (filter P xs)) < length (filter P xs)"
    by (rule length_filter_less [of x]) (use assms(2-4) in simp_all)
  ultimately show ?thesis
    by (simp add: filter_map)
qed

lemma entries_clear:
  assumes "s \<in> set ss" "sl_tag s = Some tag"
  shows "entries tag cs (clear_slot (sl_offset s) ss) < entries tag cs ss"
  unfolding entries_def clear_slot_def
  by (rule add_less_mono1, rule length_filter_drop [of _ _ _ s]) (use assms in \<open>auto split: if_splits\<close>)

lemma entries_erased:
  assumes "r \<in> set cs" "hc_tag r = Some tag"
  shows "entries tag (erased (hc_offset r) tag cs) ss < entries tag cs ss"
  unfolding entries_def erased_def
  by (rule add_strict_left_mono, rule length_filter_drop [of _ _ _ r]) (use assms in \<open>auto simp: erase_row_def split: if_splits\<close>)

text \<open>
  The states of the loop: the rows and the slots are those the attempts so far have left.
\<close>

lemma only_contention_soft: "only_contention db \<Longrightarrow> only_soft db"
  by (auto simp: contention_def soft_def)

definition get_state :: "hoard_tables \<Rightarrow> int set \<Rightarrow> entry_pred \<Rightarrow> hoard_row list \<Rightarrow> hoard_slot list \<Rightarrow> hdb \<Rightarrow> bool" where
  "get_state t others E cs ss db \<longleftrightarrow> idle db \<and> only_contention db \<and> tabs (db_conn db) = with_rows t cs ss \<and> hoard_inv others E cs ss"

lemma invalidate_run:
  assumes g: "get_state t others E cs ss db" and x: "found cs ss tag (Some (slot, off, len))" and num: "numeric E"
  obtains db' cs' ss' where "(if slot then hoard_invalidate_slot_chunk off db else hoard_invalidate_chunk off tag db) = Some db'"
    "later db db'" "get_state t others E cs' ss' db'" "entries tag cs' ss' < entries tag cs ss"
proof -
  have d: "idle db" "only_soft db" "tabs (db_conn db) = with_rows t cs ss" and oc: "only_contention db" and h: "hoard_inv others E cs ss"
    using g only_contention_soft [of db] by (simp_all add: get_state_def)
  show thesis
  proof (cases slot)
    case True
    then obtain s where s: "s \<in> set ss" "sl_tag s = Some tag" "sl_offset s = off"
      using x by (auto simp: found_def)
    have sm: "small off"
      using slot_numbers_small(1) [OF h num s(1,2)] s(3) by simp
    obtain db' where "hoard_invalidate_slot_chunk off db = Some db'" "later db db'" "idle db'"
        "tabs (db_conn db') = (with_rows t cs ss)\<lparr>ht_slots := Some (clear_slot off ss)\<rparr> \<or> tabs (db_conn db') = with_rows t cs ss \<and> \<not> only_contention db"
      by (rule hoard_invalidate_slot_chunk_run [OF d _ sm, of ss]) simp_all
    with True oc that [of db' cs "clear_slot off ss"] entries_clear [OF s(1,2), of cs] s(3) hoard_inv_clear_slot [OF h] show thesis
      by (simp add: get_state_def later_contention)
  next
    case False
    then obtain r where r: "r \<in> set cs" "hc_tag r = Some tag" "hc_offset r = off"
      using x by (auto simp: found_def)
    have sm: "small off"
      using row_numbers_small(1) [OF h num r(1,2)] r(3) by simp
    have h': "hoard_inv others E (erased off tag cs) ss"
      unfolding erased_def by (rule hoard_inv_erase [OF h]) simp
    obtain db' where "hoard_invalidate_chunk off tag db = Some db'" "later db db'" "idle db'"
        "rows_kept (with_rows t cs ss) others E ss (tabs (db_conn db'))"
        "tabs (db_conn db') = (with_rows t cs ss)\<lparr>ht_chunks := Some (erased off tag cs)\<rparr> \<or> tabs (db_conn db') = with_rows t cs ss \<and> \<not> only_contention db"
      by (rule hoard_invalidate_chunk_run [OF d _ h sm, where tag = tag]) simp_all
    with False oc that [of db' "erased off tag cs" ss] entries_erased [OF r(1,2), of ss] r(3) h' show thesis
      by (simp add: get_state_def later_contention)
  qed
qed

definition answered :: "hoard_row list \<Rightarrow> hoard_slot list \<Rightarrow> bytes \<Rightarrow> pk_err \<Rightarrow> bytes \<Rightarrow> bool" where
  "answered cs ss tag ret buf \<longleftrightarrow> (if tag \<in> row_tags cs \<union> slot_tags ss then ret = PK_SUCCESS \<and> sha1_spec_hash buf = tag else ret = PK_NOTFOUND)"

lemma found_entry:
  assumes "hoard_inv others E cs ss" "found cs ss tag (Some (slot, off, len))"
  shows "\<exists>cry. E tag off len cry" "0 \<le> off"
proof -
  have inv: "chunks_inv (slot_offsets ss \<union> others) E cs"
    using assms(1) by (simp add: hoard_inv_def)
  have "(\<exists>cry. E tag off len cry) \<and> offset_ok off"
  proof (cases slot)
    case True
    then obtain s where s: "s \<in> set ss" "sl_tag s = Some tag" "sl_offset s = off" "sl_length s = len"
      using assms(2) by (auto simp: found_def)
    then have "slot_ok E s" "off \<in> slot_offsets ss \<union> others"
      using assms(1) by (auto simp: hoard_inv_def slot_offsets_def)
    with s chunks_inv_offset [OF inv] show ?thesis
      by (auto simp: slot_ok_def)
  next
    case False
    then obtain r where r: "r \<in> set cs" "hc_tag r = Some tag" "hc_offset r = off" "hc_length r = len"
      using assms(2) by (auto simp: found_def)
    with chunks_inv_rows [OF inv] show ?thesis
      by (auto simp: row_ok_def)
  qed
  then show "\<exists>cry. E tag off len cry" "0 \<le> off"
    by (simp_all add: offset_ok_def)
qed

lemma hoard_get_once_run:
  assumes g: "get_state t others (entry c (f_data f)) cs ss db" and p: "hoard_parcel p"
  obtains (answer) ret buf db' f' where "hoard_get_once p tag db f = Some (Some (ret, buf), db', f')" "later db db'"
      "get_state t others (entry c (f_data f)) cs ss db'" "f_data f' = f_data f" "answered cs ss (take 20 tag) ret buf"
  | (again) db' f' cs' ss' where "hoard_get_once p tag db f = Some (None, db', f')" "later db db'"
      "get_state t others (entry c (f_data f)) cs' ss' db'" "f_data f' = f_data f"
      "entries (take 20 tag) cs' ss' < entries (take 20 tag) cs ss" "\<not> (c \<and> f_faults f = [])"
proof -
  let ?t = "with_rows t cs ss" and ?E = "entry c (f_data f)" and ?tag = "take 20 tag"
  have d: "idle db" "only_soft db" "tabs (db_conn db) = ?t" and oc: "only_contention db" and h: "hoard_inv others ?E cs ss"
    using g only_contention_soft [of db] by (simp_all add: get_state_def)
  have P: "p_hashlen p = 20" "p_chunksize p = 131072" "p_crypto p = IU_CHUNK_CRY_AES_SHA1"
    using p by (simp_all add: hoard_parcel_def)
  have body: "body_runs ?t True (\<lambda>f'. f' = f) (\<lambda>f'. f' = f) db1 (hoard_lookup ?tag db1 w) (\<lambda>x t' f'. t' = ?t \<and> f' = f \<and> found cs ss ?tag x)"
    if "inside ?t 0 ?t db1" "w = f" for db1 w
    unfolding that(2) by (rule hoard_lookup_run [OF that(1) _ _ h entry_numeric]) simp_all
  obtain r db1 f1 where r: "transact PK_IOERR (hoard_lookup ?tag) db f = Some (r, db1, f1)" "later db db1" "idle db1"
      "\<forall>x. r = Inr x \<longrightarrow> tabs (db_conn db1) = ?t \<and> f1 = f \<and> found cs ss ?tag x"
      "\<forall>e. r = Inl e \<longrightarrow> \<not> only_contention db"
  proof (rule transact_runs [where keep = "\<lambda>f'. f' = f" and ?t0.0 = ?t and good = True and stop = "\<lambda>f'. f' = f"
        and post = "\<lambda>x t' f'. t' = ?t \<and> f' = f \<and> found cs ss ?tag x" and body = "hoard_lookup ?tag" and db = db and w = f
        and ?e0.0 = PK_IOERR], goal_cases)
    case (1 db1 w)
    show ?case
      by (rule body [OF 1(2,3)])
  next
    case (8 r db' w')
    show ?case
      by (rule 8(1) [OF 8(2-4)]) (use 8(5,6) in blast)+
  qed (use d in simp_all)
  then obtain x where x: "r = Inr x" "tabs (db_conn db1) = ?t" "f1 = f" "found cs ss ?tag x"
    using oc by (cases r) auto
  have g1: "get_state t others ?E cs ss db1"
    using g r(2,3) x(2) by (simp add: get_state_def later_contention)
  show thesis
  proof (cases x)
    case None
    then have "answered cs ss ?tag PK_NOTFOUND []"
      using x(4) by (simp add: found_def answered_def)
    then show thesis
      using answer [OF _ r(2) g1 refl] r(1) x None by (simp add: hoard_get_once_def P)
  next
    case (Some y)
    then obtain slot off len where y: "x = Some (slot, off, len)"
      by (cases y) auto
    obtain ret buf f2 where rd: "hoard_read_chunk (Some 131072) off len IU_CHUNK_CRY_AES_SHA1 ?tag f = Some (ret, buf, f2)"
        "f_data f2 = f_data f" "ret = PK_SUCCESS \<longrightarrow> sha1_spec_hash buf = ?tag"
      by (rule hoard_read_chunk_run)
    show thesis
    proof (cases "ret = PK_SUCCESS")
      case True
      have "?tag \<in> row_tags cs \<union> slot_tags ss"
        using x(4) y by (cases slot) (auto simp: found_def row_tags_def slot_tags_def)
      with True show thesis
        using answer [OF _ r(2) g1 rd(2)] r(1) x(1,3) y rd(1,3) by (simp add: hoard_get_once_def P answered_def)
    next
      case False
      have bad: "\<not> (c \<and> f_faults f = [])"
        using found_entry [OF h x(4) [unfolded y]] hoard_read_chunk_good [of f ?tag off len] rd(1) False by (cases c) auto
      obtain db2 cs' ss' where iv: "(if slot then hoard_invalidate_slot_chunk off db1 else hoard_invalidate_chunk off ?tag db1) = Some db2"
          "later db1 db2" "get_state t others ?E cs' ss' db2" "entries ?tag cs' ss' < entries ?tag cs ss"
        by (rule invalidate_run [OF g1 x(4) [unfolded y] entry_numeric])
      have "hoard_get_once p tag db f = Some (None, db2, f2)"
        using r(1) x(1,3) y rd(1) False iv(1) by (cases slot) (simp_all add: hoard_get_once_def P)
      then show thesis
        by (rule again [OF _ later_trans [OF r(2) iv(2)] iv(3) rd(2) iv(4) bad])
    qed
  qed
qed

lemma hoard_get_loop_run:
  assumes "get_state t others (entry c (f_data f)) cs ss db" "hoard_parcel p"
  shows "\<exists>ret buf db' f' cs' ss'. hoard_get_loop p tag db f = Some (ret, buf, db', f') \<and> later db db'
    \<and> get_state t others (entry c (f_data f)) cs' ss' db' \<and> f_data f' = f_data f \<and> answered cs' ss' (take 20 tag) ret buf
    \<and> (c \<and> f_faults f = [] \<longrightarrow> cs' = cs \<and> ss' = ss)"
  using assms(1)
proof (induction "entries (take 20 tag) cs ss" arbitrary: cs ss db f rule: less_induct)
  case less
  from less(2) assms(2) show ?case
  proof (cases rule: hoard_get_once_run [where tag = tag])
    case (answer ret buf db' f')
    then have "hoard_get_loop p tag db f = Some (ret, buf, db', f')"
      by (subst hoard_get_loop.simps) simp
    with answer show ?thesis by blast
  next
    case (again db1 f1 cs1 ss1)
    have "get_state t others (entry c (f_data f1)) cs1 ss1 db1"
      using again(3,4) by simp
    from less(1) [OF again(5) this] obtain ret buf db' f' cs' ss' where l: "hoard_get_loop p tag db1 f1 = Some (ret, buf, db', f')" "later db1 db'"
        "get_state t others (entry c (f_data f1)) cs' ss' db'" "f_data f' = f_data f1" "answered cs' ss' (take 20 tag) ret buf"
      by blast
    have "hoard_get_loop p tag db f = Some (ret, buf, db', f')"
      using again(1) l(1) by (subst hoard_get_loop.simps) simp
    then show ?thesis
      using later_trans [OF again(2) l(2)] l(3-5) again(4,6) by - (intro exI conjI, assumption, auto)
  qed
qed

end
