(* ===== verification/Isr_Hoard_System.thy ===== *)
theory Isr_Hoard_System
  imports Isr_Hoard_Get Isr_Hoard_Refs
begin

text \<open>
  The hoard cache as all processes of a user see it: the shared tables and the file, and for every process its slot cache.  A step is a
  transaction of one process, with any schedule of soft engine failures and any outcome of its file operations, or the end of a
  process at any moment between transactions.  \<open>hoard_sync_refs\<close> runs on the connection of the local cache of its process, to which the
  shared index is attached: its tables are those of the index and the keyrings.  The transactions of \<open>hoard_get_chunk\<close> are lookups, which change nothing, and the two
  invalidations, which are steps for every offset and tag.
\<close>

section \<open>The system\<close>

text \<open>
  \<open>hs_failed\<close> are the processes whose last store failed after it may have written to the file, and \<open>hs_tainted\<close> says that such a process
  has gone on to give slots back.
\<close>

record hoard_system =
  hs_tables :: hoard_tables
  hs_slots :: "nat \<Rightarrow> hoard_slot list option"
  hs_file :: bytes
  hs_failed :: "nat set"
  hs_tainted :: bool

definition view :: "hoard_system \<Rightarrow> nat \<Rightarrow> hoard_tables" where
  "view s i = (hs_tables s)\<lparr>ht_slots := hs_slots s i\<rparr>"

definition connected :: "hoard_system \<Rightarrow> nat \<Rightarrow> hdb \<Rightarrow> bool" where
  "connected s i db \<longleftrightarrow> idle db \<and> only_soft db \<and> tabs (db_conn db) = view s i"

definition absorb :: "nat \<Rightarrow> hoard_tables \<Rightarrow> bytes \<Rightarrow> hoard_system \<Rightarrow> hoard_system" where
  "absorb i t d s = s\<lparr>hs_tables := t\<lparr>ht_slots := None\<rparr>, hs_slots := (hs_slots s)(i := ht_slots t), hs_file := d\<rparr>"

definition fresh_hoard :: hoard_system where
  "fresh_hoard = \<lparr>hs_tables = \<lparr>ht_version = 0, ht_indices = [], ht_parcels = None, ht_chunks = None, ht_chunks_old = None, ht_refs = None,
     ht_slots = None\<rparr>, hs_slots = (\<lambda>_. None), hs_file = [], hs_failed = {}, hs_tainted = False\<rparr>"

definition system_room :: "hoard_system \<Rightarrow> bool" where
  "system_room s \<longleftrightarrow> (\<forall>cs. ht_chunks (hs_tables s) = Some cs \<longrightarrow> room cs)"

text \<open>
  The callers store data whose digest is the tag: \<^verbatim>\<open>transport_fetch_chunk\<close> compares them before it calls \<open>hoard_put_chunk\<close>.  The offsets of
  the slots are \<^verbatim>\<open>int\<close>s, so a store needs room below \<open>2\<^sup>3\<^sup>1\<close> sectors (one tebibyte).
\<close>

inductive hoard_step :: "hoard_system \<Rightarrow> hoard_system \<Rightarrow> bool" where
  enter: "hs_slots s i = None \<Longrightarrow> connected s i db \<Longrightarrow> in_transaction check_hoard_index db = Some (Inr (), db')
    \<Longrightarrow> hoard_step s (absorb i (tabs (db_conn db')) (hs_file s) s)"
| ident: "hs_slots s i = Some ss \<Longrightarrow> connected s i db \<Longrightarrow> get_parcel_ident p db = Some (r, db')
    \<Longrightarrow> hoard_step s (absorb i (tabs (db_conn db')) (hs_file s) s)"
| put: "hs_slots s i = Some ss \<Longrightarrow> connected s i db \<Longrightarrow> f_data f = hs_file s \<Longrightarrow> system_room s \<Longrightarrow> hoard_parcel p
    \<Longrightarrow> 0 < length buf \<Longrightarrow> length buf \<le> 131072 \<Longrightarrow> iu_chunk_crypto_digest (p_crypto p) buf = Some (Some (take 20 tag))
    \<Longrightarrow> hoard_put_chunk True p tag buf db f = Some (ret, db', f')
    \<Longrightarrow> hoard_step s ((absorb i (tabs (db_conn db')) (f_data f') s)\<lparr>
          hs_failed := (if ret = PK_SUCCESS then hs_failed s else insert i (hs_failed s)), hs_tainted := hs_tainted s \<or> i \<in> hs_failed s\<rparr>)"
| drop_row: "hs_slots s i = Some ss \<Longrightarrow> connected s i db \<Longrightarrow> small off \<Longrightarrow> hoard_invalidate_chunk off tag db = Some db'
    \<Longrightarrow> hoard_step s (absorb i (tabs (db_conn db')) (hs_file s) s)"
| drop_slot: "hs_slots s i = Some ss \<Longrightarrow> connected s i db \<Longrightarrow> small off \<Longrightarrow> hoard_invalidate_slot_chunk off db = Some db'
    \<Longrightarrow> hoard_step s (absorb i (tabs (db_conn db')) (hs_file s) s)"
| collect: "hs_slots s i = Some ss \<Longrightarrow> connected s i db \<Longrightarrow> hoard_gc db = Some (ret, db')
    \<Longrightarrow> hoard_step s (absorb i (tabs (db_conn db')) (hs_file s) s)"
| sync: "hs_slots s i = Some ss \<Longrightarrow> idle sdb \<Longrightarrow> only_soft sdb \<Longrightarrow> tabs (db_conn sdb) = t \<Longrightarrow> sy_refs t = ht_refs (hs_tables s)
    \<Longrightarrow> sy_newrefs t = None \<Longrightarrow> \<not> sy_indexed t \<Longrightarrow> (if new_chunks then Some (sy_keys t) else sy_prev t) = Some tags \<Longrightarrow> small ident
    \<Longrightarrow> hoard_sync_refs True ident new_chunks sdb = Some (ret, sdb')
    \<Longrightarrow> hoard_step s (s\<lparr>hs_tables := (hs_tables s)\<lparr>ht_refs := sy_refs (tabs (db_conn sdb'))\<rparr>\<rparr>)"
| flush: "hs_slots s i = Some ss \<Longrightarrow> connected s i db \<Longrightarrow> flush_slot_cache db = Some db'
    \<Longrightarrow> hoard_step s ((absorb i (tabs (db_conn db')) (hs_file s) s)\<lparr>hs_tainted := hs_tainted s \<or> i \<in> hs_failed s\<rparr>)"
| leave: "hs_slots s i = Some ss \<Longrightarrow> connected s i db \<Longrightarrow> (lock = PK_SUCCESS \<Longrightarrow> \<forall>j. j \<noteq> i \<longrightarrow> hs_slots s j = None)
    \<Longrightarrow> hoard_shutdown lock flags dice db = Some t
    \<Longrightarrow> hoard_step s ((absorb i t (hs_file s) s)\<lparr>hs_failed := hs_failed s - {i}, hs_tainted := hs_tainted s \<or> i \<in> hs_failed s\<rparr>)"
| crash: "hs_slots s i = Some ss \<Longrightarrow> hoard_step s (s\<lparr>hs_slots := (hs_slots s)(i := None), hs_failed := hs_failed s - {i}\<rparr>)"

inductive hoard_reach :: "hoard_system \<Rightarrow> bool" where
  start: "hoard_reach fresh_hoard"
| step: "hoard_reach s \<Longrightarrow> hoard_step s s' \<Longrightarrow> hoard_reach s'"

section \<open>The invariant\<close>

definition all_offsets :: "(nat \<Rightarrow> hoard_slot list option) \<Rightarrow> int set" where
  "all_offsets sl = {off. \<exists>j ss. sl j = Some ss \<and> off \<in> slot_offsets ss}"

abbreviation other_offsets :: "hoard_system \<Rightarrow> nat \<Rightarrow> int set" where
  "other_offsets s i \<equiv> all_offsets ((hs_slots s)(i := None))"

definition slots_inv :: "hoard_system \<Rightarrow> bool" where
  "slots_inv s \<longleftrightarrow> (\<forall>i ss. hs_slots s i = Some ss \<longrightarrow> distinct (map sl_offset ss) \<and> slot_offsets ss \<inter> other_offsets s i = {}
     \<and> (\<forall>x \<in> set ss. slot_ok (entry (\<not> hs_tainted s \<and> i \<notin> hs_failed s) (hs_file s)) x))"

definition opened :: "hoard_tables \<Rightarrow> bool" where
  "opened t \<longleftrightarrow> ht_version t = HOARD_INDEX_VERSION \<and> ht_chunks t \<noteq> None \<and> ht_parcels t \<noteq> None \<and> ht_refs t \<noteq> None"

definition system_inv :: "hoard_system \<Rightarrow> bool" where
  "system_inv s \<longleftrightarrow> s = fresh_hoard \<or> opened (hs_tables s) \<and> ht_slots (hs_tables s) = None \<and> slots_inv s
     \<and> (\<forall>cs. ht_chunks (hs_tables s) = Some cs \<longrightarrow> chunks_inv (all_offsets (hs_slots s)) (entry (\<not> hs_tainted s) (hs_file s)) cs)"

lemma all_offsets_update: "all_offsets (sl(i := so)) = (case so of None \<Rightarrow> {} | Some ss \<Rightarrow> slot_offsets ss) \<union> all_offsets (sl(i := None))"
proof (intro equalityI subsetI)
  fix off
  assume "off \<in> all_offsets (sl(i := so))"
  then obtain j ss where "(sl(i := so)) j = Some ss" "off \<in> slot_offsets ss"
    by (auto simp: all_offsets_def)
  then show "off \<in> (case so of None \<Rightarrow> {} | Some ss \<Rightarrow> slot_offsets ss) \<union> all_offsets (sl(i := None))"
    by (cases "j = i") (auto simp: all_offsets_def intro!: exI [of _ j])
next
  fix off
  assume "off \<in> (case so of None \<Rightarrow> {} | Some ss \<Rightarrow> slot_offsets ss) \<union> all_offsets (sl(i := None))"
  then consider ss where "so = Some ss" "off \<in> slot_offsets ss" | j ss where "j \<noteq> i" "sl j = Some ss" "off \<in> slot_offsets ss"
    by (auto simp: all_offsets_def split: option.splits if_splits)
  then show "off \<in> all_offsets (sl(i := so))"
  proof cases
    case 1
    then show ?thesis
      by (auto simp: all_offsets_def intro!: exI [of _ i])
  next
    case 2
    then show ?thesis
      by (auto simp: all_offsets_def intro!: exI [of _ j])
  qed
qed

lemma all_offsets_split: "sl i = Some ss \<Longrightarrow> all_offsets sl = slot_offsets ss \<union> all_offsets (sl(i := None))"
  using all_offsets_update [of sl i "Some ss"] by (simp add: fun_upd_idem)

lemma entry_weaken: "entry c d tag off len cry \<Longrightarrow> (c' \<Longrightarrow> c) \<Longrightarrow> entry c' d tag off len cry"
  by (auto simp: entry_def)

text \<open>What a process finds.\<close>

lemma system_view:
  assumes inv: "system_inv s" and i: "hs_slots s i = Some ss"
  obtains cs ps refs where "ht_chunks (view s i) = Some cs" "ht_slots (view s i) = Some ss" "ht_parcels (view s i) = Some ps"
    "ht_refs (view s i) = Some refs" "ht_chunks (hs_tables s) = Some cs" "opened (hs_tables s)" "ht_slots (hs_tables s) = None"
    "hoard_inv (other_offsets s i) (entry (\<not> hs_tainted s \<and> i \<notin> hs_failed s) (hs_file s)) cs ss"
    "chunks_inv (slot_offsets ss \<union> other_offsets s i) (entry (\<not> hs_tainted s) (hs_file s)) cs"
proof -
  have nf: "s \<noteq> fresh_hoard"
    using i by (auto simp: fresh_hoard_def)
  then have o: "opened (hs_tables s)" "ht_slots (hs_tables s) = None" "slots_inv s"
    using inv by (simp_all add: system_inv_def)
  then obtain cs ps refs where t: "ht_chunks (hs_tables s) = Some cs" "ht_parcels (hs_tables s) = Some ps" "ht_refs (hs_tables s) = Some refs"
    by (auto simp: opened_def)
  have c: "chunks_inv (slot_offsets ss \<union> other_offsets s i) (entry (\<not> hs_tainted s) (hs_file s)) cs"
    using inv nf t(1) all_offsets_split [of "hs_slots s" i ss, OF i] by (simp add: system_inv_def)
  have "chunks_inv (slot_offsets ss \<union> other_offsets s i) (entry (\<not> hs_tainted s \<and> i \<notin> hs_failed s) (hs_file s)) cs"
    by (rule chunks_inv_mono [OF c]) (erule entry_weaken, simp)
  then have "hoard_inv (other_offsets s i) (entry (\<not> hs_tainted s \<and> i \<notin> hs_failed s) (hs_file s)) cs ss"
    using o(3) i by (simp add: hoard_inv_def slots_inv_def)
  with that t c i o show thesis
    by (simp add: view_def)
qed

text \<open>The invariant after a step of process \<open>i\<close>.\<close>

lemma system_inv_absorb:
  assumes inv: "slots_inv s" and t: "opened t" "ht_slots t = None" "ht_chunks t = Some cs'"
    and c: "chunks_inv ((case so of None \<Rightarrow> {} | Some ss \<Rightarrow> slot_offsets ss) \<union> other_offsets s i) (entry (\<not> tn) d) cs'"
    and so: "\<And>ss. so = Some ss \<Longrightarrow> distinct (map sl_offset ss) \<and> slot_offsets ss \<inter> other_offsets s i = {}
      \<and> (\<forall>x \<in> set ss. slot_ok (entry (\<not> tn \<and> i \<notin> fl) d) x)"
    and d: "spare (other_offsets s i) cs (hs_file s) d" and fl: "hs_tainted s \<longrightarrow> tn" "fl - {i} = hs_failed s - {i}"
    and ok: "\<And>off. off \<in> other_offsets s i \<Longrightarrow> offset_ok off"
  shows "system_inv (s\<lparr>hs_tables := t, hs_slots := (hs_slots s)(i := so), hs_file := d, hs_failed := fl, hs_tainted := tn\<rparr>)"
proof -
  let ?sl = "(hs_slots s)(i := so)"
  have "slots_inv (s\<lparr>hs_tables := t, hs_slots := ?sl, hs_file := d, hs_failed := fl, hs_tainted := tn\<rparr>)"
    unfolding slots_inv_def
  proof (intro allI impI)
    fix j ss
    assume "hs_slots (s\<lparr>hs_tables := t, hs_slots := ?sl, hs_file := d, hs_failed := fl, hs_tainted := tn\<rparr>) j = Some ss"
    then have sj: "?sl j = Some ss"
      by simp
    have "distinct (map sl_offset ss) \<and> slot_offsets ss \<inter> all_offsets (?sl(j := None)) = {} \<and> (\<forall>x \<in> set ss. slot_ok (entry (\<not> tn \<and> j \<notin> fl) d) x)"
    proof (cases "j = i")
      case True
      with sj so show ?thesis by simp
    next
      case False
      then have j: "hs_slots s j = Some ss"
        using sj by simp
      then have old: "distinct (map sl_offset ss)" "slot_offsets ss \<inter> other_offsets s j = {}"
          "\<forall>x \<in> set ss. slot_ok (entry (\<not> hs_tainted s \<and> j \<notin> hs_failed s) (hs_file s)) x"
        using inv by (simp_all add: slots_inv_def)
      have sub: "slot_offsets ss \<subseteq> other_offsets s i"
        using j False by (auto simp: all_offsets_def)
      have "slot_offsets ss \<inter> all_offsets (?sl(j := None)) = {}"
      proof -
        have "all_offsets (?sl(j := None)) \<subseteq> (case so of None \<Rightarrow> {} | Some ss \<Rightarrow> slot_offsets ss) \<union> other_offsets s j"
        proof -
          have "?sl(j := None) = ((hs_slots s)(j := None))(i := so)"
            using False by (simp add: fun_upd_twist)
          then have "all_offsets (?sl(j := None)) = (case so of None \<Rightarrow> {} | Some ss \<Rightarrow> slot_offsets ss) \<union> all_offsets (((hs_slots s)(j := None))(i := None))"
            by (simp only: all_offsets_update [of "(hs_slots s)(j := None)" i so])
          moreover have "all_offsets (((hs_slots s)(j := None))(i := None)) \<subseteq> other_offsets s j"
            by (auto simp: all_offsets_def split: if_splits)
          ultimately show ?thesis by blast
        qed
        moreover have "slot_offsets ss \<inter> (case so of None \<Rightarrow> {} | Some ss \<Rightarrow> slot_offsets ss) = {}"
          using so sub by (auto split: option.splits)
        ultimately show ?thesis
          using old(2) by blast
      qed
      moreover have "slot_ok (entry (\<not> tn \<and> j \<notin> fl) d) x" if x: "x \<in> set ss" for x
        unfolding slot_ok_def
      proof (intro allI impI)
        fix tag
        assume "sl_tag x = Some tag"
        then have e: "entry (\<not> hs_tainted s \<and> j \<notin> hs_failed s) (hs_file s) tag (sl_offset x) (sl_length x) (sl_crypto x)"
          using old(3) x by (simp add: slot_ok_def)
        have off: "sl_offset x \<in> other_offsets s i"
          using sub x by (auto simp: slot_offsets_def)
        have "entry (\<not> hs_tainted s \<and> j \<notin> hs_failed s) d tag (sl_offset x) (sl_length x) (sl_crypto x)"
          by (rule spare_entry [OF d e ok [OF off]]) (use off in simp)
        then show "entry (\<not> tn \<and> j \<notin> fl) d tag (sl_offset x) (sl_length x) (sl_crypto x)"
          by (rule entry_weaken) (use fl False in blast)
      qed
      ultimately show ?thesis
        using old(1) by blast
    qed
    then show "distinct (map sl_offset ss)
      \<and> slot_offsets ss \<inter> other_offsets (s\<lparr>hs_tables := t, hs_slots := ?sl, hs_file := d, hs_failed := fl, hs_tainted := tn\<rparr>) j = {}
      \<and> (\<forall>x \<in> set ss. slot_ok (entry (\<not> hs_tainted (s\<lparr>hs_tables := t, hs_slots := ?sl, hs_file := d, hs_failed := fl, hs_tainted := tn\<rparr>)
          \<and> j \<notin> hs_failed (s\<lparr>hs_tables := t, hs_slots := ?sl, hs_file := d, hs_failed := fl, hs_tainted := tn\<rparr>))
          (hs_file (s\<lparr>hs_tables := t, hs_slots := ?sl, hs_file := d, hs_failed := fl, hs_tainted := tn\<rparr>))) x)"
      by simp
  qed
  with t c show ?thesis
    by (simp add: system_inv_def all_offsets_update [of "hs_slots s" i so])
qed

lemma absorb_inv:
  assumes inv: "system_inv s" "hs_slots s i = Some ss" "ht_chunks (hs_tables s) = Some cs"
    and t: "opened t" "ht_chunks t = Some cs'"
    and c: "chunks_inv ((case ht_slots t of None \<Rightarrow> {} | Some ss \<Rightarrow> slot_offsets ss) \<union> other_offsets s i) (entry (\<not> tn) d) cs'"
    and so: "\<And>ss. ht_slots t = Some ss \<Longrightarrow> distinct (map sl_offset ss) \<and> slot_offsets ss \<inter> other_offsets s i = {}
      \<and> (\<forall>x \<in> set ss. slot_ok (entry (\<not> tn \<and> i \<notin> fl) d) x)"
    and d: "spare (other_offsets s i) cs (hs_file s) d" and fl: "hs_tainted s \<longrightarrow> tn" "fl - {i} = hs_failed s - {i}"
  shows "system_inv ((absorb i t d s)\<lparr>hs_failed := fl, hs_tainted := tn\<rparr>)"
proof -
  from inv(1,2) obtain cs0 where cs0: "chunks_inv (slot_offsets ss \<union> other_offsets s i) (entry (\<not> hs_tainted s) (hs_file s)) cs0"
    by (rule system_view) blast
  have ok: "offset_ok off" if "off \<in> other_offsets s i" for off
    using that by (intro chunks_inv_offset [OF cs0]) simp
  have sl: "slots_inv s"
    using inv(1,2) by (auto simp: system_inv_def fresh_hoard_def)
  have "opened (t\<lparr>ht_slots := None\<rparr>)"
    using t(1) by (simp add: opened_def)
  from system_inv_absorb [OF sl this _ _ c so d fl ok] t(2) show ?thesis
    by (simp add: absorb_def)
qed

text \<open>A step that leaves the file as it is.\<close>

lemma absorb_same_file:
  assumes inv: "system_inv s" "hs_slots s i = Some ss" and t: "opened t" "ht_chunks t = Some cs'" "ht_slots t = Some ss'"
    and c: "chunks_inv (slot_offsets ss' \<union> other_offsets s i) (entry (\<not> hs_tainted s) (hs_file s)) cs'"
    and so: "distinct (map sl_offset ss')" "slot_offsets ss' \<inter> other_offsets s i = {}"
      "\<And>x. x \<in> set ss' \<Longrightarrow> slot_ok (entry (\<not> hs_tainted s \<and> i \<notin> hs_failed s) (hs_file s)) x"
  shows "system_inv (absorb i t (hs_file s) s)"
proof -
  from inv obtain cs where cs: "ht_chunks (hs_tables s) = Some cs"
    by (rule system_view)
  have "system_inv ((absorb i t (hs_file s) s)\<lparr>hs_failed := hs_failed s, hs_tainted := hs_tainted s\<rparr>)"
    by (rule absorb_inv [OF inv cs t(1,2)]) (use t(3) c so in \<open>simp_all add: spare_def\<close>)
  then show ?thesis
    by (simp add: absorb_def)
qed

lemma untagged_inv:
  assumes "chunks_inv (slot_offsets ss \<union> others) E cs" "distinct (map sl_offset ss)" "slot_offsets ss \<inter> others = {}"
  shows "hoard_inv others E cs (map (\<lambda>x. x\<lparr>sl_tag := None\<rparr>) ss)"
proof -
  have "slot_offsets (map (\<lambda>x. x\<lparr>sl_tag := None\<rparr>) ss) = slot_offsets ss" "map sl_offset (map (\<lambda>x. x\<lparr>sl_tag := None\<rparr>) ss) = map sl_offset ss"
    by (simp_all add: slot_offsets_def image_image)
  with assms show ?thesis
    unfolding hoard_inv_def by (simp only:) (simp add: slot_ok_def)
qed

lemma rows_kept_step:
  assumes inv: "system_inv s" "hs_slots s i = Some ss"
    and k: "\<And>cs ss'. ht_chunks (view s i) = Some cs \<Longrightarrow> hoard_inv (other_offsets s i) (entry (\<not> hs_tainted s) (hs_file s)) cs ss'
      \<Longrightarrow> rows_kept (view s i) (other_offsets s i) (entry (\<not> hs_tainted s) (hs_file s)) ss' t"
  shows "system_inv (absorb i t (hs_file s) s)"
proof -
  let ?ss = "map (\<lambda>x. x\<lparr>sl_tag := None\<rparr>) ss"
  from inv obtain cs where v: "ht_chunks (view s i) = Some cs" "opened (hs_tables s)"
      "hoard_inv (other_offsets s i) (entry (\<not> hs_tainted s \<and> i \<notin> hs_failed s) (hs_file s)) cs ss"
      "chunks_inv (slot_offsets ss \<union> other_offsets s i) (entry (\<not> hs_tainted s) (hs_file s)) cs"
    by (rule system_view)
  then have h: "distinct (map sl_offset ss)" "slot_offsets ss \<inter> other_offsets s i = {}"
      "\<forall>x \<in> set ss. slot_ok (entry (\<not> hs_tainted s \<and> i \<notin> hs_failed s) (hs_file s)) x"
    by (simp_all add: hoard_inv_def)
  from k [OF v(1) untagged_inv [OF v(4) h(1,2)]] obtain cs' where t: "t = (view s i)\<lparr>ht_chunks := Some cs'\<rparr>"
      and c: "hoard_inv (other_offsets s i) (entry (\<not> hs_tainted s) (hs_file s)) cs' ?ss"
    by (auto simp: rows_kept_def)
  have "slot_offsets ?ss = slot_offsets ss"
    by (simp add: slot_offsets_def image_image)
  then have c: "chunks_inv (slot_offsets ss \<union> other_offsets s i) (entry (\<not> hs_tainted s) (hs_file s)) cs'"
    using c by (simp add: hoard_inv_def)
  show ?thesis
    by (rule absorb_same_file [OF inv _ _ _ c h(1,2)]) (use t v(2) inv(2) h(3) in \<open>auto simp: opened_def view_def\<close>)
qed

section \<open>The steps keep the invariant\<close>

lemma enter_step:
  assumes inv: "system_inv s" and n: "hs_slots s i = None" and c: "connected s i db"
    and r: "in_transaction check_hoard_index db = Some (Inr (), db')"
  shows "system_inv (absorb i (tabs (db_conn db')) (hs_file s) s)"
proof -
  have same: "other_offsets s i = all_offsets (hs_slots s)"
    using n by (simp add: fun_upd_idem)
  have d: "idle db" "only_soft db" "tabs (db_conn db) = view s i" "ht_slots (view s i) = None"
    using c n by (simp_all add: connected_def view_def)
  let ?t = "if blank (view s i) then created (view s i) else view s i"
  show ?thesis
  proof (cases "s = fresh_hoard")
    case True
    then have b: "blank (view s i)" and sl: "hs_slots s = (\<lambda>_. None)" "slots_inv s"
      by (simp_all add: blank_def view_def fresh_hoard_def slots_inv_def)
    have t: "tabs (db_conn db') = (created (view s i))\<lparr>ht_slots := Some []\<rparr>"
      using enter_run [OF d _ r] b by simp
    have "system_inv (s\<lparr>hs_tables := (created (view s i))\<lparr>ht_slots := None\<rparr>, hs_slots := (hs_slots s)(i := Some []), hs_file := hs_file s,
        hs_failed := hs_failed s, hs_tainted := hs_tainted s\<rparr>)"
      by (rule system_inv_absorb [OF sl(2), where cs' = "[]"])
        (use sl(1) in \<open>auto simp: opened_def created_def chunks_inv_def spare_def all_offsets_def slot_offsets_def\<close>)
    then show ?thesis
      by (simp add: absorb_def t)
  next
    case False
    then obtain cs where o: "opened (hs_tables s)" "ht_chunks (hs_tables s) = Some cs" "slots_inv s"
        "chunks_inv (all_offsets (hs_slots s)) (entry (\<not> hs_tainted s) (hs_file s)) cs"
      using inv by (auto simp: system_inv_def opened_def)
    have "\<not> blank (view s i)" "ht_version (view s i) = HOARD_INDEX_VERSION"
      using o(1) by (auto simp: blank_def opened_def view_def HOARD_INDEX_VERSION_def)
    with enter_run [OF d _ r] have t: "tabs (db_conn db') = (view s i)\<lparr>ht_slots := Some []\<rparr>"
      by simp
    have ok: "offset_ok off" if "off \<in> other_offsets s i" for off
      using that unfolding same by (rule chunks_inv_offset [OF o(4)])
    have "system_inv (s\<lparr>hs_tables := (view s i)\<lparr>ht_slots := None\<rparr>, hs_slots := (hs_slots s)(i := Some []), hs_file := hs_file s,
        hs_failed := hs_failed s, hs_tainted := hs_tainted s\<rparr>)"
      by (rule system_inv_absorb [OF o(3) _ _ _ _ _ _ _ _ ok, where cs' = cs and cs = cs])
        (use o in \<open>simp_all add: same opened_def view_def spare_def slot_offsets_def\<close>)
    then show ?thesis
      by (simp add: absorb_def t)
  qed
qed

lemma ident_step:
  assumes inv: "system_inv s" "hs_slots s i = Some ss" and c: "connected s i db" and r: "get_parcel_ident p db = Some (r, db')"
  shows "system_inv (absorb i (tabs (db_conn db')) (hs_file s) s)"
proof -
  from inv obtain cs ps where v: "ht_chunks (view s i) = Some cs" "ht_slots (view s i) = Some ss" "ht_parcels (view s i) = Some ps"
      "opened (hs_tables s)" "hoard_inv (other_offsets s i) (entry (\<not> hs_tainted s \<and> i \<notin> hs_failed s) (hs_file s)) cs ss"
      "chunks_inv (slot_offsets ss \<union> other_offsets s i) (entry (\<not> hs_tainted s) (hs_file s)) cs"
    by (rule system_view)
  have d: "idle db" "only_soft db" "tabs (db_conn db) = view s i"
    using c by (simp_all add: connected_def)
  obtain r' db1 where "get_parcel_ident p db = Some (r', db1)" "parcels_only (view s i) (tabs (db_conn db1))"
    by (rule get_parcel_ident_run [OF d v(3)])
  with r obtain ps' where t: "tabs (db_conn db') = (view s i)\<lparr>ht_parcels := Some ps'\<rparr>"
    by (auto simp: parcels_only_def)
  show ?thesis
    by (rule absorb_same_file [OF inv _ _ _ v(6)])
      (use t v(1,2,4,5) in \<open>auto simp: hoard_inv_def opened_def view_def\<close>)
qed

lemma drop_row_step:
  assumes inv: "system_inv s" "hs_slots s i = Some ss" and c: "connected s i db" and sm: "small off"
    and r: "hoard_invalidate_chunk off tag db = Some db'"
  shows "system_inv (absorb i (tabs (db_conn db')) (hs_file s) s)"
proof (rule rows_kept_step [OF inv])
  fix cs ss'
  assume h: "ht_chunks (view s i) = Some cs" "hoard_inv (other_offsets s i) (entry (\<not> hs_tainted s) (hs_file s)) cs ss'"
  have d: "idle db" "only_soft db" "tabs (db_conn db) = view s i"
    using c by (simp_all add: connected_def)
  obtain db1 where "hoard_invalidate_chunk off tag db = Some db1"
      "rows_kept (view s i) (other_offsets s i) (entry (\<not> hs_tainted s) (hs_file s)) ss' (tabs (db_conn db1))"
    by (rule hoard_invalidate_chunk_run [OF d h sm, where tag = tag])
  with r show "rows_kept (view s i) (other_offsets s i) (entry (\<not> hs_tainted s) (hs_file s)) ss' (tabs (db_conn db'))"
    by simp
qed

lemma collect_step:
  assumes inv: "system_inv s" "hs_slots s i = Some ss" and c: "connected s i db" and r: "hoard_gc db = Some (ret, db')"
  shows "system_inv (absorb i (tabs (db_conn db')) (hs_file s) s)"
proof (rule rows_kept_step [OF inv])
  fix cs ss'
  assume h: "ht_chunks (view s i) = Some cs" "hoard_inv (other_offsets s i) (entry (\<not> hs_tainted s) (hs_file s)) cs ss'"
  from inv obtain refs where refs: "ht_refs (view s i) = Some refs"
    by (rule system_view)
  have d: "idle db" "only_soft db" "tabs (db_conn db) = view s i"
    using c by (simp_all add: connected_def)
  obtain ret' db1 where "hoard_gc db = Some (ret', db1)"
      "rows_kept (view s i) (other_offsets s i) (entry (\<not> hs_tainted s) (hs_file s)) ss' (tabs (db_conn db1))"
    by (rule hoard_gc_run [OF d h(1) refs h(2)])
  with r show "rows_kept (view s i) (other_offsets s i) (entry (\<not> hs_tainted s) (hs_file s)) ss' (tabs (db_conn db'))"
    by simp
qed

lemma sync_step:
  assumes inv: "system_inv s" "hs_slots s i = Some ss" and d: "idle sdb" "only_soft sdb" "tabs (db_conn sdb) = t"
    and t: "sy_refs t = ht_refs (hs_tables s)" "sy_newrefs t = None" "\<not> sy_indexed t"
    and tags: "(if new_chunks then Some (sy_keys t) else sy_prev t) = Some tags" and sm: "small ident"
    and r: "hoard_sync_refs True ident new_chunks sdb = Some (ret, sdb')"
  shows "system_inv (s\<lparr>hs_tables := (hs_tables s)\<lparr>ht_refs := sy_refs (tabs (db_conn sdb'))\<rparr>\<rparr>)"
proof -
  have nf: "s \<noteq> fresh_hoard"
    using inv(2) by (auto simp: fresh_hoard_def)
  then have o: "opened (hs_tables s)"
    using inv(1) by (simp add: system_inv_def)
  then obtain refs where refs: "sy_refs t = Some refs"
    using t(1) by (auto simp: opened_def)
  have "sy_refs (tabs (db_conn sdb')) \<noteq> None"
    using hoard_sync_refs_run [OF d t(2,3) refs _ tags, of ident] sm r refs by (auto split: if_splits)
  then show ?thesis
    using inv(1) nf o by (auto simp: system_inv_def opened_def slots_inv_def)
qed

lemma drop_slot_step:
  assumes inv: "system_inv s" "hs_slots s i = Some ss" and c: "connected s i db" and sm: "small off"
    and r: "hoard_invalidate_slot_chunk off db = Some db'"
  shows "system_inv (absorb i (tabs (db_conn db')) (hs_file s) s)"
proof -
  from inv obtain cs where v: "ht_chunks (view s i) = Some cs" "ht_slots (view s i) = Some ss"
      "opened (hs_tables s)" "hoard_inv (other_offsets s i) (entry (\<not> hs_tainted s \<and> i \<notin> hs_failed s) (hs_file s)) cs ss"
      "chunks_inv (slot_offsets ss \<union> other_offsets s i) (entry (\<not> hs_tainted s) (hs_file s)) cs"
    by (rule system_view)
  have d: "idle db" "only_soft db" "tabs (db_conn db) = view s i"
    using c by (simp_all add: connected_def)
  obtain db1 where "hoard_invalidate_slot_chunk off db = Some db1"
      "tabs (db_conn db1) = (view s i)\<lparr>ht_slots := Some (clear_slot off ss)\<rparr> \<or> tabs (db_conn db1) = view s i \<and> \<not> only_contention db"
    by (rule hoard_invalidate_slot_chunk_run [OF d v(2) sm])
  then have "tabs (db_conn db') = (view s i)\<lparr>ht_slots := Some (clear_slot off ss)\<rparr> \<or> tabs (db_conn db') = (view s i)\<lparr>ht_slots := Some ss\<rparr>"
    using r v(2) by auto
  then obtain ss' where t: "tabs (db_conn db') = (view s i)\<lparr>ht_slots := Some ss'\<rparr>" and ss': "ss' = clear_slot off ss \<or> ss' = ss"
    by blast
  have h: "hoard_inv (other_offsets s i) (entry (\<not> hs_tainted s \<and> i \<notin> hs_failed s) (hs_file s)) cs ss'"
    using ss' v(4) hoard_inv_clear_slot by blast
  have "slot_offsets ss' = slot_offsets ss"
    using ss' clear_slot_offsets(2) by metis
  with v(5) have c: "chunks_inv (slot_offsets ss' \<union> other_offsets s i) (entry (\<not> hs_tainted s) (hs_file s)) cs"
    by simp
  show ?thesis
    by (rule absorb_same_file [OF inv _ _ _ c])
      (use t v(1,3) h in \<open>auto simp: hoard_inv_def opened_def view_def\<close>)
qed

lemma flush_step_inv:
  assumes inv: "system_inv s" "hs_slots s i = Some ss" and c: "connected s i db" and r: "flush_slot_cache db = Some db'"
  shows "system_inv ((absorb i (tabs (db_conn db')) (hs_file s) s)\<lparr>hs_tainted := hs_tainted s \<or> i \<in> hs_failed s\<rparr>)"
proof -
  let ?tn = "hs_tainted s \<or> i \<in> hs_failed s"
  let ?E = "entry (\<not> ?tn) (hs_file s)"
  from inv obtain cs where v: "ht_chunks (view s i) = Some cs" "ht_slots (view s i) = Some ss" "ht_chunks (hs_tables s) = Some cs"
      "opened (hs_tables s)" "hoard_inv (other_offsets s i) (entry (\<not> hs_tainted s \<and> i \<notin> hs_failed s) (hs_file s)) cs ss"
    by (rule system_view)
  then have h: "hoard_inv (other_offsets s i) ?E cs ss"
    by simp
  have d: "idle db" "only_soft db" "tabs (db_conn db) = view s i"
    using c by (simp_all add: connected_def)
  obtain db1 where f: "flush_slot_cache db = Some db1"
      "(\<exists>cs'. tabs (db_conn db1) = with_rows (view s i) cs' [] \<and> chunks_inv (other_offsets s i) ?E cs' \<and> retagged cs (slot_tags ss) cs')
        \<or> tabs (db_conn db1) = view s i \<and> \<not> only_contention db"
    by (rule flush_slot_cache_run [OF d v(1,2) h entry_numeric])
  have same: "view s i = with_rows (view s i) cs ss"
    using v(1,2) by simp
  obtain cs' ss' where t: "tabs (db_conn db') = with_rows (view s i) cs' ss'" and h': "hoard_inv (other_offsets s i) ?E cs' ss'"
    using f(2)
  proof (elim disjE exE conjE)
    fix cs'
    assume "tabs (db_conn db1) = with_rows (view s i) cs' []" "chunks_inv (other_offsets s i) ?E cs'"
    then show thesis
      using that [where cs' = cs' and ss' = "[]"] f(1) r by (simp add: hoard_inv_def slot_offsets_def)
  next
    assume "tabs (db_conn db1) = view s i"
    then show thesis
      using that [where cs' = cs and ss' = ss] f(1) r same h by simp
  qed
  have "system_inv ((absorb i (tabs (db_conn db')) (hs_file s) s)\<lparr>hs_failed := hs_failed s, hs_tainted := ?tn\<rparr>)"
  proof (rule absorb_inv [OF inv v(3)])
    show "opened (tabs (db_conn db'))" "ht_chunks (tabs (db_conn db')) = Some cs'"
      using t v(4) by (simp_all add: opened_def view_def)
    show "chunks_inv ((case ht_slots (tabs (db_conn db')) of None \<Rightarrow> {} | Some ss \<Rightarrow> slot_offsets ss) \<union> other_offsets s i) ?E cs'"
      using t h' by (simp add: hoard_inv_def)
    show "distinct (map sl_offset ss1) \<and> slot_offsets ss1 \<inter> other_offsets s i = {}
        \<and> (\<forall>x \<in> set ss1. slot_ok (entry (\<not> ?tn \<and> i \<notin> hs_failed s) (hs_file s)) x)"
      if "ht_slots (tabs (db_conn db')) = Some ss1" for ss1
      using that t h' by (auto simp: hoard_inv_def slot_ok_def intro: entry_weaken)
  qed (simp_all add: spare_def)
  then show ?thesis
    by (simp add: absorb_def)
qed

text \<open>After a failed store the tables are as before, and the rows of the table and the slots of the others have kept their data.\<close>

lemma spare_rows:
  assumes h: "chunks_inv own E cs" "E = entry c d" and sp: "spare others cs d d'"
  shows "chunks_inv own (entry c d') cs"
proof (rule chunks_inv_mono [OF h(1)])
  fix r tag
  assume r: "r \<in> set cs" "hc_tag r = Some tag" "offset_ok (hc_offset r)" "E tag (hc_offset r) (hc_length r) (hc_crypto r)"
  then have "hc_offset r \<in> hc_offset ` tagged_rows cs"
    by (auto simp: tagged_rows_def)
  with r sp h(2) show "entry c d' tag (hc_offset r) (hc_length r) (hc_crypto r)"
    by (intro spare_entry [of others cs d d']) simp_all
qed

lemma put_step:
  assumes inv: "system_inv s" "hs_slots s i = Some ss" and c: "connected s i db" and f: "f_data f = hs_file s" and rm: "system_room s"
    and p: "hoard_parcel p" "0 < length buf" "length buf \<le> 131072" "iu_chunk_crypto_digest (p_crypto p) buf = Some (Some (take 20 tag))"
    and r: "hoard_put_chunk True p tag buf db f = Some (ret, db', f')"
  shows "system_inv ((absorb i (tabs (db_conn db')) (f_data f') s)\<lparr>
    hs_failed := (if ret = PK_SUCCESS then hs_failed s else insert i (hs_failed s)), hs_tainted := hs_tainted s \<or> i \<in> hs_failed s\<rparr>)"
proof -
  let ?tn = "hs_tainted s \<or> i \<in> hs_failed s" and ?others = "other_offsets s i"
  from inv obtain cs where v: "ht_chunks (view s i) = Some cs" "ht_slots (view s i) = Some ss" "ht_chunks (hs_tables s) = Some cs"
      "opened (hs_tables s)" "hoard_inv ?others (entry (\<not> hs_tainted s \<and> i \<notin> hs_failed s) (hs_file s)) cs ss"
    by (rule system_view)
  then have h: "hoard_inv ?others (entry (\<not> ?tn) (f_data f)) cs ss" and rm: "room cs"
    using f rm by (simp_all add: system_room_def)
  have d: "idle db" "only_soft db" "tabs (db_conn db) = view s i"
    using c by (simp_all add: connected_def)
  have dg: "take 20 tag = sha1_spec_hash buf"
    using p(1,4) by (simp add: hoard_parcel_def crypto_digest_sha1)
  obtain ret1 db1 f1 where "hoard_put_chunk True p tag buf db f = Some (ret1, db1, f1)"
      "ret1 = PK_SUCCESS \<longrightarrow> put_post (view s i) ?others cs (\<not> ?tn) (f_data f) (take 20 tag) (tabs (db_conn db1)) f1"
      "ret1 \<noteq> PK_SUCCESS \<longrightarrow> tabs (db_conn db1) = view s i \<and> spare ?others cs (f_data f) (f_data f1)"
    by (rule hoard_put_chunk_run [OF d v(1,2) h rm p(1-3) dg]) blast
  then have good: "ret = PK_SUCCESS \<Longrightarrow> put_post (view s i) ?others cs (\<not> ?tn) (f_data f) (take 20 tag) (tabs (db_conn db')) f'"
      and bad: "ret \<noteq> PK_SUCCESS \<Longrightarrow> tabs (db_conn db') = view s i \<and> spare ?others cs (f_data f) (f_data f')"
    using r by simp_all
  show ?thesis
  proof (cases "ret = PK_SUCCESS")
    case True
    obtain cs' ss' where t: "tabs (db_conn db') = with_rows (view s i) cs' ss'"
        and h': "hoard_inv ?others (entry (\<not> ?tn) (f_data f')) cs' ss'" and sp: "spare ?others cs (f_data f) (f_data f')"
      using good [OF True] unfolding put_post_def by (elim exE conjE) (rule that)
    have op: "opened (tabs (db_conn db'))"
      using t v(4) by (simp add: opened_def view_def)
    have ok: "slot_ok (entry (\<not> ?tn \<and> i \<notin> hs_failed s) (f_data f')) x" if "x \<in> set ss'" for x
      using h' that by (auto simp: hoard_inv_def slot_ok_def intro: entry_weaken)
    show ?thesis
      unfolding if_P [OF True]
      by (rule absorb_inv [OF inv v(3), where cs' = cs']) (use op t h' sp f ok in \<open>simp_all add: hoard_inv_def\<close>)
  next
    case False
    with bad have t: "tabs (db_conn db') = view s i" and sp: "spare ?others cs (f_data f) (f_data f')"
      by auto
    have op: "opened (tabs (db_conn db'))"
      using t v(4) by (simp add: opened_def view_def)
    have ch: "chunks_inv (slot_offsets ss \<union> ?others) (entry (\<not> ?tn) (f_data f')) cs"
      by (rule spare_rows [OF _ refl sp]) (use h in \<open>simp only: hoard_inv_def\<close>)
    have sl: "slot_ok (entry False (f_data f')) x" if "x \<in> set ss" for x
      using h that by (auto simp: hoard_inv_def slot_ok_def entry_def)
    show ?thesis
      unfolding if_not_P [OF False]
      by (rule absorb_inv [OF inv v(3), where cs' = cs])
        (use op t v(1,2) h ch sl sp f in \<open>simp_all add: hoard_inv_def\<close>)
  qed
qed

lemma leave_step:
  assumes inv: "system_inv s" "hs_slots s i = Some ss" and c: "connected s i db"
    and l: "lock = PK_SUCCESS \<Longrightarrow> \<forall>j. j \<noteq> i \<longrightarrow> hs_slots s j = None" and r: "hoard_shutdown lock flags dice db = Some t"
  shows "system_inv ((absorb i t (hs_file s) s)\<lparr>hs_failed := hs_failed s - {i}, hs_tainted := hs_tainted s \<or> i \<in> hs_failed s\<rparr>)"
proof -
  let ?tn = "hs_tainted s \<or> i \<in> hs_failed s" and ?others = "other_offsets s i"
  from inv obtain cs ps refs where v: "ht_chunks (view s i) = Some cs" "ht_slots (view s i) = Some ss" "ht_parcels (view s i) = Some ps"
      "ht_refs (view s i) = Some refs" "ht_chunks (hs_tables s) = Some cs" "opened (hs_tables s)"
      "hoard_inv ?others (entry (\<not> hs_tainted s \<and> i \<notin> hs_failed s) (hs_file s)) cs ss"
    by (rule system_view)
  then have h: "hoard_inv ?others (entry (\<not> ?tn) (hs_file s)) cs ss"
    by simp
  have d: "idle db" "only_soft db" "tabs (db_conn db) = view s i"
    using c by (simp_all add: connected_def)
  have l: "?others = {}" if "lock = PK_SUCCESS"
    using l [OF that] by (auto simp: all_offsets_def)
  obtain cs' ps' where "hoard_shutdown lock flags dice db = Some ((view s i)\<lparr>ht_parcels := Some ps', ht_chunks := Some cs', ht_slots := None\<rparr>)"
      and ch: "chunks_inv ?others (entry (\<not> ?tn) (hs_file s)) cs'"
    by (rule hoard_shutdown_run [OF d v(1-4) h entry_numeric l])
  with r have t: "t = (view s i)\<lparr>ht_parcels := Some ps', ht_chunks := Some cs', ht_slots := None\<rparr>"
    by simp
  show ?thesis
    by (rule absorb_inv [OF inv v(5), where cs' = cs']) (use t v(6) ch in \<open>auto simp: opened_def view_def spare_def\<close>)
qed

lemma crash_step:
  assumes inv: "system_inv s" "hs_slots s i = Some ss"
  shows "system_inv (s\<lparr>hs_slots := (hs_slots s)(i := None), hs_failed := hs_failed s - {i}\<rparr>)"
proof -
  from inv obtain cs where v: "ht_chunks (hs_tables s) = Some cs" "opened (hs_tables s)" "ht_slots (hs_tables s) = None"
      "chunks_inv (slot_offsets ss \<union> other_offsets s i) (entry (\<not> hs_tainted s) (hs_file s)) cs"
    by (rule system_view)
  have "chunks_inv (other_offsets s i) (entry (\<not> hs_tainted s) (hs_file s)) cs"
    by (rule chunks_inv_own [OF v(4)]) simp
  then have "system_inv ((absorb i (hs_tables s) (hs_file s) s)\<lparr>hs_failed := hs_failed s - {i}, hs_tainted := hs_tainted s\<rparr>)"
    by (intro absorb_inv [OF inv v(1,2,1)]) (use v(3) in \<open>auto simp: spare_def\<close>)
  moreover have "(hs_tables s)\<lparr>ht_slots := None\<rparr> = hs_tables s"
    using v(3) by simp
  ultimately show ?thesis
    using v(3) by (simp only: absorb_def) simp
qed

lemma hoard_step_inv: "hoard_step s s' \<Longrightarrow> system_inv s \<Longrightarrow> system_inv s'"
  by (induction rule: hoard_step.induct)
    (blast intro: enter_step ident_step put_step drop_row_step drop_slot_step collect_step sync_step flush_step_inv leave_step crash_step)+

lemma hoard_reach_inv: "hoard_reach s \<Longrightarrow> system_inv s"
  by (induction rule: hoard_reach.induct) (simp add: system_inv_def, rule hoard_step_inv)

text \<open>What the invariant says about the slots.\<close>

lemma slots_disjoint:
  assumes "slots_inv s" "i \<noteq> j" "hs_slots s i = Some ss" "hs_slots s j = Some ss'"
  shows "sl_offset ` set ss \<inter> sl_offset ` set ss' = {}"
proof -
  have "slot_offsets ss' \<subseteq> other_offsets s i"
    using assms by (auto simp: all_offsets_def)
  moreover have "slot_offsets ss \<inter> other_offsets s i = {}"
    using assms by (simp add: slots_inv_def)
  ultimately show ?thesis
    unfolding slot_offsets_def by blast
qed

lemma slot_taken:
  assumes "chunks_inv (all_offsets (hs_slots s)) E cs" "hs_slots s i = Some ss" "x \<in> set ss"
  shows "\<exists>r \<in> set cs. hc_offset r = sl_offset x \<and> hc_allocated r = 1 \<and> hc_tag r = None"
proof -
  have "sl_offset x \<in> all_offsets (hs_slots s)"
    using assms(2,3) by (auto simp: all_offsets_def slot_offsets_def)
  moreover have "\<forall>off \<in> all_offsets (hs_slots s). \<exists>r \<in> set cs. hc_offset r = off \<and> taken r"
    using assms(1) unfolding chunks_inv_def by (elim conjE)
  ultimately show ?thesis
    unfolding taken_def by blast
qed

end
