(* ===== verification/Isr_Hoard_Props.thy ===== *)
theory Isr_Hoard_Props
  imports Isr_Hoard_System
begin

text \<open>
  The contract of the hoard cache, over the states that the system of all its processes reaches, and an example of such states: two
  processes enter an empty hoard, and one of them stores a chunk and gives its slots back.
\<close>

section \<open>An example\<close>

text \<open>The connection of process \<open>i\<close> with nobody else at work.\<close>

definition quiet :: "hoard_system \<Rightarrow> nat \<Rightarrow> hdb" where
  "quiet s i = \<lparr>db_conn = \<lparr>tabs = view s i, trans = None, faults = []\<rparr>, db_held = False, db_queries = 0, db_result = SQLITE_OK,
     db_use_transaction = True, db_retries = 0, db_criticals = 0\<rparr>"

lemma quiet_connected [simp]: "connected s i (quiet s i)" "only_contention (quiet s i)" "idle (quiet s i)" "only_soft (quiet s i)"
  "tabs (db_conn (quiet s i)) = view s i"
  by (simp_all add: quiet_def connected_def idle_def)

definition hoard_user :: pk_parcel where
  "hoard_user = \<lparr>p_crypto = IU_CHUNK_CRY_AES_SHA1, p_required_compress = 2, p_chunks = 2, p_chunksize = 131072, p_chunks_per_dir = 512,
     p_hashlen = 20, p_uuid = ''e0f2'', p_server = ''isr'', p_user = ''ann'', p_parcel = ''disk'', p_master = ''/isr/ann/disk/last/hdk''\<rparr>"

lemma hoard_user_ok: "hoard_parcel hoard_user" "p_crypto hoard_user = IU_CHUNK_CRY_AES_SHA1"
  by (simp_all add: hoard_parcel_def hoard_user_def)

lemma enter_reaches:
  assumes "hoard_reach s" "hs_slots s i = None" "ht_slots (hs_tables s) = None" "blank (view s i) \<or> ht_version (view s i) = HOARD_INDEX_VERSION"
  shows "hoard_reach (absorb i ((if blank (view s i) then created (view s i) else view s i)\<lparr>ht_slots := Some []\<rparr>) (hs_file s) s)"
proof -
  let ?t = "(if blank (view s i) then created (view s i) else view s i)\<lparr>ht_slots := Some []\<rparr>"
  have n: "ht_slots (view s i) = None"
    using assms(2) by (simp add: view_def)
  obtain r db where r: "in_transaction check_hoard_index (quiet s i) = Some (r, db)" "later (quiet s i) db" "idle db"
      "case r of Inr a \<Rightarrow> tabs (db_conn db) = ?t
        | Inl e \<Rightarrow> e \<noteq> PK_SUCCESS \<and> tabs (db_conn db) = view s i \<and> \<not> (True \<and> only_contention (quiet s i))"
    by (rule in_transaction_run [OF check_hoard_index_run [OF _ n assms(4)] quiet_connected(3-5)])
  have "r = Inr ()" and t: "tabs (db_conn db) = ?t"
    using r(4) by (auto split: sum.splits)
  with r(1) hoard_step.enter [OF assms(2) quiet_connected(1)] have "hoard_step s (absorb i ?t (hs_file s) s)"
    by fastforce
  with assms(1) show ?thesis
    by (rule hoard_reach.step)
qed

lemma put_reaches:
  assumes s: "hoard_reach s" "hs_slots s i = Some ss" "\<not> hs_tainted s" "hs_failed s = {}" "system_room s"
    and b: "0 < length buf" "length buf \<le> 131072"
  obtains s' cs' ss' where "hoard_reach s'" "hs_slots s' = (hs_slots s)(i := Some ss')" "ht_chunks (hs_tables s') = Some cs'"
    "\<not> hs_tainted s'" "hs_failed s' = {}" "sha1_spec_hash buf \<in> row_tags cs' \<union> slot_tags ss'"
proof -
  let ?f = "\<lparr>f_data = hs_file s, f_faults = []\<rparr>" and ?tag = "sha1_spec_hash buf" and ?db = "quiet s i"
  from hoard_reach_inv [OF s(1)] s(2) obtain cs where v: "ht_chunks (view s i) = Some cs" "ht_slots (view s i) = Some ss"
      "ht_chunks (hs_tables s) = Some cs" "hoard_inv (other_offsets s i) (entry (\<not> hs_tainted s \<and> i \<notin> hs_failed s) (hs_file s)) cs ss"
    by (rule system_view)
  have h: "hoard_inv (other_offsets s i) (entry True (f_data ?f)) cs ss" and rm: "room cs"
    using v(3,4) s(3-5) by (simp_all add: system_room_def)
  have dg: "take 20 ?tag = ?tag"
    by simp
  obtain ret db' f' where r: "hoard_put_chunk True hoard_user ?tag buf ?db ?f = Some (ret, db', f')"
      "ret = PK_SUCCESS \<longrightarrow> put_post (view s i) (other_offsets s i) cs True (f_data ?f) ?tag (tabs (db_conn db')) f'"
      "ret \<noteq> PK_SUCCESS \<longrightarrow> \<not> (f_faults ?f = [] \<and> only_contention ?db)"
    by (rule hoard_put_chunk_run [OF quiet_connected(3-5) v(1,2) h rm hoard_user_ok(1) b dg]) (simp only: dg, blast)
  then have ret: "ret = PK_SUCCESS"
    by auto
  with r(2) obtain cs' ss' where t: "tabs (db_conn db') = with_rows (view s i) cs' ss'" "?tag \<in> row_tags cs' \<union> slot_tags ss'"
    unfolding put_post_def by blast
  have "hoard_step s ((absorb i (tabs (db_conn db')) (f_data f') s)\<lparr>
      hs_failed := (if ret = PK_SUCCESS then hs_failed s else insert i (hs_failed s)), hs_tainted := hs_tainted s \<or> i \<in> hs_failed s\<rparr>)"
    by (rule hoard_step.put [OF s(2) quiet_connected(1) _ s(5) hoard_user_ok(1) b _ r(1)]) (simp_all add: hoard_user_ok(2) crypto_digest_sha1)
  with s(1) have "hoard_reach ((absorb i (tabs (db_conn db')) (f_data f') s)\<lparr>
      hs_failed := (if ret = PK_SUCCESS then hs_failed s else insert i (hs_failed s)), hs_tainted := hs_tainted s \<or> i \<in> hs_failed s\<rparr>)"
    by (rule hoard_reach.step)
  then show thesis
    by (rule that [where cs' = cs' and ss' = ss']) (use t ret s(3,4) in \<open>simp_all add: absorb_def\<close>)
qed

lemma flush_reaches:
  assumes s: "hoard_reach s" "hs_slots s i = Some ss" "ht_chunks (hs_tables s) = Some cs" "\<not> hs_tainted s" "hs_failed s = {}"
  obtains s' cs' where "hoard_reach s'" "hs_slots s' = (hs_slots s)(i := Some [])" "ht_chunks (hs_tables s') = Some cs'"
    "\<not> hs_tainted s'" "hs_failed s' = {}" "row_tags cs' = row_tags cs \<union> slot_tags ss"
proof -
  let ?db = "quiet s i"
  from hoard_reach_inv [OF s(1)] s(2) obtain cs0 where v: "ht_chunks (view s i) = Some cs0" "ht_slots (view s i) = Some ss"
      "ht_chunks (hs_tables s) = Some cs0" "hoard_inv (other_offsets s i) (entry (\<not> hs_tainted s \<and> i \<notin> hs_failed s) (hs_file s)) cs0 ss"
    by (rule system_view)
  obtain db' where f: "flush_slot_cache ?db = Some db'" "(\<exists>cs'. tabs (db_conn db') = with_rows (view s i) cs' []
      \<and> chunks_inv (other_offsets s i) (entry (\<not> hs_tainted s \<and> i \<notin> hs_failed s) (hs_file s)) cs' \<and> retagged cs0 (slot_tags ss) cs')
        \<or> tabs (db_conn db') = view s i \<and> \<not> only_contention ?db"
    by (rule flush_slot_cache_run [OF quiet_connected(3-5) v(1,2,4) entry_numeric])
  then obtain cs' where t: "tabs (db_conn db') = with_rows (view s i) cs' []" "row_tags cs' = row_tags cs \<union> slot_tags ss"
    using v(3) s(3) quiet_connected(2) by (auto simp: retagged_def grown_def)
  from s(1) hoard_step.flush [OF s(2) quiet_connected(1) f(1)]
  have "hoard_reach ((absorb i (tabs (db_conn db')) (hs_file s) s)\<lparr>hs_tainted := hs_tainted s \<or> i \<in> hs_failed s\<rparr>)"
    by (rule hoard_reach.step)
  then show thesis
    by (rule that [where cs' = cs']) (use t s(4,5) in \<open>simp_all add: absorb_def\<close>)
qed

lemma shared_chunk:
  assumes "0 < length buf" "length buf \<le> 131072"
  obtains s cs where "hoard_reach s" "hs_slots s = (\<lambda>_. None)(0 := Some [], 1 := Some [])" "ht_chunks (hs_tables s) = Some cs"
    "\<not> hs_tainted s" "hs_failed s = {}" "sha1_spec_hash buf \<in> row_tags cs"
proof -
  let ?s1 = "absorb 0 ((created (view fresh_hoard 0))\<lparr>ht_slots := Some []\<rparr>) (hs_file fresh_hoard) fresh_hoard"
  let ?s2 = "absorb 1 ((view ?s1 1)\<lparr>ht_slots := Some []\<rparr>) (hs_file ?s1) ?s1"
  have "blank (view fresh_hoard 0)" "\<not> blank (view ?s1 1)" "ht_version (view ?s1 1) = HOARD_INDEX_VERSION"
    by (simp_all add: blank_def view_def fresh_hoard_def absorb_def created_def HOARD_INDEX_VERSION_def)
  with enter_reaches [OF hoard_reach.start, of 0] enter_reaches [of ?s1 1] have reach: "hoard_reach ?s2"
    by (simp add: fresh_hoard_def absorb_def)
  have slots: "hs_slots ?s2 = (\<lambda>_. None)(0 := Some [], 1 := Some [])"
    by (simp add: absorb_def fresh_hoard_def)
  have ok: "hs_slots ?s2 0 = Some []" "\<not> hs_tainted ?s2" "hs_failed ?s2 = {}" "system_room ?s2"
    by (simp_all add: absorb_def fresh_hoard_def system_room_def view_def created_def room_def row_offsets_def)
  obtain s cs ss where s: "hoard_reach s" "hs_slots s = (hs_slots ?s2)(0 := Some ss)" "ht_chunks (hs_tables s) = Some cs"
      "\<not> hs_tainted s" "hs_failed s = {}" "sha1_spec_hash buf \<in> row_tags cs \<union> slot_tags ss"
    by (rule put_reaches [OF reach ok assms])
  have "hs_slots s 0 = Some ss"
    using s(2) by simp
  from flush_reaches [OF s(1) this s(3-5)] obtain s' cs' where "hoard_reach s'" "hs_slots s' = (hs_slots s)(0 := Some [])"
      "ht_chunks (hs_tables s') = Some cs'" "\<not> hs_tainted s'" "hs_failed s' = {}" "row_tags cs' = row_tags cs \<union> slot_tags ss"
    by blast
  then show thesis
    using s(2,6) slots by (intro that [of s' cs']) (auto simp: fun_eq_iff)
qed

section \<open>What the hoard promises\<close>

text \<open>
  C38.  In every state that any interleaving of the transactions of any number of processes can reach, with contention, aborted
  transactions, failing file operations and processes that die: no offset occurs twice in the table, every offset is that of a whole
  chunk, no two processes hold the same slot, every slot a process holds is marked as allocated and has no tag in the shared table,
  no tag is there twice, and, unless a process went on after a failed store, the bytes of the file at every tagged row have the tag as
  their digest.
\<close>

theorem hoard_invariant:
  assumes "hoard_reach s" and cs: "ht_chunks (hs_tables s) = Some cs"
  shows "distinct (map hc_offset cs) \<and> (\<forall>r \<in> set cs. 0 \<le> hc_offset r \<and> 256 dvd hc_offset r)
    \<and> (\<forall>i j ss ss'. i \<noteq> j \<and> hs_slots s i = Some ss \<and> hs_slots s j = Some ss' \<longrightarrow> sl_offset ` set ss \<inter> sl_offset ` set ss' = {})
    \<and> (\<forall>i ss. hs_slots s i = Some ss \<longrightarrow> distinct (map sl_offset ss)
        \<and> (\<forall>x \<in> set ss. \<exists>r \<in> set cs. hc_offset r = sl_offset x \<and> hc_allocated r = 1 \<and> hc_tag r = None))
    \<and> (\<forall>r \<in> set cs. \<forall>r' \<in> set cs. hc_tag r = hc_tag r' \<and> hc_tag r \<noteq> None \<longrightarrow> r = r')
    \<and> (\<not> hs_tainted s \<longrightarrow> (\<forall>r \<in> set cs. \<forall>tag. hc_tag r = Some tag \<longrightarrow>
        nat (hc_offset r) * 512 + nat (hc_length r) \<le> length (hs_file s)
        \<and> sha1_spec_hash (take (nat (hc_length r)) (drop (nat (hc_offset r) * 512) (hs_file s))) = tag))"
proof -
  have inv: "slots_inv s" "chunks_inv (all_offsets (hs_slots s)) (entry (\<not> hs_tainted s) (hs_file s)) cs"
    using hoard_reach_inv [OF assms(1)] cs by (auto simp: system_inv_def fresh_hoard_def)
  have rows: "row_ok (entry (\<not> hs_tainted s) (hs_file s)) r" if "r \<in> set cs" for r
    using chunks_inv_rows [OF inv(2) that] .
  show ?thesis
  proof (intro conjI)
    show "distinct (map hc_offset cs)"
      using inv(2) unfolding chunks_inv_def by (elim conjE)
    show "\<forall>r \<in> set cs. 0 \<le> hc_offset r \<and> 256 dvd hc_offset r"
      using rows by (simp add: row_ok_def offset_ok_def)
    show "\<forall>i j ss ss'. i \<noteq> j \<and> hs_slots s i = Some ss \<and> hs_slots s j = Some ss' \<longrightarrow> sl_offset ` set ss \<inter> sl_offset ` set ss' = {}"
      using slots_disjoint [OF inv(1)] by blast
    show "\<forall>i ss. hs_slots s i = Some ss \<longrightarrow> distinct (map sl_offset ss)
        \<and> (\<forall>x \<in> set ss. \<exists>r \<in> set cs. hc_offset r = sl_offset x \<and> hc_allocated r = 1 \<and> hc_tag r = None)"
      using slot_taken [OF inv(2)] inv(1) unfolding slots_inv_def by blast
    show "\<forall>r \<in> set cs. \<forall>r' \<in> set cs. hc_tag r = hc_tag r' \<and> hc_tag r \<noteq> None \<longrightarrow> r = r'"
      using inv(2) unfolding chunks_inv_def by (elim conjE)
    show "\<not> hs_tainted s \<longrightarrow> (\<forall>r \<in> set cs. \<forall>tag. hc_tag r = Some tag \<longrightarrow>
        nat (hc_offset r) * 512 + nat (hc_length r) \<le> length (hs_file s)
        \<and> sha1_spec_hash (take (nat (hc_length r)) (drop (nat (hc_offset r) * 512) (hs_file s))) = tag)"
      using rows by (simp add: row_ok_def entry_def)
  qed
qed

text \<open>Witness for C38: two processes are in the hoard and one has given back a slot with a chunk of three bytes.\<close>

theorem hoard_invariant_witness:
  "\<exists>s cs r. hoard_reach s \<and> ht_chunks (hs_tables s) = Some cs \<and> hs_slots s 0 = Some [] \<and> hs_slots s 1 = Some [] \<and> r \<in> set cs
    \<and> 256 dvd hc_offset r \<and> hc_tag r = Some (sha1_spec_hash [1, 2, 3])
    \<and> sha1_spec_hash (take (nat (hc_length r)) (drop (nat (hc_offset r) * 512) (hs_file s))) = sha1_spec_hash [1, 2, 3]"
proof -
  obtain s cs where s: "hoard_reach s" "hs_slots s = (\<lambda>_. None)(0 := Some [], 1 := Some [])" "ht_chunks (hs_tables s) = Some cs"
      "\<not> hs_tainted s" "hs_failed s = {}" "sha1_spec_hash [1, 2, 3] \<in> row_tags cs"
    by (rule shared_chunk [of "[1, 2, 3]"]) simp_all
  then obtain r where r: "r \<in> set cs" "hc_tag r = Some (sha1_spec_hash [1, 2, 3])"
    by (auto simp: row_tags_def)
  with hoard_invariant [OF s(1,3)] s show ?thesis
    by - (rule exI [of _ s], rule exI [of _ cs], rule exI [of _ r], simp)
qed

lemma hoard_inv_entry:
  assumes "hoard_inv others (entry c d) cs ss" "c' \<Longrightarrow> c \<and> d' = d"
  shows "hoard_inv others (entry c' d') cs ss"
proof -
  have e: "entry c d tag off len cry \<Longrightarrow> entry c' d' tag off len cry" for tag off len cry
    using assms(2) by (auto simp: entry_def)
  have c: "chunks_inv (slot_offsets ss \<union> others) (entry c d) cs"
    using assms(1) by (simp add: hoard_inv_def)
  have "chunks_inv (slot_offsets ss \<union> others) (entry c' d') cs"
    by (rule chunks_inv_mono [OF c]) (rule e, simp_all)
  then show ?thesis
    using assms(1) e by (auto simp: hoard_inv_def slot_ok_def)
qed

text \<open>
  C39.  A process that looks a chunk up in the hoard gets an answer, however long the others keep the database busy and whatever the file
  holds, also if it was damaged from outside: data whose digest is the tag, or the news that there is none; the file is not
  changed.  If the file is as the processes left it and can be read, and no store failed, the answer is the data exactly if the tag is in
  the shared table or in the slots of the process, and nothing changes.  (No other process changes the hoard during the call.)
\<close>

theorem hoard_get_chunk_answers:
  assumes "hoard_reach s" "hs_slots s i = Some ss" "ht_chunks (hs_tables s) = Some cs"
    and "connected s i db" "only_contention db" "hoard_parcel p"
  shows "\<exists>ret buf db' f'. hoard_get_chunk True p tag db f = Some (ret, buf, db', f') \<and> f_data f' = f_data f
    \<and> (ret = PK_SUCCESS \<and> sha1_spec_hash buf = take 20 tag \<or> ret = PK_NOTFOUND)
    \<and> (f_data f = hs_file s \<and> \<not> hs_tainted s \<and> i \<notin> hs_failed s \<and> f_faults f = [] \<longrightarrow>
        connected s i db' \<and> (ret = PK_SUCCESS \<longleftrightarrow> take 20 tag \<in> row_tags cs \<union> slot_tags ss))"
proof -
  let ?c = "f_data f = hs_file s \<and> \<not> hs_tainted s \<and> i \<notin> hs_failed s"
  from hoard_reach_inv [OF assms(1)] assms(2) obtain cs0 where v: "ht_chunks (view s i) = Some cs0" "ht_slots (view s i) = Some ss"
      "ht_chunks (hs_tables s) = Some cs0" "hoard_inv (other_offsets s i) (entry (\<not> hs_tainted s \<and> i \<notin> hs_failed s) (hs_file s)) cs0 ss"
    by (rule system_view)
  have same: "with_rows (view s i) cs ss = view s i"
    using v(1-3) assms(3) by simp
  have "hoard_inv (other_offsets s i) (entry ?c (f_data f)) cs0 ss"
    by (rule hoard_inv_entry [OF v(4)]) simp
  then have "get_state (view s i) (other_offsets s i) (entry ?c (f_data f)) cs ss db"
    using assms(3-5) v(3) unfolding get_state_def same by (simp add: connected_def)
  from hoard_get_loop_run [OF this assms(6), of tag] obtain ret buf db' f' cs' ss' where
      l: "hoard_get_loop p tag db f = Some (ret, buf, db', f')" "get_state (view s i) (other_offsets s i) (entry ?c (f_data f)) cs' ss' db'"
      "f_data f' = f_data f" "answered cs' ss' (take 20 tag) ret buf" "?c \<and> f_faults f = [] \<longrightarrow> cs' = cs \<and> ss' = ss"
    by blast
  have "ret = PK_SUCCESS \<and> sha1_spec_hash buf = take 20 tag \<or> ret = PK_NOTFOUND"
    using l(4) by (simp add: answered_def split: if_splits)
  moreover have "connected s i db' \<and> (ret = PK_SUCCESS \<longleftrightarrow> take 20 tag \<in> row_tags cs \<union> slot_tags ss)" if "?c \<and> f_faults f = []"
  proof
    show "connected s i db'"
      using l(2) l(5) that same only_contention_soft [of db'] by (simp add: get_state_def connected_def)
    show "ret = PK_SUCCESS \<longleftrightarrow> take 20 tag \<in> row_tags cs \<union> slot_tags ss"
      using l(4) l(5) that by (simp add: answered_def split: if_splits)
  qed
  ultimately show ?thesis
    using l(1,3) by - (rule exI [of _ ret], rule exI [of _ buf], rule exI [of _ db'], rule exI [of _ f'], simp add: hoard_get_chunk_def)
qed

text \<open>Witness for C39: the other process finds the chunk.\<close>

theorem hoard_get_chunk_answers_witness:
  "\<exists>s buf db' f'. hoard_reach s \<and> hoard_get_chunk True hoard_user (sha1_spec_hash [1, 2, 3]) (quiet s 1) \<lparr>f_data = hs_file s, f_faults = []\<rparr>
      = Some (PK_SUCCESS, buf, db', f') \<and> sha1_spec_hash buf = sha1_spec_hash [1, 2, 3] \<and> f_data f' = hs_file s"
proof -
  obtain s cs where s: "hoard_reach s" "hs_slots s = (\<lambda>_. None)(0 := Some [], 1 := Some [])" "ht_chunks (hs_tables s) = Some cs"
      "\<not> hs_tainted s" "hs_failed s = {}" "sha1_spec_hash [1, 2, 3] \<in> row_tags cs"
    by (rule shared_chunk [of "[1, 2, 3]"]) simp_all
  have "hs_slots s 1 = Some []"
    using s(2) by simp
  from hoard_get_chunk_answers [OF s(1) this s(3) quiet_connected(1,2) hoard_user_ok(1),
      of "sha1_spec_hash [1, 2, 3]" "\<lparr>f_data = hs_file s, f_faults = []\<rparr>"] s(4-6)
  obtain ret buf db' f' where g: "hoard_get_chunk True hoard_user (sha1_spec_hash [1, 2, 3]) (quiet s 1) \<lparr>f_data = hs_file s, f_faults = []\<rparr>
      = Some (ret, buf, db', f')" "f_data f' = hs_file s" "ret = PK_SUCCESS \<and> sha1_spec_hash buf = sha1_spec_hash [1, 2, 3] \<or> ret = PK_NOTFOUND"
      "ret = PK_SUCCESS"
    by auto
  then show ?thesis
    using s(1) by - (rule exI [of _ s], rule exI [of _ buf], rule exI [of _ db'], rule exI [of _ f'], auto)
qed

end
