(* ===== verification/Isr_Transport.thy ===== *)
theory Isr_Transport
  imports Isr_Hoard_Props
begin

text \<open>
  Fetching chunks from the server, \<^verbatim>\<open>parcelkeeper/transport.c\<close>: the pool of connections, one transfer with its callback, and
  \<open>transport_fetch_chunk\<close>, which retries after failures of the network, compares the digest with the tag and puts the chunk into the
  hoard cache.  libcurl is a parameter: what \<^verbatim>\<open>curl_easy_init\<close> and the options give, and what a transfer delivers, piece by piece, and
  its result.  Its documented behaviour that is relied on is that a callback which takes less than it was given ends the transfer with
  \<^verbatim>\<open>CURLE_WRITE_ERROR\<close>.
\<close>

section \<open>Paths\<close>

fun decimal :: "nat \<Rightarrow> string" where
  "decimal n = (if n < 10 then [char_of (48 + n)] else decimal (n div 10) @ [char_of (48 + n mod 10)])"

declare decimal.simps [simp del]

text \<open>The conversion \<^verbatim>\<open>%.4u\<close>.\<close>

definition decimal4 :: "nat \<Rightarrow> string" where
  "decimal4 n = replicate (4 - length (decimal n)) (CHR ''0'') @ decimal n"

text \<open>\<^verbatim>\<open>form_chunk_path\<close> of \<^verbatim>\<open>util.c\<close>; a division by zero ends the process.\<close>

definition form_chunk_path :: "pk_parcel \<Rightarrow> string \<Rightarrow> nat \<Rightarrow> string option" where
  "form_chunk_path p prefix chunk =
     (if p_chunks_per_dir p = 0 then None
      else Some (prefix @ ''/'' @ decimal4 (chunk div p_chunks_per_dir p) @ ''/'' @ decimal4 (chunk mod p_chunks_per_dir p)))"

section \<open>Connections\<close>

datatype curl_code =
    CURLE_OK | CURLE_COULDNT_RESOLVE_PROXY | CURLE_COULDNT_RESOLVE_HOST | CURLE_COULDNT_CONNECT | CURLE_HTTP_RETURNED_ERROR
  | CURLE_OPERATION_TIMEOUTED | CURLE_GOT_NOTHING | CURLE_SEND_ERROR | CURLE_RECV_ERROR | CURLE_BAD_CONTENT_ENCODING
  | CURLE_WRITE_ERROR | CURLE_FILESIZE_EXCEEDED | CURLE_OTHER

text \<open>The library, over the state \<open>'n\<close> of the network.\<close>

record 'n curl =
  curl_easy_setup :: "'n \<Rightarrow> bool \<times> 'n"
  curl_set_url :: "string \<Rightarrow> 'n \<Rightarrow> bool \<times> 'n"
  curl_transfer :: "'n \<Rightarrow> (bytes list \<times> curl_code) \<times> 'n"

record 'n pk_connection_pool =
  conns :: nat
  net :: 'n

text \<open>The data received so far stand for the buffer and its offset.\<close>

definition curl_callback :: "nat \<Rightarrow> bytes \<Rightarrow> bytes \<Rightarrow> nat \<times> bytes" where
  "curl_callback chunksize data buf = (let count = min (length data) (chunksize - length buf) in (count, buf @ take count data))"

fun curl_deliver :: "nat \<Rightarrow> bytes list \<Rightarrow> curl_code \<Rightarrow> bytes \<Rightarrow> curl_code \<times> bytes" where
  "curl_deliver chunksize [] code buf = (code, buf)"
| "curl_deliver chunksize (data # pieces) code buf = (case curl_callback chunksize data buf of (count, buf) \<Rightarrow>
     if count \<noteq> length data then (CURLE_WRITE_ERROR, buf) else curl_deliver chunksize pieces code buf)"

definition transport_conn_alloc :: "'n curl \<Rightarrow> 'n pk_connection_pool \<Rightarrow> bool \<times> 'n pk_connection_pool" where
  "transport_conn_alloc c pool = (case curl_easy_setup c (net pool) of (ok, n) \<Rightarrow> (ok, pool\<lparr>net := n\<rparr>))"

definition transport_conn_get :: "'n curl \<Rightarrow> 'n pk_connection_pool \<Rightarrow> bool \<times> 'n pk_connection_pool" where
  "transport_conn_get c pool = (if 0 < conns pool then (True, pool\<lparr>conns := conns pool - 1\<rparr>) else transport_conn_alloc c pool)"

definition transport_conn_put :: "'n pk_connection_pool \<Rightarrow> 'n pk_connection_pool" where
  "transport_conn_put pool = pool\<lparr>conns := conns pool + 1\<rparr>"

definition transport_pool_alloc :: "'n \<Rightarrow> 'n pk_connection_pool" where
  "transport_pool_alloc n = \<lparr>conns = 0, net = n\<rparr>"

section \<open>Transfers\<close>

definition curl_ret :: "curl_code \<Rightarrow> pk_err" where
  "curl_ret err =
     (if err = CURLE_OK then PK_SUCCESS
      else if err \<in> {CURLE_COULDNT_RESOLVE_PROXY, CURLE_COULDNT_RESOLVE_HOST, CURLE_COULDNT_CONNECT, CURLE_HTTP_RETURNED_ERROR,
        CURLE_OPERATION_TIMEOUTED, CURLE_GOT_NOTHING, CURLE_SEND_ERROR, CURLE_RECV_ERROR, CURLE_BAD_CONTENT_ENCODING} then PK_NETFAIL
      else PK_IOERR)"

definition transport_get :: "'n curl \<Rightarrow> pk_parcel \<Rightarrow> nat \<Rightarrow> 'n pk_connection_pool \<Rightarrow> (pk_err \<times> bytes \<times> 'n pk_connection_pool) option" where
  "transport_get c p chunk pool =
     (case transport_conn_get c pool of (ok, pool) \<Rightarrow>
        if \<not> ok then Some (PK_CALLFAIL, [], pool)
        else do {
          url \<leftarrow> form_chunk_path p (p_master p) chunk;
          (case curl_set_url c url (net pool) of (ok, n) \<Rightarrow>
             if \<not> ok then Some (PK_CALLFAIL, [], transport_conn_put (pool\<lparr>net := n\<rparr>))
             else case curl_transfer c n of ((pieces, code), n) \<Rightarrow>
               case curl_deliver (p_chunksize p) pieces code [] of (err, buf) \<Rightarrow>
                 Some (curl_ret err, buf, transport_conn_put (pool\<lparr>net := n\<rparr>)))
        })"

definition TRANSPORT_TRIES :: nat where "TRANSPORT_TRIES = 5"

fun transport_try :: "nat \<Rightarrow> 'n curl \<Rightarrow> pk_parcel \<Rightarrow> nat \<Rightarrow> 'n pk_connection_pool \<Rightarrow> (pk_err \<times> bytes \<times> 'n pk_connection_pool) option" where
  "transport_try 0 c p chunk pool = Some (PK_NETFAIL, [], pool)"
| "transport_try (Suc i) c p chunk pool = do {
     (ret, buf, pool) \<leftarrow> transport_get c p chunk pool;
     if ret \<noteq> PK_NETFAIL then Some (ret, buf, pool) else transport_try i c p chunk pool
   }"

text \<open>\<open>dir\<close> says that there is a hoard directory; the result of the attempt to put the chunk into the hoard cache is ignored.\<close>

definition transport_fetch_chunk ::
  "'n curl \<Rightarrow> bool \<Rightarrow> pk_parcel \<Rightarrow> nat \<Rightarrow> bytes \<Rightarrow> 'n pk_connection_pool \<Rightarrow> hdb \<Rightarrow> pfile
    \<Rightarrow> (pk_err \<times> bytes \<times> 'n pk_connection_pool \<times> hdb \<times> pfile) option" where
  "transport_fetch_chunk c dir p chunk tag pool db f = do {
     (ret, buf, pool) \<leftarrow> transport_try TRANSPORT_TRIES c p chunk pool;
     if ret \<noteq> PK_SUCCESS then Some (ret, [], pool, db, f)
     else do {
       calctag \<leftarrow> iu_chunk_crypto_digest (p_crypto p) buf;
       (case calctag of
          None \<Rightarrow> Some (PK_CALLFAIL, [], pool, db, f)
        | Some calctag \<Rightarrow>
            if take (p_hashlen p) tag \<noteq> take (p_hashlen p) calctag then Some (PK_TAGFAIL, [], pool, db, f)
            else do { (_, db, f) \<leftarrow> hoard_put_chunk dir p tag buf db f; Some (PK_SUCCESS, buf, pool, db, f) })
     }
   }"

section \<open>Every transfer fits its buffer\<close>

text \<open>With \<^verbatim>\<open>CHUNKSPERDIR=0\<close>, which the configuration may contain, the process ends at the first chunk it fetches over a connection it has.\<close>

lemma form_chunk_path_zero:
  "p_chunks_per_dir p = 0 \<Longrightarrow> 0 < conns pool \<Longrightarrow> transport_fetch_chunk c dir p chunk tag pool db f = None"
  by (simp add: transport_fetch_chunk_def TRANSPORT_TRIES_def eval_nat_numeral transport_get_def transport_conn_get_def form_chunk_path_def)

lemma curl_deliver_fits: "length buf \<le> n \<Longrightarrow> length (snd (curl_deliver n pieces code buf)) \<le> n"
  by (induction n pieces code buf rule: curl_deliver.induct) (auto simp: curl_callback_def Let_def)

lemma curl_deliver_all: "fst (curl_deliver n pieces code buf) = CURLE_OK \<Longrightarrow> snd (curl_deliver n pieces code buf) = buf @ concat pieces"
  by (induction n pieces code buf rule: curl_deliver.induct) (auto simp: curl_callback_def Let_def min_def split: if_splits)

lemma curl_ret_success: "curl_ret err = PK_SUCCESS \<longleftrightarrow> err = CURLE_OK"
  by (simp add: curl_ret_def)

text \<open>A server that has no empty files: a transfer that is completed has delivered something.  A transfer that fails may have delivered nothing.\<close>

definition no_empty_files :: "'n curl \<Rightarrow> bool" where
  "no_empty_files c \<longleftrightarrow> (\<forall>n pieces n'. curl_transfer c n = ((pieces, CURLE_OK), n') \<longrightarrow> concat pieces \<noteq> [])"

lemma curl_deliver_ok: "fst (curl_deliver n pieces code buf) = CURLE_OK \<Longrightarrow> code = CURLE_OK"
  by (induction n pieces code buf rule: curl_deliver.induct) (auto simp: curl_callback_def Let_def split: if_splits)

lemma transport_get_run:
  assumes "p_chunks_per_dir p \<noteq> 0"
  shows "\<exists>ret buf pool'. transport_get c p chunk pool = Some (ret, buf, pool') \<and> length buf \<le> p_chunksize p
    \<and> (ret = PK_SUCCESS \<and> no_empty_files c \<longrightarrow> buf \<noteq> [])"
proof -
  obtain ok pool1 where g: "transport_conn_get c pool = (ok, pool1)"
    by fastforce
  obtain url where u: "form_chunk_path p (p_master p) chunk = Some url"
    using assms by (simp add: form_chunk_path_def)
  obtain ok2 n where s: "curl_set_url c url (net pool1) = (ok2, n)"
    by fastforce
  obtain pieces code n2 where t: "curl_transfer c n = ((pieces, code), n2)"
    by (metis prod.collapse)
  obtain err buf where d: "curl_deliver (p_chunksize p) pieces code [] = (err, buf)"
    by fastforce
  have "buf \<noteq> []" if "err = CURLE_OK" "no_empty_files c"
  proof -
    have "code = CURLE_OK" "buf = concat pieces"
      using curl_deliver_ok [of "p_chunksize p" pieces code "[]"] curl_deliver_all [of "p_chunksize p" pieces code "[]"] d that(1) by simp_all
    then show ?thesis
      using that(2) t unfolding no_empty_files_def by auto
  qed
  moreover have "length buf \<le> p_chunksize p"
    using curl_deliver_fits [of "[]" "p_chunksize p" pieces code] d by simp
  ultimately show ?thesis
    by (simp add: transport_get_def g u s t d curl_ret_success)
qed

lemma transport_try_run:
  assumes "p_chunks_per_dir p \<noteq> 0"
  shows "\<exists>ret buf pool'. transport_try n c p chunk pool = Some (ret, buf, pool') \<and> length buf \<le> p_chunksize p
    \<and> (ret = PK_SUCCESS \<and> no_empty_files c \<longrightarrow> buf \<noteq> [])"
proof (induction n arbitrary: pool)
  case (Suc n)
  from transport_get_run [OF assms, of c chunk pool] obtain ret buf pool' where
      g: "transport_get c p chunk pool = Some (ret, buf, pool')" "length buf \<le> p_chunksize p" "ret = PK_SUCCESS \<and> no_empty_files c \<longrightarrow> buf \<noteq> []"
    by blast
  with Suc [of pool'] show ?case
    by (cases "ret = PK_NETFAIL") auto
qed simp

section \<open>What is fetched\<close>

text \<open>What a store leaves behind, seen from the system.\<close>

lemma put_lands:
  assumes s: "hoard_reach s" "hs_slots s i = Some ss" "connected s i db" "f_data f = hs_file s" "system_room s" "hoard_parcel p"
    and b: "0 < length buf" "length buf \<le> 131072" "sha1_spec_hash buf = take 20 tag"
  obtains ret db' f' s' where "hoard_put_chunk True p tag buf db f = Some (ret, db', f')" "hoard_reach s'"
    "hs_tables s' = (tabs (db_conn db'))\<lparr>ht_slots := None\<rparr>" "hs_slots s' = (hs_slots s)(i := ht_slots (tabs (db_conn db')))"
    "hs_file s' = f_data f'" "only_contention db \<and> f_faults f = [] \<longrightarrow>
      (\<exists>cs' ss'. ht_chunks (hs_tables s') = Some cs' \<and> hs_slots s' i = Some ss' \<and> take 20 tag \<in> row_tags cs' \<union> slot_tags ss')"
proof -
  from hoard_reach_inv [OF s(1)] s(2) obtain cs where v: "ht_chunks (view s i) = Some cs" "ht_slots (view s i) = Some ss"
      "ht_chunks (hs_tables s) = Some cs" "hoard_inv (other_offsets s i) (entry (\<not> hs_tainted s \<and> i \<notin> hs_failed s) (hs_file s)) cs ss"
    by (rule system_view)
  have h: "hoard_inv (other_offsets s i) (entry (\<not> hs_tainted s \<and> i \<notin> hs_failed s) (f_data f)) cs ss" and rm: "room cs"
    using v(3,4) s(4,5) by (simp_all add: system_room_def)
  have d: "idle db" "only_soft db" "tabs (db_conn db) = view s i"
    using s(3) by (simp_all add: connected_def)
  obtain ret db' f' where r: "hoard_put_chunk True p tag buf db f = Some (ret, db', f')"
      "ret = PK_SUCCESS \<longrightarrow> (\<exists>cs ss. tabs (db_conn db') = with_rows (view s i) cs ss \<and> take 20 tag \<in> row_tags cs \<union> slot_tags ss)"
      "ret \<noteq> PK_SUCCESS \<longrightarrow> \<not> (f_faults f = [] \<and> only_contention db)"
    by (rule hoard_put_chunk_run [OF d v(1,2) h rm s(6) b(1,2) b(3) [symmetric]]) (unfold put_post_def, blast)
  let ?s = "(absorb i (tabs (db_conn db')) (f_data f') s)\<lparr>
    hs_failed := (if ret = PK_SUCCESS then hs_failed s else insert i (hs_failed s)), hs_tainted := hs_tainted s \<or> i \<in> hs_failed s\<rparr>"
  have "iu_chunk_crypto_digest (p_crypto p) buf = Some (Some (take 20 tag))"
    using s(6) b(3) by (simp add: hoard_parcel_def crypto_digest_sha1)
  then have "hoard_step s ?s"
    by (rule hoard_step.put [OF s(2-6) b(1,2) _ r(1)])
  with s(1) have "hoard_reach ?s"
    by (rule hoard_reach.step)
  with r(1) show thesis
  proof (rule that)
    show "only_contention db \<and> f_faults f = [] \<longrightarrow>
        (\<exists>cs' ss'. ht_chunks (hs_tables ?s) = Some cs' \<and> hs_slots ?s i = Some ss' \<and> take 20 tag \<in> row_tags cs' \<union> slot_tags ss')"
      using r(2,3) by (auto simp: absorb_def)
  qed (simp_all add: absorb_def)
qed

text \<open>
  C40.  \<open>transport_fetch_chunk\<close> returns, whatever the network delivers and however its transfers fail, if the tag is not the digest of
  nothing (no chunk is empty) or else the server has no empty files.  It succeeds only with data that fit a chunk and whose digest is the
  tag, and these it has offered to the hoard cache, whose state is again a reachable one and holds the tag if neither the database nor the
  file failed; otherwise the hoard cache is as it was.
\<close>

theorem transport_fetch_chunk_verified:
  assumes "hoard_reach s" "hs_slots s i = Some ss" "connected s i db" "f_data f = hs_file s" "system_room s" "hoard_parcel p"
    and "p_chunks_per_dir p \<noteq> 0" "take 20 tag \<noteq> sha1_spec_hash [] \<or> no_empty_files c"
  shows "\<exists>ret buf pool' db' f'. transport_fetch_chunk c True p chunk tag pool db f = Some (ret, buf, pool', db', f')
    \<and> (if ret = PK_SUCCESS then sha1_spec_hash buf = take 20 tag \<and> length buf \<le> p_chunksize p
        \<and> (\<exists>s'. hoard_reach s' \<and> hs_tables s' = (tabs (db_conn db'))\<lparr>ht_slots := None\<rparr>
            \<and> hs_slots s' = (hs_slots s)(i := ht_slots (tabs (db_conn db'))) \<and> hs_file s' = f_data f'
            \<and> (only_contention db \<and> f_faults f = [] \<longrightarrow> (\<exists>cs' ss'. ht_chunks (hs_tables s') = Some cs' \<and> hs_slots s' i = Some ss'
                \<and> take 20 tag \<in> row_tags cs' \<union> slot_tags ss')))
      else db' = db \<and> f' = f)"
proof -
  have p: "p_hashlen p = 20" "p_crypto p = IU_CHUNK_CRY_AES_SHA1" "p_chunksize p = 131072"
    using assms(6) by (simp_all add: hoard_parcel_def)
  from transport_try_run [OF assms(7)] obtain ret buf pool' where t: "transport_try TRANSPORT_TRIES c p chunk pool = Some (ret, buf, pool')"
      "length buf \<le> p_chunksize p" "ret = PK_SUCCESS \<and> no_empty_files c \<longrightarrow> buf \<noteq> []"
    by blast
  show ?thesis
  proof (cases "ret = PK_SUCCESS \<and> sha1_spec_hash buf = take 20 tag")
    case True
    then have "0 < length buf"
      using t(3) assms(8) by auto
    from put_lands [OF assms(1-6) this] True t(2) p(3) obtain r db' f' s' where l: "hoard_put_chunk True p tag buf db f = Some (r, db', f')"
        "hoard_reach s'" "hs_tables s' = (tabs (db_conn db'))\<lparr>ht_slots := None\<rparr>" "hs_slots s' = (hs_slots s)(i := ht_slots (tabs (db_conn db')))"
        "hs_file s' = f_data f'" "only_contention db \<and> f_faults f = [] \<longrightarrow>
          (\<exists>cs' ss'. ht_chunks (hs_tables s') = Some cs' \<and> hs_slots s' i = Some ss' \<and> take 20 tag \<in> row_tags cs' \<union> slot_tags ss')"
      by metis
    have "transport_fetch_chunk c True p chunk tag pool db f = Some (PK_SUCCESS, buf, pool', db', f')"
      using True t(1) l(1) by (simp add: transport_fetch_chunk_def p crypto_digest_sha1)
    with True t(2) l(2-6) show ?thesis
      by - (rule exI [of _ PK_SUCCESS], rule exI [of _ buf], rule exI [of _ pool'], rule exI [of _ db'], rule exI [of _ f'],
          simp only: if_True simp_thms, rule exI [of _ s'], simp)
  next
    case False
    then have "\<exists>e. e \<noteq> PK_SUCCESS \<and> transport_fetch_chunk c True p chunk tag pool db f = Some (e, [], pool', db, f)"
      using t(1) by (cases "ret = PK_SUCCESS") (auto simp: transport_fetch_chunk_def p crypto_digest_sha1)
    then show ?thesis
      by auto
  qed
qed

text \<open>A server that cannot be reached at first and then sends three bytes in two pieces.\<close>

definition sample_curl :: "nat curl" where
  "sample_curl = \<lparr>curl_easy_setup = Pair True, curl_set_url = (\<lambda>_. Pair True),
     curl_transfer = (\<lambda>n. (if n = 0 then ([], CURLE_COULDNT_CONNECT) else ([[1, 2], [3]], CURLE_OK), n + 1))\<rparr>"

lemma sample_tries:
  "transport_try TRANSPORT_TRIES sample_curl hoard_user 700 (transport_pool_alloc 0) = Some (PK_SUCCESS, [1, 2, 3], \<lparr>conns = 1, net = 2\<rparr>)"
proof -
  have two_tries: "TRANSPORT_TRIES = Suc (Suc 3)"
    by (simp add: TRANSPORT_TRIES_def)
  show ?thesis
    unfolding two_tries transport_try.simps
    by (simp add: transport_get_def transport_conn_get_def transport_conn_alloc_def transport_conn_put_def transport_pool_alloc_def
        sample_curl_def hoard_user_def form_chunk_path_def curl_callback_def curl_ret_def)
qed

lemma first_entered: obtains s where "hoard_reach s" "hs_slots s 0 = Some []" "system_room s"
proof -
  let ?s = "absorb 0 ((created (view fresh_hoard 0))\<lparr>ht_slots := Some []\<rparr>) (hs_file fresh_hoard) fresh_hoard"
  have "blank (view fresh_hoard 0)"
    by (simp add: blank_def view_def fresh_hoard_def)
  with enter_reaches [OF hoard_reach.start, of 0] have "hoard_reach ?s"
    by (simp add: fresh_hoard_def)
  moreover have "hs_slots ?s 0 = Some []" "system_room ?s"
    by (simp_all add: absorb_def fresh_hoard_def system_room_def view_def created_def room_def row_offsets_def)
  ultimately show thesis
    by (rule that)
qed

text \<open>Witness for C40: the chunk arrives at the second attempt, and the hoard cache holds it.\<close>

theorem transport_fetch_chunk_verified_witness:
  "\<exists>s db' f' s' cs' ss'. transport_fetch_chunk sample_curl True hoard_user 700 (sha1_spec_hash [1, 2, 3]) (transport_pool_alloc 0) (quiet s 0)
      \<lparr>f_data = hs_file s, f_faults = []\<rparr> = Some (PK_SUCCESS, [1, 2, 3], \<lparr>conns = 1, net = 2\<rparr>, db', f')
    \<and> hoard_reach s' \<and> hs_file s' = f_data f' \<and> ht_chunks (hs_tables s') = Some cs' \<and> hs_slots s' 0 = Some ss'
    \<and> sha1_spec_hash [1, 2, 3] \<in> row_tags cs' \<union> slot_tags ss'"
proof -
  let ?tag = "sha1_spec_hash [1, 2, 3]"
  obtain s where s: "hoard_reach s" "hs_slots s 0 = Some []" "system_room s"
    by (rule first_entered)
  let ?f = "\<lparr>f_data = hs_file s, f_faults = []\<rparr>"
  have c: "take 20 ?tag \<noteq> sha1_spec_hash [] \<or> no_empty_files sample_curl" "p_chunks_per_dir hoard_user \<noteq> 0"
    by (auto simp add: no_empty_files_def sample_curl_def hoard_user_def split: if_splits)
  have f: "f_data ?f = hs_file s"
    by simp
  from transport_fetch_chunk_verified [OF s(1,2) quiet_connected(1) f s(3) hoard_user_ok(1) c(2,1), of 700 "transport_pool_alloc 0"]
  obtain ret buf pool' db' f' where r: "transport_fetch_chunk sample_curl True hoard_user 700 ?tag (transport_pool_alloc 0) (quiet s 0) ?f
        = Some (ret, buf, pool', db', f')"
      and p: "ret = PK_SUCCESS \<longrightarrow> (\<exists>s'. hoard_reach s' \<and> hs_file s' = f_data f' \<and> (only_contention (quiet s 0) \<and> f_faults ?f = [] \<longrightarrow>
        (\<exists>cs' ss'. ht_chunks (hs_tables s') = Some cs' \<and> hs_slots s' 0 = Some ss' \<and> take 20 ?tag \<in> row_tags cs' \<union> slot_tags ss')))"
    by (elim exE conjE) (fastforce split: if_splits)
  have "ret = PK_SUCCESS \<and> buf = [1, 2, 3] \<and> pool' = \<lparr>conns = 1, net = 2\<rparr>"
    using r sample_tries by (auto simp: transport_fetch_chunk_def hoard_user_def crypto_digest_sha1 bind_eq_Some_conv)
  moreover from this p obtain s' cs' ss' where "hoard_reach s'" "hs_file s' = f_data f'" "ht_chunks (hs_tables s') = Some cs'"
      "hs_slots s' 0 = Some ss'" "take 20 ?tag \<in> row_tags cs' \<union> slot_tags ss'"
    using quiet_connected(2) by auto
  ultimately show ?thesis
    using r by - (rule exI [of _ s], rule exI [of _ db'], rule exI [of _ f'], rule exI [of _ s'], rule exI [of _ cs'], rule exI [of _ ss'], simp)
qed

end
