(* ===== verification/Isr_Server.thy ===== *)
theory Isr_Server
  imports Isr_Transport Isr_Disk
begin

text \<open>
  The hoard cache and the transport as the origin of the chunks that the local cache does not hold: \<open>cache_get\<close> calls
  \<open>hoard_get_chunk\<close> of \<^verbatim>\<open>hoard.c\<close> and \<open>transport_fetch_chunk\<close> of \<^verbatim>\<open>transport.c\<close>.  Without a hoard directory and with a server that has the
  chunks of the keyring the contract \<open>serves\<close> is a fact about this code, and the disk is read from the server.  (With a
  hoard directory the data has the digest that the keyring asks for, as the properties of the hoard cache and the transport say; that it is the
  same data as the server's is then a matter of the hash function.)
\<close>

section \<open>The sources of the Parcelkeeper\<close>

definition pk_source :: "'n curl \<Rightarrow> bool \<Rightarrow> pk_parcel \<Rightarrow> ('n pk_connection_pool \<times> hdb \<times> pfile) chunk_source" where
  "pk_source c dir p = \<lparr>
     chunk_source.hoard_get_chunk = (\<lambda>tag (pool, db, f). do {
       (ret, e, db, f) \<leftarrow> Isr_Hoard.hoard_get_chunk dir p tag db f;
       Some (ret, e, pool, db, f)
     }),
     transport_fetch_chunk = (\<lambda>chunk tag (pool, db, f). Isr_Transport.transport_fetch_chunk c dir p chunk tag pool db f)\<rparr>"

text \<open>A server that can be reached, with the files \<open>content\<close>: a transfer of a file delivers it, in whatever pieces.\<close>

definition server_up :: "'n curl \<Rightarrow> (string \<Rightarrow> bytes option) \<Rightarrow> bool" where
  "server_up c content \<longleftrightarrow> (\<forall>n. fst (curl_easy_setup c n)) \<and> (\<forall>url e n. content url = Some e \<longrightarrow>
     (\<exists>n1 pieces n2. curl_set_url c url n = (True, n1) \<and> curl_transfer c n1 = ((pieces, CURLE_OK), n2) \<and> concat pieces = e))"

text \<open>The file of a chunk, if it fits a chunk and has the tag.\<close>

definition served :: "pk_parcel \<Rightarrow> (string \<Rightarrow> bytes option) \<Rightarrow> nat \<Rightarrow> bytes \<Rightarrow> bytes option" where
  "served p content chunk tag = do {
     url \<leftarrow> form_chunk_path p (p_master p) chunk;
     e \<leftarrow> content url;
     if length e \<le> p_chunksize p \<and> sha1_spec_hash e = take 20 tag then Some e else None
   }"

lemma curl_deliver_complete:
  "length buf + length (concat pieces) \<le> n \<Longrightarrow> curl_deliver n pieces code buf = (code, buf @ concat pieces)"
proof (induction pieces arbitrary: buf)
  case (Cons x xs)
  then have "length x \<le> n - length buf" "length (buf @ x) + length (concat xs) \<le> n"
    by simp_all
  with Cons.IH [of "buf @ x"] show ?case
    by (simp add: curl_callback_def min_def)
qed simp

lemma transport_get_served:
  assumes "server_up c content" "served p content chunk tag = Some e"
  shows "\<exists>pool'. transport_get c p chunk pool = Some (PK_SUCCESS, e, pool')"
proof -
  from assms(2) obtain url where u: "form_chunk_path p (p_master p) chunk = Some url" "content url = Some e" "length e \<le> p_chunksize p"
    by (auto simp: served_def bind_eq_Some_conv split: if_splits)
  obtain ok n where "curl_easy_setup c (net pool) = (ok, n)"
    by fastforce
  moreover have "fst (curl_easy_setup c (net pool))"
    using assms(1) by (simp add: server_up_def)
  ultimately obtain pool1 where g: "transport_conn_get c pool = (True, pool1)"
    by (cases "0 < conns pool") (simp_all add: transport_conn_get_def transport_conn_alloc_def)
  from assms(1) u(2) obtain n1 pieces n2 where "curl_set_url c url (net pool1) = (True, n1)"
      "curl_transfer c n1 = ((pieces, CURLE_OK), n2)" "concat pieces = e"
    unfolding server_up_def by blast
  then show ?thesis
    using u curl_deliver_complete [of "[]" pieces "p_chunksize p" CURLE_OK] by (simp add: transport_get_def g curl_ret_def)
qed

lemma server_serves:
  assumes "server_up c content" "p_hashlen p = 20" "p_crypto p = IU_CHUNK_CRY_AES_SHA1"
  shows "serves (pk_source c False p) (served p content) (\<lambda>_. True)"
proof -
  have "\<exists>h'. transport_fetch_chunk (pk_source c False p) chunk tag h = Some (PK_SUCCESS, e, h')" if s: "served p content chunk tag = Some e" for chunk tag e h
  proof -
    obtain pool db f where h: "h = (pool, db, f)"
      using prod_cases3 by blast
    obtain pool' where "transport_get c p chunk pool = Some (PK_SUCCESS, e, pool')"
      using transport_get_served [OF assms(1) s] by blast
    then have "transport_try TRANSPORT_TRIES c p chunk pool = Some (PK_SUCCESS, e, pool')"
      by (simp add: TRANSPORT_TRIES_def eval_nat_numeral)
    moreover have "sha1_spec_hash e = take 20 tag"
      using s by (auto simp: served_def bind_eq_Some_conv split: if_splits)
    ultimately show ?thesis
      by (simp add: pk_source_def h Isr_Transport.transport_fetch_chunk_def assms(2,3) crypto_digest_sha1 hoard_put_chunk_def)
  qed
  then show ?thesis
    by (auto simp: serves_def pk_source_def Isr_Hoard.hoard_get_chunk_def)
qed

section \<open>A disk on a server\<close>

text \<open>A server that gives every chunk as \<open>e\<close>, and an image with nothing in the chunk cache or in the local cache.\<close>

definition sample_web :: "bytes \<Rightarrow> nat curl" where
  "sample_web e = \<lparr>curl_easy_setup = Pair True, curl_set_url = (\<lambda>_. Pair True), curl_transfer = (\<lambda>n. (([e], CURLE_OK), n + 1))\<rparr>"

definition web_db :: "bytes \<Rightarrow> bytes \<Rightarrow> cdb" where
  "web_db tag key = sample_db\<lparr>db_conn := (db_conn sample_db)\<lparr>tabs := \<lparr>t_keys = [(0, tag, key, IU_CHUNK_COMP_NONE), (1, tag, key, IU_CHUNK_COMP_NONE)],
     t_prev = None, t_chunks = Some [], t_version = 1\<rparr>\<rparr>\<rparr>"

definition web_state :: "'h \<Rightarrow> 'h pk_state" where
  "web_state h = \<lparr>conf_flags = WANT_LOCK, conf_compress = IU_CHUNK_COMP_NONE, parcel = sample_parcel,
     cache_file = Some \<lparr>f_data = [], f_faults = []\<rparr>, cache_index = None, cache_fd = True, cache_offset = 4096, cache_flags = 0,
     shm_base = Some [0, 0], stats = sample_stats, remote = h\<rparr>"

definition web_image :: "bytes \<Rightarrow> bytes \<Rightarrow> 'h \<Rightarrow> 'h cache_state image" where
  "web_image tag key h = \<lparr>im_chunks = [], im_dirty = [], im_reclaimable = [], im_allocatable = 2, im_stopping = False, leave_dirty = False,
     store = (web_db tag key, web_state h, \<lambda>_. 100)\<rparr>"

lemma web_calm:
  assumes "serves src g (\<lambda>_. True)"
  shows "cache_calm src sample_parcel (\<lambda>_. replicate 16 0) g (\<lambda>_. True) (web_db tag key, web_state h, t)"
proof -
  have "pk_ok (web_state h)"
    by (simp add: pk_ok_def parcel_ok_def web_state_def sample_parcel_def iu_chunk_compress_is_enabled_def)
  moreover have "idle (web_db tag key)" "only_contention (web_db tag key)"
    using sample_idle(1,2) by (simp_all add: web_db_def idle_def)
  ultimately show ?thesis
    using assms by (auto simp: cache_calm_def web_state_def web_db_def sample_parcel_def writable_def less_2_cases_iff)
qed

lemma disk_read_from_server:
  "\<exists>e tag key im'. serve (cache_ops lzf_backends (pk_source (sample_web e) False sample_parcel) sample_parcel (\<lambda>_. replicate 16 0))
    [Req_read (replicate 5 0) 14 5] (web_image tag key h) = Some ([(5, replicate 5 7)], im')"
proof -
  have "chunk_compress lzf_backends IU_CHUNK_COMP_NONE (replicate 16 7) 16 = Some (Some (None, IU_CHUNK_COMP_NONE))"
    by (simp add: chunk_compress_def)
  from chunk_plain_round_trip [OF this, of 1 "replicate 16 0" lzf_backends] obtain e where e: "length e = 16"
      "\<And>dst. length dst = 16 \<Longrightarrow> iu_chunk_decode lzf_backends IU_CHUNK_CRY_AES_SHA1 IU_CHUNK_COMP_NONE e (sha1_spec_hash (replicate 16 7)) dst
        = Some (Some (replicate 16 7))"
    by auto
  let ?c = "sample_web e" and ?tag = "sha1_spec_hash e" and ?key = "sha1_spec_hash (replicate 16 7)"
  let ?src = "pk_source ?c False sample_parcel" and ?g = "served sample_parcel (\<lambda>_. Some e)" and ?v = "\<lambda>_. replicate 16 (7 :: u8)"
  have "server_up ?c (\<lambda>_. Some e)"
    by (simp add: server_up_def sample_web_def)
  then have s: "serves ?src ?g (\<lambda>_. True)"
    by (rule server_serves) (simp_all add: sample_parcel_def)
  have g: "served sample_parcel (\<lambda>_. Some e) c ?tag = Some e" for c
    using e(1) by (simp add: served_def form_chunk_path_def sample_parcel_def)
  note g' = g [unfolded sample_parcel_def]
  have "cached lzf_backends ?g (tabs (db_conn (web_db ?tag ?key))) (web_state h) c (?v c)" if "c < 2" for c
    unfolding cached_def cached_as_def using that e
    by - (rule exI [of _ ?tag], rule exI [of _ ?key], rule exI [of _ 1], rule exI [of _ e],
      auto simp: web_db_def web_state_def sample_parcel_def located_def indexed_def g' iu_chunk_compress_is_enabled_def less_2_cases_iff)
  then have "chunk_holds (cache_content lzf_backends ?g) ?v (web_image ?tag ?key h) c" if "c < 2" for c
    using that by (simp add: chunk_holds_def web_image_def cache_content_def)
  moreover have "image_wf sample_parcel 2 {} (web_image ?tag ?key h)"
    by (simp add: image_wf_def web_image_def buffers_def buf_count_def)
  ultimately have d: "disk_state lzf_backends ?src sample_parcel (\<lambda>_. replicate 16 0) ?g (\<lambda>_. True) 2 ?v (web_image ?tag ?key h)"
    using web_calm [OF s] by (simp add: disk_state_def image_holds_def web_image_def sample_parcel_def)
  have "disk sample_parcel ?v = replicate 32 7"
    by (simp add: disk_def sample_parcel_def upt_rec replicate_add [symmetric])
  moreover have "fst (flat [Req_read (replicate 5 0) 14 5] (replicate 32 7)) = [(5, replicate 5 7)]"
    by code_simp
  ultimately show ?thesis
    using serve_refines [OF d, of "[Req_read (replicate 5 0) 14 5]"] by (auto simp: sample_parcel_def)
qed

end
