(* ===== verification/Isr_Parcelcfg.thy ===== *)
theory Isr_Parcelcfg
  imports Isr_Pk
begin

text \<open>
  The configuration of a parcel, \<^verbatim>\<open>parcelkeeper/parcelcfg.c\<close>, with \<^verbatim>\<open>parseuint\<close>, \<^verbatim>\<open>read_file\<close> and \<^verbatim>\<open>canonicalize_uuid\<close> of
  \<^verbatim>\<open>parcelkeeper/util.c\<close>.  The functions of GLib that split and strip strings, the UUID library and the contents of the file are
  parameters.
\<close>

section \<open>Numbers\<close>

definition c_isspace :: "char \<Rightarrow> bool" where
  "c_isspace c = (let n = of_char c :: nat in n = 32 \<or> 9 \<le> n \<and> n \<le> 13)"

definition c_isdigit :: "char \<Rightarrow> bool" where
  "c_isdigit c = (let n = of_char c :: nat in 48 \<le> n \<and> n \<le> 57)"

definition digits_value :: "string \<Rightarrow> nat" where
  "digits_value ds = foldl (\<lambda>v c. 10 * v + (of_char c - 48)) 0 ds"

text \<open>\<^verbatim>\<open>strtoul\<close> in base 10 with a \<^verbatim>\<open>long\<close> of 64 bits: the value and the rest of the string.\<close>

definition strtoul :: "string \<Rightarrow> nat \<times> string" where
  "strtoul s =
     (let s1 = dropWhile c_isspace s;
          neg = (s1 \<noteq> [] \<and> hd s1 = CHR ''-'');
          s2 = (if s1 \<noteq> [] \<and> (hd s1 = CHR ''-'' \<or> hd s1 = CHR ''+'') then tl s1 else s1);
          ds = takeWhile c_isdigit s2;
          v = digits_value ds
      in if ds = [] then (0, s)
         else (if 2 ^ 64 \<le> v then 2 ^ 64 - 1 else if neg then (2 ^ 64 - v) mod 2 ^ 64 else v, dropWhile c_isdigit s2))"

definition parseuint :: "string \<Rightarrow> u32 option" where
  "parseuint s = (case strtoul s of (val, rest) \<Rightarrow> if s = [] \<or> rest \<noteq> [] then None else Some (of_nat val))"

section \<open>Options\<close>

datatype pc_ident =
    PC_VERSION | PC_CHUNKSIZE | PC_NUMCHUNKS | PC_CHUNKSPERDIR | PC_CRYPTO | PC_COMPRESS | PC_UUID | PC_SERVER | PC_USER | PC_PARCEL
  | PC_RPATH | PC_DUPLICATE | PC_IGNORE

definition pc_options :: "(string \<times> pc_ident) list" where
  "pc_options = [(''VERSION'', PC_VERSION), (''CHUNKSIZE'', PC_CHUNKSIZE), (''NUMCHUNKS'', PC_NUMCHUNKS), (''CHUNKSPERDIR'', PC_CHUNKSPERDIR),
     (''CRYPTO'', PC_CRYPTO), (''COMPRESS'', PC_COMPRESS), (''UUID'', PC_UUID), (''SERVER'', PC_SERVER), (''USER'', PC_USER),
     (''PARCEL'', PC_PARCEL), (''RPATH'', PC_RPATH)]"

record pc_parse_ctx =
  pdata :: pk_parcel
  rpath :: string
  seen :: "pc_ident list"

text \<open>The libraries.\<close>

record 'u cfg_libs =
  g_strsplit :: "string \<Rightarrow> string \<Rightarrow> nat \<Rightarrow> string list"
  g_strstrip :: "string \<Rightarrow> string"
  uuid_parse :: "string \<Rightarrow> 'u option"
  uuid_unparse_lower :: "'u \<Rightarrow> string"

definition MIN_DATAVER :: u32 where "MIN_DATAVER = 3"
definition MAX_DATAVER :: u32 where "MAX_DATAVER = 4"

definition canonicalize_uuid :: "'u cfg_libs \<Rightarrow> string \<Rightarrow> pk_err + string" where
  "canonicalize_uuid L s = (case uuid_parse L s of None \<Rightarrow> Inl PK_INVALID | Some u \<Rightarrow> Inr (uuid_unparse_lower L u))"

definition pc_find_option :: "pc_parse_ctx \<Rightarrow> string \<Rightarrow> pc_ident \<times> pc_parse_ctx" where
  "pc_find_option ctx key =
     (case find (\<lambda>(k, _). k = key) pc_options of
        None \<Rightarrow> (PC_IGNORE, ctx)
      | Some (_, i) \<Rightarrow> if i \<in> set (seen ctx) then (PC_DUPLICATE, ctx) else (i, ctx\<lparr>seen := i # seen ctx\<rparr>))"

definition pc_have_options :: "pc_parse_ctx \<Rightarrow> bool" where
  "pc_have_options ctx = list_all (\<lambda>(_, i). i \<in> set (seen ctx)) pc_options"

fun compress_mask :: "string list \<Rightarrow> u32 \<Rightarrow> u32 option" where
  "compress_mask [] cmap = Some cmap"
| "compress_mask (s # strs) cmap =
     (let compress = iu_chunk_compress_parse s in
      if compress = IU_CHUNK_COMP_UNKNOWN then None else compress_mask strs (cmap OR push_bit (nat compress) 1))"

definition pc_handle_option :: "'u cfg_libs \<Rightarrow> pc_parse_ctx \<Rightarrow> pc_ident \<Rightarrow> string \<Rightarrow> pk_err + pc_parse_ctx" where
  "pc_handle_option L ctx ident value =
     (let p = pdata ctx in
      case ident of
        PC_VERSION \<Rightarrow> (case parseuint value of
            None \<Rightarrow> Inl PK_INVALID
          | Some u \<Rightarrow> if u < MIN_DATAVER \<or> u > MAX_DATAVER then Inl PK_INVALID else Inr ctx)
      | PC_CHUNKSIZE \<Rightarrow> (case parseuint value of
            None \<Rightarrow> Inl PK_INVALID
          | Some u \<Rightarrow> if u < 512 \<or> u AND (u - 1) \<noteq> 0 then Inl PK_INVALID else Inr (ctx\<lparr>pdata := p\<lparr>p_chunksize := unat u\<rparr>\<rparr>))
      | PC_NUMCHUNKS \<Rightarrow> (case parseuint value of
            None \<Rightarrow> Inl PK_INVALID | Some u \<Rightarrow> Inr (ctx\<lparr>pdata := p\<lparr>p_chunks := unat u\<rparr>\<rparr>))
      | PC_CHUNKSPERDIR \<Rightarrow> (case parseuint value of
            None \<Rightarrow> Inl PK_INVALID | Some u \<Rightarrow> Inr (ctx\<lparr>pdata := p\<lparr>p_chunks_per_dir := unat u\<rparr>\<rparr>))
      | PC_CRYPTO \<Rightarrow>
          (let crypto = iu_chunk_crypto_parse value in
           if crypto = IU_CHUNK_CRY_UNKNOWN then Inl PK_INVALID
           else Inr (ctx\<lparr>pdata := p\<lparr>p_crypto := crypto, p_hashlen := iu_chunk_crypto_hashlen crypto\<rparr>\<rparr>))
      | PC_COMPRESS \<Rightarrow> (case compress_mask (g_strsplit L value '','' 0) (push_bit (nat IU_CHUNK_COMP_NONE) 1) of
            None \<Rightarrow> Inl PK_INVALID | Some cmap \<Rightarrow> Inr (ctx\<lparr>pdata := p\<lparr>p_required_compress := cmap\<rparr>\<rparr>))
      | PC_UUID \<Rightarrow> (case canonicalize_uuid L value of Inl _ \<Rightarrow> Inl PK_INVALID | Inr u \<Rightarrow> Inr (ctx\<lparr>pdata := p\<lparr>p_uuid := u\<rparr>\<rparr>))
      | PC_SERVER \<Rightarrow> Inr (ctx\<lparr>pdata := p\<lparr>p_server := value\<rparr>\<rparr>)
      | PC_USER \<Rightarrow> Inr (ctx\<lparr>pdata := p\<lparr>p_user := value\<rparr>\<rparr>)
      | PC_PARCEL \<Rightarrow> Inr (ctx\<lparr>pdata := p\<lparr>p_parcel := value\<rparr>\<rparr>)
      | PC_RPATH \<Rightarrow> Inr (ctx\<lparr>rpath := value\<rparr>)
      | PC_DUPLICATE \<Rightarrow> Inl PK_INVALID
      | PC_IGNORE \<Rightarrow> Inr ctx)"

section \<open>The file\<close>

fun parse_lines :: "'u cfg_libs \<Rightarrow> string list \<Rightarrow> pc_parse_ctx \<Rightarrow> pc_parse_ctx option" where
  "parse_lines L [] ctx = Some ctx"
| "parse_lines L (line # lines) ctx =
     (let line = g_strstrip L line in
      if line = [] \<or> hd line = CHR ''#'' then parse_lines L lines ctx
      else let parts = g_strsplit L line ''='' 2 in
        if length parts \<noteq> 2 then None
        else case pc_find_option ctx (g_strstrip L (parts ! 0)) of (ident, ctx) \<Rightarrow>
          case pc_handle_option L ctx ident (g_strstrip L (parts ! 1)) of
            Inl _ \<Rightarrow> None
          | Inr ctx \<Rightarrow> parse_lines L lines ctx)"

definition empty_parcel :: pk_parcel where
  "empty_parcel = \<lparr>p_crypto = 0, p_required_compress = 0, p_chunks = 0, p_chunksize = 0, p_chunks_per_dir = 0, p_hashlen = 0,
     p_uuid = [], p_server = [], p_user = [], p_parcel = [], p_master = []\<rparr>"

text \<open>\<open>data\<close> is what \<^verbatim>\<open>read_file\<close> gives.\<close>

definition parse_parcel_cfg :: "'u cfg_libs \<Rightarrow> pk_err + string \<Rightarrow> pk_err + pk_parcel" where
  "parse_parcel_cfg L data =
     (case data of
        Inl e \<Rightarrow> Inl e
      | Inr text \<Rightarrow>
          (case parse_lines L (g_strsplit L text [CHR 0x0A] 0) \<lparr>pdata = empty_parcel, rpath = [], seen = []\<rparr> of
             None \<Rightarrow> Inl PK_IOERR
           | Some ctx \<Rightarrow>
               if \<not> pc_have_options ctx then Inl PK_IOERR
               else Inr ((pdata ctx)\<lparr>p_master := rpath ctx @ ''/'' @ p_user (pdata ctx) @ ''/'' @ p_parcel (pdata ctx) @ ''/last/hdk''\<rparr>)))"

section \<open>Well-formed parcels\<close>

text \<open>A number that has no bit in common with its predecessor is a power of two.\<close>

lemma nat_and_pred: "0 < n \<Longrightarrow> n AND (n - 1) = 0 \<Longrightarrow> \<exists>k. (n :: nat) = 2 ^ k"
proof (induction n rule: less_induct)
  case (less n)
  show ?case
  proof (cases "even n")
    case True
    then obtain m where m: "n = 2 * m"
      by (elim evenE)
    have "m AND (m - 1) = 0"
    proof (rule bit_eqI)
      fix i
      have "n - 1 = 2 * (m - 1) + 1"
        using m less.prems(1) by simp
      then have "bit (n - 1) (Suc i) = bit (m - 1) i"
        by (simp add: bit_Suc)
      moreover have "bit n (Suc i) = bit m i"
        using m by (simp add: bit_Suc)
      moreover have "\<not> bit (n AND (n - 1)) (Suc i)"
        using less.prems(2) by simp
      ultimately show "bit (m AND (m - 1)) i = bit 0 i"
        by (simp add: bit_simps)
    qed
    then obtain k where "m = 2 ^ k"
      using less.IH [of m] m less.prems(1) by auto
    then show ?thesis
      using m by (intro exI [of _ "Suc k"]) simp
  next
    case False
    then obtain m where m: "n = 2 * m + 1"
      by (elim oddE)
    have "m = 0"
    proof (rule bit_eqI)
      fix i
      have "bit n (Suc i) = bit m i" "bit (n - 1) (Suc i) = bit m i"
        using m by (simp_all add: bit_Suc)
      moreover have "\<not> bit (n AND (n - 1)) (Suc i)"
        using less.prems(2) by simp
      ultimately show "bit m i = bit 0 i"
        by (simp add: bit_simps)
    qed
    then show ?thesis
      using m by (intro exI [of _ 0]) simp
  qed
qed

lemma u32_less: "unat (u :: u32) < 2 ^ 32"
  using unsigned_less [where ?'a = nat, of u] by simp

lemma word_power_of_two:
  assumes "512 \<le> (u :: u32)" "u AND (u - 1) = 0"
  shows "\<exists>k. 9 \<le> k \<and> k < 32 \<and> unat u = 2 ^ k"
proof -
  have le: "512 \<le> unat u"
    using assms(1) by (simp add: word_le_nat_alt)
  then have "u \<noteq> 0"
    by auto
  then have "unat (u - 1) = unat u - 1"
    by (simp add: unat_minus_one)
  moreover have "unat (u AND (u - 1)) = unat u AND unat (u - 1)"
    by (simp add: unsigned_and_eq)
  ultimately obtain k where k: "unat u = 2 ^ k"
    using nat_and_pred [of "unat u"] assms(2) le by auto
  have "(2 :: nat) ^ 9 \<le> 2 ^ k" "(2 :: nat) ^ k < 2 ^ 32"
    using le k u32_less [of u] by simp_all
  then have "9 \<le> k" "k < 32"
    by (simp_all only: power_increasing_iff power_strict_increasing_iff one_less_numeral_iff semiring_norm)
  with k show ?thesis by blast
qed

definition mask_known :: "u32 \<Rightarrow> bool" where
  "mask_known cmap \<longleftrightarrow> iu_chunk_compress_is_enabled cmap IU_CHUNK_COMP_NONE
     \<and> (\<forall>c. iu_chunk_compress_is_enabled cmap c \<longrightarrow> c \<in> {IU_CHUNK_COMP_NONE, IU_CHUNK_COMP_ZLIB, IU_CHUNK_COMP_LZF})"

definition field_ok :: "'u cfg_libs \<Rightarrow> pc_ident \<Rightarrow> pk_parcel \<Rightarrow> bool" where
  "field_ok L i p = (case i of
     PC_CHUNKSIZE \<Rightarrow> \<exists>k. 9 \<le> k \<and> k < 32 \<and> p_chunksize p = 2 ^ k
   | PC_NUMCHUNKS \<Rightarrow> p_chunks p < 2 ^ 32
   | PC_CHUNKSPERDIR \<Rightarrow> p_chunks_per_dir p < 2 ^ 32
   | PC_CRYPTO \<Rightarrow> iu_chunk_crypto_is_valid (p_crypto p) \<and> p_hashlen p = iu_chunk_crypto_hashlen (p_crypto p)
   | PC_COMPRESS \<Rightarrow> mask_known (p_required_compress p)
   | PC_UUID \<Rightarrow> p_uuid p \<in> range (uuid_unparse_lower L)
   | _ \<Rightarrow> True)"

lemma enabled_bit: "iu_chunk_compress_is_enabled m c \<longleftrightarrow> 0 < c \<and> c < 32 \<and> bit m (nat c)"
  unfolding iu_chunk_compress_is_enabled_def bit_iff_and_push_bit_not_eq_0 by auto

lemma enabled_one: "iu_chunk_compress_is_enabled (push_bit n 1) c \<longleftrightarrow> 0 < c \<and> c < 32 \<and> nat c = n"
  unfolding enabled_bit by (auto simp: bit_simps)

lemma enabled_or: "iu_chunk_compress_is_enabled (m OR m') c \<longleftrightarrow> iu_chunk_compress_is_enabled m c \<or> iu_chunk_compress_is_enabled m' c"
  unfolding enabled_bit bit_or_iff by blast

lemma mask_known_or:
  assumes "mask_known m" "d \<in> {IU_CHUNK_COMP_NONE, IU_CHUNK_COMP_ZLIB, IU_CHUNK_COMP_LZF}"
  shows "mask_known (m OR push_bit (nat d) 1)"
proof -
  have "c = d" if "0 < c" "nat c = nat d" for c
    using that by linarith
  with assms show ?thesis
    unfolding mask_known_def enabled_or enabled_one by blast
qed

lemma compress_mask_known: "compress_mask strs m = Some m' \<Longrightarrow> mask_known m \<Longrightarrow> mask_known m'"
proof (induction strs arbitrary: m)
  case (Cons s strs)
  let ?c = "iu_chunk_compress_parse s"
  have c: "?c \<noteq> IU_CHUNK_COMP_UNKNOWN" "compress_mask strs (m OR push_bit (nat ?c) 1) = Some m'"
    using Cons.prems(1) by (simp_all add: Let_def split: if_splits)
  then have "?c \<in> {IU_CHUNK_COMP_NONE, IU_CHUNK_COMP_ZLIB, IU_CHUNK_COMP_LZF}"
    by (auto simp: iu_chunk_compress_parse_def split: if_splits)
  with Cons.IH [OF c(2)] mask_known_or [OF Cons.prems(2)] show ?case by blast
qed simp

lemma initial_mask: "mask_known (push_bit (nat IU_CHUNK_COMP_NONE) 1)"
  unfolding mask_known_def enabled_one by auto

lemma crypto_parse_valid: "iu_chunk_crypto_parse s \<noteq> IU_CHUNK_CRY_UNKNOWN \<Longrightarrow> iu_chunk_crypto_is_valid (iu_chunk_crypto_parse s)"
  by (simp add: iu_chunk_crypto_parse_def iu_chunk_crypto_is_valid_def crypto_get_algs_def split: if_splits)

text \<open>Handling an option makes its field well-formed and leaves the others alone.\<close>

lemma pc_handle_option_ok:
  assumes "pc_handle_option L ctx i v = Inr ctx'"
  shows "seen ctx' = seen ctx" "field_ok L i (pdata ctx')" "field_ok L j (pdata ctx) \<Longrightarrow> field_ok L j (pdata ctx')"
proof -
  have b: "unat (u :: u32) < 4294967296" for u
    using u32_less [of u] by simp
  have all: "seen ctx' = seen ctx \<and> field_ok L i (pdata ctx') \<and> (j \<noteq> i \<longrightarrow> field_ok L j (pdata ctx) \<longrightarrow> field_ok L j (pdata ctx'))"
  proof (cases i)
    case PC_CHUNKSIZE
    then obtain u where u: "parseuint v = Some u"
      using assms by (cases "parseuint v") (simp_all add: pc_handle_option_def)
    with PC_CHUNKSIZE assms have "512 \<le> u" "u AND (u - 1) = 0" "ctx' = ctx\<lparr>pdata := (pdata ctx)\<lparr>p_chunksize := unat u\<rparr>\<rparr>"
      by (auto simp: pc_handle_option_def Let_def not_less split: if_splits)
    with PC_CHUNKSIZE word_power_of_two [of u] show ?thesis
      by (simp add: field_ok_def split: pc_ident.splits)
  next
    case PC_COMPRESS
    then obtain m where "mask_known m" "ctx' = ctx\<lparr>pdata := (pdata ctx)\<lparr>p_required_compress := m\<rparr>\<rparr>"
      using assms compress_mask_known [OF _ initial_mask] by (auto simp: pc_handle_option_def Let_def split: option.splits)
    with PC_COMPRESS show ?thesis
      by (simp add: field_ok_def split: pc_ident.splits)
  next
    case PC_CRYPTO
    then show ?thesis
      using assms crypto_parse_valid [of v] by (auto simp: pc_handle_option_def Let_def field_ok_def split: pc_ident.splits if_splits)
  next
    case PC_UUID
    then show ?thesis
      using assms by (auto simp: pc_handle_option_def canonicalize_uuid_def Let_def field_ok_def split: pc_ident.splits option.splits)
  qed (use assms b in \<open>auto simp: pc_handle_option_def Let_def field_ok_def split: pc_ident.splits option.splits if_splits\<close>)
  then show "seen ctx' = seen ctx" "field_ok L i (pdata ctx')" "field_ok L j (pdata ctx) \<Longrightarrow> field_ok L j (pdata ctx')"
    by (cases "j = i"; simp)+
qed

definition seen_ok :: "'u cfg_libs \<Rightarrow> pc_parse_ctx \<Rightarrow> bool" where
  "seen_ok L ctx \<longleftrightarrow> (\<forall>i \<in> set (seen ctx). field_ok L i (pdata ctx))"

lemma parse_lines_ok: "parse_lines L lines ctx = Some ctx' \<Longrightarrow> seen_ok L ctx \<Longrightarrow> seen_ok L ctx'"
proof (induction lines arbitrary: ctx)
  case (Cons line lines)
  let ?line = "g_strstrip L line" and ?parts = "g_strsplit L (g_strstrip L line) ''='' 2"
  show ?case
  proof (cases "?line = [] \<or> hd ?line = CHR ''#''")
    case True
    then show ?thesis
      using Cons by (simp add: Let_def)
  next
    case False
    obtain i ctx1 where f: "pc_find_option ctx (g_strstrip L (?parts ! 0)) = (i, ctx1)"
      by fastforce
    then obtain ctx2 where h: "pc_handle_option L ctx1 i (g_strstrip L (?parts ! 1)) = Inr ctx2" "parse_lines L lines ctx2 = Some ctx'"
      using Cons.prems(1) False by (auto simp: Let_def split: if_splits sum.splits)
    have "pdata ctx1 = pdata ctx" "set (seen ctx1) \<subseteq> insert i (set (seen ctx))"
      using f by (auto simp: pc_find_option_def split: option.splits if_splits)
    with Cons.prems(2) pc_handle_option_ok [OF h(1)] have "seen_ok L ctx2"
      unfolding seen_ok_def by (metis insertE subsetD)
    with Cons.IH h(2) show ?thesis by blast
  qed
qed simp

text \<open>
  C23.  A parcel that \<open>parse_parcel_cfg\<close> accepts is well-formed, whatever the file contains: the chunk size is a power of two from 512
  bytes to 2 GiB, the numbers fit their 32 bits, the suite is known and the length of the hash is that of the suite, the compression
  types are known ones and include none, and the UUID is in canonical form.
\<close>

theorem parse_parcel_cfg_wf:
  assumes "parse_parcel_cfg L data = Inr p"
  shows "(\<exists>k. 9 \<le> k \<and> k < 32 \<and> p_chunksize p = 2 ^ k) \<and> p_chunks p < 2 ^ 32 \<and> p_chunks_per_dir p < 2 ^ 32
    \<and> iu_chunk_crypto_is_valid (p_crypto p) \<and> p_hashlen p = iu_chunk_crypto_hashlen (p_crypto p)
    \<and> iu_chunk_compress_is_enabled (p_required_compress p) IU_CHUNK_COMP_NONE
    \<and> (\<forall>c. iu_chunk_compress_is_enabled (p_required_compress p) c \<longrightarrow> c \<in> {IU_CHUNK_COMP_NONE, IU_CHUNK_COMP_ZLIB, IU_CHUNK_COMP_LZF})
    \<and> p_uuid p \<in> range (uuid_unparse_lower L) \<and> (\<exists>rpath. p_master p = rpath @ ''/'' @ p_user p @ ''/'' @ p_parcel p @ ''/last/hdk'')"
proof -
  obtain ctx lines where c: "parse_lines L lines \<lparr>pdata = empty_parcel, rpath = [], seen = []\<rparr> = Some ctx" "pc_have_options ctx"
      and p: "p = (pdata ctx)\<lparr>p_master := rpath ctx @ ''/'' @ p_user (pdata ctx) @ ''/'' @ p_parcel (pdata ctx) @ ''/last/hdk''\<rparr>"
    using assms by (auto simp: parse_parcel_cfg_def split: sum.splits option.splits if_splits)
  have "seen_ok L ctx"
    by (rule parse_lines_ok [OF c(1)]) (simp add: seen_ok_def)
  with c(2) have "field_ok L PC_CHUNKSIZE (pdata ctx)" "field_ok L PC_NUMCHUNKS (pdata ctx)" "field_ok L PC_CHUNKSPERDIR (pdata ctx)"
      "field_ok L PC_CRYPTO (pdata ctx)" "field_ok L PC_COMPRESS (pdata ctx)" "field_ok L PC_UUID (pdata ctx)"
    by (simp_all add: seen_ok_def pc_have_options_def pc_options_def)
  then show ?thesis
    unfolding p by (simp add: field_ok_def mask_known_def)
qed

text \<open>A file with a comment, an unknown key and spaces; the numbers \<open>2 ^ 32 + 2\<close> and \<open>-1\<close> are taken.\<close>

fun split_at :: "char \<Rightarrow> nat \<Rightarrow> string \<Rightarrow> string \<Rightarrow> string list" where
  "split_at c n acc [] = [rev acc]"
| "split_at c n acc (x # xs) = (if x = c \<and> n \<noteq> 1 then rev acc # split_at c (n - 1) [] xs else split_at c n (x # acc) xs)"

definition sample_libs :: "string cfg_libs" where
  "sample_libs = \<lparr>g_strsplit = (\<lambda>s d n. if s = [] then [] else split_at (hd d) n [] s),
     g_strstrip = (\<lambda>s. rev (dropWhile c_isspace (rev (dropWhile c_isspace s)))), uuid_parse = Some, uuid_unparse_lower = (\<lambda>u. u)\<rparr>"

definition sample_lines :: "string list" where
  "sample_lines = [''# parcel'', ''VERSION = 4'', ''CHUNKSIZE = 131072'', ''NUMCHUNKS = 4294967298'', ''CHUNKSPERDIR = -1'', ''CRYPTO = aes-sha1'',
     ''COMPRESS = none,lzf'', ''UUID = e0f2'', ''SERVER = isr'', ''USER = ann'', ''PARCEL = disk'', ''RPATH = /isr'', ''PROTOCOL = http'']"

definition sample_cfg :: string where
  "sample_cfg = concat (map (\<lambda>l. l @ [CHR 0x0A]) sample_lines)"

lemmas parse_lines_eval = Let_def pc_find_option_def pc_options_def pc_handle_option_def pc_have_options_def empty_parcel_def canonicalize_uuid_def
  parseuint_def strtoul_def digits_value_def c_isspace_def c_isdigit_def MIN_DATAVER_def MAX_DATAVER_def iu_chunk_crypto_parse_def
  iu_chunk_compress_parse_def iu_chunk_crypto_hashlen_def aes_sha1_algs

text \<open>Witness for C23.\<close>

theorem parse_parcel_cfg_wf_witness:
  "\<exists>p. parse_parcel_cfg sample_libs (Inr sample_cfg) = Inr p \<and> p_chunksize p = 131072 \<and> p_chunks p = 2 \<and> p_chunks_per_dir p = 2 ^ 32 - 1
    \<and> p_master p = ''/isr/ann/disk/last/hdk'' \<and> iu_chunk_crypto_is_valid (p_crypto p)
    \<and> iu_chunk_compress_is_enabled (p_required_compress p) IU_CHUNK_COMP_NONE"
proof -
  let ?p = "\<lparr>p_crypto = IU_CHUNK_CRY_AES_SHA1, p_required_compress = 10, p_chunks = 2, p_chunksize = 131072, p_chunks_per_dir = 2 ^ 32 - 1,
     p_hashlen = 20, p_uuid = ''e0f2'', p_server = ''isr'', p_user = ''ann'', p_parcel = ''disk'', p_master = ''/isr/ann/disk/last/hdk''\<rparr>"
  have p: "parse_parcel_cfg sample_libs (Inr sample_cfg) = Inr ?p"
    by (simp add: parse_parcel_cfg_def sample_libs_def sample_cfg_def sample_lines_def parse_lines_eval)
  with parse_parcel_cfg_wf [OF p] show ?thesis
    by simp
qed

end
