(* ===== verification/Spec2Isabelle.thy ===== *)
theory Spec2Isabelle
  imports Isr_Pad Isr_Modes Isr_Cipher Isr_Hash Isr_Mac Isr_Compress Isr_Chunk Isr_LZF_Stream_Correct Isr_Zlib Isr_Cache_Props Isr_Hoard_Refs Isr_Transport Isr_Server
    Isr_Parcelcfg
begin

text \<open>
  OpenISR, the client side: a disk image kept as encrypted, compressed chunks, and the Parcelkeeper, a process that serves
  it as a file through FUSE, reads missing chunks from a hoard or a server, and writes changed chunks to a local cache.

  \<^bold>\<open>The parts and how they interact.\<close>  A read or write of the virtual disk enters in \<^verbatim>\<open>parcelkeeper/fuse_image.c\<close>, which splits
  it into chunks and keeps a write-back cache of decoded chunks in memory.  On a miss it calls \<^verbatim>\<open>cache_get\<close> and on write-back
  \<^verbatim>\<open>cache_update\<close> of \<^verbatim>\<open>parcelkeeper/cache.c\<close>.  These look up the chunk's tag, key and compression in the keyring and its length in
  the cache index, through the SQLite wrapper \<^verbatim>\<open>sqlite/wrapper.c\<close>, read or write the chunk in the cache file, and decode or
  encode it with \<^verbatim>\<open>libutil/chunk.c\<close>, which is written on the primitives of \<^verbatim>\<open>crypto/\<close>: a cipher in a block mode with padding, a
  hash, a MAC and a compressor, each behind a descriptor of function pointers.  A chunk that is not in the local cache comes from
  the hoard cache \<^verbatim>\<open>parcelkeeper/hoard.c\<close>, a file of slots with an index that all processes of a user share, or through
  \<^verbatim>\<open>parcelkeeper/transport.c\<close> from the server, and is put into the hoard cache on its way.  What a parcel is, the process reads from a
  file with \<^verbatim>\<open>parcelkeeper/parcelcfg.c\<close>.

  \<^bold>\<open>Theories and sources.\<close>
  \<^item> \<open>Isr_Prelude\<close>: \<^verbatim>\<open>crypto/internal.h\<close>, \<^verbatim>\<open>crypto/isrcrypto.h\<close>, \<^verbatim>\<open>crypto/util.c\<close> (words, byte order, buffers, result codes).
  \<^item> \<open>Isr_Pad\<close>, \<open>Isr_Modes\<close>: \<^verbatim>\<open>crypto/pad.c\<close>; \<^verbatim>\<open>crypto/ecb.c\<close> and \<^verbatim>\<open>crypto/cbc.c\<close>, with the locale of a block cipher.
  \<^item> \<open>Isr_AES_Tab\<close>, \<open>Isr_AES\<close>, \<open>Isr_AES_Facts\<close>, \<open>Isr_AES_Inverse\<close>: \<^verbatim>\<open>crypto/aes_tab.h\<close> and \<^verbatim>\<open>crypto/aes.c\<close>; what the tables
    contain; that decryption undoes encryption.
  \<^item> \<open>Isr_Cipher\<close>: \<^verbatim>\<open>crypto/cipher.c\<close>.
  \<^item> \<open>Isr_Block_Hash\<close>, \<open>Isr_SHA1\<close>, \<open>Isr_MD5\<close>, \<open>Isr_Hash\<close>: \<^verbatim>\<open>crypto/sha1.c\<close>, \<^verbatim>\<open>crypto/sha1-compress.c\<close>, \<^verbatim>\<open>crypto/md5.c\<close>,
    \<^verbatim>\<open>crypto/md5-compress.c\<close>, \<^verbatim>\<open>crypto/hash.c\<close>, against the definitions of the two hashes in the standards.  \<open>Isr_Sine\<close> computes the
    sines from which RFC 1321 takes the constants of MD5.
  \<^item> \<open>Isr_Mac\<close>: \<^verbatim>\<open>crypto/hmac.c\<close> and \<^verbatim>\<open>crypto/mac.c\<close>, against RFC 2104.
  \<^item> \<open>Isr_LZF\<close>, \<open>Isr_LZF_Format\<close>, \<open>Isr_LZF_Correct\<close>, \<open>Isr_Compress\<close>: \<^verbatim>\<open>crypto/lzf.c\<close> and \<^verbatim>\<open>crypto/compress.c\<close>, the compressed
    format as a list of items, and the contract of a block compressor.
  \<^item> \<open>Isr_LZF_Stream\<close>, \<open>Isr_LZF_Stream_Correct\<close>: \<^verbatim>\<open>crypto/lzf-stream.c\<close>, the state machines of encoder and decoder with their buffers.
  \<^item> \<open>Isr_Chunk\<close>: \<^verbatim>\<open>libutil/chunk.c\<close>.
  \<^item> \<open>Isr_Zlib\<close>: \<^verbatim>\<open>crypto/zlib.c\<close> and \<^verbatim>\<open>crypto/lzma.c\<close> over the libraries they call; both keep the contract of a block compressor.
  \<^item> \<open>Isr_SQL\<close>: \<^verbatim>\<open>sqlite/wrapper.c\<close>, over an abstract engine; the locale of a transaction body and its retry loop.
  \<^item> \<open>Isr_Pk\<close>: \<^verbatim>\<open>parcelkeeper/defs.h\<close>, and files with short transfers and failures.
  \<^item> \<open>Isr_Cache\<close>, \<open>Isr_Cache_Correct\<close>, \<open>Isr_Cache_Props\<close>: \<^verbatim>\<open>parcelkeeper/cache.c\<close>.
  \<^item> \<open>Isr_Image\<close>, \<open>Isr_Image_Correct\<close>, \<open>Isr_Image_Refine\<close>, \<open>Isr_Disk\<close>: \<^verbatim>\<open>parcelkeeper/fuse_image.c\<close>: the model; the invariant
    of the chunk cache; the refinement of an array of bytes, for every provider of chunks; the whole stack put together.
  \<^item> \<open>Isr_Txn\<close>: rules for statements, loops over rows and transactions of the wrapper, by which the hoard is verified.
  \<^item> \<open>Isr_Hoard\<close>, \<open>Isr_Hoard_Open\<close>: \<^verbatim>\<open>parcelkeeper/hoard.c\<close>: the slot cache, reading and writing; the index and its upgrade, references,
    collection, start and end.
  \<^item> \<open>Isr_Hoard_Correct\<close>, \<open>Isr_Hoard_Slots\<close>, \<open>Isr_Hoard_Ops\<close>, \<open>Isr_Hoard_Get\<close>: the invariant of the table of chunks; what allocation
    and flushing do; every operation in its transaction; the loop that reads.
  \<^item> \<open>Isr_Hoard_Refs\<close>: \<^verbatim>\<open>hoard_sync_refs\<close>.
  \<^item> \<open>Isr_Hoard_System\<close>, \<open>Isr_Hoard_Props\<close>: the step relation of all processes that share a hoard, and its invariant; the contract.
  \<^item> \<open>Isr_Transport\<close>: \<^verbatim>\<open>parcelkeeper/transport.c\<close> and \<^verbatim>\<open>form_chunk_path\<close> of \<^verbatim>\<open>parcelkeeper/util.c\<close>.
  \<^item> \<open>Isr_Server\<close>: the hoard cache and the transport as the sources of \<open>cache_get\<close>.
  \<^item> \<open>Isr_Parcelcfg\<close>: \<^verbatim>\<open>parcelkeeper/parcelcfg.c\<close> with the parsers of \<^verbatim>\<open>parcelkeeper/util.c\<close> that it calls.
\<close>

text \<open>
  \<^bold>\<open>Conventions.\<close>  Bytes and machine words are words of their width, arithmetic wraps.  Sizes and positions that the code keeps
  in \<^verbatim>\<open>unsigned\<close> are natural numbers, with the reduction to 32 bits written out where the code's values can reach it.  A buffer
  is a list of bytes; a store beyond it, a read beyond it, a failed assertion and a wait that nothing ends are the value
  \<open>None\<close>, so a theorem that a function returns \<open>Some\<close> says that it does none of these.  The exception is the key passed to the
  cipher: it is assumed to have the \<^verbatim>\<open>keylen\<close> bytes that the caller announces, as the keys of the codec, which are digests, do.  Error codes are values of the result.
  Structures are records, and a function that changes state takes and returns it.  A function pointer in a descriptor is a
  field of function type.  Loops are recursive functions with a termination proof, or \<open>partial_function\<close> in the option monad
  where the code may loop for ever; there is no fuel.

  \<^bold>\<open>Parameters.\<close>  What is not in the repository is an argument: zlib and liblzma (records \<open>zlib\<close> and \<open>lzma\<close>), uninitialised
  memory (in the record \<open>backends\<close>, beside the descriptors of the other compressors; record \<open>lzf_env\<close>, with the checksum of zlib), the database engine's failures (a list of faults, one per call),
  the outcomes of file operations (a list of lengths, one per call), the clock, file locks and random numbers, libcurl (record
  \<open>curl\<close>), GLib's string functions and the UUID library (record \<open>cfg_libs\<close>).  SQL statements are functions on the tables;
  \<^verbatim>\<open>BEGIN\<close> and \<^verbatim>\<open>BEGIN IMMEDIATE\<close> are one operation.  The theorems on the local cache and the disk hold for every origin of missing chunks
  that keeps the contract \<open>serves\<close> (record \<open>chunk_source\<close>); the hoard cache and the transport, which have states of their own, are
  verified by themselves, and \<open>server_serves\<close> shows the contract of their code when there is no hoard directory and the server is up.

  \<^bold>\<open>What is shown.\<close>  C1 to C5: the chunk codec gives back what it took and accepts nothing else; for every input, decoding is decided
  by the decryption and its digest.  C6 to
  C10: ciphers, modes and padding.  C11 to C17: hashes and MAC agree with their standards, with the case where the MAC does
  not.  C18: the references of a parcel to the hoard cache follow its keyring.  C19 to C22: LZF.  C23: the parcel
  configuration.  C24: the codec on zlib.  C25 to C27: the virtual disk behaves like an array of bytes, its contents survive shutdown, and the chunk cache
  keeps its invariant.  C28 to C31: the local cache stores and finds chunks, atomically, and its transactions end.  C32 to C36: what
  goes wrong at the limits.  C37: the LZF stream format.  C38 and C39: the hoard cache keeps its invariant in every interleaving of
  the transactions of its processes, and reading ends with the right data or none.  C40: what is fetched from the server is
  checked and kept.

  \<^bold>\<open>Not modelled.\<close>  The insides of SQLite, zlib and liblzma (third-party code), libfuse glue and its statistics files, log messages, the release of
  memory, concurrent requests to one disk (requests run one after another, with runs of the cleaner between them), what another
  process does to the hoard between the lookup and the read of one call, \<^verbatim>\<open>crypto/random.c\<close> (reads a device), the batch modes
  \<^verbatim>\<open>parcelkeeper/cache_modes.c\<close> and \<^verbatim>\<open>parcelkeeper/hoard_modes.c\<close> (loops over the operations above that report progress), the command
  line, signals and process start-up, the graphical and command-line tools.
\<close>

section \<open>Chunks\<close>

text \<open>
  C1.  Encoding a chunk with the suite \<open>aes-sha1\<close>, uncompressed or with LZF, always succeeds for a chunk that is a
  positive multiple of the cipher block (and below \<open>2 ^ 31\<close> bytes); the ciphertext fits into the chunk size and nothing beyond it
  is written; the tag is the SHA-1 of the ciphertext; and decoding the ciphertext with the returned key and compression
  type, in any other process (with other contents of uninitialised memory), gives back the chunk.
\<close>

theorem chunk_decode_encode:
  assumes "compress = IU_CHUNK_COMP_NONE \<or> compress = IU_CHUNK_COMP_LZF"
    and "16 dvd length inp" "inp \<noteq> []" "length inp < 2 ^ 31" "length inp \<le> length out"
  shows "\<exists>out' n tag key c'.
    iu_chunk_encode b IU_CHUNK_CRY_AES_SHA1 inp out compress = Some (Some (out', n, tag, key, c'))
    \<and> 0 < n \<and> n \<le> length inp \<and> length out' = length out \<and> drop (length inp) out' = drop (length inp) out
    \<and> tag = sha1_spec_hash (take n out') \<and> length key = 20
    \<and> (\<forall>dst. length dst = length inp \<longrightarrow>
         iu_chunk_decode b' IU_CHUNK_CRY_AES_SHA1 c' (take n out') key dst = Some (Some inp))"
  using assms chunk_round_trip_none [OF assms(2,3,5), of b b'] chunk_round_trip_lzf [OF assms(2-5), of b b']
  by (auto simp: chunk_sealed_def)

theorem chunk_decode_encode_witness:
  "\<exists>out' n tag key c'.
    iu_chunk_encode lzf_backends IU_CHUNK_CRY_AES_SHA1 (replicate 4096 7) (replicate 4096 0) IU_CHUNK_COMP_LZF =
      Some (Some (out', n, tag, key, c')) \<and> n \<le> 4096
    \<and> iu_chunk_decode lzf_backends IU_CHUNK_CRY_AES_SHA1 c' (take n out') key (replicate 4096 1) = Some (Some (replicate 4096 7))"
  using chunk_decode_encode [of IU_CHUNK_COMP_LZF "replicate 4096 7" "replicate 4096 0" lzf_backends lzf_backends]
  by fastforce

text \<open>
  C2.  The same round trip for every compression backend that keeps the contract of a block compressor (zlib in the
  program): encoder and decoder may be different processes with different backends.
\<close>

theorem chunk_decode_encode_backend:
  assumes "compress_to_isrcry compress = Some cr" "compress \<noteq> IU_CHUNK_COMP_NONE"
    and "isrcry_compress_alloc b cr = Some (d, c0)" "map_option fst (isrcry_compress_init d c0 ISRCRY_ENCODE 0) = Some ISRCRY_OK"
    and "isrcry_compress_alloc b' cr = Some (d', c0')" "map_option fst (isrcry_compress_init d' c0' ISRCRY_DECODE 0) = Some ISRCRY_OK"
    and "block_compressor (one_shot d c0 ISRCRY_ENCODE) (one_shot d' c0' ISRCRY_DECODE) fits" "fits inp"
    and "16 dvd length inp" "inp \<noteq> []" "length inp < 2 ^ 32" "length inp \<le> length out"
  shows "\<exists>out' n tag key c'.
    iu_chunk_encode b IU_CHUNK_CRY_AES_SHA1 inp out compress = Some (Some (out', n, tag, key, c'))
    \<and> n \<le> length inp \<and> tag = sha1_spec_hash (take n out')
    \<and> (\<forall>dst. length dst = length inp \<longrightarrow>
         iu_chunk_decode b' IU_CHUNK_CRY_AES_SHA1 c' (take n out') key dst = Some (Some inp))"
  using chunk_round_trip [OF assms(2,1,3-12)] by (auto simp: chunk_sealed_def)

theorem chunk_decode_encode_backend_witness:
  "\<exists>out' n tag key c'.
    iu_chunk_encode lzf_backends IU_CHUNK_CRY_AES_SHA1 (replicate 64 7) (replicate 64 0) IU_CHUNK_COMP_ZLIB =
      Some (Some (out', n, tag, key, c')) \<and> n \<le> 64
    \<and> iu_chunk_decode lzf_backends IU_CHUNK_CRY_AES_SHA1 c' (take n out') key (replicate 64 1) = Some (Some (replicate 64 7))"
proof -
  let ?u = "\<lambda>u :: (LZF_STATE, LZF_STATE, LZF_STATE) any_ctx. case u of Any_zlib c \<Rightarrow> Some c | _ \<Rightarrow> None"
  let ?d = "any_desc ?u Any_zlib (isrcry_lzf_desc (\<lambda>_. None))" and ?c = "\<lparr>zc_direction = 0, zc_level = 0, zc_ctx = None\<rparr>"
  have os: "one_shot ?d ?c dir = one_shot (isrcry_lzf_desc (\<lambda>_. None)) (ctx_in ?u ?c) dir" for dir
    by (intro ext one_shot_any) simp
  have bc: "block_compressor (one_shot ?d ?c ISRCRY_ENCODE) (one_shot ?d ?c ISRCRY_DECODE) lzf_lim"
    unfolding os by (rule lzf_block_compressor)
  have al: "isrcry_compress_alloc lzf_backends ISRCRY_COMPRESS_ZLIB = Some (?d, ?c)"
    by (simp add: isrcry_compress_alloc_def compress_desc_def lzf_backends_def)
  have ok: "map_option fst (isrcry_compress_init ?d ?c dir 0) = Some ISRCRY_OK" if "dir = 0 \<or> dir = 1" for dir
    using that by (auto simp: isrcry_compress_init_def any_desc_def lzf_desc_defs lzf_alloc_def ctx_in_def)
  show ?thesis
    using chunk_decode_encode_backend [OF _ _ al ok al ok bc, of IU_CHUNK_COMP_ZLIB "replicate 64 7" "replicate 64 0"]
    by (fastforce simp: compress_to_isrcry_def lzf_lim_def)
qed

text \<open>
  C3.  Integrity: data that \<open>iu_chunk_decode\<close> delivers comes from a plain form whose SHA-1 is the key; for an uncompressed
  chunk it is the plain form itself.  The lengths have passed the sanity checks.
\<close>

theorem chunk_decode_accepts_only_key:
  assumes "iu_chunk_decode b crypto compress inp key out = Some (Some out')"
  shows "crypto = IU_CHUNK_CRY_AES_SHA1 \<and> inp \<noteq> [] \<and> length inp \<le> length out \<and>
    (\<exists>plain. sha1_spec_hash plain = take 20 key \<and>
      (if compress = IU_CHUNK_COMP_NONE then out' = plain \<and> length inp = length out
       else \<exists>cr. compress_to_isrcry compress = Some cr \<and> chunk_decompress b cr plain out = Some (Some out')))"
  by (rule chunk_decode_integrity [OF assms])

theorem chunk_decode_accepts_only_key_witness:
  "\<exists>inp key. inp \<noteq> [] \<and> (\<exists>plain. sha1_spec_hash plain = take 20 key \<and> plain = replicate 16 7)
     \<and> iu_chunk_decode lzf_backends IU_CHUNK_CRY_AES_SHA1 IU_CHUNK_COMP_NONE inp key (replicate 16 0) = Some (Some (replicate 16 7))"
proof -
  have "chunk_compress lzf_backends IU_CHUNK_COMP_NONE (replicate 16 7) 16 = Some (Some (None, IU_CHUNK_COMP_NONE))"
    by (simp add: chunk_compress_def)
  from chunk_plain_round_trip [OF this, of 1 "replicate 16 0" lzf_backends]
  obtain e where "\<forall>dst. length dst = 16 \<longrightarrow> iu_chunk_decode lzf_backends IU_CHUNK_CRY_AES_SHA1 IU_CHUNK_COMP_NONE e
      (sha1_spec_hash (replicate 16 7)) dst = Some (Some (replicate 16 7))"
    by auto
  from this [rule_format, of "replicate 16 0"]
  have e: "iu_chunk_decode lzf_backends IU_CHUNK_CRY_AES_SHA1 IU_CHUNK_COMP_NONE e (sha1_spec_hash (replicate 16 7))
      (replicate 16 0) = Some (Some (replicate 16 7))"
    by (simp only: length_replicate)
  from chunk_decode_accepts_only_key [OF e]
  have "e \<noteq> []" "\<exists>plain. sha1_spec_hash plain = take 20 (sha1_spec_hash (replicate 16 7)) \<and> plain = replicate 16 7"
    by auto
  with e show ?thesis
    by blast
qed

text \<open>
  C4.  Decoding an uncompressed chunk of whole blocks never aborts and is decided by the key: with \<open>chunk_plain\<close>, the AES-CBC
  decryption (zero initialisation vector, schedule of the first 16 bytes of the key), whose encryption is the input, the data
  delivered are that decryption when its SHA-1 is the key, and otherwise decoding is refused.
\<close>

theorem chunk_decode_decides:
  assumes "16 dvd length inp" "inp \<noteq> []" "length out = length inp"
  shows "iu_chunk_decode b IU_CHUNK_CRY_AES_SHA1 IU_CHUNK_COMP_NONE inp key out =
      Some (if take 20 key = sha1_spec_hash (chunk_plain key inp) then Some (chunk_plain key inp) else None)
    \<and> length (chunk_plain key inp) = length inp
    \<and> snd (cbc_enc_spec (aes_enc_block (chunk_aes_key key)) 16 (length inp div 16) (replicate 16 0) (chunk_plain key inp)) = inp"
  by (intro conjI chunk_decode_plain_total [OF assms] length_chunk_plain [OF assms(1)] chunk_plain_encrypts [OF assms(1)])

theorem chunk_decode_decides_witness:
  "iu_chunk_decode lzf_backends IU_CHUNK_CRY_AES_SHA1 IU_CHUNK_COMP_NONE (replicate 16 3) (replicate 20 5) (replicate 16 0) =
      Some (if take 20 (replicate 20 5) = sha1_spec_hash (chunk_plain (replicate 20 5) (replicate 16 3))
            then Some (chunk_plain (replicate 20 5) (replicate 16 3)) else None)
    \<and> snd (cbc_enc_spec (aes_enc_block (chunk_aes_key (replicate 20 5))) 16 1 (replicate 16 0)
        (chunk_plain (replicate 20 5) (replicate 16 3))) = replicate 16 3"
  using chunk_decode_decides [of "replicate 16 3" "replicate 16 0" lzf_backends "replicate 20 5"] by (simp del: cbc_enc_spec.simps)

text \<open>
  C5.  Decoding a compressed chunk, for every input: nothing is decompressed unless the input is a positive number of whole blocks no
  longer than the chunk, its AES-CBC decryption ends in a valid padding, and the SHA-1 of what is in front of the padding is the
  key; then the outcome is that of decompressing exactly these bytes into the chunk.  Otherwise decoding is refused.
\<close>

theorem chunk_decode_compressed_decides:
  assumes "compress \<noteq> IU_CHUNK_COMP_NONE" "compress_to_isrcry compress = Some cr" "length out < 2 ^ 32"
  shows "iu_chunk_decode b IU_CHUNK_CRY_AES_SHA1 compress inp key out =
    (if inp = [] \<or> length out < length inp \<or> \<not> 16 dvd length inp then Some None
     else case pkcs5_strip 16 (chunk_plain key inp) of
       None \<Rightarrow> Some None
     | Some z \<Rightarrow> if take 20 key = sha1_spec_hash z then chunk_decompress b cr z out else Some None)"
  by (rule chunk_decode_compressed_total [OF assms])

theorem chunk_decode_compressed_decides_witness:
  "iu_chunk_decode lzf_backends IU_CHUNK_CRY_AES_SHA1 IU_CHUNK_COMP_LZF (replicate 16 3) (replicate 20 5) (replicate 64 0) =
    (case pkcs5_strip 16 (chunk_plain (replicate 20 5) (replicate 16 3)) of
       None \<Rightarrow> Some None
     | Some z \<Rightarrow> if take 20 (replicate 20 5) = sha1_spec_hash z then chunk_decompress lzf_backends ISRCRY_COMPRESS_LZF z (replicate 64 0)
         else Some None)"
  using chunk_decode_compressed_decides [of IU_CHUNK_COMP_LZF ISRCRY_COMPRESS_LZF "replicate 64 0" lzf_backends "replicate 16 3" "replicate 20 5"]
  by (simp add: compress_to_isrcry_def)

section \<open>Block cipher and modes\<close>

text \<open>
  C6.  AES: for every key of 16, 24 or 32 bytes, \<open>aes_decrypt\<close> undoes \<open>aes_encrypt\<close> on every block, with the key schedules
  that \<open>aes_init\<close> computes; bytes of the output buffers beyond the block are left alone.
\<close>

theorem aes_decrypt_encrypt:
  assumes "aes_key_shape s" "keylen = 16 \<or> keylen = 24 \<or> keylen = 32" "length p = 16" "16 \<le> length b" "16 \<le> length b'"
  shows "\<exists>k c. aes_init s (Some key) keylen = (ISRCRY_OK, k) \<and> length c = 16
    \<and> aes_encrypt k (Some p) (Some b) = (ISRCRY_OK, Some (c @ drop 16 b))
    \<and> aes_decrypt k (Some c) (Some b') = (ISRCRY_OK, Some (p @ drop 16 b'))"
proof -
  obtain k where k: "aes_init s (Some key) keylen = (ISRCRY_OK, k)" "aes_key_ok k"
    using aes_init_ok [OF assms(1,2)] by blast
  have "length (aes_enc_block k p) = 16" "aes_dec_block k (aes_enc_block k p) = p"
    using aes.E_len [OF k(2) assms(3)] aes.D_E [OF k(2) assms(3)] by simp_all
  then show ?thesis
    using k assms(3-5) aes.enc_eq [OF k(2), of p b] aes.dec_eq [OF k(2), of "aes_enc_block k p" b']
    by (auto simp: blit_def)
qed

theorem aes_decrypt_encrypt_witness:
  "\<exists>k c. aes_init \<lparr>eK = replicate 60 0, dK = replicate 60 0, Nr = 0\<rparr> (Some (replicate 24 9)) 24 = (ISRCRY_OK, k)
    \<and> aes_encrypt k (Some (replicate 16 1)) (Some (replicate 16 0)) = (ISRCRY_OK, Some c)
    \<and> aes_decrypt k (Some c) (Some (replicate 16 0)) = (ISRCRY_OK, Some (replicate 16 1))"
  using aes_decrypt_encrypt [of "\<lparr>eK = replicate 60 0, dK = replicate 60 0, Nr = 0\<rparr>" 24 "replicate 16 1" "replicate 16 0"
      "replicate 16 0" "replicate 24 9"]
  by (fastforce simp: aes_key_shape_def)

text \<open>
  C7.  The padded final call: for every allocated context (AES with ECB or CBC), key length and initialisation vector, keying
  succeeds in both directions, encryption of any data writes the next multiple of 16 bytes and nothing else, and decryption of
  that output restores the data and their length.
\<close>

theorem cipher_final_decrypts:
  assumes "isrcry_cipher_alloc ciph mode = Some c0" "keylen = 16 \<or> keylen = 24 \<or> keylen = 32"
    and "ivp = None \<or> (\<exists>v. ivp = Some v \<and> 16 \<le> length v)"
    and "(length i div 16 + 1) * 16 \<le> length b" "length i + 16 < 2 ^ 32"
  shows "\<exists>ce cd c1 e n. isrcry_cipher_init c0 ISRCRY_ENCRYPT (Some key) keylen ivp = Some (ISRCRY_OK, ce)
    \<and> isrcry_cipher_init c0 ISRCRY_DECRYPT (Some key) keylen ivp = Some (ISRCRY_OK, cd)
    \<and> n = (length i div 16 + 1) * 16 \<and> length e = n
    \<and> isrcry_cipher_final (Some ce) ISRCRY_PADDING_PKCS5 (Some i) (length i) (Some b) (Some (length b)) =
        (ISRCRY_OK, c1, Some (e @ drop n b), Some n)
    \<and> (\<forall>b'. length i \<le> length b' \<longrightarrow>
        (\<exists>c2. isrcry_cipher_final (Some cd) ISRCRY_PADDING_PKCS5 (Some e) n (Some b') (Some (length b')) =
           (ISRCRY_OK, c2, Some (i @ drop (length i) b'), Some (length i))))"
proof -
  obtain K where K: "ctx_ok K" "\<And>dir. dir = ISRCRY_ENCRYPT \<or> dir = ISRCRY_DECRYPT \<Longrightarrow>
      isrcry_cipher_init c0 dir (Some key) keylen ivp = Some (ISRCRY_OK, K\<lparr>cc_direction := dir\<rparr>)"
    by (rule cipher_open [OF assms(1-3), of key]) blast
  show ?thesis
    using final_round_trip [OF K(1) assms(4) order.refl assms(5)] K(2) [of 1] K(2) [of 0] by fastforce
qed

theorem cipher_final_decrypts_witness:
  "\<exists>c0 ce cd c1 e. isrcry_cipher_alloc ISRCRY_CIPHER_AES ISRCRY_MODE_CBC = Some c0
    \<and> isrcry_cipher_init c0 ISRCRY_ENCRYPT (Some (replicate 16 3)) 16 None = Some (ISRCRY_OK, ce)
    \<and> isrcry_cipher_init c0 ISRCRY_DECRYPT (Some (replicate 16 3)) 16 None = Some (ISRCRY_OK, cd)
    \<and> isrcry_cipher_final (Some ce) ISRCRY_PADDING_PKCS5 (Some (replicate 21 1)) 21 (Some (replicate 32 0)) (Some 32) =
        (ISRCRY_OK, c1, Some e, Some 32)
    \<and> (\<exists>c2. isrcry_cipher_final (Some cd) ISRCRY_PADDING_PKCS5 (Some e) 32 (Some (replicate 21 0)) (Some 21) =
           (ISRCRY_OK, c2, Some (replicate 21 1), Some 21))"
proof -
  obtain c0 where c0: "isrcry_cipher_alloc ISRCRY_CIPHER_AES ISRCRY_MODE_CBC = Some c0"
    by (simp add: isrcry_cipher_alloc_def cipher_desc_def mode_desc_def)
  from cipher_final_decrypts [OF c0, of 16 None "replicate 21 1" "replicate 32 0" "replicate 16 3", simplified]
  obtain ce cd c1 e where "isrcry_cipher_init c0 ISRCRY_ENCRYPT (Some (replicate 16 3)) 16 None = Some (ISRCRY_OK, ce)"
    "isrcry_cipher_init c0 ISRCRY_DECRYPT (Some (replicate 16 3)) 16 None = Some (ISRCRY_OK, cd)"
    "isrcry_cipher_final (Some ce) ISRCRY_PADDING_PKCS5 (Some (replicate 21 1)) 21 (Some (replicate 32 0)) (Some 32) =
        (ISRCRY_OK, c1, Some e, Some 32)"
    and d: "\<forall>b'. 21 \<le> length b' \<longrightarrow>
        (\<exists>c2. isrcry_cipher_final (Some cd) ISRCRY_PADDING_PKCS5 (Some e) 32 (Some b') (Some (length b')) =
           (ISRCRY_OK, c2, Some (replicate 21 1 @ drop 21 b'), Some 21))"
    by blast
  moreover from d [rule_format, of "replicate 21 0"]
  have "\<exists>c2. isrcry_cipher_final (Some cd) ISRCRY_PADDING_PKCS5 (Some e) 32 (Some (replicate 21 0)) (Some 21) =
      (ISRCRY_OK, c2, Some (replicate 21 1), Some 21)"
    by simp
  ultimately show ?thesis
    using c0 by blast
qed

text \<open>
  C8.  Whole blocks: \<open>isrcry_cipher_process\<close> in ECB and CBC mode encrypts \<open>n\<close> blocks into as many bytes, and a context keyed for
  decryption restores them.
\<close>

theorem cipher_process_decrypts:
  assumes "isrcry_cipher_alloc ciph mode = Some c0" "keylen = 16 \<or> keylen = 24 \<or> keylen = 32"
    and "ivp = None \<or> (\<exists>v. ivp = Some v \<and> 16 \<le> length v)"
    and "length i = n * 16" "length i \<le> length b"
  shows "\<exists>ce cd c1 e. isrcry_cipher_init c0 ISRCRY_ENCRYPT (Some key) keylen ivp = Some (ISRCRY_OK, ce)
    \<and> isrcry_cipher_init c0 ISRCRY_DECRYPT (Some key) keylen ivp = Some (ISRCRY_OK, cd)
    \<and> isrcry_cipher_process ce (Some i) (length i) (Some b) = (ISRCRY_OK, c1, Some (e @ drop (length i) b))
    \<and> length e = length i
    \<and> (\<forall>b'. length b' = length i \<longrightarrow>
        (\<exists>c2. isrcry_cipher_process cd (Some e) (length i) (Some b') = (ISRCRY_OK, c2, Some i)))"
proof -
  obtain K where K: "ctx_ok K" "\<And>dir. dir = ISRCRY_ENCRYPT \<or> dir = ISRCRY_DECRYPT \<Longrightarrow>
      isrcry_cipher_init c0 dir (Some key) keylen ivp = Some (ISRCRY_OK, K\<lparr>cc_direction := dir\<rparr>)"
    by (rule cipher_open [OF assms(1-3), of key]) blast
  show ?thesis
    using process_round_trip [OF K(1) assms(4,5)] K(2) [of 1] K(2) [of 0] by fastforce
qed

theorem cipher_process_decrypts_witness:
  "\<exists>c0 ce cd c1 e. isrcry_cipher_alloc ISRCRY_CIPHER_AES ISRCRY_MODE_ECB = Some c0
    \<and> isrcry_cipher_init c0 ISRCRY_ENCRYPT (Some (replicate 32 3)) 32 None = Some (ISRCRY_OK, ce)
    \<and> isrcry_cipher_init c0 ISRCRY_DECRYPT (Some (replicate 32 3)) 32 None = Some (ISRCRY_OK, cd)
    \<and> isrcry_cipher_process ce (Some (replicate 32 5)) 32 (Some (replicate 32 0)) = (ISRCRY_OK, c1, Some e)
    \<and> (\<exists>c2. isrcry_cipher_process cd (Some e) 32 (Some (replicate 32 0)) = (ISRCRY_OK, c2, Some (replicate 32 5)))"
proof -
  obtain c0 where c0: "isrcry_cipher_alloc ISRCRY_CIPHER_AES ISRCRY_MODE_ECB = Some c0"
    by (simp add: isrcry_cipher_alloc_def cipher_desc_def mode_desc_def)
  then show ?thesis
    using cipher_process_decrypts [OF c0, of 32 None "replicate 32 5" 2 "replicate 32 0" "replicate 32 3"] by fastforce
qed

text \<open>
  C9.  Keying is refused for a missing key, a key length other than 16, 24 and 32 bytes, and, with a good key, a direction
  outside the enumeration; it never aborts.
\<close>

theorem cipher_init_errors:
  assumes "isrcry_cipher_alloc ciph mode = Some c0"
  shows "\<exists>ret c1. isrcry_cipher_init c0 dir key keylen ivp = Some (ret, c1)
    \<and> (ret = ISRCRY_INVALID_ARGUMENT \<longleftrightarrow>
        key = None \<or> keylen \<notin> {16, 24, 32} \<or> dir \<notin> {ISRCRY_ENCRYPT, ISRCRY_DECRYPT})
    \<and> (ret = ISRCRY_OK \<or> ret = ISRCRY_INVALID_ARGUMENT)"
proof -
  have ok: "cc_cipher c0 = aes_desc" "aes_key_shape (cc_key c0)"
    using isrcry_cipher_alloc_ok [OF assms] by (simp_all add: alloc_ok_def)
  show ?thesis
  proof (cases "key = None \<or> keylen \<notin> {16, 24, 32}")
    case True
    then have "fst (aes_init (cc_key c0) key keylen) = ISRCRY_INVALID_ARGUMENT"
      by (auto simp: aes_init_def split: option.split)
    then show ?thesis
      using True ok by (auto simp: isrcry_cipher_init_def MAX_BLOCK_LEN_def Let_def split: prod.split)
  next
    case False
    then obtain k where k: "key = Some k" "keylen = 16 \<or> keylen = 24 \<or> keylen = 32"
      by auto
    then obtain k' where "aes_init (cc_key c0) key keylen = (ISRCRY_OK, k')"
      using aes_init_ok [OF ok(2) k(2), of k] by auto
    then show ?thesis
      using k ok by (auto simp: isrcry_cipher_init_def MAX_BLOCK_LEN_def Let_def)
  qed
qed

theorem cipher_init_errors_witness:
  "\<exists>c0 c1. isrcry_cipher_alloc ISRCRY_CIPHER_AES ISRCRY_MODE_CBC = Some c0
    \<and> isrcry_cipher_init c0 ISRCRY_ENCRYPT (Some (replicate 17 0)) 17 None = Some (ISRCRY_INVALID_ARGUMENT, c1)"
proof -
  obtain c0 where c0: "isrcry_cipher_alloc ISRCRY_CIPHER_AES ISRCRY_MODE_CBC = Some c0"
    by (simp add: isrcry_cipher_alloc_def cipher_desc_def mode_desc_def)
  then show ?thesis
    using cipher_init_errors [OF c0, of ISRCRY_ENCRYPT "Some (replicate 17 0)" 17 None] by auto
qed

text \<open>
  C10.  PKCS#5: a last block is accepted exactly when it ends in \<open>k\<close> bytes of value \<open>k\<close> for some \<open>k\<close> between 1 and the block
  length, and the number of data bytes is what is left.
\<close>

theorem pkcs5_unpad_accepts:
  assumes "0 < n" "n \<le> length b"
  shows "pkcs5_unpad (Some b) n (Some d) = (ISRCRY_OK, Some d') \<longleftrightarrow>
    (\<exists>k. 0 < k \<and> k \<le> n \<and> k \<le> 255 \<and> d' = n - k \<and> (\<forall>i. n - k \<le> i \<longrightarrow> i < n \<longrightarrow> b ! i = of_nat k))"
  using assms by (intro pkcs5_unpad_ok_iff) simp_all

theorem pkcs5_unpad_accepts_witness:
  "pkcs5_unpad (Some [1, 2, 2, 2]) 4 (Some 0) = (ISRCRY_OK, Some 2)"
proof -
  have "\<exists>k. 0 < k \<and> k \<le> 4 \<and> k \<le> 255 \<and> 2 = 4 - k \<and> (\<forall>i. 4 - k \<le> i \<longrightarrow> i < 4 \<longrightarrow> [1, 2, 2, 2 :: u8] ! i = of_nat k)"
    by (rule exI [of _ 2]) (auto simp: less_Suc_eq numeral_eq_Suc)
  then show ?thesis
    using pkcs5_unpad_accepts [of 4 "[1, 2, 2, 2]" 0 2] by simp
qed

section \<open>Hashes\<close>

text \<open>
  C11.  The SHA-1 compression function, with its five renamed registers and its circular 16-word buffer, is the textbook
  function with the 80-word message schedule.
\<close>

theorem sha1_compress_textbook:
  assumes "length state = 5"
  shows "sha1_compress state block = sha1_compress_spec state block"
  by (rule sha1_compress_eq_spec [OF assms])

theorem sha1_compress_textbook_witness:
  "sha1_compress sha1_iv (replicate 64 0) = sha1_compress_spec sha1_iv (replicate 64 0)"
  using sha1_compress_textbook [of sha1_iv "replicate 64 0"] by (simp add: sha1_iv_def)

text \<open>
  C12.  SHA-1 through the hash interface: allocation succeeds; whatever the pieces a message is fed in, the final call never
  aborts and gives the SHA-1 of the whole message; and the context can be used again for another message.
\<close>

theorem sha1_digest_of_pieces:
  "\<exists>h. isrcry_hash_alloc ISRCRY_HASH_SHA1 = Some h
    \<and> (\<forall>bs. \<exists>h1. isrcry_hash_final (foldl isrcry_hash_update h bs) = Some (h1, sha1_spec_hash (concat bs))
        \<and> (\<forall>bs'. \<exists>h2. isrcry_hash_final (foldl isrcry_hash_update h1 bs') = Some (h2, sha1_spec_hash (concat bs'))))"
proof -
  obtain h where "isrcry_hash_alloc ISRCRY_HASH_SHA1 = Some h" "sha1_holds h []"
    using isrcry_hash_alloc_sha1 by blast
  then show ?thesis
    using sha1.fin_pieces by blast
qed

text \<open>
  C13.  The MD5 compression function, with its unrolled table of rounds, is the one of RFC 1321: the constant added in round \<open>i\<close> is the
  integer part of \<open>2 ^ 32\<close> times the absolute value of the sine of \<open>i + 1\<close>.
\<close>

theorem md5_compress_rfc1321:
  assumes "length state = 4"
  shows "md5_compress state block = md5_compress_spec state block"
  by (rule md5_compress_eq_spec [OF assms])

theorem md5_compress_rfc1321_witness:
  "md5_compress md5_iv (replicate 64 0) = md5_compress_spec md5_iv (replicate 64 0)"
  using md5_compress_rfc1321 [of md5_iv "replicate 64 0"] by (simp add: md5_iv_def)

text \<open>
  C14.  MD5 through the hash interface, as for SHA-1.
\<close>

theorem md5_digest_of_pieces:
  "\<exists>h. isrcry_hash_alloc ISRCRY_HASH_MD5 = Some h
    \<and> (\<forall>bs. \<exists>h1. isrcry_hash_final (foldl isrcry_hash_update h bs) = Some (h1, md5_spec_hash (concat bs))
        \<and> (\<forall>bs'. \<exists>h2. isrcry_hash_final (foldl isrcry_hash_update h1 bs') = Some (h2, md5_spec_hash (concat bs'))))"
proof -
  obtain h where "isrcry_hash_alloc ISRCRY_HASH_MD5 = Some h" "md5_holds h []"
    using isrcry_hash_alloc_md5 by blast
  then show ?thesis
    using md5.fin_pieces by blast
qed

section \<open>Message authentication\<close>

text \<open>
  C15.  HMAC-SHA1 through the MAC interface is RFC 2104: a new context, keyed once with any key, authenticates any number of
  messages in any pieces; the output is the first \<open>outlen\<close> bytes of the MAC, and the rest of the buffer is left alone.
\<close>

theorem hmac_sha1_rfc2104:
  assumes "outlen \<le> 20"
  shows "\<exists>m0 m1. isrcry_mac_alloc ISRCRY_MAC_HMAC_SHA1 = Some m0 \<and> isrcry_mac_init m0 key = Some (ISRCRY_OK, m1)
    \<and> (\<forall>bs. \<exists>m2. mac_message m1 bs out outlen =
          Some (ISRCRY_OK, m2, take outlen (hmac_spec key (concat bs)) @ drop outlen out)
        \<and> (\<forall>bs'. \<exists>m3. mac_message m2 bs' out outlen =
          Some (ISRCRY_OK, m3, take outlen (hmac_spec key (concat bs')) @ drop outlen out)))"
proof -
  obtain m0 where m0: "isrcry_mac_alloc ISRCRY_MAC_HMAC_SHA1 = Some m0" "mac_ready m0 [] (replicate 64 0) []"
    "mac_keybuf m0 = replicate 64 0"
    using isrcry_mac_alloc_ready by blast
  have k: "hmac_kept_key (replicate 64 0) key = hmac_spec_key key"
    by (rule hmac_kept_key_spec) simp
  obtain m1 where m1: "isrcry_mac_init m0 key = Some (ISRCRY_OK, m1)" "mac_ready m1 key (hmac_spec_key key) []"
    using isrcry_mac_init_ready [OF m0(2), of key] unfolding m0(3) k by blast
  have "blit out 0 (take outlen (hmac_spec key m)) = take outlen (hmac_spec key m) @ drop outlen out" for m
    using assms by (simp add: blit_def hmac_spec_def hmac_with_def)
  then show ?thesis
    using m0(1) m1(1) mac_message_ready [OF _ assms, of _ key "hmac_spec_key key" _ out] m1(2)
    unfolding hmac_spec_def by metis
qed

theorem hmac_sha1_rfc2104_witness:
  "\<exists>m0 m1 m2. isrcry_mac_alloc ISRCRY_MAC_HMAC_SHA1 = Some m0 \<and> isrcry_mac_init m0 (replicate 70 1) = Some (ISRCRY_OK, m1)
    \<and> mac_message m1 [[1, 2], [3]] (replicate 20 0) 20 =
        Some (ISRCRY_OK, m2, take 20 (hmac_spec (replicate 70 1) (concat [[1, 2], [3]])) @ drop 20 (replicate 20 0))"
  using hmac_sha1_rfc2104 [of 20 "replicate 70 1" "replicate 20 0"] by blast

text \<open>
  C16.  Rekeying a context that is already in use, with a key of at most one hash block, is RFC 2104 again: the old key and the
  half-fed message leave no trace.
\<close>

theorem hmac_sha1_rekey_short:
  assumes "isrcry_mac_alloc ISRCRY_MAC_HMAC_SHA1 = Some m0" "isrcry_mac_init m0 key1 = Some (ISRCRY_OK, m1)"
    and "isrcry_mac_update m1 junk = Some (ISRCRY_OK, m2)" "length key2 \<le> 64" "outlen \<le> 20"
  shows "\<exists>m3. isrcry_mac_init m2 key2 = Some (ISRCRY_OK, m3)
    \<and> (\<forall>bs. \<exists>m4. mac_message m3 bs out outlen =
         Some (ISRCRY_OK, m4, blit out 0 (take outlen (hmac_spec key2 (concat bs)))))"
proof -
  have m0: "mac_ready m0 [] (replicate 64 0) []"
    using isrcry_mac_alloc_ready assms(1) by auto
  obtain k1 where m1: "mac_ready m1 key1 k1 []"
    using isrcry_mac_init_ready [OF m0, of key1] assms(2) by auto
  have m2: "mac_ready m2 key1 k1 ([] @ junk)"
    using isrcry_mac_update_ready [OF m1, of junk] assms(3) by auto
  have k: "hmac_kept_key (mac_keybuf m2) key2 = hmac_spec_key key2"
    using assms(4) by (intro hmac_kept_key_spec) simp
  obtain m3 where m3: "isrcry_mac_init m2 key2 = Some (ISRCRY_OK, m3)" "mac_ready m3 key2 (hmac_spec_key key2) []"
    using isrcry_mac_init_ready [OF m2, of key2] unfolding k by blast
  then show ?thesis
    using mac_message_ready [OF m3(2) assms(5)] unfolding hmac_spec_def by blast
qed

theorem hmac_sha1_rekey_short_witness:
  "\<exists>m2 m3 m4. isrcry_mac_init m2 [9] = Some (ISRCRY_OK, m3)
     \<and> mac_message m3 [[5]] (replicate 20 0) 20 = Some (ISRCRY_OK, m4, blit (replicate 20 0) 0 (take 20 (hmac_spec [9] (concat [[5]]))))"
proof -
  obtain m0 where m0: "isrcry_mac_alloc ISRCRY_MAC_HMAC_SHA1 = Some m0" "mac_ready m0 [] (replicate 64 0) []"
    using isrcry_mac_alloc_ready by blast
  obtain m1 k where m1: "isrcry_mac_init m0 [1] = Some (ISRCRY_OK, m1)" "mac_ready m1 [1] k []"
    using isrcry_mac_init_ready [OF m0(2), of "[1]"] by blast
  obtain m2 where m2: "isrcry_mac_update m1 [2] = Some (ISRCRY_OK, m2)"
    using isrcry_mac_update_ready [OF m1(2)] by blast
  show ?thesis
    using hmac_sha1_rekey_short [OF m0(1) m1(1) m2, of "[9]" 20 "replicate 20 0"] by fastforce
qed

text \<open>
  C17.  Rekeying with a key longer than one hash block: the code stores the 20 bytes of the key's digest over the first 20
  bytes of the previous key block and does not clear the rest.  With a previous key of 64 bytes, the MACs are
  those of the key block made of the digest and the last 44 bytes of the old key, which is the block of RFC 2104 only if those
  44 bytes were zero.
\<close>

theorem hmac_sha1_rekey_long:
  assumes "isrcry_mac_alloc ISRCRY_MAC_HMAC_SHA1 = Some m0" "isrcry_mac_init m0 key1 = Some (ISRCRY_OK, m1)"
    and "length key1 = 64" "64 < length key2" "outlen \<le> 20"
  shows "(\<exists>m2. isrcry_mac_init m1 key2 = Some (ISRCRY_OK, m2)
      \<and> (\<forall>bs. \<exists>m3. mac_message m2 bs out outlen =
           Some (ISRCRY_OK, m3, blit out 0 (take outlen (hmac_with (sha1_spec_hash key2 @ drop 20 key1) (concat bs))))))
    \<and> (sha1_spec_hash key2 @ drop 20 key1 = hmac_spec_key key2 \<longleftrightarrow> drop 20 key1 = replicate 44 0)"
proof -
  have m0: "mac_ready m0 [] (replicate 64 0) []"
    using isrcry_mac_alloc_ready assms(1) by auto
  have k1: "hmac_kept_key x key1 = key1" for x
    using assms(3) by (simp add: hmac_kept_key_def)
  have m1: "mac_ready m1 key1 key1 []" "mc_inited m1"
    using isrcry_mac_init_ready [OF m0, of key1] assms(2) by (auto simp: k1)
  then have b: "mac_keybuf m1 = key1"
    using m1 by (simp add: mac_ready_def hmac_state_def)
  have k2: "hmac_kept_key key1 key2 = sha1_spec_hash key2 @ drop 20 key1"
    using assms(4) by (simp add: hmac_kept_key_def)
  obtain m2 where m2: "isrcry_mac_init m1 key2 = Some (ISRCRY_OK, m2)"
    "mac_ready m2 key2 (sha1_spec_hash key2 @ drop 20 key1) []"
    using isrcry_mac_init_ready [OF m1(1), of key2] unfolding b k2 by blast
  have "sha1_spec_hash key2 @ drop 20 key1 = hmac_spec_key key2 \<longleftrightarrow> drop 20 key1 = replicate 44 0"
    using assms(4) by (simp add: hmac_spec_key_def Let_def)
  with m2 show ?thesis
    using mac_message_ready [OF m2(2) assms(5)] by blast
qed

theorem hmac_sha1_rekey_long_witness:
  "sha1_spec_hash (replicate 65 2) @ drop 20 (replicate 64 1) \<noteq> hmac_spec_key (replicate 65 2)"
proof -
  obtain m0 where m0: "isrcry_mac_alloc ISRCRY_MAC_HMAC_SHA1 = Some m0" "mac_ready m0 [] (replicate 64 0) []"
    using isrcry_mac_alloc_ready by blast
  obtain m1 where m1: "isrcry_mac_init m0 (replicate 64 1) = Some (ISRCRY_OK, m1)"
    using isrcry_mac_init_ready [OF m0(2), of "replicate 64 1"] by blast
  have "drop 20 (replicate 64 1) \<noteq> replicate 44 (0 :: u8)"
    by simp
  then show ?thesis
    using hmac_sha1_rekey_long [OF m0(1) m1, of "replicate 65 2" 20 "[]"] by simp
qed

text \<open>
  A request for more than 20 bytes of MAC is refused, nothing is written, and the next message starts afresh.
\<close>

theorem hmac_sha1_final_too_long:
  assumes "isrcry_mac_alloc ISRCRY_MAC_HMAC_SHA1 = Some m0" "isrcry_mac_init m0 key = Some (ISRCRY_OK, m1)"
    and "isrcry_mac_update m1 b = Some (ISRCRY_OK, m2)" "20 < outlen"
  shows "\<exists>m3. isrcry_mac_final m2 out outlen = Some (ISRCRY_INVALID_ARGUMENT, m3, out)
    \<and> (\<forall>bs. \<exists>m4. mac_message m3 bs out 20 = Some (ISRCRY_OK, m4, blit out 0 (take 20 (hmac_spec key (concat bs)))))"
proof -
  have m0: "mac_ready m0 [] (replicate 64 0) []" "mac_keybuf m0 = replicate 64 0"
    using isrcry_mac_alloc_ready assms(1) by auto
  have k: "hmac_kept_key (replicate 64 0) key = hmac_spec_key key"
    by (rule hmac_kept_key_spec) simp
  have m1: "mac_ready m1 key (hmac_spec_key key) []"
    using isrcry_mac_init_ready [OF m0(1), of key] assms(2) unfolding m0(2) k by auto
  have m2: "mac_ready m2 key (hmac_spec_key key) ([] @ b)"
    using isrcry_mac_update_ready [OF m1, of b] assms(3) by auto
  obtain m3 where "isrcry_mac_final m2 out outlen = Some (ISRCRY_INVALID_ARGUMENT, m3, out)"
    "mac_ready m3 key (hmac_spec_key key) []"
    using isrcry_mac_final_too_long [OF m2 assms(4)] by blast
  then show ?thesis
    using mac_message_ready [of m3 key "hmac_spec_key key" 20] unfolding hmac_spec_def by blast
qed

theorem hmac_sha1_final_too_long_witness:
  "\<exists>m2 m3. isrcry_mac_final m2 (replicate 21 0) 21 = Some (ISRCRY_INVALID_ARGUMENT, m3, replicate 21 0)"
proof -
  obtain m0 where m0: "isrcry_mac_alloc ISRCRY_MAC_HMAC_SHA1 = Some m0" "mac_ready m0 [] (replicate 64 0) []"
    using isrcry_mac_alloc_ready by blast
  obtain m1 k where m1: "isrcry_mac_init m0 [1] = Some (ISRCRY_OK, m1)" "mac_ready m1 [1] k []"
    using isrcry_mac_init_ready [OF m0(2), of "[1]"] by blast
  obtain m2 where m2: "isrcry_mac_update m1 [2] = Some (ISRCRY_OK, m2)"
    using isrcry_mac_update_ready [OF m1(2)] by blast
  show ?thesis
    using hmac_sha1_final_too_long [OF m0(1) m1(1) m2, of 21 "replicate 21 0"] by fastforce
qed

section \<open>Compression\<close>

lemmas lzf_eval = lzf_compress_eq FRST_def lzf_loop.simps lzf_iter_def NEXT_def IDX_def HSIZE_def HLOG_def
  lzf_is_match_def lzf_match_branch_def lzf_put_lit_def MAX_LIT_def MAX_OFF_def MAX_REF_def Let_def lzf_end_run_def
  lzf_match_len_def lzf_extend.simps lzf_put_ref_def lzf_tail.simps

text \<open>
  C19.  LZF round trip: whatever the hash table contained before, what \<open>lzf_compress\<close> produces, \<open>lzf_decompress\<close> turns back
  into the input, and it does not write beyond it.
\<close>

theorem lzf_round_trip:
  assumes "2 \<le> length inp" "lzf_compress inp out htab = Some (n, out', htab')" "n \<noteq> 0"
    and "length inp \<le> length dst" "length dst < 2 ^ 31"
  shows "lzf_decompress (take n out') dst = Some (int (length inp), inp @ drop (length inp) dst)"
  using lzf_decompress_compress [OF assms] by (simp add: blit_def)

theorem lzf_round_trip_witness:
  "\<exists>n out' htab'. lzf_compress (replicate 100 7) (replicate 107 0) (\<lambda>_. Some 5) = Some (n, out', htab') \<and> n \<noteq> 0
    \<and> lzf_decompress (take n out') (replicate 100 0) = Some (100, replicate 100 7)"
proof -
  obtain n out' htab' where c: "lzf_compress (replicate 100 7) (replicate 107 0) (\<lambda>_. Some 5) = Some (n, out', htab')" "n \<noteq> 0"
    using lzf_compress_total [of "replicate 100 7" "replicate 107 0" "\<lambda>_. Some 5"] by fastforce
  with lzf_round_trip [OF _ c, of "replicate 100 0"] show ?thesis
    by auto
qed

text \<open>
  C20.  \<open>lzf_compress\<close> returns and stays inside its buffers for every input of at least two bytes, every output buffer and
  every contents of the hash table; it gives up only when the output buffer has fewer than \<open>n + n / 32 + 4\<close> bytes for \<open>n\<close> bytes
  of input.
\<close>

theorem lzf_compress_safe:
  assumes "2 \<le> length inp"
  shows "\<exists>n out' htab'. lzf_compress inp out htab = Some (n, out', htab') \<and> length out' = length out \<and> n \<le> length out
    \<and> (n = 0 \<longrightarrow> length out < length inp + length inp div 32 + 4)"
  using lzf_compress_total [OF assms, of out htab] by blast

theorem lzf_compress_safe_witness:
  "\<exists>n out' htab'. lzf_compress (replicate 64 1) (replicate 70 0) (\<lambda>_. None) = Some (n, out', htab') \<and> n \<noteq> 0 \<and> n \<le> 70"
  using lzf_compress_safe [of "replicate 64 1" "replicate 70 0" "\<lambda>_. None"] by fastforce

text \<open>
  C21.  \<open>lzf_decompress\<close> returns for every non-empty input, stays inside its buffers, and accepts exactly the item lists of the
  compressed format that fit: on success the output begins with what the items decode to and the result is its length; on an
  error code no item list that fits has these bytes.
\<close>

theorem lzf_decompress_exact:
  assumes "inp \<noteq> []" "length out < 2 ^ 31"
  shows "\<exists>r out'. lzf_decompress inp out = Some (r, out') \<and> length out' = length out
    \<and> ((\<exists>is. is \<noteq> [] \<and> items_ok 0 is \<and> inp = items_bytes is \<and> length (items_apply [] is) \<le> length out
           \<and> r = int (length (items_apply [] is)) \<and> out' = items_apply [] is @ drop (length (items_apply [] is)) out)
       \<or> (r = - E2BIG \<or> r = - EINVAL)
         \<and> \<not> (\<exists>is. is \<noteq> [] \<and> items_ok 0 is \<and> inp = items_bytes is \<and> length (items_apply [] is) \<le> length out))"
proof (cases "\<exists>is. is \<noteq> [] \<and> items_ok 0 is \<and> inp = items_bytes is \<and> length (items_apply [] is) \<le> length out")
  case True
  then obtain "is" where i: "is \<noteq> []" "items_ok 0 is" "inp = items_bytes is" "length (items_apply [] is) \<le> length out"
    by blast
  with lzf_decompress_items [OF i(1,2,4) assms(2)] show ?thesis
    by (auto simp: blit_def)
next
  case False
  with lzf_decompress_total [OF assms(1), of out] show ?thesis
    by auto
qed

theorem lzf_decompress_exact_witness:
  "\<exists>r out'. lzf_decompress [0, 7, 32, 0] (replicate 8 0) = Some (r, out') \<and> length out' = 8"
  using lzf_decompress_exact [of "[0, 7, 32, 0]" "replicate 8 0"] by auto

text \<open>
  C22.  Reads outside the input: \<open>lzf_compress\<close> on a single byte (the macro \<open>FRST\<close> reads the second byte before any length
  check) and \<open>lzf_decompress\<close> on no input at all (the loop body runs before the first test).
\<close>

theorem lzf_short_input_overread:
  assumes "out \<noteq> []"
  shows "lzf_compress [x] out htab = None \<and> lzf_decompress [] out = None"
  using assms
  by (simp_all add: lzf_compress_eq FRST_def rd_def lzf_decompress_def lzf_dec_loop.simps lzf_dec_iter_def)

theorem lzf_short_input_overread_witness:
  "lzf_compress [5] (replicate 16 0) (\<lambda>_. None) = None"
  using lzf_short_input_overread [of "replicate 16 0" 5 "\<lambda>_. None"] by simp

text \<open>
  Compression is not repeatable: the result depends on what the hash table contained before the call, because the
  initialisation at the start of \<open>lzf_compress\<close> clears one entry only.
\<close>

theorem lzf_compress_not_repeatable:
  "\<exists>inp out htab1 htab2.
     map_option (\<lambda>(n, out', h). take n out') (lzf_compress inp out htab1) \<noteq>
     map_option (\<lambda>(n, out', h). take n out') (lzf_compress inp out htab2)"
proof -
  let ?inp = "[9, 1, 2, 3, 4, 1, 2, 3, 5, 6, 2, 3, 5, 7, 8, 9]" and ?out = "[0, 0, 0, 0, 0, 0, 0, 0, 0, 0, 0, 0, 0, 0, 0, 0, 0, 0, 0, 0, 0]"
  have e1: "map_option (\<lambda>(n, out', h). take n out') (lzf_compress ?inp ?out (\<lambda>_. None)) =
      Some [4, 9, 1, 2, 3, 4, 32, 3, 7, 5, 6, 2, 3, 5, 7, 8, 9]"
    by (simp add: lzf_eval)
  have e2: "map_option (\<lambda>(n, out', h). take n out') (lzf_compress ?inp ?out (\<lambda>_. Some 6)) =
      Some [4, 9, 1, 2, 3, 4, 32, 3, 1, 5, 6, 32, 3, 2, 7, 8, 9]"
    by (simp add: lzf_eval)
  have "map_option (\<lambda>(n, out', h). take n out') (lzf_compress ?inp ?out (\<lambda>_. None)) \<noteq>
      map_option (\<lambda>(n, out', h). take n out') (lzf_compress ?inp ?out (\<lambda>_. Some 6))"
    unfolding e1 e2 by simp
  then show ?thesis
    by blast
qed

text \<open>
  C24.  On zlib, with the code of \<open>zlib.c\<close> around a library that behaves as documented, encoding a chunk always succeeds and decoding
  gives the chunk back.  The decompression of any data whatsoever returns: it delivers the library's output if the data is one complete
  stream, with nothing behind it, that fills the chunk exactly, and is refused otherwise.
\<close>

theorem chunk_decode_encode_zlib:
  assumes "zlib_documented lib" "b_zlib b = isrcry_zlib_desc lib" "b_zlib b' = isrcry_zlib_desc lib"
    and "16 dvd length inp" "inp \<noteq> []" "length inp < 2 ^ 32" "length inp \<le> length out"
  shows "(\<exists>out' n tag key c'.
      iu_chunk_encode b IU_CHUNK_CRY_AES_SHA1 inp out IU_CHUNK_COMP_ZLIB = Some (Some (out', n, tag, key, c'))
      \<and> n \<le> length inp \<and> tag = sha1_spec_hash (take n out')
      \<and> (\<forall>dst. length dst = length inp \<longrightarrow>
           iu_chunk_decode b' IU_CHUNK_CRY_AES_SHA1 c' (take n out') key dst = Some (Some inp)))
    \<and> (\<forall>z dst. length dst < 2 ^ 32 \<longrightarrow> chunk_decompress b' ISRCRY_COMPRESS_ZLIB z dst =
         Some (case inflate lib Z_FINISH (stream_setup (inflate_new lib) z dst) of (ret, s) \<Rightarrow>
           if ret = Z_STREAM_END \<and> z_next_in s = [] \<and> z_avail_out s = 0 then Some (z_next_out s) else None))"
  using chunk_round_trip_zlib [OF assms] chunk_decompress_zlib [OF assms(1,3)] by (fastforce simp: chunk_sealed_def)

text \<open>Witness for C24: 64 equal bytes, and a compressed stream with a byte too many.\<close>

theorem chunk_decode_encode_zlib_witness:
  "(\<exists>out' n tag key c'.
      iu_chunk_encode run_backends IU_CHUNK_CRY_AES_SHA1 (replicate 64 7) (replicate 64 0) IU_CHUNK_COMP_ZLIB =
        Some (Some (out', n, tag, key, c')) \<and> n \<le> 64
      \<and> iu_chunk_decode run_backends IU_CHUNK_CRY_AES_SHA1 c' (take n out') key (replicate 64 1) = Some (Some (replicate 64 7)))
    \<and> chunk_decompress run_backends ISRCRY_COMPRESS_ZLIB [64, 7] (replicate 64 0) = Some (Some (replicate 64 7))
    \<and> chunk_decompress run_backends ISRCRY_COMPRESS_ZLIB [64, 7, 0] (replicate 64 0) = Some None"
proof -
  have b: "b_zlib run_backends = isrcry_zlib_desc run_zlib"
    by (simp add: run_backends_def)
  have t: "(\<exists>out' n tag key c'.
        iu_chunk_encode run_backends IU_CHUNK_CRY_AES_SHA1 (replicate 64 7) (replicate 64 0) IU_CHUNK_COMP_ZLIB =
          Some (Some (out', n, tag, key, c'))
        \<and> n \<le> length (replicate 64 (7 :: u8)) \<and> tag = sha1_spec_hash (take n out')
        \<and> (\<forall>dst. length dst = length (replicate 64 (7 :: u8)) \<longrightarrow>
           iu_chunk_decode run_backends IU_CHUNK_CRY_AES_SHA1 c' (take n out') key dst = Some (Some (replicate 64 7))))"
    "\<And>z dst. length dst < 2 ^ 32 \<Longrightarrow> chunk_decompress run_backends ISRCRY_COMPRESS_ZLIB z dst =
         Some (case inflate run_zlib Z_FINISH (stream_setup (inflate_new run_zlib) z dst) of (ret, s) \<Rightarrow>
           if ret = Z_STREAM_END \<and> z_next_in s = [] \<and> z_avail_out s = 0 then Some (z_next_out s) else None)"
    using chunk_decode_encode_zlib [OF run_zlib_documented b b, of "replicate 64 7" "replicate 64 0"] by simp_all
  from t(1) have "\<exists>out' n tag key c'.
      iu_chunk_encode run_backends IU_CHUNK_CRY_AES_SHA1 (replicate 64 7) (replicate 64 0) IU_CHUNK_COMP_ZLIB =
        Some (Some (out', n, tag, key, c')) \<and> n \<le> 64
      \<and> iu_chunk_decode run_backends IU_CHUNK_CRY_AES_SHA1 c' (take n out') key (replicate 64 1) = Some (Some (replicate 64 7))"
    by fastforce
  moreover have "chunk_decompress run_backends ISRCRY_COMPRESS_ZLIB [64, 7] (replicate 64 0) = Some (Some (replicate 64 7))"
    "chunk_decompress run_backends ISRCRY_COMPRESS_ZLIB [64, 7, 0] (replicate 64 0) = Some None"
    by (simp_all add: t(2) run_zlib_def run_inflate_def stream_setup_def)
  ultimately show ?thesis
    by blast
qed

end
